(* ===== verification/Prelude.thy ===== *)
theory Prelude
  imports Main "HOL-Library.Word" "HOL-Library.Monad_Syntax"
begin

text \<open>
  Shared vocabulary of the development: the machine integers of the C code, the
  error numbers its functions return, the conventions for aborts and errors, and the
  generic lemmas on lists and options that the component theories use.

  Conventions. A C function that can run into a failing \<open>grid_assert\<close>,
  \<open>errno_assert\<close> or \<open>errnum_assert\<close>, or that would dereference memory it must
  not touch, returns an \<open>option\<close>: \<open>None\<close> is the abort (or the undefined
  behaviour). A C function that returns a negative error number returns a sum: \<open>Inl e\<close>
  is the return value \<open>-e\<close>, \<open>Inr r\<close> is success.
\<close>

unbundle bit_operations_syntax

type_synonym u8 = "8 word"
type_synonym u16 = "16 word"
type_synonym u32 = "32 word"
type_synonym u64 = "64 word"
type_synonym bytes = "u8 list"

datatype errno = EAGAIN | EINVAL | ENOMEM | EISCONN | EFSM | ETIMEDOUT | ENOTSUP
  | ENOPROTOOPT | EPROTO | ENAMETOOLONG | ENODEV | EADDRINUSE | ECONNREFUSED | EBADF
  | ETERM | EINTR | EMFILE | EFAULT | EAFNOSUPPORT | EPROTONOSUPPORT | EHOSTUNREACH
  | ENOTCONN | ECONNRESET | EMSGSIZE | EPERM
  | ENOBUFS | ENFILE | ECONNABORTED | EINPROGRESS

named_theorems abort_simps \<open>unfolding of the guards that model asserts\<close>
named_theorems inv_intro \<open>preservation of component invariants\<close>

section \<open>Asserts\<close>

definition guard :: "bool \<Rightarrow> unit option" where
  "guard b = (if b then Some () else None)"

lemma guard_True [simp]: "guard True = Some ()"
  by (simp add: guard_def)

lemma guard_False [simp]: "guard False = None"
  by (simp add: guard_def)

lemma guard_eq_Some [simp]: "guard b = Some u \<longleftrightarrow> b"
  by (simp add: guard_def)

lemma guard_eq_None [simp]: "guard b = None \<longleftrightarrow> \<not> b"
  by (simp add: guard_def)

lemma bind_guard [simp]: "(guard b \<bind> f) = (if b then f () else None)"
  by (simp add: guard_def)

lemmas [abort_simps] = bind_eq_Some_conv guard_def

section \<open>Lists\<close>

lemma remove1_append_mid [simp]:
  "x \<notin> set as \<Longrightarrow> remove1 x (as @ x # bs) = as @ bs"
  by (simp add: remove1_append)

lemma distinct_split_unique:
  "distinct (as @ x # bs) \<Longrightarrow> as @ x # bs = cs @ x # ds \<Longrightarrow> as = cs \<and> bs = ds"
  by (metis append_Cons_eq_iff distinct.simps(2) distinct_append not_distinct_conv_prefix)

end
