(* ===== verification/Wire.thy ===== *)
theory Wire
  imports Prelude
begin

text \<open>
  Network byte order (\<open>src/utils/wire.c\<close>). Reading and writing a buffer that is too
  short is an access out of bounds: \<open>None\<close>.
\<close>

fun grid_gets :: "bytes \<Rightarrow> u16 option" where
  "grid_gets (b0 # b1 # _) = Some (push_bit 8 (ucast b0) OR ucast b1)"
| "grid_gets _ = None"

definition grid_puts :: "bytes \<Rightarrow> u16 \<Rightarrow> bytes option" where
  "grid_puts buf val =
     (if length buf < 2 then None
      else Some (buf[0 := ucast (drop_bit 8 val AND 0xff), 1 := ucast (val AND 0xff)]))"

fun grid_getl :: "bytes \<Rightarrow> u32 option" where
  "grid_getl (b0 # b1 # b2 # b3 # _) =
     Some (push_bit 24 (ucast b0) OR push_bit 16 (ucast b1) OR push_bit 8 (ucast b2) OR ucast b3)"
| "grid_getl _ = None"

definition grid_putl :: "bytes \<Rightarrow> u32 \<Rightarrow> bytes option" where
  "grid_putl buf val =
     (if length buf < 4 then None
      else Some (buf[0 := ucast (drop_bit 24 val AND 0xff), 1 := ucast (drop_bit 16 val AND 0xff),
                     2 := ucast (drop_bit 8 val AND 0xff), 3 := ucast (val AND 0xff)]))"

fun grid_getll :: "bytes \<Rightarrow> u64 option" where
  "grid_getll (b0 # b1 # b2 # b3 # b4 # b5 # b6 # b7 # _) =
     Some (push_bit 56 (ucast b0) OR push_bit 48 (ucast b1) OR push_bit 40 (ucast b2)
       OR push_bit 32 (ucast b3) OR push_bit 24 (ucast b4) OR push_bit 16 (ucast b5)
       OR push_bit 8 (ucast b6) OR push_bit 0 (ucast b7))"
| "grid_getll _ = None"

definition grid_putll :: "bytes \<Rightarrow> u64 \<Rightarrow> bytes option" where
  "grid_putll buf val =
     (if length buf < 8 then None
      else Some (buf[0 := ucast (drop_bit 56 val AND 0xff), 1 := ucast (drop_bit 48 val AND 0xff),
                     2 := ucast (drop_bit 40 val AND 0xff), 3 := ucast (drop_bit 32 val AND 0xff),
                     4 := ucast (drop_bit 24 val AND 0xff), 5 := ucast (drop_bit 16 val AND 0xff),
                     6 := ucast (drop_bit 8 val AND 0xff), 7 := ucast (val AND 0xff)]))"

section \<open>Lengths and round trips\<close>

lemma list_ge2_cases: "2 \<le> length xs \<Longrightarrow> \<exists>a b ys. xs = a # b # ys"
  by (metis Suc_le_length_iff numeral_2_eq_2)

lemma list_ge4_cases: "4 \<le> length xs \<Longrightarrow> \<exists>a b c d ys. xs = a # b # c # d # ys"
  by (metis Suc_le_length_iff numeral_eq_Suc pred_numeral_simps(3) pred_numeral_simps(2) BitM.simps(2) Num.BitM_plus_one One_nat_def numeral_One list_ge2_cases)

lemma list_ge8_cases:
  "8 \<le> length xs \<Longrightarrow> \<exists>a b c d e f g h ys. xs = a # b # c # d # e # f # g # h # ys"
proof -
  assume a: "8 \<le> length xs"
  then obtain a b c d ys where xs: "xs = a # b # c # d # ys"
    using list_ge4_cases [of xs] by auto
  with a show ?thesis using list_ge4_cases [of ys] by auto
qed

lemma grid_getl_defined: "4 \<le> length buf \<Longrightarrow> \<exists>v. grid_getl buf = Some v"
  by (auto dest!: list_ge4_cases)

lemma bit_byte_mask [simp]: "bit (255 :: int) n \<longleftrightarrow> n < 8"
proof -
  have "(255 :: int) = mask 8" by (simp add: mask_eq_exp_minus_1)
  then show ?thesis by (simp only: bit_mask_iff) simp
qed

lemma ucast_byte [simp]: "(ucast (x AND 255) :: u8) = ucast x"
  by (rule bit_word_eqI) (auto simp: bit_simps dest: bit_imp_le_length)

lemma word16_of_bytes:
  "push_bit 8 (ucast (ucast (drop_bit 8 v) :: u8)) OR ucast (ucast v :: u8) = (v :: u16)"
proof (rule bit_word_eqI)
  fix n assume n: "n < LENGTH(16)"
  show "bit (push_bit 8 (ucast (ucast (drop_bit 8 v) :: u8)) OR ucast (ucast v :: u8) :: u16) n = bit v n"
    using n by (cases "n < 8") (auto simp: bit_simps)
qed

lemma word32_of_bytes:
  "push_bit 24 (ucast (ucast (drop_bit 24 v) :: u8)) OR push_bit 16 (ucast (ucast (drop_bit 16 v) :: u8))
     OR push_bit 8 (ucast (ucast (drop_bit 8 v) :: u8)) OR ucast (ucast v :: u8) = (v :: u32)"
  (is "?w = v")
proof (rule bit_word_eqI)
  fix n assume n: "n < LENGTH(32)"
  consider "n < 8" | "8 \<le> n" "n < 16" | "16 \<le> n" "n < 24" | "24 \<le> n" by linarith
  then show "bit ?w n = bit v n"
    using n by cases (simp_all add: bit_simps less_diff_conv2)
qed

lemma word64_of_bytes:
  "push_bit 56 (ucast (ucast (drop_bit 56 v) :: u8)) OR push_bit 48 (ucast (ucast (drop_bit 48 v) :: u8))
     OR push_bit 40 (ucast (ucast (drop_bit 40 v) :: u8)) OR push_bit 32 (ucast (ucast (drop_bit 32 v) :: u8))
     OR push_bit 24 (ucast (ucast (drop_bit 24 v) :: u8)) OR push_bit 16 (ucast (ucast (drop_bit 16 v) :: u8))
     OR push_bit 8 (ucast (ucast (drop_bit 8 v) :: u8)) OR ucast (ucast v :: u8) = (v :: u64)"
  (is "?w = v")
proof (rule bit_word_eqI)
  fix n assume n: "n < LENGTH(64)"
  consider "n < 8" | "8 \<le> n" "n < 16" | "16 \<le> n" "n < 24" | "24 \<le> n" "n < 32"
    | "32 \<le> n" "n < 40" | "40 \<le> n" "n < 48" | "48 \<le> n" "n < 56" | "56 \<le> n" by linarith
  then show "bit ?w n = bit v n"
    using n by cases (simp_all add: bit_simps less_diff_conv2)
qed

lemma grid_puts_defined: "2 \<le> length buf \<Longrightarrow> \<exists>buf'. grid_puts buf v = Some buf'"
  by (simp add: grid_puts_def)

lemma grid_putl_defined: "4 \<le> length buf \<Longrightarrow> \<exists>buf'. grid_putl buf v = Some buf'"
  by (simp add: grid_putl_def)

lemma grid_gets_puts: "grid_puts buf v = Some buf' \<Longrightarrow> grid_gets buf' = Some v"
  by (auto simp: grid_puts_def not_less word16_of_bytes dest!: list_ge2_cases split: if_splits)

lemma grid_getl_putl: "grid_putl buf v = Some buf' \<Longrightarrow> grid_getl buf' = Some v"
  by (auto simp: grid_putl_def not_less word32_of_bytes dest!: list_ge4_cases split: if_splits)

lemma grid_getll_putll: "grid_putll buf v = Some buf' \<Longrightarrow> grid_getll buf' = Some v"
  by (auto simp: grid_putll_def not_less word64_of_bytes dest!: list_ge8_cases split: if_splits)

text \<open>A write touches only its own bytes.\<close>

lemma grid_putl_frame:
  "grid_putl buf v = Some buf' \<Longrightarrow> length buf' = length buf \<and> drop 4 buf' = drop 4 buf"
  by (auto simp: grid_putl_def drop_update_cancel split: if_splits)

lemma grid_puts_frame:
  "grid_puts buf v = Some buf' \<Longrightarrow> length buf' = length buf \<and> drop 2 buf' = drop 2 buf"
  by (auto simp: grid_puts_def drop_update_cancel split: if_splits)

lemma grid_putll_frame:
  "grid_putll buf v = Some buf' \<Longrightarrow> length buf' = length buf \<and> drop 8 buf' = drop 8 buf"
  by (auto simp: grid_putll_def drop_update_cancel split: if_splits)

text \<open>Reading looks only at the first bytes.\<close>

lemma grid_getl_take: "grid_getl (take 4 buf @ rest) = grid_getl buf" if "4 \<le> length buf"
  using that by (auto dest!: list_ge4_cases)

text \<open>Writing back what was read gives the same bytes.\<close>

lemma bytes_of_word32:
  fixes b0 b1 b2 b3 :: u8
  defines "v \<equiv> (push_bit 24 (ucast b0) OR push_bit 16 (ucast b1) OR push_bit 8 (ucast b2) OR ucast b3 :: u32)"
  shows "ucast (drop_bit 24 v) = b0" "ucast (drop_bit 16 v) = b1" "ucast (drop_bit 8 v) = b2" "ucast v = b3"
  unfolding v_def by (rule bit_word_eqI, auto simp: bit_simps dest: bit_imp_le_length)+

lemma grid_putl_getl: "grid_getl buf = Some v \<Longrightarrow> grid_putl (replicate 4 0) v = Some (take 4 buf)"
proof -
  assume a: "grid_getl buf = Some v"
  then have "4 \<le> length buf" by (cases buf rule: grid_getl.cases) simp_all
  then obtain b0 b1 b2 b3 ys where b: "buf = b0 # b1 # b2 # b3 # ys" using list_ge4_cases by blast
  with a have v: "v = push_bit 24 (ucast b0) OR push_bit 16 (ucast b1) OR push_bit 8 (ucast b2) OR ucast b3" by simp
  show ?thesis
    using bytes_of_word32 [of b0 b1 b2 b3, folded v] by (simp add: grid_putl_def b eval_nat_numeral)
qed

end
