(* ===== verification/GList.thy ===== *)
theory GList
  imports Prelude
begin

text \<open>
  The intrusive doubly linked list (\<open>src/utils/list.c\<close>). Items live in a store from
  addresses to their two link fields, so that the pointer updates of the code are explicit;
  \<open>dll m l xs\<close> says that the list header \<open>l\<close> and the store \<open>m\<close> represent
  the sequence \<open>xs\<close> of item addresses. The lemmas show that every operation implements
  the operation on sequences and touches no item outside the list. The components that keep
  items in such lists are modelled over the sequences.
\<close>

section \<open>Items, lists and operations\<close>

datatype lptr = LNull | LNotInList | LAt nat

record grid_list_item =
  li_next :: lptr
  li_prev :: lptr

record grid_list =
  gl_first :: lptr
  gl_last :: lptr

type_synonym list_mem = "nat \<Rightarrow> grid_list_item"

definition grid_list_init :: grid_list where
  "grid_list_init = \<lparr>gl_first = LNull, gl_last = LNull\<rparr>"

definition grid_list_term :: "grid_list \<Rightarrow> unit option" where
  "grid_list_term l = do { guard (gl_first l = LNull); guard (gl_last l = LNull) }"

definition grid_list_empty :: "grid_list \<Rightarrow> bool" where
  "grid_list_empty l \<longleftrightarrow> \<not> gl_first l \<noteq> LNull"

definition grid_list_begin :: "grid_list \<Rightarrow> lptr" where
  "grid_list_begin l = gl_first l"

definition grid_list_end :: "grid_list \<Rightarrow> lptr" where
  "grid_list_end l = LNull"

definition deref_item :: "list_mem \<Rightarrow> lptr \<Rightarrow> grid_list_item option" where
  "deref_item m p = (case p of LAt a \<Rightarrow> Some (m a) | _ \<Rightarrow> None)"

definition grid_list_prev :: "list_mem \<Rightarrow> grid_list \<Rightarrow> lptr \<Rightarrow> lptr option" where
  "grid_list_prev m l it =
     (if it = LNull then Some (gl_last l)
      else do { x \<leftarrow> deref_item m it; guard (li_prev x \<noteq> LNotInList); Some (li_prev x) })"

definition grid_list_next :: "list_mem \<Rightarrow> lptr \<Rightarrow> lptr option" where
  "grid_list_next m it =
     do { x \<leftarrow> deref_item m it; guard (li_next x \<noteq> LNotInList); Some (li_next x) }"

definition grid_list_item_init :: "list_mem \<Rightarrow> nat \<Rightarrow> list_mem" where
  "grid_list_item_init m a = m(a := \<lparr>li_next = LNotInList, li_prev = LNotInList\<rparr>)"

definition grid_list_item_isinlist :: "list_mem \<Rightarrow> nat \<Rightarrow> bool" where
  "grid_list_item_isinlist m a \<longleftrightarrow> \<not> li_prev (m a) = LNotInList"

definition grid_list_item_term :: "list_mem \<Rightarrow> nat \<Rightarrow> unit option" where
  "grid_list_item_term m a = guard (\<not> grid_list_item_isinlist m a)"

text \<open>Stores through a pointer: \<open>p->next = v\<close> and \<open>p->prev = v\<close>.\<close>

definition set_next :: "list_mem \<Rightarrow> lptr \<Rightarrow> lptr \<Rightarrow> list_mem option" where
  "set_next m p v = (case p of LAt a \<Rightarrow> Some (m(a := (m a)\<lparr>li_next := v\<rparr>)) | _ \<Rightarrow> None)"

definition set_prev :: "list_mem \<Rightarrow> lptr \<Rightarrow> lptr \<Rightarrow> list_mem option" where
  "set_prev m p v = (case p of LAt a \<Rightarrow> Some (m(a := (m a)\<lparr>li_prev := v\<rparr>)) | _ \<Rightarrow> None)"

definition grid_list_insert ::
  "list_mem \<Rightarrow> grid_list \<Rightarrow> nat \<Rightarrow> lptr \<Rightarrow> (list_mem \<times> grid_list) option" where
  "grid_list_insert m l item it = do {
     guard (\<not> grid_list_item_isinlist m item);
     pv \<leftarrow> (if it \<noteq> LNull then map_option li_prev (deref_item m it) else Some (gl_last l));
     let m1 = m(item := \<lparr>li_next = it, li_prev = pv\<rparr>);
     m2 \<leftarrow> (if pv \<noteq> LNull then set_next m1 pv (LAt item) else Some m1);
     m3 \<leftarrow> (if it \<noteq> LNull then set_prev m2 it (LAt item) else Some m2);
     let l1 = (if gl_first l = LNull \<or> gl_first l = it then l\<lparr>gl_first := LAt item\<rparr> else l);
     let l2 = (if it = LNull then l1\<lparr>gl_last := LAt item\<rparr> else l1);
     Some (m3, l2) }"

definition grid_list_erase ::
  "list_mem \<Rightarrow> grid_list \<Rightarrow> nat \<Rightarrow> (list_mem \<times> grid_list \<times> lptr) option" where
  "grid_list_erase m l item = do {
     guard (grid_list_item_isinlist m item);
     (m1, l1) \<leftarrow> (if li_prev (m item) \<noteq> LNull
        then map_option (\<lambda>m'. (m', l)) (set_next m (li_prev (m item)) (li_next (m item)))
        else Some (m, l\<lparr>gl_first := li_next (m item)\<rparr>));
     (m2, l2) \<leftarrow> (if li_next (m1 item) \<noteq> LNull
        then map_option (\<lambda>m'. (m', l1)) (set_prev m1 (li_next (m1 item)) (li_prev (m1 item)))
        else Some (m1, l1\<lparr>gl_last := li_prev (m1 item)\<rparr>));
     let next = li_next (m2 item);
     Some (m2(item := \<lparr>li_next = LNotInList, li_prev = LNotInList\<rparr>), l2, next) }"

text \<open>
  The traversal loop \<open>for (it = begin; it != end; it = next (it))\<close> that the callers write,
  as the list of the items it visits; it does not return on a cyclic list.
\<close>

partial_function (option) list_visit :: "list_mem \<Rightarrow> lptr \<Rightarrow> nat list \<Rightarrow> nat list option" where
  "list_visit m it acc =
     (case it of LNull \<Rightarrow> Some (rev acc)
      | LNotInList \<Rightarrow> None
      | LAt a \<Rightarrow> Option.bind (grid_list_next m it) (\<lambda>nx. list_visit m nx (a # acc)))"

section \<open>The sequence a list represents\<close>

fun ptr_hd :: "nat list \<Rightarrow> lptr \<Rightarrow> lptr" where
  "ptr_hd [] nx = nx"
| "ptr_hd (x # xs) nx = LAt x"

fun ptr_last :: "lptr \<Rightarrow> nat list \<Rightarrow> lptr" where
  "ptr_last pv [] = pv"
| "ptr_last pv (x # xs) = ptr_last (LAt x) xs"

fun linked :: "list_mem \<Rightarrow> lptr \<Rightarrow> nat list \<Rightarrow> lptr \<Rightarrow> bool" where
  "linked m pv [] nx \<longleftrightarrow> True"
| "linked m pv (x # xs) nx \<longleftrightarrow>
     li_prev (m x) = pv \<and> li_next (m x) = ptr_hd xs nx \<and> linked m (LAt x) xs nx"

definition dll :: "list_mem \<Rightarrow> grid_list \<Rightarrow> nat list \<Rightarrow> bool" where
  "dll m l xs \<longleftrightarrow> distinct xs \<and> gl_first l = ptr_hd xs LNull \<and> gl_last l = ptr_last LNull xs
     \<and> linked m LNull xs LNull"

lemma ptr_hd_append [simp]: "ptr_hd (xs @ ys) nx = ptr_hd xs (ptr_hd ys nx)"
  by (cases xs) auto

lemma ptr_last_append [simp]: "ptr_last pv (xs @ ys) = ptr_last (ptr_last pv xs) ys"
  by (induction xs arbitrary: pv) auto

lemma ptr_hd_LNull [simp]: "ptr_hd xs LNull = LNull \<longleftrightarrow> xs = []"
  by (cases xs) auto

lemma ptr_last_LNull [simp]: "ptr_last LNull xs = LNull \<longleftrightarrow> xs = []"
proof -
  have "ptr_last (LAt a) ys \<noteq> LNull" for a ys
    by (induction ys arbitrary: a) auto
  then show ?thesis by (cases xs) auto
qed

lemma ptr_hd_LNotInList [simp]: "ptr_hd xs LNull \<noteq> LNotInList"
  by (cases xs) auto

lemma ptr_last_cases: "ptr_last pv xs = (if xs = [] then pv else LAt (last xs))"
  by (induction xs arbitrary: pv) auto

lemma linked_append [simp]:
  "linked m pv (xs @ ys) nx \<longleftrightarrow> linked m pv xs (ptr_hd ys nx) \<and> linked m (ptr_last pv xs) ys nx"
  by (induction xs arbitrary: pv) auto

lemma linked_upd_other [simp]: "a \<notin> set xs \<Longrightarrow> linked (m(a := v)) pv xs nx = linked m pv xs nx"
  by (induction xs arbitrary: pv) auto

lemma dll_isinlist: "dll m l xs \<Longrightarrow> x \<in> set xs \<Longrightarrow> grid_list_item_isinlist m x"
  by (auto simp: dll_def grid_list_item_isinlist_def ptr_last_cases dest!: split_list split: if_splits)

text \<open>Re-linking the last item of a prefix, or the first item of a suffix.\<close>

lemma linked_set_last_next:
  assumes "distinct as" and "linked m pv as nx" and "as \<noteq> []"
  shows "linked (m(last as := (m (last as))\<lparr>li_next := nx'\<rparr>)) pv as nx'"
proof -
  obtain bs b where as: "as = bs @ [b]" using assms(3) by (cases as rule: rev_cases) auto
  with assms(1,2) show ?thesis by auto
qed

lemma linked_set_first_prev:
  assumes "distinct bs" and "linked m pv bs nx" and "bs = b # cs"
  shows "linked (m(b := (m b)\<lparr>li_prev := pv'\<rparr>)) pv' bs nx"
  using assms by auto

section \<open>The operations on the represented sequence\<close>

lemma dll_init: "dll m grid_list_init []"
  by (simp add: dll_def grid_list_init_def)

lemma dll_empty: "dll m l xs \<Longrightarrow> grid_list_empty l \<longleftrightarrow> xs = []"
  by (simp add: dll_def grid_list_empty_def)

lemma dll_term: "dll m l xs \<Longrightarrow> grid_list_term l = Some () \<longleftrightarrow> xs = []"
  by (simp add: dll_def grid_list_term_def)

lemma dll_begin: "dll m l xs \<Longrightarrow> grid_list_begin l = ptr_hd xs LNull"
  by (simp add: dll_def grid_list_begin_def)

lemma dll_next: "dll m l (as @ x # bs) \<Longrightarrow> grid_list_next m (LAt x) = Some (ptr_hd bs LNull)"
  by (simp add: dll_def grid_list_next_def deref_item_def)

lemma dll_prev: "dll m l (as @ bs) \<Longrightarrow> grid_list_prev m l (ptr_hd bs LNull) = Some (ptr_last LNull as)"
  by (cases bs) (auto simp: dll_def grid_list_prev_def deref_item_def ptr_last_cases)

lemma dll_insert:
  assumes d: "dll m l (as @ bs)" and x: "\<not> grid_list_item_isinlist m x"
  shows "\<exists>m' l'. grid_list_insert m l x (ptr_hd bs LNull) = Some (m', l') \<and> dll m' l' (as @ x # bs)
     \<and> (\<forall>y. y \<notin> set (as @ x # bs) \<longrightarrow> m' y = m y)"
proof -
  have xn: "x \<notin> set as" "x \<notin> set bs" using dll_isinlist [OF d] x by auto
  have da: "distinct as" "distinct bs" "set as \<inter> set bs = {}"
    and la: "linked m LNull as (ptr_hd bs LNull)" and lb: "linked m (ptr_last LNull as) bs LNull"
    and f: "gl_first l = ptr_hd as (ptr_hd bs LNull)"
    and g: "gl_last l = ptr_last (ptr_last LNull as) bs"
    using d by (auto simp: dll_def)
  show ?thesis
  proof (cases as rule: rev_cases)
    case Nil
    with xn da lb f g x show ?thesis
      by (cases bs) (auto simp: grid_list_insert_def deref_item_def set_prev_def dll_def)
  next
    case (snoc as' a)
    with xn da la lb f g x show ?thesis
      by (cases bs; cases as')
        (auto simp: grid_list_insert_def deref_item_def set_prev_def set_next_def dll_def)
  qed
qed

lemma dll_erase:
  assumes d: "dll m l (as @ x # bs)"
  shows "\<exists>m' l'. grid_list_erase m l x = Some (m', l', ptr_hd bs LNull) \<and> dll m' l' (as @ bs)
     \<and> \<not> grid_list_item_isinlist m' x \<and> (\<forall>y. y \<notin> set (as @ x # bs) \<longrightarrow> m' y = m y)"
proof -
  have i: "grid_list_item_isinlist m x" using dll_isinlist [OF d] by simp
  show ?thesis
  proof (cases as rule: rev_cases)
    case Nil
    with d i show ?thesis
      by (cases bs) (auto simp: grid_list_erase_def set_prev_def dll_def grid_list_item_isinlist_def)
  next
    case (snoc as' a)
    with d i show ?thesis
      by (cases bs; cases as')
        (auto simp: grid_list_erase_def set_prev_def set_next_def dll_def grid_list_item_isinlist_def)
  qed
qed

lemma list_visit_linked:
  "linked m pv xs LNull \<Longrightarrow> list_visit m (ptr_hd xs LNull) acc = Some (rev acc @ xs)"
proof (induction xs arbitrary: pv acc)
  case Nil
  then show ?case by (simp add: list_visit.simps)
next
  case (Cons x xs)
  then have "list_visit m (ptr_hd xs LNull) (x # acc) = Some (rev (x # acc) @ xs)"
    by (intro Cons.IH [of "LAt x"]) simp
  with Cons.prems show ?case
    by (simp add: list_visit.simps [of m "LAt x"] grid_list_next_def deref_item_def)
qed

lemma dll_visit: "dll m l xs \<Longrightarrow> list_visit m (grid_list_begin l) [] = Some xs"
  using list_visit_linked [of m LNull xs "[]"] by (simp add: dll_def grid_list_begin_def)

end
