(* ===== verification/Fifo.thy ===== *)
theory Fifo
  imports Prelude
begin

text \<open>
  The contract of a first-in first-out queue, shared by the intrusive queue of the event
  loops (\<open>src/utils/queue.c\<close>) and the chunked message queue of the inproc transport
  (\<open>src/transports/inproc/msgqueue.c\<close>). \<open>rep s xs\<close> says that the state \<open>s\<close>
  holds the sequence \<open>xs\<close>; \<open>fits n\<close> bounds the number of items
  for which the provider's counters do not wrap; \<open>push x s\<close> is \<open>None\<close> when the queue does not accept
  \<open>x\<close>; \<open>pop s\<close> gives the item taken, if any.
\<close>

fun push_all :: "('a \<Rightarrow> 's \<Rightarrow> 's option) \<Rightarrow> 'a list \<Rightarrow> 's \<Rightarrow> 's option" where
  "push_all push [] s = Some s"
| "push_all push (x # xs) s = Option.bind (push x s) (push_all push xs)"

fun pop_times :: "('s \<Rightarrow> ('a option \<times> 's) option) \<Rightarrow> nat \<Rightarrow> 's \<Rightarrow> ('a list \<times> 's) option" where
  "pop_times pop 0 s = Some ([], s)"
| "pop_times pop (Suc n) s =
     (case pop s of
        None \<Rightarrow> None
      | Some (None, s') \<Rightarrow> Some ([], s')
      | Some (Some x, s') \<Rightarrow> map_option (\<lambda>(xs, s''). (x # xs, s'')) (pop_times pop n s'))"

locale fifo =
  fixes rep :: "'s \<Rightarrow> 'a list \<Rightarrow> bool"
    and push :: "'a \<Rightarrow> 's \<Rightarrow> 's option"
    and pop :: "'s \<Rightarrow> ('a option \<times> 's) option"
    and fits :: "nat \<Rightarrow> bool"
  assumes push_rep: "rep s xs \<Longrightarrow> fits (Suc (length xs)) \<Longrightarrow> push x s = Some s' \<Longrightarrow> rep s' (xs @ [x])"
    and pop_empty: "rep s [] \<Longrightarrow> pop s = Some (None, s)"
    and pop_first: "rep s (x # xs) \<Longrightarrow> \<exists>s'. pop s = Some (Some x, s') \<and> rep s' xs"
    and fits_mono: "fits n \<Longrightarrow> k \<le> n \<Longrightarrow> fits k"
begin

lemma push_all_rep:
  "rep s xs \<Longrightarrow> fits (length xs + length ys) \<Longrightarrow> push_all push ys s = Some s' \<Longrightarrow> rep s' (xs @ ys)"
proof (induction ys arbitrary: s xs)
  case Nil
  then show ?case by simp
next
  case (Cons y ys)
  then obtain s1 where s1: "push y s = Some s1" "push_all push ys s1 = Some s'"
    by (auto simp: bind_eq_Some_conv)
  have "fits (Suc (length xs))" using fits_mono [OF Cons.prems(2)] by simp
  with s1 Cons.IH [of s1 "xs @ [y]"] Cons.prems push_rep [OF Cons.prems(1)] show ?case by simp
qed

lemma pop_times_rep:
  "rep s xs \<Longrightarrow> \<exists>s'. pop_times pop n s = Some (take n xs, s') \<and> rep s' (drop n xs)"
proof (induction n arbitrary: s xs)
  case 0
  then show ?case by simp
next
  case (Suc n)
  show ?case
  proof (cases xs)
    case Nil
    with Suc.prems pop_empty show ?thesis by auto
  next
    case (Cons x ys)
    with Suc.prems obtain s1 where s1: "pop s = Some (Some x, s1)" "rep s1 ys"
      using pop_first by blast
    from Suc.IH [OF s1(2)] obtain s' where
      "pop_times pop n s1 = Some (take n ys, s')" "rep s' (drop n ys)" by blast
    with s1 Cons show ?thesis by simp
  qed
qed

text \<open>What was pushed comes out in the order it went in.\<close>

lemma fifo_order:
  assumes "rep s []" and "fits (length xs)" and "push_all push xs s = Some s1"
  shows "\<exists>s2. pop_times pop (length xs) s1 = Some (xs, s2) \<and> rep s2 []"
  using pop_times_rep [OF push_all_rep [OF assms(1) _ assms(3)], of "length xs"] assms(2) by simp

lemma pop_never_aborts: "rep s xs \<Longrightarrow> pop s \<noteq> None"
  by (cases xs) (use pop_empty pop_first in \<open>fastforce+\<close>)

end

end
