(* ===== verification/GQueue.thy ===== *)
theory GQueue
  imports Fifo
begin

text \<open>
  The intrusive singly linked queue (\<open>src/utils/queue.c\<close>), over a store of the items'
  \<open>next\<close> fields. \<open>sll m q xs\<close> says that the queue \<open>q\<close> in the store \<open>m\<close>
  holds the items \<open>xs\<close>, first to be popped first.
\<close>

section \<open>Items, queues and operations\<close>

datatype qptr = QNull | QNotInQueue | QAt nat

record grid_queue =
  gq_head :: qptr
  gq_tail :: qptr

type_synonym queue_mem = "nat \<Rightarrow> qptr"

definition grid_queue_init :: grid_queue where
  "grid_queue_init = \<lparr>gq_head = QNull, gq_tail = QNull\<rparr>"

definition grid_queue_term :: "grid_queue \<Rightarrow> grid_queue" where
  "grid_queue_term q = q\<lparr>gq_head := QNull, gq_tail := QNull\<rparr>"

definition grid_queue_empty :: "grid_queue \<Rightarrow> bool" where
  "grid_queue_empty q \<longleftrightarrow> \<not> gq_head q \<noteq> QNull"

definition grid_queue_push ::
  "nat \<Rightarrow> queue_mem \<times> grid_queue \<Rightarrow> (queue_mem \<times> grid_queue) option" where
  "grid_queue_push item s = (case s of (m, q) \<Rightarrow> do {
     guard (m item = QNotInQueue);
     let m1 = m(item := QNull);
     let q1 = (if gq_head q = QNull then q\<lparr>gq_head := QAt item\<rparr> else q);
     m2 \<leftarrow> (case gq_tail q1 of QNull \<Rightarrow> Some m1 | QNotInQueue \<Rightarrow> None
                 | QAt t \<Rightarrow> Some (m1(t := QAt item)));
     Some (m2, q1\<lparr>gq_tail := QAt item\<rparr>) })"

text \<open>The search loop of \<open>grid_queue_remove\<close>: \<open>Some prev\<close> when \<open>item\<close> is found.\<close>

partial_function (option) queue_find ::
  "queue_mem \<Rightarrow> nat \<Rightarrow> qptr \<Rightarrow> qptr \<Rightarrow> qptr option option" where
  "queue_find m item it prev =
     (case it of QNull \<Rightarrow> Some None
      | QNotInQueue \<Rightarrow> None
      | QAt a \<Rightarrow> if a = item then Some (Some prev) else queue_find m item (m a) it)"

definition grid_queue_remove ::
  "nat \<Rightarrow> queue_mem \<times> grid_queue \<Rightarrow> (queue_mem \<times> grid_queue) option" where
  "grid_queue_remove item s = (case s of (m, q) \<Rightarrow>
     if m item = QNotInQueue then Some s
     else case queue_find m item (gq_head q) QNull of
        None \<Rightarrow> None
      | Some None \<Rightarrow> Some s
      | Some (Some prev) \<Rightarrow>
          let q1 = (if gq_head q = QAt item then q\<lparr>gq_head := m item\<rparr> else q);
              q2 = (if gq_tail q1 = QAt item then q1\<lparr>gq_tail := prev\<rparr> else q1);
              m1 = (case prev of QAt p \<Rightarrow> m(p := m item) | _ \<Rightarrow> m)
          in Some (m1(item := QNotInQueue), q2))"

definition grid_queue_pop ::
  "queue_mem \<times> grid_queue \<Rightarrow> (nat option \<times> queue_mem \<times> grid_queue) option" where
  "grid_queue_pop s = (case s of (m, q) \<Rightarrow>
     (case gq_head q of
        QNull \<Rightarrow> Some (None, s)
      | QNotInQueue \<Rightarrow> None
      | QAt a \<Rightarrow>
          let q1 = q\<lparr>gq_head := m a\<rparr>;
              q2 = (if gq_head q1 = QNull then q1\<lparr>gq_tail := QNull\<rparr> else q1)
          in Some (Some a, m(a := QNotInQueue), q2)))"

definition grid_queue_item_init :: "queue_mem \<Rightarrow> nat \<Rightarrow> queue_mem" where
  "grid_queue_item_init m a = m(a := QNotInQueue)"

definition grid_queue_item_term :: "queue_mem \<Rightarrow> nat \<Rightarrow> unit option" where
  "grid_queue_item_term m a = guard (m a = QNotInQueue)"

definition grid_queue_item_isinqueue :: "queue_mem \<Rightarrow> nat \<Rightarrow> bool" where
  "grid_queue_item_isinqueue m a \<longleftrightarrow> \<not> m a = QNotInQueue"

section \<open>The sequence a queue represents\<close>

fun q_hd :: "nat list \<Rightarrow> qptr" where
  "q_hd [] = QNull"
| "q_hd (x # xs) = QAt x"

definition q_last :: "nat list \<Rightarrow> qptr" where
  "q_last xs = (if xs = [] then QNull else QAt (last xs))"

fun chain :: "queue_mem \<Rightarrow> nat list \<Rightarrow> bool" where
  "chain m [] \<longleftrightarrow> True"
| "chain m (x # xs) \<longleftrightarrow> m x = q_hd xs \<and> chain m xs"

fun sll :: "queue_mem \<times> grid_queue \<Rightarrow> nat list \<Rightarrow> bool" where
  "sll (m, q) xs \<longleftrightarrow> distinct xs \<and> gq_head q = q_hd xs \<and> gq_tail q = q_last xs \<and> chain m xs"

lemma q_hd_simps [simp]: "q_hd xs = QNull \<longleftrightarrow> xs = []" "q_hd xs \<noteq> QNotInQueue"
    "QNotInQueue \<noteq> q_hd xs"
  by (cases xs; simp)+

lemma q_hd_append [simp]: "q_hd (xs @ ys) = (if xs = [] then q_hd ys else q_hd xs)"
  by (cases xs) auto

lemma chain_cong: "(\<And>y. y \<in> set xs \<Longrightarrow> m' y = m y) \<Longrightarrow> chain m' xs = chain m xs"
  by (induction xs) auto

lemma last_neq: "x \<notin> set xs \<Longrightarrow> xs \<noteq> [] \<Longrightarrow> last xs \<noteq> x"
  using last_in_set by blast

lemma chain_upd_other [simp]: "a \<notin> set xs \<Longrightarrow> chain (m(a := v)) xs = chain m xs"
  by (induction xs) auto

lemma chain_isinqueue: "chain m xs \<Longrightarrow> x \<in> set xs \<Longrightarrow> m x \<noteq> QNotInQueue"
  by (induction xs) auto

lemma chain_snoc:
  "distinct (xs @ [x]) \<Longrightarrow> chain m xs \<Longrightarrow>
     chain ((m(x := QNull))(last xs := (if xs = [] then QNull else QAt x))) (xs @ [x]) \<or> xs = []"
proof (induction xs)
  case Nil
  then show ?case by simp
next
  case (Cons y ys)
  then show ?case by (cases ys) auto
qed

lemma sll_push:
  assumes s: "sll (m, q) xs" and x: "m x = QNotInQueue"
  shows "\<exists>s'. grid_queue_push x (m, q) = Some s' \<and> sll s' (xs @ [x])"
proof -
  have "x \<notin> set xs" using chain_isinqueue [of m xs x] s x by auto
  moreover from this have "distinct (xs @ [x])" using s by simp
  moreover note chain_snoc [of xs x m]
  ultimately show ?thesis
    using s x by (auto simp: grid_queue_push_def q_last_def split: if_splits)
qed

lemma sll_push_inv: "sll s xs \<Longrightarrow> grid_queue_push x s = Some s' \<Longrightarrow> sll s' (xs @ [x])"
proof -
  assume s: "sll s xs" and p: "grid_queue_push x s = Some s'"
  obtain m q where [simp]: "s = (m, q)" by (cases s)
  from p have "m x = QNotInQueue" by (simp add: grid_queue_push_def split: if_splits)
  with s p show ?thesis using sll_push [of m q xs x] by auto
qed

lemma sll_pop_empty: "sll s [] \<Longrightarrow> grid_queue_pop s = Some (None, s)"
  by (cases s) (simp add: grid_queue_pop_def)

lemma sll_pop: "sll s (x # xs) \<Longrightarrow> \<exists>s'. grid_queue_pop s = Some (Some x, s') \<and> sll s' xs"
  by (cases s; cases xs) (auto simp: grid_queue_pop_def q_last_def)

interpretation gq: fifo sll grid_queue_push grid_queue_pop "\<lambda>n. True"
  by unfold_locales (auto intro: sll_push_inv sll_pop_empty dest: sll_pop)

section \<open>Removal from the middle\<close>

lemma queue_find_append:
  "chain m (as @ x # bs) \<Longrightarrow> x \<notin> set as \<Longrightarrow> p \<noteq> QNotInQueue \<Longrightarrow>
     queue_find m x (q_hd (as @ x # bs)) p = Some (Some (if as = [] then p else QAt (last as)))"
proof (induction as arbitrary: p)
  case Nil
  then show ?case by (simp add: queue_find.simps)
next
  case (Cons a as)
  then have "queue_find m x (q_hd (as @ x # bs)) (QAt a) = Some (Some (if as = [] then QAt a else QAt (last as)))"
    by (intro Cons.IH) auto
  with Cons.prems show ?case by (simp add: queue_find.simps [of m x "QAt a"])
qed

lemma queue_find_none:
  "chain m xs \<Longrightarrow> x \<notin> set xs \<Longrightarrow> queue_find m x (q_hd xs) p = Some None"
proof (induction xs arbitrary: p)
  case Nil
  then show ?case by (simp add: queue_find.simps)
next
  case (Cons a xs)
  then have "queue_find m x (q_hd xs) (QAt a) = Some None" by (intro Cons.IH) auto
  with Cons.prems show ?case by (simp add: queue_find.simps [of m x "QAt a"])
qed

lemma chain_append_upd:
  "distinct (as @ x # bs) \<Longrightarrow> as \<noteq> [] \<Longrightarrow> chain m (as @ x # bs) \<Longrightarrow>
     chain ((m(last as := q_hd bs))(x := QNotInQueue)) (as @ bs)"
proof (induction as)
  case Nil
  then show ?case by simp
next
  case (Cons a as)
  show ?case
  proof (cases "as = []")
    case True
    with Cons.prems have "chain ((m(a := q_hd bs))(x := QNotInQueue)) bs = chain m bs"
      by (intro chain_cong) auto
    with Cons.prems True show ?thesis
      by (simp del: fun_upd_apply add: fun_upd_same fun_upd_other)
  next
    case False
    with Cons show ?thesis by auto
  qed
qed

lemma sll_remove:
  assumes "sll (m, q) (as @ x # bs)"
  shows "\<exists>m' q'. grid_queue_remove x (m, q) = Some (m', q') \<and> sll (m', q') (as @ bs)
     \<and> \<not> grid_queue_item_isinqueue m' x"
proof -
  have d: "distinct (as @ x # bs)" and c: "chain m (as @ x # bs)"
    and h: "gq_head q = q_hd (as @ x # bs)" "gq_tail q = q_last (as @ x # bs)"
    using assms by auto
  have mx: "m x = q_hd bs" using c by (induction as) auto
  have f: "queue_find m x (gq_head q) QNull = Some (Some (if as = [] then QNull else QAt (last as)))"
    using queue_find_append [of m as x bs QNull] d c h(1) by simp
  show ?thesis
  proof (cases "as = []")
    case True
    with d c h f mx show ?thesis
      by (auto simp: grid_queue_remove_def grid_queue_item_isinqueue_def q_last_def Let_def last_neq)
  next
    case False
    have l: "last as \<noteq> x" using d False last_in_set by fastforce
    have hx: "gq_head q \<noteq> QAt x" "gq_head q = q_hd (as @ bs)" using h d False by (cases as; auto)+
    from False d c h f mx l hx chain_append_upd [OF d False c] show ?thesis
      by (auto simp: grid_queue_remove_def grid_queue_item_isinqueue_def q_last_def Let_def)
  qed
qed

lemma sll_remove_absent: "sll (m, q) xs \<Longrightarrow> x \<notin> set xs \<Longrightarrow> grid_queue_remove x (m, q) = Some (m, q)"
  using queue_find_none [of m xs x QNull] by (auto simp: grid_queue_remove_def)

text \<open>Pushing items that are in no queue always succeeds.\<close>

lemma push_frame:
  "grid_queue_push x (m, q) = Some (m', q') \<Longrightarrow> y \<noteq> x \<Longrightarrow> m y = QNotInQueue \<Longrightarrow>
     sll (m, q) xs \<Longrightarrow> m' y = QNotInQueue"
  using chain_isinqueue [of m xs "last xs"]
  by (auto simp: grid_queue_push_def q_last_def split: if_splits qptr.splits)

lemma push_all_fresh:
  "sll (m, q) xs \<Longrightarrow> distinct ys \<Longrightarrow> (\<forall>y \<in> set ys. m y = QNotInQueue) \<Longrightarrow>
     \<exists>s. push_all grid_queue_push ys (m, q) = Some s \<and> sll s (xs @ ys)"
proof (induction ys arbitrary: m q xs)
  case Nil
  then show ?case by simp
next
  case (Cons y ys)
  then obtain m' q' where s: "grid_queue_push y (m, q) = Some (m', q')" "sll (m', q') (xs @ [y])"
    using sll_push [of m q xs y] by (auto simp del: sll.simps)
  have "\<forall>z \<in> set ys. m' z = QNotInQueue"
  proof
    fix z assume "z \<in> set ys"
    then have "z \<noteq> y" "m z = QNotInQueue" using Cons.prems by auto
    from push_frame [OF s(1) this Cons.prems(1)] show "m' z = QNotInQueue" .
  qed
  from Cons.IH [OF s(2) _ this] Cons.prems(2) s(1) show ?case by (auto simp del: sll.simps)
qed

end
