(* ===== verification/Hash.thy ===== *)
theory Hash
  imports Prelude
begin

text \<open>
  The hash table from 32-bit keys to items (\<open>src/utils/hash.c\<close>), used for the peers of
  the reply-side sockets. A slot is the sequence of its items (\<open>GList\<close> shows that the
  linked lists of the code implement these sequences), an item is its key and its identity.
  The locale \<open>keyed_store\<close> states what the sockets rely on; the interpretation at the
  end shows that the table provides it through all insertions, removals and re-hashings.
\<close>

section \<open>The contract of a keyed store\<close>

fun insert_all :: "('k \<Rightarrow> 'v \<Rightarrow> 's \<Rightarrow> 's option) \<Rightarrow> ('k \<times> 'v) list \<Rightarrow> 's \<Rightarrow> 's option" where
  "insert_all ins [] s = Some s"
| "insert_all ins ((k, v) # kvs) s = Option.bind (ins k v s) (insert_all ins kvs)"

locale keyed_store =
  fixes inv :: "'s \<Rightarrow> bool"
    and get :: "'s \<Rightarrow> 'k \<Rightarrow> 'v option"
    and ins :: "'k \<Rightarrow> 'v \<Rightarrow> 's \<Rightarrow> 's option"
    and del :: "'k \<Rightarrow> 'v \<Rightarrow> 's \<Rightarrow> 's option"
  assumes ins_fresh: "inv s \<Longrightarrow> get s k = None \<Longrightarrow>
      \<exists>s'. ins k v s = Some s' \<and> inv s' \<and> get s' = (get s)(k \<mapsto> v)"
    and ins_dup: "inv s \<Longrightarrow> get s k \<noteq> None \<Longrightarrow> ins k v s = None"
    and del_present: "inv s \<Longrightarrow> get s k = Some v \<Longrightarrow>
      \<exists>s'. del k v s = Some s' \<and> inv s' \<and> get s' = (get s)(k := None)"
begin

lemma ins_some: "inv s \<Longrightarrow> ins k v s = Some s' \<Longrightarrow> get s k = None \<and> inv s' \<and> get s' = (get s)(k \<mapsto> v)"
  using ins_fresh ins_dup by (metis option.distinct(1) option.inject)

lemma ins_del: "inv s \<Longrightarrow> ins k v s = Some s' \<Longrightarrow> \<exists>s''. del k v s' = Some s'' \<and> inv s'' \<and> get s'' = get s"
  using ins_some [of s k v s'] del_present [of s' k v] by (auto simp: fun_upd_idem)

lemma insert_all_ok:
  "inv s \<Longrightarrow> distinct (map fst kvs) \<Longrightarrow> (\<forall>k \<in> set (map fst kvs). get s k = None) \<Longrightarrow>
     \<exists>s'. insert_all ins kvs s = Some s' \<and> inv s' \<and> get s' = get s ++ map_of kvs"
proof (induction kvs arbitrary: s)
  case Nil
  then show ?case by simp
next
  case (Cons kv kvs)
  obtain k v where kv: "kv = (k, v)" by (cases kv)
  from Cons.prems kv obtain s1 where s1: "ins k v s = Some s1" "inv s1" "get s1 = (get s)(k \<mapsto> v)"
    using ins_fresh [of s k v] by auto
  have "\<exists>s'. insert_all ins kvs s1 = Some s' \<and> inv s' \<and> get s' = get s1 ++ map_of kvs"
    using Cons.prems kv s1 by (intro Cons.IH) auto
  moreover have "get s1 ++ map_of kvs = get s ++ map_of (kv # kvs)"
    using Cons.prems kv s1(3) by (simp add: map_add_upd_left dom_map_of_conv_image_fst)
  ultimately show ?case using s1(1) kv by (auto simp del: fun_upd_apply)
qed

end

section \<open>The table\<close>

record 'v grid_hash =
  gh_slots :: u32
  gh_items :: u32
  gh_array :: "(u32 \<times> 'v) list list"

definition grid_hash_key :: "u32 \<Rightarrow> u32" where
  "grid_hash_key key =
     (let key = (key XOR 61) XOR drop_bit 16 key;
          key = key + push_bit 3 key;
          key = key XOR drop_bit 4 key;
          key = key * 0x27d4eb2d;
          key = key XOR drop_bit 15 key
      in key)"

definition GRID_HASH_INITIAL_SLOTS :: u32 where
  "GRID_HASH_INITIAL_SLOTS = 32"

definition grid_hash_init :: "'v grid_hash" where
  "grid_hash_init = \<lparr>gh_slots = GRID_HASH_INITIAL_SLOTS, gh_items = 0,
     gh_array = replicate (unat GRID_HASH_INITIAL_SLOTS) []\<rparr>"

definition grid_hash_term :: "'v grid_hash \<Rightarrow> unit option" where
  "grid_hash_term h = guard (\<forall>l \<in> set (take (unat (gh_slots h)) (gh_array h)). l = [])"

text \<open>The slot of a key in a table of \<open>n\<close> slots.\<close>

definition hash_slot :: "u32 \<Rightarrow> u32 \<Rightarrow> nat" where
  "hash_slot n key = unat (grid_hash_key key mod n)"

text \<open>Moving one item to the end of its slot in the new array, and all items in turn.\<close>

definition rehash_item :: "u32 \<Rightarrow> (u32 \<times> 'v) list list \<Rightarrow> u32 \<times> 'v \<Rightarrow> (u32 \<times> 'v) list list" where
  "rehash_item n arr kv = arr[hash_slot n (fst kv) := arr ! hash_slot n (fst kv) @ [kv]]"

definition grid_hash_rehash :: "'v grid_hash \<Rightarrow> 'v grid_hash" where
  "grid_hash_rehash h =
     (let n = gh_slots h * 2
      in h\<lparr>gh_slots := n,
          gh_array := foldl (foldl (rehash_item n)) (replicate (unat n) []) (gh_array h)\<rparr>)"

definition grid_hash_insert :: "u32 \<Rightarrow> 'v \<Rightarrow> 'v grid_hash \<Rightarrow> 'v grid_hash option" where
  "grid_hash_insert key v h =
     (let i = hash_slot (gh_slots h) key
      in do {
        guard (\<forall>it \<in> set (gh_array h ! i). fst it \<noteq> key);
        let h1 = h\<lparr>gh_array := (gh_array h)[i := gh_array h ! i @ [(key, v)]],
                   gh_items := gh_items h + 1\<rparr>;
        Some (if gh_items h1 * 2 > gh_slots h1 \<and> gh_slots h1 < 0x80000000
              then grid_hash_rehash h1 else h1) })"

text \<open>The item is given by its key and identity; erasing asserts that it is in the list.\<close>

definition grid_hash_erase :: "u32 \<Rightarrow> 'v \<Rightarrow> 'v grid_hash \<Rightarrow> 'v grid_hash option" where
  "grid_hash_erase key v h =
     (let slot = hash_slot (gh_slots h) key
      in do {
        guard ((key, v) \<in> set (gh_array h ! slot));
        Some (h\<lparr>gh_array := (gh_array h)[slot := remove1 (key, v) (gh_array h ! slot)],
                gh_items := gh_items h - 1\<rparr>) })"

definition grid_hash_get :: "'v grid_hash \<Rightarrow> u32 \<Rightarrow> 'v option" where
  "grid_hash_get h key =
     map_option snd (List.find (\<lambda>it. fst it = key) (gh_array h ! hash_slot (gh_slots h) key))"

section \<open>The invariant\<close>

definition array_ok :: "u32 \<Rightarrow> (u32 \<times> 'v) list list \<Rightarrow> bool" where
  "array_ok n arr \<longleftrightarrow> 0 < n \<and> length arr = unat n
     \<and> (\<forall>i < length arr. distinct (map fst (arr ! i)) \<and> (\<forall>kv \<in> set (arr ! i). hash_slot n (fst kv) = i))"

definition hash_inv :: "'v grid_hash \<Rightarrow> bool" where
  "hash_inv h \<longleftrightarrow> array_ok (gh_slots h) (gh_array h)
     \<and> gh_items h = of_nat (sum_list (map length (gh_array h)))"

definition array_get :: "u32 \<Rightarrow> (u32 \<times> 'v) list list \<Rightarrow> u32 \<Rightarrow> 'v option" where
  "array_get n arr key = map_of (arr ! hash_slot n key) key"

lemma find_fst_map_of: "map_option snd (List.find (\<lambda>it. fst it = k) xs) = map_of xs k"
  by (induction xs) auto

lemma grid_hash_get_eq: "grid_hash_get h = array_get (gh_slots h) (gh_array h)"
  by (simp add: fun_eq_iff grid_hash_get_def array_get_def find_fst_map_of)

lemma hash_slot_less: "0 < n \<Longrightarrow> hash_slot n k < unat n"
  by (simp add: hash_slot_def unat_mod word_less_nat_alt)

lemma array_ok_slot: "array_ok n arr \<Longrightarrow> hash_slot n k < length arr"
  by (simp add: array_ok_def hash_slot_less)

lemma array_ok_append:
  assumes "array_ok n arr" and "array_get n arr k = None"
  shows "array_ok n (arr[hash_slot n k := arr ! hash_slot n k @ [(k, v)]])"
    and "array_get n (arr[hash_slot n k := arr ! hash_slot n k @ [(k, v)]]) = (array_get n arr)(k \<mapsto> v)"
proof -
  have s: "hash_slot n k < length arr" by (rule array_ok_slot [OF assms(1)])
  have f: "k \<notin> fst ` set (arr ! hash_slot n k)"
    using assms(2) by (simp add: array_get_def map_of_eq_None_iff)
  show "array_ok n (arr[hash_slot n k := arr ! hash_slot n k @ [(k, v)]])"
    using assms(1) s f by (auto simp: array_ok_def nth_list_update)
  have m: "map_of (xs @ [(k, v)]) = (map_of xs)(k \<mapsto> v)" if "k \<notin> fst ` set xs" for xs
    using that by (induction xs) (auto simp: fun_eq_iff)
  show "array_get n (arr[hash_slot n k := arr ! hash_slot n k @ [(k, v)]]) = (array_get n arr)(k \<mapsto> v)"
  proof
    fix key
    show "array_get n (arr[hash_slot n k := arr ! hash_slot n k @ [(k, v)]]) key = ((array_get n arr)(k \<mapsto> v)) key"
      using s m [OF f]
      by (cases "hash_slot n key = hash_slot n k") (auto simp: array_get_def simp del: map_of_append)
  qed
qed

lemma distinct_keys_remove1: "distinct (map fst xs) \<Longrightarrow> distinct (map fst (remove1 x xs))"
proof (induction xs)
  case Nil
  then show ?case by simp
next
  case (Cons a xs)
  have "fst ` set (remove1 x xs) \<subseteq> fst ` set xs" using set_remove1_subset by (rule image_mono)
  with Cons show ?case by auto
qed

lemma map_of_remove1:
  "distinct (map fst xs) \<Longrightarrow> map_of xs k = Some v \<Longrightarrow> map_of (remove1 (k, v) xs) = (map_of xs)(k := None)"
proof (induction xs)
  case Nil
  then show ?case by simp
next
  case (Cons a xs)
  obtain k' v' where a: "a = (k', v')" by (cases a)
  show ?case
  proof (cases "k' = k")
    case True
    with Cons.prems a have "map_of xs k = None" by (simp add: map_of_eq_None_iff)
    with True Cons.prems a show ?thesis by (auto simp: fun_eq_iff)
  next
    case False
    with Cons a show ?thesis by (auto simp: fun_eq_iff)
  qed
qed

lemma array_ok_remove:
  assumes "array_ok n arr" and "array_get n arr k = Some v"
  shows "array_ok n (arr[hash_slot n k := remove1 (k, v) (arr ! hash_slot n k)])"
    and "array_get n (arr[hash_slot n k := remove1 (k, v) (arr ! hash_slot n k)]) = (array_get n arr)(k := None)"
proof -
  have s: "hash_slot n k < length arr" by (rule array_ok_slot [OF assms(1)])
  have d: "distinct (map fst (arr ! hash_slot n k))" using assms(1) s by (simp add: array_ok_def)
  note r = map_of_remove1 distinct_keys_remove1
  have sub: "hash_slot n (fst kv) = hash_slot n k"
    if "kv \<in> set (remove1 (k, v) (arr ! hash_slot n k))" for kv
    using that assms(1) s set_remove1_subset [of "(k, v)" "arr ! hash_slot n k"]
    by (auto simp: array_ok_def)
  have m: "map_of (arr ! hash_slot n k) k = Some v" using assms(2) by (simp add: array_get_def)
  show "array_ok n (arr[hash_slot n k := remove1 (k, v) (arr ! hash_slot n k)])"
    using assms(1) r(2) [OF d] sub s by (auto simp: array_ok_def nth_list_update)
  show "array_get n (arr[hash_slot n k := remove1 (k, v) (arr ! hash_slot n k)]) = (array_get n arr)(k := None)"
  proof
    fix key
    show "array_get n (arr[hash_slot n k := remove1 (k, v) (arr ! hash_slot n k)]) key
        = ((array_get n arr)(k := None)) key"
      using s r(1) [OF d m]
      by (cases "hash_slot n key = hash_slot n k") (auto simp: array_get_def)
  qed
qed

section \<open>Re-hashing\<close>

lemma array_ok_empty: "0 < n \<Longrightarrow> array_ok n (replicate (unat n) [])"
  by (simp add: array_ok_def)

lemma array_get_empty: "0 < n \<Longrightarrow> array_get n (replicate (unat n) []) = Map.empty"
  by (simp add: fun_eq_iff array_get_def hash_slot_less)

lemma rehash_items:
  assumes "array_ok n arr" and "distinct (map fst kvs)"
    and "\<forall>kv \<in> set kvs. array_get n arr (fst kv) = None"
  shows "array_ok n (foldl (rehash_item n) arr kvs)
     \<and> array_get n (foldl (rehash_item n) arr kvs) = array_get n arr ++ map_of kvs"
  using assms
proof (induction kvs arbitrary: arr)
  case Nil
  then show ?case by simp
next
  case (Cons kv kvs)
  obtain k v where kv: "kv = (k, v)" by (cases kv)
  have n: "array_get n arr k = None" using Cons.prems kv by simp
  note a = array_ok_append [OF Cons.prems(1) n, of v]
  have "array_ok n (foldl (rehash_item n) (rehash_item n arr kv) kvs)
     \<and> array_get n (foldl (rehash_item n) (rehash_item n arr kv) kvs)
        = array_get n (rehash_item n arr kv) ++ map_of kvs"
    using Cons.prems kv a by (intro Cons.IH) (auto simp: rehash_item_def)
  then show ?case
    using Cons.prems kv a(2)
    by (simp add: rehash_item_def [abs_def] map_add_upd_left dom_map_of_conv_image_fst del: fun_upd_apply)
qed

text \<open>All slots in turn: the keys of different slots differ, so no two items collide.\<close>

lemma rehash_slots:
  assumes "array_ok n arr" and "distinct (map fst (concat arrs))"
    and "\<forall>kv \<in> set (concat arrs). array_get n arr (fst kv) = None"
  shows "array_ok n (foldl (foldl (rehash_item n)) arr arrs)
     \<and> array_get n (foldl (foldl (rehash_item n)) arr arrs) = array_get n arr ++ map_of (concat arrs)"
proof -
  have "foldl (foldl (rehash_item n)) arr arrs = foldl (rehash_item n) arr (concat arrs)"
    by (induction arrs arbitrary: arr) auto
  then show ?thesis using rehash_items [OF assms] by simp
qed

lemma in_set_concat_nth: "x \<in> set (concat arr) \<Longrightarrow> \<exists>i < length arr. x \<in> set (arr ! i)"
proof -
  assume "x \<in> set (concat arr)"
  then obtain xs where "xs \<in> set arr" "x \<in> set xs" by auto
  then show ?thesis by (metis in_set_conv_nth)
qed

lemma distinct_concat_slots:
  "(\<forall>i < length arr. distinct (map fst (arr ! i)) \<and> (\<forall>kv \<in> set (arr ! i). f (fst kv) = i + off)) \<Longrightarrow>
     distinct (map fst (concat arr))"
proof (induction arr arbitrary: off)
  case Nil
  then show ?case by simp
next
  case (Cons a arr)
  have tl: "distinct (map fst (arr ! i)) \<and> (\<forall>kv \<in> set (arr ! i). f (fst kv) = i + Suc off)"
    if "i < length arr" for i
    using Cons.prems [rule_format, of "Suc i"] that by simp
  have hd: "distinct (map fst a)" "\<forall>kv \<in> set a. f (fst kv) = off"
    using Cons.prems [rule_format, of 0] by simp_all
  have "fst kv \<notin> fst ` set a" if "kv \<in> set (concat arr)" for kv
  proof
    assume "fst kv \<in> fst ` set a"
    then have "f (fst kv) = off" using hd(2) by auto
    moreover obtain i where "i < length arr" "kv \<in> set (arr ! i)"
      using in_set_concat_nth [OF \<open>kv \<in> set (concat arr)\<close>] by blast
    ultimately show False using tl [of i] by auto
  qed
  then have "\<forall>k \<in> fst ` set (concat arr). k \<notin> fst ` set a" by (simp only: ball_simps(9)) simp
  then have "fst ` set a \<inter> fst ` set (concat arr) = {}" by (simp only: disjoint_iff) blast
  moreover have "distinct (map fst (concat arr))" by (rule Cons.IH [of "Suc off"]) (simp add: tl)
  ultimately show ?case using hd(1) by (simp del: set_concat)
qed

lemma array_ok_distinct_keys: "array_ok n arr \<Longrightarrow> distinct (map fst (concat arr))"
  by (rule distinct_concat_slots [of _ "hash_slot n" 0]) (simp add: array_ok_def)

lemma array_get_concat:
  assumes "array_ok n arr"
  shows "map_of (concat arr) = array_get n arr"
proof
  fix k
  have s: "hash_slot n k < length arr" by (rule array_ok_slot [OF assms])
  show "map_of (concat arr) k = array_get n arr k"
  proof (cases "array_get n arr k")
    case None
    have "k \<notin> fst ` set (concat arr)"
    proof
      assume "k \<in> fst ` set (concat arr)"
      then obtain v where kv: "(k, v) \<in> set (concat arr)" by (metis imageE prod.collapse)
      obtain i where i: "i < length arr" "(k, v) \<in> set (arr ! i)"
        using in_set_concat_nth [OF kv] by blast
      then have "hash_slot n k = i" using assms by (force simp: array_ok_def)
      with i None show False by (force simp: array_get_def map_of_eq_None_iff)
    qed
    then show ?thesis using None by (metis map_of_eq_None_iff)
  next
    case (Some v)
    then have "(k, v) \<in> set (arr ! hash_slot n k)" by (auto simp: array_get_def dest: map_of_SomeD)
    then have "(k, v) \<in> set (concat arr)" using nth_mem [OF s] by auto
    then show ?thesis using Some array_ok_distinct_keys [OF assms] by simp
  qed
qed

lemma length_rehash: "sum_list (map length (foldl (foldl (rehash_item n)) arr arrs))
   = sum_list (map length arr) + sum_list (map length arrs)" if "array_ok n arr" "distinct (map fst (concat arrs))"
  "\<forall>kv \<in> set (concat arrs). array_get n arr (fst kv) = None"
proof -
  have e: "foldl (foldl (rehash_item n)) arr arrs = foldl (rehash_item n) arr (concat arrs)" for arr
    by (induction arrs arbitrary: arr) auto
  have l: "sum_list (map length (foldl (rehash_item n) a kvs)) = sum_list (map length a) + length kvs"
    if "0 < n" "length a = unat n" for a kvs
    using that
  proof (induction kvs arbitrary: a)
    case Nil
    then show ?case by simp
  next
    case (Cons kv kvs)
    have s: "hash_slot n (fst kv) < length a" using Cons.prems by (simp add: hash_slot_less)
    have "sum_list (map length (rehash_item n a kv)) = Suc (sum_list (map length a))"
      using s by (simp add: rehash_item_def map_update sum_list_update)
    with Cons show ?case by (simp add: rehash_item_def)
  qed
  show ?thesis using l [of arr "concat arrs"] that(1) by (simp add: e array_ok_def length_concat)
qed

lemma rehash_inv:
  assumes h: "hash_inv h" and s: "0 < gh_slots h * 2"
  shows "hash_inv (grid_hash_rehash h)" and "grid_hash_get (grid_hash_rehash h) = grid_hash_get h"
proof -
  let ?n = "gh_slots h * 2"
  have a: "array_ok (gh_slots h) (gh_array h)" using h by (simp add: hash_inv_def)
  have d: "distinct (map fst (concat (gh_array h)))" by (rule array_ok_distinct_keys [OF a])
  have e: "\<forall>kv \<in> set (concat (gh_array h)). array_get ?n (replicate (unat ?n) []) (fst kv) = None"
    using s by (simp add: array_get_empty)
  note r = rehash_slots [OF array_ok_empty [OF s] d e]
  show "grid_hash_get (grid_hash_rehash h) = grid_hash_get h"
    using r array_get_concat [OF a]
    by (simp add: grid_hash_get_eq grid_hash_rehash_def Let_def array_get_empty [OF s])
  show "hash_inv (grid_hash_rehash h)"
    using r h length_rehash [OF array_ok_empty [OF s] d e]
    by (simp add: hash_inv_def grid_hash_rehash_def Let_def sum_list_replicate)
qed

section \<open>The operations\<close>

lemma hash_init_inv: "hash_inv grid_hash_init"
  by (simp add: hash_inv_def grid_hash_init_def array_ok_def GRID_HASH_INITIAL_SLOTS_def sum_list_replicate)

lemma hash_init_get: "grid_hash_get grid_hash_init = Map.empty"
  using array_get_empty [of 32] by (simp add: grid_hash_get_eq grid_hash_init_def GRID_HASH_INITIAL_SLOTS_def)

lemma double_slots: "0 < n \<Longrightarrow> n < 0x80000000 \<Longrightarrow> 0 < n * (2 :: u32)"
  by (simp add: word_less_nat_alt unat_mult_lem [THEN iffD1] unat_word_ariths)

lemma hash_insert_fresh:
  assumes h: "hash_inv h" and k: "grid_hash_get h k = None"
  shows "\<exists>h'. grid_hash_insert k v h = Some h' \<and> hash_inv h' \<and> grid_hash_get h' = (grid_hash_get h)(k \<mapsto> v)"
proof -
  let ?i = "hash_slot (gh_slots h) k"
  let ?h1 = "h\<lparr>gh_array := (gh_array h)[?i := gh_array h ! ?i @ [(k, v)]], gh_items := gh_items h + 1\<rparr>"
  have a: "array_ok (gh_slots h) (gh_array h)" using h by (simp add: hash_inv_def)
  have n: "array_get (gh_slots h) (gh_array h) k = None" using k by (simp add: grid_hash_get_eq)
  have s: "?i < length (gh_array h)" by (rule array_ok_slot [OF a])
  have g: "\<forall>it \<in> set (gh_array h ! ?i). fst it \<noteq> k"
    using n by (auto simp: array_get_def map_of_eq_None_iff image_iff)
  have i1: "hash_inv ?h1"
    using h array_ok_append(1) [OF a n] s
    by (simp add: hash_inv_def map_update sum_list_update)
  have g1: "grid_hash_get ?h1 = (grid_hash_get h)(k \<mapsto> v)"
    using array_ok_append(2) [OF a n] by (simp add: grid_hash_get_eq)
  show ?thesis
  proof (cases "gh_items ?h1 * 2 > gh_slots ?h1 \<and> gh_slots ?h1 < 0x80000000")
    case True
    have "0 < gh_slots ?h1 * 2"
      using a True by (intro double_slots) (simp_all add: array_ok_def)
    from rehash_inv [OF i1 this] g1 g True show ?thesis
      by (simp add: grid_hash_insert_def Let_def)
  next
    case False
    with i1 g1 g show ?thesis by (auto simp: grid_hash_insert_def Let_def)
  qed
qed

lemma hash_insert_dup: "grid_hash_get h k \<noteq> None \<Longrightarrow> grid_hash_insert k v h = None"
proof -
  assume "grid_hash_get h k \<noteq> None"
  then obtain v' where "(k, v') \<in> set (gh_array h ! hash_slot (gh_slots h) k)"
    by (auto simp: grid_hash_get_eq array_get_def dest: map_of_SomeD)
  then have "\<not> (\<forall>it \<in> set (gh_array h ! hash_slot (gh_slots h) k). fst it \<noteq> k)" by force
  then show ?thesis by (simp add: grid_hash_insert_def Let_def)
qed

lemma hash_erase:
  assumes h: "hash_inv h" and k: "grid_hash_get h k = Some v"
  shows "\<exists>h'. grid_hash_erase k v h = Some h' \<and> hash_inv h' \<and> grid_hash_get h' = (grid_hash_get h)(k := None)"
proof -
  let ?i = "hash_slot (gh_slots h) k"
  have a: "array_ok (gh_slots h) (gh_array h)" using h by (simp add: hash_inv_def)
  have n: "array_get (gh_slots h) (gh_array h) k = Some v" using k by (simp add: grid_hash_get_eq)
  have s: "?i < length (gh_array h)" by (rule array_ok_slot [OF a])
  have m: "(k, v) \<in> set (gh_array h ! ?i)"
    using n by (auto simp: array_get_def dest: map_of_SomeD)
  have l: "0 < length (gh_array h ! ?i)" using m by (cases "gh_array h ! ?i") auto
  have le: "length (gh_array h ! ?i) \<le> sum_list (map length (gh_array h))"
    using s by (metis elem_le_sum_list length_map nth_map)
  have "of_nat (length (gh_array h ! ?i) - Suc 0) = of_nat (length (gh_array h ! ?i)) - (1 :: u32)"
    using l by (cases "gh_array h ! ?i") simp_all
  then have items: "of_nat (sum_list (map length ((gh_array h)[?i := remove1 (k, v) (gh_array h ! ?i)])))
      = gh_items h - 1"
    using h m s le by (simp add: hash_inv_def map_update sum_list_update length_remove1 of_nat_diff)
  show ?thesis
    using h array_ok_remove [OF a n] m items
    by (simp add: grid_hash_erase_def Let_def hash_inv_def grid_hash_get_eq)
qed

interpretation ht: keyed_store hash_inv grid_hash_get grid_hash_insert grid_hash_erase
  by unfold_locales (auto intro: hash_insert_fresh hash_erase simp: hash_insert_dup)

section \<open>Routing tables\<close>

text \<open>
  The reply-side sockets index their pipes by a key, and keep each pipe's key with the pipe. The
  two agree in \<open>routes_ok\<close>, which registering and removing a pipe keep.
\<close>

definition routes_ok :: "'v grid_hash \<Rightarrow> ('v \<Rightarrow> u32 option) \<Rightarrow> bool" where
  "routes_ok h keys \<longleftrightarrow> hash_inv h \<and> (\<forall>k p. grid_hash_get h k = Some p \<longleftrightarrow> keys p = Some k)"

lemma routes_init: "routes_ok grid_hash_init Map.empty"
  by (simp add: routes_ok_def hash_init_inv hash_init_get)

lemma routes_get: "routes_ok h keys \<Longrightarrow> grid_hash_get h k = Some p \<longleftrightarrow> keys p = Some k"
  by (simp add: routes_ok_def)

lemma routes_add:
  assumes r: "routes_ok h keys" and p: "keys p = None" and k: "grid_hash_get h k = None"
  shows "\<exists>h'. grid_hash_insert k p h = Some h' \<and> routes_ok h' (keys(p \<mapsto> k))"
proof -
  obtain h' where h': "grid_hash_insert k p h = Some h'" "hash_inv h'" "grid_hash_get h' = (grid_hash_get h)(k \<mapsto> p)"
    using ht.ins_fresh [OF _ k, of p] r by (auto simp: routes_ok_def)
  have "keys q \<noteq> Some k" for q using routes_get [OF r, of k q] k by simp
  then have "routes_ok h' (keys(p \<mapsto> k))" using r p h'(2,3) by (auto simp: routes_ok_def)
  with h'(1) show ?thesis by blast
qed

lemma routes_rm:
  assumes r: "routes_ok h keys" and p: "keys p = Some k"
  shows "\<exists>h'. grid_hash_erase k p h = Some h' \<and> routes_ok h' (keys(p := None))"
proof -
  have g: "grid_hash_get h k = Some p" "hash_inv h" using r p by (simp_all add: routes_ok_def)
  obtain h' where h': "grid_hash_erase k p h = Some h'" "hash_inv h'" "grid_hash_get h' = (grid_hash_get h)(k := None)"
    using ht.del_present [OF g(2,1)] by blast
  have "keys q \<noteq> Some k" if "q \<noteq> p" for q using r p that by (metis option.inject routes_get)
  then have "routes_ok h' (keys(p := None))" using r p h'(2,3) by (auto simp: routes_ok_def)
  with h'(1) show ?thesis by blast
qed

end
