(* ===== verification/Chunk.thy ===== *)
theory Chunk
  imports Wire "HOL-Library.Multiset"
begin

text \<open>
  Reference-counted message chunks (\<open>src/utils/chunk.c\<close>, \<open>src/utils/atomic.c\<close>).
  A chunk is one memory block: the C structure (its reference count and size are fields of
  the record), followed by the bytes \<open>ck_mem\<close>: optional empty space, a 32-bit size of
  that space, a 32-bit tag, and the message data. A data pointer is the block and an offset
  into its bytes. The heap maps the addresses of live blocks to them; a freed block is gone.
  What \<open>malloc\<close> and \<open>realloc\<close> return is an argument: no block, or a fresh address and
  the arbitrary contents of the new memory.
\<close>

record chunk =
  ck_refcount :: u32
  ck_size :: u64
  ck_mem :: bytes

type_synonym chunk_heap = "nat \<Rightarrow> chunk option"
type_synonym chunk_ptr = "nat \<times> nat"
type_synonym fresh_block = "(nat \<times> (nat \<Rightarrow> u8)) option"

definition GRID_CHUNK_TAG :: u32 where "GRID_CHUNK_TAG = 0xdeadcafe"
definition GRID_CHUNK_TAG_DEALLOCATED :: u32 where "GRID_CHUNK_TAG_DEALLOCATED = 0xbeadfeed"

section \<open>Atomic counters\<close>

definition grid_atomic_inc :: "u32 \<Rightarrow> u32 \<Rightarrow> u32 \<times> u32" where
  "grid_atomic_inc self n = (self + n, self)"

definition grid_atomic_dec :: "u32 \<Rightarrow> u32 \<Rightarrow> u32 \<times> u32" where
  "grid_atomic_dec self n = (self - n, self)"

section \<open>The block layout\<close>

text \<open>The structure takes 24 bytes (a 4-byte counter, padding, a size, a function pointer).\<close>

definition chunk_struct_size :: u64 where "chunk_struct_size = 24"

definition grid_chunk_hdrsize :: u64 where
  "grid_chunk_hdrsize = chunk_struct_size + 2 * 4"

definition load_l :: "bytes \<Rightarrow> nat \<Rightarrow> u32 option" where
  "load_l mem off = grid_getl (drop off mem)"

definition store_l :: "bytes \<Rightarrow> nat \<Rightarrow> u32 \<Rightarrow> bytes option" where
  "store_l mem off v = map_option (\<lambda>b. take off mem @ b) (grid_putl (drop off mem) v)"

definition grid_chunk_getdata :: "nat \<Rightarrow> chunk_ptr" where
  "grid_chunk_getdata a = (a, 2 * 4)"

text \<open>
  From a data pointer back to the structure: the tag and the size of the empty space are read
  in front of the data. An offset that does not lead back to the start of the block is a wild
  pointer, \<open>None\<close>.
\<close>

definition grid_chunk_getptr :: "chunk_heap \<Rightarrow> chunk_ptr \<Rightarrow> chunk option" where
  "grid_chunk_getptr h ptr = (case ptr of (a, p) \<Rightarrow> do {
     c \<leftarrow> h a;
     guard (8 \<le> p);
     tag \<leftarrow> load_l (ck_mem c) (p - 4);
     guard (tag = GRID_CHUNK_TAG);
     off \<leftarrow> load_l (ck_mem c) (p - 8);
     guard (p - 8 = unat off);
     Some c })"

section \<open>The operations\<close>

definition grid_chunk_alloc ::
  "chunk_heap \<Rightarrow> u64 \<Rightarrow> int \<Rightarrow> fresh_block \<Rightarrow> (errno + chunk_heap \<times> chunk_ptr) option" where
  "grid_chunk_alloc h bsize type blk =
     (let hdrsz = grid_chunk_hdrsize; sz = hdrsz + bsize
      in if sz < hdrsz then Some (Inl ENOMEM)
         else if type \<noteq> 0 then Some (Inl EINVAL)
         else case blk of
           None \<Rightarrow> Some (Inl ENOMEM)
         | Some (a, junk) \<Rightarrow> do {
             let mem0 = map junk [0 ..< 8 + unat bsize];
             mem1 \<leftarrow> store_l mem0 0 0;
             mem2 \<leftarrow> store_l mem1 4 GRID_CHUNK_TAG;
             Some (Inr (h(a \<mapsto> \<lparr>ck_refcount = 1, ck_size = bsize, ck_mem = mem2\<rparr>),
                        grid_chunk_getdata a)) })"

text \<open>
  \<open>grid_chunk_realloc\<close>: \<open>memcpy\<close> beyond the end of the destination is \<open>None\<close>.
  With one reference the block is resized in place or moved (to the fresh address), and the
  returned pointer is the start of the data area.
\<close>

definition grid_chunk_realloc ::
  "chunk_heap \<Rightarrow> u64 \<Rightarrow> chunk_ptr \<Rightarrow> fresh_block \<Rightarrow> (errno + chunk_heap \<times> chunk_ptr) option" where
  "grid_chunk_realloc h bsize ptr blk = do {
     c \<leftarrow> grid_chunk_getptr h ptr;
     if ck_refcount c = 1 then
       (let hdr_size = grid_chunk_hdrsize; new_size = hdr_size + bsize
        in if new_size < hdr_size then Some (Inl ENOMEM)
           else case blk of
             None \<Rightarrow> Some (Inl ENOMEM)
           | Some (a, junk) \<Rightarrow>
               (let len = 8 + unat bsize;
                    mem = take len (ck_mem c) @ map junk [length (ck_mem c) ..< len]
                in Some (Inr ((h(fst ptr := None))(a \<mapsto> c\<lparr>ck_size := bsize, ck_mem := mem\<rparr>),
                              grid_chunk_getdata a))))
     else do {
       r \<leftarrow> grid_chunk_alloc h bsize 0 blk;
       case r of
         Inl e \<Rightarrow> Some (Inl e)
       | Inr (h1, (a, p)) \<Rightarrow> do {
           n \<leftarrow> h1 a;
           guard (unat (ck_size c) \<le> length (ck_mem n) - p);
           guard (8 + unat (ck_size c) \<le> length (ck_mem c));
           let mem = take p (ck_mem n) @ take (unat (ck_size c)) (drop 8 (ck_mem c))
                       @ drop (p + unat (ck_size c)) (ck_mem n);
           Some (Inr (h1(a \<mapsto> n\<lparr>ck_mem := mem\<rparr>,
                         fst ptr \<mapsto> c\<lparr>ck_refcount := fst (grid_atomic_dec (ck_refcount c) 1)\<rparr>),
                      (a, p))) } } }"

definition grid_chunk_free :: "chunk_heap \<Rightarrow> chunk_ptr \<Rightarrow> chunk_heap option" where
  "grid_chunk_free h ptr = do {
     c \<leftarrow> grid_chunk_getptr h ptr;
     let (n, old) = grid_atomic_dec (ck_refcount c) 1;
     if old \<le> 1 then Some (h(fst ptr := None))
     else Some (h(fst ptr \<mapsto> c\<lparr>ck_refcount := n\<rparr>)) }"

definition grid_chunk_addref :: "chunk_heap \<Rightarrow> chunk_ptr \<Rightarrow> u32 \<Rightarrow> chunk_heap option" where
  "grid_chunk_addref h ptr n = do {
     c \<leftarrow> grid_chunk_getptr h ptr;
     Some (h(fst ptr \<mapsto> c\<lparr>ck_refcount := fst (grid_atomic_inc (ck_refcount c) n)\<rparr>)) }"

definition grid_chunk_size :: "chunk_heap \<Rightarrow> chunk_ptr \<Rightarrow> u64 option" where
  "grid_chunk_size h ptr = map_option ck_size (grid_chunk_getptr h ptr)"

definition grid_chunk_trim :: "chunk_heap \<Rightarrow> chunk_ptr \<Rightarrow> u64 \<Rightarrow> (chunk_heap \<times> chunk_ptr) option" where
  "grid_chunk_trim h ptr n = (case ptr of (a, p) \<Rightarrow> do {
     c \<leftarrow> grid_chunk_getptr h ptr;
     guard (n \<le> ck_size c);
     let p' = p + unat n;
     mem1 \<leftarrow> store_l (ck_mem c) (p' - 4) GRID_CHUNK_TAG;
     let empty_space = p' - 8;
     guard (empty_space < 2 ^ 32 - 1);
     mem2 \<leftarrow> store_l mem1 (p' - 8) (of_nat empty_space);
     Some (h(a \<mapsto> c\<lparr>ck_size := ck_size c - n, ck_mem := mem2\<rparr>), (a, p')) })"

section \<open>Well-formed pointers and the data they see\<close>

text \<open>A data pointer is good when its block is live, the header leads back to the block, and
  the data lies inside the block.\<close>

definition good_ptr :: "chunk_heap \<Rightarrow> chunk_ptr \<Rightarrow> bool" where
  "good_ptr h ptr \<longleftrightarrow> (\<exists>c. grid_chunk_getptr h ptr = Some c
      \<and> snd ptr + unat (ck_size c) = length (ck_mem c))"

definition chunk_data :: "chunk_heap \<Rightarrow> chunk_ptr \<Rightarrow> bytes option" where
  "chunk_data h ptr = do {
     c \<leftarrow> grid_chunk_getptr h ptr;
     guard (snd ptr + unat (ck_size c) \<le> length (ck_mem c));
     Some (take (unat (ck_size c)) (drop (snd ptr) (ck_mem c))) }"

lemma load_store_same: "store_l mem off v = Some mem' \<Longrightarrow> off \<le> length mem \<Longrightarrow> load_l mem' off = Some v"
  by (auto simp: store_l_def load_l_def dest: grid_getl_putl)

lemma store_l_Some: "off + 4 \<le> length mem \<Longrightarrow> \<exists>mem'. store_l mem off v = Some mem'"
  by (simp add: store_l_def grid_putl_def)

lemma store_l_frame:
  assumes "store_l mem off v = Some mem'" and "off \<le> length mem"
  shows "length mem' = length mem" and "take off mem' = take off mem"
    and "drop (off + 4) mem' = drop (off + 4) mem"
proof -
  from assms(1) obtain b where b: "grid_putl (drop off mem) v = Some b" and m: "mem' = take off mem @ b"
    by (auto simp: store_l_def)
  from grid_putl_frame [OF b] have l: "length b = length mem - off" and d: "drop 4 b = drop (off + 4) mem"
    by (auto simp: add.commute)
  show "length mem' = length mem" using l m assms(2) by simp
  show "take off mem' = take off mem" using m assms(2) by simp
  show "drop (off + 4) mem' = drop (off + 4) mem" using m d assms(2) by (simp add: min_def)
qed

text \<open>A word stored in one place is still read after a store next to it.\<close>

lemma load_store_after:
  assumes "store_l mem off v = Some mem'" and "off + 4 \<le> off'" and "off \<le> length mem"
  shows "load_l mem' off' = load_l mem off'"
proof -
  have "drop off' mem' = drop (off' - (off + 4)) (drop (off + 4) mem')" using assms(2) by simp
  also have "\<dots> = drop off' mem" using store_l_frame(3) [OF assms(1,3)] assms(2) by simp
  finally show ?thesis by (simp add: load_l_def)
qed

lemma grid_getl_prefix: "4 \<le> length xs \<Longrightarrow> grid_getl (xs @ ys) = grid_getl xs"
  by (auto dest!: list_ge4_cases)

lemma load_store_before:
  assumes "store_l mem off v = Some mem'" and "off' + 4 \<le> off" and "off \<le> length mem"
  shows "load_l mem' off' = load_l mem off'"
proof -
  have s: "drop off' m = drop off' (take off m) @ drop off m" if "off \<le> length m" for m :: bytes
    using that assms(2) by (metis append_take_drop_id drop_append length_take min.absorb2
        add_leD1 diff_is_0_eq drop_0)
  have l: "4 \<le> length (drop off' (take off mem))" using assms(2,3) by simp
  have "off \<le> length mem'" using store_l_frame(1) [OF assms(1,3)] assms(3) by simp
  then show ?thesis
    using s [of mem] s [of mem'] assms(3) store_l_frame(2) [OF assms(1,3)] l
    by (simp add: load_l_def grid_getl_prefix)
qed

lemma getptr_Some:
  "grid_chunk_getptr h (a, p) = Some c \<longleftrightarrow> h a = Some c \<and> 8 \<le> p
     \<and> load_l (ck_mem c) (p - 4) = Some GRID_CHUNK_TAG
     \<and> (\<exists>off. load_l (ck_mem c) (p - 8) = Some off \<and> p - 8 = unat off)"
  by (auto simp: grid_chunk_getptr_def bind_eq_Some_conv split: if_splits)

lemma good_ptr_Some:
  "good_ptr h (a, p) \<longleftrightarrow> (\<exists>c. grid_chunk_getptr h (a, p) = Some c \<and> h a = Some c \<and> 8 \<le> p
     \<and> p + unat (ck_size c) = length (ck_mem c))"
  by (auto simp: good_ptr_def getptr_Some)

lemma good_ptr_data:
  "good_ptr h (a, p) \<Longrightarrow> \<exists>c. h a = Some c \<and> 8 \<le> p \<and> p + unat (ck_size c) = length (ck_mem c)
     \<and> chunk_data h (a, p) = Some (drop p (ck_mem c))"
  by (auto simp: good_ptr_Some chunk_data_def)

lemma getptr_intro:
  "h a = Some c \<Longrightarrow> 8 \<le> p \<Longrightarrow> load_l (ck_mem c) (p - 4) = Some GRID_CHUNK_TAG \<Longrightarrow>
     load_l (ck_mem c) (p - 8) = Some off \<Longrightarrow> unat off = p - 8 \<Longrightarrow> grid_chunk_getptr h (a, p) = Some c"
  by (simp add: getptr_Some)

section \<open>Correctness of the operations\<close>

lemma chunk_alloc_good:
  assumes r: "grid_chunk_alloc h n 0 (Some (a, junk)) = Some (Inr (h', ptr))"
  shows "good_ptr h' ptr \<and> fst ptr = a \<and> grid_chunk_size h' ptr = Some n
     \<and> (\<exists>c. h' a = Some c \<and> ck_refcount c = 1) \<and> (\<forall>b. b \<noteq> a \<longrightarrow> h' b = h b)"
proof -
  let ?m = "map junk [0 ..< 8 + unat n]"
  obtain m1 where m1: "store_l ?m 0 0 = Some m1" using store_l_Some [of 0 ?m] by auto
  have l1: "length m1 = 8 + unat n" using store_l_frame(1) [OF m1] by simp
  obtain m2 where m2: "store_l m1 4 GRID_CHUNK_TAG = Some m2" using store_l_Some [of 4 m1] l1 by auto
  have l2: "length m2 = 8 + unat n" using store_l_frame(1) [OF m2] l1 by simp
  have h': "h' = h(a \<mapsto> \<lparr>ck_refcount = 1, ck_size = n, ck_mem = m2\<rparr>)" and ptr: "ptr = (a, 8)"
    using r m1 m2 by (auto simp: grid_chunk_alloc_def Let_def grid_chunk_getdata_def split: if_splits)
  have t: "load_l m2 4 = Some GRID_CHUNK_TAG" using load_store_same [OF m2] l1 by simp
  have "load_l m2 0 = load_l m1 0" by (rule load_store_before [OF m2]) (use l1 in simp_all)
  also have "\<dots> = Some 0" using load_store_same [OF m1] by simp
  finally have z: "load_l m2 0 = Some 0" .
  have g: "grid_chunk_getptr h' ptr = Some \<lparr>ck_refcount = 1, ck_size = n, ck_mem = m2\<rparr>"
    unfolding ptr by (rule getptr_intro [where off = 0]) (simp_all add: h' t z)
  show ?thesis using g l2 by (simp add: good_ptr_def ptr grid_chunk_size_def h')
qed

lemma chunk_alloc_total: "\<exists>r. grid_chunk_alloc h n type blk = Some r"
proof (cases blk)
  case None
  then show ?thesis by (simp add: grid_chunk_alloc_def Let_def)
next
  case (Some ab)
  obtain a junk where ab: "ab = (a, junk)" by (cases ab)
  obtain m1 where m1: "store_l (map junk [0 ..< 8 + unat n]) 0 0 = Some m1"
    using store_l_Some [of 0 "map junk [0 ..< 8 + unat n]"] by auto
  moreover have "length m1 = 8 + unat n" using store_l_frame(1) [OF m1] by simp
  then obtain m2 where "store_l m1 4 GRID_CHUNK_TAG = Some m2" using store_l_Some [of 4 m1] by auto
  ultimately show ?thesis using Some ab by (simp add: grid_chunk_alloc_def Let_def)
qed

lemma chunk_trim_good:
  assumes g: "good_ptr h (a, p)" and d: "chunk_data h (a, p) = Some d"
    and n: "unat n \<le> length d" and sp: "p + unat n - 8 < 2 ^ 32 - 1"
  shows "\<exists>h'. grid_chunk_trim h (a, p) n = Some (h', (a, p + unat n)) \<and> good_ptr h' (a, p + unat n)
     \<and> chunk_data h' (a, p + unat n) = Some (drop (unat n) d)
     \<and> map_option ck_refcount (h' a) = map_option ck_refcount (h a) \<and> (\<forall>b. b \<noteq> a \<longrightarrow> h' b = h b)"
proof -
  let ?p = "p + unat n"
  obtain c where c: "h a = Some c" "8 \<le> p" "p + unat (ck_size c) = length (ck_mem c)"
    and dd: "d = drop p (ck_mem c)" using good_ptr_data [OF g] d by auto
  have gp: "grid_chunk_getptr h (a, p) = Some c" using g c(1)
    by (auto simp: good_ptr_Some)
  have ns: "unat n \<le> unat (ck_size c)" using n dd c(3) by simp
  obtain m1 where m1: "store_l (ck_mem c) (?p - 4) GRID_CHUNK_TAG = Some m1"
    using store_l_Some [of "?p - 4" "ck_mem c"] c ns by fastforce
  have l1: "length m1 = length (ck_mem c)" using store_l_frame(1) [OF m1] c ns by simp
  obtain m2 where m2: "store_l m1 (?p - 8) (of_nat (?p - 8)) = Some m2"
    using store_l_Some [of "?p - 8" m1] l1 c ns by fastforce
  have l2: "length m2 = length (ck_mem c)" using store_l_frame(1) [OF m2] l1 c ns by simp
  have e8: "?p = (?p - 8 + 4) + 4" "?p = ?p - 4 + 4" using c by simp_all
  have f2: "drop (?p - 8 + 4) m2 = drop (?p - 8 + 4) m1"
    by (rule store_l_frame(3) [OF m2]) (use l1 c ns in simp)
  have f1: "drop (?p - 4 + 4) m1 = drop (?p - 4 + 4) (ck_mem c)"
    by (rule store_l_frame(3) [OF m1]) (use c ns in simp)
  have "drop ?p m2 = drop 4 (drop (?p - 8 + 4) m2)" using e8(1) by (simp only: drop_drop add.commute)
  also have "\<dots> = drop 4 (drop (?p - 8 + 4) m1)" by (simp only: f2)
  also have "\<dots> = drop ?p m1" using e8(1) by (simp only: drop_drop add.commute)
  also have "\<dots> = drop ?p (ck_mem c)" using f1 e8(2) by simp
  finally have data: "drop ?p m2 = drop ?p (ck_mem c)" .
  let ?c = "c\<lparr>ck_size := ck_size c - n, ck_mem := m2\<rparr>"
  have t: "grid_chunk_trim h (a, p) n = Some (h(a \<mapsto> ?c), (a, ?p))"
    using gp ns m1 m2 sp by (simp add: grid_chunk_trim_def word_le_nat_alt)
  have s4: "?p - 8 + 4 = ?p - 4" using c by simp
  have tag: "load_l m2 (?p - 4) = Some GRID_CHUNK_TAG"
    using load_store_after [OF m2, of "?p - 4"] load_store_same [OF m1] s4 l1 c ns by simp
  have off: "load_l m2 (?p - 8) = Some (of_nat (?p - 8))"
    using load_store_same [OF m2] l1 c ns by simp
  have un: "unat (of_nat (?p - 8) :: u32) = ?p - 8"
    using sp by (simp add: unat_of_nat)
  have gp': "grid_chunk_getptr (h(a \<mapsto> ?c)) (a, ?p) = Some ?c"
    by (rule getptr_intro [where off = "of_nat (?p - 8)"]) (use c tag off un in simp_all)
  have sz: "unat (ck_size c - n) = unat (ck_size c) - unat n"
    using ns by (simp add: unat_sub word_le_nat_alt)
  show ?thesis
    using t gp' sz c ns l2 data dd
    by (auto simp: good_ptr_def chunk_data_def add.commute)
qed

lemma chunk_addref_good:
  assumes "good_ptr h (a, p)"
  shows "\<exists>h' c. grid_chunk_addref h (a, p) n = Some h' \<and> h a = Some c
     \<and> h' = h(a \<mapsto> c\<lparr>ck_refcount := ck_refcount c + n\<rparr>)"
  using assms
  by (auto simp: good_ptr_Some grid_chunk_addref_def grid_atomic_inc_def)

lemma chunk_free_good:
  assumes "good_ptr h (a, p)"
  shows "\<exists>c. h a = Some c \<and> grid_chunk_free h (a, p) =
      Some (if ck_refcount c \<le> 1 then h(a := None) else h(a \<mapsto> c\<lparr>ck_refcount := ck_refcount c - 1\<rparr>))"
  using assms
  by (auto simp: good_ptr_Some grid_chunk_free_def grid_atomic_dec_def)

text \<open>Changing only a reference count keeps every good pointer good, with the same data.\<close>

lemma getptr_refcount:
  "h a = Some c \<Longrightarrow> grid_chunk_getptr (h(a \<mapsto> c\<lparr>ck_refcount := r\<rparr>)) (b, q)
     = (if b = a then map_option (\<lambda>c. c\<lparr>ck_refcount := r\<rparr>) (grid_chunk_getptr h (b, q)) else grid_chunk_getptr h (b, q))"
  by (auto simp: grid_chunk_getptr_def split: bind_splits)

lemma good_ptr_refcount:
  "h a = Some c \<Longrightarrow> good_ptr (h(a \<mapsto> c\<lparr>ck_refcount := r\<rparr>)) (b, q) = good_ptr h (b, q)"
  by (auto simp: good_ptr_def getptr_refcount)

lemma chunk_data_refcount:
  "h a = Some c \<Longrightarrow> chunk_data (h(a \<mapsto> c\<lparr>ck_refcount := r\<rparr>)) (b, q) = chunk_data h (b, q)"
  by (cases "grid_chunk_getptr h (b, q)") (auto simp: chunk_data_def getptr_refcount)

lemma getptr_other: "b \<noteq> a \<Longrightarrow> grid_chunk_getptr (h(a := v)) (b, q) = grid_chunk_getptr h (b, q)"
  by (simp add: grid_chunk_getptr_def)

end
