(* ===== verification/ChunkRef.thy ===== *)
theory ChunkRef
  imports Chunk
begin

text \<open>
  Chunk references and messages (\<open>src/utils/chunkref.c\<close>, \<open>src/utils/msg.c\<close>). A
  reference is 32 bytes: either fewer than 32 bytes of data stored in place, or (tag byte
  0xff) the pointer to a chunk. The lemmas account for the reference counts: with \<open>owned h M\<close>
  every live block has exactly as many references as its count says, so a block is freed when
  its last reference is released and never before.
\<close>

section \<open>Chunk references\<close>

datatype grid_chunkref = CRSmall bytes | CRChunk chunk_ptr

definition GRID_CHUNKREF_MAX :: u64 where "GRID_CHUNKREF_MAX = 32"

definition grid_chunkref_init ::
  "chunk_heap \<Rightarrow> u64 \<Rightarrow> fresh_block \<Rightarrow> (nat \<Rightarrow> u8) \<Rightarrow> (chunk_heap \<times> grid_chunkref) option" where
  "grid_chunkref_init h sz blk junk =
     (if sz < GRID_CHUNKREF_MAX then Some (h, CRSmall (map junk [0 ..< unat sz]))
      else do {
        r \<leftarrow> grid_chunk_alloc h sz 0 blk;
        case r of Inl e \<Rightarrow> None | Inr (h', p) \<Rightarrow> Some (h', CRChunk p) })"

definition grid_chunkref_init_chunk :: "chunk_ptr \<Rightarrow> grid_chunkref" where
  "grid_chunkref_init_chunk p = CRChunk p"

definition grid_chunkref_term :: "chunk_heap \<Rightarrow> grid_chunkref \<Rightarrow> chunk_heap option" where
  "grid_chunkref_term h cr = (case cr of CRChunk p \<Rightarrow> grid_chunk_free h p | CRSmall b \<Rightarrow> Some h)"

text \<open>The reference is left empty; the result is the chunk the caller now owns.\<close>

definition grid_chunkref_getchunk ::
  "chunk_heap \<Rightarrow> grid_chunkref \<Rightarrow> fresh_block \<Rightarrow> (chunk_heap \<times> chunk_ptr \<times> grid_chunkref) option" where
  "grid_chunkref_getchunk h cr blk =
     (case cr of
        CRChunk p \<Rightarrow> Some (h, p, CRSmall [])
      | CRSmall b \<Rightarrow> do {
          r \<leftarrow> grid_chunk_alloc h (of_nat (length b)) 0 blk;
          case r of
            Inl e \<Rightarrow> None
          | Inr (h1, (a, p)) \<Rightarrow> do {
              c \<leftarrow> h1 a;
              Some (h1(a \<mapsto> c\<lparr>ck_mem := take p (ck_mem c) @ b @ drop (p + length b) (ck_mem c)\<rparr>),
                    (a, p), CRSmall []) } })"

definition grid_chunkref_mv :: "grid_chunkref \<Rightarrow> grid_chunkref" where
  "grid_chunkref_mv src = (case src of CRChunk p \<Rightarrow> CRChunk p | CRSmall b \<Rightarrow> CRSmall b)"

definition grid_chunkref_cp :: "chunk_heap \<Rightarrow> grid_chunkref \<Rightarrow> (chunk_heap \<times> grid_chunkref) option" where
  "grid_chunkref_cp h src =
     (case src of
        CRChunk p \<Rightarrow> map_option (\<lambda>h'. (h', CRChunk p)) (grid_chunk_addref h p 1)
      | CRSmall b \<Rightarrow> Some (h, CRSmall b))"

definition grid_chunkref_data :: "chunk_heap \<Rightarrow> grid_chunkref \<Rightarrow> bytes option" where
  "grid_chunkref_data h cr = (case cr of CRChunk p \<Rightarrow> chunk_data h p | CRSmall b \<Rightarrow> Some b)"

definition grid_chunkref_size :: "chunk_heap \<Rightarrow> grid_chunkref \<Rightarrow> u64 option" where
  "grid_chunkref_size h cr =
     (case cr of CRChunk p \<Rightarrow> grid_chunk_size h p | CRSmall b \<Rightarrow> Some (of_nat (length b)))"

definition grid_chunkref_trim ::
  "chunk_heap \<Rightarrow> grid_chunkref \<Rightarrow> u64 \<Rightarrow> (chunk_heap \<times> grid_chunkref) option" where
  "grid_chunkref_trim h cr n =
     (case cr of
        CRChunk p \<Rightarrow> map_option (\<lambda>(h', p'). (h', CRChunk p')) (grid_chunk_trim h p n)
      | CRSmall b \<Rightarrow> do { guard (n \<le> of_nat (length b)); Some (h, CRSmall (drop (unat n) b)) })"

definition grid_chunkref_bulkcopy_start ::
  "chunk_heap \<Rightarrow> grid_chunkref \<Rightarrow> u32 \<Rightarrow> chunk_heap option" where
  "grid_chunkref_bulkcopy_start h cr copies =
     (case cr of CRChunk p \<Rightarrow> grid_chunk_addref h p copies | CRSmall b \<Rightarrow> Some h)"

definition grid_chunkref_bulkcopy_cp :: "grid_chunkref \<Rightarrow> grid_chunkref" where
  "grid_chunkref_bulkcopy_cp src = src"

section \<open>Messages\<close>

record grid_msg_refs =
  cm_sphdr :: grid_chunkref
  cm_hdrs :: grid_chunkref
  cm_body :: grid_chunkref

definition grid_msg_init ::
  "chunk_heap \<Rightarrow> u64 \<Rightarrow> fresh_block \<Rightarrow> (nat \<Rightarrow> u8) \<Rightarrow> (chunk_heap \<times> grid_msg_refs) option" where
  "grid_msg_init h sz blk junk = do {
     (h1, s) \<leftarrow> grid_chunkref_init h 0 None junk;
     (h2, d) \<leftarrow> grid_chunkref_init h1 0 None junk;
     (h3, b) \<leftarrow> grid_chunkref_init h2 sz blk junk;
     Some (h3, \<lparr>cm_sphdr = s, cm_hdrs = d, cm_body = b\<rparr>) }"

definition grid_msg_init_chunk ::
  "chunk_heap \<Rightarrow> chunk_ptr \<Rightarrow> (nat \<Rightarrow> u8) \<Rightarrow> (chunk_heap \<times> grid_msg_refs) option" where
  "grid_msg_init_chunk h p junk = do {
     (h1, s) \<leftarrow> grid_chunkref_init h 0 None junk;
     (h2, d) \<leftarrow> grid_chunkref_init h1 0 None junk;
     Some (h2, \<lparr>cm_sphdr = s, cm_hdrs = d, cm_body = grid_chunkref_init_chunk p\<rparr>) }"

definition grid_msg_term :: "chunk_heap \<Rightarrow> grid_msg_refs \<Rightarrow> chunk_heap option" where
  "grid_msg_term h m = do {
     h1 \<leftarrow> grid_chunkref_term h (cm_sphdr m);
     h2 \<leftarrow> grid_chunkref_term h1 (cm_hdrs m);
     grid_chunkref_term h2 (cm_body m) }"

definition grid_msg_mv :: "grid_msg_refs \<Rightarrow> grid_msg_refs" where
  "grid_msg_mv src = \<lparr>cm_sphdr = grid_chunkref_mv (cm_sphdr src),
     cm_hdrs = grid_chunkref_mv (cm_hdrs src), cm_body = grid_chunkref_mv (cm_body src)\<rparr>"

definition grid_msg_cp :: "chunk_heap \<Rightarrow> grid_msg_refs \<Rightarrow> (chunk_heap \<times> grid_msg_refs) option" where
  "grid_msg_cp h src = do {
     (h1, s) \<leftarrow> grid_chunkref_cp h (cm_sphdr src);
     (h2, d) \<leftarrow> grid_chunkref_cp h1 (cm_hdrs src);
     (h3, b) \<leftarrow> grid_chunkref_cp h2 (cm_body src);
     Some (h3, \<lparr>cm_sphdr = s, cm_hdrs = d, cm_body = b\<rparr>) }"

definition grid_msg_bulkcopy_start :: "chunk_heap \<Rightarrow> grid_msg_refs \<Rightarrow> u32 \<Rightarrow> chunk_heap option" where
  "grid_msg_bulkcopy_start h m copies = do {
     h1 \<leftarrow> grid_chunkref_bulkcopy_start h (cm_sphdr m) copies;
     h2 \<leftarrow> grid_chunkref_bulkcopy_start h1 (cm_hdrs m) copies;
     grid_chunkref_bulkcopy_start h2 (cm_body m) copies }"

definition grid_msg_bulkcopy_cp :: "grid_msg_refs \<Rightarrow> grid_msg_refs" where
  "grid_msg_bulkcopy_cp src = \<lparr>cm_sphdr = grid_chunkref_bulkcopy_cp (cm_sphdr src),
     cm_hdrs = grid_chunkref_bulkcopy_cp (cm_hdrs src), cm_body = grid_chunkref_bulkcopy_cp (cm_body src)\<rparr>"

definition grid_msg_replace_body ::
  "chunk_heap \<Rightarrow> grid_msg_refs \<Rightarrow> grid_chunkref \<Rightarrow> (chunk_heap \<times> grid_msg_refs) option" where
  "grid_msg_replace_body h m new_body =
     map_option (\<lambda>h'. (h', m\<lparr>cm_body := new_body\<rparr>)) (grid_chunkref_term h (cm_body m))"

section \<open>Ownership accounting\<close>

fun cr_blocks :: "grid_chunkref \<Rightarrow> nat multiset" where
  "cr_blocks (CRSmall b) = {#}"
| "cr_blocks (CRChunk (a, p)) = {#a#}"

definition msg_blocks :: "grid_msg_refs \<Rightarrow> nat multiset" where
  "msg_blocks m = cr_blocks (cm_sphdr m) + cr_blocks (cm_hdrs m) + cr_blocks (cm_body m)"

fun good_cr :: "chunk_heap \<Rightarrow> grid_chunkref \<Rightarrow> bool" where
  "good_cr h (CRSmall b) \<longleftrightarrow> length b < 32"
| "good_cr h (CRChunk p) \<longleftrightarrow> good_ptr h p"

definition good_msg :: "chunk_heap \<Rightarrow> grid_msg_refs \<Rightarrow> bool" where
  "good_msg h m \<longleftrightarrow> good_cr h (cm_sphdr m) \<and> good_cr h (cm_hdrs m) \<and> good_cr h (cm_body m)"

definition owned :: "chunk_heap \<Rightarrow> nat multiset \<Rightarrow> bool" where
  "owned h M \<longleftrightarrow> (\<forall>a. case h a of None \<Rightarrow> count M a = 0
     | Some c \<Rightarrow> unat (ck_refcount c) = count M a \<and> 0 < count M a)"

lemma owned_Some: "owned h M \<Longrightarrow> h a = Some c \<Longrightarrow> unat (ck_refcount c) = count M a \<and> 0 < count M a"
  by (auto simp: owned_def dest: spec [of _ a])

lemma owned_upd:
  assumes o: "owned h M" and n: "\<And>b. b \<noteq> a \<Longrightarrow> count N b = count M b"
    and v: "case v of None \<Rightarrow> count N a = 0 | Some c \<Rightarrow> unat (ck_refcount c) = count N a \<and> 0 < count N a"
  shows "owned (h(a := v)) N"
  unfolding owned_def
proof
  fix b
  show "case (h(a := v)) b of None \<Rightarrow> count N b = 0 | Some c \<Rightarrow> unat (ck_refcount c) = count N b \<and> 0 < count N b"
    using o [unfolded owned_def, rule_format, of b] n [of b] v by (cases "b = a") (simp_all split: option.splits)
qed

text \<open>Taking \<open>k\<close> more references.\<close>

lemma owned_addref:
  assumes o: "owned h M" and g: "good_ptr h (a, p)" and k: "count M a + unat k < 2 ^ 32"
  shows "\<exists>h'. grid_chunk_addref h (a, p) k = Some h' \<and> owned h' (M + replicate_mset (unat k) a)
     \<and> (\<forall>cr. good_cr h' cr = good_cr h cr \<and> grid_chunkref_data h' cr = grid_chunkref_data h cr)"
proof -
  obtain h' c where h': "grid_chunk_addref h (a, p) k = Some h'" and c: "h a = Some c"
    and e: "h' = h(a \<mapsto> c\<lparr>ck_refcount := ck_refcount c + k\<rparr>)"
    using chunk_addref_good [OF g] by blast
  have "unat (ck_refcount c + k) = count M a + unat k"
    using owned_Some [OF o c] k by (simp add: unat_word_ariths)
  then have "owned h' (M + replicate_mset (unat k) a)"
    unfolding e using owned_Some [OF o c] by (intro owned_upd [OF o]) auto
  moreover have "good_cr h' cr = good_cr h cr" "grid_chunkref_data h' cr = grid_chunkref_data h cr" for cr
    by (cases cr; auto simp: e c good_ptr_refcount chunk_data_refcount grid_chunkref_data_def)+
  ultimately show ?thesis using h' by blast
qed

text \<open>
  Releasing a reference: the block goes exactly when no reference to it is left, and every
  remaining reference sees the same data as before.
\<close>

lemma owned_free:
  assumes o: "owned h (M + {#a#})" and g: "good_ptr h (a, p)"
  shows "\<exists>h'. grid_chunk_free h (a, p) = Some h' \<and> owned h' M \<and> (h' a = None \<longleftrightarrow> a \<notin># M)
     \<and> (\<forall>cr. cr_blocks cr \<subseteq># M \<longrightarrow>
          good_cr h' cr = good_cr h cr \<and> grid_chunkref_data h' cr = grid_chunkref_data h cr)"
proof -
  obtain c where c: "h a = Some c" and f: "grid_chunk_free h (a, p) =
      Some (if ck_refcount c \<le> 1 then h(a := None) else h(a \<mapsto> c\<lparr>ck_refcount := ck_refcount c - 1\<rparr>))"
    using chunk_free_good [OF g] by blast
  have rc: "unat (ck_refcount c) = Suc (count M a)" using owned_Some [OF o c] by simp
  have le: "ck_refcount c \<le> 1 \<longleftrightarrow> count M a = 0" using rc by (simp add: word_le_nat_alt)
  show ?thesis
  proof (cases "count M a = 0")
    case True
    have "owned (h(a := None)) M" by (rule owned_upd [OF o]) (use True in auto)
    moreover have "good_cr (h(a := None)) cr = good_cr h cr"
      "grid_chunkref_data (h(a := None)) cr = grid_chunkref_data h cr" if "cr_blocks cr \<subseteq># M" for cr
    proof -
      have "\<And>b q. cr = CRChunk (b, q) \<Longrightarrow> b \<noteq> a" using that True by (auto simp: count_eq_zero_iff)
      then show "good_cr (h(a := None)) cr = good_cr h cr"
        "grid_chunkref_data (h(a := None)) cr = grid_chunkref_data h cr"
        by (cases cr; auto simp: good_ptr_def grid_chunkref_data_def chunk_data_def getptr_other)+
    qed
    ultimately show ?thesis using f le True by (auto simp: not_in_iff)
  next
    case False
    let ?h = "h(a \<mapsto> c\<lparr>ck_refcount := ck_refcount c - 1\<rparr>)"
    have "1 \<le> ck_refcount c" using rc by (simp add: word_le_nat_alt)
    then have "unat (ck_refcount c - 1) = count M a" using rc by (simp add: unat_sub)
    then have "owned ?h M" by (intro owned_upd [OF o]) (use False in auto)
    moreover have "good_cr ?h cr = good_cr h cr" "grid_chunkref_data ?h cr = grid_chunkref_data h cr" for cr
      by (cases cr; auto simp: c good_ptr_refcount chunk_data_refcount grid_chunkref_data_def)+
    ultimately show ?thesis using f le False by (auto simp: not_in_iff)
  qed
qed


section \<open>References and messages\<close>

lemma cr_init_owned:
  assumes o: "owned h M" and i: "grid_chunkref_init h n (Some (a, junk)) junk' = Some (h', cr)"
    and f: "h a = None"
  shows "owned h' (M + cr_blocks cr) \<and> good_cr h' cr \<and> grid_chunkref_size h' cr = Some n"
proof (cases "n < GRID_CHUNKREF_MAX")
  case True
  then have "unat n < 32" by (simp add: GRID_CHUNKREF_MAX_def word_less_nat_alt)
  with True i o show ?thesis by (auto simp: grid_chunkref_init_def grid_chunkref_size_def)
next
  case False
  then obtain p where al: "grid_chunk_alloc h n 0 (Some (a, junk)) = Some (Inr (h', p))" and cr: "cr = CRChunk p"
    using i chunk_alloc_total [of h n 0 "Some (a, junk)"]
    by (fastforce simp: grid_chunkref_init_def split: sum.splits)
  note g = chunk_alloc_good [OF al]
  obtain q where p: "p = (a, q)" using g by (cases p) simp
  obtain c where c: "h' a = Some c" "ck_refcount c = 1" using g by blast
  have h': "h' = h(a := h' a)" using g by (auto simp: fun_eq_iff)
  have "count M a = 0" using o f by (auto simp: owned_def dest: spec [of _ a])
  then have "owned (h(a := h' a)) (M + {#a#})" by (intro owned_upd [OF o]) (use c in auto)
  then show ?thesis using g h' cr p by (simp add: grid_chunkref_size_def)
qed

lemma cr_term_owned:
  assumes "owned h (M + cr_blocks cr)" and "good_cr h cr"
  shows "\<exists>h'. grid_chunkref_term h cr = Some h' \<and> owned h' M
     \<and> (\<forall>cr'. cr_blocks cr' \<subseteq># M \<longrightarrow>
          good_cr h' cr' = good_cr h cr' \<and> grid_chunkref_data h' cr' = grid_chunkref_data h cr')"
proof (cases cr)
  case (CRSmall b)
  with assms show ?thesis by (simp add: grid_chunkref_term_def)
next
  case (CRChunk p)
  obtain a q where "p = (a, q)" by (cases p)
  with CRChunk assms owned_free [of h M a q] show ?thesis by (auto simp: grid_chunkref_term_def)
qed

lemma cr_cp_owned:
  assumes o: "owned h M" and g: "good_cr h src" and k: "\<forall>a. count M a + 1 < 2 ^ 32"
  shows "\<exists>h'. grid_chunkref_cp h src = Some (h', src) \<and> owned h' (M + cr_blocks src)
     \<and> (\<forall>cr. good_cr h' cr = good_cr h cr \<and> grid_chunkref_data h' cr = grid_chunkref_data h cr)"
proof (cases src)
  case (CRSmall b)
  with o show ?thesis by (simp add: grid_chunkref_cp_def)
next
  case (CRChunk p)
  obtain a q where p: "p = (a, q)" by (cases p)
  have "count M a + unat (1 :: u32) < 2 ^ 32" using k by simp
  from owned_addref [OF o _ this, of q] CRChunk p g show ?thesis
    by (auto simp: grid_chunkref_cp_def)
qed

lemma cr_bulk_owned:
  assumes o: "owned h M" and g: "good_cr h src" and k: "\<forall>a. count M a + unat n < 2 ^ 32"
  shows "\<exists>h'. grid_chunkref_bulkcopy_start h src n = Some h'
     \<and> owned h' (M + repeat_mset (unat n) (cr_blocks src))
     \<and> (\<forall>cr. good_cr h' cr = good_cr h cr \<and> grid_chunkref_data h' cr = grid_chunkref_data h cr)"
proof (cases src)
  case (CRSmall b)
  with o show ?thesis by (simp add: grid_chunkref_bulkcopy_start_def)
next
  case (CRChunk p)
  obtain a q where p: "p = (a, q)" by (cases p)
  have "count M a + unat n < 2 ^ 32" using k by simp
  moreover have "repeat_mset (unat n) {#a#} = replicate_mset (unat n) a"
    by (simp add: multiset_eq_iff)
  ultimately show ?thesis using owned_addref [OF o, of a q n] CRChunk p g
    by (auto simp: grid_chunkref_bulkcopy_start_def)
qed

lemma cr_trim_data:
  assumes g: "good_cr h cr" and d: "grid_chunkref_data h cr = Some d" and n: "unat n \<le> length d"
    and sp: "\<And>a p. cr = CRChunk (a, p) \<Longrightarrow> p + unat n - 8 < 2 ^ 32 - 1"
  shows "\<exists>h' cr'. grid_chunkref_trim h cr n = Some (h', cr') \<and> good_cr h' cr'
     \<and> grid_chunkref_data h' cr' = Some (drop (unat n) d) \<and> cr_blocks cr' = cr_blocks cr"
proof (cases cr)
  case (CRSmall b)
  have "unat (of_nat (length b) :: u64) = length b" using g CRSmall by (simp add: unat_of_nat)
  with CRSmall g d n show ?thesis
    by (auto simp: grid_chunkref_trim_def grid_chunkref_data_def word_le_nat_alt)
next
  case (CRChunk p)
  obtain a q where p: "p = (a, q)" by (cases p)
  show ?thesis using chunk_trim_good [of h a q d n] CRChunk p g d n sp
    by (auto simp: grid_chunkref_trim_def grid_chunkref_data_def)
qed

lemma msg_term_owned:
  assumes o: "owned h (M + msg_blocks m)" and g: "good_msg h m"
  shows "\<exists>h'. grid_msg_term h m = Some h' \<and> owned h' M"
proof -
  let ?B = "cr_blocks (cm_body m)" and ?D = "cr_blocks (cm_hdrs m)"
  have "owned h (M + ?D + ?B + cr_blocks (cm_sphdr m))" using o by (simp add: msg_blocks_def ac_simps)
  from cr_term_owned [OF this] g obtain h1 where h1: "grid_chunkref_term h (cm_sphdr m) = Some h1"
    "owned h1 (M + ?D + ?B)" "good_cr h1 (cm_hdrs m)" "good_cr h1 (cm_body m)"
    by (auto simp: good_msg_def)
  have "owned h1 (M + ?B + ?D)" using h1(2) by (simp add: ac_simps)
  from cr_term_owned [OF this h1(3)] h1(4) obtain h2 where h2: "grid_chunkref_term h1 (cm_hdrs m) = Some h2"
    "owned h2 (M + ?B)" "good_cr h2 (cm_body m)" by auto
  from cr_term_owned [OF h2(2,3)] h1(1) h2(1) show ?thesis by (auto simp: grid_msg_term_def)
qed

lemma msg_bulk_owned:
  assumes o: "owned h M" and g: "good_msg h m" and k: "\<forall>a. count M a + 3 * unat n < 2 ^ 32"
  shows "\<exists>h'. grid_msg_bulkcopy_start h m n = Some h' \<and> owned h' (M + repeat_mset (unat n) (msg_blocks m))
     \<and> (\<forall>cr. good_cr h' cr = good_cr h cr \<and> grid_chunkref_data h' cr = grid_chunkref_data h cr)"
proof -
  let ?R = "\<lambda>cr. repeat_mset (unat n) (cr_blocks cr)"
  have le: "count (?R cr) a \<le> unat n" for cr a by (cases cr) auto
  have k0: "count M a + unat n < 2 ^ 32" for a using k [rule_format, of a] by linarith
  obtain h1 where h1: "grid_chunkref_bulkcopy_start h (cm_sphdr m) n = Some h1" "owned h1 (M + ?R (cm_sphdr m))"
    "\<forall>cr. good_cr h1 cr = good_cr h cr \<and> grid_chunkref_data h1 cr = grid_chunkref_data h cr"
    using cr_bulk_owned [OF o, of "cm_sphdr m" n] g k0 by (auto simp: good_msg_def)
  have k1: "\<forall>a. count (M + ?R (cm_sphdr m)) a + unat n < 2 ^ 32"
  proof
    fix a
    show "count (M + ?R (cm_sphdr m)) a + unat n < 2 ^ 32"
      unfolding count_union using k [rule_format, of a] le [of "cm_sphdr m" a] by linarith
  qed
  obtain h2 where h2: "grid_chunkref_bulkcopy_start h1 (cm_hdrs m) n = Some h2"
    "owned h2 (M + ?R (cm_sphdr m) + ?R (cm_hdrs m))"
    "\<forall>cr. good_cr h2 cr = good_cr h cr \<and> grid_chunkref_data h2 cr = grid_chunkref_data h cr"
    using cr_bulk_owned [OF h1(2) _ k1, of "cm_hdrs m"] g h1(3) by (auto simp: good_msg_def)
  have k2: "\<forall>a. count (M + ?R (cm_sphdr m) + ?R (cm_hdrs m)) a + unat n < 2 ^ 32"
  proof
    fix a
    show "count (M + ?R (cm_sphdr m) + ?R (cm_hdrs m)) a + unat n < 2 ^ 32"
      unfolding count_union using k [rule_format, of a] le [of "cm_sphdr m" a] le [of "cm_hdrs m" a]
      by linarith
  qed
  obtain h3 where h3: "grid_chunkref_bulkcopy_start h2 (cm_body m) n = Some h3"
    "owned h3 (M + ?R (cm_sphdr m) + ?R (cm_hdrs m) + ?R (cm_body m))"
    "\<forall>cr. good_cr h3 cr = good_cr h cr \<and> grid_chunkref_data h3 cr = grid_chunkref_data h cr"
    using cr_bulk_owned [OF h2(2) _ k2, of "cm_body m"] g h2(3) by (auto simp: good_msg_def)
  show ?thesis using h1(1) h2(1) h3
    by (auto simp: grid_msg_bulkcopy_start_def msg_blocks_def add.assoc)
qed

text \<open>Releasing a message several times over, once per copy.\<close>

fun term_times :: "nat \<Rightarrow> chunk_heap \<Rightarrow> grid_msg_refs \<Rightarrow> chunk_heap option" where
  "term_times 0 h m = Some h"
| "term_times (Suc n) h m = Option.bind (grid_msg_term h m) (\<lambda>h'. term_times n h' m)"

lemma msg_term_keeps:
  assumes o: "owned h (M + msg_blocks m)" and g: "good_msg h m" and s: "M = N + msg_blocks m"
  shows "\<exists>h'. grid_msg_term h m = Some h' \<and> owned h' M \<and> good_msg h' m"
proof -
  let ?S = "cr_blocks (cm_sphdr m)" and ?D = "cr_blocks (cm_hdrs m)" and ?B = "cr_blocks (cm_body m)"
  have sub: "?S \<subseteq># M" "?D \<subseteq># M" "?B \<subseteq># M"
    by (simp_all add: s msg_blocks_def subset_mset.add_increasing subset_mset.add_increasing2)
  note le = subset_mset.add_increasing2
  have "owned h (M + ?D + ?B + ?S)" using o by (simp add: msg_blocks_def ac_simps)
  from cr_term_owned [OF this] g obtain h1 where h1: "grid_chunkref_term h (cm_sphdr m) = Some h1"
    "owned h1 (M + ?D + ?B)" "\<And>cr. cr_blocks cr \<subseteq># M + ?D + ?B \<Longrightarrow> good_cr h1 cr = good_cr h cr"
    by (auto simp: good_msg_def)
  have g1: "good_cr h1 (cm_sphdr m)" "good_cr h1 (cm_hdrs m)" "good_cr h1 (cm_body m)"
    using g h1(3) sub by (simp_all add: good_msg_def subset_mset.add_increasing2)
  have "owned h1 (M + ?B + ?D)" using h1(2) by (simp add: ac_simps)
  from cr_term_owned [OF this g1(2)] obtain h2 where h2: "grid_chunkref_term h1 (cm_hdrs m) = Some h2"
    "owned h2 (M + ?B)" "\<And>cr. cr_blocks cr \<subseteq># M + ?B \<Longrightarrow> good_cr h2 cr = good_cr h1 cr" by auto
  have g2: "good_cr h2 (cm_sphdr m)" "good_cr h2 (cm_hdrs m)" "good_cr h2 (cm_body m)"
    using g1 h2(3) sub by (simp_all add: subset_mset.add_increasing2)
  from cr_term_owned [OF h2(2) g2(3)] obtain h3 where h3: "grid_chunkref_term h2 (cm_body m) = Some h3"
    "owned h3 M" "\<And>cr. cr_blocks cr \<subseteq># M \<Longrightarrow> good_cr h3 cr = good_cr h2 cr" by auto
  show ?thesis using h1(1) h2(1) h3 g2 sub by (simp add: grid_msg_term_def good_msg_def)
qed

lemma term_times_owned:
  "owned h (repeat_mset (Suc n) (msg_blocks m)) \<Longrightarrow> good_msg h m \<Longrightarrow>
     (\<forall>k \<le> n. \<exists>h'. term_times k h m = Some h' \<and> good_msg h' m)
     \<and> term_times (Suc n) h m = Some Map.empty"
proof (induction n arbitrary: h)
  case 0
  then have "owned h ({#} + msg_blocks m)" by simp
  from msg_term_owned [OF this 0(2)] obtain h' where h': "grid_msg_term h m = Some h'" "owned h' {#}"
    by blast
  have "h' a = None" for a using h'(2) by (auto simp: owned_def split: option.splits dest: spec [of _ a])
  with h' 0 show ?case by (auto simp: fun_eq_iff)
next
  case (Suc n)
  have e: "repeat_mset (Suc n) (msg_blocks m) = repeat_mset n (msg_blocks m) + msg_blocks m" by simp
  have "owned h (repeat_mset (Suc n) (msg_blocks m) + msg_blocks m)" using Suc.prems(1) by (simp add: ac_simps)
  from msg_term_keeps [OF this Suc.prems(2) e] obtain h' where
    h': "grid_msg_term h m = Some h'" "owned h' (repeat_mset (Suc n) (msg_blocks m))" "good_msg h' m" by blast
  from Suc.IH [OF h'(2,3)] have ih: "\<forall>k \<le> n. \<exists>h''. term_times k h' m = Some h'' \<and> good_msg h'' m"
    "term_times (Suc n) h' m = Some Map.empty" by blast+
  have "\<exists>h''. term_times k h m = Some h'' \<and> good_msg h'' m" if "k \<le> Suc n" for k
    using that ih(1) h' Suc.prems(2) by (cases k) auto
  with ih(2) h'(1) show ?case by simp
qed

end
