(* ===== verification/Msg.thy ===== *)
theory Msg
  imports ChunkRef
begin

text \<open>
  Messages as the protocols see them: three byte strings, the header stack of the scalability
  protocol, the ancillary headers and the body (\<open>src/utils/msg.h\<close>). \<open>msg_of\<close> reads them
  off the chunk references of \<open>ChunkRef\<close>; the lemmas show that moving, copying and trimming
  references are the corresponding operations on byte strings, which is what the components
  above are modelled with.
\<close>

record msg =
  sphdr :: bytes
  hdrs :: bytes
  body :: bytes

definition msg_of :: "chunk_heap \<Rightarrow> grid_msg_refs \<Rightarrow> msg option" where
  "msg_of h m = do {
     s \<leftarrow> grid_chunkref_data h (cm_sphdr m);
     d \<leftarrow> grid_chunkref_data h (cm_hdrs m);
     b \<leftarrow> grid_chunkref_data h (cm_body m);
     Some \<lparr>sphdr = s, hdrs = d, body = b\<rparr> }"

lemma good_cr_data: "good_cr h cr \<Longrightarrow> \<exists>d. grid_chunkref_data h cr = Some d"
  by (cases cr) (auto simp: grid_chunkref_data_def dest: good_ptr_data)

lemma good_msg_of: "good_msg h m \<Longrightarrow> \<exists>v. msg_of h m = Some v"
  by (auto simp: good_msg_def msg_of_def dest!: good_cr_data)

lemma msg_of_cong:
  "(\<And>cr. grid_chunkref_data h' cr = grid_chunkref_data h cr) \<Longrightarrow> msg_of h' m = msg_of h m"
  by (simp add: msg_of_def)

lemma msg_of_mv: "msg_of h (grid_msg_mv m) = msg_of h m"
proof -
  have "grid_chunkref_mv cr = cr" for cr by (simp add: grid_chunkref_mv_def split: grid_chunkref.split)
  then show ?thesis by (simp add: grid_msg_mv_def msg_of_def)
qed

text \<open>Trimming the body of a message removes bytes from its front.\<close>

lemma msg_trim_body:
  assumes g: "good_msg h m" and v: "msg_of h m = Some v" and n: "unat n \<le> length (body v)"
    and sp: "\<And>a p. cm_body m = CRChunk (a, p) \<Longrightarrow> p + unat n - 8 < 2 ^ 32 - 1"
    and alone: "\<And>a p. cm_body m = CRChunk (a, p) \<Longrightarrow>
      a \<notin># cr_blocks (cm_sphdr m) + cr_blocks (cm_hdrs m)"
  shows "\<exists>h' cr. grid_chunkref_trim h (cm_body m) n = Some (h', cr)
     \<and> msg_of h' (m\<lparr>cm_body := cr\<rparr>) = Some (v\<lparr>body := drop (unat n) (body v)\<rparr>)"
proof -
  from v obtain s d b where sdb: "grid_chunkref_data h (cm_sphdr m) = Some s"
    "grid_chunkref_data h (cm_hdrs m) = Some d" "grid_chunkref_data h (cm_body m) = Some b"
    "v = \<lparr>sphdr = s, hdrs = d, body = b\<rparr>"
    by (auto simp: msg_of_def bind_eq_Some_conv)
  have gb: "good_cr h (cm_body m)" using g by (simp add: good_msg_def)
  have nb: "unat n \<le> length b" using n sdb(4) by simp
  obtain h' cr where
    t: "grid_chunkref_trim h (cm_body m) n = Some (h', cr)" "grid_chunkref_data h' cr = Some (drop (unat n) b)"
    using cr_trim_data [OF gb sdb(3) nb] sp by blast
  have keep: "grid_chunkref_data h' c = grid_chunkref_data h c"
    if "\<And>a p. cm_body m = CRChunk (a, p) \<Longrightarrow> a \<notin># cr_blocks c" for c
  proof (cases "cm_body m")
    case (CRSmall x)
    with t(1) show ?thesis by (auto simp: grid_chunkref_trim_def split: if_splits)
  next
    case (CRChunk p)
    obtain a q where p: "p = (a, q)" by (cases p)
    have "\<And>b'. b' \<noteq> a \<Longrightarrow> h' b' = h b'"
      using t(1) CRChunk p
      by (auto simp: grid_chunkref_trim_def grid_chunk_trim_def Let_def bind_eq_Some_conv split: if_splits)
    moreover have "a \<notin># cr_blocks c" using that CRChunk p by blast
    ultimately show ?thesis
      by (cases c) (auto simp: grid_chunkref_data_def chunk_data_def grid_chunk_getptr_def)
  qed
  have "grid_chunkref_data h' (cm_sphdr m) = Some s" "grid_chunkref_data h' (cm_hdrs m) = Some d"
    using keep [of "cm_sphdr m"] keep [of "cm_hdrs m"] alone sdb by auto
  with t sdb(4) show ?thesis by (simp add: msg_of_def)
qed

end
