(* ===== verification/Msgqueue.thy ===== *)
theory Msgqueue
  imports Msg Fifo
begin

text \<open>
  The message queue of an inproc pipe (\<open>src/transports/inproc/msgqueue.c\<close>): a linked list
  of chunks of 126 message slots, written at the \<open>out\<close> position and read at the \<open>in\<close>
  position, with one empty chunk cached. Chunks live in a store; addresses at or above
  \<open>mq_brk\<close> have never been allocated, and an allocation takes the next one. A slot that holds
  no message is \<open>None\<close>, reading it is an abort.
\<close>

definition GRID_MSGQUEUE_GRANULARITY :: nat where "GRID_MSGQUEUE_GRANULARITY = 126"

record mq_chunk =
  qc_msgs :: "msg option list"
  qc_next :: "nat option"

record msgqueue =
  mq_store :: "nat \<Rightarrow> mq_chunk option"
  mq_brk :: nat
  mq_out_chunk :: nat
  mq_out_pos :: nat
  mq_in_chunk :: nat
  mq_in_pos :: nat
  mq_count :: u64
  mq_mem :: u64
  mq_maxmem :: u64
  mq_cache :: "nat option"

definition fresh_chunk :: mq_chunk where
  "fresh_chunk = \<lparr>qc_msgs = replicate GRID_MSGQUEUE_GRANULARITY None, qc_next = None\<rparr>"

definition grid_msgqueue_init :: "u64 \<Rightarrow> msgqueue" where
  "grid_msgqueue_init maxmem =
     \<lparr>mq_store = [0 \<mapsto> fresh_chunk], mq_brk = 1, mq_out_chunk = 0, mq_out_pos = 0,
      mq_in_chunk = 0, mq_in_pos = 0, mq_count = 0, mq_mem = 0, mq_maxmem = maxmem, mq_cache = None\<rparr>"

definition grid_msgqueue_empty :: "msgqueue \<Rightarrow> bool" where
  "grid_msgqueue_empty q \<longleftrightarrow> mq_count q = 0"

definition msg_size :: "msg \<Rightarrow> u64" where
  "msg_size m = of_nat (length (sphdr m)) + of_nat (length (body m))"

text \<open>The part of \<open>grid_msgqueue_send\<close> that opens a new chunk when the last one is full.\<close>

definition mq_new_chunk :: "msgqueue \<Rightarrow> msgqueue option" where
  "mq_new_chunk q =
     (let q1 = (if mq_cache q = None
                then q\<lparr>mq_store := (mq_store q)(mq_brk q \<mapsto> fresh_chunk), mq_brk := mq_brk q + 1,
                       mq_cache := Some (mq_brk q)\<rparr>
                else q)
      in do {
        c \<leftarrow> mq_store q1 (mq_out_chunk q1);
        n \<leftarrow> mq_cache q1;
        Some (q1\<lparr>mq_store := (mq_store q1)(mq_out_chunk q1 \<mapsto> c\<lparr>qc_next := Some n\<rparr>),
                 mq_out_chunk := n, mq_cache := None, mq_out_pos := 0\<rparr>) })"

definition grid_msgqueue_send :: "msg \<Rightarrow> msgqueue \<Rightarrow> (errno + msgqueue) option" where
  "grid_msgqueue_send m q =
     (let msgsz = msg_size m
      in if 0 < mq_count q \<and> mq_maxmem q \<le> mq_mem q + msgsz then Some (Inl EAGAIN)
         else do {
           c \<leftarrow> mq_store q (mq_out_chunk q);
           guard (mq_out_pos q < length (qc_msgs c));
           let q1 = q\<lparr>mq_count := mq_count q + 1, mq_mem := mq_mem q + msgsz,
                      mq_store := (mq_store q)(mq_out_chunk q \<mapsto>
                         c\<lparr>qc_msgs := (qc_msgs c)[mq_out_pos q := Some m]\<rparr>),
                      mq_out_pos := mq_out_pos q + 1\<rparr>;
           q2 \<leftarrow> (if mq_out_pos q1 = GRID_MSGQUEUE_GRANULARITY then mq_new_chunk q1 else Some q1);
           Some (Inr q2) })"

definition grid_msgqueue_recv :: "msgqueue \<Rightarrow> (errno + msg \<times> msgqueue) option" where
  "grid_msgqueue_recv q =
     (if mq_count q = 0 then Some (Inl EAGAIN)
      else do {
        c \<leftarrow> mq_store q (mq_in_chunk q);
        guard (mq_in_pos q < length (qc_msgs c));
        m \<leftarrow> qc_msgs c ! mq_in_pos q;
        let q1 = q\<lparr>mq_in_pos := mq_in_pos q + 1\<rparr>;
        q2 \<leftarrow> (if mq_in_pos q1 = GRID_MSGQUEUE_GRANULARITY
              then do {
                n \<leftarrow> qc_next c;
                Some (if mq_cache q1 = None
                  then q1\<lparr>mq_in_chunk := n, mq_in_pos := 0, mq_cache := Some (mq_in_chunk q)\<rparr>
                  else q1\<lparr>mq_in_chunk := n, mq_in_pos := 0,
                          mq_store := (mq_store q1)(mq_in_chunk q := None)\<rparr>) }
              else Some q1);
        Some (Inr (m, q2\<lparr>mq_count := mq_count q2 - 1, mq_mem := mq_mem q2 - msg_size m\<rparr>)) })"

text \<open>The loop of \<open>grid_msgqueue_term\<close> receives until the queue is empty.\<close>

partial_function (option) mq_drain :: "msgqueue \<Rightarrow> msgqueue option" where
  "mq_drain q = Option.bind (grid_msgqueue_recv q)
     (\<lambda>r. case r of Inl e \<Rightarrow> if e = EAGAIN then Some q else None | Inr (m, q') \<Rightarrow> mq_drain q')"

definition grid_msgqueue_term :: "msgqueue \<Rightarrow> msgqueue option" where
  "grid_msgqueue_term q = do {
     q1 \<leftarrow> mq_drain q;
     guard (mq_in_chunk q1 = mq_out_chunk q1);
     let st = (mq_store q1)(mq_in_chunk q1 := None);
     Some (q1\<lparr>mq_store := (case mq_cache q1 of None \<Rightarrow> st | Some a \<Rightarrow> st(a := None))\<rparr>) }"

section \<open>The messages a queue holds\<close>

text \<open>The chunks from the read chunk to the write chunk, through the next pointers.\<close>

fun chunk_path :: "(nat \<Rightarrow> mq_chunk option) \<Rightarrow> nat list \<Rightarrow> nat \<Rightarrow> bool" where
  "chunk_path st [] a \<longleftrightarrow> (\<exists>c. st a = Some c \<and> length (qc_msgs c) = 126)"
| "chunk_path st (b # bs) a \<longleftrightarrow> (\<exists>c. st b = Some c \<and> length (qc_msgs c) = 126
     \<and> qc_next c = Some (hd (bs @ [a])) \<and> chunk_path st bs a)"

definition slots_of :: "(nat \<Rightarrow> mq_chunk option) \<Rightarrow> nat \<Rightarrow> msg option list" where
  "slots_of st a = (case st a of None \<Rightarrow> [] | Some c \<Rightarrow> qc_msgs c)"

definition mq_sum :: "msg list \<Rightarrow> u64" where
  "mq_sum xs = sum_list (map msg_size xs)"

text \<open>
  \<open>bs\<close> are the chunks before the write chunk, \<open>written\<close> the slots written so far, from the
  start of the read chunk. The write position is below \<open>n\<close>: 126 between operations, 127 while
  a full chunk has not been left yet.
\<close>

definition mq_written :: "msgqueue \<Rightarrow> nat list \<Rightarrow> msg option list" where
  "mq_written q bs = concat (map (slots_of (mq_store q)) bs)
     @ take (mq_out_pos q) (slots_of (mq_store q) (mq_out_chunk q))"

definition mq_holds :: "nat \<Rightarrow> msgqueue \<Rightarrow> nat list \<Rightarrow> msg list \<Rightarrow> bool" where
  "mq_holds n q bs xs \<longleftrightarrow>
     chunk_path (mq_store q) bs (mq_out_chunk q) \<and> distinct (bs @ [mq_out_chunk q])
     \<and> mq_in_chunk q = hd (bs @ [mq_out_chunk q])
     \<and> mq_in_pos q < 126 \<and> mq_out_pos q < n \<and> mq_in_pos q \<le> length (mq_written q bs)
     \<and> drop (mq_in_pos q) (mq_written q bs) = map Some xs
     \<and> mq_count q = of_nat (length xs) \<and> length xs < 2 ^ 64 \<and> mq_mem q = mq_sum xs
     \<and> (\<forall>a \<ge> mq_brk q. mq_store q a = None)
     \<and> (\<forall>a. mq_cache q = Some a \<longrightarrow> a \<notin> set (bs @ [mq_out_chunk q])
            \<and> (\<exists>c. mq_store q a = Some c \<and> length (qc_msgs c) = 126))"

definition mq_rep :: "msgqueue \<Rightarrow> msg list \<Rightarrow> bool" where
  "mq_rep q xs \<longleftrightarrow> (\<exists>bs. mq_holds 126 q bs xs)"

lemma mq_init_rep: "mq_rep (grid_msgqueue_init maxmem) []"
  by (auto simp: mq_rep_def mq_holds_def mq_written_def grid_msgqueue_init_def fresh_chunk_def
      GRID_MSGQUEUE_GRANULARITY_def mq_sum_def intro!: exI [of _ "[]"])

lemma chunk_path_out: "chunk_path st bs a \<Longrightarrow> \<exists>c. st a = Some c \<and> length (qc_msgs c) = 126"
  by (induction bs) auto

lemma chunk_path_cong:
  "(\<And>b. b \<in> set bs \<Longrightarrow> st' b = st b) \<Longrightarrow> (\<exists>c. st' a = Some c \<and> length (qc_msgs c) = 126) \<Longrightarrow>
     chunk_path st bs a \<Longrightarrow> chunk_path st' bs a"
  by (induction bs) auto

lemma chunk_path_snoc:
  "chunk_path st bs out \<Longrightarrow> st out = Some c \<Longrightarrow> qc_next c = Some n \<Longrightarrow>
     (\<exists>c'. st n = Some c' \<and> length (qc_msgs c') = 126) \<Longrightarrow> chunk_path st (bs @ [out]) n"
proof (induction bs)
  case Nil
  then show ?case by auto
next
  case (Cons b bs)
  then show ?case by (cases bs) auto
qed

lemma slots_length: "chunk_path st bs out \<Longrightarrow> b \<in> set (bs @ [out]) \<Longrightarrow> length (slots_of st b) = 126"
  by (induction bs) (auto simp: slots_of_def)


lemma slots_cong: "(\<And>b. b \<in> set bs \<Longrightarrow> st' b = st b) \<Longrightarrow> map (slots_of st') bs = map (slots_of st) bs"
  by (simp add: slots_of_def)

lemma slots_upd_other [simp]: "a \<notin> set bs \<Longrightarrow> map (slots_of (st(a := v))) bs = map (slots_of st) bs"
  by (rule slots_cong) auto

lemma mq_holds_narrow: "mq_holds n q bs xs \<Longrightarrow> mq_out_pos q < k \<Longrightarrow> mq_holds k q bs xs"
  by (simp add: mq_holds_def)

lemma mq_sum_snoc: "mq_sum (xs @ [m]) = mq_sum xs + msg_size m"
  by (simp add: mq_sum_def)

lemma mq_store_slot:
  assumes h: "mq_holds 126 q bs xs" and l: "Suc (length xs) < 2 ^ 64"
    and c: "mq_store q (mq_out_chunk q) = Some c"
  shows "mq_holds 127 (q\<lparr>mq_count := mq_count q + 1, mq_mem := mq_mem q + msg_size m,
      mq_store := (mq_store q)(mq_out_chunk q \<mapsto> c\<lparr>qc_msgs := (qc_msgs c)[mq_out_pos q := Some m]\<rparr>),
      mq_out_pos := mq_out_pos q + 1\<rparr>) bs (xs @ [m])"
    (is "mq_holds 127 ?q bs _")
proof -
  let ?o = "mq_out_chunk q"
  have lc: "length (qc_msgs c) = 126" and p: "mq_out_pos q < 126" and ob: "?o \<notin> set bs"
    using h c chunk_path_out by (fastforce simp: mq_holds_def)+
  have eq: "mq_store ?q b = mq_store q b" if "b \<in> set bs" for b using that ob by auto
  have w: "mq_written ?q bs = mq_written q bs @ [Some m]"
    using ob lc p c by (simp add: mq_written_def slots_of_def [of _ ?o] take_Suc_conv_app_nth)
  have path: "chunk_path (mq_store ?q) bs ?o"
    using h lc eq by (intro chunk_path_cong [of bs "mq_store ?q" "mq_store q"]) (auto simp: mq_holds_def)
  show ?thesis
    using h l p path w lc c
    by (auto simp: mq_holds_def mq_sum_snoc split: option.splits)
qed

lemma mq_leave_chunk:
  assumes h: "mq_holds 127 q bs xs" and p: "mq_out_pos q = 126"
  shows "\<exists>q'. mq_new_chunk q = Some q' \<and> mq_rep q' xs"
proof -
  let ?o = "mq_out_chunk q"
  obtain c where c: "mq_store q ?o = Some c" "length (qc_msgs c) = 126"
    using h chunk_path_out by (fastforce simp: mq_holds_def)
  define q1 where "q1 = (if mq_cache q = None
      then q\<lparr>mq_store := (mq_store q)(mq_brk q \<mapsto> fresh_chunk), mq_brk := mq_brk q + 1,
             mq_cache := Some (mq_brk q)\<rparr> else q)"
  have fresh: "mq_brk q \<notin> set (bs @ [?o])"
  proof
    assume "mq_brk q \<in> set (bs @ [?o])"
    then have "length (slots_of (mq_store q) (mq_brk q)) = 126"
      using h slots_length by (auto simp: mq_holds_def)
    moreover have "mq_store q (mq_brk q) = None" using h by (simp add: mq_holds_def)
    ultimately show False by (simp add: slots_of_def)
  qed
  obtain n cn where n: "mq_cache q1 = Some n" "n \<notin> set (bs @ [?o])" "mq_store q1 n = Some cn"
    "length (qc_msgs cn) = 126"
    using h fresh by (cases "mq_cache q")
      (auto simp: q1_def mq_holds_def fresh_chunk_def GRID_MSGQUEUE_GRANULARITY_def)
  have st: "mq_store q1 b = mq_store q b" if "b \<in> set (bs @ [?o])" for b
    using that fresh by (auto simp: q1_def)
  have brk: "\<forall>a \<ge> mq_brk q1. mq_store q1 a = None" using h by (auto simp: q1_def mq_holds_def)
  have same: "mq_out_chunk q1 = ?o" "mq_in_chunk q1 = mq_in_chunk q" "mq_in_pos q1 = mq_in_pos q"
    "mq_count q1 = mq_count q" "mq_mem q1 = mq_mem q" by (simp_all add: q1_def)
  let ?q = "q1\<lparr>mq_store := (mq_store q1)(?o \<mapsto> c\<lparr>qc_next := Some n\<rparr>),
      mq_out_chunk := n, mq_cache := None, mq_out_pos := 0\<rparr>"
  have o1: "mq_store q1 ?o = Some c" using st c by simp
  have new: "mq_new_chunk q = Some ?q"
    using o1 n(1) same unfolding mq_new_chunk_def Let_def q1_def [symmetric] by simp
  have ob: "?o \<notin> set bs" using h by (simp add: mq_holds_def)
  have eq: "mq_store ?q b = mq_store q b" if "b \<in> set bs" for b using that ob st by auto
  have "chunk_path (mq_store ?q) bs ?o"
    using h c eq by (intro chunk_path_cong [of bs "mq_store ?q" "mq_store q"]) (auto simp: mq_holds_def)
  then have path: "chunk_path (mq_store ?q) (bs @ [?o]) n"
    by (rule chunk_path_snoc) (use n in auto)
  have w: "mq_written ?q (bs @ [?o]) = mq_written q bs"
    using st ob n(2) c p slots_cong [of bs "mq_store q1" "mq_store q"]
    by (simp cong: map_cong add: mq_written_def slots_of_def [of _ ?o] slots_of_def [of _ n])
  have "mq_holds 126 ?q (bs @ [?o]) xs"
    using h n(2) path w brk o1 same
    by (cases bs) (auto simp: mq_holds_def)
  with new show ?thesis by (auto simp: mq_rep_def)
qed

lemma mq_send_ok:
  assumes r: "mq_rep q xs" and l: "Suc (length xs) < 2 ^ 64"
  shows "(\<exists>q'. grid_msgqueue_send m q = Some (Inr q') \<and> mq_rep q' (xs @ [m]))
     \<or> (xs \<noteq> [] \<and> mq_maxmem q \<le> mq_mem q + msg_size m \<and> grid_msgqueue_send m q = Some (Inl EAGAIN))"
proof -
  obtain bs where h: "mq_holds 126 q bs xs" using r by (auto simp: mq_rep_def)
  obtain c where c: "mq_store q (mq_out_chunk q) = Some c" "length (qc_msgs c) = 126"
    using h chunk_path_out by (fastforce simp: mq_holds_def)
  have cnt: "mq_count q = 0 \<longleftrightarrow> xs = []"
    using h by (auto simp: mq_holds_def word_unat_eq_iff unat_of_nat)
  show ?thesis
  proof (cases "0 < mq_count q \<and> mq_maxmem q \<le> mq_mem q + msg_size m")
    case True
    with cnt show ?thesis by (auto simp: grid_msgqueue_send_def Let_def)
  next
    case False
    note h1 = mq_store_slot [OF h l c(1), of m]
    have p: "mq_out_pos q < 126" using h by (simp add: mq_holds_def)
    show ?thesis
    proof (cases "mq_out_pos q + 1 = 126")
      case True
      obtain q' where "mq_new_chunk (q\<lparr>mq_count := mq_count q + 1, mq_mem := mq_mem q + msg_size m,
          mq_store := (mq_store q)(mq_out_chunk q \<mapsto> c\<lparr>qc_msgs := (qc_msgs c)[mq_out_pos q := Some m]\<rparr>),
          mq_out_pos := mq_out_pos q + 1\<rparr>) = Some q'" "mq_rep q' (xs @ [m])"
        using mq_leave_chunk [OF h1] True by auto
      moreover from this have "grid_msgqueue_send m q = Some (Inr q')"
        using True False c p
        by (simp only: grid_msgqueue_send_def Let_def if_False GRID_MSGQUEUE_GRANULARITY_def) simp
      ultimately show ?thesis by blast
    next
      case neq: False
      then have "mq_rep (q\<lparr>mq_count := mq_count q + 1, mq_mem := mq_mem q + msg_size m,
          mq_store := (mq_store q)(mq_out_chunk q \<mapsto> c\<lparr>qc_msgs := (qc_msgs c)[mq_out_pos q := Some m]\<rparr>),
          mq_out_pos := mq_out_pos q + 1\<rparr>) (xs @ [m])"
        unfolding mq_rep_def using p by (intro exI [of _ bs] mq_holds_narrow [OF h1]) simp
      with False neq c p show ?thesis
        by (auto simp: grid_msgqueue_send_def GRID_MSGQUEUE_GRANULARITY_def Let_def)
    qed
  qed
qed


lemma mq_count_0: "mq_rep q xs \<Longrightarrow> mq_count q = 0 \<longleftrightarrow> xs = []"
  by (auto simp: mq_rep_def mq_holds_def word_unat_eq_iff unat_of_nat)

text \<open>Stepping over the first message, within the read chunk or to the next chunk.\<close>

lemma mq_holds_step:
  assumes h: "mq_holds 126 q bs (x # xs)" and n: "mq_in_pos q + 1 < 126"
  shows "mq_holds 126 (q\<lparr>mq_in_pos := mq_in_pos q + 1, mq_count := mq_count q - 1,
    mq_mem := mq_mem q - msg_size x\<rparr>) bs xs"
proof -
  have d: "drop (mq_in_pos q) (mq_written q bs) = map Some (x # xs)" using h by (simp add: mq_holds_def)
  then have "mq_in_pos q < length (mq_written q bs)" by (metis drop_all list.distinct(1) list.simps(9) not_le)
  moreover from d have "drop (Suc (mq_in_pos q)) (mq_written q bs) = map Some xs"
    by (metis drop_Suc drop_tl list.sel(3) list.simps(9) tl_drop)
  ultimately show ?thesis using h n
    by (simp add: mq_holds_def mq_written_def mq_sum_def)
qed

lemma mq_holds_next:
  assumes h: "mq_holds 126 q bs (x # xs)" and n: "mq_in_pos q + 1 = 126"
  shows "\<exists>b bs' c n'. bs = b # bs' \<and> mq_store q b = Some c \<and> qc_next c = Some n'
    \<and> mq_holds 126 (q\<lparr>mq_in_chunk := n', mq_in_pos := 0, mq_cache := Some b,
         mq_count := mq_count q - 1, mq_mem := mq_mem q - msg_size x\<rparr>) bs' xs
    \<and> mq_holds 126 (q\<lparr>mq_in_chunk := n', mq_in_pos := 0, mq_store := (mq_store q)(b := None),
         mq_count := mq_count q - 1, mq_mem := mq_mem q - msg_size x\<rparr>) bs' xs"
proof -
  have d: "drop (mq_in_pos q) (mq_written q bs) = map Some (x # xs)" using h by (simp add: mq_holds_def)
  have lo: "length (slots_of (mq_store q) (mq_out_chunk q)) = 126"
    using h slots_length [of "mq_store q" bs "mq_out_chunk q"] by (simp add: mq_holds_def)
  have ip: "mq_in_pos q < length (mq_written q bs)"
    using d by (metis drop_all list.distinct(1) list.simps(9) not_le)
  have "bs \<noteq> []"
    using ip n h lo by (auto simp: mq_written_def mq_holds_def)
  then obtain b bs' where bs: "bs = b # bs'" by (cases bs) auto
  obtain c where c: "mq_store q b = Some c" "length (qc_msgs c) = 126"
    "qc_next c = Some (hd (bs' @ [mq_out_chunk q]))" "chunk_path (mq_store q) bs' (mq_out_chunk q)"
    using h bs by (auto simp: mq_holds_def)
  have nb: "b \<notin> set bs'" "b \<noteq> mq_out_chunk q" using h bs by (auto simp: mq_holds_def)
  let ?w = "concat (map (slots_of (mq_store q)) bs') @ take (mq_out_pos q) (slots_of (mq_store q) (mq_out_chunk q))"
  have "mq_written q bs = slots_of (mq_store q) b @ ?w" by (simp add: mq_written_def bs)
  moreover have "length (slots_of (mq_store q) b) = 126" using c by (simp add: slots_of_def)
  moreover have "drop 126 (mq_written q bs) = map Some xs"
    using d n by (metis drop_Suc drop_tl list.sel(3) list.simps(9) tl_drop Suc_eq_plus1)
  ultimately have w: "?w = map Some xs" by simp
  have p2: "chunk_path ((mq_store q)(b := None)) bs' (mq_out_chunk q)"
    using nb c(4) chunk_path_out [OF c(4)]
    by (intro chunk_path_cong [of bs' "(mq_store q)(b := None)" "mq_store q"]) auto
  have "mq_holds 126 (q\<lparr>mq_in_chunk := hd (bs' @ [mq_out_chunk q]), mq_in_pos := 0, mq_cache := Some b,
         mq_count := mq_count q - 1, mq_mem := mq_mem q - msg_size x\<rparr>) bs' xs"
    using h c nb w bs by (simp add: mq_holds_def mq_written_def mq_sum_def)
  moreover have "mq_holds 126 (q\<lparr>mq_in_chunk := hd (bs' @ [mq_out_chunk q]), mq_in_pos := 0,
         mq_store := (mq_store q)(b := None),
         mq_count := mq_count q - 1, mq_mem := mq_mem q - msg_size x\<rparr>) bs' xs"
    using h p2 nb w bs
    by (auto simp: mq_holds_def mq_written_def mq_sum_def slots_of_def [of _ "mq_out_chunk q"] split: option.splits)
  ultimately show ?thesis using bs c by blast
qed

lemma mq_first_slot:
  assumes h: "mq_holds 126 q bs (x # xs)"
  shows "\<exists>c. mq_store q (mq_in_chunk q) = Some c \<and> mq_in_pos q < length (qc_msgs c)
    \<and> qc_msgs c ! mq_in_pos q = Some x"
proof -
  have d: "drop (mq_in_pos q) (mq_written q bs) = map Some (x # xs)" using h by (simp add: mq_holds_def)
  then have ip: "mq_in_pos q < length (mq_written q bs)" by (metis drop_all list.distinct(1) list.simps(9) not_le)
  have x: "mq_written q bs ! mq_in_pos q = Some x"
    using d ip by (metis hd_drop_conv_nth list.sel(1) list.simps(9))
  show ?thesis
  proof (cases bs)
    case Nil
    obtain c where c: "mq_store q (mq_out_chunk q) = Some c" "length (qc_msgs c) = 126"
      using h chunk_path_out by (fastforce simp: mq_holds_def)
    with Nil h x ip show ?thesis by (auto simp: mq_holds_def mq_written_def slots_of_def)
  next
    case (Cons b bs')
    then obtain c where c: "mq_store q b = Some c" "length (qc_msgs c) = 126"
      using h by (auto simp: mq_holds_def)
    with Cons h x show ?thesis by (auto simp: mq_holds_def mq_written_def slots_of_def nth_append)
  qed
qed

lemma mq_recv_first:
  assumes r: "mq_rep q (x # xs)"
  shows "\<exists>q'. grid_msgqueue_recv q = Some (Inr (x, q')) \<and> mq_rep q' xs"
proof -
  obtain bs where h: "mq_holds 126 q bs (x # xs)" using r by (auto simp: mq_rep_def)
  obtain c where c: "mq_store q (mq_in_chunk q) = Some c" "mq_in_pos q < length (qc_msgs c)"
    "qc_msgs c ! mq_in_pos q = Some x" using mq_first_slot [OF h] by blast
  have n0: "mq_count q \<noteq> 0" using mq_count_0 [OF r] by simp
  show ?thesis
  proof (cases "mq_in_pos q + 1 = 126")
    case True
    obtain b bs' c' n' where b: "bs = b # bs'" "mq_store q b = Some c'" "qc_next c' = Some n'"
      and keep: "mq_holds 126 (q\<lparr>mq_in_chunk := n', mq_in_pos := 0, mq_cache := Some b,
         mq_count := mq_count q - 1, mq_mem := mq_mem q - msg_size x\<rparr>) bs' xs"
      and drop: "mq_holds 126 (q\<lparr>mq_in_chunk := n', mq_in_pos := 0, mq_store := (mq_store q)(b := None),
         mq_count := mq_count q - 1, mq_mem := mq_mem q - msg_size x\<rparr>) bs' xs"
      using mq_holds_next [OF h True] by blast
    have ib: "mq_in_chunk q = b" using h b(1) by (simp add: mq_holds_def)
    show ?thesis
      using n0 c b ib True keep drop
      by (cases "mq_cache q = None")
        (auto simp: grid_msgqueue_recv_def GRID_MSGQUEUE_GRANULARITY_def mq_rep_def)
  next
    case False
    then have "mq_in_pos q + 1 < 126" using h by (simp add: mq_holds_def)
    from mq_holds_step [OF h this] n0 c False show ?thesis
      by (auto simp: grid_msgqueue_recv_def GRID_MSGQUEUE_GRANULARITY_def mq_rep_def)
  qed
qed

lemma mq_recv_empty: "mq_rep q [] \<Longrightarrow> grid_msgqueue_recv q = Some (Inl EAGAIN)"
  using mq_count_0 [of q "[]"] by (simp add: grid_msgqueue_recv_def)

section \<open>The queue as a first-in first-out queue\<close>

text \<open>A refused message is not pushed; a receive that finds nothing pops nothing.\<close>

definition mq_push :: "msg \<Rightarrow> msgqueue \<Rightarrow> msgqueue option" where
  "mq_push m q = (case grid_msgqueue_send m q of Some (Inr q') \<Rightarrow> Some q' | _ \<Rightarrow> None)"

definition mq_pop :: "msgqueue \<Rightarrow> (msg option \<times> msgqueue) option" where
  "mq_pop q = (case grid_msgqueue_recv q of
       None \<Rightarrow> None | Some (Inl e) \<Rightarrow> Some (None, q) | Some (Inr (m, q')) \<Rightarrow> Some (Some m, q'))"

interpretation mq: fifo mq_rep mq_push mq_pop "\<lambda>n. n < 2 ^ 64"
proof unfold_locales
  fix q q' xs m
  assume "mq_rep q xs" "Suc (length xs) < 2 ^ 64" "mq_push m q = Some q'"
  then show "mq_rep q' (xs @ [m])"
    using mq_send_ok [of q xs m] by (auto simp: mq_push_def)
next
  fix q assume "mq_rep q []"
  then show "mq_pop q = Some (None, q)" by (simp add: mq_pop_def mq_recv_empty)
next
  fix q x xs assume "mq_rep q (x # xs)"
  then show "\<exists>s'. mq_pop q = Some (Some x, s') \<and> mq_rep s' xs"
    using mq_recv_first [of q x xs] by (auto simp: mq_pop_def)
qed simp

text \<open>Draining stops, with an empty queue, so termination frees the last chunk.\<close>

lemma mq_drain_ok: "mq_rep q xs \<Longrightarrow> \<exists>q'. mq_drain q = Some q' \<and> mq_rep q' []"
proof (induction xs arbitrary: q)
  case Nil
  then show ?case by (subst mq_drain.simps) (auto simp: mq_recv_empty)
next
  case (Cons x xs)
  obtain q1 where "grid_msgqueue_recv q = Some (Inr (x, q1))" "mq_rep q1 xs"
    using mq_recv_first [OF Cons.prems] by blast
  with Cons.IH [of q1] show ?case by (subst mq_drain.simps) auto
qed

lemma mq_empty_one_chunk:
  assumes "mq_rep q []"
  shows "mq_in_chunk q = mq_out_chunk q"
proof -
  obtain bs where h: "mq_holds 126 q bs []" using assms by (auto simp: mq_rep_def)
  show ?thesis
  proof (cases bs)
    case Nil
    with h show ?thesis by (simp add: mq_holds_def)
  next
    case (Cons b bs')
    have "length (slots_of (mq_store q) b) = 126"
      using h slots_length [of "mq_store q" bs "mq_out_chunk q" b] Cons by (simp add: mq_holds_def)
    then have "126 \<le> length (mq_written q bs)" by (simp add: mq_written_def Cons)
    moreover have "length (mq_written q bs) \<le> mq_in_pos q" "mq_in_pos q < 126"
      using h by (simp_all add: mq_holds_def)
    ultimately show ?thesis by simp
  qed
qed

lemma mq_term_ok: "mq_rep q xs \<Longrightarrow> \<exists>q'. grid_msgqueue_term q = Some q'"
  using mq_drain_ok [of q xs] by (auto simp: grid_msgqueue_term_def Let_def dest: mq_empty_one_chunk)

end
