(* ===== verification/Pipe.thy ===== *)
theory Pipe
  imports Msg
begin

text \<open>
  Pipes between a socket and a transport (\<open>src/core/pipe.c\<close>, \<open>src/protocol.h\<close>).
  A pipe base has one inbound and one outbound state machine; a transport's \<open>send\<close> and
  \<open>recv\<close> functions are arguments of the model, and may call \<open>grid_pipebase_sent\<close> and
  \<open>grid_pipebase_received\<close> on the pipe before they return. \<open>ps_tr\<close> is the state of
  the transports. The locale \<open>pipe_world\<close> is what the protocols rely on.
\<close>

section \<open>States\<close>

datatype pipebase_state = PB_IDLE | PB_ACTIVE | PB_FAILED
datatype pipebase_instate = IN_DEACTIVATED | IN_IDLE | IN_RECEIVING | IN_RECEIVED | IN_ASYNC
datatype pipebase_outstate = OUT_DEACTIVATED | OUT_IDLE | OUT_SENDING | OUT_SENT | OUT_ASYNC

definition GRID_PIPE_RELEASE :: u32 where "GRID_PIPE_RELEASE = 1"
definition GRID_PIPE_PARSED :: u32 where "GRID_PIPE_PARSED = 2"

text \<open>The events a socket type reports.\<close>

definition GRID_SOCKBASE_EVENT_IN :: u32 where "GRID_SOCKBASE_EVENT_IN = 1"
definition GRID_SOCKBASE_EVENT_OUT :: u32 where "GRID_SOCKBASE_EVENT_OUT = 2"

text \<open>\<open>pb_in\<close> and \<open>pb_out\<close> say whether the readable and writable events are queued.\<close>

record pipebase =
  pb_state :: pipebase_state
  pb_instate :: pipebase_instate
  pb_outstate :: pipebase_outstate
  pb_in :: bool
  pb_out :: bool

record 'x pipe_sys =
  ps_base :: "nat \<Rightarrow> pipebase"
  ps_tr :: 'x

definition grid_pipebase_init :: pipebase where
  "grid_pipebase_init = \<lparr>pb_state = PB_IDLE, pb_instate = IN_DEACTIVATED,
     pb_outstate = OUT_DEACTIVATED, pb_in = False, pb_out = False\<rparr>"

definition grid_pipebase_term :: "pipebase \<Rightarrow> unit option" where
  "grid_pipebase_term b = do { guard (pb_state b = PB_IDLE); guard (\<not> pb_out b); guard (\<not> pb_in b) }"

text \<open>Queueing an event that is queued already aborts (\<open>grid_queue_push\<close>).\<close>

definition raise_in :: "pipebase \<Rightarrow> pipebase option" where
  "raise_in b = do { guard (\<not> pb_in b); Some (b\<lparr>pb_in := True\<rparr>) }"

definition raise_out :: "pipebase \<Rightarrow> pipebase option" where
  "raise_out b = do { guard (\<not> pb_out b); Some (b\<lparr>pb_out := True\<rparr>) }"

text \<open>
  \<open>add\<close> is the socket's answer when the pipe is registered (\<open>grid_sock_add\<close>), \<open>rm\<close> says
  that the pipe is to be unregistered (\<open>grid_sock_rm\<close>).
\<close>

definition grid_pipebase_start :: "(errno + unit) \<Rightarrow> pipebase \<Rightarrow> ((errno + unit) \<times> pipebase) option" where
  "grid_pipebase_start add b = do {
     guard (pb_state b = PB_IDLE);
     let b1 = b\<lparr>pb_state := PB_ACTIVE, pb_instate := IN_ASYNC, pb_outstate := OUT_IDLE\<rparr>;
     case add of
       Inl e \<Rightarrow> Some (Inl e, b1\<lparr>pb_state := PB_FAILED\<rparr>)
     | Inr u \<Rightarrow> do { b2 \<leftarrow> raise_out b1; Some (Inr (), b2) } }"

definition grid_pipebase_stop :: "pipebase \<Rightarrow> bool \<times> pipebase" where
  "grid_pipebase_stop b = (let rm = (pb_state b = PB_ACTIVE) in (rm, b\<lparr>pb_state := PB_IDLE\<rparr>))"

definition grid_pipebase_received :: "pipebase \<Rightarrow> pipebase option" where
  "grid_pipebase_received b =
     (if pb_instate b = IN_RECEIVING then Some (b\<lparr>pb_instate := IN_RECEIVED\<rparr>)
      else do { guard (pb_instate b = IN_ASYNC); raise_in (b\<lparr>pb_instate := IN_IDLE\<rparr>) })"

definition grid_pipebase_sent :: "pipebase \<Rightarrow> pipebase option" where
  "grid_pipebase_sent b =
     (if pb_outstate b = OUT_SENDING then Some (b\<lparr>pb_outstate := OUT_SENT\<rparr>)
      else do { guard (pb_outstate b = OUT_ASYNC); raise_out (b\<lparr>pb_outstate := OUT_IDLE\<rparr>) })"

section \<open>Sending and receiving\<close>

definition set_base :: "nat \<Rightarrow> pipebase \<Rightarrow> 'x pipe_sys \<Rightarrow> 'x pipe_sys" where
  "set_base p b s = s\<lparr>ps_base := (ps_base s)(p := b)\<rparr>"

type_synonym 'x vfptr_send = "nat \<Rightarrow> msg \<Rightarrow> 'x pipe_sys \<Rightarrow> ((errno + u32) \<times> 'x pipe_sys) option"
type_synonym 'x vfptr_recv = "nat \<Rightarrow> 'x pipe_sys \<Rightarrow> ((errno + u32 \<times> msg) \<times> 'x pipe_sys) option"

definition grid_pipe_send :: "'x vfptr_send \<Rightarrow> nat \<Rightarrow> msg \<Rightarrow> 'x pipe_sys \<Rightarrow> (u32 \<times> 'x pipe_sys) option" where
  "grid_pipe_send send p m s = do {
     guard (pb_outstate (ps_base s p) = OUT_IDLE);
     (r, s1) \<leftarrow> send p m (set_base p ((ps_base s p)\<lparr>pb_outstate := OUT_SENDING\<rparr>) s);
     let b = ps_base s1 p;
     case r of
       Inl e \<Rightarrow> None
     | Inr rc \<Rightarrow>
         if pb_outstate b = OUT_SENT then Some (rc, set_base p (b\<lparr>pb_outstate := OUT_IDLE\<rparr>) s1)
         else do { guard (pb_outstate b = OUT_SENDING);
                   Some (rc OR GRID_PIPE_RELEASE, set_base p (b\<lparr>pb_outstate := OUT_ASYNC\<rparr>) s1) } }"

definition grid_pipe_recv :: "'x vfptr_recv \<Rightarrow> nat \<Rightarrow> 'x pipe_sys \<Rightarrow> (u32 \<times> msg \<times> 'x pipe_sys) option" where
  "grid_pipe_recv recv p s = do {
     guard (pb_instate (ps_base s p) = IN_IDLE);
     (r, s1) \<leftarrow> recv p (set_base p ((ps_base s p)\<lparr>pb_instate := IN_RECEIVING\<rparr>) s);
     let b = ps_base s1 p;
     case r of
       Inl e \<Rightarrow> None
     | Inr (rc, m) \<Rightarrow>
         if pb_instate b = IN_RECEIVED then Some (rc, m, set_base p (b\<lparr>pb_instate := IN_IDLE\<rparr>) s1)
         else do { guard (pb_instate b = IN_RECEIVING);
                   Some (rc OR GRID_PIPE_RELEASE, m, set_base p (b\<lparr>pb_instate := IN_ASYNC\<rparr>) s1) } }"

definition released :: "u32 \<Rightarrow> bool" where
  "released rc \<longleftrightarrow> rc AND GRID_PIPE_RELEASE \<noteq> 0"

definition parsed :: "u32 \<Rightarrow> bool" where
  "parsed rc \<longleftrightarrow> rc AND GRID_PIPE_PARSED \<noteq> 0"

section \<open>What the protocols rely on\<close>

text \<open>
  In a state that satisfies \<open>winv\<close>, \<open>can_out p\<close> and \<open>can_in p\<close> say that the pipe may be
  used for sending and receiving; using it then does not abort, and it stays usable unless the
  result carries the release flag. Other pipes and the other direction are not affected. A
  message that the transport has not parsed has an empty protocol header.
\<close>

locale pipe_world =
  fixes psend :: "nat \<Rightarrow> msg \<Rightarrow> 'w \<Rightarrow> (u32 \<times> 'w) option"
    and precv :: "nat \<Rightarrow> 'w \<Rightarrow> (u32 \<times> msg \<times> 'w) option"
    and winv :: "'w \<Rightarrow> bool"
    and can_out :: "nat \<Rightarrow> 'w \<Rightarrow> bool"
    and can_in :: "nat \<Rightarrow> 'w \<Rightarrow> bool"
  assumes send_ok: "winv w \<Longrightarrow> can_out p w \<Longrightarrow> \<exists>rc w'. psend p m w = Some (rc, w') \<and> winv w'
      \<and> can_out p w' = (\<not> released rc) \<and> (\<forall>q. q \<noteq> p \<longrightarrow> can_out q w' = can_out q w)
      \<and> (\<forall>q. can_in q w' = can_in q w)"
    and recv_ok: "winv w \<Longrightarrow> can_in p w \<Longrightarrow> \<exists>rc m w'. precv p w = Some (rc, m, w') \<and> winv w'
      \<and> can_in p w' = (\<not> released rc) \<and> (\<forall>q. q \<noteq> p \<longrightarrow> can_in q w' = can_in q w)
      \<and> (\<forall>q. can_out q w' = can_out q w) \<and> (parsed rc \<or> sphdr m = [])"

text \<open>
  A loop that receives until nothing is left ends because each pipe holds a finite backlog,
  which only receiving from it changes.
\<close>

locale finite_pipes = pipe_world +
  fixes backlog :: "nat \<Rightarrow> 'a \<Rightarrow> nat"
  assumes recv_backlog: "winv w \<Longrightarrow> can_in p w \<Longrightarrow> precv p w = Some (rc, m, w') \<Longrightarrow>
      backlog p w' < backlog p w \<and> (\<forall>q. q \<noteq> p \<longrightarrow> backlog q w' = backlog q w)"

section \<open>Laws\<close>

lemma set_base_simps [simp]:
  "ps_base (set_base p b s) = (ps_base s)(p := b)" "ps_tr (set_base p b s) = ps_tr s"
  by (simp_all add: set_base_def)

lemma released_or [simp]: "released (rc OR GRID_PIPE_RELEASE)"
proof -
  have "bit ((rc OR GRID_PIPE_RELEASE) AND GRID_PIPE_RELEASE) 0"
    by (simp add: GRID_PIPE_RELEASE_def bit_simps)
  then show ?thesis unfolding released_def by (metis bit_0_eq bot_apply bot_bool_def)
qed

text \<open>
  The general shape of a successful send and receive: if the transport's function succeeds and
  calls back at most once, the pipe ends idle or waiting, and the flag says which.
\<close>

lemma pipe_send_cases:
  assumes "pb_outstate (ps_base s p) = OUT_IDLE"
    and "send p m (set_base p ((ps_base s p)\<lparr>pb_outstate := OUT_SENDING\<rparr>) s) = Some (Inr rc, s1)"
    and "pb_outstate (ps_base s1 p) = OUT_SENT \<and> \<not> released rc \<or> pb_outstate (ps_base s1 p) = OUT_SENDING"
  shows "\<exists>rc' b. grid_pipe_send send p m s = Some (rc', set_base p b s1)
     \<and> b = (ps_base s1 p)\<lparr>pb_outstate := if released rc' then OUT_ASYNC else OUT_IDLE\<rparr>"
  using assms by (auto simp: grid_pipe_send_def Let_def)

lemma pipe_recv_cases:
  assumes "pb_instate (ps_base s p) = IN_IDLE"
    and "recv p (set_base p ((ps_base s p)\<lparr>pb_instate := IN_RECEIVING\<rparr>) s) = Some (Inr (rc, m), s1)"
    and "pb_instate (ps_base s1 p) = IN_RECEIVED \<and> \<not> released rc \<or> pb_instate (ps_base s1 p) = IN_RECEIVING"
  shows "\<exists>rc' b. grid_pipe_recv recv p s = Some (rc', m, set_base p b s1)
     \<and> b = (ps_base s1 p)\<lparr>pb_instate := if released rc' then IN_ASYNC else IN_IDLE\<rparr>"
  using assms by (auto simp: grid_pipe_recv_def Let_def)

end
