(* ===== verification/Fsm.thy ===== *)
theory Fsm
  imports Prelude
begin

text \<open>
  State machines of the asynchronous engine (\<open>src/aio/fsm.c\<close>). A machine embedded in a larger
  state \<open>'s\<close> is given by its field's selector \<open>get\<close> and update \<open>upd\<close>; \<open>fn\<close> is its
  handler while it runs and \<open>shut\<close> its handler while it is stopping. \<open>fs_stopped\<close> says that
  its STOPPED event is queued for its owner.
\<close>

datatype fsm_state = FSM_IDLE | FSM_ACTIVE | FSM_STOPPING

record grid_fsm =
  fs_state :: fsm_state
  fs_stopped :: bool

definition grid_fsm_init :: grid_fsm where
  "grid_fsm_init = \<lparr>fs_state = FSM_IDLE, fs_stopped = False\<rparr>"

definition grid_fsm_isidle :: "grid_fsm \<Rightarrow> bool" where
  "grid_fsm_isidle f \<longleftrightarrow> fs_state f = FSM_IDLE \<and> \<not> fs_stopped f"

definition grid_fsm_term :: "grid_fsm \<Rightarrow> unit option" where
  "grid_fsm_term f = do { guard (grid_fsm_isidle f); guard (\<not> fs_stopped f) }"

definition grid_fsm_feed ::
  "('s \<Rightarrow> grid_fsm) \<Rightarrow> ('e \<Rightarrow> 's \<Rightarrow> 's option) \<Rightarrow> ('e \<Rightarrow> 's \<Rightarrow> 's option) \<Rightarrow> 'e \<Rightarrow> 's \<Rightarrow> 's option" where
  "grid_fsm_feed get fn shut e s = (if fs_state (get s) \<noteq> FSM_STOPPING then fn e s else shut e s)"

definition grid_fsm_start ::
  "('s \<Rightarrow> grid_fsm) \<Rightarrow> ((grid_fsm \<Rightarrow> grid_fsm) \<Rightarrow> 's \<Rightarrow> 's) \<Rightarrow> ('s \<Rightarrow> 's option) \<Rightarrow> 's \<Rightarrow> 's option" where
  "grid_fsm_start get upd fn_start s = do {
     guard (grid_fsm_isidle (get s));
     s1 \<leftarrow> fn_start s;
     Some (upd (\<lambda>f. f\<lparr>fs_state := FSM_ACTIVE\<rparr>) s1) }"

definition grid_fsm_stop ::
  "('s \<Rightarrow> grid_fsm) \<Rightarrow> ((grid_fsm \<Rightarrow> grid_fsm) \<Rightarrow> 's \<Rightarrow> 's) \<Rightarrow> ('s \<Rightarrow> 's option) \<Rightarrow> 's \<Rightarrow> 's option" where
  "grid_fsm_stop get upd shut_stop s =
     (if fs_state (get s) \<noteq> FSM_ACTIVE then Some s
      else shut_stop (upd (\<lambda>f. f\<lparr>fs_state := FSM_STOPPING\<rparr>) s))"

definition grid_fsm_stopped :: "grid_fsm \<Rightarrow> grid_fsm option" where
  "grid_fsm_stopped f = do {
     guard (fs_state f = FSM_STOPPING);
     guard (\<not> fs_stopped f);
     Some (f\<lparr>fs_stopped := True, fs_state := FSM_IDLE\<rparr>) }"

definition grid_fsm_stopped_noevent :: "grid_fsm \<Rightarrow> grid_fsm option" where
  "grid_fsm_stopped_noevent f = do { guard (fs_state f = FSM_STOPPING); Some (f\<lparr>fs_state := FSM_IDLE\<rparr>) }"

text \<open>The queued STOPPED event is handed to the owner.\<close>

definition stopped_delivered :: "grid_fsm \<Rightarrow> grid_fsm" where
  "stopped_delivered f = f\<lparr>fs_stopped := False\<rparr>"

end
