(* ===== verification/Sinproc.thy ===== *)
theory Sinproc
  imports Pipe Msgqueue Fsm
begin

text \<open>
  Inproc sessions (\<open>src/transports/inproc/sinproc.c\<close>). Two sessions connect two sockets of
  one process: a message is exposed in the sender's session, a SENT event makes the peer move it
  into its message queue, and a RECEIVED event gives the sender back its turn. When the queue is
  over its limit the message lingers in the sender's session until the receiver takes one out.
  Sessions, pipes and their owners are named by numbers; \<open>ss_events\<close> holds the queued event
  objects, and queueing one that is queued already aborts. \<open>ss_removed\<close> lists the pipes that
  were unregistered from their socket.
\<close>

section \<open>State\<close>

datatype sinproc_state = SP_IDLE | SP_CONNECTING | SP_READY | SP_ACTIVE | SP_DISCONNECTED
  | SP_STOPPING_PEER | SP_STOPPING

datatype sinproc_event = EV_CONNECT | EV_READY | EV_ACCEPTED | EV_SENT | EV_RECEIVED | EV_DISCONNECT
  | EV_STOPPED

text \<open>The event objects of a session, and where a queued event goes.\<close>

datatype event_obj = OConnect | OSent | OReceived | ODisconnect | OStopped
datatype event_dst = ToSession nat | ToOwner nat

datatype fsm_action = ACT_START | ACT_STOP | ACT_READY

record sinproc =
  sp_fsm :: fsm_state
  sp_state :: sinproc_state
  sp_sending :: bool
  sp_receiving :: bool
  sp_peer :: "nat option"
  sp_msgqueue :: msgqueue
  sp_msg :: msg

record sinproc_sys =
  ss_sess :: "nat \<Rightarrow> sinproc"
  ss_events :: "nat \<times> event_obj \<Rightarrow> (event_dst \<times> sinproc_event \<times> nat) option"
  ss_removed :: "nat list"

type_synonym inproc = "sinproc_sys pipe_sys"

definition empty_msg :: msg where
  "empty_msg = \<lparr>sphdr = [], hdrs = [], body = []\<rparr>"

definition sess :: "inproc \<Rightarrow> nat \<Rightarrow> sinproc" where
  "sess w i = ss_sess (ps_tr w) i"

definition upd_sess :: "nat \<Rightarrow> (sinproc \<Rightarrow> sinproc) \<Rightarrow> inproc \<Rightarrow> inproc" where
  "upd_sess i f w = w\<lparr>ps_tr := (ps_tr w)\<lparr>ss_sess := (ss_sess (ps_tr w))(i := f (ss_sess (ps_tr w) i))\<rparr>\<rparr>"

definition event_at :: "inproc \<Rightarrow> nat \<Rightarrow> event_obj \<Rightarrow> (event_dst \<times> sinproc_event \<times> nat) option" where
  "event_at w i obj = ss_events (ps_tr w) (i, obj)"

definition put_event :: "nat \<Rightarrow> event_obj \<Rightarrow> (event_dst \<times> sinproc_event \<times> nat) option \<Rightarrow> inproc \<Rightarrow> inproc" where
  "put_event i obj e w = w\<lparr>ps_tr := (ps_tr w)\<lparr>ss_events := (ss_events (ps_tr w))((i, obj) := e)\<rparr>\<rparr>"

definition raise_event :: "nat \<Rightarrow> event_obj \<Rightarrow> event_dst \<Rightarrow> sinproc_event \<Rightarrow> nat \<Rightarrow> inproc \<Rightarrow> inproc option" where
  "raise_event i obj dst type src w = do {
     guard (event_at w i obj = None);
     Some (put_event i obj (Some (dst, type, src)) w) }"

definition upd_base :: "nat \<Rightarrow> (pipebase \<Rightarrow> pipebase option) \<Rightarrow> inproc \<Rightarrow> inproc option" where
  "upd_base i f w = map_option (\<lambda>b. set_base i b w) (f (ps_base w i))"

definition grid_sinproc_init :: "u64 \<Rightarrow> sinproc" where
  "grid_sinproc_init rcvbuf = \<lparr>sp_fsm = FSM_IDLE, sp_state = SP_IDLE, sp_sending = False,
     sp_receiving = False, sp_peer = None, sp_msgqueue = grid_msgqueue_init rcvbuf, sp_msg = empty_msg\<rparr>"

section \<open>Sending and receiving\<close>

text \<open>The header is merged into the body of the message that travels.\<close>

definition merge_msg :: "msg \<Rightarrow> msg" where
  "merge_msg m = \<lparr>sphdr = [], hdrs = [], body = sphdr m @ body m\<rparr>"

definition grid_sinproc_send :: "sinproc_sys vfptr_send" where
  "grid_sinproc_send i m w =
     (if sp_state (sess w i) = SP_DISCONNECTED then Some (Inl ECONNRESET, w)
      else do {
        guard (sp_state (sess w i) = SP_ACTIVE);
        guard (\<not> sp_sending (sess w i));
        let w1 = upd_sess i (\<lambda>s. s\<lparr>sp_msg := merge_msg m, sp_sending := True\<rparr>) w;
        j \<leftarrow> sp_peer (sess w1 i);
        w2 \<leftarrow> raise_event j OSent (ToSession j) EV_SENT i w1;
        Some (Inr 0, w2) })"

definition grid_sinproc_recv :: "sinproc_sys vfptr_recv" where
  "grid_sinproc_recv i w = do {
     guard (sp_state (sess w i) = SP_ACTIVE \<or> sp_state (sess w i) = SP_DISCONNECTED);
     r \<leftarrow> grid_msgqueue_recv (sp_msgqueue (sess w i));
     case r of
       Inl e \<Rightarrow> None
     | Inr (m, q) \<Rightarrow> do {
         let w1 = upd_sess i (\<lambda>s. s\<lparr>sp_msgqueue := q\<rparr>) w;
         w2 \<leftarrow> (if sp_state (sess w1 i) \<noteq> SP_DISCONNECTED \<and> sp_receiving (sess w1 i) then do {
                  j \<leftarrow> sp_peer (sess w1 i);
                  r2 \<leftarrow> grid_msgqueue_send (sp_msg (sess w1 j)) q;
                  case r2 of
                    Inl e \<Rightarrow> if e = EAGAIN then Some w1 else None
                  | Inr q2 \<Rightarrow> do {
                      let w2 = upd_sess i (\<lambda>s. s\<lparr>sp_msgqueue := q2\<rparr>) w1;
                      let w3 = upd_sess j (\<lambda>s. s\<lparr>sp_msg := empty_msg\<rparr>) w2;
                      w4 \<leftarrow> raise_event j OReceived (ToSession j) EV_RECEIVED i w3;
                      Some (upd_sess i (\<lambda>s. s\<lparr>sp_receiving := False\<rparr>) w4) } }
                else Some w1);
         w3 \<leftarrow> (if \<not> grid_msgqueue_empty (sp_msgqueue (sess w2 i))
                then upd_base i grid_pipebase_received w2 else Some w2);
         Some (Inr (0, m), w3) } }"

section \<open>State machine\<close>

text \<open>\<open>add\<close> is the socket's answer to the new pipe.\<close>

definition start_pipe :: "nat \<Rightarrow> (errno + unit) \<Rightarrow> inproc \<Rightarrow> inproc option" where
  "start_pipe i add w = do {
     (r, b) \<leftarrow> grid_pipebase_start add (ps_base w i);
     case r of Inl e \<Rightarrow> None | Inr u \<Rightarrow> Some (set_base i b w) }"

definition stop_pipe :: "nat \<Rightarrow> inproc \<Rightarrow> inproc" where
  "stop_pipe i w =
     (let (rm, b) = grid_pipebase_stop (ps_base w i);
          w1 = set_base i b w
      in if rm then w1\<lparr>ps_tr := (ps_tr w1)\<lparr>ss_removed := ss_removed (ps_tr w1) @ [i]\<rparr>\<rparr> else w1)"

definition set_state :: "nat \<Rightarrow> sinproc_state \<Rightarrow> inproc \<Rightarrow> inproc" where
  "set_state i st w = upd_sess i (\<lambda>s. s\<lparr>sp_state := st\<rparr>) w"

text \<open>An event from the peer, in each state of a running machine.\<close>

definition sinproc_peer_event ::
  "(errno + unit) \<Rightarrow> nat \<Rightarrow> sinproc_event \<Rightarrow> nat \<Rightarrow> inproc \<Rightarrow> inproc option" where
  "sinproc_peer_event add i type src w =
     (case sp_state (sess w i) of
        SP_CONNECTING \<Rightarrow>
          (case type of
             EV_READY \<Rightarrow> do {
               w2 \<leftarrow> start_pipe i add (upd_sess i (\<lambda>s. s\<lparr>sp_peer := Some src\<rparr>) w);
               raise_event i OConnect (ToSession src) EV_ACCEPTED i (set_state i SP_ACTIVE w2) }
           | _ \<Rightarrow> None)
      | SP_READY \<Rightarrow>
          (if type = EV_READY \<or> type = EV_ACCEPTED
           then map_option (set_state i SP_ACTIVE) (start_pipe i add w) else None)
      | SP_ACTIVE \<Rightarrow>
          (case type of
             EV_SENT \<Rightarrow> do {
               j \<leftarrow> sp_peer (sess w i);
               let empty = grid_msgqueue_empty (sp_msgqueue (sess w i));
               r \<leftarrow> grid_msgqueue_send (sp_msg (sess w j)) (sp_msgqueue (sess w i));
               case r of
                 Inl e \<Rightarrow> if e = EAGAIN then Some (upd_sess i (\<lambda>s. s\<lparr>sp_receiving := True\<rparr>) w) else None
               | Inr q \<Rightarrow> do {
                   let w1 = upd_sess j (\<lambda>s. s\<lparr>sp_msg := empty_msg\<rparr>) (upd_sess i (\<lambda>s. s\<lparr>sp_msgqueue := q\<rparr>) w);
                   w2 \<leftarrow> (if empty then upd_base i grid_pipebase_received w1 else Some w1);
                   raise_event j OReceived (ToSession j) EV_RECEIVED i w2 } }
           | EV_RECEIVED \<Rightarrow> do {
               guard (sp_sending (sess w i));
               w1 \<leftarrow> upd_base i grid_pipebase_sent w;
               Some (upd_sess i (\<lambda>s. s\<lparr>sp_sending := False\<rparr>) w1) }
           | EV_DISCONNECT \<Rightarrow> do {
               let w1 = stop_pipe i w;
               j \<leftarrow> sp_peer (sess w1 i);
               w2 \<leftarrow> raise_event j ODisconnect (ToSession j) EV_DISCONNECT i w1;
               let w3 = upd_sess i (\<lambda>s. s\<lparr>sp_state := SP_DISCONNECTED, sp_peer := None\<rparr>) w2;
               raise_event i ODisconnect (ToOwner i) EV_DISCONNECT i w3 }
           | _ \<Rightarrow> None)
      | SP_DISCONNECTED \<Rightarrow> (if type = EV_RECEIVED then Some w else None)
      | _ \<Rightarrow> None)"

definition sinproc_action :: "nat \<Rightarrow> fsm_action \<Rightarrow> inproc \<Rightarrow> inproc option" where
  "sinproc_action i act w =
     (case (sp_state (sess w i), act) of
        (SP_IDLE, ACT_START) \<Rightarrow> Some (set_state i SP_CONNECTING w)
      | (SP_CONNECTING, ACT_READY) \<Rightarrow> Some (set_state i SP_READY w)
      | _ \<Rightarrow> None)"

text \<open>Shutting down: the STOP action, then events until both sides have disconnected.\<close>

definition shutdown_done :: "nat \<Rightarrow> inproc \<Rightarrow> inproc option" where
  "shutdown_done i w =
     (if sp_state (sess w i) \<noteq> SP_STOPPING then Some w
      else if event_at w i OReceived \<noteq> None \<or> event_at w i ODisconnect \<noteq> None then Some w
      else do {
        guard (event_at w i OConnect = None);
        guard (event_at w i OSent = None);
        w1 \<leftarrow> raise_event i OStopped (ToOwner i) EV_STOPPED i w;
        Some (upd_sess i (\<lambda>s. s\<lparr>sp_fsm := FSM_IDLE\<rparr>) w1) })"

definition sinproc_shutdown_stop :: "nat \<Rightarrow> inproc \<Rightarrow> inproc option" where
  "sinproc_shutdown_stop i w = do {
     w1 \<leftarrow> (if sp_state (sess w i) \<noteq> SP_IDLE \<and> sp_state (sess w i) \<noteq> SP_DISCONNECTED then do {
              j \<leftarrow> sp_peer (sess w i);
              w2 \<leftarrow> raise_event j ODisconnect (ToSession j) EV_DISCONNECT i (stop_pipe i w);
              Some (set_state i SP_STOPPING_PEER w2) }
            else Some (set_state i SP_STOPPING w));
     shutdown_done i w1 }"

definition sinproc_shutdown_peer :: "nat \<Rightarrow> sinproc_event \<Rightarrow> inproc \<Rightarrow> inproc option" where
  "sinproc_shutdown_peer i type w = do {
     w1 \<leftarrow> (if type = EV_RECEIVED then Some w
            else if sp_state (sess w i) = SP_STOPPING_PEER \<and> type = EV_DISCONNECT
            then Some (set_state i SP_STOPPING w) else None);
     shutdown_done i w1 }"

definition grid_sinproc_stop :: "nat \<Rightarrow> inproc \<Rightarrow> inproc option" where
  "grid_sinproc_stop i w =
     (if sp_fsm (sess w i) \<noteq> FSM_ACTIVE then Some w
      else sinproc_shutdown_stop i (upd_sess i (\<lambda>s. s\<lparr>sp_fsm := FSM_STOPPING\<rparr>) w))"

definition sinproc_fsm_start :: "nat \<Rightarrow> inproc \<Rightarrow> inproc option" where
  "sinproc_fsm_start i w = do {
     guard (sp_fsm (sess w i) = FSM_IDLE \<and> event_at w i OStopped = None);
     w1 \<leftarrow> sinproc_action i ACT_START w;
     Some (upd_sess i (\<lambda>s. s\<lparr>sp_fsm := FSM_ACTIVE\<rparr>) w1) }"

definition grid_sinproc_connect :: "nat \<Rightarrow> nat \<Rightarrow> inproc \<Rightarrow> inproc option" where
  "grid_sinproc_connect i owner w = do {
     w1 \<leftarrow> sinproc_fsm_start i w;
     raise_event i OConnect (ToOwner owner) EV_CONNECT i w1 }"

definition grid_sinproc_accept :: "nat \<Rightarrow> nat \<Rightarrow> inproc \<Rightarrow> inproc option" where
  "grid_sinproc_accept i peer w = do {
     guard (sp_peer (sess w i) = None);
     w1 \<leftarrow> raise_event i OConnect (ToSession peer) EV_READY i (upd_sess i (\<lambda>s. s\<lparr>sp_peer := Some peer\<rparr>) w);
     w2 \<leftarrow> sinproc_fsm_start i w1;
     sinproc_action i ACT_READY w2 }"

text \<open>Delivery of a queued event to the session it is addressed to.\<close>

definition deliver :: "(errno + unit) \<Rightarrow> nat \<Rightarrow> event_obj \<Rightarrow> inproc \<Rightarrow> inproc option" where
  "deliver add k obj w =
     (case event_at w k obj of
        None \<Rightarrow> Some w
      | Some (ToOwner n, type, src) \<Rightarrow> Some (put_event k obj None w)
      | Some (ToSession d, type, src) \<Rightarrow>
          let w1 = put_event k obj None w
          in if sp_fsm (sess w1 d) = FSM_STOPPING then sinproc_shutdown_peer d type w1
             else sinproc_peer_event add d type src w1)"

text \<open>The queued readable and writable events of a pipe are handed to the socket.\<close>

definition deliver_in :: "nat \<Rightarrow> inproc \<Rightarrow> inproc" where
  "deliver_in i w = set_base i ((ps_base w i)\<lparr>pb_in := False\<rparr>) w"

definition deliver_out :: "nat \<Rightarrow> inproc \<Rightarrow> inproc" where
  "deliver_out i w = set_base i ((ps_base w i)\<lparr>pb_out := False\<rparr>) w"

section \<open>Reading updated states\<close>

lemma upd_sess_simps [simp]:
  "sess (upd_sess i f w) k = (if k = i then f (sess w i) else sess w k)"
  "event_at (upd_sess i f w) k obj = event_at w k obj"
  "ps_base (upd_sess i f w) = ps_base w"
  by (simp_all add: upd_sess_def sess_def event_at_def)

lemma put_event_simps [simp]:
  "sess (put_event i obj e w) k = sess w k"
  "event_at (put_event i obj e w) k obj' = (if k = i \<and> obj' = obj then e else event_at w k obj')"
  "ps_base (put_event i obj e w) = ps_base w"
  by (simp_all add: put_event_def sess_def event_at_def)

lemma set_base_sess [simp]:
  "sess (set_base i b w) k = sess w k"
  "event_at (set_base i b w) k obj = event_at w k obj"
  by (simp_all add: sess_def event_at_def)

section \<open>A direction of a connection\<close>

text \<open>
  \<open>chan_ok w i j ms\<close>: session \<open>i\<close> has handed over to \<open>j\<close>, and \<open>j\<close> has not yet
  received, the messages \<open>ms\<close>. The turn to send is with the sender, or in a queued SENT
  event, or held by the receiver because its queue is over the limit, or in a queued RECEIVED event.
\<close>

definition chan_view :: "inproc \<Rightarrow> nat \<Rightarrow> nat \<Rightarrow>
    (bool \<times> msg \<times> msgqueue \<times> bool) \<times> (event_dst \<times> sinproc_event \<times> nat) option
    \<times> (event_dst \<times> sinproc_event \<times> nat) option
    \<times> (pipebase_outstate \<times> bool \<times> pipebase_instate \<times> bool)" where
  "chan_view w i j =
     ((sp_sending (sess w i), sp_msg (sess w i), sp_msgqueue (sess w j), sp_receiving (sess w j)),
      event_at w j OSent, event_at w i OReceived,
      (pb_outstate (ps_base w i), pb_out (ps_base w i), pb_instate (ps_base w j), pb_in (ps_base w j)))"

definition chan_turn :: "inproc \<Rightarrow> nat \<Rightarrow> nat \<Rightarrow> msg list \<Rightarrow> msg list \<Rightarrow> bool" where
  "chan_turn w i j qs ms \<longleftrightarrow>
     (if \<not> sp_sending (sess w i)
      then event_at w j OSent = None \<and> \<not> sp_receiving (sess w j) \<and> event_at w i OReceived = None \<and> ms = qs
      else if event_at w j OSent \<noteq> None
      then event_at w j OSent = Some (ToSession j, EV_SENT, i) \<and> \<not> sp_receiving (sess w j)
        \<and> event_at w i OReceived = None \<and> ms = qs @ [sp_msg (sess w i)]
      else if sp_receiving (sess w j)
      then event_at w i OReceived = None \<and> qs \<noteq> [] \<and> ms = qs @ [sp_msg (sess w i)]
      else event_at w i OReceived = Some (ToSession i, EV_RECEIVED, j) \<and> ms = qs)"

definition chan_ok :: "inproc \<Rightarrow> nat \<Rightarrow> nat \<Rightarrow> msg list \<Rightarrow> bool" where
  "chan_ok w i j ms \<longleftrightarrow> (\<exists>qs. mq_rep (sp_msgqueue (sess w j)) qs \<and> chan_turn w i j qs ms
     \<and> (\<forall>m \<in> set ms. sphdr m = [])
     \<and> pb_outstate (ps_base w i) = (if sp_sending (sess w i) then OUT_ASYNC else OUT_IDLE)
     \<and> (pb_out (ps_base w i) \<longrightarrow> \<not> sp_sending (sess w i))
     \<and> pb_instate (ps_base w j) = (if qs = [] then IN_ASYNC else IN_IDLE)
     \<and> (pb_in (ps_base w j) \<longrightarrow> qs \<noteq> []))"

lemma chan_cong: "chan_view w' i j = chan_view w i j \<Longrightarrow> chan_ok w' i j ms = chan_ok w i j ms"
  by (simp add: chan_ok_def chan_turn_def chan_view_def)

text \<open>Every active session is connected to an active session, with a consistent channel each way.\<close>

definition paired :: "inproc \<Rightarrow> nat \<Rightarrow> nat \<Rightarrow> bool" where
  "paired w i j \<longleftrightarrow> i \<noteq> j \<and> sp_state (sess w i) = SP_ACTIVE \<and> sp_peer (sess w i) = Some j
     \<and> sp_state (sess w j) = SP_ACTIVE \<and> sp_peer (sess w j) = Some i"

definition inproc_inv :: "inproc \<Rightarrow> bool" where
  "inproc_inv w \<longleftrightarrow> (\<forall>i. sp_state (sess w i) = SP_ACTIVE \<longrightarrow> sp_fsm (sess w i) = FSM_ACTIVE
     \<and> (\<exists>j. paired w i j \<and> (\<exists>ms. chan_ok w i j ms)))"

definition inproc_can_out :: "nat \<Rightarrow> inproc \<Rightarrow> bool" where
  "inproc_can_out i w \<longleftrightarrow> sp_state (sess w i) = SP_ACTIVE \<and> pb_outstate (ps_base w i) = OUT_IDLE
     \<and> \<not> pb_out (ps_base w i)"

definition inproc_can_in :: "nat \<Rightarrow> inproc \<Rightarrow> bool" where
  "inproc_can_in i w \<longleftrightarrow> sp_state (sess w i) = SP_ACTIVE \<and> pb_instate (ps_base w i) = IN_IDLE
     \<and> \<not> pb_in (ps_base w i)"

lemma paired_sym: "paired w i j \<Longrightarrow> paired w j i"
  by (auto simp: paired_def)

lemma paired_unique: "paired w i j \<Longrightarrow> paired w i k \<Longrightarrow> k = j"
  by (auto simp: paired_def)

lemma inproc_invD:
  assumes "inproc_inv w" and "sp_state (sess w i) = SP_ACTIVE"
  obtains j ms ms' where "paired w i j" "chan_ok w i j ms" "chan_ok w j i ms'"
    "sp_fsm (sess w i) = FSM_ACTIVE" "sp_fsm (sess w j) = FSM_ACTIVE"
proof -
  from assms obtain j ms where j: "paired w i j" "chan_ok w i j ms" "sp_fsm (sess w i) = FSM_ACTIVE"
    by (auto simp: inproc_inv_def)
  then have "sp_state (sess w j) = SP_ACTIVE" by (simp add: paired_def)
  with assms(1) obtain k ms' where k: "paired w j k" "chan_ok w j k ms'" "sp_fsm (sess w j) = FSM_ACTIVE"
    by (auto simp: inproc_inv_def)
  from paired_unique [OF paired_sym [OF j(1)] k(1)] k j that show thesis by blast
qed

text \<open>
  A step on the channel from \<open>i\<close> to \<open>j\<close>: it leaves states and peers alone and touches no
  other channel.
\<close>

definition chan_frame :: "nat \<Rightarrow> nat \<Rightarrow> inproc \<Rightarrow> inproc \<Rightarrow> bool" where
  "chan_frame i j w w' \<longleftrightarrow>
     (\<forall>k. sp_state (sess w' k) = sp_state (sess w k) \<and> sp_peer (sess w' k) = sp_peer (sess w k)
        \<and> sp_fsm (sess w' k) = sp_fsm (sess w k))
     \<and> (\<forall>a b. a \<noteq> i \<longrightarrow> b \<noteq> j \<longrightarrow> chan_view w' a b = chan_view w a b)"

lemma paired_frame: "chan_frame i j w w' \<Longrightarrow> paired w' a b = paired w a b"
  by (simp add: chan_frame_def paired_def)

lemma inproc_frame:
  assumes inv: "inproc_inv w" and p: "paired w i j" and f: "chan_frame i j w w'" and c: "chan_ok w' i j ms"
  shows "inproc_inv w'" and "\<And>a b xs. a \<noteq> i \<Longrightarrow> paired w a b \<Longrightarrow> chan_ok w' a b xs = chan_ok w a b xs"
proof -
  have other: "chan_ok w' a b xs = chan_ok w a b xs" if "a \<noteq> i" "paired w a b" for a b xs
  proof -
    have "b \<noteq> j" using that p by (auto simp: paired_def)
    with that(1) f show ?thesis by (intro chan_cong) (simp add: chan_frame_def)
  qed
  then show "\<And>a b xs. a \<noteq> i \<Longrightarrow> paired w a b \<Longrightarrow> chan_ok w' a b xs = chan_ok w a b xs" .
  show "inproc_inv w'"
    unfolding inproc_inv_def
  proof (intro allI impI)
    fix a assume "sp_state (sess w' a) = SP_ACTIVE"
    then have st: "sp_state (sess w a) = SP_ACTIVE" using f by (simp add: chan_frame_def)
    then obtain b xs where b: "paired w a b" "chan_ok w a b xs" "sp_fsm (sess w a) = FSM_ACTIVE"
      using inv by (auto simp: inproc_inv_def)
    have fsm: "sp_fsm (sess w' a) = FSM_ACTIVE" using b(3) f by (simp add: chan_frame_def)
    show "sp_fsm (sess w' a) = FSM_ACTIVE \<and> (\<exists>b. paired w' a b \<and> (\<exists>ms. chan_ok w' a b ms))"
    proof (cases "a = i")
      case True
      with p c fsm show ?thesis by (auto simp: paired_frame [OF f])
    next
      case False
      from other [OF False b(1)] b(1,2) fsm show ?thesis by (auto simp: paired_frame [OF f])
    qed
  qed
qed

section \<open>Sending and receiving keep the channel\<close>

lemma inproc_send_step:
  assumes p: "paired w i j" and c: "chan_ok w i j ms" and o: "inproc_can_out i w"
  shows "\<exists>rc w'. grid_pipe_send grid_sinproc_send i m w = Some (rc, w') \<and> released rc
    \<and> chan_frame i j w w' \<and> chan_ok w' i j (ms @ [merge_msg m]) \<and> \<not> inproc_can_out i w'
    \<and> (\<forall>k. k \<noteq> i \<longrightarrow> inproc_can_out k w' = inproc_can_out k w) \<and> (\<forall>k. inproc_can_in k w' = inproc_can_in k w)"
proof -
  obtain qs where q: "mq_rep (sp_msgqueue (sess w j)) qs" "chan_turn w i j qs ms" "\<forall>m \<in> set ms. sphdr m = []"
    "pb_instate (ps_base w j) = (if qs = [] then IN_ASYNC else IN_IDLE)" "pb_in (ps_base w j) \<longrightarrow> qs \<noteq> []"
    and s: "\<not> sp_sending (sess w i)"
    using c o by (auto simp: chan_ok_def inproc_can_out_def split: if_splits)
  have t: "event_at w j OSent = None" "\<not> sp_receiving (sess w j)" "event_at w i OReceived = None" "ms = qs"
    using q(2) s by (simp_all add: chan_turn_def)
  have st: "i \<noteq> j" "sp_state (sess w i) = SP_ACTIVE" "sp_peer (sess w i) = Some j" using p by (simp_all add: paired_def)
  define w1 where "w1 = put_event j OSent (Some (ToSession j, EV_SENT, i))
    (upd_sess i (\<lambda>s. s\<lparr>sp_msg := merge_msg m, sp_sending := True\<rparr>)
      (set_base i ((ps_base w i)\<lparr>pb_outstate := OUT_SENDING\<rparr>) w))"
  define w' where "w' = set_base i ((ps_base w i)\<lparr>pb_outstate := OUT_ASYNC\<rparr>) w1"
  have "grid_sinproc_send i m (set_base i ((ps_base w i)\<lparr>pb_outstate := OUT_SENDING\<rparr>) w) = Some (Inr 0, w1)"
    using st s t(1) by (simp add: grid_sinproc_send_def raise_event_def w1_def)
  then have e: "grid_pipe_send grid_sinproc_send i m w = Some (0 OR GRID_PIPE_RELEASE, w')"
    using o by (simp add: grid_pipe_send_def inproc_can_out_def w'_def w1_def)
  have ob: "pb_out (ps_base w i) = False" using o by (simp add: inproc_can_out_def)
  have "chan_frame i j w w'"
    using st by (auto simp: chan_frame_def chan_view_def w'_def w1_def)
  moreover have "chan_ok w' i j (ms @ [merge_msg m])"
    unfolding chan_ok_def
    by (rule exI [of _ qs]) (use q t st ob in \<open>auto simp: chan_turn_def w'_def w1_def merge_msg_def\<close>)
  moreover have "\<not> inproc_can_out i w'" "\<forall>k. k \<noteq> i \<longrightarrow> inproc_can_out k w' = inproc_can_out k w"
    "\<forall>k. inproc_can_in k w' = inproc_can_in k w"
    by (auto simp: inproc_can_out_def inproc_can_in_def w'_def w1_def)
  moreover have "released (0 OR GRID_PIPE_RELEASE)" by (rule released_or)
  ultimately show ?thesis unfolding e by blast
qed

lemma mq_nonempty: "mq_rep q qs \<Longrightarrow> grid_msgqueue_empty q \<longleftrightarrow> qs = []"
  using mq_count_0 [of q qs] by (simp add: grid_msgqueue_empty_def)

lemma inproc_recv_step:
  assumes p: "paired w i j" and c: "chan_ok w i j ms" and o: "inproc_can_in j w"
  shows "\<exists>rc m ms' w'. grid_pipe_recv grid_sinproc_recv j w = Some (rc, m, w') \<and> ms = m # ms'
    \<and> chan_frame i j w w' \<and> chan_ok w' i j ms' \<and> inproc_can_in j w' = (\<not> released rc) \<and> sphdr m = []
    \<and> \<not> parsed rc \<and> (\<forall>k. k \<noteq> j \<longrightarrow> inproc_can_in k w' = inproc_can_in k w) \<and> (\<forall>k. inproc_can_out k w' = inproc_can_out k w)"
proof -
  obtain qs where q: "mq_rep (sp_msgqueue (sess w j)) qs" "chan_turn w i j qs ms" "\<forall>m \<in> set ms. sphdr m = []"
    "pb_outstate (ps_base w i) = (if sp_sending (sess w i) then OUT_ASYNC else OUT_IDLE)"
    "pb_out (ps_base w i) \<longrightarrow> \<not> sp_sending (sess w i)"
    "pb_instate (ps_base w j) = (if qs = [] then IN_ASYNC else IN_IDLE)" "qs \<noteq> []"
    using c o by (auto simp: chan_ok_def inproc_can_in_def split: if_splits)
  obtain m qs' where qs: "qs = m # qs'" using q(7) by (cases qs) auto
  obtain q' where q': "grid_msgqueue_recv (sp_msgqueue (sess w j)) = Some (Inr (m, q'))" "mq_rep q' qs'"
    using mq_recv_first q(1) qs by blast
  have st: "i \<noteq> j" "sp_state (sess w j) = SP_ACTIVE" "sp_peer (sess w j) = Some i" using p by (simp_all add: paired_def)
  have ib: "pb_instate (ps_base w j) = IN_IDLE" "pb_in (ps_base w j) = False" using o by (simp_all add: inproc_can_in_def)
  obtain ms' where ms: "ms = m # ms'" using q(2) qs by (auto simp: chan_turn_def split: if_splits)
  have hm: "sphdr m = []" using q(3) ms by simp
  let ?w0 = "set_base j ((ps_base w j)\<lparr>pb_instate := IN_RECEIVING\<rparr>) w"
  let ?w1 = "upd_sess j (\<lambda>s. s\<lparr>sp_msgqueue := q'\<rparr>) ?w0"
  text \<open>Taking the lingering message over, if there is one.\<close>
  have "\<exists>w2 qs2. grid_sinproc_recv j ?w0 = (if qs2 = [] then Some (Inr (0, m), w2)
        else Some (Inr (0, m), set_base j ((ps_base w j)\<lparr>pb_instate := IN_RECEIVED\<rparr>) w2))
      \<and> mq_rep (sp_msgqueue (sess w2 j)) qs2 \<and> chan_turn w2 i j qs2 ms' \<and> ps_base w2 = ps_base ?w0
      \<and> chan_frame i j w w2 \<and> sp_sending (sess w2 i) = sp_sending (sess w i)"
  proof (cases "sp_receiving (sess w j)")
    case False
    let ?f = "if qs' = [] then ?w1 else set_base j ((ps_base w j)\<lparr>pb_instate := IN_RECEIVED\<rparr>) ?w1"
    have "grid_sinproc_recv j ?w0 = Some (Inr (0, m), ?f)"
      using st q'(1) False mq_nonempty [OF q'(2)]
      by (simp add: grid_sinproc_recv_def upd_base_def grid_pipebase_received_def)
    moreover have "chan_turn ?w1 i j qs' ms'"
      using q(2) False qs ms by (auto simp: chan_turn_def split: if_splits)
    moreover have "chan_frame i j w ?w1"
      using st by (auto simp: chan_frame_def chan_view_def)
    ultimately show ?thesis using q'(2) by (intro exI [of _ ?w1] exI [of _ qs']) simp
  next
    case True
    have tr: "sp_sending (sess w i)" "event_at w j OSent = None" "event_at w i OReceived = None"
      "ms = qs @ [sp_msg (sess w i)]"
      using q(2) True by (cases "event_at w j OSent"; auto simp: chan_turn_def split: if_splits)+
    then have ms': "ms' = qs' @ [sp_msg (sess w i)]" using ms qs by simp
    have len: "Suc (length qs') < 2 ^ 64" using q(1) qs by (auto simp: mq_rep_def mq_holds_def)
    show ?thesis
    proof (cases "\<exists>q2. grid_msgqueue_send (sp_msg (sess w i)) q' = Some (Inr q2)")
      case True
      then obtain q2 where q2: "grid_msgqueue_send (sp_msg (sess w i)) q' = Some (Inr q2)"
        "mq_rep q2 (qs' @ [sp_msg (sess w i)])"
        using mq_send_ok [OF q'(2) len, of "sp_msg (sess w i)"] by auto
      define w2 where "w2 = upd_sess j (\<lambda>s. s\<lparr>sp_receiving := False\<rparr>)
        (put_event i OReceived (Some (ToSession i, EV_RECEIVED, j))
          (upd_sess i (\<lambda>s. s\<lparr>sp_msg := empty_msg\<rparr>) (upd_sess j (\<lambda>s. s\<lparr>sp_msgqueue := q2\<rparr>) ?w1)))"
      have "grid_sinproc_recv j ?w0 = Some (Inr (0, m), set_base j ((ps_base w j)\<lparr>pb_instate := IN_RECEIVED\<rparr>) w2)"
        using st q'(1) \<open>sp_receiving (sess w j)\<close> tr q2(1) mq_nonempty [OF q2(2)]
        by (simp add: grid_sinproc_recv_def upd_base_def grid_pipebase_received_def raise_event_def w2_def)
      moreover have "chan_turn w2 i j (qs' @ [sp_msg (sess w i)]) ms'"
        using st tr ms' by (simp add: chan_turn_def w2_def)
      moreover have "chan_frame i j w w2"
        using st by (auto simp: chan_frame_def chan_view_def w2_def)
      moreover have "mq_rep (sp_msgqueue (sess w2 j)) (qs' @ [sp_msg (sess w i)])" "ps_base w2 = ps_base ?w0"
        "sp_sending (sess w2 i) = sp_sending (sess w i)"
        using q2(2) st by (simp_all add: w2_def)
      ultimately show ?thesis by (intro exI [of _ w2] exI [of _ "qs' @ [sp_msg (sess w i)]"]) simp
    next
      case False
      with mq_send_ok [OF q'(2) len, of "sp_msg (sess w i)"] have
        e: "qs' \<noteq> []" "grid_msgqueue_send (sp_msg (sess w i)) q' = Some (Inl EAGAIN)" by auto
      have "grid_sinproc_recv j ?w0 = Some (Inr (0, m), set_base j ((ps_base w j)\<lparr>pb_instate := IN_RECEIVED\<rparr>) ?w1)"
        using st q'(1) True e mq_nonempty [OF q'(2)]
        by (simp add: grid_sinproc_recv_def upd_base_def grid_pipebase_received_def)
      moreover have "chan_turn ?w1 i j qs' ms'"
        using st tr ms' e True by (simp add: chan_turn_def)
      moreover have "chan_frame i j w ?w1"
        using st by (auto simp: chan_frame_def chan_view_def)
      ultimately show ?thesis using q'(2) e by (intro exI [of _ ?w1] exI [of _ qs']) simp
    qed
  qed
  then obtain w2 qs2 where r: "grid_sinproc_recv j ?w0 = (if qs2 = [] then Some (Inr (0, m), w2)
        else Some (Inr (0, m), set_base j ((ps_base w j)\<lparr>pb_instate := IN_RECEIVED\<rparr>) w2))"
    "mq_rep (sp_msgqueue (sess w2 j)) qs2" "chan_turn w2 i j qs2 ms'" "ps_base w2 = ps_base ?w0"
    "chan_frame i j w w2" "sp_sending (sess w2 i) = sp_sending (sess w i)" by blast
  define b where "b = (ps_base w j)\<lparr>pb_instate := if qs2 = [] then IN_ASYNC else IN_IDLE\<rparr>"
  define w' where "w' = set_base j b w2"
  define rc :: u32 where "rc = (if qs2 = [] then 0 OR GRID_PIPE_RELEASE else 0)"
  have e: "grid_pipe_recv grid_sinproc_recv j w = Some (rc, m, w')"
    using ib r(1,4) by (cases "qs2 = []") (simp_all add: grid_pipe_recv_def rc_def w'_def b_def set_base_def)
  have turn: "chan_turn w' i j qs2 ms'" using r(3) by (simp add: chan_turn_def w'_def)
  have fr: "chan_frame i j w w'"
    using r(4,5) st by (auto simp: chan_frame_def chan_view_def w'_def b_def)
  have ok: "chan_ok w' i j ms'"
    unfolding chan_ok_def
    by (rule exI [of _ qs2]) (use turn r(2,4,6) q(3-5) ms st ib in \<open>auto simp: w'_def b_def\<close>)
  have rel: "released rc = (qs2 = [])"
    using released_or [of 0] by (simp add: rc_def) (simp add: released_def)
  have np: "\<not> parsed rc" by (simp add: rc_def parsed_def GRID_PIPE_RELEASE_def GRID_PIPE_PARSED_def)
  have stt: "sp_state (sess w' k) = sp_state (sess w k)" for k using fr by (simp add: chan_frame_def)
  have "inproc_can_in j w' = (\<not> released rc)"
    using ib st(2) stt by (simp add: inproc_can_in_def rel w'_def b_def)
  moreover have "\<forall>k. k \<noteq> j \<longrightarrow> inproc_can_in k w' = inproc_can_in k w" "\<forall>k. inproc_can_out k w' = inproc_can_out k w"
    using r(4) stt by (auto simp: inproc_can_in_def inproc_can_out_def w'_def b_def)
  ultimately show ?thesis using e ms fr ok hm np by blast
qed

section \<open>Delivery of the data events\<close>

lemma chan_view_base: "ps_base w' = ps_base w \<Longrightarrow> chan_view w' a b = chan_view w a b \<longleftrightarrow>
    ((sp_sending (sess w' a), sp_msg (sess w' a), sp_msgqueue (sess w' b), sp_receiving (sess w' b)),
      event_at w' b OSent, event_at w' a OReceived)
    = ((sp_sending (sess w a), sp_msg (sess w a), sp_msgqueue (sess w b), sp_receiving (sess w b)),
      event_at w b OSent, event_at w a OReceived)"
  by (auto simp: chan_view_def)

text \<open>No queue ever holds \<open>2 ^ 64\<close> messages: its counter would wrap.\<close>

lemma mq_count_suc:
  assumes "mq_rep q qs" and "mq_count q + 1 \<noteq> 0"
  shows "Suc (length qs) < 2 ^ 64"
proof -
  have c: "mq_count q = of_nat (length qs)" and l: "length qs < 2 ^ 64"
    using assms(1) by (auto simp: mq_rep_def mq_holds_def)
  have "(of_nat (Suc (length qs)) :: u64) \<noteq> 0" using assms(2) c by (simp add: add.commute)
  then have "Suc (length qs) \<noteq> 2 ^ 64" by (auto simp: word_of_nat_eq_0_iff)
  with l show ?thesis by simp
qed

text \<open>A SENT event: the message moves into the queue, or the receiver keeps the turn.\<close>

lemma deliver_sent_step:
  assumes p: "paired w i j" and c: "chan_ok w i j ms" and ev: "event_at w j OSent \<noteq> None"
    and fsm: "sp_fsm (sess w j) = FSM_ACTIVE" and len: "mq_count (sp_msgqueue (sess w j)) + 1 \<noteq> 0"
  shows "\<exists>w'. deliver add j OSent w = Some w' \<and> chan_frame i j w w' \<and> chan_ok w' i j ms \<and> event_at w' j OSent = None"
proof -
  obtain qs where q: "mq_rep (sp_msgqueue (sess w j)) qs" "chan_turn w i j qs ms" "\<forall>m \<in> set ms. sphdr m = []"
    "pb_outstate (ps_base w i) = (if sp_sending (sess w i) then OUT_ASYNC else OUT_IDLE)"
    "pb_out (ps_base w i) \<longrightarrow> \<not> sp_sending (sess w i)"
    "pb_instate (ps_base w j) = (if qs = [] then IN_ASYNC else IN_IDLE)" "pb_in (ps_base w j) \<longrightarrow> qs \<noteq> []"
    using c by (auto simp: chan_ok_def)
  have t: "sp_sending (sess w i)" "event_at w j OSent = Some (ToSession j, EV_SENT, i)"
    "\<not> sp_receiving (sess w j)" "event_at w i OReceived = None" "ms = qs @ [sp_msg (sess w i)]"
    using q(2) ev by (auto simp: chan_turn_def split: if_splits)
  have st: "i \<noteq> j" "sp_state (sess w j) = SP_ACTIVE" "sp_peer (sess w j) = Some i" using p by (simp_all add: paired_def)
  have ln: "Suc (length qs) < 2 ^ 64" by (rule mq_count_suc [OF q(1) len])
  let ?w0 = "put_event j OSent None w"
  have d: "deliver add j OSent w = sinproc_peer_event add j EV_SENT i ?w0"
    using t(2) fsm by (simp add: deliver_def)
  from mq_send_ok [OF q(1) ln, of "sp_msg (sess w i)"] show ?thesis
  proof
    assume "\<exists>q'. grid_msgqueue_send (sp_msg (sess w i)) (sp_msgqueue (sess w j)) = Some (Inr q')
        \<and> mq_rep q' (qs @ [sp_msg (sess w i)])"
    then obtain q' where q': "grid_msgqueue_send (sp_msg (sess w i)) (sp_msgqueue (sess w j)) = Some (Inr q')"
      "mq_rep q' (qs @ [sp_msg (sess w i)])" by blast
    define w1 where "w1 = upd_sess i (\<lambda>s. s\<lparr>sp_msg := empty_msg\<rparr>) (upd_sess j (\<lambda>s. s\<lparr>sp_msgqueue := q'\<rparr>) ?w0)"
    define w2 where "w2 = (if qs = [] then set_base j ((ps_base w j)\<lparr>pb_instate := IN_IDLE, pb_in := True\<rparr>) w1 else w1)"
    define w' where "w' = put_event i OReceived (Some (ToSession i, EV_RECEIVED, j)) w2"
    have ub: "(if qs = [] then upd_base j grid_pipebase_received w1 else Some w1) = Some w2"
      using q(6,7) by (auto simp: upd_base_def grid_pipebase_received_def raise_in_def w2_def w1_def)
    have em: "grid_msgqueue_empty (sp_msgqueue (sess w j)) \<longleftrightarrow> qs = []" by (rule mq_nonempty [OF q(1)])
    have "event_at w2 i OReceived = None" using t(4) st by (simp add: w2_def w1_def)
    with ub have e: "deliver add j OSent w = Some w'"
      unfolding d using st q'(1) em
      by (simp add: sinproc_peer_event_def raise_event_def w'_def w1_def [symmetric])
    have b2: "ps_base w2 = (if qs = [] then (ps_base w)(j := (ps_base w j)\<lparr>pb_instate := IN_IDLE, pb_in := True\<rparr>) else ps_base w)"
      by (simp add: w2_def w1_def)
    have fr: "chan_frame i j w w'"
      using st b2 by (auto simp: chan_frame_def chan_view_def w'_def w2_def w1_def)
    have "chan_turn w' i j ms ms"
      using st t by (auto simp: chan_turn_def w'_def w2_def w1_def)
    moreover have "mq_rep (sp_msgqueue (sess w' j)) ms" using q'(2) t(5) st by (cases "qs = []") (simp_all add: w'_def w2_def w1_def)
    moreover have "sp_sending (sess w' i)" using t(1) st by (simp add: w'_def w2_def w1_def)
    ultimately have "chan_ok w' i j ms"
      unfolding chan_ok_def using q(3-7) t(1,5) st b2
      by (intro exI [of _ ms]) (simp add: w'_def w2_def w1_def)
    moreover have "event_at w' j OSent = None" using st by (simp add: w'_def w2_def w1_def)
    ultimately show ?thesis using e fr by blast
  next
    assume "qs \<noteq> [] \<and> mq_maxmem (sp_msgqueue (sess w j)) \<le> mq_mem (sp_msgqueue (sess w j)) + msg_size (sp_msg (sess w i))
      \<and> grid_msgqueue_send (sp_msg (sess w i)) (sp_msgqueue (sess w j)) = Some (Inl EAGAIN)"
    then have a: "qs \<noteq> []" "grid_msgqueue_send (sp_msg (sess w i)) (sp_msgqueue (sess w j)) = Some (Inl EAGAIN)"
      by simp_all
    define w' where "w' = upd_sess j (\<lambda>s. s\<lparr>sp_receiving := True\<rparr>) ?w0"
    have e: "deliver add j OSent w = Some w'"
      unfolding d using st a(2) by (simp add: sinproc_peer_event_def w'_def)
    have fr: "chan_frame i j w w'"
      using st by (auto simp: chan_frame_def chan_view_def w'_def)
    have "chan_turn w' i j qs ms"
      using st t a(1) by (simp add: chan_turn_def w'_def)
    then have "chan_ok w' i j ms"
      unfolding chan_ok_def using q st
      by (intro exI [of _ qs]) (simp add: w'_def)
    moreover have "event_at w' j OSent = None" by (simp add: w'_def)
    ultimately show ?thesis using e fr by blast
  qed
qed

text \<open>A RECEIVED event: the sender gets the turn back.\<close>

lemma deliver_received_step:
  assumes p: "paired w i j" and c: "chan_ok w i j ms" and ev: "event_at w i OReceived \<noteq> None"
    and fsm: "sp_fsm (sess w i) = FSM_ACTIVE"
  shows "\<exists>w'. deliver add i OReceived w = Some w' \<and> chan_frame i j w w' \<and> chan_ok w' i j ms"
proof -
  obtain qs where q: "mq_rep (sp_msgqueue (sess w j)) qs" "chan_turn w i j qs ms" "\<forall>m \<in> set ms. sphdr m = []"
    "pb_outstate (ps_base w i) = (if sp_sending (sess w i) then OUT_ASYNC else OUT_IDLE)"
    "pb_out (ps_base w i) \<longrightarrow> \<not> sp_sending (sess w i)"
    "pb_instate (ps_base w j) = (if qs = [] then IN_ASYNC else IN_IDLE)" "pb_in (ps_base w j) \<longrightarrow> qs \<noteq> []"
    using c by (auto simp: chan_ok_def)
  have t: "sp_sending (sess w i)" "event_at w i OReceived = Some (ToSession i, EV_RECEIVED, j)"
    "\<not> sp_receiving (sess w j)" "event_at w j OSent = None" "ms = qs"
    using q(2) ev by (cases "event_at w j OSent"; auto simp: chan_turn_def split: if_splits)+
  have st: "i \<noteq> j" "sp_state (sess w i) = SP_ACTIVE" using p by (simp_all add: paired_def)
  define w' where "w' = upd_sess i (\<lambda>s. s\<lparr>sp_sending := False\<rparr>)
    (set_base i ((ps_base w i)\<lparr>pb_outstate := OUT_IDLE, pb_out := True\<rparr>) (put_event i OReceived None w))"
  have e: "deliver add i OReceived w = Some w'"
    using t fsm st q(4,5)
    by (simp add: deliver_def sinproc_peer_event_def upd_base_def grid_pipebase_sent_def raise_out_def w'_def)
  have fr: "chan_frame i j w w'"
    using st by (auto simp: chan_frame_def chan_view_def w'_def)
  have "chan_turn w' i j qs ms" using st t by (simp add: chan_turn_def w'_def)
  then have "chan_ok w' i j ms"
    unfolding chan_ok_def using q st by (intro exI [of _ qs]) (simp add: w'_def)
  with e fr show ?thesis by blast
qed

section \<open>The pipes of inproc sessions\<close>

lemma inproc_send_ok:
  assumes inv: "inproc_inv w" and o: "inproc_can_out i w"
  shows "\<exists>rc w'. grid_pipe_send grid_sinproc_send i m w = Some (rc, w') \<and> inproc_inv w'
    \<and> inproc_can_out i w' = (\<not> released rc) \<and> (\<forall>k. k \<noteq> i \<longrightarrow> inproc_can_out k w' = inproc_can_out k w)
    \<and> (\<forall>k. inproc_can_in k w' = inproc_can_in k w)"
proof -
  have "sp_state (sess w i) = SP_ACTIVE" using o by (simp add: inproc_can_out_def)
  then obtain j ms where j: "paired w i j" "chan_ok w i j ms" by (rule inproc_invD [OF inv])
  from inproc_send_step [OF j o] obtain rc w' where
    "grid_pipe_send grid_sinproc_send i m w = Some (rc, w')" "released rc"
    "chan_frame i j w w'" "chan_ok w' i j (ms @ [merge_msg m])" "\<not> inproc_can_out i w'"
    "\<forall>k. k \<noteq> i \<longrightarrow> inproc_can_out k w' = inproc_can_out k w" "\<forall>k. inproc_can_in k w' = inproc_can_in k w"
    by blast
  with inproc_frame(1) [OF inv j(1)] show ?thesis by blast
qed

lemma inproc_recv_ok:
  assumes inv: "inproc_inv w" and o: "inproc_can_in j w"
  shows "\<exists>rc m w'. grid_pipe_recv grid_sinproc_recv j w = Some (rc, m, w') \<and> inproc_inv w'
    \<and> inproc_can_in j w' = (\<not> released rc) \<and> (\<forall>k. k \<noteq> j \<longrightarrow> inproc_can_in k w' = inproc_can_in k w)
    \<and> (\<forall>k. inproc_can_out k w' = inproc_can_out k w) \<and> (parsed rc \<or> sphdr m = [])"
proof -
  have "sp_state (sess w j) = SP_ACTIVE" using o by (simp add: inproc_can_in_def)
  then obtain i ms where i: "paired w j i" "chan_ok w i j ms" by (rule inproc_invD [OF inv])
  from inproc_recv_step [OF paired_sym [OF i(1)] i(2) o] obtain rc m ms' w' where
    "grid_pipe_recv grid_sinproc_recv j w = Some (rc, m, w')" "ms = m # ms'"
    "chan_frame i j w w'" "chan_ok w' i j ms'" "inproc_can_in j w' = (\<not> released rc)" "sphdr m = []"
    "\<forall>k. k \<noteq> j \<longrightarrow> inproc_can_in k w' = inproc_can_in k w" "\<forall>k. inproc_can_out k w' = inproc_can_out k w"
    by blast
  with inproc_frame(1) [OF inv paired_sym [OF i(1)]] show ?thesis by blast
qed

interpretation inproc: pipe_world "grid_pipe_send grid_sinproc_send" "grid_pipe_recv grid_sinproc_recv"
    inproc_inv inproc_can_out inproc_can_in
  by unfold_locales (use inproc_send_ok inproc_recv_ok in blast)+

text \<open>The backlog of a pipe: what is queued, and the message its peer is waiting to hand over.\<close>

definition inproc_backlog :: "nat \<Rightarrow> inproc \<Rightarrow> nat" where
  "inproc_backlog j w =
     (if sp_state (sess w j) \<noteq> SP_ACTIVE then 0
      else case sp_peer (sess w j) of
        None \<Rightarrow> 0
      | Some i \<Rightarrow> unat (mq_count (sp_msgqueue (sess w j)))
          + (if sp_sending (sess w i) \<and> (event_at w j OSent \<noteq> None \<or> sp_receiving (sess w j)) then 1 else 0))"

lemma backlog_chan:
  assumes "paired w i j" and "chan_ok w i j ms"
  shows "inproc_backlog j w = length ms"
proof -
  obtain qs where q: "mq_rep (sp_msgqueue (sess w j)) qs" "chan_turn w i j qs ms"
    using assms(2) by (auto simp: chan_ok_def)
  have "unat (mq_count (sp_msgqueue (sess w j))) = length qs"
    using q(1) by (auto simp: mq_rep_def mq_holds_def unat_of_nat)
  with q(2) assms(1) show ?thesis
    by (auto simp: inproc_backlog_def paired_def chan_turn_def split: if_splits)
qed

lemma inproc_recv_backlog:
  assumes inv: "inproc_inv w" and o: "inproc_can_in j w"
    and r: "grid_pipe_recv grid_sinproc_recv j w = Some (rc, m, w')"
  shows "inproc_backlog j w' < inproc_backlog j w \<and> (\<forall>q. q \<noteq> j \<longrightarrow> inproc_backlog q w' = inproc_backlog q w)"
proof -
  have "sp_state (sess w j) = SP_ACTIVE" using o by (simp add: inproc_can_in_def)
  then obtain i ms where i: "paired w j i" "chan_ok w i j ms" by (rule inproc_invD [OF inv])
  note p = paired_sym [OF i(1)]
  from inproc_recv_step [OF p i(2) o] r obtain ms' where
    f: "ms = m # ms'" "chan_frame i j w w'" "chan_ok w' i j ms'" by auto
  have "inproc_backlog q w' = inproc_backlog q w" if "q \<noteq> j" for q
  proof (cases "sp_state (sess w q) = SP_ACTIVE")
    case True
    then obtain a xs where a: "paired w q a" "chan_ok w a q xs" by (rule inproc_invD [OF inv])
    note aq = paired_sym [OF a(1)]
    have "a \<noteq> i" using aq p that by (auto simp: paired_def)
    then have "chan_ok w' a q xs" using inproc_frame(2) [OF inv p f(2,3)] aq a(2) by simp
    with backlog_chan [OF aq a(2)] backlog_chan [of w' a q xs] paired_frame [OF f(2)] aq show ?thesis by simp
  next
    case False
    then show ?thesis using f(2) by (simp add: inproc_backlog_def chan_frame_def)
  qed
  moreover have "inproc_backlog j w' < inproc_backlog j w"
    using backlog_chan [OF p i(2)] backlog_chan [of w' i j ms'] paired_frame [OF f(2)] p f(1,3) by simp
  ultimately show ?thesis by blast
qed

interpretation inproc_finite: finite_pipes "grid_pipe_send grid_sinproc_send" "grid_pipe_recv grid_sinproc_recv"
    inproc_inv inproc_can_out inproc_can_in inproc_backlog
  by unfold_locales (rule inproc_recv_backlog)

section \<open>Runs of connected sessions\<close>

text \<open>
  What can happen while connections stay up: a socket uses a pipe that it was told is ready, a
  queued event is delivered to a session, or the readiness of a pipe is reported to its socket.
\<close>

datatype inproc_label = LSend nat msg | LRecv nat msg | LTau

inductive inproc_step :: "inproc \<Rightarrow> inproc_label \<Rightarrow> inproc \<Rightarrow> bool" where
  step_send: "inproc_can_out i w \<Longrightarrow> grid_pipe_send grid_sinproc_send i m w = Some (rc, w') \<Longrightarrow>
    inproc_step w (LSend i m) w'"
| step_recv: "inproc_can_in j w \<Longrightarrow> grid_pipe_recv grid_sinproc_recv j w = Some (rc, m, w') \<Longrightarrow>
    inproc_step w (LRecv j m) w'"
| step_sent: "sp_state (sess w j) = SP_ACTIVE \<Longrightarrow> event_at w j OSent \<noteq> None \<Longrightarrow>
    mq_count (sp_msgqueue (sess w j)) + 1 \<noteq> 0 \<Longrightarrow>
    deliver (Inr ()) j OSent w = Some w' \<Longrightarrow> inproc_step w LTau w'"
| step_received: "sp_state (sess w i) = SP_ACTIVE \<Longrightarrow> event_at w i OReceived \<noteq> None \<Longrightarrow>
    deliver (Inr ()) i OReceived w = Some w' \<Longrightarrow> inproc_step w LTau w'"
| step_in: "inproc_step w LTau (deliver_in i w)"
| step_out: "inproc_step w LTau (deliver_out i w)"

inductive inproc_run :: "inproc \<Rightarrow> inproc_label list \<Rightarrow> inproc \<Rightarrow> bool" where
  run_nil: "inproc_run w [] w"
| run_snoc: "inproc_run w tr w1 \<Longrightarrow> inproc_step w1 l w2 \<Longrightarrow> inproc_run w (tr @ [l]) w2"

text \<open>What session \<open>i\<close> sent, as it travels, and what session \<open>j\<close> received.\<close>

fun sent_by :: "nat \<Rightarrow> inproc_label list \<Rightarrow> msg list" where
  "sent_by i [] = []"
| "sent_by i (LSend k m # tr) = (if k = i then merge_msg m # sent_by i tr else sent_by i tr)"
| "sent_by i (_ # tr) = sent_by i tr"

fun received_by :: "nat \<Rightarrow> inproc_label list \<Rightarrow> msg list" where
  "received_by j [] = []"
| "received_by j (LRecv k m # tr) = (if k = j then m # received_by j tr else received_by j tr)"
| "received_by j (_ # tr) = received_by j tr"

lemma sent_by_append [simp]: "sent_by i (xs @ ys) = sent_by i xs @ sent_by i ys"
  by (induction i xs rule: sent_by.induct) auto

lemma received_by_append [simp]: "received_by i (xs @ ys) = received_by i xs @ received_by i ys"
  by (induction i xs rule: received_by.induct) auto

lemma sent_by_length: "length (sent_by i tr) \<le> length tr"
  by (induction i tr rule: sent_by.induct) auto

text \<open>Reporting readiness changes only the queued flags.\<close>

lemma deliver_ready_view:
  assumes "w' = deliver_in k w \<or> w' = deliver_out k w" and "chan_ok w a b ms"
  shows "chan_ok w' a b ms"
proof -
  have s: "sess w' i = sess w i" "event_at w' i obj = event_at w i obj" for i obj
    using assms(1) by (auto simp: deliver_in_def deliver_out_def)
  then have t: "chan_turn w' a b qs ms = chan_turn w a b qs ms" for qs by (simp add: chan_turn_def)
  have b: "pb_outstate (ps_base w' i) = pb_outstate (ps_base w i)" "pb_instate (ps_base w' i) = pb_instate (ps_base w i)"
    "pb_in (ps_base w' i) \<longrightarrow> pb_in (ps_base w i)" "pb_out (ps_base w' i) \<longrightarrow> pb_out (ps_base w i)" for i
    using assms(1) by (auto simp: deliver_in_def deliver_out_def split: if_splits)
  from assms(2) show ?thesis unfolding chan_ok_def t s(1) b(1,2) using b(3,4) by blast
qed

lemma deliver_ready_inv:
  assumes "w' = deliver_in k w \<or> w' = deliver_out k w" and "inproc_inv w"
  shows "inproc_inv w'"
proof -
  have s: "sess w' i = sess w i" for i using assms(1) by (auto simp: deliver_in_def deliver_out_def)
  then have "paired w' i j = paired w i j" for i j by (simp add: paired_def)
  with s assms deliver_ready_view [OF assms(1)] show ?thesis unfolding inproc_inv_def by metis
qed

text \<open>A step acts on the channel of one connected pair, or only reports readiness.\<close>

definition acts_on :: "nat \<Rightarrow> nat \<Rightarrow> inproc \<Rightarrow> inproc_label \<Rightarrow> inproc \<Rightarrow> bool" where
  "acts_on a b w l w' \<longleftrightarrow> paired w a b \<and> chan_frame a b w w'
     \<and> (\<forall>xs. chan_ok w a b xs \<longrightarrow> (\<exists>ys. chan_ok w' a b ys \<and> xs @ sent_by a [l] = received_by b [l] @ ys))
     \<and> (\<forall>k. k \<noteq> a \<longrightarrow> sent_by k [l] = []) \<and> (\<forall>k. k \<noteq> b \<longrightarrow> received_by k [l] = [])"

lemma inproc_step_acts:
  assumes inv: "inproc_inv w" and s: "inproc_step w l w'"
  shows "(\<exists>a b. acts_on a b w l w') \<or> l = LTau \<and> (\<exists>k. w' = deliver_in k w \<or> w' = deliver_out k w)"
  using s
proof cases
  case (step_send a m rc)
  then have "sp_state (sess w a) = SP_ACTIVE" by (simp add: inproc_can_out_def)
  then obtain b ms where ab: "paired w a b" "chan_ok w a b ms" by (rule inproc_invD [OF inv])
  have "chan_frame a b w w' \<and> chan_ok w' a b (xs @ [merge_msg m])" if "chan_ok w a b xs" for xs
    using inproc_send_step [OF ab(1) that step_send(2), of m] step_send(3) by auto
  with ab have "acts_on a b w l w'" unfolding acts_on_def step_send(1) by auto
  then show ?thesis by blast
next
  case (step_recv b rc m)
  then have "sp_state (sess w b) = SP_ACTIVE" by (simp add: inproc_can_in_def)
  then obtain a ms where ab: "paired w b a" "chan_ok w a b ms" by (rule inproc_invD [OF inv])
  have "chan_frame a b w w' \<and> (\<exists>ys. chan_ok w' a b ys \<and> xs = m # ys)" if "chan_ok w a b xs" for xs
    using inproc_recv_step [OF paired_sym [OF ab(1)] that step_recv(2)] step_recv(3) by auto
  with ab paired_sym [OF ab(1)] have "acts_on a b w l w'" unfolding acts_on_def step_recv(1) by auto
  then show ?thesis by blast
next
  case (step_sent b)
  then obtain a ms where ab: "paired w b a" "chan_ok w a b ms" "sp_fsm (sess w b) = FSM_ACTIVE"
    by (rule_tac inproc_invD [OF inv])
  have "chan_frame a b w w' \<and> chan_ok w' a b xs" if "chan_ok w a b xs" for xs
    using deliver_sent_step [OF paired_sym [OF ab(1)] that step_sent(3) ab(3) step_sent(4), of "Inr ()"] step_sent(5)
    by auto
  with ab paired_sym [OF ab(1)] have "acts_on a b w l w'" unfolding acts_on_def step_sent(1) by auto
  then show ?thesis by blast
next
  case (step_received a)
  then obtain b ms where ab: "paired w a b" "chan_ok w a b ms" "sp_fsm (sess w a) = FSM_ACTIVE"
    by (rule_tac inproc_invD [OF inv])
  have "chan_frame a b w w' \<and> chan_ok w' a b xs" if "chan_ok w a b xs" for xs
    using deliver_received_step [OF ab(1) that step_received(3) ab(3), of "Inr ()"] step_received(4) by auto
  with ab have "acts_on a b w l w'" unfolding acts_on_def step_received(1) by auto
  then show ?thesis by blast
qed auto

text \<open>Seen from the channel from \<open>i\<close> to \<open>j\<close>.\<close>

lemma inproc_step_chan:
  assumes inv: "inproc_inv w" and p: "paired w i j" and c: "chan_ok w i j ms" and s: "inproc_step w l w'"
  shows "inproc_inv w' \<and> paired w' i j
    \<and> (\<exists>ms'. chan_ok w' i j ms' \<and> ms @ sent_by i [l] = received_by j [l] @ ms')"
  using inproc_step_acts [OF inv s]
proof
  assume "\<exists>a b. acts_on a b w l w'"
  then obtain a b where ab: "acts_on a b w l w'" by blast
  have pa: "paired w a b" and fr: "chan_frame a b w w'" using ab by (simp_all add: acts_on_def)
  then have "sp_state (sess w a) = SP_ACTIVE" by (simp add: paired_def)
  then obtain b' xs where "paired w a b'" "chan_ok w a b' xs" by (rule inproc_invD [OF inv])
  with paired_unique [OF pa] have xs: "chan_ok w a b xs" by blast
  with ab obtain ys where ys: "chan_ok w' a b ys" by (auto simp: acts_on_def)
  note f = inproc_frame [OF inv pa fr ys]
  show ?thesis
  proof (cases "a = i")
    case True
    then have "b = j" using pa p by (auto simp: paired_def)
    with True ab c f(1) p paired_frame [OF fr] show ?thesis by (auto simp: acts_on_def)
  next
    case False
    then have "b \<noteq> j" using pa p by (auto simp: paired_def)
    with False ab f(1) f(2) [of i j ms] p c paired_frame [OF fr] show ?thesis by (auto simp: acts_on_def)
  qed
next
  assume "l = LTau \<and> (\<exists>k. w' = deliver_in k w \<or> w' = deliver_out k w)"
  then obtain k where k: "l = LTau" "w' = deliver_in k w \<or> w' = deliver_out k w" by blast
  then have "sess w' a = sess w a" for a by (auto simp: deliver_in_def deliver_out_def)
  with k p deliver_ready_view [OF k(2) c] deliver_ready_inv [OF k(2) inv] show ?thesis
    by (auto simp: paired_def)
qed

text \<open>Over a whole run, what was sent is what was received followed by what is on its way.\<close>

lemma inproc_run_chan:
  "inproc_run w tr w' \<Longrightarrow> inproc_inv w \<Longrightarrow> paired w i j \<Longrightarrow> chan_ok w i j ms \<Longrightarrow>
     inproc_inv w' \<and> paired w' i j
     \<and> (\<exists>ms'. chan_ok w' i j ms' \<and> ms @ sent_by i tr = received_by j tr @ ms')"
proof (induction rule: inproc_run.induct)
  case (run_nil w)
  then show ?case by auto
next
  case (run_snoc w tr w1 l w2)
  then obtain ms1 where h: "inproc_inv w1" "paired w1 i j" "chan_ok w1 i j ms1"
    "ms @ sent_by i tr = received_by j tr @ ms1" by blast
  from inproc_step_chan [OF h(1,2,3) run_snoc(2)] obtain ms2 where
    r: "inproc_inv w2" "paired w2 i j" "chan_ok w2 i j ms2" "ms1 @ sent_by i [l] = received_by j [l] @ ms2"
    by blast
  have "ms @ sent_by i (tr @ [l]) = received_by j tr @ (ms1 @ sent_by i [l])"
    using h(4) by simp
  also have "\<dots> = received_by j (tr @ [l]) @ ms2" using r(4) by simp
  finally show ?case using r by blast
qed

text \<open>No message gets stuck: some step towards the receiver is possible.\<close>

lemma inproc_progress:
  assumes "paired w i j" and "chan_ok w i j ms" and "ms \<noteq> []"
  shows "inproc_can_in j w \<or> pb_in (ps_base w j) \<or> event_at w j OSent \<noteq> None"
  using assms
  by (auto simp: chan_ok_def chan_turn_def inproc_can_in_def paired_def split: if_splits)

section \<open>Establishing a connection\<close>

text \<open>
  The connecting session \<open>i\<close> announces itself to \<open>owner\<close>, the other side's endpoint,
  which creates the session \<open>j\<close> and accepts; the READY and ACCEPTED events complete it.
\<close>

definition inproc_handshake :: "nat \<Rightarrow> nat \<Rightarrow> nat \<Rightarrow> inproc \<Rightarrow> inproc option" where
  "inproc_handshake owner i j w = do {
     w1 \<leftarrow> grid_sinproc_connect i owner w;
     w2 \<leftarrow> deliver (Inr ()) i OConnect w1;
     w3 \<leftarrow> grid_sinproc_accept j i w2;
     w4 \<leftarrow> deliver (Inr ()) j OConnect w3;
     deliver (Inr ()) i OConnect w4 }"

definition fresh_session :: "inproc \<Rightarrow> nat \<Rightarrow> bool" where
  "fresh_session w i \<longleftrightarrow> (\<exists>rcvbuf. sess w i = grid_sinproc_init rcvbuf) \<and> ps_base w i = grid_pipebase_init
     \<and> (\<forall>obj. event_at w i obj = None)"

definition inproc_init :: "u64 \<Rightarrow> inproc" where
  "inproc_init rcvbuf = \<lparr>ps_base = \<lambda>_. grid_pipebase_init,
     ps_tr = \<lparr>ss_sess = \<lambda>_. grid_sinproc_init rcvbuf, ss_events = \<lambda>_. None, ss_removed = []\<rparr>\<rparr>"

lemma fresh_init: "fresh_session (inproc_init rcvbuf) i" "inproc_inv (inproc_init rcvbuf)"
  by (auto simp: fresh_session_def inproc_init_def sess_def event_at_def inproc_inv_def grid_sinproc_init_def)

lemma handshake_ok:
  assumes ij: "i \<noteq> j" and fi: "fresh_session w i" and fj: "fresh_session w j"
  shows "\<exists>w'. inproc_handshake owner i j w = Some w' \<and> paired w' i j \<and> chan_ok w' i j [] \<and> chan_ok w' j i []
    \<and> sp_fsm (sess w' i) = FSM_ACTIVE \<and> sp_fsm (sess w' j) = FSM_ACTIVE
    \<and> inproc_can_out i (deliver_out i w') \<and> inproc_can_out j (deliver_out j w') \<and> event_at w' i ODisconnect = None
    \<and> (\<forall>k. k \<noteq> i \<longrightarrow> k \<noteq> j \<longrightarrow> sess w' k = sess w k \<and> ps_base w' k = ps_base w k
         \<and> (\<forall>obj. event_at w' k obj = event_at w k obj))"
proof -
  from fi fj obtain ri rj where s: "sess w i = grid_sinproc_init ri" "sess w j = grid_sinproc_init rj"
    "ps_base w i = grid_pipebase_init" "ps_base w j = grid_pipebase_init"
    "\<And>obj. event_at w i obj = None" "\<And>obj. event_at w j obj = None"
    by (auto simp: fresh_session_def)
  let ?ui = "\<lambda>f. upd_sess i f"
  define w1 where "w1 = put_event i OConnect (Some (ToOwner owner, EV_CONNECT, i))
    (upd_sess i (\<lambda>s. s\<lparr>sp_fsm := FSM_ACTIVE\<rparr>) (set_state i SP_CONNECTING w))"
  have e1: "grid_sinproc_connect i owner w = Some w1"
    using s by (simp add: grid_sinproc_connect_def sinproc_fsm_start_def sinproc_action_def raise_event_def
        grid_sinproc_init_def w1_def set_state_def)
  define w2 where "w2 = put_event i OConnect None w1"
  have e2: "deliver (Inr ()) i OConnect w1 = Some w2" by (simp add: deliver_def w1_def w2_def)
  define w3 where "w3 = set_state j SP_READY (upd_sess j (\<lambda>s. s\<lparr>sp_fsm := FSM_ACTIVE\<rparr>)
    (set_state j SP_CONNECTING (put_event j OConnect (Some (ToSession i, EV_READY, j))
      (upd_sess j (\<lambda>s. s\<lparr>sp_peer := Some i\<rparr>) w2))))"
  have e3: "grid_sinproc_accept j i w2 = Some w3"
    using s ij by (simp add: grid_sinproc_accept_def sinproc_fsm_start_def sinproc_action_def raise_event_def
        grid_sinproc_init_def w1_def w2_def w3_def set_state_def)
  define b where "b = \<lparr>pb_state = PB_ACTIVE, pb_instate = IN_ASYNC, pb_outstate = OUT_IDLE, pb_in = False, pb_out = True\<rparr>"
  define w4 where "w4 = put_event i OConnect (Some (ToSession j, EV_ACCEPTED, i)) (set_state i SP_ACTIVE
    (set_base i b (upd_sess i (\<lambda>s. s\<lparr>sp_peer := Some j\<rparr>) (put_event j OConnect None w3))))"
  have e4: "deliver (Inr ()) j OConnect w3 = Some w4"
    using s ij by (simp add: deliver_def sinproc_peer_event_def start_pipe_def grid_pipebase_start_def
        grid_pipebase_init_def grid_sinproc_init_def raise_out_def raise_event_def w1_def w2_def w3_def w4_def b_def set_state_def)
  define w5 where "w5 = set_state j SP_ACTIVE (set_base j b (put_event i OConnect None w4))"
  have e5: "deliver (Inr ()) i OConnect w4 = Some w5"
    using s ij by (simp add: deliver_def sinproc_peer_event_def start_pipe_def grid_pipebase_start_def
        grid_pipebase_init_def grid_sinproc_init_def raise_out_def w1_def w2_def w3_def w4_def w5_def b_def set_state_def)
  note d = w5_def w4_def w3_def w2_def w1_def set_state_def
  have "inproc_handshake owner i j w = Some w5"
    by (simp add: inproc_handshake_def e1 e2 e3 e4 e5)
  moreover have "paired w5 i j" using ij by (simp add: paired_def d)
  moreover have "chan_ok w5 i j []" "chan_ok w5 j i []"
    unfolding chan_ok_def chan_turn_def using ij s mq_init_rep
    by (auto simp: d b_def grid_sinproc_init_def intro!: exI [of _ "[]"])
  moreover have "sp_fsm (sess w5 i) = FSM_ACTIVE" "sp_fsm (sess w5 j) = FSM_ACTIVE"
    using ij by (simp_all add: d)
  moreover have "inproc_can_out i (deliver_out i w5)" "inproc_can_out j (deliver_out j w5)"
    using ij by (simp_all add: inproc_can_out_def deliver_out_def d b_def)
  moreover have "event_at w5 i ODisconnect = None" using ij s by (simp add: d)
  moreover have "\<forall>k. k \<noteq> i \<longrightarrow> k \<noteq> j \<longrightarrow> sess w5 k = sess w k \<and> ps_base w5 k = ps_base w k
      \<and> (\<forall>obj. event_at w5 k obj = event_at w k obj)"
    by (simp add: d)
  ultimately show ?thesis by blast
qed

lemma handshake_inv:
  assumes inv: "inproc_inv w" and ij: "i \<noteq> j" and fi: "fresh_session w i" and fj: "fresh_session w j"
  shows "\<exists>w'. inproc_handshake owner i j w = Some w' \<and> inproc_inv w' \<and> paired w' i j
    \<and> chan_ok w' i j [] \<and> chan_ok w' j i []
    \<and> inproc_can_out i (deliver_out i w') \<and> inproc_can_out j (deliver_out j w') \<and> event_at w' i ODisconnect = None"
proof -
  obtain w' where h: "inproc_handshake owner i j w = Some w'" "paired w' i j" "chan_ok w' i j []" "chan_ok w' j i []"
    "sp_fsm (sess w' i) = FSM_ACTIVE" "sp_fsm (sess w' j) = FSM_ACTIVE"
    "inproc_can_out i (deliver_out i w')" "inproc_can_out j (deliver_out j w')" "event_at w' i ODisconnect = None"
    and k: "\<And>k. k \<noteq> i \<Longrightarrow> k \<noteq> j \<Longrightarrow> sess w' k = sess w k \<and> ps_base w' k = ps_base w k
         \<and> (\<forall>obj. event_at w' k obj = event_at w k obj)"
    using handshake_ok [OF ij fi fj] by blast
  have idle: "sp_state (sess w x) = SP_IDLE" if "x = i \<or> x = j" for x
    using that fi fj by (auto simp: fresh_session_def grid_sinproc_init_def)
  have "inproc_inv w'"
    unfolding inproc_inv_def
  proof (intro allI impI)
    fix a assume a: "sp_state (sess w' a) = SP_ACTIVE"
    show "sp_fsm (sess w' a) = FSM_ACTIVE \<and> (\<exists>b. paired w' a b \<and> (\<exists>ms. chan_ok w' a b ms))"
    proof (cases "a = i \<or> a = j")
      case True
      with h paired_sym [OF h(2)] show ?thesis by auto
    next
      case False
      then have "sp_state (sess w a) = SP_ACTIVE" using a k [of a] by simp
      then obtain b ms where b: "paired w a b" "chan_ok w a b ms" "sp_fsm (sess w a) = FSM_ACTIVE"
        by (rule inproc_invD [OF inv])
      have bn: "b \<noteq> i" "b \<noteq> j" using b(1) idle [of b] by (auto simp: paired_def)
      have "paired w' a b" "chan_view w' a b = chan_view w a b"
        using b(1) k [of a] k [of b] False bn by (simp_all add: paired_def chan_view_def)
      moreover have "sp_fsm (sess w' a) = FSM_ACTIVE" using b(3) k [of a] False by simp
      moreover have "chan_ok w' a b ms" using b(2) chan_cong [of w' a b w ms] calculation(2) by simp
      ultimately show ?thesis by blast
    qed
  qed
  with h show ?thesis by blast
qed

section \<open>Closing while the peer sends\<close>

text \<open>
  A session that is asked to stop waits for its peer's DISCONNECT. A message the peer sends
  before it learns of the disconnect is delivered to the stopping session, which has no
  transition for it: the process aborts.
\<close>

lemma stop_then_send_aborts:
  assumes inv: "inproc_inv w" and p: "paired w i j" and o: "inproc_can_out i w"
    and d: "event_at w i ODisconnect = None"
  shows "\<exists>w1 rc w2. grid_sinproc_stop j w = Some w1 \<and> grid_pipe_send grid_sinproc_send i m w1 = Some (rc, w2)
    \<and> event_at w2 j OSent = Some (ToSession j, EV_SENT, i) \<and> deliver add j OSent w2 = None"
proof -
  have "sp_state (sess w i) = SP_ACTIVE" using o by (simp add: inproc_can_out_def)
  then obtain k ms where k: "paired w i k" "chan_ok w i k ms" "sp_fsm (sess w i) = FSM_ACTIVE" "sp_fsm (sess w k) = FSM_ACTIVE"
    by (rule inproc_invD [OF inv])
  have kj: "k = j" by (rule paired_unique [OF p k(1)])
  have st: "i \<noteq> j" "sp_state (sess w i) = SP_ACTIVE" "sp_peer (sess w i) = Some j"
    "sp_state (sess w j) = SP_ACTIVE" "sp_peer (sess w j) = Some i" using p by (simp_all add: paired_def)
  have s: "\<not> sp_sending (sess w i)" "pb_outstate (ps_base w i) = OUT_IDLE"
    using k(2) kj o by (auto simp: chan_ok_def inproc_can_out_def split: if_splits)
  have ev: "event_at w j OSent = None" using k(2) kj s(1) by (auto simp: chan_ok_def chan_turn_def)
  have sp: "sess (stop_pipe j x) a = sess x a" "event_at (stop_pipe j x) a obj = event_at x a obj"
    "a \<noteq> j \<Longrightarrow> ps_base (stop_pipe j x) a = ps_base x a" for x a obj
    by (simp_all add: stop_pipe_def grid_pipebase_stop_def Let_def sess_def event_at_def set_base_def)
  define w1 where "w1 = set_state j SP_STOPPING_PEER (put_event i ODisconnect (Some (ToSession i, EV_DISCONNECT, j))
    (stop_pipe j (upd_sess j (\<lambda>s. s\<lparr>sp_fsm := FSM_STOPPING\<rparr>) w)))"
  have e1: "grid_sinproc_stop j w = Some w1"
    using st k(4) kj d by (simp add: grid_sinproc_stop_def sinproc_shutdown_stop_def shutdown_done_def raise_event_def
        sp w1_def set_state_def)
  define w2 where "w2 = set_base i ((ps_base w i)\<lparr>pb_outstate := OUT_ASYNC\<rparr>)
    (put_event j OSent (Some (ToSession j, EV_SENT, i))
      (upd_sess i (\<lambda>s. s\<lparr>sp_msg := merge_msg m, sp_sending := True\<rparr>)
        (set_base i ((ps_base w i)\<lparr>pb_outstate := OUT_SENDING\<rparr>) w1)))"
  have e2: "grid_pipe_send grid_sinproc_send i m w1 = Some (0 OR GRID_PIPE_RELEASE, w2)"
    using st s ev sp by (simp add: grid_pipe_send_def grid_sinproc_send_def raise_event_def w1_def w2_def set_state_def)
  have "event_at w2 j OSent = Some (ToSession j, EV_SENT, i)" by (simp add: w2_def)
  moreover have "deliver add j OSent w2 = None"
    using st sp by (simp add: deliver_def sinproc_shutdown_peer_def w2_def w1_def set_state_def)
  ultimately show ?thesis using e1 e2 by blast
qed

end
