(* ===== verification/Priolist.thy ===== *)
theory Priolist
  imports Prelude
begin

text \<open>
  The prioritised list of active pipes (\<open>src/protocols/utils/priolist.c\<close>): 16 slots, one
  per priority, each with the sequence of its active pipes and a current pipe, and the
  priority of the current slot (-1 when no pipe is active). A \<open>grid_priolist_data\<close> is named by the
  pipe it is registered for; \<open>pl_prio\<close> gives the priority of the registered ones. Access to a
  slot outside the array, or through a null pointer, is \<open>None\<close>.
\<close>

section \<open>State and operations\<close>

definition GRID_PRIOLIST_SLOTS :: int where "GRID_PRIOLIST_SLOTS = 16"

record priolist_slot =
  sl_pipes :: "nat list"
  sl_current :: "nat option"

record grid_priolist =
  pl_slots :: "priolist_slot list"
  pl_current :: int
  pl_prio :: "nat \<Rightarrow> int option"

definition empty_slot :: priolist_slot where
  "empty_slot = \<lparr>sl_pipes = [], sl_current = None\<rparr>"

definition grid_priolist_init :: grid_priolist where
  "grid_priolist_init = \<lparr>pl_slots = replicate (nat GRID_PRIOLIST_SLOTS) empty_slot,
     pl_current = -1, pl_prio = Map.empty\<rparr>"

definition grid_priolist_term :: "grid_priolist \<Rightarrow> unit option" where
  "grid_priolist_term l = guard (\<forall>s \<in> set (pl_slots l). sl_pipes s = [])"

definition get_slot :: "grid_priolist \<Rightarrow> int \<Rightarrow> priolist_slot option" where
  "get_slot l prio = (if 1 \<le> prio \<and> nat (prio - 1) < length (pl_slots l)
     then Some (pl_slots l ! nat (prio - 1)) else None)"

definition set_slot :: "grid_priolist \<Rightarrow> int \<Rightarrow> priolist_slot \<Rightarrow> grid_priolist" where
  "set_slot l prio s = l\<lparr>pl_slots := (pl_slots l)[nat (prio - 1) := s]\<rparr>"

definition hd_opt :: "'a list \<Rightarrow> 'a option" where
  "hd_opt xs = (case xs of [] \<Rightarrow> None | x # _ \<Rightarrow> Some x)"

text \<open>The item after \<open>x\<close>, which \<open>grid_list_next\<close> and \<open>grid_list_erase\<close> return.\<close>

fun next_of :: "'a \<Rightarrow> 'a list \<Rightarrow> 'a option" where
  "next_of x [] = None"
| "next_of x (y # ys) = (if y = x then hd_opt ys else next_of x ys)"

text \<open>The loops that move to the next non-empty slot of lower priority.\<close>

function skip_empty :: "priolist_slot list \<Rightarrow> int \<Rightarrow> int" where
  "skip_empty sl c =
     (if sl_pipes (sl ! nat (c - 1)) = []
      then (if c + 1 > GRID_PRIOLIST_SLOTS then -1 else skip_empty sl (c + 1))
      else c)"
  by pat_completeness auto
termination by (relation "measure (\<lambda>(sl, c). nat (17 - c))") (auto simp: GRID_PRIOLIST_SLOTS_def)

declare skip_empty.simps [simp del]

definition grid_priolist_add :: "grid_priolist \<Rightarrow> nat \<Rightarrow> int \<Rightarrow> grid_priolist" where
  "grid_priolist_add l d prio = l\<lparr>pl_prio := (pl_prio l)(d \<mapsto> prio)\<rparr>"

definition data_isinlist :: "grid_priolist \<Rightarrow> nat \<Rightarrow> bool" where
  "data_isinlist l d \<longleftrightarrow> (\<exists>s \<in> set (pl_slots l). d \<in> set (sl_pipes s))"

definition grid_priolist_rm :: "grid_priolist \<Rightarrow> nat \<Rightarrow> grid_priolist option" where
  "grid_priolist_rm l d =
     (if \<not> data_isinlist l d then Some (l\<lparr>pl_prio := (pl_prio l)(d := None)\<rparr>)
      else do {
        prio \<leftarrow> pl_prio l d;
        slot \<leftarrow> get_slot l prio;
        let rest = remove1 d (sl_pipes slot);
        let l1 = l\<lparr>pl_prio := (pl_prio l)(d := None)\<rparr>;
        if sl_current slot \<noteq> Some d then Some (set_slot l1 prio (slot\<lparr>sl_pipes := rest\<rparr>))
        else do {
          let it = next_of d (sl_pipes slot);
          let cur = (if it = None then hd_opt rest else it);
          let l2 = set_slot l1 prio \<lparr>sl_pipes = rest, sl_current = cur\<rparr>;
          if pl_current l2 \<noteq> prio then Some l2
          else Some (l2\<lparr>pl_current := skip_empty (pl_slots l2) (pl_current l2)\<rparr>) } })"

definition grid_priolist_activate :: "grid_priolist \<Rightarrow> nat \<Rightarrow> grid_priolist option" where
  "grid_priolist_activate l d = do {
     prio \<leftarrow> pl_prio l d;
     slot \<leftarrow> get_slot l prio;
     guard (\<not> data_isinlist l d);
     if sl_pipes slot \<noteq> [] then Some (set_slot l prio (slot\<lparr>sl_pipes := sl_pipes slot @ [d]\<rparr>))
     else do {
       let l1 = set_slot l prio \<lparr>sl_pipes = sl_pipes slot @ [d], sl_current = Some d\<rparr>;
       if pl_current l1 = -1 then Some (l1\<lparr>pl_current := prio\<rparr>)
       else if pl_current l1 > prio then Some (l1\<lparr>pl_current := prio\<rparr>)
       else Some l1 } }"

definition grid_priolist_is_active :: "grid_priolist \<Rightarrow> bool" where
  "grid_priolist_is_active l = (if pl_current l = -1 then False else True)"

definition grid_priolist_getpipe :: "grid_priolist \<Rightarrow> nat option option" where
  "grid_priolist_getpipe l =
     (if pl_current l = -1 then Some None
      else do { slot \<leftarrow> get_slot l (pl_current l); p \<leftarrow> sl_current slot; Some (Some p) })"

definition grid_priolist_advance :: "grid_priolist \<Rightarrow> bool \<Rightarrow> grid_priolist option" where
  "grid_priolist_advance l release = do {
     guard (pl_current l > 0);
     slot \<leftarrow> get_slot l (pl_current l);
     c \<leftarrow> sl_current slot;
     guard (c \<in> set (sl_pipes slot));
     let it = next_of c (sl_pipes slot);
     let pipes = (if release then remove1 c (sl_pipes slot) else sl_pipes slot);
     let cur = (if it = None then hd_opt pipes else it);
     let l1 = set_slot l (pl_current l) \<lparr>sl_pipes = pipes, sl_current = cur\<rparr>;
     Some (l1\<lparr>pl_current := skip_empty (pl_slots l1) (pl_current l1)\<rparr>) }"

definition grid_priolist_get_priority :: "grid_priolist \<Rightarrow> int" where
  "grid_priolist_get_priority l = pl_current l"

section \<open>Invariant\<close>

text \<open>A slot is consistent when its current pipe is one of its pipes, and absent only when it has none.\<close>

definition slot_ok :: "priolist_slot \<Rightarrow> bool" where
  "slot_ok s \<longleftrightarrow> distinct (sl_pipes s) \<and>
     (case sl_current s of None \<Rightarrow> sl_pipes s = [] | Some c \<Rightarrow> c \<in> set (sl_pipes s))"

text \<open>The current priority is that of the first non-empty slot.\<close>

definition current_ok :: "priolist_slot list \<Rightarrow> int \<Rightarrow> bool" where
  "current_ok sl c \<longleftrightarrow>
     (if c = -1 then \<forall>i < 16. sl_pipes (sl ! i) = []
      else 1 \<le> c \<and> c \<le> 16 \<and> sl_pipes (sl ! nat (c - 1)) \<noteq> [] \<and> (\<forall>i < nat (c - 1). sl_pipes (sl ! i) = []))"

definition prio_inv :: "grid_priolist \<Rightarrow> bool" where
  "prio_inv l \<longleftrightarrow> length (pl_slots l) = 16 \<and> (\<forall>i < 16. slot_ok (pl_slots l ! i))
     \<and> (\<forall>i < 16. \<forall>d \<in> set (sl_pipes (pl_slots l ! i)). pl_prio l d = Some (int i + 1))
     \<and> (\<forall>d prio. pl_prio l d = Some prio \<longrightarrow> 1 \<le> prio \<and> prio \<le> 16)
     \<and> current_ok (pl_slots l) (pl_current l)"

lemma prio_invD:
  assumes "prio_inv l"
  shows "length (pl_slots l) = 16" and "i < 16 \<Longrightarrow> slot_ok (pl_slots l ! i)"
    and "i < 16 \<Longrightarrow> d \<in> set (sl_pipes (pl_slots l ! i)) \<Longrightarrow> pl_prio l d = Some (int i + 1)"
    and "current_ok (pl_slots l) (pl_current l)"
    and "pl_prio l d = Some prio \<Longrightarrow> 1 \<le> prio \<and> prio \<le> 16"
  using assms by (simp_all add: prio_inv_def)

definition pl_active :: "grid_priolist \<Rightarrow> nat set" where
  "pl_active l = (\<Union>s \<in> set (pl_slots l). set (sl_pipes s))"

section \<open>The order in which a slot is served\<close>

text \<open>The pipes of a slot from the current one around to the one before it.\<close>

definition slot_ring :: "priolist_slot \<Rightarrow> nat list" where
  "slot_ring s = (case sl_current s of None \<Rightarrow> []
     | Some c \<Rightarrow> dropWhile (\<lambda>x. x \<noteq> c) (sl_pipes s) @ takeWhile (\<lambda>x. x \<noteq> c) (sl_pipes s))"

lemma next_of_append [simp]: "x \<notin> set as \<Longrightarrow> next_of x (as @ x # bs) = hd_opt bs"
  by (induction as) auto

lemma hd_opt_simps [simp]: "hd_opt [] = None" "hd_opt (x # xs) = Some x"
  by (simp_all add: hd_opt_def)

lemma ring_split [simp]:
  "c \<notin> set as \<Longrightarrow> dropWhile (\<lambda>x. x \<noteq> c) (as @ c # bs) = c # bs"
  "c \<notin> set as \<Longrightarrow> takeWhile (\<lambda>x. x \<noteq> c) (as @ c # bs) = as"
  by (induction as) auto

lemma slot_split:
  assumes "slot_ok s" and "sl_current s = Some c"
  obtains as bs where "sl_pipes s = as @ c # bs" "c \<notin> set as" "c \<notin> set bs" "distinct as" "distinct bs"
    "set as \<inter> set bs = {}" "slot_ring s = c # bs @ as"
proof -
  from assms obtain as bs where ab: "sl_pipes s = as @ c # bs" "c \<notin> set as"
    by (auto simp: slot_ok_def dest: split_list_first)
  with assms that show thesis by (auto simp: slot_ok_def slot_ring_def)
qed

lemma slot_ring_eq:
  "sl_pipes s = as @ c # bs \<Longrightarrow> c \<notin> set as \<Longrightarrow> sl_current s = Some c \<Longrightarrow> slot_ring s = c # bs @ as"
  by (simp add: slot_ring_def)

text \<open>One step around: the current pipe goes to the back, or leaves.\<close>

definition slot_step :: "bool \<Rightarrow> priolist_slot \<Rightarrow> nat \<Rightarrow> priolist_slot" where
  "slot_step release s c =
     (let pipes = (if release then remove1 c (sl_pipes s) else sl_pipes s)
      in \<lparr>sl_pipes = pipes, sl_current = (if next_of c (sl_pipes s) = None then hd_opt pipes
            else next_of c (sl_pipes s))\<rparr>)"

lemma slot_step_ok:
  assumes "slot_ok s" and "sl_current s = Some c"
  shows "slot_ok (slot_step rel s c)"
    and "set (sl_pipes (slot_step rel s c)) = (if rel then set (sl_pipes s) - {c} else set (sl_pipes s))"
    and "slot_ring (slot_step rel s c) = (if rel then tl (slot_ring s) else rotate1 (slot_ring s))"
proof -
  obtain as bs where s: "sl_pipes s = as @ c # bs" "c \<notin> set as" "c \<notin> set bs" "distinct as" "distinct bs"
    "set as \<inter> set bs = {}" "slot_ring s = c # bs @ as"
    by (rule slot_split [OF assms])
  show "slot_ok (slot_step rel s c)"
    using s by (cases bs; cases as) (auto simp: slot_ok_def slot_step_def Let_def)
  show "set (sl_pipes (slot_step rel s c)) = (if rel then set (sl_pipes s) - {c} else set (sl_pipes s))"
    using s by (auto simp: slot_step_def Let_def)
  show "slot_ring (slot_step rel s c) = (if rel then tl (slot_ring s) else rotate1 (slot_ring s))"
  proof (cases bs)
    case Nil
    then show ?thesis using s
      by (cases as) (auto simp: slot_step_def slot_ring_def Let_def)
  next
    case (Cons b bs')
    have "slot_ring (slot_step rel s c) = b # bs' @ (if rel then as else as @ [c])"
      by (rule slot_ring_eq) (use s Cons in \<open>auto simp: slot_step_def Let_def\<close>)
    then show ?thesis using s(7) Cons by simp
  qed
qed

section \<open>The operations preserve the invariant\<close>

lemma skip_empty_ok:
  "1 \<le> c \<Longrightarrow> c \<le> 16 \<Longrightarrow> \<forall>i < nat (c - 1). sl_pipes (sl ! i) = [] \<Longrightarrow> current_ok sl (skip_empty sl c)"
proof (induction sl c rule: skip_empty.induct)
  case (1 sl c)
  show ?case
  proof (cases "sl_pipes (sl ! nat (c - 1)) = []")
    case True
    have all: "\<forall>i < nat c. sl_pipes (sl ! i) = []"
    proof (intro allI impI)
      fix i assume "i < nat c"
      then have "i < nat (c - 1) \<or> i = nat (c - 1)" by linarith
      with 1(4) True show "sl_pipes (sl ! i) = []" by auto
    qed
    show ?thesis
    proof (cases "c + 1 > 16")
      case True
      with 1(3) have "c = 16" by simp
      with all True \<open>sl_pipes (sl ! nat (c - 1)) = []\<close> show ?thesis
        by (subst skip_empty.simps) (simp add: GRID_PRIOLIST_SLOTS_def current_ok_def)
    next
      case False
      have "current_ok sl (skip_empty sl (c + 1))"
        using 1(1) [OF True] False 1(2) all by (simp add: GRID_PRIOLIST_SLOTS_def)
      with True False show ?thesis
        by (subst skip_empty.simps) (simp add: GRID_PRIOLIST_SLOTS_def)
    qed
  next
    case False
    with 1(2-4) show ?thesis by (subst skip_empty.simps) (simp add: current_ok_def)
  qed
qed

lemma active_nth: "length (pl_slots l) = 16 \<Longrightarrow> d \<in> pl_active l \<longleftrightarrow> (\<exists>i < 16. d \<in> set (sl_pipes (pl_slots l ! i)))"
  by (simp add: pl_active_def Bex_def in_set_conv_nth [where xs = "pl_slots l"]) blast

lemma isinlist_active [simp]: "data_isinlist l d \<longleftrightarrow> d \<in> pl_active l"
  by (auto simp: data_isinlist_def pl_active_def)

lemma active_prio:
  assumes "prio_inv l" and "d \<in> pl_active l"
  obtains i where "i < 16" "pl_prio l d = Some (int i + 1)" "d \<in> set (sl_pipes (pl_slots l ! i))"
    "\<forall>j < 16. d \<in> set (sl_pipes (pl_slots l ! j)) \<longrightarrow> j = i"
proof -
  from assms obtain i where i: "i < 16" "d \<in> set (sl_pipes (pl_slots l ! i))"
    by (auto simp: prio_inv_def active_nth)
  with assms(1) have p: "pl_prio l d = Some (int i + 1)" by (auto simp: prio_inv_def)
  moreover have "j = i" if "j < 16" "d \<in> set (sl_pipes (pl_slots l ! j))" for j
    using assms(1) that p by (fastforce simp: prio_inv_def)
  ultimately show thesis using that i by blast
qed

text \<open>Replacing one slot: what has to hold of the new slot, the priorities and the current index.\<close>

lemma prio_inv_upd:
  assumes l: "prio_inv l" and i: "i < 16" and sl: "pl_slots l' = (pl_slots l)[i := s]" and s: "slot_ok s"
    and sp: "\<forall>d \<in> set (sl_pipes s). pl_prio l' d = Some (int i + 1)"
    and pr: "\<And>d j. j < 16 \<Longrightarrow> j \<noteq> i \<Longrightarrow> d \<in> set (sl_pipes (pl_slots l ! j)) \<Longrightarrow> pl_prio l' d = pl_prio l d"
    and rg: "\<forall>d prio. pl_prio l' d = Some prio \<longrightarrow> 1 \<le> prio \<and> prio \<le> 16"
    and c: "current_ok ((pl_slots l)[i := s]) (pl_current l')"
  shows "prio_inv l'"
proof -
  have "length (pl_slots l) = 16" using l by (simp add: prio_inv_def)
  with assms show ?thesis by (auto simp: prio_inv_def nth_list_update)
qed

lemma active_upd:
  assumes "length (pl_slots l) = 16" and "i < 16" and "pl_slots l' = (pl_slots l)[i := s]"
  shows "pl_active l' = set (sl_pipes s) \<union> (\<Union>j \<in> {j. j < 16 \<and> j \<noteq> i}. set (sl_pipes (pl_slots l ! j)))"
proof -
  have "length (pl_slots l') = 16" using assms by simp
  then show ?thesis using assms by (subst set_eq_iff) (auto simp: active_nth nth_list_update)
qed

lemma active_split:
  assumes "length (pl_slots l) = 16" and "i < 16"
  shows "pl_active l = set (sl_pipes (pl_slots l ! i)) \<union> (\<Union>j \<in> {j. j < 16 \<and> j \<noteq> i}. set (sl_pipes (pl_slots l ! j)))"
  using assms by (subst set_eq_iff) (auto simp: active_nth)

lemma active_registered: "prio_inv l \<Longrightarrow> p \<in> pl_active l \<Longrightarrow> p \<in> dom (pl_prio l)"
  by (erule active_prio) auto

lemma prio_init: "prio_inv grid_priolist_init" "pl_active grid_priolist_init = {}"
    "pl_prio grid_priolist_init = Map.empty"
  by (simp_all add: prio_inv_def grid_priolist_init_def GRID_PRIOLIST_SLOTS_def slot_ok_def empty_slot_def
      current_ok_def pl_active_def)

lemma prio_add:
  assumes "prio_inv l" and "pl_prio l d = None" and "1 \<le> prio" and "prio \<le> 16"
  shows "prio_inv (grid_priolist_add l d prio)" and "pl_active (grid_priolist_add l d prio) = pl_active l"
    and "d \<notin> pl_active l"
proof -
  show d: "d \<notin> pl_active l"
  proof
    assume "d \<in> pl_active l"
    then obtain i where "pl_prio l d = Some (int i + 1)" by (rule active_prio [OF assms(1)])
    with assms(2) show False by simp
  qed
  have "e \<noteq> d" if "i < 16" "e \<in> set (sl_pipes (pl_slots l ! i))" for e i
  proof -
    have "length (pl_slots l) = 16" using assms(1) by (simp add: prio_inv_def)
    then have "e \<in> pl_active l" using that active_nth [of l e] by blast
    with d show ?thesis by blast
  qed
  then show "prio_inv (grid_priolist_add l d prio)"
    using assms by (simp add: prio_inv_def grid_priolist_add_def)
qed (simp add: pl_active_def grid_priolist_add_def)

lemma prio_activate:
  assumes l: "prio_inv l" and p: "pl_prio l d = Some prio" and d: "d \<notin> pl_active l"
  shows "\<exists>l'. grid_priolist_activate l d = Some l' \<and> prio_inv l' \<and> pl_active l' = insert d (pl_active l)
    \<and> pl_prio l' = pl_prio l"
proof -
  have len: "length (pl_slots l) = 16" and r: "1 \<le> prio" "prio \<le> 16" using l p by (auto simp: prio_inv_def)
  define i where "i = nat (prio - 1)"
  have i: "i < 16" "prio = int i + 1" using r by (auto simp: i_def)
  let ?s = "pl_slots l ! i"
  have gs: "get_slot l prio = Some ?s" using r len i by (simp add: get_slot_def i_def [symmetric])
  have sok: "slot_ok ?s" using l i by (simp add: prio_inv_def)
  have dn: "d \<notin> set (sl_pipes ?s)" using d i len by (auto simp: active_nth)
  have sp: "\<forall>x \<in> set (sl_pipes ?s @ [d]). pl_prio l x = Some (int i + 1)"
    using l i p by (auto simp: prio_inv_def)
  have rg: "\<forall>d prio. pl_prio l d = Some prio \<longrightarrow> 1 \<le> prio \<and> prio \<le> 16" using l by (simp add: prio_inv_def)
  have cur: "current_ok (pl_slots l) (pl_current l)" using l by (simp add: prio_inv_def)
  note upd = prio_inv_upd [OF l i(1)]
  note act = active_upd [OF len i(1)] active_split [OF len i(1)]
  show ?thesis
  proof (cases "sl_pipes ?s = []")
    case False
    let ?s' = "?s\<lparr>sl_pipes := sl_pipes ?s @ [d]\<rparr>"
    have c: "current_ok ((pl_slots l)[i := ?s']) (pl_current l)"
      using cur False i len by (auto simp: current_ok_def nth_list_update split: if_splits)
    have ok: "slot_ok ?s'" using sok dn False by (auto simp: slot_ok_def split: option.splits)
    let ?l = "l\<lparr>pl_slots := (pl_slots l)[i := ?s']\<rparr>"
    have e: "grid_priolist_activate l d = Some ?l"
      using gs p d False by (simp add: grid_priolist_activate_def set_slot_def i_def Let_def)
    have "prio_inv ?l" by (rule upd [of _ ?s']) (use ok sp rg c in auto)
    then show ?thesis unfolding e using act(1) [of ?l ?s'] act(2) by simp
  next
    case True
    let ?s' = "\<lparr>sl_pipes = [d], sl_current = Some d\<rparr>"
    let ?c = "if pl_current l = -1 \<or> pl_current l > prio then prio else pl_current l"
    have c: "current_ok ((pl_slots l)[i := ?s']) ?c"
      using cur True i len r by (auto simp: current_ok_def nth_list_update split: if_splits)
    have ok: "slot_ok ?s'" by (simp add: slot_ok_def)
    let ?l = "l\<lparr>pl_slots := (pl_slots l)[i := ?s'], pl_current := ?c\<rparr>"
    have e: "grid_priolist_activate l d = Some ?l"
      using gs p d True by (simp add: grid_priolist_activate_def set_slot_def i_def Let_def)
    have "prio_inv ?l" by (rule upd [of _ ?s']) (use ok sp rg c in auto)
    then show ?thesis unfolding e using act(1) [of ?l ?s'] act(2) True by simp
  qed
qed

lemma prio_current:
  assumes l: "prio_inv l" and c: "pl_current l \<noteq> -1"
  obtains i s p where "i < 16" "pl_current l = int i + 1" "get_slot l (pl_current l) = Some s"
    "s = pl_slots l ! i" "slot_ok s" "sl_current s = Some p" "p \<in> set (sl_pipes s)"
    "p \<in> pl_active l" "pl_prio l p = Some (pl_current l)"
    "\<forall>j < i. sl_pipes (pl_slots l ! j) = []"
proof -
  define i where "i = nat (pl_current l - 1)"
  have r: "1 \<le> pl_current l" "pl_current l \<le> 16" and ne: "sl_pipes (pl_slots l ! i) \<noteq> []"
    and lo: "\<forall>j < i. sl_pipes (pl_slots l ! j) = []"
    using l c by (auto simp: prio_inv_def current_ok_def i_def)
  have i: "i < 16" "pl_current l = int i + 1" using r by (auto simp: i_def)
  have len: "length (pl_slots l) = 16" and ok: "slot_ok (pl_slots l ! i)" using l i by (auto simp: prio_inv_def)
  have gs: "get_slot l (pl_current l) = Some (pl_slots l ! i)"
    using r len i by (simp add: get_slot_def i_def [symmetric])
  obtain p where p: "sl_current (pl_slots l ! i) = Some p" "p \<in> set (sl_pipes (pl_slots l ! i))"
    using ok ne by (auto simp: slot_ok_def split: option.splits)
  have "p \<in> pl_active l" using p(2) i len by (auto simp: active_nth)
  moreover have "pl_prio l p = Some (pl_current l)" using l i p(2) by (auto simp: prio_inv_def)
  ultimately show thesis using that i gs ok p lo by blast
qed

lemma prio_is_active:
  assumes l: "prio_inv l"
  shows "grid_priolist_is_active l \<longleftrightarrow> pl_active l \<noteq> {}"
proof (cases "pl_current l = -1")
  case True
  then show ?thesis using l
    by (auto simp: grid_priolist_is_active_def prio_inv_def current_ok_def pl_active_def in_set_conv_nth)
next
  case False
  then obtain p where "p \<in> pl_active l" by (rule prio_current [OF l])
  with False show ?thesis by (auto simp: grid_priolist_is_active_def)
qed

text \<open>The pipe chosen has the highest priority (the smallest number) among the active ones.\<close>

lemma prio_getpipe:
  assumes l: "prio_inv l"
  shows "pl_active l = {} \<Longrightarrow> grid_priolist_getpipe l = Some None"
    and "pl_active l \<noteq> {} \<Longrightarrow> \<exists>p \<in> pl_active l. grid_priolist_getpipe l = Some (Some p)
      \<and> (\<forall>q \<in> pl_active l. the (pl_prio l p) \<le> the (pl_prio l q))"
proof -
  assume "pl_active l = {}"
  then have "pl_current l = -1" using prio_is_active [OF l] by (simp add: grid_priolist_is_active_def split: if_splits)
  then show "grid_priolist_getpipe l = Some None" by (simp add: grid_priolist_getpipe_def)
next
  assume "pl_active l \<noteq> {}"
  then have "pl_current l \<noteq> -1" using prio_is_active [OF l] by (simp add: grid_priolist_is_active_def split: if_splits)
  then obtain i s p where g: "pl_current l = int i + 1" "get_slot l (pl_current l) = Some s" "sl_current s = Some p"
    "p \<in> pl_active l" "pl_prio l p = Some (pl_current l)" "\<forall>j < i. sl_pipes (pl_slots l ! j) = []"
    by (rule prio_current [OF l]) blast
  have "the (pl_prio l p) \<le> the (pl_prio l q)" if q: "q \<in> pl_active l" for q
  proof -
    obtain j where j: "pl_prio l q = Some (int j + 1)" "q \<in> set (sl_pipes (pl_slots l ! j))"
      by (rule active_prio [OF l q])
    have "i \<le> j" using g(6) j(2) by (metis empty_iff empty_set not_le)
    with j g show ?thesis by simp
  qed
  with g show "\<exists>p \<in> pl_active l. grid_priolist_getpipe l = Some (Some p)
      \<and> (\<forall>q \<in> pl_active l. the (pl_prio l p) \<le> the (pl_prio l q))"
    by (auto simp: grid_priolist_getpipe_def intro!: bexI [of _ p])
qed

lemma prio_advance:
  assumes l: "prio_inv l" and p: "grid_priolist_getpipe l = Some (Some p)"
  shows "\<exists>l'. grid_priolist_advance l rel = Some l' \<and> prio_inv l' \<and> pl_prio l' = pl_prio l
    \<and> pl_active l' = (if rel then pl_active l - {p} else pl_active l)
    \<and> pl_slots l' = (pl_slots l)[nat (pl_current l - 1) := slot_step rel (pl_slots l ! nat (pl_current l - 1)) p]"
proof -
  have "pl_current l \<noteq> -1" using p by (auto simp: grid_priolist_getpipe_def)
  then obtain i s p' where g: "i < 16" "pl_current l = int i + 1" "get_slot l (pl_current l) = Some s"
    "s = pl_slots l ! i" "slot_ok s" "sl_current s = Some p'" "p' \<in> set (sl_pipes s)"
    "\<forall>j < i. sl_pipes (pl_slots l ! j) = []"
    by (rule prio_current [OF l]) blast
  have p': "p' = p" using p g by (auto simp: grid_priolist_getpipe_def)
  have len: "length (pl_slots l) = 16" using l by (simp add: prio_inv_def)
  let ?s = "slot_step rel s p"
  let ?sl = "(pl_slots l)[i := ?s]"
  let ?l = "l\<lparr>pl_slots := ?sl, pl_current := skip_empty ?sl (int i + 1)\<rparr>"
  have e: "grid_priolist_advance l rel = Some ?l"
    using g p' by (simp add: grid_priolist_advance_def set_slot_def slot_step_def Let_def)
  have ok: "slot_ok ?s" and st: "set (sl_pipes ?s) = (if rel then set (sl_pipes s) - {p} else set (sl_pipes s))"
    using slot_step_ok [OF g(5,6)] p' by auto
  have c: "current_ok ?sl (skip_empty ?sl (int i + 1))"
    by (rule skip_empty_ok) (use g in auto)
  have sp: "\<forall>d \<in> set (sl_pipes s). pl_prio l d = Some (int i + 1)"
    using l g(1,4) by (auto simp: prio_inv_def)
  have "prio_inv ?l"
    by (rule prio_inv_upd [OF l g(1), of _ ?s]) (use ok st sp l c in \<open>auto simp: prio_inv_def split: if_splits\<close>)
  moreover have "p \<notin> set (sl_pipes (pl_slots l ! j))" if "j < 16" "j \<noteq> i" for j
  proof
    assume "p \<in> set (sl_pipes (pl_slots l ! j))"
    with l that(1) have "pl_prio l p = Some (int j + 1)" by (auto simp: prio_inv_def)
    moreover have "pl_prio l p = Some (int i + 1)" using sp g(7) p' by blast
    ultimately show False using that by simp
  qed
  then have "pl_active ?l = (if rel then pl_active l - {p} else pl_active l)"
    using active_upd [OF len g(1), of ?l ?s] active_split [OF len g(1)] st g(4) by auto
  ultimately show ?thesis using e g(2,4) by simp
qed

text \<open>Removing a pipe from a slot.\<close>

lemma slot_remove_ok:
  assumes "slot_ok s" and "sl_current s \<noteq> Some d"
  shows "slot_ok (s\<lparr>sl_pipes := remove1 d (sl_pipes s)\<rparr>)"
  using assms by (auto simp: slot_ok_def split: option.splits)

lemma prio_rm:
  assumes l: "prio_inv l"
  shows "\<exists>l'. grid_priolist_rm l d = Some l' \<and> prio_inv l' \<and> pl_active l' = pl_active l - {d}
    \<and> pl_prio l' = (pl_prio l)(d := None)"
proof (cases "d \<in> pl_active l")
  case False
  have len: "length (pl_slots l) = 16" using l by (simp add: prio_inv_def)
  have "e \<noteq> d" if "i < 16" "e \<in> set (sl_pipes (pl_slots l ! i))" for e i
    using active_nth [OF len, of e] that False by blast
  then have "prio_inv (l\<lparr>pl_prio := (pl_prio l)(d := None)\<rparr>)"
    using l by (simp add: prio_inv_def)
  with False show ?thesis by (simp add: grid_priolist_rm_def pl_active_def)
next
  case True
  have len: "length (pl_slots l) = 16" using l by (simp add: prio_inv_def)
  obtain i where i: "i < 16" "pl_prio l d = Some (int i + 1)" "d \<in> set (sl_pipes (pl_slots l ! i))"
    and only: "\<forall>j < 16. d \<in> set (sl_pipes (pl_slots l ! j)) \<longrightarrow> j = i"
    by (rule active_prio [OF l True])
  let ?s = "pl_slots l ! i"
  have ok: "slot_ok ?s" and sp: "\<forall>x \<in> set (sl_pipes ?s). pl_prio l x = Some (int i + 1)"
    and cur: "current_ok (pl_slots l) (pl_current l)"
    using prio_invD [OF l] i(1) by simp_all
  have gs: "get_slot l (int i + 1) = Some ?s" using len i by (simp add: get_slot_def)
  have oth: "e \<noteq> d" if "j < 16" "j \<noteq> i" "e \<in> set (sl_pipes (pl_slots l ! j))" for e j
  proof
    assume "e = d"
    with only that have "j = i" by blast
    with that(2) show False ..
  qed
  have rg: "\<forall>e prio. ((pl_prio l)(d := None)) e = Some prio \<longrightarrow> 1 \<le> prio \<and> prio \<le> 16"
    using l by (simp add: prio_inv_def)
  have key: "prio_inv l' \<and> pl_active l' = pl_active l - {d}"
    if l': "pl_slots l' = (pl_slots l)[i := s']" "pl_prio l' = (pl_prio l)(d := None)" "slot_ok s'"
      "set (sl_pipes s') = set (sl_pipes ?s) - {d}"
      "current_ok ((pl_slots l)[i := s']) (pl_current l')" for l' s'
  proof
    show "prio_inv l'"
      by (rule prio_inv_upd [OF l i(1) l'(1,3)]) (use l' sp rg oth in auto)
    show "pl_active l' = pl_active l - {d}"
      unfolding active_upd [OF len i(1) l'(1)] active_split [OF len i(1)] l'(4) using oth by blast
  qed
  show ?thesis
  proof (cases "sl_current ?s = Some d")
    case False
    let ?s' = "?s\<lparr>sl_pipes := remove1 d (sl_pipes ?s)\<rparr>"
    let ?l = "l\<lparr>pl_prio := (pl_prio l)(d := None), pl_slots := (pl_slots l)[i := ?s']\<rparr>"
    have e: "grid_priolist_rm l d = Some ?l"
      using True i gs False by (simp add: grid_priolist_rm_def set_slot_def Let_def)
    have st: "set (sl_pipes ?s') = set (sl_pipes ?s) - {d}" using ok by (simp add: slot_ok_def)
    obtain x where "x \<in> set (sl_pipes ?s)" "x \<noteq> d"
      using ok False i(3) by (auto simp: slot_ok_def split: option.splits)
    with st have "x \<in> set (sl_pipes ?s')" by blast
    then have ne: "sl_pipes ?s' \<noteq> []" by (cases "sl_pipes ?s'") auto
    have c: "current_ok ((pl_slots l)[i := ?s']) (pl_current l)"
      using cur ne i(1,3) len by (auto simp: current_ok_def nth_list_update split: if_splits)
    show ?thesis using e key [of ?l ?s'] slot_remove_ok [OF ok False] st c by simp
  next
    case cd: True
    let ?s' = "slot_step True ?s d"
    let ?sl = "(pl_slots l)[i := ?s']"
    let ?c = "if pl_current l \<noteq> int i + 1 then pl_current l else skip_empty ?sl (pl_current l)"
    let ?l = "l\<lparr>pl_prio := (pl_prio l)(d := None), pl_slots := ?sl, pl_current := ?c\<rparr>"
    note st = slot_step_ok [OF ok cd, of True]
    have e: "grid_priolist_rm l d = Some ?l"
      using True i gs cd by (simp add: grid_priolist_rm_def set_slot_def slot_step_def Let_def)
    have c: "current_ok ?sl ?c"
    proof (cases "pl_current l = int i + 1")
      case True
      have "current_ok ?sl (skip_empty ?sl (int i + 1))"
        by (rule skip_empty_ok) (use i(1) cur True in \<open>auto simp: current_ok_def\<close>)
      with True show ?thesis by simp
    next
      case False
      with cur i(1,3) len show ?thesis
        by (auto simp: current_ok_def nth_list_update split: if_splits)
    qed
    show ?thesis using e key [of ?l ?s'] st c by simp
  qed
qed

section \<open>Round robin\<close>

text \<open>\<open>n\<close> uses of the list in which no pipe is released: the pipes used.\<close>

fun prio_serve :: "nat \<Rightarrow> grid_priolist \<Rightarrow> (nat list \<times> grid_priolist) option" where
  "prio_serve 0 l = Some ([], l)"
| "prio_serve (Suc n) l = do {
     g \<leftarrow> grid_priolist_getpipe l;
     p \<leftarrow> g;
     l1 \<leftarrow> grid_priolist_advance l False;
     (ps, l2) \<leftarrow> prio_serve n l1;
     Some (p # ps, l2) }"

definition top_ring :: "grid_priolist \<Rightarrow> nat list" where
  "top_ring l = (if pl_current l = -1 then [] else slot_ring (pl_slots l ! nat (pl_current l - 1)))"

lemma top_ring_set:
  assumes l: "prio_inv l"
  shows "distinct (top_ring l)"
    and "set (top_ring l) = {p \<in> pl_active l. \<forall>q \<in> pl_active l. the (pl_prio l p) \<le> the (pl_prio l q)}"
proof -
  have "distinct (top_ring l) \<and>
      set (top_ring l) = {p \<in> pl_active l. \<forall>q \<in> pl_active l. the (pl_prio l p) \<le> the (pl_prio l q)}"
  proof (cases "pl_current l = -1")
    case True
    then have "pl_active l = {}" using prio_is_active [OF l] by (simp add: grid_priolist_is_active_def)
    with True show ?thesis by (simp add: top_ring_def)
  next
    case False
    obtain i s p where g: "i < 16" "pl_current l = int i + 1" "s = pl_slots l ! i" "slot_ok s"
      "sl_current s = Some p" "p \<in> pl_active l" "pl_prio l p = Some (pl_current l)"
      "\<forall>j < i. sl_pipes (pl_slots l ! j) = []"
      by (rule prio_current [OF l False]) blast
    obtain as bs where s: "sl_pipes s = as @ p # bs" "p \<notin> set as" "p \<notin> set bs" "distinct as" "distinct bs"
      "set as \<inter> set bs = {}" "slot_ring s = p # bs @ as"
      by (rule slot_split [OF g(4,5)])
    have tr: "top_ring l = p # bs @ as" using False g(2,3) s(7) by (simp add: top_ring_def)
    have st: "set (top_ring l) = set (sl_pipes s)" unfolding tr s(1) by auto
    have len: "length (pl_slots l) = 16" using l by (simp add: prio_inv_def)
    have "q \<in> set (sl_pipes s) \<longleftrightarrow> q \<in> pl_active l \<and> (\<forall>r \<in> pl_active l. the (pl_prio l q) \<le> the (pl_prio l r))"
      (is "_ \<longleftrightarrow> ?R") for q
    proof
      assume q: "q \<in> set (sl_pipes s)"
      have qa: "q \<in> pl_active l" using q g(1,3) active_nth [OF len] by auto
      have qp: "pl_prio l q = Some (int i + 1)" using l g(1,3) q by (auto simp: prio_inv_def)
      have "the (pl_prio l q) \<le> the (pl_prio l r)" if r: "r \<in> pl_active l" for r
      proof -
        obtain j where j: "pl_prio l r = Some (int j + 1)" "r \<in> set (sl_pipes (pl_slots l ! j))"
          by (rule active_prio [OF l r])
        have "i \<le> j" using g(8) j(2) by (metis empty_iff empty_set not_le)
        with j qp show ?thesis by simp
      qed
      with qa show ?R by blast
    next
      assume R: ?R
      then obtain j where j: "j < 16" "pl_prio l q = Some (int j + 1)" "q \<in> set (sl_pipes (pl_slots l ! j))"
        using active_prio [OF l] by metis
      have "int j + 1 \<le> int i + 1" using R g(6,7) g(2) j(2) by force
      moreover have "i \<le> j" using g(8) j(3) by (metis empty_iff empty_set not_le)
      ultimately have "j = i" by simp
      with j g(3) show "q \<in> set (sl_pipes s)" by simp
    qed
    with s st show ?thesis unfolding tr by auto
  qed
  then show "distinct (top_ring l)"
    and "set (top_ring l) = {p \<in> pl_active l. \<forall>q \<in> pl_active l. the (pl_prio l p) \<le> the (pl_prio l q)}"
    by blast+
qed

lemma serve_step:
  assumes l: "prio_inv l" and r: "top_ring l = p # ps"
  shows "grid_priolist_getpipe l = Some (Some p) \<and>
    (\<exists>l'. grid_priolist_advance l False = Some l' \<and> prio_inv l' \<and> top_ring l' = ps @ [p])"
proof -
  have c: "pl_current l \<noteq> -1" using r by (auto simp: top_ring_def)
  obtain i s p' where g: "i < 16" "pl_current l = int i + 1" "get_slot l (pl_current l) = Some s"
    "s = pl_slots l ! i" "slot_ok s" "sl_current s = Some p'" "\<forall>j < i. sl_pipes (pl_slots l ! j) = []"
    by (rule prio_current [OF l c]) blast
  have sr: "slot_ring s = p # ps" using r c g(2,4) by (simp add: top_ring_def)
  then have "p' = p" by (rule_tac slot_split [OF g(5,6)]) simp
  then have gp: "grid_priolist_getpipe l = Some (Some p)"
    using g by (simp add: grid_priolist_getpipe_def)
  obtain l' where l': "grid_priolist_advance l False = Some l'" "prio_inv l'" "pl_active l' = pl_active l"
    "pl_prio l' = pl_prio l" "pl_slots l' = (pl_slots l)[i := slot_step False s p]"
    using prio_advance [OF l gp, of False] g(2,4) by auto
  have st: "slot_ring (slot_step False s p) = ps @ [p]" "sl_pipes (slot_step False s p) \<noteq> []"
    using slot_step_ok(3) [OF g(5,6), of False] slot_step_ok(2) [OF g(5,6), of False] g(5,6) \<open>p' = p\<close> sr
    by (auto simp: slot_ok_def)
  have len: "length (pl_slots l) = 16" using l by (simp add: prio_inv_def)
  have co: "current_ok (pl_slots l') (pl_current l')" using l'(2) by (simp add: prio_inv_def)
  have "pl_current l' = int i + 1"
  proof -
    have ne: "sl_pipes (pl_slots l' ! i) \<noteq> []" using st l'(5) len g(1) by simp
    have em: "\<forall>j < i. sl_pipes (pl_slots l' ! j) = []" using g(7) l'(5) by simp
    have n1: "pl_current l' \<noteq> -1" using co ne g(1) by (auto simp: current_ok_def)
    with co have c1: "1 \<le> pl_current l'" "sl_pipes (pl_slots l' ! nat (pl_current l' - 1)) \<noteq> []"
      "\<forall>j < nat (pl_current l' - 1). sl_pipes (pl_slots l' ! j) = []"
      by (auto simp: current_ok_def)
    have "i \<le> nat (pl_current l' - 1)" using em c1(2) not_le by blast
    moreover have "nat (pl_current l' - 1) \<le> i" using ne c1(3) not_le by blast
    ultimately show ?thesis using c1(1) by linarith
  qed
  then have "top_ring l' = ps @ [p]" using st l'(5) len g(1) by (simp add: top_ring_def)
  with gp l' show ?thesis by blast
qed

lemma serve_ring:
  "prio_inv l \<Longrightarrow> top_ring l = ps @ qs \<Longrightarrow>
     \<exists>l'. prio_serve (length ps) l = Some (ps, l') \<and> prio_inv l' \<and> top_ring l' = qs @ ps"
proof (induction ps arbitrary: l qs)
  case Nil
  then show ?case by simp
next
  case (Cons p ps)
  obtain l1 where l1: "grid_priolist_getpipe l = Some (Some p)" "grid_priolist_advance l False = Some l1"
    "prio_inv l1" "top_ring l1 = ps @ (qs @ [p])"
    using serve_step [OF Cons.prems(1), of p "ps @ qs"] Cons.prems(2) by auto
  from Cons.IH [OF l1(3,4)] l1 show ?case by auto
qed

end
