(* ===== verification/Patterns.thy ===== *)
theory Patterns
  imports Priolist Pipe
begin

text \<open>
  The four ways the protocols use their pipes (\<open>src/protocols/utils\<close>): load balancing
  over the writable pipes (\<open>lb.c\<close>), fair queueing from the readable ones (\<open>fq.c\<close>),
  distribution to all of them (\<open>dist.c\<close>) and a single exclusive pipe (\<open>excl.c\<close>). The
  operations take the pipes' send and receive functions as arguments; the lemmas hold for every
  \<open>pipe_world\<close>: as long as a scheduler only lists pipes that are ready, no operation
  aborts, and this stays so.
\<close>

section \<open>Load balancer and fair queue\<close>

record grid_lb = lb_priolist :: grid_priolist
record grid_fq = fq_priolist :: grid_priolist

definition grid_lb_init :: grid_lb where
  "grid_lb_init = \<lparr>lb_priolist = grid_priolist_init\<rparr>"

definition grid_lb_term :: "grid_lb \<Rightarrow> unit option" where
  "grid_lb_term l = grid_priolist_term (lb_priolist l)"

definition grid_lb_add :: "grid_lb \<Rightarrow> nat \<Rightarrow> int \<Rightarrow> grid_lb" where
  "grid_lb_add l p prio = l\<lparr>lb_priolist := grid_priolist_add (lb_priolist l) p prio\<rparr>"

definition grid_lb_rm :: "grid_lb \<Rightarrow> nat \<Rightarrow> grid_lb option" where
  "grid_lb_rm l p = map_option (\<lambda>q. l\<lparr>lb_priolist := q\<rparr>) (grid_priolist_rm (lb_priolist l) p)"

definition grid_lb_out :: "grid_lb \<Rightarrow> nat \<Rightarrow> grid_lb option" where
  "grid_lb_out l p = map_option (\<lambda>q. l\<lparr>lb_priolist := q\<rparr>) (grid_priolist_activate (lb_priolist l) p)"

definition grid_lb_can_send :: "grid_lb \<Rightarrow> bool" where
  "grid_lb_can_send l = grid_priolist_is_active (lb_priolist l)"

definition grid_lb_get_priority :: "grid_lb \<Rightarrow> int" where
  "grid_lb_get_priority l = grid_priolist_get_priority (lb_priolist l)"

text \<open>On success: the flags without the release flag, and the pipe the message went to.\<close>

definition grid_lb_send ::
  "(nat \<Rightarrow> msg \<Rightarrow> 'w \<Rightarrow> (u32 \<times> 'w) option) \<Rightarrow> msg \<Rightarrow> grid_lb \<Rightarrow> 'w
     \<Rightarrow> ((errno + u32 \<times> nat) \<times> grid_lb \<times> 'w) option" where
  "grid_lb_send psend m l w = do {
     pipe \<leftarrow> grid_priolist_getpipe (lb_priolist l);
     case pipe of
       None \<Rightarrow> Some (Inl EAGAIN, l, w)
     | Some p \<Rightarrow> do {
         (rc, w1) \<leftarrow> psend p m w;
         q \<leftarrow> grid_priolist_advance (lb_priolist l) (released rc);
         Some (Inr (rc AND NOT GRID_PIPE_RELEASE, p), l\<lparr>lb_priolist := q\<rparr>, w1) } }"

definition grid_fq_init :: grid_fq where
  "grid_fq_init = \<lparr>fq_priolist = grid_priolist_init\<rparr>"

definition grid_fq_term :: "grid_fq \<Rightarrow> unit option" where
  "grid_fq_term l = grid_priolist_term (fq_priolist l)"

definition grid_fq_add :: "grid_fq \<Rightarrow> nat \<Rightarrow> int \<Rightarrow> grid_fq" where
  "grid_fq_add l p prio = l\<lparr>fq_priolist := grid_priolist_add (fq_priolist l) p prio\<rparr>"

definition grid_fq_rm :: "grid_fq \<Rightarrow> nat \<Rightarrow> grid_fq option" where
  "grid_fq_rm l p = map_option (\<lambda>q. l\<lparr>fq_priolist := q\<rparr>) (grid_priolist_rm (fq_priolist l) p)"

definition grid_fq_in :: "grid_fq \<Rightarrow> nat \<Rightarrow> grid_fq option" where
  "grid_fq_in l p = map_option (\<lambda>q. l\<lparr>fq_priolist := q\<rparr>) (grid_priolist_activate (fq_priolist l) p)"

definition grid_fq_can_recv :: "grid_fq \<Rightarrow> bool" where
  "grid_fq_can_recv l = grid_priolist_is_active (fq_priolist l)"

definition grid_fq_recv ::
  "(nat \<Rightarrow> 'w \<Rightarrow> (u32 \<times> msg \<times> 'w) option) \<Rightarrow> grid_fq \<Rightarrow> 'w
     \<Rightarrow> ((errno + u32 \<times> msg \<times> nat) \<times> grid_fq \<times> 'w) option" where
  "grid_fq_recv precv l w = do {
     pipe \<leftarrow> grid_priolist_getpipe (fq_priolist l);
     case pipe of
       None \<Rightarrow> Some (Inl EAGAIN, l, w)
     | Some p \<Rightarrow> do {
         (rc, m, w1) \<leftarrow> precv p w;
         q \<leftarrow> grid_priolist_advance (fq_priolist l) (released rc);
         Some (Inr (rc AND NOT GRID_PIPE_RELEASE, m, p), l\<lparr>fq_priolist := q\<rparr>, w1) } }"

section \<open>Distributor\<close>

record grid_dist =
  di_count :: u32
  di_pipes :: "nat list"

definition grid_dist_init :: grid_dist where
  "grid_dist_init = \<lparr>di_count = 0, di_pipes = []\<rparr>"

definition grid_dist_term :: "grid_dist \<Rightarrow> unit option" where
  "grid_dist_term d = do { guard (di_count d = 0); guard (di_pipes d = []) }"

text \<open>A pipe that is added only has its list item initialised.\<close>

definition grid_dist_add :: "grid_dist \<Rightarrow> nat \<Rightarrow> grid_dist" where
  "grid_dist_add d p = d"

definition grid_dist_rm :: "grid_dist \<Rightarrow> nat \<Rightarrow> grid_dist" where
  "grid_dist_rm d p =
     (if p \<in> set (di_pipes d)
      then d\<lparr>di_count := di_count d - 1, di_pipes := remove1 p (di_pipes d)\<rparr> else d)"

definition grid_dist_out :: "grid_dist \<Rightarrow> nat \<Rightarrow> grid_dist option" where
  "grid_dist_out d p = do {
     guard (p \<notin> set (di_pipes d));
     Some (d\<lparr>di_count := di_count d + 1, di_pipes := di_pipes d @ [p]\<rparr>) }"

text \<open>The loop over the pipes; only the pipe the iterator is on is ever erased.\<close>

fun dist_loop ::
  "(nat \<Rightarrow> msg \<Rightarrow> 'w \<Rightarrow> (u32 \<times> 'w) option) \<Rightarrow> msg \<Rightarrow> nat option \<Rightarrow> nat list
     \<Rightarrow> grid_dist \<Rightarrow> 'w \<Rightarrow> (grid_dist \<times> 'w) option" where
  "dist_loop psend m exclude [] d w = Some (d, w)"
| "dist_loop psend m exclude (p # ps) d w =
     (if exclude = Some p then dist_loop psend m exclude ps d w
      else do {
        (rc, w1) \<leftarrow> psend p m w;
        if released rc
        then dist_loop psend m exclude ps
               (d\<lparr>di_count := di_count d - 1, di_pipes := remove1 p (di_pipes d)\<rparr>) w1
        else dist_loop psend m exclude ps d w1 })"

definition grid_dist_send ::
  "(nat \<Rightarrow> msg \<Rightarrow> 'w \<Rightarrow> (u32 \<times> 'w) option) \<Rightarrow> msg \<Rightarrow> nat option
     \<Rightarrow> grid_dist \<Rightarrow> 'w \<Rightarrow> (grid_dist \<times> 'w) option" where
  "grid_dist_send psend m exclude d w =
     (if di_count d = 0 then Some (d, w) else dist_loop psend m exclude (di_pipes d) d w)"

section \<open>Exclusive pipe\<close>

record grid_excl =
  ex_pipe :: "nat option"
  ex_inpipe :: "nat option"
  ex_outpipe :: "nat option"

definition grid_excl_init :: grid_excl where
  "grid_excl_init = \<lparr>ex_pipe = None, ex_inpipe = None, ex_outpipe = None\<rparr>"

definition grid_excl_term :: "grid_excl \<Rightarrow> unit option" where
  "grid_excl_term e = do { guard (ex_pipe e = None); guard (ex_inpipe e = None); guard (ex_outpipe e = None) }"

definition grid_excl_add :: "grid_excl \<Rightarrow> nat \<Rightarrow> errno + grid_excl" where
  "grid_excl_add e p = (if ex_pipe e \<noteq> None then Inl EISCONN else Inr (e\<lparr>ex_pipe := Some p\<rparr>))"

definition grid_excl_rm :: "grid_excl \<Rightarrow> nat \<Rightarrow> grid_excl option" where
  "grid_excl_rm e p = do {
     guard (ex_pipe e \<noteq> None);
     Some \<lparr>ex_pipe = None, ex_inpipe = None, ex_outpipe = None\<rparr> }"

definition grid_excl_in :: "grid_excl \<Rightarrow> nat \<Rightarrow> grid_excl option" where
  "grid_excl_in e p = do {
     guard (ex_inpipe e = None); guard (Some p = ex_pipe e); Some (e\<lparr>ex_inpipe := Some p\<rparr>) }"

definition grid_excl_out :: "grid_excl \<Rightarrow> nat \<Rightarrow> grid_excl option" where
  "grid_excl_out e p = do {
     guard (ex_outpipe e = None); guard (Some p = ex_pipe e); Some (e\<lparr>ex_outpipe := Some p\<rparr>) }"

definition grid_excl_send ::
  "(nat \<Rightarrow> msg \<Rightarrow> 'w \<Rightarrow> (u32 \<times> 'w) option) \<Rightarrow> msg \<Rightarrow> grid_excl \<Rightarrow> 'w
     \<Rightarrow> ((errno + u32) \<times> grid_excl \<times> 'w) option" where
  "grid_excl_send psend m e w =
     (case ex_outpipe e of
        None \<Rightarrow> Some (Inl EAGAIN, e, w)
      | Some p \<Rightarrow> do {
          (rc, w1) \<leftarrow> psend p m w;
          Some (Inr (rc AND NOT GRID_PIPE_RELEASE),
                if released rc then e\<lparr>ex_outpipe := None\<rparr> else e, w1) })"

definition grid_excl_recv ::
  "(nat \<Rightarrow> 'w \<Rightarrow> (u32 \<times> msg \<times> 'w) option) \<Rightarrow> grid_excl \<Rightarrow> 'w
     \<Rightarrow> ((errno + u32 \<times> msg) \<times> grid_excl \<times> 'w) option" where
  "grid_excl_recv precv e w =
     (case ex_inpipe e of
        None \<Rightarrow> Some (Inl EAGAIN, e, w)
      | Some p \<Rightarrow> do {
          (rc, m, w1) \<leftarrow> precv p w;
          Some (Inr (rc AND NOT GRID_PIPE_RELEASE, m),
                if released rc then e\<lparr>ex_inpipe := None\<rparr> else e, w1) })"

definition grid_excl_can_send :: "grid_excl \<Rightarrow> bool" where
  "grid_excl_can_send e = (if ex_outpipe e \<noteq> None then True else False)"

definition grid_excl_can_recv :: "grid_excl \<Rightarrow> bool" where
  "grid_excl_can_recv e = (if ex_inpipe e \<noteq> None then True else False)"

section \<open>Invariants of the scheduling state\<close>

definition dist_inv :: "grid_dist \<Rightarrow> bool" where
  "dist_inv d \<longleftrightarrow> distinct (di_pipes d) \<and> unat (di_count d) = length (di_pipes d)"

definition excl_inv :: "grid_excl \<Rightarrow> bool" where
  "excl_inv e \<longleftrightarrow> (ex_inpipe e = None \<or> ex_inpipe e = ex_pipe e)
     \<and> (ex_outpipe e = None \<or> ex_outpipe e = ex_pipe e)"

lemma dist_init_inv: "dist_inv grid_dist_init"
  by (simp add: dist_inv_def grid_dist_init_def)

lemma count_dec: "unat (c :: u32) = Suc n \<Longrightarrow> unat (c - 1) = n"
proof -
  assume c: "unat c = Suc n"
  then have "1 \<le> c" by (simp add: word_le_nat_alt)
  with c show ?thesis by (simp add: unat_sub)
qed

lemma dist_rm_inv: "dist_inv d \<Longrightarrow> dist_inv (grid_dist_rm d p) \<and> set (di_pipes (grid_dist_rm d p)) = set (di_pipes d) - {p}"
proof (cases "p \<in> set (di_pipes d)")
  case True
  assume d: "dist_inv d"
  then obtain n where n: "length (di_pipes d) = Suc n" using True by (cases "di_pipes d") auto
  with d have "unat (di_count d - 1) = n" by (intro count_dec) (simp add: dist_inv_def)
  with True d n show ?thesis by (simp add: dist_inv_def grid_dist_rm_def length_remove1)
qed (simp add: grid_dist_rm_def)

lemma dist_out_inv:
  assumes "dist_inv d" and "p \<notin> set (di_pipes d)" and "Suc (length (di_pipes d)) < 2 ^ 32"
  shows "\<exists>d'. grid_dist_out d p = Some d' \<and> dist_inv d' \<and> set (di_pipes d') = insert p (set (di_pipes d))"
proof -
  have "unat (di_count d + 1) = Suc (length (di_pipes d))"
    using assms by (simp add: dist_inv_def unat_word_ariths)
  with assms show ?thesis by (auto simp: grid_dist_out_def dist_inv_def)
qed

lemma excl_ops_inv:
  "excl_inv grid_excl_init"
  "grid_excl_add e p = Inr e' \<Longrightarrow> excl_inv e \<Longrightarrow> excl_inv e'"
  "grid_excl_rm e p = Some e' \<Longrightarrow> excl_inv e'"
  "grid_excl_in e p = Some e' \<Longrightarrow> excl_inv e \<Longrightarrow> excl_inv e'"
  "grid_excl_out e p = Some e' \<Longrightarrow> excl_inv e \<Longrightarrow> excl_inv e'"
  by (auto simp: excl_inv_def grid_excl_init_def grid_excl_add_def grid_excl_rm_def grid_excl_in_def
      grid_excl_out_def split: if_splits)

lemma not_released [simp]: "\<not> released (rc AND NOT GRID_PIPE_RELEASE)"
proof -
  have "(rc AND NOT GRID_PIPE_RELEASE) AND GRID_PIPE_RELEASE = 0"
    by (rule bit_word_eqI) (auto simp: bit_simps)
  then show ?thesis by (simp add: released_def)
qed

lemma parsed_unreleased [simp]: "parsed (rc AND NOT GRID_PIPE_RELEASE) = parsed rc"
proof -
  have "(rc AND NOT GRID_PIPE_RELEASE) AND GRID_PIPE_PARSED = rc AND GRID_PIPE_PARSED"
    by (simp add: GRID_PIPE_RELEASE_def GRID_PIPE_PARSED_def word_bw_assocs)
  then show ?thesis by (simp add: parsed_def)
qed

section \<open>The schedulers over any pipes\<close>

definition lb_ok :: "(nat \<Rightarrow> 'w \<Rightarrow> bool) \<Rightarrow> grid_lb \<Rightarrow> 'w \<Rightarrow> bool" where
  "lb_ok can_out l w \<longleftrightarrow> prio_inv (lb_priolist l) \<and> (\<forall>p \<in> pl_active (lb_priolist l). can_out p w)"

definition fq_ok :: "(nat \<Rightarrow> 'w \<Rightarrow> bool) \<Rightarrow> grid_fq \<Rightarrow> 'w \<Rightarrow> bool" where
  "fq_ok can_in l w \<longleftrightarrow> prio_inv (fq_priolist l) \<and> (\<forall>p \<in> pl_active (fq_priolist l). can_in p w)"

definition dist_ok :: "(nat \<Rightarrow> 'w \<Rightarrow> bool) \<Rightarrow> grid_dist \<Rightarrow> 'w \<Rightarrow> bool" where
  "dist_ok can_out d w \<longleftrightarrow> dist_inv d \<and> (\<forall>p \<in> set (di_pipes d). can_out p w)"

definition excl_ok ::
  "(nat \<Rightarrow> 'w \<Rightarrow> bool) \<Rightarrow> (nat \<Rightarrow> 'w \<Rightarrow> bool) \<Rightarrow> grid_excl \<Rightarrow> 'w \<Rightarrow> bool" where
  "excl_ok can_in can_out e w \<longleftrightarrow> excl_inv e \<and> (\<forall>p. ex_inpipe e = Some p \<longrightarrow> can_in p w)
     \<and> (\<forall>p. ex_outpipe e = Some p \<longrightarrow> can_out p w)"

section \<open>Registering pipes and marking them ready\<close>

abbreviation fq_pipes :: "grid_fq \<Rightarrow> nat set" where "fq_pipes l \<equiv> dom (pl_prio (fq_priolist l))"
abbreviation fq_readable :: "grid_fq \<Rightarrow> nat set" where "fq_readable l \<equiv> pl_active (fq_priolist l)"
abbreviation lb_pipes :: "grid_lb \<Rightarrow> nat set" where "lb_pipes l \<equiv> dom (pl_prio (lb_priolist l))"
abbreviation lb_writable :: "grid_lb \<Rightarrow> nat set" where "lb_writable l \<equiv> pl_active (lb_priolist l)"

lemma fq_init_ok: "fq_ok can_in grid_fq_init w" "fq_pipes grid_fq_init = {}" "fq_readable grid_fq_init = {}"
  by (simp_all add: fq_ok_def grid_fq_init_def prio_init)

lemma fq_add_ok:
  assumes "fq_ok can_in l w" and "p \<notin> fq_pipes l" and "1 \<le> prio" "prio \<le> 16"
  shows "fq_ok can_in (grid_fq_add l p prio) w" "fq_pipes (grid_fq_add l p prio) = insert p (fq_pipes l)"
    "fq_readable (grid_fq_add l p prio) = fq_readable l"
proof -
  have n: "prio_inv (fq_priolist l)" "pl_prio (fq_priolist l) p = None" using assms(1,2) by (auto simp: fq_ok_def)
  show "fq_ok can_in (grid_fq_add l p prio) w" "fq_readable (grid_fq_add l p prio) = fq_readable l"
    using prio_add(1,2) [OF n assms(3,4)] assms(1) by (simp_all add: fq_ok_def grid_fq_add_def)
  show "fq_pipes (grid_fq_add l p prio) = insert p (fq_pipes l)"
    by (simp add: grid_fq_add_def grid_priolist_add_def)
qed

lemma fq_rm_ok:
  assumes "fq_ok can_in l w"
  shows "\<exists>l'. grid_fq_rm l p = Some l' \<and> fq_ok can_in l' w \<and> fq_pipes l' = fq_pipes l - {p}
    \<and> fq_readable l' = fq_readable l - {p}"
  using prio_rm [of "fq_priolist l" p] assms by (auto simp: fq_ok_def grid_fq_rm_def)

lemma fq_in_ok:
  assumes "fq_ok can_in l w" and "p \<in> fq_pipes l" and "p \<notin> fq_readable l" and "can_in p w"
  shows "\<exists>l'. grid_fq_in l p = Some l' \<and> fq_ok can_in l' w \<and> fq_pipes l' = fq_pipes l
    \<and> fq_readable l' = insert p (fq_readable l)"
proof -
  obtain prio where "prio_inv (fq_priolist l)" "pl_prio (fq_priolist l) p = Some prio"
    using assms(1,2) by (auto simp: fq_ok_def)
  from prio_activate [OF this assms(3)] assms(1,4) show ?thesis by (auto simp: grid_fq_in_def fq_ok_def)
qed

lemma fq_can_recv_ok: "fq_ok can_in l w \<Longrightarrow> grid_fq_can_recv l \<longleftrightarrow> fq_readable l \<noteq> {}"
  by (simp add: fq_ok_def grid_fq_can_recv_def prio_is_active)

lemma fq_readable_pipes: "fq_ok can_in l w \<Longrightarrow> fq_readable l \<subseteq> fq_pipes l"
  using active_registered by (auto simp: fq_ok_def)

lemma fq_readable_finite: "finite (fq_readable l)"
  by (simp add: pl_active_def)

lemma lb_init_ok: "lb_ok can_out grid_lb_init w" "lb_pipes grid_lb_init = {}" "lb_writable grid_lb_init = {}"
  by (simp_all add: lb_ok_def grid_lb_init_def prio_init)

lemma lb_add_ok:
  assumes "lb_ok can_out l w" and "p \<notin> lb_pipes l" and "1 \<le> prio" "prio \<le> 16"
  shows "lb_ok can_out (grid_lb_add l p prio) w" "lb_pipes (grid_lb_add l p prio) = insert p (lb_pipes l)"
    "lb_writable (grid_lb_add l p prio) = lb_writable l"
proof -
  have n: "prio_inv (lb_priolist l)" "pl_prio (lb_priolist l) p = None" using assms(1,2) by (auto simp: lb_ok_def)
  show "lb_ok can_out (grid_lb_add l p prio) w" "lb_writable (grid_lb_add l p prio) = lb_writable l"
    using prio_add(1,2) [OF n assms(3,4)] assms(1) by (simp_all add: lb_ok_def grid_lb_add_def)
  show "lb_pipes (grid_lb_add l p prio) = insert p (lb_pipes l)"
    by (simp add: grid_lb_add_def grid_priolist_add_def)
qed

lemma lb_rm_ok:
  assumes "lb_ok can_out l w"
  shows "\<exists>l'. grid_lb_rm l p = Some l' \<and> lb_ok can_out l' w \<and> lb_pipes l' = lb_pipes l - {p}
    \<and> lb_writable l' = lb_writable l - {p}"
  using prio_rm [of "lb_priolist l" p] assms by (auto simp: lb_ok_def grid_lb_rm_def)

lemma lb_out_ok:
  assumes "lb_ok can_out l w" and "p \<in> lb_pipes l" and "p \<notin> lb_writable l" and "can_out p w"
  shows "\<exists>l'. grid_lb_out l p = Some l' \<and> lb_ok can_out l' w \<and> lb_pipes l' = lb_pipes l
    \<and> lb_writable l' = insert p (lb_writable l)"
proof -
  obtain prio where "prio_inv (lb_priolist l)" "pl_prio (lb_priolist l) p = Some prio"
    using assms(1,2) by (auto simp: lb_ok_def)
  from prio_activate [OF this assms(3)] assms(1,4) show ?thesis by (auto simp: grid_lb_out_def lb_ok_def)
qed

lemma dist_init_ok: "dist_ok can_out grid_dist_init w"
  by (simp add: dist_ok_def dist_inv_def grid_dist_init_def)

lemma dist_rm_ok: "dist_ok can_out d w \<Longrightarrow> dist_ok can_out (grid_dist_rm d p) w"
  using dist_rm_inv [of d p] by (auto simp: dist_ok_def)

lemma dist_out_ok:
  assumes "dist_ok can_out d w" and "p \<notin> set (di_pipes d)" and "can_out p w" and "Suc (length (di_pipes d)) < 2 ^ 32"
  shows "\<exists>d'. grid_dist_out d p = Some d' \<and> dist_ok can_out d' w \<and> set (di_pipes d') = insert p (set (di_pipes d))"
  using dist_out_inv [of d p] assms by (auto simp: dist_ok_def)

lemma fq_recv_empty:
  "fq_ok can_in l w \<Longrightarrow> fq_readable l = {} \<Longrightarrow> grid_fq_recv precv l w = Some (Inl EAGAIN, l, w)"
  by (simp add: grid_fq_recv_def fq_ok_def prio_getpipe(1))

text \<open>The schedulers only depend on the readiness of their own pipes.\<close>

lemma sched_mono:
  "\<forall>p. can_in p w \<longrightarrow> can_in p w' \<Longrightarrow> fq_ok can_in l w \<Longrightarrow> fq_ok can_in l w'"
  "\<forall>p. can_out p w \<longrightarrow> can_out p w' \<Longrightarrow> lb_ok can_out k w \<Longrightarrow> lb_ok can_out k w'"
  "\<forall>p. can_out p w \<longrightarrow> can_out p w' \<Longrightarrow> dist_ok can_out d w \<Longrightarrow> dist_ok can_out d w'"
  by (simp_all add: fq_ok_def lb_ok_def dist_ok_def)

text \<open>Sending a message to each of some pipes in turn.\<close>

fun send_each :: "(nat \<Rightarrow> msg \<Rightarrow> 'w \<Rightarrow> (u32 \<times> 'w) option) \<Rightarrow> msg \<Rightarrow> nat list \<Rightarrow> 'w \<Rightarrow> 'w option" where
  "send_each psend m [] w = Some w"
| "send_each psend m (p # ps) w = Option.bind (psend p m w) (\<lambda>(rc, w1). send_each psend m ps w1)"

text \<open>Receiving a list of messages one after the other, with their flags and pipes.\<close>

inductive fq_receives ::
  "(nat \<Rightarrow> 'w \<Rightarrow> (u32 \<times> msg \<times> 'w) option) \<Rightarrow> grid_fq \<times> 'w \<Rightarrow> (u32 \<times> msg \<times> nat) list \<Rightarrow> grid_fq \<times> 'w \<Rightarrow> bool"
  for precv where
  receives_none: "fq_receives precv lw [] lw"
| receives_one: "grid_fq_recv precv l w = Some (Inr x, l1, w1) \<Longrightarrow> fq_receives precv (l1, w1) xs lw'
    \<Longrightarrow> fq_receives precv (l, w) (x # xs) lw'"

inductive_cases receives_ConsE: "fq_receives precv lw (x # xs) lw'"
inductive_cases receives_NilE: "fq_receives precv lw [] lw'"

lemma receives_append:
  "fq_receives precv lw (xs @ ys) lw' \<Longrightarrow> \<exists>lw1. fq_receives precv lw xs lw1 \<and> fq_receives precv lw1 ys lw'"
proof (induction xs arbitrary: lw)
  case Nil
  then show ?case using receives_none [of precv lw] by (intro exI [of _ lw]) simp
next
  case (Cons x xs)
  from Cons.prems have "fq_receives precv lw (x # (xs @ ys)) lw'" by simp
  then obtain l w l1 w1 where r: "lw = (l, w)" "grid_fq_recv precv l w = Some (Inr x, l1, w1)"
    "fq_receives precv (l1, w1) (xs @ ys) lw'" by (auto elim: receives_ConsE)
  from Cons.IH [OF r(3)] obtain lw1 where "fq_receives precv (l1, w1) xs lw1" "fq_receives precv lw1 ys lw'" by blast
  with receives_one [OF r(2)] r(1) show ?case by (intro exI [of _ lw1]) simp
qed

lemma receives_snoc:
  "fq_receives precv lw (ys @ [x]) lw' \<Longrightarrow>
     \<exists>l w l' w'. fq_receives precv lw ys (l, w) \<and> grid_fq_recv precv l w = Some (Inr x, l', w') \<and> lw' = (l', w')"
  using receives_append [of precv lw ys "[x]" lw'] by (auto elim!: receives_ConsE receives_NilE)

context pipe_world
begin

lemma lb_send_ok:
  assumes w: "winv w" and l: "lb_ok can_out l w"
  shows "\<exists>r l' w'. grid_lb_send psend m l w = Some (r, l', w') \<and> winv w' \<and> lb_ok can_out l' w'
    \<and> pl_prio (lb_priolist l') = pl_prio (lb_priolist l) \<and> (\<forall>q. can_in q w' = can_in q w)
    \<and> pl_active (lb_priolist l') \<subseteq> pl_active (lb_priolist l)
    \<and> (case r of Inl e \<Rightarrow> e = EAGAIN \<and> pl_active (lb_priolist l) = {} \<and> l' = l \<and> w' = w
       | Inr (f, p) \<Rightarrow> p \<in> pl_active (lb_priolist l) \<and> \<not> released f
           \<and> (\<forall>q \<in> pl_active (lb_priolist l). the (pl_prio (lb_priolist l) p) \<le> the (pl_prio (lb_priolist l) q))
           \<and> (\<exists>rc. psend p m w = Some (rc, w')))"
proof (cases "pl_active (lb_priolist l) = {}")
  case True
  with l have "grid_priolist_getpipe (lb_priolist l) = Some None" by (simp add: lb_ok_def prio_getpipe(1))
  with True w l show ?thesis by (simp add: grid_lb_send_def)
next
  case False
  have pi: "prio_inv (lb_priolist l)" using l by (simp add: lb_ok_def)
  obtain p where p: "p \<in> pl_active (lb_priolist l)" "grid_priolist_getpipe (lb_priolist l) = Some (Some p)"
    "\<forall>q \<in> pl_active (lb_priolist l). the (pl_prio (lb_priolist l) p) \<le> the (pl_prio (lb_priolist l) q)"
    using prio_getpipe(2) [OF pi False] by blast
  have cp: "can_out p w" using l p(1) by (simp add: lb_ok_def)
  obtain rc w' where s: "psend p m w = Some (rc, w')" "winv w'" "can_out p w' = (\<not> released rc)"
    "\<forall>q. q \<noteq> p \<longrightarrow> can_out q w' = can_out q w" "\<forall>q. can_in q w' = can_in q w"
    using send_ok [OF w cp] by blast
  obtain q where q: "grid_priolist_advance (lb_priolist l) (released rc) = Some q" "prio_inv q"
    "pl_prio q = pl_prio (lb_priolist l)"
    "pl_active q = (if released rc then pl_active (lb_priolist l) - {p} else pl_active (lb_priolist l))"
    using prio_advance [OF pi p(2)] by blast
  have ok: "lb_ok can_out (l\<lparr>lb_priolist := q\<rparr>) w'"
    using q s l by (auto simp: lb_ok_def split: if_splits)
  have "grid_lb_send psend m l w
      = Some (Inr (rc AND NOT GRID_PIPE_RELEASE, p), l\<lparr>lb_priolist := q\<rparr>, w')"
    using p(2) s(1) q(1) by (simp add: grid_lb_send_def)
  with ok q s p show ?thesis by auto
qed

lemma fq_recv_ok:
  assumes w: "winv w" and l: "fq_ok can_in l w"
  shows "\<exists>r l' w'. grid_fq_recv precv l w = Some (r, l', w') \<and> winv w' \<and> fq_ok can_in l' w'
    \<and> pl_prio (fq_priolist l') = pl_prio (fq_priolist l) \<and> (\<forall>q. can_out q w' = can_out q w)
    \<and> pl_active (fq_priolist l') \<subseteq> pl_active (fq_priolist l)
    \<and> (case r of Inl e \<Rightarrow> e = EAGAIN \<and> pl_active (fq_priolist l) = {} \<and> l' = l \<and> w' = w
       | Inr (f, m, p) \<Rightarrow> p \<in> pl_active (fq_priolist l) \<and> \<not> released f
           \<and> (\<forall>q \<in> pl_active (fq_priolist l). the (pl_prio (fq_priolist l) p) \<le> the (pl_prio (fq_priolist l) q))
           \<and> (\<exists>rc. precv p w = Some (rc, m, w') \<and> parsed f = parsed rc) \<and> (parsed f \<or> sphdr m = []))"
proof (cases "pl_active (fq_priolist l) = {}")
  case True
  with l have "grid_priolist_getpipe (fq_priolist l) = Some None" by (simp add: fq_ok_def prio_getpipe(1))
  with True w l show ?thesis by (simp add: grid_fq_recv_def)
next
  case False
  have pi: "prio_inv (fq_priolist l)" using l by (simp add: fq_ok_def)
  obtain p where p: "p \<in> pl_active (fq_priolist l)" "grid_priolist_getpipe (fq_priolist l) = Some (Some p)"
    "\<forall>q \<in> pl_active (fq_priolist l). the (pl_prio (fq_priolist l) p) \<le> the (pl_prio (fq_priolist l) q)"
    using prio_getpipe(2) [OF pi False] by blast
  have cp: "can_in p w" using l p(1) by (simp add: fq_ok_def)
  obtain rc m w' where s: "precv p w = Some (rc, m, w')" "winv w'" "can_in p w' = (\<not> released rc)"
    "\<forall>q. q \<noteq> p \<longrightarrow> can_in q w' = can_in q w" "\<forall>q. can_out q w' = can_out q w"
    "parsed rc \<or> sphdr m = []"
    using recv_ok [OF w cp] by blast
  obtain q where q: "grid_priolist_advance (fq_priolist l) (released rc) = Some q" "prio_inv q"
    "pl_prio q = pl_prio (fq_priolist l)"
    "pl_active q = (if released rc then pl_active (fq_priolist l) - {p} else pl_active (fq_priolist l))"
    using prio_advance [OF pi p(2)] by blast
  have ok: "fq_ok can_in (l\<lparr>fq_priolist := q\<rparr>) w'"
    using q s l by (auto simp: fq_ok_def split: if_splits)
  have "grid_fq_recv precv l w
      = Some (Inr (rc AND NOT GRID_PIPE_RELEASE, m, p), l\<lparr>fq_priolist := q\<rparr>, w')"
    using p(2) s(1) q(1) by (simp add: grid_fq_recv_def)
  with ok q s p show ?thesis by auto
qed

text \<open>
  The distributor's loop sends to every listed pipe but the excluded one, once each, and keeps
  the pipes that are still writable.
\<close>

lemma dist_loop_ok:
  "winv w \<Longrightarrow> dist_inv d \<Longrightarrow> distinct ps \<Longrightarrow> set ps \<subseteq> set (di_pipes d) \<Longrightarrow> (\<forall>p \<in> set (di_pipes d). can_out p w) \<Longrightarrow>
     \<exists>d' w'. dist_loop psend m exclude ps d w = Some (d', w') \<and> winv w' \<and> dist_inv d'
       \<and> set (di_pipes d') = {p \<in> set (di_pipes d). can_out p w'} \<and> (\<forall>q. can_in q w' = can_in q w)
       \<and> (\<forall>q. q \<notin> set ps \<or> exclude = Some q \<longrightarrow> can_out q w' = can_out q w)
       \<and> send_each psend m [p \<leftarrow> ps. exclude \<noteq> Some p] w = Some w'"
proof (induction ps arbitrary: d w)
  case Nil
  then show ?case by auto
next
  case (Cons p ps)
  show ?case
  proof (cases "exclude = Some p")
    case True
    have "set ps \<subseteq> set (di_pipes d)" "distinct ps" using Cons.prems(3,4) by auto
    from Cons.IH [OF Cons.prems(1,2) this(2,1) Cons.prems(5)] True show ?thesis by auto
  next
    case False
    have cp: "can_out p w" using Cons.prems(4,5) by simp
    obtain rc w1 where s: "psend p m w = Some (rc, w1)" "winv w1" "can_out p w1 = (\<not> released rc)"
      "\<forall>q. q \<noteq> p \<longrightarrow> can_out q w1 = can_out q w" "\<forall>q. can_in q w1 = can_in q w"
      using send_ok [OF Cons.prems(1) cp] by blast
    define d1 where "d1 = (if released rc then grid_dist_rm d p else d)"
    have d1: "dist_inv d1" "set (di_pipes d1) = (if released rc then set (di_pipes d) - {p} else set (di_pipes d))"
      using dist_rm_inv [OF Cons.prems(2), of p] Cons.prems(2) by (auto simp: d1_def)
    have sub: "set ps \<subseteq> set (di_pipes d1)" using Cons.prems(3,4) d1(2) by auto
    have co: "\<forall>q \<in> set (di_pipes d1). can_out q w1" using Cons.prems(5) d1(2) s(3,4) by (auto split: if_splits)
    have dp: "distinct ps" using Cons.prems(3) by simp
    from Cons.IH [OF s(2) d1(1) dp sub co] obtain d' w' where
      r: "dist_loop psend m exclude ps d1 w1 = Some (d', w')" "winv w'" "dist_inv d'"
      "set (di_pipes d') = {p \<in> set (di_pipes d1). can_out p w'}" "\<forall>q. can_in q w' = can_in q w1"
      "\<forall>q. q \<notin> set ps \<or> exclude = Some q \<longrightarrow> can_out q w' = can_out q w1"
      "send_each psend m [p \<leftarrow> ps. exclude \<noteq> Some p] w1 = Some w'" by blast
    have se: "send_each psend m [p \<leftarrow> p # ps. exclude \<noteq> Some p] w = Some w'" using False s(1) r(7) by simp
    have e: "dist_loop psend m exclude (p # ps) d w = dist_loop psend m exclude ps d1 w1"
      using False s(1) Cons.prems(4) by (simp add: d1_def grid_dist_rm_def)
    have pw: "can_out p w' = (\<not> released rc)" using r(6) s(3) Cons.prems(3) by simp
    have "set (di_pipes d') = {q \<in> set (di_pipes d). can_out q w'}"
      using r(4) d1(2) pw by auto
    moreover have "\<forall>q. q \<notin> set (p # ps) \<or> exclude = Some q \<longrightarrow> can_out q w' = can_out q w"
    proof (intro allI impI)
      fix q assume "q \<notin> set (p # ps) \<or> exclude = Some q"
      then have "q \<noteq> p" "q \<notin> set ps \<or> exclude = Some q" using False by auto
      then show "can_out q w' = can_out q w" using r(6) s(4) by blast
    qed
    moreover have "\<forall>q. can_in q w' = can_in q w" using r(5) s(5) by simp
    ultimately show ?thesis unfolding e using r(1-3) se by (intro exI [of _ d'] exI [of _ w']) simp
  qed
qed

lemma dist_send_ok:
  assumes w: "winv w" and d: "dist_ok can_out d w"
  shows "\<exists>d' w'. grid_dist_send psend m exclude d w = Some (d', w') \<and> winv w' \<and> dist_ok can_out d' w'
    \<and> set (di_pipes d') = {p \<in> set (di_pipes d). can_out p w'} \<and> (\<forall>q. can_in q w' = can_in q w)
    \<and> send_each psend m [p \<leftarrow> di_pipes d. exclude \<noteq> Some p] w = Some w'"
proof (cases "di_count d = 0")
  case True
  with d have "di_pipes d = []" by (simp add: dist_ok_def dist_inv_def)
  with True w d show ?thesis by (simp add: grid_dist_send_def)
next
  case False
  have "dist_inv d" "distinct (di_pipes d)" "\<forall>p \<in> set (di_pipes d). can_out p w"
    using d by (simp_all add: dist_ok_def dist_inv_def)
  from dist_loop_ok [OF w this(1,2) order_refl this(3), of m exclude] False
  show ?thesis by (auto simp: grid_dist_send_def dist_ok_def)
qed

lemma excl_send_ok:
  assumes w: "winv w" and e: "excl_ok can_in can_out e w"
  shows "\<exists>r e' w'. grid_excl_send psend m e w = Some (r, e', w') \<and> winv w' \<and> excl_ok can_in can_out e' w'
    \<and> ex_pipe e' = ex_pipe e
    \<and> (case r of Inl x \<Rightarrow> x = EAGAIN \<and> ex_outpipe e = None \<and> w' = w
       | Inr f \<Rightarrow> \<exists>p rc. ex_outpipe e = Some p \<and> psend p m w = Some (rc, w') \<and> \<not> released f)"
proof (cases "ex_outpipe e")
  case None
  with w e show ?thesis by (simp add: grid_excl_send_def)
next
  case (Some p)
  with e have "can_out p w" by (simp add: excl_ok_def)
  from send_ok [OF w this] obtain rc w' where s: "psend p m w = Some (rc, w')" "winv w'"
    "can_out p w' = (\<not> released rc)" "\<forall>q. can_in q w' = can_in q w" by blast
  let ?e = "if released rc then e\<lparr>ex_outpipe := None\<rparr> else e"
  have "grid_excl_send psend m e w = Some (Inr (rc AND NOT GRID_PIPE_RELEASE), ?e, w')"
    using Some s(1) by (simp add: grid_excl_send_def)
  moreover have "excl_ok can_in can_out ?e w'"
    using e s(3,4) Some by (auto simp: excl_ok_def excl_inv_def)
  ultimately show ?thesis using s Some by (auto split: if_splits)
qed

lemma excl_recv_ok:
  assumes w: "winv w" and e: "excl_ok can_in can_out e w"
  shows "\<exists>r e' w'. grid_excl_recv precv e w = Some (r, e', w') \<and> winv w' \<and> excl_ok can_in can_out e' w'
    \<and> ex_pipe e' = ex_pipe e
    \<and> (case r of Inl x \<Rightarrow> x = EAGAIN \<and> ex_inpipe e = None \<and> w' = w
       | Inr (f, m) \<Rightarrow> \<exists>p rc. ex_inpipe e = Some p \<and> precv p w = Some (rc, m, w')
           \<and> \<not> released f \<and> parsed f = parsed rc \<and> (parsed f \<or> sphdr m = []))"
proof (cases "ex_inpipe e")
  case None
  with w e show ?thesis by (simp add: grid_excl_recv_def)
next
  case (Some p)
  with e have "can_in p w" by (simp add: excl_ok_def)
  from recv_ok [OF w this] obtain rc m w' where s: "precv p w = Some (rc, m, w')" "winv w'"
    "can_in p w' = (\<not> released rc)" "\<forall>q. can_out q w' = can_out q w" "parsed rc \<or> sphdr m = []" by blast
  let ?e = "if released rc then e\<lparr>ex_inpipe := None\<rparr> else e"
  have "grid_excl_recv precv e w = Some (Inr (rc AND NOT GRID_PIPE_RELEASE, m), ?e, w')"
    using Some s(1) by (simp add: grid_excl_recv_def)
  moreover have "excl_ok can_in can_out ?e w'"
    using e s(3,4) Some by (auto simp: excl_ok_def excl_inv_def)
  ultimately show ?thesis using s Some by (auto split: if_splits)
qed

end

context finite_pipes
begin

text \<open>What is left to receive shrinks with every message that a fair queue takes.\<close>

lemma fq_recv_backlog:
  assumes w: "winv w" and l: "fq_ok can_in l w" and r: "grid_fq_recv precv l w = Some (Inr x, l', w')"
  shows "(\<Sum>q \<in> fq_readable l'. backlog q w') < (\<Sum>q \<in> fq_readable l. backlog q w)"
proof -
  obtain f m p where x: "x = (f, m, p)" by (cases x)
  from fq_recv_ok [OF w l] r x obtain rc where p: "p \<in> fq_readable l" "precv p w = Some (rc, m, w')"
    and sub: "fq_readable l' \<subseteq> fq_readable l" by auto
  have "can_in p w" using l p(1) by (simp add: fq_ok_def)
  from recv_backlog [OF w this p(2)] have b: "backlog p w' < backlog p w" "\<And>q. q \<noteq> p \<Longrightarrow> backlog q w' = backlog q w"
    by auto
  have "(\<Sum>q \<in> fq_readable l'. backlog q w') \<le> (\<Sum>q \<in> fq_readable l. backlog q w')"
    by (rule sum_mono2 [OF fq_readable_finite sub]) simp
  also have "\<dots> < (\<Sum>q \<in> fq_readable l. backlog q w)"
  proof (rule sum_strict_mono_ex1 [OF fq_readable_finite])
    show "\<forall>q \<in> fq_readable l. backlog q w' \<le> backlog q w"
    proof
      fix q show "backlog q w' \<le> backlog q w" using b by (cases "q = p") auto
    qed
    show "\<exists>q \<in> fq_readable l. backlog q w' < backlog q w" using p(1) b(1) by blast
  qed
  finally show ?thesis .
qed

text \<open>
  A loop that receives until a message is not to be skipped: it ends with one that is not, or
  when nothing is left to receive.
\<close>

lemma fq_skip_ends:
  assumes "winv w" and "fq_ok can_in l w"
  shows "\<exists>xs l' w'. fq_receives precv (l, w) xs (l', w') \<and> winv w' \<and> fq_ok can_in l' w' \<and> fq_pipes l' = fq_pipes l
    \<and> (\<forall>q. can_out q w' = can_out q w) \<and> (\<forall>(f, m, p) \<in> set xs. p \<in> fq_readable l \<and> (parsed f \<or> sphdr m = []))
    \<and> ((\<forall>x \<in> set xs. skip x) \<and> fq_readable l' = {}
         \<or> (\<exists>ys x. xs = ys @ [x] \<and> (\<forall>y \<in> set ys. skip y) \<and> \<not> skip x))"
  using assms
proof (induction "\<Sum>q \<in> fq_readable l. backlog q w" arbitrary: l w rule: less_induct)
  case less
  from fq_recv_ok [OF less.prems] obtain r l1 w1 where r: "grid_fq_recv precv l w = Some (r, l1, w1)" "winv w1"
    "fq_ok can_in l1 w1" "fq_pipes l1 = fq_pipes l" "\<forall>q. can_out q w1 = can_out q w" "fq_readable l1 \<subseteq> fq_readable l"
    and c: "case r of Inl e \<Rightarrow> e = EAGAIN \<and> fq_readable l = {} \<and> l1 = l \<and> w1 = w
       | Inr (f, m, p) \<Rightarrow> p \<in> fq_readable l \<and> (parsed f \<or> sphdr m = [])"
    by (elim exE conjE) (auto split: sum.splits)
  show ?case
  proof (cases r)
    case (Inl e)
    with c less.prems show ?thesis by (intro exI [of _ "[]"] exI [of _ l] exI [of _ w]) (simp add: fq_receives.intros)
  next
    case (Inr x)
    obtain f m p where x: "x = (f, m, p)" by (cases x)
    have px: "p \<in> fq_readable l" "parsed f \<or> sphdr m = []" using c Inr x by simp_all
    show ?thesis
    proof (cases "skip x")
      case False
      have "fq_receives precv (l, w) [x] (l1, w1)" using r(1) Inr by (auto intro: fq_receives.intros)
      with r False px x show ?thesis by (intro exI [of _ "[x]"] exI [of _ l1] exI [of _ w1]) simp
    next
      case True
      have "(\<Sum>q \<in> fq_readable l1. backlog q w1) < (\<Sum>q \<in> fq_readable l. backlog q w)"
        using fq_recv_backlog [OF less.prems] r(1) Inr by simp
      from less.hyps [OF this r(2,3)] obtain xs l' w' where ih: "fq_receives precv (l1, w1) xs (l', w')" "winv w'"
        "fq_ok can_in l' w'" "fq_pipes l' = fq_pipes l1" "\<forall>q. can_out q w' = can_out q w1"
        "\<forall>(f, m, p) \<in> set xs. p \<in> fq_readable l1 \<and> (parsed f \<or> sphdr m = [])"
        "(\<forall>x \<in> set xs. skip x) \<and> fq_readable l' = {} \<or> (\<exists>ys x. xs = ys @ [x] \<and> (\<forall>y \<in> set ys. skip y) \<and> \<not> skip x)"
        by (elim exE conjE)
      have "fq_receives precv (l, w) (x # xs) (l', w')" using r(1) Inr ih(1) by (auto intro: fq_receives.intros)
      moreover have "\<forall>(f, m, p) \<in> set (x # xs). p \<in> fq_readable l \<and> (parsed f \<or> sphdr m = [])"
        using ih(6) px x r(6) by auto
      moreover have "(\<forall>x \<in> set (x # xs). skip x) \<and> fq_readable l' = {}
          \<or> (\<exists>ys y. x # xs = ys @ [y] \<and> (\<forall>y \<in> set ys. skip y) \<and> \<not> skip y)"
        using ih(7)
      proof (elim disjE exE conjE)
        fix ys y assume "xs = ys @ [y]" "\<forall>y \<in> set ys. skip y" "\<not> skip y"
        with True show ?thesis by (intro disjI2 exI [of _ "x # ys"] exI [of _ y]) simp
      qed (use True in simp)
      ultimately show ?thesis using ih(2-5) r(4,5) by (intro exI [of _ "x # xs"] exI [of _ l'] exI [of _ w']) simp
    qed
  qed
qed

end

end
