(* ===== verification/XReq.thy ===== *)
theory XReq
  imports Patterns Wire
begin

text \<open>
  The raw request socket (\<open>src/protocols/reqrep/xreq.c\<close>): requests are load-balanced over
  the repliers, replies are fair-queued from them, and a reply that the transport has not
  parsed yet is split into the 4-byte request id and the body.
\<close>

record grid_xreq =
  xq_lb :: grid_lb
  xq_fq :: grid_fq

definition grid_xreq_init :: grid_xreq where
  "grid_xreq_init = \<lparr>xq_lb = grid_lb_init, xq_fq = grid_fq_init\<rparr>"

definition grid_xreq_term :: "grid_xreq \<Rightarrow> unit option" where
  "grid_xreq_term s = do { grid_fq_term (xq_fq s); grid_lb_term (xq_lb s) }"

definition grid_xreq_add :: "grid_xreq \<Rightarrow> nat \<Rightarrow> int \<Rightarrow> int \<Rightarrow> grid_xreq option" where
  "grid_xreq_add s p sndprio rcvprio = do {
     guard (sndprio \<ge> 1 \<and> sndprio \<le> 16);
     guard (rcvprio \<ge> 1 \<and> rcvprio \<le> 16);
     Some (s\<lparr>xq_lb := grid_lb_add (xq_lb s) p sndprio, xq_fq := grid_fq_add (xq_fq s) p rcvprio\<rparr>) }"

text \<open>The second result is the send priority reported to the statistics.\<close>

definition grid_xreq_rm :: "grid_xreq \<Rightarrow> nat \<Rightarrow> (grid_xreq \<times> int) option" where
  "grid_xreq_rm s p = do {
     lb \<leftarrow> grid_lb_rm (xq_lb s) p;
     fq \<leftarrow> grid_fq_rm (xq_fq s) p;
     Some (s\<lparr>xq_lb := lb, xq_fq := fq\<rparr>, grid_lb_get_priority lb) }"

definition grid_xreq_in :: "grid_xreq \<Rightarrow> nat \<Rightarrow> grid_xreq option" where
  "grid_xreq_in s p = do { fq \<leftarrow> grid_fq_in (xq_fq s) p; Some (s\<lparr>xq_fq := fq\<rparr>) }"

definition grid_xreq_out :: "grid_xreq \<Rightarrow> nat \<Rightarrow> (grid_xreq \<times> int) option" where
  "grid_xreq_out s p = do {
     lb \<leftarrow> grid_lb_out (xq_lb s) p; Some (s\<lparr>xq_lb := lb\<rparr>, grid_lb_get_priority lb) }"

definition grid_xreq_events :: "grid_xreq \<Rightarrow> u32" where
  "grid_xreq_events s =
     (if grid_fq_can_recv (xq_fq s) then GRID_SOCKBASE_EVENT_IN else 0)
     OR (if grid_lb_can_send (xq_lb s) then GRID_SOCKBASE_EVENT_OUT else 0)"

definition grid_xreq_send_to ::
  "(nat \<Rightarrow> msg \<Rightarrow> 'w \<Rightarrow> (u32 \<times> 'w) option) \<Rightarrow> msg \<Rightarrow> grid_xreq \<Rightarrow> 'w
     \<Rightarrow> ((errno + nat) \<times> grid_xreq \<times> 'w) option" where
  "grid_xreq_send_to psend m s w = do {
     (r, lb, w1) \<leftarrow> grid_lb_send psend m (xq_lb s) w;
     case r of
       Inl e \<Rightarrow> if e = EAGAIN then Some (Inl EAGAIN, s\<lparr>xq_lb := lb\<rparr>, w1) else None
     | Inr (rc, to) \<Rightarrow> Some (Inr to, s\<lparr>xq_lb := lb\<rparr>, w1) }"

definition grid_xreq_send ::
  "(nat \<Rightarrow> msg \<Rightarrow> 'w \<Rightarrow> (u32 \<times> 'w) option) \<Rightarrow> msg \<Rightarrow> grid_xreq \<Rightarrow> 'w
     \<Rightarrow> ((errno + unit) \<times> grid_xreq \<times> 'w) option" where
  "grid_xreq_send psend m s w =
     map_option (\<lambda>(r, s', w'). (map_sum id (\<lambda>_. ()) r, s', w')) (grid_xreq_send_to psend m s w)"

text \<open>Moving the first \<open>n\<close> bytes of the body into the (empty) protocol header.\<close>

definition split_header :: "nat \<Rightarrow> msg \<Rightarrow> msg option" where
  "split_header n m = do {
     guard (sphdr m = []);
     guard (n \<le> length (body m));
     Some (m\<lparr>sphdr := take n (body m), body := drop n (body m)\<rparr>) }"

text \<open>
  The message is an output parameter: \<open>buf\<close> is what it holds before the call, \<open>None\<close>
  stands for a message that is not initialised or has been released.
\<close>

definition grid_xreq_recv ::
  "(nat \<Rightarrow> 'w \<Rightarrow> (u32 \<times> msg \<times> 'w) option) \<Rightarrow> msg option \<Rightarrow> grid_xreq \<Rightarrow> 'w
     \<Rightarrow> ((errno + unit) \<times> msg option \<times> grid_xreq \<times> 'w) option" where
  "grid_xreq_recv precv buf s w = do {
     (r, fq, w1) \<leftarrow> grid_fq_recv precv (xq_fq s) w;
     let s1 = s\<lparr>xq_fq := fq\<rparr>;
     case r of
       Inl e \<Rightarrow> if e = EAGAIN then Some (Inl EAGAIN, buf, s1, w1) else None
     | Inr (rc, m, p) \<Rightarrow>
         if \<not> parsed rc then
           if length (body m) < 4 then Some (Inl EAGAIN, None, s1, w1)
           else do { m1 \<leftarrow> split_header 4 m; Some (Inr (), Some m1, s1, w1) }
         else Some (Inr (), Some m, s1, w1) }"

definition grid_xreq_setopt :: "errno + unit" where "grid_xreq_setopt = Inl ENOPROTOOPT"
definition grid_xreq_getopt :: "errno + unit" where "grid_xreq_getopt = Inl ENOPROTOOPT"

text \<open>Protocol identifiers (\<open>src/reqrep.h\<close>).\<close>

definition GRID_REQ :: int where "GRID_REQ = 48"
definition GRID_REP :: int where "GRID_REP = 49"

definition grid_xreq_ispeer :: "int \<Rightarrow> bool" where
  "grid_xreq_ispeer socktype = (if socktype = GRID_REP then True else False)"

section \<open>Safety over any pipes\<close>

text \<open>
  The socket's state is good when both schedulers list only pipes that are ready, and both know
  the same pipes.
\<close>

definition xq_pipes :: "grid_xreq \<Rightarrow> nat set" where
  "xq_pipes s = dom (pl_prio (lb_priolist (xq_lb s)))"

definition xreq_ok ::
  "(nat \<Rightarrow> 'w \<Rightarrow> bool) \<Rightarrow> (nat \<Rightarrow> 'w \<Rightarrow> bool) \<Rightarrow> grid_xreq \<Rightarrow> 'w \<Rightarrow> bool" where
  "xreq_ok can_in can_out s w \<longleftrightarrow> lb_ok can_out (xq_lb s) w \<and> fq_ok can_in (xq_fq s) w
     \<and> dom (pl_prio (fq_priolist (xq_fq s))) = xq_pipes s"

definition xq_writable :: "grid_xreq \<Rightarrow> nat set" where
  "xq_writable s = pl_active (lb_priolist (xq_lb s))"

definition xq_readable :: "grid_xreq \<Rightarrow> nat set" where
  "xq_readable s = pl_active (fq_priolist (xq_fq s))"

lemma xreq_init_ok: "xreq_ok can_in can_out grid_xreq_init w"
  by (simp add: xreq_ok_def grid_xreq_init_def lb_ok_def fq_ok_def grid_lb_init_def grid_fq_init_def
      prio_init xq_pipes_def)

lemma xreq_add_ok:
  assumes "xreq_ok can_in can_out s w" and "p \<notin> xq_pipes s"
    and "1 \<le> sp" "sp \<le> 16" "1 \<le> rp" "rp \<le> 16"
  shows "\<exists>s'. grid_xreq_add s p sp rp = Some s' \<and> xreq_ok can_in can_out s' w
    \<and> xq_pipes s' = insert p (xq_pipes s) \<and> xq_writable s' = xq_writable s \<and> xq_readable s' = xq_readable s"
proof -
  have "pl_prio (lb_priolist (xq_lb s)) p = None" "pl_prio (fq_priolist (xq_fq s)) p = None"
    using assms(1,2) by (auto simp: xreq_ok_def xq_pipes_def)
  with assms show ?thesis
    using prio_add [of "lb_priolist (xq_lb s)" p sp] prio_add [of "fq_priolist (xq_fq s)" p rp]
    by (simp add: grid_xreq_add_def xreq_ok_def lb_ok_def fq_ok_def grid_lb_add_def grid_fq_add_def
        xq_pipes_def grid_priolist_add_def xq_writable_def xq_readable_def)
qed

lemma xreq_rm_ok:
  assumes "xreq_ok can_in can_out s w"
  shows "\<exists>s' pr. grid_xreq_rm s p = Some (s', pr) \<and> xreq_ok can_in can_out s' w
    \<and> xq_pipes s' = xq_pipes s - {p} \<and> xq_writable s' = xq_writable s - {p} \<and> xq_readable s' = xq_readable s - {p}"
proof -
  have "prio_inv (lb_priolist (xq_lb s))" "prio_inv (fq_priolist (xq_fq s))"
    using assms by (simp_all add: xreq_ok_def lb_ok_def fq_ok_def)
  from prio_rm [OF this(1), of p] prio_rm [OF this(2), of p] obtain a b where
    a: "grid_priolist_rm (lb_priolist (xq_lb s)) p = Some a" "prio_inv a"
      "pl_active a = pl_active (lb_priolist (xq_lb s)) - {p}" "pl_prio a = (pl_prio (lb_priolist (xq_lb s)))(p := None)" and
    b: "grid_priolist_rm (fq_priolist (xq_fq s)) p = Some b" "prio_inv b"
      "pl_active b = pl_active (fq_priolist (xq_fq s)) - {p}" "pl_prio b = (pl_prio (fq_priolist (xq_fq s)))(p := None)"
    by blast
  with assms show ?thesis
    by (simp add: grid_xreq_rm_def grid_lb_rm_def grid_fq_rm_def xreq_ok_def lb_ok_def fq_ok_def xq_pipes_def
        xq_writable_def xq_readable_def)
qed

lemma xreq_in_ok:
  assumes "xreq_ok can_in can_out s w" and "p \<in> xq_pipes s" and "p \<notin> xq_readable s" and "can_in p w"
  shows "\<exists>s'. grid_xreq_in s p = Some s' \<and> xreq_ok can_in can_out s' w \<and> xq_pipes s' = xq_pipes s
    \<and> xq_readable s' = insert p (xq_readable s) \<and> xq_lb s' = xq_lb s"
proof -
  obtain prio where "prio_inv (fq_priolist (xq_fq s))" "pl_prio (fq_priolist (xq_fq s)) p = Some prio"
    "p \<notin> pl_active (fq_priolist (xq_fq s))"
    using assms by (auto simp: xreq_ok_def fq_ok_def xq_readable_def)
  from prio_activate [OF this] assms show ?thesis
    by (auto simp: grid_xreq_in_def grid_fq_in_def xreq_ok_def fq_ok_def xq_pipes_def xq_readable_def)
qed

lemma xreq_out_ok:
  assumes "xreq_ok can_in can_out s w" and "p \<in> xq_pipes s" and "p \<notin> xq_writable s" and "can_out p w"
  shows "\<exists>s' pr. grid_xreq_out s p = Some (s', pr) \<and> xreq_ok can_in can_out s' w \<and> xq_pipes s' = xq_pipes s
    \<and> xq_writable s' = insert p (xq_writable s) \<and> xq_fq s' = xq_fq s"
proof -
  obtain prio where "prio_inv (lb_priolist (xq_lb s))" "pl_prio (lb_priolist (xq_lb s)) p = Some prio"
    "p \<notin> pl_active (lb_priolist (xq_lb s))"
    using assms by (auto simp: xreq_ok_def lb_ok_def xq_writable_def xq_pipes_def)
  from prio_activate [OF this] assms show ?thesis
    by (auto simp: grid_xreq_out_def grid_lb_out_def xreq_ok_def lb_ok_def xq_pipes_def xq_writable_def)
qed

lemma fq_ok_cong: "(\<forall>q. can_in q w' = can_in q w) \<Longrightarrow> fq_ok can_in l w' = fq_ok can_in l w"
  by (simp add: fq_ok_def)

lemma lb_ok_cong: "(\<forall>q. can_out q w' = can_out q w) \<Longrightarrow> lb_ok can_out l w' = lb_ok can_out l w"
  by (simp add: lb_ok_def)

text \<open>The reply a message is taken as, if it is not malformed.\<close>

definition split_reply :: "bool \<Rightarrow> msg \<Rightarrow> msg option" where
  "split_reply was_parsed m = (if was_parsed then Some m else if length (body m) < 4 then None
     else Some (m\<lparr>sphdr := take 4 (body m), body := drop 4 (body m)\<rparr>))"

context pipe_world
begin

text \<open>Sending takes a pipe unless none is writable.\<close>

lemma xreq_send_to_ok:
  assumes w: "winv w" and s: "xreq_ok can_in can_out s w"
  shows "\<exists>r s' w'. grid_xreq_send_to psend m s w = Some (r, s', w') \<and> winv w' \<and> xreq_ok can_in can_out s' w'
    \<and> xq_pipes s' = xq_pipes s \<and> xq_writable s' \<subseteq> xq_writable s \<and> xq_fq s' = xq_fq s
    \<and> (case r of Inl e \<Rightarrow> e = EAGAIN \<and> xq_writable s = {} \<and> s' = s \<and> w' = w
       | Inr p \<Rightarrow> p \<in> xq_writable s \<and> (\<exists>rc. psend p m w = Some (rc, w')))"
proof -
  have l: "lb_ok can_out (xq_lb s) w" using s by (simp add: xreq_ok_def)
  from lb_send_ok [OF w l, of m] obtain r l' w' where
    r: "grid_lb_send psend m (xq_lb s) w = Some (r, l', w')" "winv w'" "lb_ok can_out l' w'"
    "pl_prio (lb_priolist l') = pl_prio (lb_priolist (xq_lb s))" "\<forall>q. can_in q w' = can_in q w"
    "pl_active (lb_priolist l') \<subseteq> pl_active (lb_priolist (xq_lb s))"
    "case r of Inl e \<Rightarrow> e = EAGAIN \<and> pl_active (lb_priolist (xq_lb s)) = {} \<and> l' = xq_lb s \<and> w' = w
       | Inr (f, p) \<Rightarrow> p \<in> pl_active (lb_priolist (xq_lb s)) \<and> \<not> released f
           \<and> (\<forall>q \<in> pl_active (lb_priolist (xq_lb s)). the (pl_prio (lb_priolist (xq_lb s)) p)
                \<le> the (pl_prio (lb_priolist (xq_lb s)) q))
           \<and> (\<exists>rc. psend p m w = Some (rc, w'))" by blast
  have ok: "xreq_ok can_in can_out (s\<lparr>xq_lb := l'\<rparr>) w'"
    using s r(3,4) fq_ok_cong [OF r(5)] by (simp add: xreq_ok_def xq_pipes_def)
  show ?thesis
  proof (cases r)
    case (Inl e)
    with r ok show ?thesis by (auto simp: grid_xreq_send_to_def xq_pipes_def xq_writable_def)
  next
    case (Inr fp)
    obtain f p where "fp = (f, p)" by (cases fp)
    with Inr r ok show ?thesis by (auto simp: grid_xreq_send_to_def xq_pipes_def xq_writable_def)
  qed
qed

text \<open>
  Receiving: the first message of the chosen pipe, with a header of 4 bytes if it was not
  parsed; a message that is too short is dropped.
\<close>

lemma xreq_recv_ok:
  assumes w: "winv w" and s: "xreq_ok can_in can_out s w"
  shows "\<exists>r buf' s' w'. grid_xreq_recv precv buf s w = Some (r, buf', s', w') \<and> winv w'
    \<and> xreq_ok can_in can_out s' w' \<and> xq_pipes s' = xq_pipes s \<and> xq_readable s' \<subseteq> xq_readable s \<and> xq_lb s' = xq_lb s
    \<and> (\<forall>q. can_out q w' = can_out q w)
    \<and> (xq_readable s = {} \<longrightarrow> r = Inl EAGAIN \<and> buf' = buf \<and> s' = s \<and> w' = w)
    \<and> (xq_readable s \<noteq> {} \<longrightarrow> (\<exists>p \<in> xq_readable s. \<exists>rc m. precv p w = Some (rc, m, w')
         \<and> buf' = split_reply (parsed rc) m \<and> r = (if buf' = None then Inl EAGAIN else Inr ())))"
proof -
  have l: "fq_ok can_in (xq_fq s) w" using s by (simp add: xreq_ok_def)
  from fq_recv_ok [OF w l] obtain r l' w' where
    r: "grid_fq_recv precv (xq_fq s) w = Some (r, l', w')" "winv w'" "fq_ok can_in l' w'"
    "pl_prio (fq_priolist l') = pl_prio (fq_priolist (xq_fq s))" "\<forall>q. can_out q w' = can_out q w"
    "pl_active (fq_priolist l') \<subseteq> pl_active (fq_priolist (xq_fq s))"
    and c: "case r of Inl e \<Rightarrow> e = EAGAIN \<and> pl_active (fq_priolist (xq_fq s)) = {} \<and> l' = xq_fq s \<and> w' = w
       | Inr (f, m, p) \<Rightarrow> p \<in> pl_active (fq_priolist (xq_fq s)) \<and> \<not> released f
           \<and> (\<forall>q \<in> pl_active (fq_priolist (xq_fq s)). the (pl_prio (fq_priolist (xq_fq s)) p)
                \<le> the (pl_prio (fq_priolist (xq_fq s)) q))
           \<and> (\<exists>rc. precv p w = Some (rc, m, w') \<and> parsed f = parsed rc) \<and> (parsed f \<or> sphdr m = [])" by blast
  let ?s = "s\<lparr>xq_fq := l'\<rparr>"
  have ok: "xreq_ok can_in can_out ?s w'"
    using s r(3,4) lb_ok_cong [OF r(5)] by (simp add: xreq_ok_def xq_pipes_def)
  have rd: "xq_readable ?s \<subseteq> xq_readable s" "xq_pipes ?s = xq_pipes s"
    using r(6) by (simp_all add: xq_readable_def xq_pipes_def)
  show ?thesis
  proof (cases r)
    case (Inl e)
    with c have "grid_xreq_recv precv buf s w = Some (Inl EAGAIN, buf, s, w)" "xq_readable s = {}"
      using r(1) by (simp_all add: grid_xreq_recv_def xq_readable_def)
    with w s show ?thesis by simp
  next
    case (Inr x)
    obtain f m p where x: "x = (f, m, p)" by (cases x)
    with Inr c obtain rc where d: "p \<in> xq_readable s" "precv p w = Some (rc, m, w')" "parsed f = parsed rc"
      "parsed rc \<or> sphdr m = []" by (auto simp: xq_readable_def)
    define b where "b = split_reply (parsed rc) m"
    have e: "grid_xreq_recv precv buf s w = Some (if b = None then Inl EAGAIN else Inr (), b, ?s, w')"
      using r(1) Inr x d(3,4) by (auto simp: grid_xreq_recv_def b_def split_reply_def split_header_def)
    have "xq_readable s \<noteq> {}" using d(1) by blast
    then show ?thesis
      unfolding e using r(2) ok rd r(5) d(1,2) b_def by (auto intro!: bexI [of _ p])
  qed
qed

end

end
