(* ===== verification/Timer.thy ===== *)
theory Timer
  imports Fsm
begin

text \<open>
  Timers (\<open>src/aio/timer.c\<close>) as their owners use them. The timer sends tasks to the worker
  thread, which executes them in order: \<open>tm_tasks\<close> are the ones it has not executed,
  \<open>tm_armed\<close> says that the worker's own timer is running. The events that a step raises for
  the owner are delivered before the context is left, so they are results of the step.
  The locale states what owners rely on, in terms of three phases.
\<close>

section \<open>State and operations\<close>

datatype timer_state = TM_IDLE | TM_ACTIVE | TM_STOPPING
datatype timer_task = START_TASK | STOP_TASK
datatype timer_event = GRID_TIMER_TIMEOUT | GRID_TIMER_STOPPED

datatype timer_input = TmAction bool | TmTask timer_task | TmWtimer

record grid_timer =
  tm_fsm :: grid_fsm
  tm_state :: timer_state
  tm_timeout :: int
  tm_tasks :: "timer_task list"
  tm_armed :: bool
  tm_done :: bool

definition grid_timer_init :: grid_timer where
  "grid_timer_init = \<lparr>tm_fsm = grid_fsm_init, tm_state = TM_IDLE, tm_timeout = -1, tm_tasks = [],
     tm_armed = False, tm_done = False\<rparr>"

definition grid_timer_term :: "grid_timer \<Rightarrow> unit option" where
  "grid_timer_term t = do {
     guard (tm_state t = TM_IDLE);
     guard (\<not> tm_done t);
     guard (\<not> tm_armed t);
     guard (tm_tasks t = []);
     grid_fsm_term (tm_fsm t) }"

definition grid_timer_isidle :: "grid_timer \<Rightarrow> bool" where
  "grid_timer_isidle t = grid_fsm_isidle (tm_fsm t)"

text \<open>Queueing a task that is queued already aborts.\<close>

definition grid_worker_execute :: "timer_task \<Rightarrow> grid_timer \<Rightarrow> grid_timer option" where
  "grid_worker_execute k t = do { guard (k \<notin> set (tm_tasks t)); Some (t\<lparr>tm_tasks := tm_tasks t @ [k]\<rparr>) }"

text \<open>The actions are START (\<open>True\<close>) and STOP (\<open>False\<close>).\<close>

definition grid_timer_shutdown :: "timer_input \<Rightarrow> grid_timer \<Rightarrow> grid_timer option" where
  "grid_timer_shutdown e t =
     (if e = TmAction False then grid_worker_execute STOP_TASK (t\<lparr>tm_state := TM_STOPPING\<rparr>)
      else if tm_state t = TM_STOPPING then
        (if e \<noteq> TmTask STOP_TASK then Some t
         else do {
           f \<leftarrow> grid_fsm_stopped (tm_fsm t);
           Some (t\<lparr>tm_armed := False, tm_state := TM_IDLE, tm_fsm := f\<rparr>) })
      else None)"

definition grid_timer_handler :: "timer_input \<Rightarrow> grid_timer \<Rightarrow> grid_timer option" where
  "grid_timer_handler e t =
     (case tm_state t of
        TM_IDLE \<Rightarrow>
          (if e = TmAction True then grid_worker_execute START_TASK (t\<lparr>tm_state := TM_ACTIVE\<rparr>) else None)
      | TM_ACTIVE \<Rightarrow>
          (if e = TmTask START_TASK then do {
             guard (tm_timeout t \<ge> 0);
             guard (\<not> tm_armed t);
             Some (t\<lparr>tm_armed := True, tm_timeout := -1\<rparr>) }
           else if e = TmWtimer then do {
             guard (tm_timeout t = -1);
             guard (\<not> tm_done t);
             Some (t\<lparr>tm_done := True\<rparr>) }
           else None)
      | TM_STOPPING \<Rightarrow> None)"

definition grid_timer_start :: "int \<Rightarrow> grid_timer \<Rightarrow> grid_timer option" where
  "grid_timer_start timeout t = do {
     guard (timeout \<ge> 0);
     grid_fsm_start tm_fsm tm_fsm_update (grid_timer_handler (TmAction True)) (t\<lparr>tm_timeout := timeout\<rparr>) }"

definition grid_timer_stop :: "grid_timer \<Rightarrow> grid_timer option" where
  "grid_timer_stop t = grid_fsm_stop tm_fsm tm_fsm_update (grid_timer_shutdown (TmAction False)) t"

definition timer_feed :: "timer_input \<Rightarrow> grid_timer \<Rightarrow> grid_timer option" where
  "timer_feed e t = grid_fsm_feed tm_fsm grid_timer_handler grid_timer_shutdown e t"

text \<open>The events queued for the owner are taken out of the queue and delivered.\<close>

definition timer_events :: "grid_timer \<Rightarrow> timer_event list \<times> grid_timer" where
  "timer_events t = ((if tm_done t then [GRID_TIMER_TIMEOUT] else [])
       @ (if fs_stopped (tm_fsm t) then [GRID_TIMER_STOPPED] else []),
     t\<lparr>tm_done := False, tm_fsm := stopped_delivered (tm_fsm t)\<rparr>)"

text \<open>The worker executes the first task; the worker's timer expires.\<close>

definition timer_task_step :: "grid_timer \<Rightarrow> (timer_event list \<times> grid_timer) option" where
  "timer_task_step t =
     (case tm_tasks t of
        [] \<Rightarrow> Some ([], t)
      | k # ks \<Rightarrow> map_option timer_events (timer_feed (TmTask k) (t\<lparr>tm_tasks := ks\<rparr>)))"

definition timer_expire_step :: "grid_timer \<Rightarrow> (timer_event list \<times> grid_timer) option" where
  "timer_expire_step t =
     (if tm_armed t then map_option timer_events (timer_feed TmWtimer (t\<lparr>tm_armed := False\<rparr>))
      else Some ([], t))"

section \<open>What owners rely on\<close>

datatype timer_phase = PIdle | PActive | PStopping

text \<open>
  Starting an idle timer and stopping one never abort; an active timer may report a timeout,
  once; only a stopping timer reports that it has stopped, and is idle then.
\<close>

locale timer_service =
  fixes tinv :: "'t \<Rightarrow> bool" and phase :: "'t \<Rightarrow> timer_phase"
    and start :: "int \<Rightarrow> 't \<Rightarrow> 't option" and stop :: "'t \<Rightarrow> 't option"
    and step :: "'t \<Rightarrow> (timer_event list \<times> 't) option"
  assumes start_ok: "tinv t \<Longrightarrow> phase t = PIdle \<Longrightarrow> 0 \<le> ivl \<Longrightarrow>
      \<exists>t'. start ivl t = Some t' \<and> tinv t' \<and> phase t' = PActive"
    and stop_ok: "tinv t \<Longrightarrow> \<exists>t'. stop t = Some t' \<and> tinv t'
      \<and> phase t' = (if phase t = PActive then PStopping else phase t)"
    and step_ok: "tinv t \<Longrightarrow> \<exists>es t'. step t = Some (es, t') \<and> tinv t' \<and>
      (es = [] \<and> phase t' = phase t
       \<or> es = [GRID_TIMER_TIMEOUT] \<and> phase t = PActive \<and> phase t' = PActive
       \<or> es = [GRID_TIMER_STOPPED] \<and> phase t = PStopping \<and> phase t' = PIdle)"
begin

lemma step_cases:
  assumes "tinv t" and "step t = Some (es, t')"
  shows "tinv t' \<and> (es = [] \<and> phase t' = phase t
       \<or> es = [GRID_TIMER_TIMEOUT] \<and> phase t = PActive \<and> phase t' = PActive
       \<or> es = [GRID_TIMER_STOPPED] \<and> phase t = PStopping \<and> phase t' = PIdle)"
  using step_ok [OF assms(1)] assms(2) by auto

end

section \<open>The timer provides it\<close>

definition timer_phase :: "grid_timer \<Rightarrow> timer_phase" where
  "timer_phase t = (case fs_state (tm_fsm t) of FSM_IDLE \<Rightarrow> PIdle | FSM_ACTIVE \<Rightarrow> PActive | FSM_STOPPING \<Rightarrow> PStopping)"

definition timer_inv :: "grid_timer \<Rightarrow> bool" where
  "timer_inv t \<longleftrightarrow> \<not> tm_done t \<and> \<not> fs_stopped (tm_fsm t) \<and>
     (case fs_state (tm_fsm t) of
        FSM_IDLE \<Rightarrow> tm_state t = TM_IDLE \<and> tm_tasks t = [] \<and> \<not> tm_armed t
      | FSM_ACTIVE \<Rightarrow> tm_state t = TM_ACTIVE
          \<and> (tm_tasks t = [START_TASK] \<and> 0 \<le> tm_timeout t \<and> \<not> tm_armed t \<or> tm_tasks t = [] \<and> tm_timeout t = -1)
      | FSM_STOPPING \<Rightarrow> tm_state t = TM_STOPPING
          \<and> (tm_tasks t = [START_TASK, STOP_TASK] \<and> \<not> tm_armed t \<or> tm_tasks t = [STOP_TASK]))"

lemma timer_init_inv: "timer_inv grid_timer_init \<and> timer_phase grid_timer_init = PIdle"
  by (simp add: timer_inv_def grid_timer_init_def grid_fsm_init_def timer_phase_def)

lemmas timer_defs = timer_inv_def timer_phase_def grid_timer_start_def grid_timer_stop_def grid_fsm_start_def
  grid_fsm_stop_def grid_fsm_isidle_def grid_timer_handler_def grid_timer_shutdown_def grid_worker_execute_def
  timer_feed_def grid_fsm_feed_def timer_events_def stopped_delivered_def grid_fsm_stopped_def

lemma timer_start_inv:
  "timer_inv t \<Longrightarrow> timer_phase t = PIdle \<Longrightarrow> 0 \<le> ivl \<Longrightarrow>
     \<exists>t'. grid_timer_start ivl t = Some t' \<and> timer_inv t' \<and> timer_phase t' = PActive"
  by (cases "fs_state (tm_fsm t)") (auto simp: timer_defs)

lemma timer_stop_inv:
  "timer_inv t \<Longrightarrow> \<exists>t'. grid_timer_stop t = Some t' \<and> timer_inv t'
     \<and> timer_phase t' = (if timer_phase t = PActive then PStopping else timer_phase t)"
  by (cases "fs_state (tm_fsm t)") (auto simp: timer_defs)

lemma timer_task_inv:
  "timer_inv t \<Longrightarrow> \<exists>es t'. timer_task_step t = Some (es, t') \<and> timer_inv t' \<and>
      (es = [] \<and> timer_phase t' = timer_phase t
       \<or> es = [GRID_TIMER_STOPPED] \<and> timer_phase t = PStopping \<and> timer_phase t' = PIdle)"
  by (cases "fs_state (tm_fsm t)") (auto simp: timer_defs timer_task_step_def)

lemma timer_expire_inv:
  "timer_inv t \<Longrightarrow> \<exists>es t'. timer_expire_step t = Some (es, t') \<and> timer_inv t' \<and>
      (es = [] \<and> timer_phase t' = timer_phase t
       \<or> es = [GRID_TIMER_TIMEOUT] \<and> timer_phase t = PActive \<and> timer_phase t' = PActive)"
  by (cases "fs_state (tm_fsm t)") (auto simp: timer_defs timer_expire_step_def)

interpretation task_timer: timer_service timer_inv timer_phase grid_timer_start grid_timer_stop timer_task_step
  by unfold_locales (use timer_start_inv timer_stop_inv timer_task_inv in blast)+

interpretation expire_timer: timer_service timer_inv timer_phase grid_timer_start grid_timer_stop timer_expire_step
  by unfold_locales (use timer_start_inv timer_stop_inv timer_expire_inv in blast)+

text \<open>Stopping ends after at most two of the worker's tasks.\<close>

lemma timer_stops:
  "timer_inv t \<Longrightarrow> timer_phase t = PStopping \<Longrightarrow>
     (\<exists>t'. timer_task_step t = Some ([GRID_TIMER_STOPPED], t') \<and> timer_inv t' \<and> timer_phase t' = PIdle)
     \<or> (\<exists>t1 t'. timer_task_step t = Some ([], t1) \<and> timer_task_step t1 = Some ([GRID_TIMER_STOPPED], t')
          \<and> timer_inv t' \<and> timer_phase t' = PIdle)"
  by (cases "fs_state (tm_fsm t)") (auto simp: timer_defs timer_task_step_def)

text \<open>A running timer that expires reports it.\<close>

lemma timer_fires:
  "timer_inv t \<Longrightarrow> timer_phase t = PActive \<Longrightarrow> tm_armed t \<Longrightarrow>
     \<exists>t'. timer_expire_step t = Some ([GRID_TIMER_TIMEOUT], t') \<and> timer_inv t' \<and> timer_phase t' = PActive"
  by (cases "fs_state (tm_fsm t)") (auto simp: timer_defs timer_expire_step_def)

text \<open>An idle timer can be destroyed.\<close>

lemma timer_term_ok: "timer_inv t \<Longrightarrow> timer_phase t = PIdle \<Longrightarrow> grid_timer_term t = Some ()"
  by (cases "fs_state (tm_fsm t)") (auto simp: timer_defs grid_timer_term_def grid_fsm_term_def)

lemma timer_isidle_phase: "timer_inv t \<Longrightarrow> grid_timer_isidle t \<longleftrightarrow> timer_phase t = PIdle"
  by (cases "fs_state (tm_fsm t)") (auto simp: timer_defs grid_timer_isidle_def)

end
