(* ===== verification/Req.thy ===== *)
theory Req
  imports XReq Timer
begin

text \<open>
  The request socket (\<open>src/protocols/reqrep/req.c\<close>, \<open>task.c\<close>): one request at a time, with
  a request id, re-sent when the reply does not come in time or the replier goes away. The
  state machine's handler is one definition with the code's states; the socket's operations
  feed it. The pipes are those of a \<open>pipe_world\<close>, threaded as \<open>w\<close>.
\<close>

section \<open>State\<close>

datatype req_state = REQ_IDLE | REQ_PASSIVE | REQ_DELAYED | REQ_ACTIVE | REQ_TIMED_OUT | REQ_CANCELLING
  | REQ_STOPPING_TIMER | REQ_DONE | REQ_STOPPING

datatype req_input = REQ_START | REQ_STOP | REQ_IN | REQ_OUT | REQ_SENT | REQ_RECEIVED | REQ_PIPE_RM
  | REQ_TIMER timer_event

text \<open>A released or uninitialised reply is \<open>None\<close>; using it is an error.\<close>

record grid_task =
  tk_id :: u32
  tk_request :: msg
  tk_reply :: "msg option"
  tk_timer :: grid_timer
  tk_sent_to :: "nat option"

record grid_req =
  rq_xreq :: grid_xreq
  rq_fsm :: grid_fsm
  rq_state :: req_state
  rq_lastid :: u32
  rq_resend_ivl :: int
  rq_task :: grid_task
  rq_stopped :: bool

definition GRID_REQ_DEFAULT_RESEND_IVL :: int where "GRID_REQ_DEFAULT_RESEND_IVL = 60000"
definition REQ_TOP_BIT :: u32 where "REQ_TOP_BIT = 0x80000000"

definition no_msg :: msg where
  "no_msg = \<lparr>sphdr = [], hdrs = [], body = []\<rparr>"

definition upd_task :: "(grid_task \<Rightarrow> grid_task) \<Rightarrow> grid_req \<Rightarrow> grid_req" where
  "upd_task f s = s\<lparr>rq_task := f (rq_task s)\<rparr>"

definition grid_task_init :: "u32 \<Rightarrow> grid_task \<Rightarrow> grid_task" where
  "grid_task_init tid t = t\<lparr>tk_id := tid\<rparr>"

definition stop_timer :: "grid_req \<Rightarrow> grid_req option" where
  "stop_timer s = map_option (\<lambda>t. upd_task (\<lambda>k. k\<lparr>tk_timer := t\<rparr>) s) (grid_timer_stop (tk_timer (rq_task s)))"

definition grid_req_inprogress :: "grid_req \<Rightarrow> bool" where
  "grid_req_inprogress s =
     (if rq_state s = REQ_IDLE \<or> rq_state s = REQ_PASSIVE \<or> rq_state s = REQ_STOPPING then False else True)"

section \<open>State machine\<close>

type_synonym 'w send_fn = "nat \<Rightarrow> msg \<Rightarrow> 'w \<Rightarrow> (u32 \<times> 'w) option"
type_synonym 'w recv_fn = "nat \<Rightarrow> 'w \<Rightarrow> (u32 \<times> msg \<times> 'w) option"

definition grid_req_action_send ::
  "'w send_fn \<Rightarrow> bool \<Rightarrow> grid_req \<times> 'w \<Rightarrow> (grid_req \<times> 'w) option" where
  "grid_req_action_send psend allow_delay sw = (case sw of (s, w) \<Rightarrow> do {
     (r, xr, w1) \<leftarrow> grid_xreq_send_to psend (tk_request (rq_task s)) (rq_xreq s) w;
     let s1 = s\<lparr>rq_xreq := xr\<rparr>;
     case r of
       Inl e \<Rightarrow>
         if e = EAGAIN then do { guard allow_delay; Some (s1\<lparr>rq_state := REQ_DELAYED\<rparr>, w1) } else None
     | Inr to \<Rightarrow> do {
         t \<leftarrow> grid_timer_start (rq_resend_ivl s1) (tk_timer (rq_task s1));
         Some ((upd_task (\<lambda>k. k\<lparr>tk_timer := t, tk_sent_to := Some to\<rparr>) s1)\<lparr>rq_state := REQ_ACTIVE\<rparr>, w1) } })"

definition goto :: "req_state \<Rightarrow> grid_req \<times> 'w \<Rightarrow> (grid_req \<times> 'w) option" where
  "goto st sw = Some ((fst sw)\<lparr>rq_state := st\<rparr>, snd sw)"

definition stop_timer_goto :: "req_state \<Rightarrow> grid_req \<times> 'w \<Rightarrow> (grid_req \<times> 'w) option" where
  "stop_timer_goto st sw = do {
     s1 \<leftarrow> stop_timer (fst sw);
     Some ((upd_task (\<lambda>k. k\<lparr>tk_sent_to := None\<rparr>) s1)\<lparr>rq_state := st\<rparr>, snd sw) }"

definition grid_req_handler :: "'w send_fn \<Rightarrow> req_input \<Rightarrow> grid_req \<times> 'w \<Rightarrow> (grid_req \<times> 'w) option" where
  "grid_req_handler psend e sw =
     (case rq_state (fst sw) of
        REQ_IDLE \<Rightarrow> (case e of REQ_START \<Rightarrow> goto REQ_PASSIVE sw | _ \<Rightarrow> None)
      | REQ_PASSIVE \<Rightarrow> (case e of REQ_SENT \<Rightarrow> grid_req_action_send psend True sw | _ \<Rightarrow> None)
      | REQ_DELAYED \<Rightarrow> (case e of
            REQ_OUT \<Rightarrow> grid_req_action_send psend False sw
          | REQ_SENT \<Rightarrow> Some sw
          | _ \<Rightarrow> None)
      | REQ_ACTIVE \<Rightarrow> (case e of
            REQ_IN \<Rightarrow> stop_timer_goto REQ_STOPPING_TIMER sw
          | REQ_SENT \<Rightarrow> stop_timer_goto REQ_CANCELLING sw
          | REQ_PIPE_RM \<Rightarrow> stop_timer_goto REQ_TIMED_OUT sw
          | REQ_TIMER GRID_TIMER_TIMEOUT \<Rightarrow> stop_timer_goto REQ_TIMED_OUT sw
          | _ \<Rightarrow> None)
      | REQ_TIMED_OUT \<Rightarrow> (case e of
            REQ_TIMER GRID_TIMER_STOPPED \<Rightarrow> grid_req_action_send psend True sw
          | REQ_SENT \<Rightarrow> goto REQ_CANCELLING sw
          | _ \<Rightarrow> None)
      | REQ_CANCELLING \<Rightarrow> (case e of
            REQ_TIMER GRID_TIMER_STOPPED \<Rightarrow> grid_req_action_send psend True sw
          | REQ_SENT \<Rightarrow> Some sw
          | _ \<Rightarrow> None)
      | REQ_STOPPING_TIMER \<Rightarrow> (case e of
            REQ_TIMER GRID_TIMER_STOPPED \<Rightarrow> goto REQ_DONE sw
          | REQ_SENT \<Rightarrow> goto REQ_CANCELLING sw
          | _ \<Rightarrow> None)
      | REQ_DONE \<Rightarrow> (case e of
            REQ_RECEIVED \<Rightarrow> goto REQ_PASSIVE sw
          | REQ_SENT \<Rightarrow> grid_req_action_send psend True sw
          | _ \<Rightarrow> None)
      | REQ_STOPPING \<Rightarrow> None)"

definition grid_req_shutdown :: "req_input \<Rightarrow> grid_req \<times> 'w \<Rightarrow> (grid_req \<times> 'w) option" where
  "grid_req_shutdown e sw = do {
     s1 \<leftarrow> (if e = REQ_STOP then map_option (\<lambda>s. s\<lparr>rq_state := REQ_STOPPING\<rparr>) (stop_timer (fst sw))
            else Some (fst sw));
     guard (rq_state s1 = REQ_STOPPING);
     if \<not> grid_timer_isidle (tk_timer (rq_task s1)) then Some (s1, snd sw)
     else do {
       f \<leftarrow> grid_fsm_stopped_noevent (rq_fsm s1);
       Some (s1\<lparr>rq_state := REQ_IDLE, rq_fsm := f, rq_stopped := True\<rparr>, snd sw) } }"

definition req_feed :: "'w send_fn \<Rightarrow> req_input \<Rightarrow> grid_req \<times> 'w \<Rightarrow> (grid_req \<times> 'w) option" where
  "req_feed psend e sw = grid_fsm_feed (\<lambda>sw. rq_fsm (fst sw)) (grid_req_handler psend) grid_req_shutdown e sw"

section \<open>Operations of the socket\<close>

definition grid_req_init :: "'w send_fn \<Rightarrow> u32 \<Rightarrow> 'w \<Rightarrow> (grid_req \<times> 'w) option" where
  "grid_req_init psend random w =
     (let s = \<lparr>rq_xreq = grid_xreq_init, rq_fsm = grid_fsm_init, rq_state = REQ_IDLE, rq_lastid = random,
               rq_resend_ivl = GRID_REQ_DEFAULT_RESEND_IVL,
               rq_task = grid_task_init random \<lparr>tk_id = 0, tk_request = no_msg, tk_reply = Some no_msg,
                 tk_timer = grid_timer_init, tk_sent_to = None\<rparr>,
               rq_stopped = False\<rparr>
      in grid_fsm_start (\<lambda>sw. rq_fsm (fst sw)) (\<lambda>f sw. ((fst sw)\<lparr>rq_fsm := f (rq_fsm (fst sw))\<rparr>, snd sw))
           (grid_req_handler psend REQ_START) (s, w))"

definition grid_req_stop :: "grid_req \<times> 'w \<Rightarrow> (grid_req \<times> 'w) option" where
  "grid_req_stop sw =
     grid_fsm_stop (\<lambda>sw. rq_fsm (fst sw)) (\<lambda>f sw. ((fst sw)\<lparr>rq_fsm := f (rq_fsm (fst sw))\<rparr>, snd sw))
       (grid_req_shutdown REQ_STOP) sw"

definition grid_req_term :: "grid_req \<Rightarrow> unit option" where
  "grid_req_term s = do {
     grid_timer_term (tk_timer (rq_task s));
     grid_fsm_term (rq_fsm s);
     grid_xreq_term (rq_xreq s) }"

text \<open>Is this message, just received, the reply to the current request?\<close>

definition reply_matches :: "u32 \<Rightarrow> msg \<Rightarrow> bool option" where
  "reply_matches tid m =
     (if length (sphdr m) \<noteq> 4 then Some False
      else do {
        reqid \<leftarrow> grid_getl (sphdr m);
        Some (reqid AND REQ_TOP_BIT \<noteq> 0 \<and> reqid = (tid OR REQ_TOP_BIT)) })"

definition set_reply :: "msg option \<Rightarrow> grid_req \<Rightarrow> grid_req" where
  "set_reply r s = upd_task (\<lambda>k. k\<lparr>tk_reply := r\<rparr>) s"

text \<open>The loop of \<open>grid_req_in\<close>.\<close>

partial_function (option) req_in_loop ::
  "'w send_fn \<Rightarrow> 'w recv_fn \<Rightarrow> grid_req \<times> 'w \<Rightarrow> (grid_req \<times> 'w) option" where
  "req_in_loop psend precv sw = (case sw of (s, w) \<Rightarrow>
     Option.bind (grid_xreq_recv precv (tk_reply (rq_task s)) (rq_xreq s) w) (\<lambda>(r, buf, xr, w1).
       let s1 = set_reply buf (s\<lparr>rq_xreq := xr\<rparr>)
       in case r of
            Inl e \<Rightarrow> Some (s1, w1)
          | Inr _ \<Rightarrow>
              if \<not> grid_req_inprogress s1 then req_in_loop psend precv (set_reply None s1, w1)
              else Option.bind buf (\<lambda>m. Option.bind (reply_matches (tk_id (rq_task s1)) m) (\<lambda>ok.
                if \<not> ok then req_in_loop psend precv (set_reply None s1, w1)
                else let s2 = set_reply (Some (m\<lparr>sphdr := []\<rparr>)) s1
                     in if rq_state s2 = REQ_ACTIVE then req_feed psend REQ_IN (s2, w1) else Some (s2, w1)))))"

definition grid_req_in ::
  "'w send_fn \<Rightarrow> 'w recv_fn \<Rightarrow> nat \<Rightarrow> grid_req \<times> 'w \<Rightarrow> (grid_req \<times> 'w) option" where
  "grid_req_in psend precv p sw = do {
     xr \<leftarrow> grid_xreq_in (rq_xreq (fst sw)) p;
     req_in_loop psend precv ((fst sw)\<lparr>rq_xreq := xr\<rparr>, snd sw) }"

definition grid_req_out :: "'w send_fn \<Rightarrow> nat \<Rightarrow> grid_req \<times> 'w \<Rightarrow> (grid_req \<times> 'w) option" where
  "grid_req_out psend p sw = do {
     (xr, prio) \<leftarrow> grid_xreq_out (rq_xreq (fst sw)) p;
     let s1 = (fst sw)\<lparr>rq_xreq := xr\<rparr>;
     if rq_state s1 = REQ_DELAYED then req_feed psend REQ_OUT (s1, snd sw) else Some (s1, snd sw) }"

definition grid_req_rm :: "'w send_fn \<Rightarrow> nat \<Rightarrow> grid_req \<times> 'w \<Rightarrow> (grid_req \<times> 'w) option" where
  "grid_req_rm psend p sw = do {
     (xr, prio) \<leftarrow> grid_xreq_rm (rq_xreq (fst sw)) p;
     let s1 = (fst sw)\<lparr>rq_xreq := xr\<rparr>;
     if Some p = tk_sent_to (rq_task s1) then req_feed psend REQ_PIPE_RM (s1, snd sw) else Some (s1, snd sw) }"

definition grid_req_add :: "nat \<Rightarrow> int \<Rightarrow> int \<Rightarrow> grid_req \<Rightarrow> grid_req option" where
  "grid_req_add p sndprio rcvprio s =
     map_option (\<lambda>xr. s\<lparr>rq_xreq := xr\<rparr>) (grid_xreq_add (rq_xreq s) p sndprio rcvprio)"

definition grid_req_events :: "grid_req \<Rightarrow> u32" where
  "grid_req_events s = GRID_SOCKBASE_EVENT_OUT OR (if rq_state s = REQ_DONE then GRID_SOCKBASE_EVENT_IN else 0)"

definition id_header :: "u32 \<Rightarrow> bytes option" where
  "id_header tid = grid_putl (replicate 4 0) (tid OR REQ_TOP_BIT)"

definition grid_req_csend :: "'w send_fn \<Rightarrow> msg \<Rightarrow> grid_req \<times> 'w \<Rightarrow> (grid_req \<times> 'w) option" where
  "grid_req_csend psend m sw = do {
     let s1 = upd_task (\<lambda>k. k\<lparr>tk_id := tk_id k + 1\<rparr>) (fst sw);
     guard (sphdr m = []);
     h \<leftarrow> id_header (tk_id (rq_task s1));
     let s2 = upd_task (\<lambda>k. k\<lparr>tk_request := m\<lparr>sphdr := h\<rparr>\<rparr>) s1;
     req_feed psend REQ_SENT (s2, snd sw) }"

definition grid_req_crecv ::
  "'w send_fn \<Rightarrow> grid_req \<times> 'w \<Rightarrow> ((errno + msg) \<times> grid_req \<times> 'w) option" where
  "grid_req_crecv psend sw =
     (let s = fst sw
      in if \<not> grid_req_inprogress s then Some (Inl EFSM, sw)
         else if rq_state s \<noteq> REQ_DONE then Some (Inl EAGAIN, sw)
         else do {
           m \<leftarrow> tk_reply (rq_task s);
           sw1 \<leftarrow> req_feed psend REQ_RECEIVED (set_reply (Some no_msg) s, snd sw);
           Some (Inr m, sw1) })"

definition GRID_REQ_RESEND_IVL :: int where "GRID_REQ_RESEND_IVL = 1"

text \<open>Options: \<open>optval\<close> is the integer stored in an option value of \<open>optvallen\<close> bytes.\<close>

definition grid_req_setopt :: "int \<Rightarrow> int \<Rightarrow> int \<Rightarrow> nat \<Rightarrow> grid_req \<Rightarrow> (errno + grid_req)" where
  "grid_req_setopt level opt optval optvallen s =
     (if level \<noteq> GRID_REQ then Inl ENOPROTOOPT
      else if opt = GRID_REQ_RESEND_IVL then
        (if optvallen \<noteq> 4 then Inl EINVAL else Inr (s\<lparr>rq_resend_ivl := optval\<rparr>))
      else Inl ENOPROTOOPT)"

definition grid_req_getopt :: "int \<Rightarrow> int \<Rightarrow> nat \<Rightarrow> grid_req \<Rightarrow> (errno + int \<times> nat)" where
  "grid_req_getopt level opt optvallen s =
     (if level \<noteq> GRID_REQ then Inl ENOPROTOOPT
      else if opt = GRID_REQ_RESEND_IVL then
        (if optvallen < 4 then Inl EINVAL else Inr (rq_resend_ivl s, 4))
      else Inl ENOPROTOOPT)"

text \<open>The timer's steps, with the events it raises delivered to the socket.\<close>

fun feed_events :: "'w send_fn \<Rightarrow> timer_event list \<Rightarrow> grid_req \<times> 'w \<Rightarrow> (grid_req \<times> 'w) option" where
  "feed_events psend [] sw = Some sw"
| "feed_events psend (e # es) sw = Option.bind (req_feed psend (REQ_TIMER e) sw) (feed_events psend es)"

definition req_timer_step ::
  "(grid_timer \<Rightarrow> (timer_event list \<times> grid_timer) option) \<Rightarrow> 'w send_fn \<Rightarrow> grid_req \<times> 'w \<Rightarrow> (grid_req \<times> 'w) option" where
  "req_timer_step tstep psend sw = do {
     (es, t) \<leftarrow> tstep (tk_timer (rq_task (fst sw)));
     feed_events psend es (upd_task (\<lambda>k. k\<lparr>tk_timer := t\<rparr>) (fst sw), snd sw) }"

section \<open>Invariant\<close>

text \<open>What the timer is doing in each state of a running socket.\<close>

definition req_phase :: "req_state \<Rightarrow> timer_phase option" where
  "req_phase st = (case st of
       REQ_ACTIVE \<Rightarrow> Some PActive
     | REQ_TIMED_OUT \<Rightarrow> Some PStopping | REQ_CANCELLING \<Rightarrow> Some PStopping | REQ_STOPPING_TIMER \<Rightarrow> Some PStopping
     | REQ_PASSIVE \<Rightarrow> Some PIdle | REQ_DELAYED \<Rightarrow> Some PIdle | REQ_DONE \<Rightarrow> Some PIdle
     | REQ_IDLE \<Rightarrow> None | REQ_STOPPING \<Rightarrow> None)"

text \<open>
  The parts that do not depend on the state: the schedulers, the timer, the resend interval,
  and the request id in the header of the stored request while a request is in progress.
\<close>

definition req_base ::
  "(nat \<Rightarrow> 'w \<Rightarrow> bool) \<Rightarrow> (nat \<Rightarrow> 'w \<Rightarrow> bool) \<Rightarrow> grid_req \<Rightarrow> 'w \<Rightarrow> bool" where
  "req_base can_in can_out s w \<longleftrightarrow> xreq_ok can_in can_out (rq_xreq s) w \<and> timer_inv (tk_timer (rq_task s))
     \<and> fs_state (rq_fsm s) = FSM_ACTIVE \<and> 0 \<le> rq_resend_ivl s"

definition req_inv ::
  "(nat \<Rightarrow> 'w \<Rightarrow> bool) \<Rightarrow> (nat \<Rightarrow> 'w \<Rightarrow> bool) \<Rightarrow> grid_req \<Rightarrow> 'w \<Rightarrow> bool" where
  "req_inv can_in can_out s w \<longleftrightarrow> req_base can_in can_out s w
     \<and> req_phase (rq_state s) = Some (timer_phase (tk_timer (rq_task s)))
     \<and> (rq_state s = REQ_ACTIVE \<longrightarrow> (\<exists>p \<in> xq_pipes (rq_xreq s). tk_sent_to (rq_task s) = Some p))
     \<and> (rq_state s \<noteq> REQ_ACTIVE \<longrightarrow> tk_sent_to (rq_task s) = None)
     \<and> (rq_state s = REQ_DELAYED \<longrightarrow> xq_writable (rq_xreq s) = {})
     \<and> (grid_req_inprogress s \<longrightarrow> id_header (tk_id (rq_task s)) = Some (sphdr (tk_request (rq_task s))))"

text \<open>What sending a request over the sockets' pipes leads to.\<close>

definition sent_result :: "'w send_fn \<Rightarrow> grid_xreq \<Rightarrow> msg \<Rightarrow> 'w \<Rightarrow> grid_req \<Rightarrow> 'w \<Rightarrow> bool" where
  "sent_result psend x m w s' w' \<longleftrightarrow>
     (if xq_writable x = {} then rq_state s' = REQ_DELAYED \<and> w' = w
      else rq_state s' = REQ_ACTIVE \<and> (\<exists>p \<in> xq_writable x. tk_sent_to (rq_task s') = Some p
             \<and> (\<exists>rc. psend p m w = Some (rc, w'))))"

lemma sent_result_states: "sent_result psend x m w s' w' \<Longrightarrow> rq_state s' = REQ_DELAYED \<or> rq_state s' = REQ_ACTIVE"
  by (auto simp: sent_result_def split: if_splits)

lemma upd_task_simps [simp]:
  "rq_task (upd_task f s) = f (rq_task s)" "rq_xreq (upd_task f s) = rq_xreq s" "rq_fsm (upd_task f s) = rq_fsm s"
  "rq_state (upd_task f s) = rq_state s" "rq_resend_ivl (upd_task f s) = rq_resend_ivl s"
  "rq_stopped (upd_task f s) = rq_stopped s" "rq_lastid (upd_task f s) = rq_lastid s"
  by (simp_all add: upd_task_def)

lemma id_header_Some: "\<exists>h. id_header i = Some h \<and> length h = 4 \<and> grid_getl h = Some (i OR REQ_TOP_BIT)"
proof -
  obtain h where h: "id_header i = Some h"
    using grid_putl_defined [of "replicate 4 0"] by (auto simp: id_header_def)
  then have "length h = 4" using grid_putl_frame by (fastforce simp: id_header_def)
  with h show ?thesis using grid_getl_putl by (auto simp: id_header_def)
qed

lemma writable_registered: "xreq_ok can_in can_out s w \<Longrightarrow> xq_writable s \<subseteq> xq_pipes s"
  by (auto simp: xreq_ok_def lb_ok_def xq_writable_def xq_pipes_def dest: active_registered)

lemma readable_registered: "xreq_ok can_in can_out s w \<Longrightarrow> xq_readable s \<subseteq> xq_pipes s"
  by (auto simp: xreq_ok_def fq_ok_def xq_readable_def xq_pipes_def dest: active_registered)

lemma inprogress_states: "grid_req_inprogress s \<longleftrightarrow> rq_state s \<notin> {REQ_IDLE, REQ_PASSIVE, REQ_STOPPING}"
  by (simp add: grid_req_inprogress_def)

lemma req_feed_running: "fs_state (rq_fsm s) = FSM_ACTIVE \<Longrightarrow> req_feed psend e (s, w) = grid_req_handler psend e (s, w)"
  by (simp add: req_feed_def grid_fsm_feed_def)

lemma feed_events_nil [simp]: "feed_events psend [] = Some"
  by (rule ext) simp

context pipe_world
begin

text \<open>
  Sending the stored request with the timer idle: it goes to a writable pipe and the timer runs,
  or, where that is allowed, it waits for one.
\<close>

lemma req_send_ok:
  assumes w: "winv w" and b: "req_base can_in can_out s w" and ph: "timer_phase (tk_timer (rq_task s)) = PIdle"
    and d: "allow \<or> xq_writable (rq_xreq s) \<noteq> {}" and st: "tk_sent_to (rq_task s) = None"
    and h: "id_header (tk_id (rq_task s)) = Some (sphdr (tk_request (rq_task s)))"
  shows "\<exists>s' w'. grid_req_action_send psend allow (s, w) = Some (s', w') \<and> winv w' \<and> req_inv can_in can_out s' w'
    \<and> tk_id (rq_task s') = tk_id (rq_task s) \<and> tk_request (rq_task s') = tk_request (rq_task s)
    \<and> tk_reply (rq_task s') = tk_reply (rq_task s) \<and> xq_pipes (rq_xreq s') = xq_pipes (rq_xreq s)
    \<and> xq_fq (rq_xreq s') = xq_fq (rq_xreq s)
    \<and> sent_result psend (rq_xreq s) (tk_request (rq_task s)) w s' w'"
proof -
  have x: "xreq_ok can_in can_out (rq_xreq s) w" using b by (simp add: req_base_def)
  from xreq_send_to_ok [OF w x, of "tk_request (rq_task s)"] obtain r x' w' where
    r: "grid_xreq_send_to psend (tk_request (rq_task s)) (rq_xreq s) w = Some (r, x', w')" "winv w'"
    "xreq_ok can_in can_out x' w'" "xq_pipes x' = xq_pipes (rq_xreq s)"
    "xq_writable x' \<subseteq> xq_writable (rq_xreq s)" "xq_fq x' = xq_fq (rq_xreq s)"
    and c: "case r of Inl e \<Rightarrow> e = EAGAIN \<and> xq_writable (rq_xreq s) = {} \<and> x' = rq_xreq s \<and> w' = w
       | Inr p \<Rightarrow> p \<in> xq_writable (rq_xreq s) \<and> (\<exists>rc. psend p (tk_request (rq_task s)) w = Some (rc, w'))" by blast
  show ?thesis
  proof (cases r)
    case (Inl e)
    with c have e: "e = EAGAIN" "xq_writable (rq_xreq s) = {}" "x' = rq_xreq s" "w' = w" by auto
    let ?s = "s\<lparr>rq_xreq := x', rq_state := REQ_DELAYED\<rparr>"
    have "grid_req_action_send psend allow (s, w) = Some (?s, w')"
      using r(1) Inl e d by (simp add: grid_req_action_send_def)
    moreover have "req_inv can_in can_out ?s w'"
      using b x e ph st h by (simp add: req_inv_def req_base_def req_phase_def)
    ultimately show ?thesis using r(2) e by (simp add: sent_result_def)
  next
    case (Inr p)
    with c have p: "p \<in> xq_writable (rq_xreq s)" "\<exists>rc. psend p (tk_request (rq_task s)) w = Some (rc, w')" by auto
    have "timer_inv (tk_timer (rq_task s))" "0 \<le> rq_resend_ivl s" using b by (simp_all add: req_base_def)
    then obtain t where t: "grid_timer_start (rq_resend_ivl s) (tk_timer (rq_task s)) = Some t" "timer_inv t"
      "timer_phase t = PActive" using task_timer.start_ok ph by blast
    let ?s = "(upd_task (\<lambda>k. k\<lparr>tk_timer := t, tk_sent_to := Some p\<rparr>) (s\<lparr>rq_xreq := x'\<rparr>))\<lparr>rq_state := REQ_ACTIVE\<rparr>"
    have e: "grid_req_action_send psend allow (s, w) = Some (?s, w')"
      using r(1) Inr t(1) by (simp add: grid_req_action_send_def)
    have "p \<in> xq_pipes x'" using p(1) writable_registered [OF x] r(4) by auto
    then have "req_inv can_in can_out ?s w'"
      using b r(3) t h by (simp add: req_inv_def req_base_def req_phase_def)
    with e r(2,4,6) p show ?thesis by (auto simp: sent_result_def)
  qed
qed

lemma req_stop_timer_ok:
  assumes i: "req_inv can_in can_out s w" and a: "rq_state s = REQ_ACTIVE"
    and st: "st \<in> {REQ_STOPPING_TIMER, REQ_CANCELLING, REQ_TIMED_OUT}"
    and h: "id_header (tk_id (rq_task s)) = Some (sphdr (tk_request (rq_task s)))"
  shows "\<exists>s'. stop_timer_goto st (s, w) = Some (s', w) \<and> req_inv can_in can_out s' w \<and> rq_state s' = st
    \<and> tk_id (rq_task s') = tk_id (rq_task s) \<and> tk_request (rq_task s') = tk_request (rq_task s)
    \<and> tk_reply (rq_task s') = tk_reply (rq_task s) \<and> rq_xreq s' = rq_xreq s"
proof -
  have t: "timer_inv (tk_timer (rq_task s))" "timer_phase (tk_timer (rq_task s)) = PActive"
    using i a by (simp_all add: req_inv_def req_base_def req_phase_def)
  then obtain t' where t': "grid_timer_stop (tk_timer (rq_task s)) = Some t'" "timer_inv t'" "timer_phase t' = PStopping"
    using task_timer.stop_ok [OF t(1)] by auto
  let ?s = "(upd_task (\<lambda>k. k\<lparr>tk_sent_to := None\<rparr>) (upd_task (\<lambda>k. k\<lparr>tk_timer := t'\<rparr>) s))\<lparr>rq_state := st\<rparr>"
  have "stop_timer_goto st (s, w) = Some (?s, w)" using t'(1) by (simp add: stop_timer_goto_def stop_timer_def)
  moreover have "req_inv can_in can_out ?s w"
    using i st t' h by (auto simp: req_inv_def req_base_def req_phase_def)
  ultimately show ?thesis by simp
qed

text \<open>A change of state alone, between states in which the timer does the same.\<close>

lemma req_goto_ok:
  assumes "req_inv can_in can_out s w" and "req_phase st = req_phase (rq_state s)"
    and "st \<noteq> REQ_ACTIVE" and "st \<noteq> REQ_DELAYED" and "rq_state s \<noteq> REQ_ACTIVE"
    and "st \<noteq> REQ_PASSIVE \<longrightarrow> id_header (tk_id (rq_task s)) = Some (sphdr (tk_request (rq_task s)))"
  shows "req_inv can_in can_out (s\<lparr>rq_state := st\<rparr>) w"
  using assms by (auto simp: req_inv_def req_base_def inprogress_states)

section \<open>The operations never abort and keep the invariant\<close>

text \<open>A new request in any state: sent, waiting for a pipe, or waiting for the timer to stop.\<close>

lemma req_sent_ok:
  assumes w: "winv w" and i: "req_inv can_in can_out s w"
    and h: "id_header (tk_id (rq_task s)) = Some (sphdr (tk_request (rq_task s)))"
  shows "\<exists>s' w'. req_feed psend REQ_SENT (s, w) = Some (s', w') \<and> winv w' \<and> req_inv can_in can_out s' w'
    \<and> rq_state s' \<in> {REQ_ACTIVE, REQ_DELAYED, REQ_CANCELLING}
    \<and> tk_id (rq_task s') = tk_id (rq_task s) \<and> tk_request (rq_task s') = tk_request (rq_task s)
    \<and> xq_pipes (rq_xreq s') = xq_pipes (rq_xreq s) \<and> xq_fq (rq_xreq s') = xq_fq (rq_xreq s)
    \<and> (rq_state s = REQ_PASSIVE \<or> rq_state s = REQ_DONE \<longrightarrow>
         sent_result psend (rq_xreq s) (tk_request (rq_task s)) w s' w')"
proof -
  have b: "req_base can_in can_out s w" and f: "fs_state (rq_fsm s) = FSM_ACTIVE"
    and ph: "req_phase (rq_state s) = Some (timer_phase (tk_timer (rq_task s)))"
    and sn: "rq_state s \<noteq> REQ_ACTIVE \<longrightarrow> tk_sent_to (rq_task s) = None"
    using i by (simp_all add: req_inv_def req_base_def)
  note feed = req_feed_running [OF f, of psend REQ_SENT w] grid_req_handler_def [of psend REQ_SENT "(s, w)"]
  consider "rq_state s = REQ_PASSIVE \<or> rq_state s = REQ_DONE" | "rq_state s = REQ_ACTIVE"
    | "rq_state s = REQ_TIMED_OUT \<or> rq_state s = REQ_STOPPING_TIMER"
    | "rq_state s = REQ_DELAYED \<or> rq_state s = REQ_CANCELLING"
    using ph by (cases "rq_state s") (auto simp: req_phase_def)
  then show ?thesis
  proof cases
    case 1
    have "timer_phase (tk_timer (rq_task s)) = PIdle" "tk_sent_to (rq_task s) = None"
      using 1 ph sn by (auto simp: req_phase_def)
    from req_send_ok [OF w b this(1) _ this(2) h, of True] 1 show ?thesis
      by (auto simp: feed dest: sent_result_states)
  next
    case 2
    from req_stop_timer_ok [OF i 2 _ h, of REQ_CANCELLING] 2 w show ?thesis by (auto simp: feed)
  next
    case 3
    have "req_inv can_in can_out (s\<lparr>rq_state := REQ_CANCELLING\<rparr>) w"
      by (rule req_goto_ok [OF i]) (use 3 h in \<open>auto simp: req_phase_def\<close>)
    with 3 w show ?thesis by (auto simp: feed goto_def)
  next
    case 4
    with w i show ?thesis by (auto simp: feed)
  qed
qed

lemma req_csend_ok:
  assumes w: "winv w" and i: "req_inv can_in can_out s w" and m: "sphdr m = []"
  shows "\<exists>s' w' h. grid_req_csend psend m (s, w) = Some (s', w') \<and> winv w' \<and> req_inv can_in can_out s' w'
    \<and> rq_state s' \<in> {REQ_ACTIVE, REQ_DELAYED, REQ_CANCELLING}
    \<and> tk_id (rq_task s') = tk_id (rq_task s) + 1 \<and> id_header (tk_id (rq_task s) + 1) = Some h
    \<and> tk_request (rq_task s') = m\<lparr>sphdr := h\<rparr> \<and> xq_pipes (rq_xreq s') = xq_pipes (rq_xreq s)
    \<and> xq_fq (rq_xreq s') = xq_fq (rq_xreq s)
    \<and> (rq_state s = REQ_PASSIVE \<or> rq_state s = REQ_DONE \<longrightarrow>
         sent_result psend (rq_xreq s) (m\<lparr>sphdr := h\<rparr>) w s' w')"
proof -
  obtain h where h: "id_header (tk_id (rq_task s) + 1) = Some h" using id_header_Some by blast
  let ?s = "upd_task (\<lambda>k. k\<lparr>tk_request := m\<lparr>sphdr := h\<rparr>\<rparr>) (upd_task (\<lambda>k. k\<lparr>tk_id := tk_id k + 1\<rparr>) s)"
  have i': "req_inv can_in can_out ?s w" using i h by (simp add: req_inv_def req_base_def)
  have r: "grid_req_csend psend m (s, w) = req_feed psend REQ_SENT (?s, w)"
    using h m by (simp add: grid_req_csend_def)
  have h': "id_header (tk_id (rq_task ?s)) = Some (sphdr (tk_request (rq_task ?s)))" using h by simp
  from req_sent_ok [OF w i' h'] show ?thesis unfolding r using h by simp
qed

text \<open>A pipe became writable: a request that was waiting is sent.\<close>

lemma req_out_ok:
  assumes w: "winv w" and i: "req_inv can_in can_out s w"
    and p: "p \<in> xq_pipes (rq_xreq s)" "p \<notin> xq_writable (rq_xreq s)" "can_out p w"
  shows "\<exists>s' w'. grid_req_out psend p (s, w) = Some (s', w') \<and> winv w' \<and> req_inv can_in can_out s' w'
    \<and> rq_state s' = (if rq_state s = REQ_DELAYED then REQ_ACTIVE else rq_state s)
    \<and> (rq_state s = REQ_DELAYED \<longrightarrow> tk_sent_to (rq_task s') = Some p
         \<and> (\<exists>rc. psend p (tk_request (rq_task s)) w = Some (rc, w')))
    \<and> tk_id (rq_task s') = tk_id (rq_task s) \<and> tk_request (rq_task s') = tk_request (rq_task s)"
proof -
  have x: "xreq_ok can_in can_out (rq_xreq s) w" using i by (simp add: req_inv_def req_base_def)
  from xreq_out_ok [OF x p] obtain x' pr where x': "grid_xreq_out (rq_xreq s) p = Some (x', pr)"
    "xreq_ok can_in can_out x' w" "xq_pipes x' = xq_pipes (rq_xreq s)"
    "xq_writable x' = insert p (xq_writable (rq_xreq s))" by blast
  let ?s = "s\<lparr>rq_xreq := x'\<rparr>"
  show ?thesis
  proof (cases "rq_state s = REQ_DELAYED")
    case False
    then have "req_inv can_in can_out ?s w"
      using i x' by (auto simp: req_inv_def req_base_def inprogress_states)
    with False x'(1) w show ?thesis by (simp add: grid_req_out_def)
  next
    case True
    have b: "req_base can_in can_out ?s w" and f: "fs_state (rq_fsm ?s) = FSM_ACTIVE"
      and ph: "timer_phase (tk_timer (rq_task ?s)) = PIdle" and sn: "tk_sent_to (rq_task ?s) = None"
      and h: "id_header (tk_id (rq_task ?s)) = Some (sphdr (tk_request (rq_task ?s)))"
      and em: "xq_writable (rq_xreq s) = {}"
      using i True x' by (simp_all add: req_inv_def req_base_def req_phase_def inprogress_states)
    have ne: "False \<or> xq_writable (rq_xreq ?s) \<noteq> {}" using x'(4) by simp
    from req_send_ok [OF w b ph ne sn h] x'(4) em obtain s' w' where
      "grid_req_action_send psend False (?s, w) = Some (s', w')" "winv w'" "req_inv can_in can_out s' w'"
      "tk_id (rq_task s') = tk_id (rq_task s)" "tk_request (rq_task s') = tk_request (rq_task s)"
      "rq_state s' = REQ_ACTIVE" "tk_sent_to (rq_task s') = Some p"
      "\<exists>rc. psend p (tk_request (rq_task s)) w = Some (rc, w')" by (auto simp: sent_result_def)
    with True x'(1) req_feed_running [OF f, of psend REQ_OUT w] show ?thesis
      by (simp add: grid_req_out_def grid_req_handler_def)
  qed
qed

text \<open>The pipe of the replier goes away: the request will be sent again.\<close>

lemma req_rm_ok:
  assumes w: "winv w" and i: "req_inv can_in can_out s w"
  shows "\<exists>s'. grid_req_rm psend p (s, w) = Some (s', w) \<and> req_inv can_in can_out s' w
    \<and> rq_state s' = (if tk_sent_to (rq_task s) = Some p then REQ_TIMED_OUT else rq_state s)
    \<and> xq_pipes (rq_xreq s') = xq_pipes (rq_xreq s) - {p}
    \<and> tk_id (rq_task s') = tk_id (rq_task s) \<and> tk_request (rq_task s') = tk_request (rq_task s)"
proof -
  have x: "xreq_ok can_in can_out (rq_xreq s) w" and f: "fs_state (rq_fsm s) = FSM_ACTIVE"
    using i by (simp_all add: req_inv_def req_base_def)
  from xreq_rm_ok [OF x, of p] obtain x' pr where x': "grid_xreq_rm (rq_xreq s) p = Some (x', pr)"
    "xreq_ok can_in can_out x' w" "xq_pipes x' = xq_pipes (rq_xreq s) - {p}"
    "xq_writable x' = xq_writable (rq_xreq s) - {p}" by blast
  let ?s = "s\<lparr>rq_xreq := x'\<rparr>"
  show ?thesis
  proof (cases "tk_sent_to (rq_task s) = Some p")
    case False
    then have "req_inv can_in can_out ?s w"
      using i x' by (auto simp: req_inv_def req_base_def inprogress_states)
    with False x'(1,3) show ?thesis by (auto simp: grid_req_rm_def)
  next
    case True
    have a: "rq_state s = REQ_ACTIVE" using i True by (auto simp: req_inv_def)
    have t: "timer_inv (tk_timer (rq_task s))" "timer_phase (tk_timer (rq_task s)) = PActive"
      using i a by (simp_all add: req_inv_def req_base_def req_phase_def)
    then obtain t' where t': "grid_timer_stop (tk_timer (rq_task s)) = Some t'" "timer_inv t'" "timer_phase t' = PStopping"
      using task_timer.stop_ok [OF t(1)] by auto
    let ?s' = "(upd_task (\<lambda>k. k\<lparr>tk_sent_to := None\<rparr>) (upd_task (\<lambda>k. k\<lparr>tk_timer := t'\<rparr>) ?s))\<lparr>rq_state := REQ_TIMED_OUT\<rparr>"
    have "grid_req_rm psend p (s, w) = Some (?s', w)"
      using True x'(1) a f t'(1)
      by (simp add: grid_req_rm_def req_feed_def grid_fsm_feed_def grid_req_handler_def stop_timer_goto_def stop_timer_def)
    moreover have "req_inv can_in can_out ?s' w"
      using i x'(2) t' a by (simp add: req_inv_def req_base_def req_phase_def inprogress_states)
    ultimately show ?thesis using True x'(3) by simp
  qed
qed

text \<open>The timer: a timeout or the end of stopping it leads to the request being sent again.\<close>

lemma req_timer_ok:
  assumes w: "winv w" and i: "req_inv can_in can_out s w"
    and ts: "timer_service timer_inv timer_phase grid_timer_start grid_timer_stop tstep"
  shows "\<exists>s' w'. req_timer_step tstep psend (s, w) = Some (s', w') \<and> winv w' \<and> req_inv can_in can_out s' w'
    \<and> tk_id (rq_task s') = tk_id (rq_task s) \<and> tk_request (rq_task s') = tk_request (rq_task s)
    \<and> grid_req_inprogress s' = grid_req_inprogress s"
proof -
  have b: "req_base can_in can_out s w" and f: "fs_state (rq_fsm s) = FSM_ACTIVE" and ti: "timer_inv (tk_timer (rq_task s))"
    and ph: "req_phase (rq_state s) = Some (timer_phase (tk_timer (rq_task s)))"
    and sn: "rq_state s \<noteq> REQ_ACTIVE \<longrightarrow> tk_sent_to (rq_task s) = None"
    and h: "grid_req_inprogress s \<longrightarrow> id_header (tk_id (rq_task s)) = Some (sphdr (tk_request (rq_task s)))"
    using i by (simp_all add: req_inv_def req_base_def)
  from timer_service.step_ok [OF ts ti] obtain es t where t: "tstep (tk_timer (rq_task s)) = Some (es, t)" "timer_inv t"
    and c: "es = [] \<and> timer_phase t = timer_phase (tk_timer (rq_task s))
       \<or> es = [GRID_TIMER_TIMEOUT] \<and> timer_phase (tk_timer (rq_task s)) = PActive \<and> timer_phase t = PActive
       \<or> es = [GRID_TIMER_STOPPED] \<and> timer_phase (tk_timer (rq_task s)) = PStopping \<and> timer_phase t = PIdle" by blast
  let ?s = "upd_task (\<lambda>k. k\<lparr>tk_timer := t\<rparr>) s"
  have step: "req_timer_step tstep psend (s, w) = feed_events psend es (?s, w)"
    using t(1) by (simp add: req_timer_step_def)
  have fe: "feed_events psend [e] (?s, w) = grid_req_handler psend (REQ_TIMER e) (?s, w)" for e
    using f by (simp add: req_feed_def grid_fsm_feed_def)
  have b': "req_base can_in can_out ?s w" using b t(2) by (simp add: req_base_def)
  have ip: "grid_req_inprogress ?s = grid_req_inprogress s" by (simp add: inprogress_states)
  from c show ?thesis
  proof (elim disjE conjE)
    assume "es = []" "timer_phase t = timer_phase (tk_timer (rq_task s))"
    then show ?thesis using step w i b' ip by (auto simp: req_inv_def)
  next
    assume e: "es = [GRID_TIMER_TIMEOUT]" "timer_phase (tk_timer (rq_task s)) = PActive" "timer_phase t = PActive"
    then have a: "rq_state s = REQ_ACTIVE" using ph by (cases "rq_state s") (auto simp: req_phase_def)
    have i': "req_inv can_in can_out ?s w" using i e b' ip by (simp add: req_inv_def)
    from req_stop_timer_ok [OF i', of REQ_TIMED_OUT] a h step e fe w show ?thesis
      by (auto simp: grid_req_handler_def inprogress_states)
  next
    assume e: "es = [GRID_TIMER_STOPPED]" "timer_phase (tk_timer (rq_task s)) = PStopping" "timer_phase t = PIdle"
    consider "rq_state s = REQ_TIMED_OUT \<or> rq_state s = REQ_CANCELLING" | "rq_state s = REQ_STOPPING_TIMER"
      using ph e(2) by (cases "rq_state s") (auto simp: req_phase_def)
    then show ?thesis
    proof cases
      case 1
      have "tk_sent_to (rq_task ?s) = None" "timer_phase (tk_timer (rq_task ?s)) = PIdle"
        "id_header (tk_id (rq_task ?s)) = Some (sphdr (tk_request (rq_task ?s)))"
        using 1 sn e(3) h by (auto simp: inprogress_states)
      from req_send_ok [OF w b' this(2) _ this(1,3), of True] 1 step e fe show ?thesis
        by (auto simp: grid_req_handler_def inprogress_states dest!: sent_result_states)
    next
      case 2
      let ?s' = "?s\<lparr>rq_state := REQ_DONE\<rparr>"
      have "req_inv can_in can_out ?s' w"
        using 2 b' e(3) sn h by (auto simp: req_inv_def req_base_def req_phase_def inprogress_states)
      with 2 step e fe w show ?thesis by (auto simp: grid_req_handler_def goto_def inprogress_states)
    qed
  qed
qed

end

lemma reply_matches_Some: "\<exists>b. reply_matches i m = Some b"
proof (cases "length (sphdr m) = 4")
  case True
  then show ?thesis using grid_getl_defined [of "sphdr m"] by (auto simp: reply_matches_def)
qed (simp add: reply_matches_def, blast)

lemma set_reply_simps [simp]:
  "rq_xreq (set_reply r s) = rq_xreq s" "rq_state (set_reply r s) = rq_state s" "rq_fsm (set_reply r s) = rq_fsm s"
  "tk_id (rq_task (set_reply r s)) = tk_id (rq_task s)" "tk_request (rq_task (set_reply r s)) = tk_request (rq_task s)"
  "tk_timer (rq_task (set_reply r s)) = tk_timer (rq_task s)" "tk_sent_to (rq_task (set_reply r s)) = tk_sent_to (rq_task s)"
  "tk_reply (rq_task (set_reply r s)) = r" "rq_resend_ivl (set_reply r s) = rq_resend_ivl s"
  by (simp_all add: set_reply_def)

lemma set_reply_inv [simp]: "req_inv can_in can_out (set_reply r s) w = req_inv can_in can_out s w"
  by (simp add: req_inv_def req_base_def grid_req_inprogress_def)

lemma readable_finite: "finite (xq_readable s)"
  by (simp add: xq_readable_def pl_active_def)

text \<open>What a call of \<open>grid_req_in\<close> may do: leave the state alone, or accept a reply.\<close>

definition req_in_result :: "grid_req \<Rightarrow> grid_req \<Rightarrow> bool" where
  "req_in_result s s' \<longleftrightarrow> tk_id (rq_task s') = tk_id (rq_task s) \<and> tk_request (rq_task s') = tk_request (rq_task s)
     \<and> (if rq_state s = REQ_ACTIVE
        then rq_state s' = REQ_ACTIVE \<or> rq_state s' = REQ_STOPPING_TIMER
               \<and> (\<exists>m. reply_matches (tk_id (rq_task s)) m = Some True \<and> tk_reply (rq_task s') = Some (m\<lparr>sphdr := []\<rparr>))
        else rq_state s' = rq_state s)"

context finite_pipes
begin

lemma req_in_loop_ok:
  assumes "winv w" and "req_inv can_in can_out s w"
  shows "\<exists>s' w'. req_in_loop psend precv (s, w) = Some (s', w') \<and> winv w' \<and> req_inv can_in can_out s' w'
    \<and> req_in_result s s'"
  using assms
proof (induction "\<Sum>p \<in> xq_readable (rq_xreq s). backlog p w" arbitrary: s w rule: less_induct)
  case less
  have x: "xreq_ok can_in can_out (rq_xreq s) w" and f: "fs_state (rq_fsm s) = FSM_ACTIVE"
    using less.prems(2) by (simp_all add: req_inv_def req_base_def)
  from xreq_recv_ok [OF less.prems(1) x, of "tk_reply (rq_task s)"] obtain r buf x' w' where
    r: "grid_xreq_recv precv (tk_reply (rq_task s)) (rq_xreq s) w = Some (r, buf, x', w')" "winv w'"
    "xreq_ok can_in can_out x' w'" "xq_pipes x' = xq_pipes (rq_xreq s)" "xq_readable x' \<subseteq> xq_readable (rq_xreq s)"
    "xq_lb x' = xq_lb (rq_xreq s)" "\<forall>q. can_out q w' = can_out q w"
    and e: "xq_readable (rq_xreq s) = {} \<longrightarrow> r = Inl EAGAIN \<and> buf = tk_reply (rq_task s) \<and> x' = rq_xreq s \<and> w' = w"
    and ne: "xq_readable (rq_xreq s) \<noteq> {} \<longrightarrow> (\<exists>p \<in> xq_readable (rq_xreq s). \<exists>rc m. precv p w = Some (rc, m, w')
         \<and> buf = split_reply (parsed rc) m \<and> r = (if buf = None then Inl EAGAIN else Inr ()))" by blast
  define s1 where "s1 = set_reply buf (s\<lparr>rq_xreq := x'\<rparr>)"
  have "xq_writable x' = xq_writable (rq_xreq s)" using r(6) by (simp add: xq_writable_def)
  then have i1: "req_inv can_in can_out s1 w'"
    using less.prems(2) r(3,4) by (simp add: s1_def req_inv_def req_base_def grid_req_inprogress_def)
  have s1: "rq_state s1 = rq_state s" "tk_id (rq_task s1) = tk_id (rq_task s)" "rq_fsm s1 = rq_fsm s"
    "tk_request (rq_task s1) = tk_request (rq_task s)" "rq_xreq s1 = x'" "tk_reply (rq_task s1) = buf"
    by (simp_all add: s1_def)
  have again: "\<exists>s' w''. req_in_loop psend precv (set_reply None s1, w') = Some (s', w'') \<and> winv w''
    \<and> req_inv can_in can_out s' w'' \<and> req_in_result s s'" if "r = Inr ()"
  proof -
    from that e ne obtain p rc m where p: "p \<in> xq_readable (rq_xreq s)" "precv p w = Some (rc, m, w')" by auto
    have "can_in p w" using x p(1) by (simp add: xreq_ok_def fq_ok_def xq_readable_def)
    from recv_backlog [OF less.prems(1) this p(2)] have b: "backlog p w' < backlog p w" "\<And>q. q \<noteq> p \<Longrightarrow> backlog q w' = backlog q w"
      by auto
    have "(\<Sum>q \<in> xq_readable x'. backlog q w') \<le> (\<Sum>q \<in> xq_readable (rq_xreq s). backlog q w')"
      by (rule sum_mono2 [OF readable_finite r(5)]) simp
    also have "\<dots> < (\<Sum>q \<in> xq_readable (rq_xreq s). backlog q w)"
    proof (rule sum_strict_mono_ex1 [OF readable_finite])
      show "\<forall>q \<in> xq_readable (rq_xreq s). backlog q w' \<le> backlog q w"
      proof
        fix q show "backlog q w' \<le> backlog q w" using b by (cases "q = p") auto
      qed
      show "\<exists>q \<in> xq_readable (rq_xreq s). backlog q w' < backlog q w" using p(1) b(1) by blast
    qed
    finally have lt: "(\<Sum>q \<in> xq_readable (rq_xreq (set_reply None s1)). backlog q w')
      < (\<Sum>q \<in> xq_readable (rq_xreq s). backlog q w)" by (simp add: s1)
    have i2: "req_inv can_in can_out (set_reply None s1) w'" using i1 by simp
    have "req_in_result (set_reply None s1) t = req_in_result s t" for t by (simp add: req_in_result_def s1)
    then show ?thesis using less.hyps [OF lt r(2) i2] by simp
  qed
  note loop = req_in_loop.simps [of psend precv "(s, w)"]
  show ?case
  proof (cases r)
    case (Inl er)
    then have "req_in_loop psend precv (s, w) = Some (s1, w')" using r(1) by (simp add: loop s1_def)
    then show ?thesis using r(2) i1 by (simp add: req_in_result_def s1)
  next
    case (Inr u)
    then have ri: "r = Inr ()" by simp
    then obtain m where m: "buf = Some m" using e ne by (auto split: if_splits)
    obtain ok where ok: "reply_matches (tk_id (rq_task s1)) m = Some ok" using reply_matches_Some by blast
    show ?thesis
    proof (cases "grid_req_inprogress s1 \<and> ok")
      case False
      then have "req_in_loop psend precv (s, w) = req_in_loop psend precv (set_reply None s1, w')"
        using r(1) ri m ok by (auto simp: loop s1_def Let_def)
      then show ?thesis using again [OF ri] by simp
    next
      case True
      define s2 where "s2 = set_reply (Some (m\<lparr>sphdr := []\<rparr>)) s1"
      have i2: "req_inv can_in can_out s2 w'" using i1 by (simp add: s2_def)
      have l2: "req_in_loop psend precv (s, w) =
          (if rq_state s2 = REQ_ACTIVE then req_feed psend REQ_IN (s2, w') else Some (s2, w'))"
        using r(1) ri m ok True by (simp add: loop s1_def s2_def Let_def)
      show ?thesis
      proof (cases "rq_state s2 = REQ_ACTIVE")
        case False
        then show ?thesis using l2 r(2) i2 by (simp add: req_in_result_def s2_def s1)
      next
        case act: True
        have h: "id_header (tk_id (rq_task s2)) = Some (sphdr (tk_request (rq_task s2)))"
          using i2 act by (simp add: req_inv_def inprogress_states)
        have fd: "req_feed psend REQ_IN (s2, w') = stop_timer_goto REQ_STOPPING_TIMER (s2, w')"
          using act f s1(3) by (simp add: req_feed_running s2_def grid_req_handler_def)
        from req_stop_timer_ok [OF i2 act _ h, of REQ_STOPPING_TIMER] obtain s' where
          s': "stop_timer_goto REQ_STOPPING_TIMER (s2, w') = Some (s', w')" "req_inv can_in can_out s' w'"
          "rq_state s' = REQ_STOPPING_TIMER" "tk_id (rq_task s') = tk_id (rq_task s2)"
          "tk_request (rq_task s') = tk_request (rq_task s2)" "tk_reply (rq_task s') = tk_reply (rq_task s2)" by auto
        have "req_in_result s s'"
          using s' act ok True by (auto simp: req_in_result_def s2_def s1)
        with l2 act fd s'(1,2) r(2) show ?thesis by simp
      qed
    qed
  qed
qed

lemma req_in_ok:
  assumes w: "winv w" and i: "req_inv can_in can_out s w"
    and p: "p \<in> xq_pipes (rq_xreq s)" "p \<notin> xq_readable (rq_xreq s)" "can_in p w"
  shows "\<exists>s' w'. grid_req_in psend precv p (s, w) = Some (s', w') \<and> winv w' \<and> req_inv can_in can_out s' w'
    \<and> req_in_result s s'"
proof -
  have x: "xreq_ok can_in can_out (rq_xreq s) w" using i by (simp add: req_inv_def req_base_def)
  from xreq_in_ok [OF x p] obtain x' where x': "grid_xreq_in (rq_xreq s) p = Some x'" "xreq_ok can_in can_out x' w"
    "xq_pipes x' = xq_pipes (rq_xreq s)" "xq_lb x' = xq_lb (rq_xreq s)" by blast
  have i': "req_inv can_in can_out (s\<lparr>rq_xreq := x'\<rparr>) w"
    using i x'(2-4) by (simp add: req_inv_def req_base_def grid_req_inprogress_def xq_writable_def)
  have "req_in_result (s\<lparr>rq_xreq := x'\<rparr>) t = req_in_result s t" for t by (simp add: req_in_result_def)
  with req_in_loop_ok [OF w i'] x'(1) show ?thesis by (simp add: grid_req_in_def)
qed

end

lemma req_init_inv:
  "\<exists>s. grid_req_init psend random w = Some (s, w) \<and> req_inv can_in can_out s w \<and> rq_state s = REQ_PASSIVE
     \<and> xq_pipes (rq_xreq s) = {} \<and> tk_id (rq_task s) = random"
proof -
  define s where "s = \<lparr>rq_xreq = grid_xreq_init, rq_fsm = \<lparr>fs_state = FSM_ACTIVE, fs_stopped = False\<rparr>, rq_state = REQ_PASSIVE,
    rq_lastid = random, rq_resend_ivl = GRID_REQ_DEFAULT_RESEND_IVL,
    rq_task = \<lparr>tk_id = random, tk_request = no_msg, tk_reply = Some no_msg, tk_timer = grid_timer_init, tk_sent_to = None\<rparr>,
    rq_stopped = False\<rparr>"
  have "grid_req_init psend random w = Some (s, w)"
    by (simp add: grid_req_init_def Let_def grid_fsm_start_def grid_fsm_isidle_def grid_fsm_init_def grid_req_handler_def
        goto_def grid_task_init_def s_def)
  moreover have "req_inv can_in can_out s w" "xq_pipes (rq_xreq s) = {}"
    using xreq_init_ok [of can_in can_out w] timer_init_inv
    by (simp_all add: s_def xq_pipes_def grid_xreq_init_def grid_lb_init_def grid_priolist_init_def req_inv_def req_base_def req_phase_def inprogress_states GRID_REQ_DEFAULT_RESEND_IVL_def)
  ultimately show ?thesis by (auto simp: s_def)
qed

lemma req_crecv_ok:
  assumes i: "req_inv can_in can_out s w" and d: "rq_state s = REQ_DONE" and r: "tk_reply (rq_task s) = Some m"
  shows "\<exists>s'. grid_req_crecv psend (s, w) = Some (Inr m, s', w) \<and> req_inv can_in can_out s' w \<and> rq_state s' = REQ_PASSIVE"
proof -
  define s1 where "s1 = set_reply (Some no_msg) s"
  have f: "fs_state (rq_fsm s1) = FSM_ACTIVE" using i by (simp add: req_inv_def req_base_def s1_def)
  have "grid_req_crecv psend (s, w) = Some (Inr m, s1\<lparr>rq_state := REQ_PASSIVE\<rparr>, w)"
    using d r req_feed_running [OF f, of psend REQ_RECEIVED w]
    by (simp add: grid_req_crecv_def inprogress_states s1_def grid_req_handler_def goto_def)
  moreover have "req_inv can_in can_out (s1\<lparr>rq_state := REQ_PASSIVE\<rparr>) w"
    using i d by (simp add: req_inv_def req_base_def req_phase_def inprogress_states s1_def)
  ultimately show ?thesis by simp
qed

lemma req_add_ok:
  assumes i: "req_inv can_in can_out s w" and p: "p \<notin> xq_pipes (rq_xreq s)" "1 \<le> sp" "sp \<le> 16" "1 \<le> rp" "rp \<le> 16"
  shows "\<exists>s'. grid_req_add p sp rp s = Some s' \<and> req_inv can_in can_out s' w \<and> rq_state s' = rq_state s
    \<and> rq_task s' = rq_task s"
proof -
  have x: "xreq_ok can_in can_out (rq_xreq s) w" using i by (simp add: req_inv_def req_base_def)
  from xreq_add_ok [OF x p] obtain x' where "grid_xreq_add (rq_xreq s) p sp rp = Some x'" "xreq_ok can_in can_out x' w"
    "xq_pipes x' = insert p (xq_pipes (rq_xreq s))" "xq_writable x' = xq_writable (rq_xreq s)" by blast
  then show ?thesis using i
    by (auto simp: grid_req_add_def req_inv_def req_base_def inprogress_states)
qed

section \<open>Everything that can happen to a running socket\<close>

text \<open>
  The user sends and receives, pipes are added, removed and become ready, the timer makes a
  step, and the transports move on by themselves without withdrawing a pipe they offered.
\<close>

datatype 'w req_event = ReqSend msg | ReqRecv | ReqIn nat | ReqOut nat | ReqAdd nat int int | ReqRm nat
  | ReqTask | ReqExpire | ReqWorld 'w

fun req_event_step ::
  "'w send_fn \<Rightarrow> 'w recv_fn \<Rightarrow> 'w req_event \<Rightarrow> grid_req \<times> 'w \<Rightarrow> (grid_req \<times> 'w) option" where
  "req_event_step psend precv (ReqSend m) sw = grid_req_csend psend m sw"
| "req_event_step psend precv ReqRecv sw = map_option snd (grid_req_crecv psend sw)"
| "req_event_step psend precv (ReqIn p) sw = grid_req_in psend precv p sw"
| "req_event_step psend precv (ReqOut p) sw = grid_req_out psend p sw"
| "req_event_step psend precv (ReqAdd p sp rp) sw = map_option (\<lambda>s. (s, snd sw)) (grid_req_add p sp rp (fst sw))"
| "req_event_step psend precv (ReqRm p) sw = grid_req_rm psend p sw"
| "req_event_step psend precv ReqTask sw = req_timer_step timer_task_step psend sw"
| "req_event_step psend precv ReqExpire sw = req_timer_step timer_expire_step psend sw"
| "req_event_step psend precv (ReqWorld w') sw = Some (fst sw, w')"

text \<open>The contract of the callers: what the socket base and the pipes guarantee of each event.\<close>

fun req_enabled ::
  "('w \<Rightarrow> bool) \<Rightarrow> (nat \<Rightarrow> 'w \<Rightarrow> bool) \<Rightarrow> (nat \<Rightarrow> 'w \<Rightarrow> bool) \<Rightarrow> 'w req_event \<Rightarrow> grid_req \<times> 'w \<Rightarrow> bool" where
  "req_enabled winv can_in can_out (ReqSend m) (s, w) \<longleftrightarrow> sphdr m = []"
| "req_enabled winv can_in can_out ReqRecv (s, w) \<longleftrightarrow> (rq_state s = REQ_DONE \<longrightarrow> tk_reply (rq_task s) \<noteq> None)"
| "req_enabled winv can_in can_out (ReqIn p) (s, w) \<longleftrightarrow>
     p \<in> xq_pipes (rq_xreq s) \<and> p \<notin> xq_readable (rq_xreq s) \<and> can_in p w"
| "req_enabled winv can_in can_out (ReqOut p) (s, w) \<longleftrightarrow>
     p \<in> xq_pipes (rq_xreq s) \<and> p \<notin> xq_writable (rq_xreq s) \<and> can_out p w"
| "req_enabled winv can_in can_out (ReqAdd p sp rp) (s, w) \<longleftrightarrow>
     p \<notin> xq_pipes (rq_xreq s) \<and> 1 \<le> sp \<and> sp \<le> 16 \<and> 1 \<le> rp \<and> rp \<le> 16"
| "req_enabled winv can_in can_out (ReqRm p) (s, w) \<longleftrightarrow> True"
| "req_enabled winv can_in can_out ReqTask (s, w) \<longleftrightarrow> True"
| "req_enabled winv can_in can_out ReqExpire (s, w) \<longleftrightarrow> True"
| "req_enabled winv can_in can_out (ReqWorld w') (s, w) \<longleftrightarrow>
     winv w' \<and> (\<forall>p. can_in p w \<longrightarrow> can_in p w') \<and> (\<forall>p. can_out p w \<longrightarrow> can_out p w')"

inductive req_reach for psend precv winv can_in can_out where
  reach_init: "winv w \<Longrightarrow> grid_req_init psend random w = Some sw \<Longrightarrow>
    req_reach psend precv winv can_in can_out sw"
| reach_step: "req_reach psend precv winv can_in can_out sw \<Longrightarrow> req_enabled winv can_in can_out ev sw \<Longrightarrow>
    req_event_step psend precv ev sw = Some sw' \<Longrightarrow>
    req_reach psend precv winv can_in can_out sw'"

lemma req_world_inv:
  assumes "req_inv can_in can_out s w" and "\<forall>p. can_in p w \<longrightarrow> can_in p w'" and "\<forall>p. can_out p w \<longrightarrow> can_out p w'"
  shows "req_inv can_in can_out s w'"
  using assms by (simp add: req_inv_def req_base_def xreq_ok_def lb_ok_def fq_ok_def)

context finite_pipes
begin

lemma req_event_ok:
  assumes w: "winv w" and i: "req_inv can_in can_out s w" and en: "req_enabled winv can_in can_out ev (s, w)"
  shows "\<exists>s' w'. req_event_step psend precv ev (s, w) = Some (s', w') \<and> winv w' \<and> req_inv can_in can_out s' w'"
proof (cases ev)
  case (ReqSend m)
  with req_csend_ok [OF w i, of m] en show ?thesis by auto
next
  case ReqRecv
  show ?thesis
  proof (cases "rq_state s = REQ_DONE")
    case True
    with ReqRecv en obtain m where "tk_reply (rq_task s) = Some m" by auto
    from req_crecv_ok [OF i True this, of psend] ReqRecv w show ?thesis by auto
  next
    case False
    with ReqRecv w i show ?thesis by (auto simp: grid_req_crecv_def)
  qed
next
  case (ReqIn p)
  with req_in_ok [OF w i, of p] en show ?thesis by auto
next
  case (ReqOut p)
  with req_out_ok [OF w i, of p] en show ?thesis by auto
next
  case (ReqAdd p sp rp)
  with req_add_ok [OF i, of p sp rp] en w show ?thesis by auto
next
  case (ReqRm p)
  with req_rm_ok [OF w i, of p] w show ?thesis by auto
next
  case ReqTask
  with req_timer_ok [OF w i task_timer.timer_service_axioms] show ?thesis by auto
next
  case ReqExpire
  with req_timer_ok [OF w i expire_timer.timer_service_axioms] show ?thesis by auto
next
  case (ReqWorld w')
  with req_world_inv [OF i, of w'] en show ?thesis by auto
qed

lemma req_reach_inv:
  assumes "req_reach psend precv winv can_in can_out sw"
  shows "winv (snd sw) \<and> req_inv can_in can_out (fst sw) (snd sw)"
  using assms
proof (induction rule: req_reach.induct)
  case (reach_init w random sw)
  from req_init_inv [of psend random w can_in can_out] reach_init show ?case by auto
next
  case (reach_step sw ev sw')
  then obtain s w where sw: "sw = (s, w)" by (cases sw)
  with reach_step have "winv w" "req_inv can_in can_out s w" "req_enabled winv can_in can_out ev (s, w)" by simp_all
  from req_event_ok [OF this] reach_step sw show ?case by auto
qed

end

section \<open>Sending again\<close>

fun req_task_steps :: "nat \<Rightarrow> 'w send_fn \<Rightarrow> grid_req \<times> 'w \<Rightarrow> (grid_req \<times> 'w) option" where
  "req_task_steps 0 psend sw = Some sw"
| "req_task_steps (Suc k) psend sw = Option.bind (req_timer_step timer_task_step psend sw) (req_task_steps k psend)"

lemma req_task_steps_0 [simp]: "req_task_steps 0 psend = Some"
  by (rule ext) simp

text \<open>Once the timer is stopping, at most two of the worker's tasks lead to its last event.\<close>

lemma req_stop_tasks:
  assumes "timer_inv (tk_timer (rq_task s))" and "timer_phase (tk_timer (rq_task s)) = PStopping"
  shows "\<exists>k \<le> 2. \<exists>t. timer_inv t \<and> timer_phase t = PIdle
    \<and> req_task_steps k psend (s, w) = feed_events psend [GRID_TIMER_STOPPED] (upd_task (\<lambda>k. k\<lparr>tk_timer := t\<rparr>) s, w)"
  using timer_stops [OF assms]
proof
  assume "\<exists>t'. timer_task_step (tk_timer (rq_task s)) = Some ([GRID_TIMER_STOPPED], t') \<and> timer_inv t' \<and> timer_phase t' = PIdle"
  then obtain t' where t': "timer_task_step (tk_timer (rq_task s)) = Some ([GRID_TIMER_STOPPED], t')" "timer_inv t'"
    "timer_phase t' = PIdle" by blast
  have "req_task_steps 1 psend (s, w) = feed_events psend [GRID_TIMER_STOPPED] (upd_task (\<lambda>k. k\<lparr>tk_timer := t'\<rparr>) s, w)"
    using t'(1) by (simp add: req_timer_step_def)
  with t'(2,3) one_le_numeral show ?thesis by blast
next
  assume "\<exists>t1 t'. timer_task_step (tk_timer (rq_task s)) = Some ([], t1)
    \<and> timer_task_step t1 = Some ([GRID_TIMER_STOPPED], t') \<and> timer_inv t' \<and> timer_phase t' = PIdle"
  then obtain t1 t' where t': "timer_task_step (tk_timer (rq_task s)) = Some ([], t1)"
    "timer_task_step t1 = Some ([GRID_TIMER_STOPPED], t')" "timer_inv t'" "timer_phase t' = PIdle" by blast
  have "req_task_steps 2 psend (s, w) = feed_events psend [GRID_TIMER_STOPPED] (upd_task (\<lambda>k. k\<lparr>tk_timer := t'\<rparr>) s, w)"
    using t'(1,2) by (simp add: req_timer_step_def numeral_2_eq_2 upd_task_def)
  with t'(3,4) show ?thesis by blast
qed

context pipe_world
begin

text \<open>After a timeout or a cancellation the request is sent again.\<close>

lemma req_resend_ok:
  assumes w: "winv w" and i: "req_inv can_in can_out s w" and st: "rq_state s = REQ_TIMED_OUT \<or> rq_state s = REQ_CANCELLING"
  shows "\<exists>k \<le> 2. \<exists>s' w'. req_task_steps k psend (s, w) = Some (s', w') \<and> winv w' \<and> req_inv can_in can_out s' w'
    \<and> tk_id (rq_task s') = tk_id (rq_task s) \<and> tk_request (rq_task s') = tk_request (rq_task s)
    \<and> sent_result psend (rq_xreq s) (tk_request (rq_task s)) w s' w'"
proof -
  have t: "timer_inv (tk_timer (rq_task s))" "timer_phase (tk_timer (rq_task s)) = PStopping"
    and f: "fs_state (rq_fsm s) = FSM_ACTIVE" and b: "req_base can_in can_out s w"
    and sn: "tk_sent_to (rq_task s) = None"
    and h: "id_header (tk_id (rq_task s)) = Some (sphdr (tk_request (rq_task s)))"
    using i st by (auto simp: req_inv_def req_base_def req_phase_def inprogress_states)
  obtain k t' where k: "k \<le> 2" "timer_inv t'" "timer_phase t' = PIdle" "req_task_steps k psend (s, w)
      = feed_events psend [GRID_TIMER_STOPPED] (upd_task (\<lambda>k. k\<lparr>tk_timer := t'\<rparr>) s, w)"
    using req_stop_tasks [OF t, of psend w] by (elim exE conjE)
  let ?s = "upd_task (\<lambda>k. k\<lparr>tk_timer := t'\<rparr>) s"
  have b': "req_base can_in can_out ?s w" using b k(2) by (simp add: req_base_def)
  have fd: "feed_events psend [GRID_TIMER_STOPPED] (?s, w) = grid_req_action_send psend True (?s, w)"
    using f st by (auto simp: req_feed_running grid_req_handler_def)
  have "timer_phase (tk_timer (rq_task ?s)) = PIdle" "tk_sent_to (rq_task ?s) = None"
    "id_header (tk_id (rq_task ?s)) = Some (sphdr (tk_request (rq_task ?s)))"
    using k(3) sn h by simp_all
  from req_send_ok [OF w b' this(1) _ this(2,3), of True] obtain s' w' where
    r: "grid_req_action_send psend True (?s, w) = Some (s', w')" "winv w'" "req_inv can_in can_out s' w'"
    "tk_id (rq_task s') = tk_id (rq_task s)" "tk_request (rq_task s') = tk_request (rq_task s)"
    "sent_result psend (rq_xreq s) (tk_request (rq_task s)) w s' w'" by auto
  have "req_task_steps k psend (s, w) = Some (s', w')" unfolding k(4) fd by (rule r(1))
  with k(1) r(2-6) show ?thesis by blast
qed

end

text \<open>After a reply was accepted, the socket is done.\<close>

lemma req_done_ok:
  assumes i: "req_inv can_in can_out s w" and st: "rq_state s = REQ_STOPPING_TIMER"
  shows "\<exists>k \<le> 2. \<exists>s'. req_task_steps k psend (s, w) = Some (s', w) \<and> req_inv can_in can_out s' w
    \<and> rq_state s' = REQ_DONE \<and> tk_reply (rq_task s') = tk_reply (rq_task s)"
proof -
  have t: "timer_inv (tk_timer (rq_task s))" "timer_phase (tk_timer (rq_task s)) = PStopping"
    and f: "fs_state (rq_fsm s) = FSM_ACTIVE"
    using i st by (auto simp: req_inv_def req_base_def req_phase_def)
  obtain k t' where k: "k \<le> 2" "timer_inv t'" "timer_phase t' = PIdle" "req_task_steps k psend (s, w)
      = feed_events psend [GRID_TIMER_STOPPED] (upd_task (\<lambda>k. k\<lparr>tk_timer := t'\<rparr>) s, w)"
    using req_stop_tasks [OF t, of psend w] by (elim exE conjE)
  define s' where "s' = (upd_task (\<lambda>k. k\<lparr>tk_timer := t'\<rparr>) s)\<lparr>rq_state := REQ_DONE\<rparr>"
  have "req_task_steps k psend (s, w) = Some (s', w)"
    using k(4) f st by (simp add: req_feed_running grid_req_handler_def goto_def s'_def)
  moreover have "req_inv can_in can_out s' w"
    using i st k(2,3) by (simp add: req_inv_def req_base_def req_phase_def inprogress_states s'_def)
  ultimately show ?thesis using k(1) by (auto simp: s'_def)
qed

section \<open>A stale message destroys the reply\<close>

text \<open>
  The loop of \<open>grid_req_in\<close> receives into the place of the stored reply. When the reply is
  already there and another message comes in before the user takes it, that message overwrites
  it and is then released: receiving the reply returns a released message.
\<close>

lemma stale_destroys_reply:
  assumes d: "rq_state s = REQ_DONE" and i: "grid_xreq_in (rq_xreq s) p = Some x"
    and r1: "grid_xreq_recv precv (tk_reply (rq_task s)) x w = Some (Inr (), Some m, x1, w1)"
    and r2: "grid_xreq_recv precv None x1 w1 = Some (Inl EAGAIN, None, x2, w2)"
    and m: "reply_matches (tk_id (rq_task s)) m = Some False"
  shows "\<exists>s'. grid_req_in psend precv p (s, w) = Some (s', w2) \<and> rq_state s' = REQ_DONE
    \<and> grid_req_crecv psend (s', w2) = None"
proof -
  define s1 where "s1 = set_reply None (set_reply (Some m) (s\<lparr>rq_xreq := x1\<rparr>))"
  have "req_in_loop psend precv (s\<lparr>rq_xreq := x\<rparr>, w) = req_in_loop psend precv (s1, w1)"
    using d r1 m by (subst req_in_loop.simps) (simp add: s1_def inprogress_states)
  also have "\<dots> = Some (set_reply None (s1\<lparr>rq_xreq := x2\<rparr>), w2)"
    using r2 by (subst req_in_loop.simps) (simp add: s1_def)
  finally show ?thesis using i d
    by (simp add: grid_req_in_def grid_req_crecv_def inprogress_states s1_def)
qed

text \<open>A negative resend interval is accepted, and sending a request then aborts.\<close>

lemma negative_interval_aborts:
  assumes v: "v < 0" and st: "rq_state s = REQ_PASSIVE" "fs_state (rq_fsm s) = FSM_ACTIVE" and m: "sphdr m = []"
    and sd: "\<And>m. \<exists>p x w'. grid_xreq_send_to psend m (rq_xreq s) w = Some (Inr p, x, w')"
  shows "\<exists>s'. grid_req_setopt GRID_REQ GRID_REQ_RESEND_IVL v 4 s = Inr s' \<and> grid_req_csend psend m (s', w) = None"
proof -
  obtain h where h: "id_header (tk_id (rq_task s) + 1) = Some h" using id_header_Some by blast
  define s1 where "s1 = upd_task (\<lambda>k. k\<lparr>tk_request := m\<lparr>sphdr := h\<rparr>\<rparr>)
    (upd_task (\<lambda>k. k\<lparr>tk_id := tk_id k + 1\<rparr>) (s\<lparr>rq_resend_ivl := v\<rparr>))"
  have s1: "rq_xreq s1 = rq_xreq s" "rq_resend_ivl s1 = v" "rq_state s1 = REQ_PASSIVE" "fs_state (rq_fsm s1) = FSM_ACTIVE"
    using st by (simp_all add: s1_def)
  obtain p x w' where "grid_xreq_send_to psend (tk_request (rq_task s1)) (rq_xreq s1) w = Some (Inr p, x, w')"
    using sd s1(1) by metis
  then have "grid_req_action_send psend True (s1, w) = None"
    using v s1(2) by (simp add: grid_req_action_send_def grid_timer_start_def)
  then have "grid_req_csend psend m (s\<lparr>rq_resend_ivl := v\<rparr>, w) = None"
    using m h s1(3,4) by (simp add: grid_req_csend_def req_feed_running grid_req_handler_def s1_def [symmetric])
  then show ?thesis by (simp add: grid_req_setopt_def GRID_REQ_RESEND_IVL_def)
qed

end
