(* ===== verification/XRep.thy ===== *)
theory XRep
  imports Patterns Hash Wire
begin

text \<open>
  The reply sockets (\<open>src/protocols/reqrep/xrep.c\<close>, \<open>rep.c\<close>). The raw socket gives every
  pipe a 31-bit key, puts the key of the pipe in front of the backtrace of each request it
  receives, and routes a reply by the key in front of its header. The REP socket keeps the
  backtrace of the request being processed and puts it on the reply.
\<close>

section \<open>The raw socket\<close>

record grid_xrep_data =
  xd_key :: u32
  xd_out :: bool

text \<open>\<open>xr_data\<close> is the data attached to the registered pipes.\<close>

record grid_xrep =
  xr_next_key :: u32
  xr_outpipes :: "nat grid_hash"
  xr_inpipes :: grid_fq
  xr_data :: "nat \<Rightarrow> grid_xrep_data option"

definition grid_xrep_init :: "u32 \<Rightarrow> grid_xrep" where
  "grid_xrep_init random = \<lparr>xr_next_key = random, xr_outpipes = grid_hash_init, xr_inpipes = grid_fq_init,
     xr_data = Map.empty\<rparr>"

definition grid_xrep_term :: "grid_xrep \<Rightarrow> unit option" where
  "grid_xrep_term s = do { grid_fq_term (xr_inpipes s); grid_hash_term (xr_outpipes s) }"

definition grid_xrep_add :: "grid_xrep \<Rightarrow> nat \<Rightarrow> int \<Rightarrow> grid_xrep option" where
  "grid_xrep_add s p rcvprio = do {
     guard (rcvprio \<ge> 1 \<and> rcvprio \<le> 16);
     let key = xr_next_key s AND 0x7fffffff;
     h \<leftarrow> grid_hash_insert key p (xr_outpipes s);
     Some (s\<lparr>xr_outpipes := h, xr_next_key := xr_next_key s + 1,
             xr_inpipes := grid_fq_add (xr_inpipes s) p rcvprio,
             xr_data := (xr_data s)(p \<mapsto> \<lparr>xd_key = key, xd_out = False\<rparr>)\<rparr>) }"

definition grid_xrep_rm :: "grid_xrep \<Rightarrow> nat \<Rightarrow> grid_xrep option" where
  "grid_xrep_rm s p = do {
     d \<leftarrow> xr_data s p;
     fq \<leftarrow> grid_fq_rm (xr_inpipes s) p;
     h \<leftarrow> grid_hash_erase (xd_key d) p (xr_outpipes s);
     Some (s\<lparr>xr_inpipes := fq, xr_outpipes := h, xr_data := (xr_data s)(p := None)\<rparr>) }"

definition grid_xrep_in :: "grid_xrep \<Rightarrow> nat \<Rightarrow> grid_xrep option" where
  "grid_xrep_in s p = do { fq \<leftarrow> grid_fq_in (xr_inpipes s) p; Some (s\<lparr>xr_inpipes := fq\<rparr>) }"

definition set_out :: "nat \<Rightarrow> bool \<Rightarrow> grid_xrep \<Rightarrow> grid_xrep option" where
  "set_out p b s = map_option (\<lambda>d. s\<lparr>xr_data := (xr_data s)(p \<mapsto> d\<lparr>xd_out := b\<rparr>)\<rparr>) (xr_data s p)"

definition grid_xrep_out :: "grid_xrep \<Rightarrow> nat \<Rightarrow> grid_xrep option" where
  "grid_xrep_out s p = set_out p True s"

definition grid_xrep_events :: "grid_xrep \<Rightarrow> u32" where
  "grid_xrep_events s =
     (if grid_fq_can_recv (xr_inpipes s) then GRID_SOCKBASE_EVENT_IN else 0) OR GRID_SOCKBASE_EVENT_OUT"

definition grid_xrep_send ::
  "(nat \<Rightarrow> msg \<Rightarrow> 'w \<Rightarrow> (u32 \<times> 'w) option) \<Rightarrow> msg \<Rightarrow> grid_xrep \<Rightarrow> 'w \<Rightarrow> (grid_xrep \<times> 'w) option" where
  "grid_xrep_send psend m s w =
     (if length (sphdr m) < 4 then Some (s, w)
      else do {
        key \<leftarrow> grid_getl (sphdr m);
        let m1 = m\<lparr>sphdr := drop 4 (sphdr m)\<rparr>;
        case grid_hash_get (xr_outpipes s) key of
          None \<Rightarrow> Some (s, w)
        | Some p \<Rightarrow> do {
            d \<leftarrow> xr_data s p;
            if \<not> xd_out d then Some (s, w)
            else do {
              (rc, w1) \<leftarrow> psend p m1 w;
              s1 \<leftarrow> (if released rc then set_out p False s else Some s);
              Some (s1, w1) } } })"

text \<open>
  The size of the backtrace in 32-bit words: up to and including the first word with the top
  bit set. \<open>Some None\<close> is a malformed message, \<open>None\<close> a read past its end.
\<close>

function backtrace_size :: "nat \<Rightarrow> bytes \<Rightarrow> nat option option" where
  "backtrace_size i data =
     (if (i + 1) * 4 > length data then Some None
      else case grid_getl (drop (4 * i) data) of
             None \<Rightarrow> None
           | Some v \<Rightarrow> if v AND 0x80000000 \<noteq> 0 then Some (Some (i + 1)) else backtrace_size (i + 1) data)"
  by pat_completeness auto
termination by (relation "measure (\<lambda>(i, data). length data - 4 * i)") auto

declare backtrace_size.simps [simp del]

text \<open>Splitting off \<open>n\<close> bytes of the body as the header, and putting a key in front of it.\<close>

definition take_header :: "nat \<Rightarrow> msg \<Rightarrow> msg option" where
  "take_header n m = do {
     guard (sphdr m = []);
     guard (n \<le> length (body m));
     Some (m\<lparr>sphdr := take n (body m), body := drop n (body m)\<rparr>) }"

definition prepend_key :: "u32 \<Rightarrow> msg \<Rightarrow> msg option" where
  "prepend_key key m = do { h \<leftarrow> grid_putl (replicate 4 0) key; Some (m\<lparr>sphdr := h @ sphdr m\<rparr>) }"

definition grid_xrep_recv ::
  "(nat \<Rightarrow> 'w \<Rightarrow> (u32 \<times> msg \<times> 'w) option) \<Rightarrow> grid_xrep \<Rightarrow> 'w \<Rightarrow> ((errno + msg) \<times> grid_xrep \<times> 'w) option" where
  "grid_xrep_recv precv s w = do {
     (r, fq, w1) \<leftarrow> grid_fq_recv precv (xr_inpipes s) w;
     let s1 = s\<lparr>xr_inpipes := fq\<rparr>;
     case r of
       Inl e \<Rightarrow> Some (Inl e, s1, w1)
     | Inr (rc, m, p) \<Rightarrow> do {
         m1 \<leftarrow> (if \<not> parsed rc then do {
                  n \<leftarrow> backtrace_size 0 (body m);
                  case n of None \<Rightarrow> Some None | Some i \<Rightarrow> map_option Some (take_header (i * 4) m) }
                else Some (Some m));
         case m1 of
           None \<Rightarrow> Some (Inl EAGAIN, s1, w1)
         | Some m2 \<Rightarrow> do {
             d \<leftarrow> xr_data s1 p;
             m3 \<leftarrow> prepend_key (xd_key d) m2;
             Some (Inr m3, s1, w1) } } }"

definition grid_xrep_setopt :: "errno + unit" where "grid_xrep_setopt = Inl ENOPROTOOPT"
definition grid_xrep_getopt :: "errno + unit" where "grid_xrep_getopt = Inl ENOPROTOOPT"

definition grid_xrep_ispeer :: "int \<Rightarrow> bool" where
  "grid_xrep_ispeer socktype = (if socktype = 48 then True else False)"

section \<open>The REP socket\<close>

text \<open>The backtrace is present while a request is being processed.\<close>

record grid_rep =
  rp_xrep :: grid_xrep
  rp_backtrace :: "bytes option"

definition grid_rep_init :: "u32 \<Rightarrow> grid_rep" where
  "grid_rep_init random = \<lparr>rp_xrep = grid_xrep_init random, rp_backtrace = None\<rparr>"

definition grid_rep_term :: "grid_rep \<Rightarrow> unit option" where
  "grid_rep_term s = grid_xrep_term (rp_xrep s)"

definition grid_rep_events :: "grid_rep \<Rightarrow> u32" where
  "grid_rep_events s =
     (let events = grid_xrep_events (rp_xrep s)
      in if rp_backtrace s = None then events AND NOT GRID_SOCKBASE_EVENT_OUT else events)"

definition grid_rep_send ::
  "(nat \<Rightarrow> msg \<Rightarrow> 'w \<Rightarrow> (u32 \<times> 'w) option) \<Rightarrow> msg \<Rightarrow> grid_rep \<Rightarrow> 'w \<Rightarrow> ((errno + unit) \<times> grid_rep \<times> 'w) option" where
  "grid_rep_send psend m s w =
     (case rp_backtrace s of
        None \<Rightarrow> Some (Inl EFSM, s, w)
      | Some bt \<Rightarrow> do {
          guard (sphdr m = []);
          (xr, w1) \<leftarrow> grid_xrep_send psend (m\<lparr>sphdr := bt\<rparr>) (rp_xrep s) w;
          Some (Inr (), s\<lparr>rp_xrep := xr, rp_backtrace := None\<rparr>, w1) })"

definition grid_rep_recv ::
  "(nat \<Rightarrow> 'w \<Rightarrow> (u32 \<times> msg \<times> 'w) option) \<Rightarrow> grid_rep \<Rightarrow> 'w \<Rightarrow> ((errno + msg) \<times> grid_rep \<times> 'w) option" where
  "grid_rep_recv precv s w = do {
     let s1 = s\<lparr>rp_backtrace := None\<rparr>;
     (r, xr, w1) \<leftarrow> grid_xrep_recv precv (rp_xrep s1) w;
     let s2 = s1\<lparr>rp_xrep := xr\<rparr>;
     case r of
       Inl e \<Rightarrow> if e = EAGAIN then Some (Inl EAGAIN, s2, w1) else None
     | Inr m \<Rightarrow> Some (Inr (m\<lparr>sphdr := []\<rparr>), s2\<lparr>rp_backtrace := Some (sphdr m)\<rparr>, w1) }"

section \<open>The backtrace\<close>

text \<open>
  The scan finds the first word with the top bit set: the bottom of the stack of keys that the
  request collected on its way.
\<close>

definition word_at :: "bytes \<Rightarrow> nat \<Rightarrow> u32" where
  "word_at data i = the (grid_getl (drop (4 * i) data))"

definition bottom_at :: "bytes \<Rightarrow> nat \<Rightarrow> bool" where
  "bottom_at data i \<longleftrightarrow> (i + 1) * 4 \<le> length data \<and> word_at data i AND 0x80000000 \<noteq> 0"

lemma backtrace_size_spec:
  "backtrace_size i data = Some (Some n) \<Longrightarrow> i < n \<and> bottom_at data (n - 1) \<and> (\<forall>j. i \<le> j \<and> j < n - 1 \<longrightarrow> \<not> bottom_at data j)"
  "backtrace_size i data = Some None \<Longrightarrow> \<forall>j \<ge> i. \<not> bottom_at data j"
  "backtrace_size i data \<noteq> None"
proof (induction i data rule: backtrace_size.induct)
  case (1 i data)
  note simps = backtrace_size.simps [of i data]
  have none: "\<not> bottom_at data j" if "length data < (i + 1) * 4" "i \<le> j" for j
    using that by (simp add: bottom_at_def)
  have v: "\<exists>v. grid_getl (drop (4 * i) data) = Some v" if "\<not> length data < (i + 1) * 4"
    using that grid_getl_defined [of "drop (4 * i) data"] by simp
  have step: "\<not> bottom_at data i" if "grid_getl (drop (4 * i) data) = Some v" "v AND 0x80000000 = 0" for v
    using that by (simp add: bottom_at_def word_at_def)
  have range: "(\<forall>j. i \<le> j \<and> P j \<longrightarrow> Q j) \<longleftrightarrow> (P i \<longrightarrow> Q i) \<and> (\<forall>j. i + 1 \<le> j \<and> P j \<longrightarrow> Q j)" for P Q :: "nat \<Rightarrow> bool"
    by (auto simp: Suc_le_eq) (case_tac "j = i"; simp)+
  { case 1
    show ?case
    proof (cases "length data < (i + 1) * 4")
      case True
      with 1 simps show ?thesis by simp
    next
      case False
      with v obtain x where x: "grid_getl (drop (4 * i) data) = Some x" by blast
      show ?thesis
      proof (cases "x AND 0x80000000 \<noteq> 0")
        case nb: False
        then have True: "x AND 0x80000000 = 0" by simp
        have "i + 1 < n \<and> bottom_at data (n - 1) \<and> (\<forall>j. i + 1 \<le> j \<and> j < n - 1 \<longrightarrow> \<not> bottom_at data j)"
          using "1.IH"(1) [OF False x nb] 1 simps False x True by simp
        with step [OF x True] show ?thesis by (simp add: range)
      next
        case bot: True
        with 1 simps False x have "n = i + 1" by simp
        with bot False x show ?thesis by (auto simp: bottom_at_def word_at_def)
      qed
    qed
  next
    case 2
    show ?case
    proof (cases "length data < (i + 1) * 4")
      case True
      with none show ?thesis by blast
    next
      case False
      with v obtain x where x: "grid_getl (drop (4 * i) data) = Some x" by blast
      with 2 simps False have t: "x AND 0x80000000 = 0" by (simp split: if_splits)
      then have nb: "\<not> x AND 0x80000000 \<noteq> 0" by simp
      have "\<forall>j \<ge> i + 1. \<not> bottom_at data j"
        using "1.IH"(2) [OF False x nb] 2 simps False x t by simp
      with step [OF x t] show ?thesis using le_neq_implies_less by (auto simp: Suc_le_eq) (case_tac "j = i"; simp)
    qed
  next
    case 3
    show ?case
    proof (cases "length data < (i + 1) * 4")
      case False
      with v obtain x where x: "grid_getl (drop (4 * i) data) = Some x" by blast
      show ?thesis using "1.IH"(3) [OF False x] simps False x by auto
    qed (simp add: simps)
  }
qed

section \<open>Safety over any pipes\<close>

definition xrep_keys :: "grid_xrep \<Rightarrow> nat \<Rightarrow> u32 option" where
  "xrep_keys s p = map_option xd_key (xr_data s p)"

definition xrep_pipes :: "grid_xrep \<Rightarrow> nat set" where
  "xrep_pipes s = dom (xr_data s)"

definition xrep_readable :: "grid_xrep \<Rightarrow> nat set" where
  "xrep_readable s = pl_active (fq_priolist (xr_inpipes s))"

definition xrep_ok :: "(nat \<Rightarrow> 'w \<Rightarrow> bool) \<Rightarrow> (nat \<Rightarrow> 'w \<Rightarrow> bool) \<Rightarrow> grid_xrep \<Rightarrow> 'w \<Rightarrow> bool" where
  "xrep_ok can_in can_out s w \<longleftrightarrow> routes_ok (xr_outpipes s) (xrep_keys s) \<and> fq_ok can_in (xr_inpipes s) w
     \<and> dom (pl_prio (fq_priolist (xr_inpipes s))) = xrep_pipes s
     \<and> (\<forall>p d. xr_data s p = Some d \<longrightarrow> \<not> bit (xd_key d) 31 \<and> (xd_out d \<longrightarrow> can_out p w))"

lemma xrep_init_ok: "xrep_ok can_in can_out (grid_xrep_init random) w"
proof -
  have "xrep_keys (grid_xrep_init random) = Map.empty" by (simp add: fun_eq_iff xrep_keys_def grid_xrep_init_def)
  then show ?thesis
    using routes_init by (simp add: xrep_ok_def grid_xrep_init_def fq_ok_def grid_fq_init_def prio_init xrep_pipes_def)
qed

text \<open>Registering a pipe works unless the key is still in use by an older pipe.\<close>

lemma key_bit: "\<not> bit (k AND 0x7fffffff :: u32) 31"
proof -
  have "(0x7fffffff :: u32) = mask 31" by (simp add: mask_eq_exp_minus_1)
  then show ?thesis by (simp add: bit_and_iff bit_mask_iff)
qed

lemma xrep_add_ok:
  assumes s: "xrep_ok can_in can_out s w" and p: "p \<notin> xrep_pipes s" and prio: "1 \<le> rp" "rp \<le> 16"
    and k: "\<forall>q. xrep_keys s q \<noteq> Some (xr_next_key s AND 0x7fffffff)"
  shows "\<exists>s'. grid_xrep_add s p rp = Some s' \<and> xrep_ok can_in can_out s' w \<and> xrep_pipes s' = insert p (xrep_pipes s)
    \<and> xrep_keys s' = (xrep_keys s)(p \<mapsto> xr_next_key s AND 0x7fffffff)"
proof -
  let ?k = "xr_next_key s AND 0x7fffffff"
  have r: "routes_ok (xr_outpipes s) (xrep_keys s)" using s by (simp add: xrep_ok_def)
  have np: "xrep_keys s p = None" using p by (auto simp: xrep_keys_def xrep_pipes_def)
  have "grid_hash_get (xr_outpipes s) ?k = None" using k routes_get [OF r] by (metis not_None_eq)
  from routes_add [OF r np this] obtain h where h: "grid_hash_insert ?k p (xr_outpipes s) = Some h"
    "routes_ok h ((xrep_keys s)(p \<mapsto> ?k))" by blast
  define s' where "s' = s\<lparr>xr_outpipes := h, xr_next_key := xr_next_key s + 1, xr_inpipes := grid_fq_add (xr_inpipes s) p rp,
    xr_data := (xr_data s)(p \<mapsto> \<lparr>xd_key = ?k, xd_out = False\<rparr>)\<rparr>"
  have e: "grid_xrep_add s p rp = Some s'" using prio h(1) by (simp add: grid_xrep_add_def s'_def)
  have ks: "xrep_keys s' = (xrep_keys s)(p \<mapsto> ?k)" by (simp add: fun_eq_iff xrep_keys_def s'_def)
  have "pl_prio (fq_priolist (xr_inpipes s)) p = None" "prio_inv (fq_priolist (xr_inpipes s))"
    using s p by (auto simp: xrep_ok_def fq_ok_def)
  from prio_add [OF this(2,1), of rp] prio have "fq_ok can_in (xr_inpipes s') w"
    "dom (pl_prio (fq_priolist (xr_inpipes s'))) = insert p (xrep_pipes s)"
    using s by (simp_all add: s'_def xrep_ok_def fq_ok_def grid_fq_add_def grid_priolist_add_def)
  then have "xrep_ok can_in can_out s' w"
    using s h(2) ks key_bit by (auto simp: xrep_ok_def s'_def xrep_pipes_def)
  with e ks show ?thesis by (auto simp: s'_def xrep_pipes_def)
qed

lemma xrep_rm_ok:
  assumes s: "xrep_ok can_in can_out s w" and p: "p \<in> xrep_pipes s"
  shows "\<exists>s'. grid_xrep_rm s p = Some s' \<and> xrep_ok can_in can_out s' w \<and> xrep_pipes s' = xrep_pipes s - {p}
    \<and> xrep_keys s' = (xrep_keys s)(p := None)"
proof -
  obtain d where d: "xr_data s p = Some d" using p by (auto simp: xrep_pipes_def)
  have r: "routes_ok (xr_outpipes s) (xrep_keys s)" using s by (simp add: xrep_ok_def)
  have kp: "xrep_keys s p = Some (xd_key d)" using d by (simp add: xrep_keys_def)
  from routes_rm [OF r kp] obtain h where h: "grid_hash_erase (xd_key d) p (xr_outpipes s) = Some h"
    "routes_ok h ((xrep_keys s)(p := None))" by blast
  have "prio_inv (fq_priolist (xr_inpipes s))" using s by (simp add: xrep_ok_def fq_ok_def)
  from prio_rm [OF this, of p] obtain q where q: "grid_priolist_rm (fq_priolist (xr_inpipes s)) p = Some q" "prio_inv q"
    "pl_active q = pl_active (fq_priolist (xr_inpipes s)) - {p}"
    "pl_prio q = (pl_prio (fq_priolist (xr_inpipes s)))(p := None)" by blast
  define s' where "s' = s\<lparr>xr_inpipes := (xr_inpipes s)\<lparr>fq_priolist := q\<rparr>, xr_outpipes := h, xr_data := (xr_data s)(p := None)\<rparr>"
  have e: "grid_xrep_rm s p = Some s'" using d h(1) q(1) by (simp add: grid_xrep_rm_def grid_fq_rm_def s'_def)
  have ks: "xrep_keys s' = (xrep_keys s)(p := None)" by (simp add: fun_eq_iff xrep_keys_def s'_def)
  have "xrep_ok can_in can_out s' w"
    using s h(2) ks q by (auto simp: xrep_ok_def s'_def xrep_pipes_def fq_ok_def)
  with e ks show ?thesis by (auto simp: s'_def xrep_pipes_def)
qed

lemma xrep_in_ok:
  assumes s: "xrep_ok can_in can_out s w" and p: "p \<in> xrep_pipes s" "p \<notin> xrep_readable s" "can_in p w"
  shows "\<exists>s'. grid_xrep_in s p = Some s' \<and> xrep_ok can_in can_out s' w \<and> xr_data s' = xr_data s
    \<and> xrep_readable s' = insert p (xrep_readable s)"
proof -
  have "p \<in> dom (pl_prio (fq_priolist (xr_inpipes s)))" using s p(1) by (simp add: xrep_ok_def)
  then obtain prio where "pl_prio (fq_priolist (xr_inpipes s)) p = Some prio" by blast
  moreover have "prio_inv (fq_priolist (xr_inpipes s))" "p \<notin> pl_active (fq_priolist (xr_inpipes s))"
    using s p by (simp_all add: xrep_ok_def fq_ok_def xrep_readable_def)
  ultimately obtain q where q: "grid_priolist_activate (fq_priolist (xr_inpipes s)) p = Some q" "prio_inv q"
    "pl_active q = insert p (pl_active (fq_priolist (xr_inpipes s)))" "pl_prio q = pl_prio (fq_priolist (xr_inpipes s))" using prio_activate by blast
  define s' where "s' = s\<lparr>xr_inpipes := (xr_inpipes s)\<lparr>fq_priolist := q\<rparr>\<rparr>"
  have "xrep_keys s' = xrep_keys s" by (simp add: fun_eq_iff xrep_keys_def s'_def)
  then have "xrep_ok can_in can_out s' w" using s p(3) q by (auto simp: xrep_ok_def s'_def xrep_pipes_def fq_ok_def)
  moreover have "grid_xrep_in s p = Some s'" using q(1) by (simp add: grid_xrep_in_def grid_fq_in_def s'_def)
  ultimately show ?thesis using q(3) by (simp add: s'_def xrep_readable_def)
qed

lemma set_out_ok:
  assumes s: "xrep_ok can_in can_out s w" and p: "p \<in> xrep_pipes s" "b \<longrightarrow> can_out p w"
  shows "\<exists>s'. set_out p b s = Some s' \<and> xrep_ok can_in can_out s' w \<and> xrep_keys s' = xrep_keys s
    \<and> xr_inpipes s' = xr_inpipes s \<and> xr_data s' = (xr_data s)(p \<mapsto> (the (xr_data s p))\<lparr>xd_out := b\<rparr>)"
proof -
  obtain d where d: "xr_data s p = Some d" using p(1) by (auto simp: xrep_pipes_def)
  define s' where "s' = s\<lparr>xr_data := (xr_data s)(p \<mapsto> d\<lparr>xd_out := b\<rparr>)\<rparr>"
  have ks: "xrep_keys s' = xrep_keys s" using d by (simp add: fun_eq_iff xrep_keys_def s'_def)
  have "xrep_ok can_in can_out s' w"
    using s ks d p by (auto simp: xrep_ok_def s'_def xrep_pipes_def)
  then show ?thesis using ks d by (simp add: set_out_def s'_def)
qed

text \<open>The message a request is split into, if its backtrace is complete.\<close>

definition split_request :: "bool \<Rightarrow> msg \<Rightarrow> msg option" where
  "split_request was_parsed m = (if was_parsed then Some m
     else case the (backtrace_size 0 (body m)) of None \<Rightarrow> None
       | Some n \<Rightarrow> Some (m\<lparr>sphdr := take (4 * n) (body m), body := drop (4 * n) (body m)\<rparr>))"

lemma backtrace_size_le: "backtrace_size i data = Some (Some n) \<Longrightarrow> 4 * n \<le> length data"
  using backtrace_size_spec(1) [of i data n] by (auto simp: bottom_at_def)

lemma split_request_None: "split_request False m = None \<longleftrightarrow> (\<forall>i. \<not> bottom_at (body m) i)"
proof -
  obtain r where r: "backtrace_size 0 (body m) = Some r" using backtrace_size_spec(3) by blast
  show ?thesis
  proof (cases r)
    case None
    with r backtrace_size_spec(2) [of 0 "body m"] show ?thesis by (simp add: split_request_def)
  next
    case (Some n)
    with r backtrace_size_spec(1) [of 0 "body m" n] show ?thesis by (auto simp: split_request_def)
  qed
qed

text \<open>A message that has not been parsed is taken apart at the first bottom, losing nothing.\<close>

lemma split_request_Some:
  assumes "split_request False m = Some m'"
  shows "\<exists>n. 0 < n \<and> bottom_at (body m) (n - 1) \<and> (\<forall>j < n - 1. \<not> bottom_at (body m) j)
    \<and> sphdr m' = take (4 * n) (body m) \<and> body m' = drop (4 * n) (body m) \<and> sphdr m' @ body m' = body m"
proof -
  obtain r where r: "backtrace_size 0 (body m) = Some r" using backtrace_size_spec(3) by blast
  with assms obtain n where n: "r = Some n" "m' = m\<lparr>sphdr := take (4 * n) (body m), body := drop (4 * n) (body m)\<rparr>"
    by (cases r) (auto simp: split_request_def)
  from backtrace_size_spec(1) [of 0 "body m" n] r n(1) have "0 < n" "bottom_at (body m) (n - 1)"
    "\<forall>j < n - 1. \<not> bottom_at (body m) j" by auto
  with n(2) show ?thesis by (intro exI [of _ n]) simp
qed

definition key_bytes :: "u32 \<Rightarrow> bytes" where
  "key_bytes k = the (grid_putl (replicate 4 0) k)"

lemma key_bytes: "grid_putl (replicate 4 0) k = Some (key_bytes k)" "length (key_bytes k) = 4"
  "grid_getl (key_bytes k @ xs) = Some k"
proof -
  obtain h where h: "grid_putl (replicate 4 0) k = Some h"
    using grid_putl_defined [of "replicate 4 0"] by auto
  then show a: "grid_putl (replicate 4 0) k = Some (key_bytes k)" by (simp add: key_bytes_def)
  then show l: "length (key_bytes k) = 4" using grid_putl_frame by fastforce
  show "grid_getl (key_bytes k @ xs) = Some k"
    using grid_getl_take [of "key_bytes k" xs] grid_getl_putl [OF a] l by simp
qed

text \<open>The pipe a reply with header \<open>h\<close> goes to, and the header it goes with.\<close>

definition reply_route :: "grid_xrep \<Rightarrow> bytes \<Rightarrow> nat \<Rightarrow> bytes \<Rightarrow> bool" where
  "reply_route s h p bt \<longleftrightarrow> (\<exists>d. h = key_bytes (xd_key d) @ bt \<and> xr_data s p = Some d \<and> xd_out d)"

context pipe_world
begin

lemma xrep_recv_ok:
  assumes w: "winv w" and s: "xrep_ok can_in can_out s w"
  shows "\<exists>r s' w'. grid_xrep_recv precv s w = Some (r, s', w') \<and> winv w' \<and> xrep_ok can_in can_out s' w'
    \<and> xr_data s' = xr_data s \<and> xr_outpipes s' = xr_outpipes s \<and> xr_next_key s' = xr_next_key s
    \<and> xrep_readable s' \<subseteq> xrep_readable s
    \<and> (if xrep_readable s = {} then r = Inl EAGAIN \<and> s' = s \<and> w' = w
       else \<exists>p \<in> xrep_readable s. \<exists>rc m d. precv p w = Some (rc, m, w') \<and> xr_data s p = Some d
         \<and> (parsed rc \<or> sphdr m = [])
         \<and> r = (case split_request (parsed rc) m of None \<Rightarrow> Inl EAGAIN
                | Some m' \<Rightarrow> Inr (m'\<lparr>sphdr := key_bytes (xd_key d) @ sphdr m'\<rparr>)))"
proof -
  have l: "fq_ok can_in (xr_inpipes s) w" using s by (simp add: xrep_ok_def)
  from fq_recv_ok [OF w l] obtain r l' w' where
    r: "grid_fq_recv precv (xr_inpipes s) w = Some (r, l', w')" "winv w'" "fq_ok can_in l' w'"
    "pl_prio (fq_priolist l') = pl_prio (fq_priolist (xr_inpipes s))" "\<forall>q. can_out q w' = can_out q w"
    "pl_active (fq_priolist l') \<subseteq> pl_active (fq_priolist (xr_inpipes s))"
    and c: "case r of Inl e \<Rightarrow> e = EAGAIN \<and> pl_active (fq_priolist (xr_inpipes s)) = {} \<and> l' = xr_inpipes s \<and> w' = w
       | Inr (f, m, p) \<Rightarrow> p \<in> pl_active (fq_priolist (xr_inpipes s)) \<and> \<not> released f
           \<and> (\<forall>q \<in> pl_active (fq_priolist (xr_inpipes s)). the (pl_prio (fq_priolist (xr_inpipes s)) p)
                \<le> the (pl_prio (fq_priolist (xr_inpipes s)) q))
           \<and> (\<exists>rc. precv p w = Some (rc, m, w') \<and> parsed f = parsed rc) \<and> (parsed f \<or> sphdr m = [])" by blast
  define s' where "s' = s\<lparr>xr_inpipes := l'\<rparr>"
  have "xrep_keys s' = xrep_keys s" by (simp add: fun_eq_iff xrep_keys_def s'_def)
  then have ok: "xrep_ok can_in can_out s' w'"
    using s r(3-5) by (simp add: xrep_ok_def s'_def xrep_pipes_def)
  have fr: "xr_data s' = xr_data s" "xr_outpipes s' = xr_outpipes s" "xr_next_key s' = xr_next_key s"
    "xrep_readable s' \<subseteq> xrep_readable s" using r(6) by (simp_all add: s'_def xrep_readable_def)
  show ?thesis
  proof (cases r)
    case (Inl e)
    with c have "grid_xrep_recv precv s w = Some (Inl EAGAIN, s, w)" "xrep_readable s = {}" "s' = s" "w' = w"
      using r(1) by (simp_all add: grid_xrep_recv_def xrep_readable_def s'_def)
    with w s show ?thesis by simp
  next
    case (Inr x)
    obtain f m p where x: "x = (f, m, p)" by (cases x)
    with Inr c obtain rc where d: "p \<in> xrep_readable s" "precv p w = Some (rc, m, w')" "parsed f = parsed rc"
      "parsed rc \<or> sphdr m = []" by (auto simp: xrep_readable_def)
    have "p \<in> dom (pl_prio (fq_priolist (xr_inpipes s)))"
      using l d(1) active_registered by (simp add: fq_ok_def xrep_readable_def)
    then obtain dd where dd: "xr_data s p = Some dd" using s by (auto simp: xrep_ok_def xrep_pipes_def)
    obtain z where z: "backtrace_size 0 (body m) = Some z" using backtrace_size_spec(3) by blast
    define r0 where "r0 = (case split_request (parsed rc) m of None \<Rightarrow> Inl EAGAIN
                | Some m' \<Rightarrow> Inr (m'\<lparr>sphdr := key_bytes (xd_key dd) @ sphdr m'\<rparr>))"
    have e: "grid_xrep_recv precv s w = Some (r0, s', w')"
    proof (cases "parsed rc")
      case True
      with r(1) Inr x d(3) dd show ?thesis
        by (simp add: grid_xrep_recv_def prepend_key_def key_bytes(1) s'_def r0_def split_request_def)
    next
      case False
      then have h: "sphdr m = []" using d(4) by simp
      show ?thesis
      proof (cases z)
        case None
        with False r(1) Inr x d(3) z show ?thesis by (simp add: grid_xrep_recv_def s'_def r0_def split_request_def)
      next
        case (Some n)
        then have "n * 4 \<le> length (body m)" using backtrace_size_le [of 0 "body m" n] z by simp
        with Some False r(1) Inr x d(3) dd z h show ?thesis
          by (simp add: grid_xrep_recv_def prepend_key_def key_bytes(1) s'_def r0_def split_request_def take_header_def
              mult.commute)
      qed
    qed
    have ne: "xrep_readable s \<noteq> {}" using d(1) by blast
    have "if xrep_readable s = {} then r0 = Inl EAGAIN \<and> s' = s \<and> w' = w
       else \<exists>p \<in> xrep_readable s. \<exists>rc m d. precv p w = Some (rc, m, w') \<and> xr_data s p = Some d
         \<and> (parsed rc \<or> sphdr m = [])
         \<and> r0 = (case split_request (parsed rc) m of None \<Rightarrow> Inl EAGAIN
                | Some m' \<Rightarrow> Inr (m'\<lparr>sphdr := key_bytes (xd_key d) @ sphdr m'\<rparr>))"
      unfolding if_not_P [OF ne] using d(1,2,4) dd r0_def by blast
    with e r(2) ok fr show ?thesis by blast
  qed
qed

text \<open>A reply goes to the pipe whose key leads its header, without the key, if that can take it.\<close>

lemma xrep_send_ok:
  assumes w: "winv w" and s: "xrep_ok can_in can_out s w"
  shows "\<exists>s' w'. grid_xrep_send psend m s w = Some (s', w') \<and> winv w' \<and> xrep_ok can_in can_out s' w'
    \<and> xrep_keys s' = xrep_keys s \<and> xr_inpipes s' = xr_inpipes s
    \<and> ((\<exists>p bt rc. reply_route s (sphdr m) p bt \<and> psend p (m\<lparr>sphdr := bt\<rparr>) w = Some (rc, w'))
       \<or> (\<forall>p bt. \<not> reply_route s (sphdr m) p bt) \<and> s' = s \<and> w' = w)"
proof (cases "length (sphdr m) < 4")
  case True
  then have "\<not> reply_route s (sphdr m) p bt" for p bt by (auto simp: reply_route_def key_bytes(2))
  with True w s show ?thesis by (simp add: grid_xrep_send_def)
next
  case False
  obtain k where k: "grid_getl (sphdr m) = Some k" using False grid_getl_defined [of "sphdr m"] by auto
  have rt: "routes_ok (xr_outpipes s) (xrep_keys s)" using s by (simp add: xrep_ok_def)
  have hdr: "sphdr m = key_bytes k @ drop 4 (sphdr m)" using grid_putl_getl [OF k] by (simp add: key_bytes_def)
  have rr: "reply_route s (sphdr m) p bt \<longleftrightarrow> bt = drop 4 (sphdr m)
      \<and> (\<exists>d. grid_hash_get (xr_outpipes s) k = Some p \<and> xr_data s p = Some d \<and> xd_out d)" for p bt
  proof
    assume "reply_route s (sphdr m) p bt"
    then obtain d where d: "sphdr m = key_bytes (xd_key d) @ bt" "xr_data s p = Some d" "xd_out d"
      by (auto simp: reply_route_def)
    then have "xd_key d = k" "bt = drop 4 (sphdr m)" using key_bytes(2,3) [of "xd_key d"] k by simp_all
    with d show "bt = drop 4 (sphdr m) \<and> (\<exists>d. grid_hash_get (xr_outpipes s) k = Some p \<and> xr_data s p = Some d \<and> xd_out d)"
      using routes_get [OF rt] by (simp add: xrep_keys_def)
  next
    assume "bt = drop 4 (sphdr m) \<and> (\<exists>d. grid_hash_get (xr_outpipes s) k = Some p \<and> xr_data s p = Some d \<and> xd_out d)"
    then obtain d where d: "bt = drop 4 (sphdr m)" "grid_hash_get (xr_outpipes s) k = Some p" "xr_data s p = Some d" "xd_out d"
      by blast
    then have "xd_key d = k" using routes_get [OF rt] by (simp add: xrep_keys_def)
    with d hdr show "reply_route s (sphdr m) p bt" by (auto simp: reply_route_def)
  qed
  show ?thesis
  proof (cases "\<exists>p d. grid_hash_get (xr_outpipes s) k = Some p \<and> xr_data s p = Some d \<and> xd_out d")
    case True
    then obtain p d where p: "grid_hash_get (xr_outpipes s) k = Some p" "xr_data s p = Some d" "xd_out d" by blast
    have cp: "can_out p w" using s p by (simp add: xrep_ok_def)
    obtain rc w' where sd: "psend p (m\<lparr>sphdr := drop 4 (sphdr m)\<rparr>) w = Some (rc, w')" "winv w'"
      "can_out p w' = (\<not> released rc)" "\<forall>q. q \<noteq> p \<longrightarrow> can_out q w' = can_out q w" "\<forall>q. can_in q w' = can_in q w"
      using send_ok [OF w cp] by blast
    define s0 where "s0 = (if released rc then s\<lparr>xr_data := (xr_data s)(p \<mapsto> d\<lparr>xd_out := False\<rparr>)\<rparr> else s)"
    have e: "grid_xrep_send psend m s w = Some (s0, w')"
      using False k p sd(1) by (simp add: grid_xrep_send_def set_out_def s0_def)
    have ks: "xrep_keys s0 = xrep_keys s" using p(2) by (simp add: fun_eq_iff xrep_keys_def s0_def)
    have "xd_out d' \<longrightarrow> can_out q w'" "\<not> bit (xd_key d') 31" if "xr_data s0 q = Some d'" for q d'
      using that s sd(3,4) p(2) by (cases "q = p", auto simp: s0_def xrep_ok_def split: if_splits)
    then have "xrep_ok can_in can_out s0 w'"
      using s sd(5) ks p(2) by (simp add: xrep_ok_def s0_def xrep_pipes_def fq_ok_def)
        (auto simp: s0_def)
    moreover have "reply_route s (sphdr m) p (drop 4 (sphdr m))" using rr p by blast
    moreover have "xr_inpipes s0 = xr_inpipes s" by (simp add: s0_def)
    ultimately show ?thesis using e ks sd(1,2) by blast
  next
    case no: False
    then have "\<not> reply_route s (sphdr m) p bt" for p bt using rr by blast
    moreover have "grid_xrep_send psend m s w = Some (s, w)"
    proof (cases "grid_hash_get (xr_outpipes s) k")
      case (Some p)
      then obtain d where "xr_data s p = Some d" using routes_get [OF rt, of k p] by (auto simp: xrep_keys_def)
      with False k Some no show ?thesis by (simp add: grid_xrep_send_def)
    qed (use False k in \<open>simp add: grid_xrep_send_def\<close>)
    ultimately show ?thesis using w s by simp
  qed
qed

end

section \<open>Replies go back where the requests came from\<close>

lemma key_bytes_inj: "key_bytes k @ xs = key_bytes k' @ ys \<longleftrightarrow> k = k' \<and> xs = ys"
proof
  assume a: "key_bytes k @ xs = key_bytes k' @ ys"
  then have "grid_getl (key_bytes k @ xs) = grid_getl (key_bytes k' @ ys)" by simp
  then have "k = k'" by (simp add: key_bytes(3))
  with a show "k = k' \<and> xs = ys" by simp
qed simp

lemma route_unique:
  assumes "xrep_ok can_in can_out s w" and "xr_data s p = Some d"
  shows "reply_route s (key_bytes (xd_key d) @ h) q bt \<longleftrightarrow> q = p \<and> bt = h \<and> xd_out d"
proof -
  have rt: "routes_ok (xr_outpipes s) (xrep_keys s)" using assms(1) by (simp add: xrep_ok_def)
  have "q = p" if "xr_data s q = Some dq" "xd_key dq = xd_key d" for dq
    using that assms(2) routes_get [OF rt, of "xd_key d" p] routes_get [OF rt, of "xd_key d" q] by (simp add: xrep_keys_def)
  then show ?thesis using assms(2) by (auto simp: reply_route_def key_bytes_inj)
qed

context pipe_world
begin

lemma rep_recv_ok:
  assumes w: "winv w" and s: "xrep_ok can_in can_out (rp_xrep s) w"
  shows "\<exists>r s' w'. grid_rep_recv precv s w = Some (r, s', w') \<and> winv w' \<and> xrep_ok can_in can_out (rp_xrep s') w'
    \<and> xr_data (rp_xrep s') = xr_data (rp_xrep s)
    \<and> (case r of Inl e \<Rightarrow> e = EAGAIN \<and> rp_backtrace s' = None
       | Inr m \<Rightarrow> \<exists>p \<in> xrep_readable (rp_xrep s). \<exists>rc m0 d m1. precv p w = Some (rc, m0, w') \<and> xr_data (rp_xrep s) p = Some d
           \<and> (parsed rc \<or> sphdr m0 = []) \<and> split_request (parsed rc) m0 = Some m1 \<and> m = m1\<lparr>sphdr := []\<rparr>
           \<and> rp_backtrace s' = Some (key_bytes (xd_key d) @ sphdr m1))"
proof -
  let ?x = "rp_xrep s"
  from xrep_recv_ok [OF w s] obtain r x' w' where r: "grid_xrep_recv precv ?x w = Some (r, x', w')" "winv w'"
    "xrep_ok can_in can_out x' w'" "xr_data x' = xr_data ?x"
    and c: "if xrep_readable ?x = {} then r = Inl EAGAIN \<and> x' = ?x \<and> w' = w
       else \<exists>p \<in> xrep_readable ?x. \<exists>rc m d. precv p w = Some (rc, m, w') \<and> xr_data ?x p = Some d
         \<and> (parsed rc \<or> sphdr m = [])
         \<and> r = (case split_request (parsed rc) m of None \<Rightarrow> Inl EAGAIN
                | Some m' \<Rightarrow> Inr (m'\<lparr>sphdr := key_bytes (xd_key d) @ sphdr m'\<rparr>))" by blast
  show ?thesis
  proof (cases r)
    case (Inl e)
    with c have "e = EAGAIN" by (auto split: if_splits option.splits)
    with Inl r show ?thesis by (simp add: grid_rep_recv_def)
  next
    case (Inr m)
    with c obtain p rc m0 d where p: "p \<in> xrep_readable ?x" "precv p w = Some (rc, m0, w')" "xr_data ?x p = Some d"
      "parsed rc \<or> sphdr m0 = []" "Inr m = (case split_request (parsed rc) m0 of None \<Rightarrow> Inl EAGAIN
                | Some m' \<Rightarrow> Inr (m'\<lparr>sphdr := key_bytes (xd_key d) @ sphdr m'\<rparr>))" by (auto split: if_splits)
    then obtain m1 where m1: "split_request (parsed rc) m0 = Some m1" "m = m1\<lparr>sphdr := key_bytes (xd_key d) @ sphdr m1\<rparr>"
      by (cases "split_request (parsed rc) m0") simp_all
    define s' where "s' = s\<lparr>rp_xrep := x', rp_backtrace := Some (key_bytes (xd_key d) @ sphdr m1)\<rparr>"
    have e: "grid_rep_recv precv s w = Some (Inr (m1\<lparr>sphdr := []\<rparr>), s', w')"
      using r(1) Inr m1(2) by (simp add: grid_rep_recv_def s'_def)
    have s': "xrep_ok can_in can_out (rp_xrep s') w'" "xr_data (rp_xrep s') = xr_data ?x"
      "rp_backtrace s' = Some (key_bytes (xd_key d) @ sphdr m1)" using r(3,4) by (simp_all add: s'_def)
    show ?thesis
    proof (intro exI conjI)
      show "case Inr (m1\<lparr>sphdr := []\<rparr>) of Inl e \<Rightarrow> e = EAGAIN \<and> rp_backtrace s' = None
       | Inr m \<Rightarrow> \<exists>p \<in> xrep_readable ?x. \<exists>rc m0 d m1. precv p w = Some (rc, m0, w') \<and> xr_data ?x p = Some d
           \<and> (parsed rc \<or> sphdr m0 = []) \<and> split_request (parsed rc) m0 = Some m1 \<and> m = m1\<lparr>sphdr := []\<rparr>
           \<and> rp_backtrace s' = Some (key_bytes (xd_key d) @ sphdr m1)"
        unfolding sum.case using p(1-4) m1(1) s'(3) by blast
    qed (use e r(2) s' in simp_all)
  qed
qed

lemma rep_send_ok:
  assumes w: "winv w" and s: "xrep_ok can_in can_out (rp_xrep s) w" and m: "sphdr m = []"
    and d: "xr_data (rp_xrep s) p = Some d" and b: "rp_backtrace s = Some (key_bytes (xd_key d) @ h)"
  shows "\<exists>s' w'. grid_rep_send psend m s w = Some (Inr (), s', w') \<and> winv w' \<and> xrep_ok can_in can_out (rp_xrep s') w'
    \<and> rp_backtrace s' = None
    \<and> (if xd_out d then \<exists>rc. psend p (m\<lparr>sphdr := h\<rparr>) w = Some (rc, w') else w' = w)"
proof -
  let ?m = "m\<lparr>sphdr := key_bytes (xd_key d) @ h\<rparr>"
  from xrep_send_ok [OF w s, of ?m] obtain x' w' where x: "grid_xrep_send psend ?m (rp_xrep s) w = Some (x', w')" "winv w'"
    "xrep_ok can_in can_out x' w'"
    and c: "(\<exists>q bt rc. reply_route (rp_xrep s) (sphdr ?m) q bt \<and> psend q (?m\<lparr>sphdr := bt\<rparr>) w = Some (rc, w'))
       \<or> (\<forall>q bt. \<not> reply_route (rp_xrep s) (sphdr ?m) q bt) \<and> x' = rp_xrep s \<and> w' = w" by blast
  have "sphdr ?m = key_bytes (xd_key d) @ h" "?m\<lparr>sphdr := bt\<rparr> = m\<lparr>sphdr := bt\<rparr>" for bt by simp_all
  with c have "if xd_out d then \<exists>rc. psend p (m\<lparr>sphdr := h\<rparr>) w = Some (rc, w') else w' = w"
    using route_unique [OF s d, of h] by auto
  moreover have "grid_rep_send psend m s w = Some (Inr (), s\<lparr>rp_xrep := x', rp_backtrace := None\<rparr>, w')"
    using b m x(1) by (simp add: grid_rep_send_def)
  ultimately show ?thesis using x(2,3) by (intro exI [of _ "s\<lparr>rp_xrep := x', rp_backtrace := None\<rparr>"]) auto
qed

end

end
