(* ===== verification/Survey.thy ===== *)
theory Survey
  imports XRep XReq Timer
begin

text \<open>
  The survey protocol (\<open>src/protocols/survey\<close>). The respondents are the reply sockets under
  other names. The raw surveyor distributes surveys to all its pipes and fair-queues the
  responses; the surveyor tags each survey with an id, keeps it until it can be sent, and takes
  responses with that id until its deadline.
\<close>

section \<open>Respondents\<close>

text \<open>
  \<open>xrespondent.c\<close> and \<open>respondent.c\<close> have the statements of \<open>xrep.c\<close> and \<open>rep.c\<close>,
  with other names; the definitions are those of the reply sockets.
\<close>

type_synonym grid_xrespondent = grid_xrep
type_synonym grid_respondent = grid_rep

definition GRID_SURVEYOR :: int where "GRID_SURVEYOR = 6 * 16 + 2"
definition GRID_RESPONDENT :: int where "GRID_RESPONDENT = 6 * 16 + 3"

definition grid_xrespondent_init :: "u32 \<Rightarrow> grid_xrespondent" where
  "grid_xrespondent_init = grid_xrep_init"
definition grid_xrespondent_term :: "grid_xrespondent \<Rightarrow> unit option" where
  "grid_xrespondent_term = grid_xrep_term"
definition grid_xrespondent_add :: "grid_xrespondent \<Rightarrow> nat \<Rightarrow> int \<Rightarrow> grid_xrespondent option" where
  "grid_xrespondent_add = grid_xrep_add"
definition grid_xrespondent_rm :: "grid_xrespondent \<Rightarrow> nat \<Rightarrow> grid_xrespondent option" where
  "grid_xrespondent_rm = grid_xrep_rm"
definition grid_xrespondent_in :: "grid_xrespondent \<Rightarrow> nat \<Rightarrow> grid_xrespondent option" where
  "grid_xrespondent_in = grid_xrep_in"
definition grid_xrespondent_out :: "grid_xrespondent \<Rightarrow> nat \<Rightarrow> grid_xrespondent option" where
  "grid_xrespondent_out = grid_xrep_out"
definition grid_xrespondent_events :: "grid_xrespondent \<Rightarrow> u32" where
  "grid_xrespondent_events = grid_xrep_events"
definition grid_xrespondent_send ::
  "(nat \<Rightarrow> msg \<Rightarrow> 'w \<Rightarrow> (u32 \<times> 'w) option) \<Rightarrow> msg \<Rightarrow> grid_xrespondent \<Rightarrow> 'w \<Rightarrow> (grid_xrespondent \<times> 'w) option" where
  "grid_xrespondent_send = grid_xrep_send"
definition grid_xrespondent_recv ::
  "(nat \<Rightarrow> 'w \<Rightarrow> (u32 \<times> msg \<times> 'w) option) \<Rightarrow> grid_xrespondent \<Rightarrow> 'w
     \<Rightarrow> ((errno + msg) \<times> grid_xrespondent \<times> 'w) option" where
  "grid_xrespondent_recv = grid_xrep_recv"
definition grid_xrespondent_setopt :: "errno + unit" where "grid_xrespondent_setopt = Inl ENOPROTOOPT"
definition grid_xrespondent_getopt :: "errno + unit" where "grid_xrespondent_getopt = Inl ENOPROTOOPT"
definition grid_xrespondent_ispeer :: "int \<Rightarrow> bool" where
  "grid_xrespondent_ispeer socktype = (if socktype = GRID_SURVEYOR then True else False)"

definition grid_respondent_init :: "u32 \<Rightarrow> grid_respondent" where
  "grid_respondent_init = grid_rep_init"
definition grid_respondent_term :: "grid_respondent \<Rightarrow> unit option" where
  "grid_respondent_term = grid_rep_term"
definition grid_respondent_events :: "grid_respondent \<Rightarrow> u32" where
  "grid_respondent_events = grid_rep_events"
definition grid_respondent_send ::
  "(nat \<Rightarrow> msg \<Rightarrow> 'w \<Rightarrow> (u32 \<times> 'w) option) \<Rightarrow> msg \<Rightarrow> grid_respondent \<Rightarrow> 'w
     \<Rightarrow> ((errno + unit) \<times> grid_respondent \<times> 'w) option" where
  "grid_respondent_send = grid_rep_send"
definition grid_respondent_recv ::
  "(nat \<Rightarrow> 'w \<Rightarrow> (u32 \<times> msg \<times> 'w) option) \<Rightarrow> grid_respondent \<Rightarrow> 'w
     \<Rightarrow> ((errno + msg) \<times> grid_respondent \<times> 'w) option" where
  "grid_respondent_recv = grid_rep_recv"

section \<open>The raw surveyor\<close>

record grid_xsurveyor =
  xs_outpipes :: grid_dist
  xs_inpipes :: grid_fq

definition grid_xsurveyor_init :: grid_xsurveyor where
  "grid_xsurveyor_init = \<lparr>xs_outpipes = grid_dist_init, xs_inpipes = grid_fq_init\<rparr>"

definition grid_xsurveyor_term :: "grid_xsurveyor \<Rightarrow> unit option" where
  "grid_xsurveyor_term s = do { grid_fq_term (xs_inpipes s); grid_dist_term (xs_outpipes s) }"

definition grid_xsurveyor_add :: "grid_xsurveyor \<Rightarrow> nat \<Rightarrow> int \<Rightarrow> grid_xsurveyor option" where
  "grid_xsurveyor_add s p rcvprio = do {
     guard (rcvprio \<ge> 1 \<and> rcvprio \<le> 16);
     Some (s\<lparr>xs_inpipes := grid_fq_add (xs_inpipes s) p rcvprio, xs_outpipes := grid_dist_add (xs_outpipes s) p\<rparr>) }"

definition grid_xsurveyor_rm :: "grid_xsurveyor \<Rightarrow> nat \<Rightarrow> grid_xsurveyor option" where
  "grid_xsurveyor_rm s p = do {
     fq \<leftarrow> grid_fq_rm (xs_inpipes s) p;
     Some (s\<lparr>xs_inpipes := fq, xs_outpipes := grid_dist_rm (xs_outpipes s) p\<rparr>) }"

definition grid_xsurveyor_in :: "grid_xsurveyor \<Rightarrow> nat \<Rightarrow> grid_xsurveyor option" where
  "grid_xsurveyor_in s p = do { fq \<leftarrow> grid_fq_in (xs_inpipes s) p; Some (s\<lparr>xs_inpipes := fq\<rparr>) }"

definition grid_xsurveyor_out :: "grid_xsurveyor \<Rightarrow> nat \<Rightarrow> grid_xsurveyor option" where
  "grid_xsurveyor_out s p = do { d \<leftarrow> grid_dist_out (xs_outpipes s) p; Some (s\<lparr>xs_outpipes := d\<rparr>) }"

definition grid_xsurveyor_events :: "grid_xsurveyor \<Rightarrow> u32" where
  "grid_xsurveyor_events s =
     GRID_SOCKBASE_EVENT_OUT OR (if grid_fq_can_recv (xs_inpipes s) then GRID_SOCKBASE_EVENT_IN else 0)"

definition grid_xsurveyor_send ::
  "(nat \<Rightarrow> msg \<Rightarrow> 'w \<Rightarrow> (u32 \<times> 'w) option) \<Rightarrow> msg \<Rightarrow> grid_xsurveyor \<Rightarrow> 'w \<Rightarrow> (grid_xsurveyor \<times> 'w) option" where
  "grid_xsurveyor_send psend m s w = do {
     (d, w1) \<leftarrow> grid_dist_send psend m None (xs_outpipes s) w;
     Some (s\<lparr>xs_outpipes := d\<rparr>, w1) }"

definition grid_xsurveyor_recv ::
  "(nat \<Rightarrow> 'w \<Rightarrow> (u32 \<times> msg \<times> 'w) option) \<Rightarrow> grid_xsurveyor \<Rightarrow> 'w
     \<Rightarrow> ((errno + msg) \<times> grid_xsurveyor \<times> 'w) option" where
  "grid_xsurveyor_recv precv s w = do {
     (r, fq, w1) \<leftarrow> grid_fq_recv precv (xs_inpipes s) w;
     let s1 = s\<lparr>xs_inpipes := fq\<rparr>;
     case r of
       Inl e \<Rightarrow> Some (Inl e, s1, w1)
     | Inr (rc, m, p) \<Rightarrow>
         if \<not> parsed rc then
           (if length (body m) < 4 then Some (Inl EAGAIN, s1, w1)
            else do { m1 \<leftarrow> take_header 4 m; Some (Inr m1, s1, w1) })
         else Some (Inr m, s1, w1) }"

definition grid_xsurveyor_setopt :: "errno + unit" where "grid_xsurveyor_setopt = Inl ENOPROTOOPT"
definition grid_xsurveyor_getopt :: "errno + unit" where "grid_xsurveyor_getopt = Inl ENOPROTOOPT"

definition grid_xsurveyor_ispeer :: "int \<Rightarrow> bool" where
  "grid_xsurveyor_ispeer socktype = (if socktype = GRID_RESPONDENT then True else False)"

section \<open>The surveyor\<close>

datatype surveyor_state = SV_IDLE | SV_PASSIVE | SV_ACTIVE | SV_CANCELLING | SV_STOPPING_TIMER | SV_STOPPING
datatype surveyor_input = SV_START | SV_STOP | SV_ACTION_START | SV_ACTION_CANCEL | SV_TIMER timer_event

definition GRID_SURVEYOR_DEFAULT_DEADLINE :: int where "GRID_SURVEYOR_DEFAULT_DEADLINE = 1000"
definition GRID_SURVEYOR_DEADLINE :: int where "GRID_SURVEYOR_DEADLINE = 1"

record grid_surveyor =
  sv_xsurveyor :: grid_xsurveyor
  sv_fsm :: grid_fsm
  sv_state :: surveyor_state
  sv_surveyid :: u32
  sv_timer :: grid_timer
  sv_tosend :: msg
  sv_deadline :: int
  sv_timedout :: bool
  sv_stopped :: bool

definition grid_surveyor_inprogress :: "grid_surveyor \<Rightarrow> bool" where
  "grid_surveyor_inprogress s =
     (if sv_state s = SV_IDLE \<or> sv_state s = SV_PASSIVE \<or> sv_state s = SV_STOPPING then False else True)"

definition grid_surveyor_resend ::
  "(nat \<Rightarrow> msg \<Rightarrow> 'w \<Rightarrow> (u32 \<times> 'w) option) \<Rightarrow> grid_surveyor \<times> 'w \<Rightarrow> (grid_surveyor \<times> 'w) option" where
  "grid_surveyor_resend psend sw = do {
     (x, w1) \<leftarrow> grid_xsurveyor_send psend (sv_tosend (fst sw)) (sv_xsurveyor (fst sw)) (snd sw);
     Some ((fst sw)\<lparr>sv_xsurveyor := x\<rparr>, w1) }"

text \<open>The steps the handler repeats: sending the survey and starting the deadline; stopping the timer.\<close>

definition start_survey ::
  "(nat \<Rightarrow> msg \<Rightarrow> 'w \<Rightarrow> (u32 \<times> 'w) option) \<Rightarrow> grid_surveyor \<times> 'w \<Rightarrow> (grid_surveyor \<times> 'w) option" where
  "start_survey psend sw = do {
     (s1, w1) \<leftarrow> grid_surveyor_resend psend sw;
     t \<leftarrow> grid_timer_start (sv_deadline s1) (sv_timer s1);
     Some (s1\<lparr>sv_timer := t, sv_state := SV_ACTIVE\<rparr>, w1) }"

definition stop_deadline :: "surveyor_state \<Rightarrow> grid_surveyor \<Rightarrow> grid_surveyor option" where
  "stop_deadline st s = map_option (\<lambda>t. s\<lparr>sv_timer := t, sv_state := st\<rparr>) (grid_timer_stop (sv_timer s))"

definition grid_surveyor_handler ::
  "(nat \<Rightarrow> msg \<Rightarrow> 'w \<Rightarrow> (u32 \<times> 'w) option) \<Rightarrow> surveyor_input \<Rightarrow> grid_surveyor \<times> 'w
     \<Rightarrow> (grid_surveyor \<times> 'w) option" where
  "grid_surveyor_handler psend e sw =
     (let s = fst sw; w = snd sw
      in case sv_state s of
        SV_IDLE \<Rightarrow> (case e of SV_START \<Rightarrow> Some (s\<lparr>sv_state := SV_PASSIVE\<rparr>, w) | _ \<Rightarrow> None)
      | SV_PASSIVE \<Rightarrow> (case e of SV_ACTION_START \<Rightarrow> start_survey psend sw | _ \<Rightarrow> None)
      | SV_ACTIVE \<Rightarrow> (case e of
            SV_ACTION_CANCEL \<Rightarrow> map_option (\<lambda>s1. (s1, w)) (stop_deadline SV_CANCELLING s)
          | SV_TIMER GRID_TIMER_TIMEOUT \<Rightarrow>
              map_option (\<lambda>s1. (s1\<lparr>sv_timedout := True\<rparr>, w)) (stop_deadline SV_STOPPING_TIMER s)
          | _ \<Rightarrow> None)
      | SV_CANCELLING \<Rightarrow> (case e of
            SV_ACTION_CANCEL \<Rightarrow> Some sw
          | SV_TIMER GRID_TIMER_STOPPED \<Rightarrow> start_survey psend sw
          | _ \<Rightarrow> None)
      | SV_STOPPING_TIMER \<Rightarrow> (case e of
            SV_ACTION_CANCEL \<Rightarrow> Some (s\<lparr>sv_state := SV_CANCELLING\<rparr>, w)
          | SV_TIMER GRID_TIMER_STOPPED \<Rightarrow> Some (s\<lparr>sv_state := SV_PASSIVE\<rparr>, w)
          | _ \<Rightarrow> None)
      | SV_STOPPING \<Rightarrow> None)"

definition grid_surveyor_shutdown :: "surveyor_input \<Rightarrow> grid_surveyor \<times> 'w \<Rightarrow> (grid_surveyor \<times> 'w) option" where
  "grid_surveyor_shutdown e sw = do {
     s1 \<leftarrow> (if e = SV_STOP then stop_deadline SV_STOPPING (fst sw) else Some (fst sw));
     guard (sv_state s1 = SV_STOPPING);
     if \<not> grid_timer_isidle (sv_timer s1) then Some (s1, snd sw)
     else do {
       f \<leftarrow> grid_fsm_stopped_noevent (sv_fsm s1);
       Some (s1\<lparr>sv_state := SV_IDLE, sv_fsm := f, sv_stopped := True\<rparr>, snd sw) } }"

definition surveyor_feed ::
  "(nat \<Rightarrow> msg \<Rightarrow> 'w \<Rightarrow> (u32 \<times> 'w) option) \<Rightarrow> surveyor_input \<Rightarrow> grid_surveyor \<times> 'w
     \<Rightarrow> (grid_surveyor \<times> 'w) option" where
  "surveyor_feed psend e sw =
     grid_fsm_feed (\<lambda>sw. sv_fsm (fst sw)) (grid_surveyor_handler psend) grid_surveyor_shutdown e sw"

definition grid_surveyor_init ::
  "(nat \<Rightarrow> msg \<Rightarrow> 'w \<Rightarrow> (u32 \<times> 'w) option) \<Rightarrow> u32 \<Rightarrow> 'w \<Rightarrow> (grid_surveyor \<times> 'w) option" where
  "grid_surveyor_init psend random w =
     (let s = \<lparr>sv_xsurveyor = grid_xsurveyor_init, sv_fsm = grid_fsm_init, sv_state = SV_IDLE, sv_surveyid = random,
               sv_timer = grid_timer_init, sv_tosend = \<lparr>sphdr = [], hdrs = [], body = []\<rparr>,
               sv_deadline = GRID_SURVEYOR_DEFAULT_DEADLINE, sv_timedout = False, sv_stopped = False\<rparr>
      in grid_fsm_start (\<lambda>sw. sv_fsm (fst sw)) (\<lambda>f sw. ((fst sw)\<lparr>sv_fsm := f (sv_fsm (fst sw))\<rparr>, snd sw))
           (grid_surveyor_handler psend SV_START) (s, w))"

definition grid_surveyor_stop :: "grid_surveyor \<times> 'w \<Rightarrow> (grid_surveyor \<times> 'w) option" where
  "grid_surveyor_stop sw =
     grid_fsm_stop (\<lambda>sw. sv_fsm (fst sw)) (\<lambda>f sw. ((fst sw)\<lparr>sv_fsm := f (sv_fsm (fst sw))\<rparr>, snd sw))
       (grid_surveyor_shutdown SV_STOP) sw"

definition grid_surveyor_term :: "grid_surveyor \<Rightarrow> unit option" where
  "grid_surveyor_term s = do {
     grid_timer_term (sv_timer s);
     grid_fsm_term (sv_fsm s);
     grid_xsurveyor_term (sv_xsurveyor s) }"

definition grid_surveyor_events :: "grid_surveyor \<Rightarrow> u32" where
  "grid_surveyor_events s =
     (let rc = grid_xsurveyor_events (sv_xsurveyor s)
      in if \<not> grid_surveyor_inprogress s then rc OR GRID_SOCKBASE_EVENT_IN else rc)"

definition grid_surveyor_send ::
  "(nat \<Rightarrow> msg \<Rightarrow> 'w \<Rightarrow> (u32 \<times> 'w) option) \<Rightarrow> msg \<Rightarrow> grid_surveyor \<times> 'w
     \<Rightarrow> ((errno + unit) \<times> grid_surveyor \<times> 'w) option" where
  "grid_surveyor_send psend m sw = do {
     let s0 = fst sw;
     let s1 = s0\<lparr>sv_surveyid := (sv_surveyid s0 + 1) OR 0x80000000\<rparr>;
     guard (sphdr m = []);
     h \<leftarrow> grid_putl (replicate 4 0) (sv_surveyid s1);
     let s2 = s1\<lparr>sv_tosend := m\<lparr>sphdr := h\<rparr>\<rparr>;
     if grid_surveyor_inprogress s2 then
       (if grid_xsurveyor_events (sv_xsurveyor s2) AND GRID_SOCKBASE_EVENT_OUT = 0 then Some (Inl EAGAIN, s2, snd sw)
        else map_option (\<lambda>sw'. (Inr (), sw')) (surveyor_feed psend SV_ACTION_CANCEL (s2, snd sw)))
     else map_option (\<lambda>sw'. (Inr (), sw')) (surveyor_feed psend SV_ACTION_START (s2, snd sw)) }"

text \<open>The loop of \<open>grid_surveyor_recv\<close>: responses to other surveys are skipped.\<close>

partial_function (option) surveyor_recv_loop ::
  "(nat \<Rightarrow> 'w \<Rightarrow> (u32 \<times> msg \<times> 'w) option) \<Rightarrow> u32 \<Rightarrow> grid_xsurveyor \<times> 'w
     \<Rightarrow> ((errno + msg) \<times> grid_xsurveyor \<times> 'w) option" where
  "surveyor_recv_loop precv surveyid xw =
     Option.bind (grid_xsurveyor_recv precv (fst xw) (snd xw)) (\<lambda>(r, x1, w1).
       case r of
         Inl e \<Rightarrow> if e = EAGAIN then Some (Inl EAGAIN, x1, w1) else None
       | Inr m \<Rightarrow>
           if length (sphdr m) \<noteq> 4 then surveyor_recv_loop precv surveyid (x1, w1)
           else Option.bind (grid_getl (sphdr m)) (\<lambda>i.
             if i \<noteq> surveyid then surveyor_recv_loop precv surveyid (x1, w1)
             else Some (Inr (m\<lparr>sphdr := []\<rparr>), x1, w1)))"

definition grid_surveyor_recv ::
  "(nat \<Rightarrow> 'w \<Rightarrow> (u32 \<times> msg \<times> 'w) option) \<Rightarrow> grid_surveyor \<times> 'w
     \<Rightarrow> ((errno + msg) \<times> grid_surveyor \<times> 'w) option" where
  "grid_surveyor_recv precv sw =
     (let s = fst sw; w = snd sw
      in if \<not> grid_surveyor_inprogress s then
           (if sv_timedout s then Some (Inl ETIMEDOUT, s\<lparr>sv_timedout := False\<rparr>, w) else Some (Inl EFSM, s, w))
         else do {
           (r, x, w1) \<leftarrow> surveyor_recv_loop precv (sv_surveyid s) (sv_xsurveyor s, w);
           Some (r, s\<lparr>sv_xsurveyor := x\<rparr>, w1) })"

definition grid_surveyor_setopt :: "int \<Rightarrow> int \<Rightarrow> int \<Rightarrow> nat \<Rightarrow> grid_surveyor \<Rightarrow> (errno + grid_surveyor)" where
  "grid_surveyor_setopt level opt optval optvallen s =
     (if level \<noteq> GRID_SURVEYOR then Inl ENOPROTOOPT
      else if opt = GRID_SURVEYOR_DEADLINE then
        (if optvallen \<noteq> 4 then Inl EINVAL else Inr (s\<lparr>sv_deadline := optval\<rparr>))
      else Inl ENOPROTOOPT)"

definition grid_surveyor_getopt :: "int \<Rightarrow> int \<Rightarrow> nat \<Rightarrow> grid_surveyor \<Rightarrow> (errno + int \<times> nat)" where
  "grid_surveyor_getopt level opt optvallen s =
     (if level \<noteq> GRID_SURVEYOR then Inl ENOPROTOOPT
      else if opt = GRID_SURVEYOR_DEADLINE then
        (if optvallen < 4 then Inl EINVAL else Inr (sv_deadline s, 4))
      else Inl ENOPROTOOPT)"

text \<open>The timer's steps, with the events it raises delivered to the socket.\<close>

fun surveyor_feed_events ::
  "(nat \<Rightarrow> msg \<Rightarrow> 'w \<Rightarrow> (u32 \<times> 'w) option) \<Rightarrow> timer_event list \<Rightarrow> grid_surveyor \<times> 'w
     \<Rightarrow> (grid_surveyor \<times> 'w) option" where
  "surveyor_feed_events psend [] sw = Some sw"
| "surveyor_feed_events psend (e # es) sw =
     Option.bind (surveyor_feed psend (SV_TIMER e) sw) (surveyor_feed_events psend es)"

definition surveyor_timer_step ::
  "(grid_timer \<Rightarrow> (timer_event list \<times> grid_timer) option)
     \<Rightarrow> (nat \<Rightarrow> msg \<Rightarrow> 'w \<Rightarrow> (u32 \<times> 'w) option) \<Rightarrow> grid_surveyor \<times> 'w \<Rightarrow> (grid_surveyor \<times> 'w) option" where
  "surveyor_timer_step tstep psend sw = do {
     (es, t) \<leftarrow> tstep (sv_timer (fst sw));
     surveyor_feed_events psend es ((fst sw)\<lparr>sv_timer := t\<rparr>, snd sw) }"

section \<open>The raw surveyor over any pipes\<close>

definition xsurveyor_ok ::
  "(nat \<Rightarrow> 'w \<Rightarrow> bool) \<Rightarrow> (nat \<Rightarrow> 'w \<Rightarrow> bool) \<Rightarrow> grid_xsurveyor \<Rightarrow> 'w \<Rightarrow> bool" where
  "xsurveyor_ok can_in can_out s w \<longleftrightarrow> dist_ok can_out (xs_outpipes s) w \<and> fq_ok can_in (xs_inpipes s) w
     \<and> set (di_pipes (xs_outpipes s)) \<subseteq> fq_pipes (xs_inpipes s)"

lemma xsurveyor_init_ok: "xsurveyor_ok can_in can_out grid_xsurveyor_init w"
  using dist_init_ok [of can_out w] fq_init_ok(1) [of can_in w]
  by (simp add: xsurveyor_ok_def grid_xsurveyor_init_def) (simp add: grid_dist_init_def)

lemma xsurveyor_add_ok:
  assumes "xsurveyor_ok can_in can_out s w" and "p \<notin> fq_pipes (xs_inpipes s)" and "1 \<le> rp" "rp \<le> 16"
  shows "\<exists>s'. grid_xsurveyor_add s p rp = Some s' \<and> xsurveyor_ok can_in can_out s' w
    \<and> fq_pipes (xs_inpipes s') = insert p (fq_pipes (xs_inpipes s)) \<and> xs_outpipes s' = xs_outpipes s"
proof -
  have "fq_ok can_in (xs_inpipes s) w" using assms(1) by (simp add: xsurveyor_ok_def)
  from fq_add_ok [OF this assms(2-4)] assms show ?thesis
    by (simp add: grid_xsurveyor_add_def xsurveyor_ok_def grid_dist_add_def subset_insertI2)
qed

lemma xsurveyor_rm_ok:
  assumes "xsurveyor_ok can_in can_out s w"
  shows "\<exists>s'. grid_xsurveyor_rm s p = Some s' \<and> xsurveyor_ok can_in can_out s' w
    \<and> fq_pipes (xs_inpipes s') = fq_pipes (xs_inpipes s) - {p}"
proof -
  have f: "fq_ok can_in (xs_inpipes s) w" and d: "dist_ok can_out (xs_outpipes s) w"
    using assms by (simp_all add: xsurveyor_ok_def)
  obtain l' where l': "grid_fq_rm (xs_inpipes s) p = Some l'" "fq_ok can_in l' w"
    "fq_pipes l' = fq_pipes (xs_inpipes s) - {p}" using fq_rm_ok [OF f, of p] by (elim exE conjE)
  have "set (di_pipes (grid_dist_rm (xs_outpipes s) p)) = set (di_pipes (xs_outpipes s)) - {p}"
    using d dist_rm_inv by (simp add: dist_ok_def)
  then have "set (di_pipes (grid_dist_rm (xs_outpipes s) p)) \<subseteq> fq_pipes l'"
    unfolding l'(3) using assms by (simp add: xsurveyor_ok_def Diff_mono)
  then have "xsurveyor_ok can_in can_out (s\<lparr>xs_inpipes := l', xs_outpipes := grid_dist_rm (xs_outpipes s) p\<rparr>) w"
    using l'(2) dist_rm_ok [OF d, of p] by (simp add: xsurveyor_ok_def)
  moreover have "grid_xsurveyor_rm s p = Some (s\<lparr>xs_inpipes := l', xs_outpipes := grid_dist_rm (xs_outpipes s) p\<rparr>)"
    using l'(1) by (simp add: grid_xsurveyor_rm_def)
  ultimately show ?thesis using l'(3) by (intro exI conjI) (assumption | simp)+
qed

lemma xsurveyor_in_ok:
  assumes "xsurveyor_ok can_in can_out s w" and "p \<in> fq_pipes (xs_inpipes s)" and "p \<notin> fq_readable (xs_inpipes s)"
    and "can_in p w"
  shows "\<exists>s'. grid_xsurveyor_in s p = Some s' \<and> xsurveyor_ok can_in can_out s' w
    \<and> fq_readable (xs_inpipes s') = insert p (fq_readable (xs_inpipes s)) \<and> xs_outpipes s' = xs_outpipes s"
  using assms fq_in_ok [of can_in "xs_inpipes s" w p] by (auto simp: grid_xsurveyor_in_def xsurveyor_ok_def)

lemma xsurveyor_out_ok:
  assumes "xsurveyor_ok can_in can_out s w" and "p \<in> fq_pipes (xs_inpipes s)" and "p \<notin> set (di_pipes (xs_outpipes s))"
    and "can_out p w" and "Suc (length (di_pipes (xs_outpipes s))) < 2 ^ 32"
  shows "\<exists>s'. grid_xsurveyor_out s p = Some s' \<and> xsurveyor_ok can_in can_out s' w
    \<and> set (di_pipes (xs_outpipes s')) = insert p (set (di_pipes (xs_outpipes s))) \<and> xs_inpipes s' = xs_inpipes s"
  using assms dist_out_ok [of can_out "xs_outpipes s" w p] by (auto simp: grid_xsurveyor_out_def xsurveyor_ok_def)

context pipe_world
begin

text \<open>A survey goes to every pipe that can take it, once.\<close>

lemma xsurveyor_send_ok:
  assumes w: "winv w" and s: "xsurveyor_ok can_in can_out s w"
  shows "\<exists>s' w'. grid_xsurveyor_send psend m s w = Some (s', w') \<and> winv w' \<and> xsurveyor_ok can_in can_out s' w'
    \<and> xs_inpipes s' = xs_inpipes s \<and> send_each psend m (di_pipes (xs_outpipes s)) w = Some w'"
proof -
  have d: "dist_ok can_out (xs_outpipes s) w" using s by (simp add: xsurveyor_ok_def)
  from dist_send_ok [OF w d, of m None] obtain d' w' where "grid_dist_send psend m None (xs_outpipes s) w = Some (d', w')"
    "winv w'" "dist_ok can_out d' w'" "set (di_pipes d') = {p \<in> set (di_pipes (xs_outpipes s)). can_out p w'}"
    "\<forall>q. can_in q w' = can_in q w" "send_each psend m (di_pipes (xs_outpipes s)) w = Some w'" by auto
  with s show ?thesis by (auto simp: grid_xsurveyor_send_def xsurveyor_ok_def fq_ok_def)
qed

lemma xsurveyor_recv_ok:
  assumes w: "winv w" and s: "xsurveyor_ok can_in can_out s w"
  shows "\<exists>r s' w'. grid_xsurveyor_recv precv s w = Some (r, s', w') \<and> winv w' \<and> xsurveyor_ok can_in can_out s' w'
    \<and> xs_outpipes s' = xs_outpipes s
    \<and> (if fq_readable (xs_inpipes s) = {} then r = Inl EAGAIN \<and> s' = s \<and> w' = w
       else \<exists>p \<in> fq_readable (xs_inpipes s). \<exists>rc m x. precv p w = Some (rc, m, w')
         \<and> grid_fq_recv precv (xs_inpipes s) w = Some (Inr x, xs_inpipes s', w')
         \<and> r = (case split_reply (parsed rc) m of None \<Rightarrow> Inl EAGAIN | Some m' \<Rightarrow> Inr m'))"
proof -
  have l: "fq_ok can_in (xs_inpipes s) w" using s by (simp add: xsurveyor_ok_def)
  from fq_recv_ok [OF w l] obtain r l' w' where
    r: "grid_fq_recv precv (xs_inpipes s) w = Some (r, l', w')" "winv w'" "fq_ok can_in l' w'"
    "pl_prio (fq_priolist l') = pl_prio (fq_priolist (xs_inpipes s))" "\<forall>q. can_out q w' = can_out q w"
    and c: "case r of Inl e \<Rightarrow> e = EAGAIN \<and> fq_readable (xs_inpipes s) = {} \<and> l' = xs_inpipes s \<and> w' = w
       | Inr (f, m, p) \<Rightarrow> p \<in> fq_readable (xs_inpipes s) \<and> \<not> released f
           \<and> (\<forall>q \<in> fq_readable (xs_inpipes s). the (pl_prio (fq_priolist (xs_inpipes s)) p)
                \<le> the (pl_prio (fq_priolist (xs_inpipes s)) q))
           \<and> (\<exists>rc. precv p w = Some (rc, m, w') \<and> parsed f = parsed rc) \<and> (parsed f \<or> sphdr m = [])" by blast
  define s' where "s' = s\<lparr>xs_inpipes := l'\<rparr>"
  have ok: "xsurveyor_ok can_in can_out s' w'" "xs_outpipes s' = xs_outpipes s"
    using s r(3-5) by (simp_all add: s'_def xsurveyor_ok_def dist_ok_def)
  show ?thesis
  proof (cases r)
    case (Inl e)
    with c have "grid_xsurveyor_recv precv s w = Some (Inl EAGAIN, s, w)" "fq_readable (xs_inpipes s) = {}"
      using r(1) by (simp_all add: grid_xsurveyor_recv_def)
    with w s show ?thesis by simp
  next
    case (Inr x)
    obtain f m p where x: "x = (f, m, p)" by (cases x)
    with Inr c obtain rc where d: "p \<in> fq_readable (xs_inpipes s)" "precv p w = Some (rc, m, w')" "parsed f = parsed rc"
      "parsed rc \<or> sphdr m = []" by auto
    define r0 where "r0 = (case split_reply (parsed rc) m of None \<Rightarrow> Inl EAGAIN | Some m' \<Rightarrow> Inr m')"
    have e: "grid_xsurveyor_recv precv s w = Some (r0, s', w')"
      using r(1) Inr x d(3,4) by (auto simp: grid_xsurveyor_recv_def r0_def s'_def split_reply_def take_header_def)
    have ne: "fq_readable (xs_inpipes s) \<noteq> {}" using d(1) by blast
    have "grid_fq_recv precv (xs_inpipes s) w = Some (Inr x, xs_inpipes s', w')" using r(1) Inr by (simp add: s'_def)
    with e ok r(2) d(1,2) show ?thesis unfolding if_not_P [OF ne] r0_def by blast
  qed
qed

end

section \<open>The surveyor's invariant\<close>

definition sv_phase :: "surveyor_state \<Rightarrow> timer_phase option" where
  "sv_phase st = (case st of
       SV_PASSIVE \<Rightarrow> Some PIdle | SV_ACTIVE \<Rightarrow> Some PActive
     | SV_CANCELLING \<Rightarrow> Some PStopping | SV_STOPPING_TIMER \<Rightarrow> Some PStopping
     | SV_IDLE \<Rightarrow> None | SV_STOPPING \<Rightarrow> None)"

definition sv_base ::
  "(nat \<Rightarrow> 'w \<Rightarrow> bool) \<Rightarrow> (nat \<Rightarrow> 'w \<Rightarrow> bool) \<Rightarrow> grid_surveyor \<Rightarrow> 'w \<Rightarrow> bool" where
  "sv_base can_in can_out s w \<longleftrightarrow> xsurveyor_ok can_in can_out (sv_xsurveyor s) w \<and> timer_inv (sv_timer s)
     \<and> fs_state (sv_fsm s) = FSM_ACTIVE \<and> \<not> fs_stopped (sv_fsm s) \<and> 0 \<le> sv_deadline s"

text \<open>
  The timer does what the state says, and while a survey is in progress the stored message
  carries its id, which has the top bit set.
\<close>

definition sv_inv ::
  "(nat \<Rightarrow> 'w \<Rightarrow> bool) \<Rightarrow> (nat \<Rightarrow> 'w \<Rightarrow> bool) \<Rightarrow> grid_surveyor \<Rightarrow> 'w \<Rightarrow> bool" where
  "sv_inv can_in can_out s w \<longleftrightarrow> sv_base can_in can_out s w
     \<and> sv_phase (sv_state s) = Some (timer_phase (sv_timer s))
     \<and> (grid_surveyor_inprogress s \<longrightarrow> sphdr (sv_tosend s) = key_bytes (sv_surveyid s) \<and> bit (sv_surveyid s) 31)"

lemma sv_inprogress: "grid_surveyor_inprogress s \<longleftrightarrow> sv_state s \<notin> {SV_IDLE, SV_PASSIVE, SV_STOPPING}"
  by (simp add: grid_surveyor_inprogress_def)

lemma sv_feed_running: "fs_state (sv_fsm s) = FSM_ACTIVE \<Longrightarrow> surveyor_feed psend e (s, w) = grid_surveyor_handler psend e (s, w)"
  by (simp add: surveyor_feed_def grid_fsm_feed_def)

lemma sv_init_inv:
  "\<exists>s. grid_surveyor_init psend random w = Some (s, w) \<and> sv_inv can_in can_out s w \<and> sv_state s = SV_PASSIVE
     \<and> sv_xsurveyor s = grid_xsurveyor_init \<and> sv_surveyid s = random \<and> \<not> sv_timedout s"
proof -
  define s where "s = \<lparr>sv_xsurveyor = grid_xsurveyor_init, sv_fsm = \<lparr>fs_state = FSM_ACTIVE, fs_stopped = False\<rparr>,
    sv_state = SV_PASSIVE, sv_surveyid = random, sv_timer = grid_timer_init, sv_tosend = \<lparr>sphdr = [], hdrs = [], body = []\<rparr>,
    sv_deadline = GRID_SURVEYOR_DEFAULT_DEADLINE, sv_timedout = False, sv_stopped = False\<rparr>"
  have "grid_surveyor_init psend random w = Some (s, w)"
    by (simp add: grid_surveyor_init_def grid_fsm_start_def grid_fsm_isidle_def grid_fsm_init_def
        grid_surveyor_handler_def s_def)
  moreover have "sv_inv can_in can_out s w"
    using xsurveyor_init_ok timer_init_inv
    by (simp add: s_def sv_inv_def sv_base_def sv_phase_def sv_inprogress GRID_SURVEYOR_DEFAULT_DEADLINE_def)
  ultimately show ?thesis by (auto simp: s_def)
qed

text \<open>The survey is on its way: it went to every writable pipe once, and the deadline runs.\<close>

definition surveyed ::
  "(nat \<Rightarrow> msg \<Rightarrow> 'w \<Rightarrow> (u32 \<times> 'w) option) \<Rightarrow> grid_surveyor \<Rightarrow> 'w \<Rightarrow> grid_surveyor \<Rightarrow> 'w \<Rightarrow> bool" where
  "surveyed psend s w s' w' \<longleftrightarrow> sv_state s' = SV_ACTIVE \<and> sv_surveyid s' = sv_surveyid s \<and> sv_tosend s' = sv_tosend s
     \<and> xs_inpipes (sv_xsurveyor s') = xs_inpipes (sv_xsurveyor s)
     \<and> send_each psend (sv_tosend s) (di_pipes (xs_outpipes (sv_xsurveyor s))) w = Some w'"

lemma stop_deadline_ok:
  assumes "sv_base can_in can_out s w" and "timer_phase (sv_timer s) = PActive"
  shows "\<exists>t. stop_deadline st s = Some (s\<lparr>sv_timer := t, sv_state := st\<rparr>) \<and> timer_inv t \<and> timer_phase t = PStopping"
  using timer_stop_inv [of "sv_timer s"] assms by (auto simp: stop_deadline_def sv_base_def)

context pipe_world
begin

lemma start_survey_ok:
  assumes w: "winv w" and b: "sv_base can_in can_out s w" and ph: "timer_phase (sv_timer s) = PIdle"
    and h: "sphdr (sv_tosend s) = key_bytes (sv_surveyid s)" "bit (sv_surveyid s) 31"
  shows "\<exists>s' w'. start_survey psend (s, w) = Some (s', w') \<and> winv w' \<and> sv_inv can_in can_out s' w' \<and> surveyed psend s w s' w'"
proof -
  have x: "xsurveyor_ok can_in can_out (sv_xsurveyor s) w" and t: "timer_inv (sv_timer s)" "0 \<le> sv_deadline s"
    using b by (simp_all add: sv_base_def)
  from xsurveyor_send_ok [OF w x, of "sv_tosend s"] obtain x' w' where
    x': "grid_xsurveyor_send psend (sv_tosend s) (sv_xsurveyor s) w = Some (x', w')" "winv w'" "xsurveyor_ok can_in can_out x' w'"
    "xs_inpipes x' = xs_inpipes (sv_xsurveyor s)" "send_each psend (sv_tosend s) (di_pipes (xs_outpipes (sv_xsurveyor s))) w = Some w'"
    by blast
  from timer_start_inv [OF t(1) ph t(2)] obtain t' where
    t': "grid_timer_start (sv_deadline s) (sv_timer s) = Some t'" "timer_inv t'" "timer_phase t' = PActive" by blast
  define s' where "s' = s\<lparr>sv_xsurveyor := x', sv_timer := t', sv_state := SV_ACTIVE\<rparr>"
  have "start_survey psend (s, w) = Some (s', w')"
    using x'(1) t'(1) by (simp add: start_survey_def grid_surveyor_resend_def s'_def)
  moreover have "sv_inv can_in can_out s' w'"
    using b x'(3) t'(2,3) h by (simp add: s'_def sv_inv_def sv_base_def sv_phase_def)
  moreover have "surveyed psend s w s' w'" using x'(4,5) by (simp add: s'_def surveyed_def)
  ultimately show ?thesis using x'(2) by blast
qed

text \<open>
  A new survey gets a fresh id and replaces the stored one. A passive socket sends it at once;
  otherwise the current survey is cancelled and the new one waits for the timer to stop.
\<close>

lemma surveyor_send_ok:
  assumes w: "winv w" and i: "sv_inv can_in can_out s w" and m: "sphdr m = []"
  shows "\<exists>s' w'. grid_surveyor_send psend m (s, w) = Some (Inr (), s', w') \<and> winv w' \<and> sv_inv can_in can_out s' w'
    \<and> sv_surveyid s' = (sv_surveyid s + 1) OR 0x80000000 \<and> sv_tosend s' = m\<lparr>sphdr := key_bytes (sv_surveyid s')\<rparr>
    \<and> (if sv_state s = SV_PASSIVE
       then sv_state s' = SV_ACTIVE \<and> send_each psend (sv_tosend s') (di_pipes (xs_outpipes (sv_xsurveyor s))) w = Some w'
       else sv_state s' = SV_CANCELLING \<and> w' = w \<and> sv_xsurveyor s' = sv_xsurveyor s)"
proof -
  define i' where "i' = (sv_surveyid s + 1) OR 0x80000000"
  define s2 where "s2 = s\<lparr>sv_surveyid := i', sv_tosend := m\<lparr>sphdr := key_bytes i'\<rparr>\<rparr>"
  have "(0x80000000 :: u32) = push_bit 31 1" by simp
  then have bit: "bit i' 31" unfolding i'_def by (simp only: bit_or_iff bit_push_bit_iff) simp
  have b: "sv_base can_in can_out s w" and ph: "sv_phase (sv_state s) = Some (timer_phase (sv_timer s))"
    and f: "fs_state (sv_fsm s) = FSM_ACTIVE" using i by (simp_all add: sv_inv_def sv_base_def)
  have b2: "sv_base can_in can_out s2 w" and f2: "fs_state (sv_fsm s2) = FSM_ACTIVE"
    using b by (simp_all add: sv_base_def s2_def)
  have s2: "sv_state s2 = sv_state s" "sv_timer s2 = sv_timer s" "sv_surveyid s2 = i'"
    "sv_xsurveyor s2 = sv_xsurveyor s" "sv_tosend s2 = m\<lparr>sphdr := key_bytes i'\<rparr>" by (simp_all add: s2_def)
  have ev: "grid_xsurveyor_events x AND GRID_SOCKBASE_EVENT_OUT \<noteq> 0" for x
  proof -
    have "bit (grid_xsurveyor_events x AND GRID_SOCKBASE_EVENT_OUT) 1"
      by (simp add: grid_xsurveyor_events_def GRID_SOCKBASE_EVENT_OUT_def GRID_SOCKBASE_EVENT_IN_def bit_simps)
    then show ?thesis by (metis bit_0_eq bot_apply bot_bool_def)
  qed
  have snd: "grid_surveyor_send psend m (s, w) = map_option (\<lambda>sw'. (Inr (), sw'))
      (surveyor_feed psend (if grid_surveyor_inprogress s then SV_ACTION_CANCEL else SV_ACTION_START) (s2, w))"
    using m ev by (simp add: grid_surveyor_send_def key_bytes(1) i'_def [symmetric] s2_def sv_inprogress)
  consider "sv_state s = SV_PASSIVE" | "sv_state s = SV_ACTIVE" | "sv_state s = SV_CANCELLING" | "sv_state s = SV_STOPPING_TIMER"
    using ph by (cases "sv_state s") (simp_all add: sv_phase_def)
  then show ?thesis
  proof cases
    case 1
    have "timer_phase (sv_timer s2) = PIdle" "sphdr (sv_tosend s2) = key_bytes (sv_surveyid s2)"
      using 1 ph s2 by (simp_all add: sv_phase_def)
    from start_survey_ok [OF w b2 this] s2 bit obtain s' w' where s': "start_survey psend (s2, w) = Some (s', w')" "winv w'"
      "sv_inv can_in can_out s' w'" "surveyed psend s2 w s' w'" by auto
    have "grid_surveyor_send psend m (s, w) = Some (Inr (), s', w')"
      using 1 s'(1) s2(1) by (simp add: snd sv_inprogress sv_feed_running [OF f2] grid_surveyor_handler_def)
    with 1 s' s2 show ?thesis by (simp add: surveyed_def i'_def [symmetric])
  next
    case 2
    have "timer_phase (sv_timer s2) = PActive" using 2 ph s2 by (simp add: sv_phase_def)
    from stop_deadline_ok [OF b2 this, of SV_CANCELLING] obtain t where
      t: "stop_deadline SV_CANCELLING s2 = Some (s2\<lparr>sv_timer := t, sv_state := SV_CANCELLING\<rparr>)" "timer_inv t" "timer_phase t = PStopping"
      by blast
    let ?s = "s2\<lparr>sv_timer := t, sv_state := SV_CANCELLING\<rparr>"
    have "grid_surveyor_send psend m (s, w) = Some (Inr (), ?s, w)"
      using 2 t(1) s2(1) by (simp add: snd sv_inprogress sv_feed_running [OF f2] grid_surveyor_handler_def)
    moreover have "sv_inv can_in can_out ?s w"
      using b2 t(2,3) bit s2 by (simp add: sv_inv_def sv_base_def sv_phase_def)
    ultimately show ?thesis using 2 w s2 by (simp add: i'_def [symmetric])
  next
    case 3
    have "grid_surveyor_send psend m (s, w) = Some (Inr (), s2, w)"
      using 3 s2(1) by (simp add: snd sv_inprogress sv_feed_running [OF f2] grid_surveyor_handler_def)
    moreover have "sv_inv can_in can_out s2 w" using 3 b2 ph bit s2 by (simp add: sv_inv_def)
    ultimately show ?thesis using 3 w s2 by (simp add: i'_def [symmetric])
  next
    case 4
    have "grid_surveyor_send psend m (s, w) = Some (Inr (), s2\<lparr>sv_state := SV_CANCELLING\<rparr>, w)"
      using 4 s2(1) by (simp add: snd sv_inprogress sv_feed_running [OF f2] grid_surveyor_handler_def)
    moreover have "sv_inv can_in can_out (s2\<lparr>sv_state := SV_CANCELLING\<rparr>) w"
      using 4 b2 ph bit s2 by (simp add: sv_inv_def sv_base_def sv_phase_def)
    ultimately show ?thesis using 4 w s2 by (simp add: i'_def [symmetric])
  qed
qed

end

section \<open>The deadline\<close>

text \<open>What one step of the timer does to a surveyor.\<close>

definition sv_timer_result ::
  "(nat \<Rightarrow> msg \<Rightarrow> 'w \<Rightarrow> (u32 \<times> 'w) option) \<Rightarrow> timer_event list \<Rightarrow> grid_surveyor \<Rightarrow> 'w \<Rightarrow> grid_surveyor \<Rightarrow> 'w \<Rightarrow> bool" where
  "sv_timer_result psend es s w s' w' \<longleftrightarrow> sv_surveyid s' = sv_surveyid s \<and> sv_tosend s' = sv_tosend s
     \<and> (if es = [] then sv_state s' = sv_state s \<and> sv_timedout s' = sv_timedout s \<and> w' = w
       else if es = [GRID_TIMER_TIMEOUT] then sv_state s = SV_ACTIVE \<and> sv_state s' = SV_STOPPING_TIMER \<and> sv_timedout s' \<and> w' = w
       else if sv_state s = SV_CANCELLING then surveyed psend s w s' w'
       else sv_state s' = SV_PASSIVE \<and> sv_timedout s' = sv_timedout s \<and> w' = w)"

context pipe_world
begin

lemma sv_timer_ok:
  assumes w: "winv w" and i: "sv_inv can_in can_out s w"
    and ts: "tstep (sv_timer s) = Some (es, t)" "timer_inv t"
    and c: "es = [] \<and> timer_phase t = timer_phase (sv_timer s)
       \<or> es = [GRID_TIMER_TIMEOUT] \<and> timer_phase (sv_timer s) = PActive \<and> timer_phase t = PActive
       \<or> es = [GRID_TIMER_STOPPED] \<and> timer_phase (sv_timer s) = PStopping \<and> timer_phase t = PIdle"
  shows "\<exists>s' w'. surveyor_timer_step tstep psend (s, w) = Some (s', w') \<and> winv w' \<and> sv_inv can_in can_out s' w'
    \<and> sv_timer_result psend es s w s' w'"
proof -
  let ?s = "s\<lparr>sv_timer := t\<rparr>"
  have b: "sv_base can_in can_out ?s w" and ph: "sv_phase (sv_state s) = Some (timer_phase (sv_timer s))"
    and f: "fs_state (sv_fsm ?s) = FSM_ACTIVE"
    and h: "grid_surveyor_inprogress s \<longrightarrow> sphdr (sv_tosend s) = key_bytes (sv_surveyid s) \<and> bit (sv_surveyid s) 31"
    using i ts(2) by (simp_all add: sv_inv_def sv_base_def)
  have step: "surveyor_timer_step tstep psend (s, w) = surveyor_feed_events psend es (?s, w)"
    using ts(1) by (simp add: surveyor_timer_step_def)
  have fe: "surveyor_feed_events psend [e] (?s, w) = grid_surveyor_handler psend (SV_TIMER e) (?s, w)" for e
    by (cases "grid_surveyor_handler psend (SV_TIMER e) (?s, w)") (simp_all add: sv_feed_running [OF f])
  from c show ?thesis
  proof (elim disjE conjE)
    assume e: "es = []" "timer_phase t = timer_phase (sv_timer s)"
    then have "sv_inv can_in can_out ?s w" using b ph h by (simp add: sv_inv_def sv_inprogress)
    with e w step show ?thesis by (simp add: sv_timer_result_def)
  next
    assume e: "es = [GRID_TIMER_TIMEOUT]" "timer_phase (sv_timer s) = PActive" "timer_phase t = PActive"
    then have a: "sv_state s = SV_ACTIVE" using ph by (cases "sv_state s") (auto simp: sv_phase_def)
    have "timer_phase (sv_timer ?s) = PActive" using e(3) by simp
    from stop_deadline_ok [OF b this, of SV_STOPPING_TIMER] obtain t' where
      t': "stop_deadline SV_STOPPING_TIMER ?s = Some (?s\<lparr>sv_timer := t', sv_state := SV_STOPPING_TIMER\<rparr>)" "timer_inv t'"
      "timer_phase t' = PStopping" by blast
    let ?s' = "?s\<lparr>sv_timer := t', sv_state := SV_STOPPING_TIMER, sv_timedout := True\<rparr>"
    have "surveyor_timer_step tstep psend (s, w) = Some (?s', w)"
      unfolding step e(1) fe using a t'(1) by (simp add: grid_surveyor_handler_def)
    moreover have "sv_inv can_in can_out ?s' w"
      using b t'(2,3) h a by (simp add: sv_inv_def sv_base_def sv_phase_def sv_inprogress)
    ultimately show ?thesis using w e(1) a by (simp add: sv_timer_result_def)
  next
    assume e: "es = [GRID_TIMER_STOPPED]" "timer_phase (sv_timer s) = PStopping" "timer_phase t = PIdle"
    consider "sv_state s = SV_CANCELLING" | "sv_state s = SV_STOPPING_TIMER"
      using ph e(2) by (cases "sv_state s") (auto simp: sv_phase_def)
    then show ?thesis
    proof cases
      case 1
      have "timer_phase (sv_timer ?s) = PIdle" "sphdr (sv_tosend ?s) = key_bytes (sv_surveyid ?s)" "bit (sv_surveyid ?s) 31"
        using e(3) h 1 by (simp_all add: sv_inprogress)
      from start_survey_ok [OF w b this] obtain s' w' where s': "start_survey psend (?s, w) = Some (s', w')" "winv w'"
        "sv_inv can_in can_out s' w'" "surveyed psend ?s w s' w'" by blast
      have "surveyor_timer_step tstep psend (s, w) = Some (s', w')"
        unfolding step e(1) fe using 1 s'(1) by (simp add: grid_surveyor_handler_def)
      with s' 1 e(1) show ?thesis by (simp add: sv_timer_result_def surveyed_def)
    next
      case 2
      have "surveyor_timer_step tstep psend (s, w) = Some (?s\<lparr>sv_state := SV_PASSIVE\<rparr>, w)"
        unfolding step e(1) fe using 2 by (simp add: grid_surveyor_handler_def)
      moreover have "sv_inv can_in can_out (?s\<lparr>sv_state := SV_PASSIVE\<rparr>) w"
        using b e(3) by (simp add: sv_inv_def sv_base_def sv_phase_def sv_inprogress)
      ultimately show ?thesis using w 2 e(1) by (simp add: sv_timer_result_def)
    qed
  qed
qed

lemma sv_task_ok:
  assumes w: "winv w" and i: "sv_inv can_in can_out s w"
  shows "\<exists>s' w'. surveyor_timer_step timer_task_step psend (s, w) = Some (s', w') \<and> winv w' \<and> sv_inv can_in can_out s' w'"
    "\<exists>s' w'. surveyor_timer_step timer_expire_step psend (s, w) = Some (s', w') \<and> winv w' \<and> sv_inv can_in can_out s' w'"
proof -
  have ti: "timer_inv (sv_timer s)" using i by (simp add: sv_inv_def sv_base_def)
  have any: "\<exists>s' w'. surveyor_timer_step tstep psend (s, w) = Some (s', w') \<and> winv w' \<and> sv_inv can_in can_out s' w'"
    if ts: "timer_service timer_inv timer_phase grid_timer_start grid_timer_stop tstep" for tstep
  proof -
    from timer_service.step_ok [OF ts ti] obtain es t where t: "tstep (sv_timer s) = Some (es, t)" "timer_inv t"
      "es = [] \<and> timer_phase t = timer_phase (sv_timer s)
       \<or> es = [GRID_TIMER_TIMEOUT] \<and> timer_phase (sv_timer s) = PActive \<and> timer_phase t = PActive
       \<or> es = [GRID_TIMER_STOPPED] \<and> timer_phase (sv_timer s) = PStopping \<and> timer_phase t = PIdle"
      by (elim exE conjE)
    from sv_timer_ok [OF w i, of tstep es t, OF t] show ?thesis by blast
  qed
  show "\<exists>s' w'. surveyor_timer_step timer_task_step psend (s, w) = Some (s', w') \<and> winv w' \<and> sv_inv can_in can_out s' w'"
    by (rule any [OF task_timer.timer_service_axioms])
  show "\<exists>s' w'. surveyor_timer_step timer_expire_step psend (s, w) = Some (s', w') \<and> winv w' \<and> sv_inv can_in can_out s' w'"
    by (rule any [OF expire_timer.timer_service_axioms])
qed

end

fun surveyor_tasks ::
  "nat \<Rightarrow> (nat \<Rightarrow> msg \<Rightarrow> 'w \<Rightarrow> (u32 \<times> 'w) option) \<Rightarrow> grid_surveyor \<times> 'w \<Rightarrow> (grid_surveyor \<times> 'w) option" where
  "surveyor_tasks 0 psend sw = Some sw"
| "surveyor_tasks (Suc k) psend sw = Option.bind (surveyor_timer_step timer_task_step psend sw) (surveyor_tasks k psend)"

lemma surveyor_tasks_0 [simp]: "surveyor_tasks 0 psend = Some"
  by (rule ext) simp

context pipe_world
begin

text \<open>While the timer is stopping, at most two of the worker's tasks lead on.\<close>

lemma sv_stopping_ok:
  assumes w: "winv w" and i: "sv_inv can_in can_out s w" and ph: "timer_phase (sv_timer s) = PStopping"
  shows "\<exists>k \<le> 2. \<exists>s' w'. surveyor_tasks k psend (s, w) = Some (s', w') \<and> winv w' \<and> sv_inv can_in can_out s' w'
    \<and> sv_timer_result psend [GRID_TIMER_STOPPED] s w s' w'"
proof -
  have ti: "timer_inv (sv_timer s)" using i by (simp add: sv_inv_def sv_base_def)
  note sv = sv_timer_ok [where tstep = timer_task_step]
  from timer_stops [OF ti ph] show ?thesis
  proof
    assume "\<exists>t'. timer_task_step (sv_timer s) = Some ([GRID_TIMER_STOPPED], t') \<and> timer_inv t' \<and> timer_phase t' = PIdle"
    then obtain t' where t': "timer_task_step (sv_timer s) = Some ([GRID_TIMER_STOPPED], t')" "timer_inv t'"
      "timer_phase t' = PIdle" by blast
    from sv [OF w i t'(1,2)] t'(3) ph show ?thesis by (intro exI [of _ 1]) simp
  next
    assume "\<exists>t1 t'. timer_task_step (sv_timer s) = Some ([], t1)
      \<and> timer_task_step t1 = Some ([GRID_TIMER_STOPPED], t') \<and> timer_inv t' \<and> timer_phase t' = PIdle"
    then obtain t1 t' where t': "timer_task_step (sv_timer s) = Some ([], t1)"
      "timer_task_step t1 = Some ([GRID_TIMER_STOPPED], t')" "timer_inv t'" "timer_phase t' = PIdle" by blast
    from task_timer.step_ok [OF ti] t'(1) have t1: "timer_inv t1" "timer_phase t1 = PStopping" using ph by auto
    define s1 where "s1 = s\<lparr>sv_timer := t1\<rparr>"
    have e: "surveyor_timer_step timer_task_step psend (s, w) = Some (s1, w)"
      using t'(1) by (simp add: surveyor_timer_step_def s1_def)
    have i1: "sv_inv can_in can_out s1 w"
      using i t1 ph by (simp add: s1_def sv_inv_def sv_base_def sv_inprogress)
    have "timer_task_step (sv_timer s1) = Some ([GRID_TIMER_STOPPED], t')" "timer_phase (sv_timer s1) = PStopping"
      using t'(2) t1 by (simp_all add: s1_def)
    from sv [OF w i1 this(1) t'(3)] this(2) t'(4) obtain s' w' where
      "surveyor_timer_step timer_task_step psend (s1, w) = Some (s', w')" "winv w'" "sv_inv can_in can_out s' w'"
      "sv_timer_result psend [GRID_TIMER_STOPPED] s1 w s' w'" by auto
    moreover have "sv_timer_result psend [GRID_TIMER_STOPPED] s1 w s' w' = sv_timer_result psend [GRID_TIMER_STOPPED] s w s' w'"
      by (simp add: sv_timer_result_def surveyed_def s1_def)
    ultimately show ?thesis using e by (intro exI [of _ 2]) (simp add: numeral_2_eq_2)
  qed
qed

end

section \<open>Responses\<close>

text \<open>
  The response handed to the user came from a pipe and carried the id of the current survey in
  its header; it is returned without that header.
\<close>

definition own_response ::
  "(nat \<Rightarrow> 'w \<Rightarrow> (u32 \<times> msg \<times> 'w) option) \<Rightarrow> u32 \<Rightarrow> msg \<Rightarrow> 'w \<Rightarrow> bool" where
  "own_response precv i m w' \<longleftrightarrow> (\<exists>p w0 rc m0 m1. precv p w0 = Some (rc, m0, w') \<and> split_reply (parsed rc) m0 = Some m1
     \<and> sphdr m1 = key_bytes i \<and> m = m1\<lparr>sphdr := []\<rparr>)"

lemma key_bytes_unique: "length h = 4 \<Longrightarrow> grid_getl h = Some i \<Longrightarrow> h = key_bytes i"
  using grid_putl_getl [of h i] by (simp add: key_bytes_def)

context finite_pipes
begin

lemma surveyor_recv_loop_ok:
  assumes "winv w" and "xsurveyor_ok can_in can_out x w"
  shows "\<exists>r x' w'. surveyor_recv_loop precv i (x, w) = Some (r, x', w') \<and> winv w' \<and> xsurveyor_ok can_in can_out x' w'
    \<and> (case r of Inl e \<Rightarrow> e = EAGAIN | Inr m \<Rightarrow> own_response precv i m w')"
  using assms
proof (induction "\<Sum>p \<in> fq_readable (xs_inpipes x). backlog p w" arbitrary: x w rule: less_induct)
  case less
  note loop = surveyor_recv_loop.simps [of precv i "(x, w)"]
  from xsurveyor_recv_ok [OF less.prems] obtain r x' w' where
    r: "grid_xsurveyor_recv precv x w = Some (r, x', w')" "winv w'" "xsurveyor_ok can_in can_out x' w'"
    and c: "if fq_readable (xs_inpipes x) = {} then r = Inl EAGAIN \<and> x' = x \<and> w' = w
       else \<exists>p \<in> fq_readable (xs_inpipes x). \<exists>rc m y. precv p w = Some (rc, m, w')
         \<and> grid_fq_recv precv (xs_inpipes x) w = Some (Inr y, xs_inpipes x', w')
         \<and> r = (case split_reply (parsed rc) m of None \<Rightarrow> Inl EAGAIN | Some m' \<Rightarrow> Inr m')" by (elim exE conjE)
  show ?case
  proof (cases r)
    case (Inl e)
    with c have "e = EAGAIN" by (auto split: if_splits option.splits)
    with Inl r show ?thesis by (simp add: loop)
  next
    case (Inr m1)
    with c have ne: "fq_readable (xs_inpipes x) \<noteq> {}" by auto
    from c [unfolded if_not_P [OF ne]] obtain p rc m y where y: "precv p w = Some (rc, m, w')"
      "grid_fq_recv precv (xs_inpipes x) w = Some (Inr y, xs_inpipes x', w')"
      "r = (case split_reply (parsed rc) m of None \<Rightarrow> Inl EAGAIN | Some m' \<Rightarrow> Inr m')" by (elim bexE exE conjE)
    with Inr have m1: "split_reply (parsed rc) m = Some m1" by (cases "split_reply (parsed rc) m") simp_all
    have l: "fq_ok can_in (xs_inpipes x) w" using less.prems(2) by (simp add: xsurveyor_ok_def)
    note again = less.hyps [OF fq_recv_backlog [OF less.prems(1) l y(2)] r(2,3)]
    show ?thesis
    proof (cases "length (sphdr m1) = 4 \<and> grid_getl (sphdr m1) = Some i")
      case True
      then have "surveyor_recv_loop precv i (x, w) = Some (Inr (m1\<lparr>sphdr := []\<rparr>), x', w')"
        using r(1) Inr by (simp add: loop)
      moreover have "own_response precv i (m1\<lparr>sphdr := []\<rparr>) w'"
        using y(1) m1 True key_bytes_unique unfolding own_response_def by blast
      ultimately show ?thesis using r(2,3) by simp
    next
      case False
      obtain k where "length (sphdr m1) = 4 \<longrightarrow> grid_getl (sphdr m1) = Some k"
        using grid_getl_defined [of "sphdr m1"] by (cases "length (sphdr m1) = 4") auto
      with False have "surveyor_recv_loop precv i (x, w) = surveyor_recv_loop precv i (x', w')"
        using r(1) Inr by (auto simp: loop)
      with again show ?thesis by simp
    qed
  qed
qed

text \<open>Receiving: the errors of a socket without a survey, and else a response to the current one.\<close>

lemma surveyor_recv_ok:
  assumes w: "winv w" and i: "sv_inv can_in can_out s w"
  shows "\<exists>r s' w'. grid_surveyor_recv precv (s, w) = Some (r, s', w') \<and> winv w' \<and> sv_inv can_in can_out s' w'
    \<and> sv_state s' = sv_state s \<and> sv_surveyid s' = sv_surveyid s
    \<and> (if sv_state s = SV_PASSIVE
       then w' = w \<and> r = Inl (if sv_timedout s then ETIMEDOUT else EFSM) \<and> \<not> sv_timedout s'
       else r = Inl EAGAIN \<or> (\<exists>m. r = Inr m \<and> own_response precv (sv_surveyid s) m w'))"
proof (cases "sv_state s = SV_PASSIVE")
  case True
  have "sv_inv can_in can_out (s\<lparr>sv_timedout := False\<rparr>) w" using i by (simp add: sv_inv_def sv_base_def sv_inprogress)
  with True w i show ?thesis by (simp add: grid_surveyor_recv_def sv_inprogress)
next
  case False
  have x: "xsurveyor_ok can_in can_out (sv_xsurveyor s) w" and ip: "grid_surveyor_inprogress s"
    using i False by (auto simp: sv_inv_def sv_base_def sv_inprogress sv_phase_def)
  from surveyor_recv_loop_ok [OF w x, of "sv_surveyid s"] obtain r x' w' where
    r: "surveyor_recv_loop precv (sv_surveyid s) (sv_xsurveyor s, w) = Some (r, x', w')" "winv w'" "xsurveyor_ok can_in can_out x' w'"
    "case r of Inl e \<Rightarrow> e = EAGAIN | Inr m \<Rightarrow> own_response precv (sv_surveyid s) m w'" by blast
  have "grid_surveyor_recv precv (s, w) = Some (r, s\<lparr>sv_xsurveyor := x'\<rparr>, w')"
    using ip r(1) by (simp add: grid_surveyor_recv_def)
  moreover have "sv_inv can_in can_out (s\<lparr>sv_xsurveyor := x'\<rparr>) w'"
    using i r(3) by (simp add: sv_inv_def sv_base_def sv_inprogress)
  moreover have "r = Inl EAGAIN \<or> (\<exists>m. r = Inr m \<and> own_response precv (sv_surveyid s) m w')"
    using r(4) by (cases r) simp_all
  ultimately show ?thesis using r(2) False by simp
qed

end

section \<open>Everything that can happen to a running surveyor\<close>

datatype 'w sv_event = SvSend msg | SvRecv | SvIn nat | SvOut nat | SvAdd nat int | SvRm nat
  | SvTask | SvExpire | SvWorld 'w

definition with_xsurveyor :: "grid_surveyor \<times> 'w \<Rightarrow> grid_xsurveyor \<Rightarrow> grid_surveyor \<times> 'w" where
  "with_xsurveyor sw x = ((fst sw)\<lparr>sv_xsurveyor := x\<rparr>, snd sw)"

fun sv_event_step ::
  "(nat \<Rightarrow> msg \<Rightarrow> 'w \<Rightarrow> (u32 \<times> 'w) option) \<Rightarrow> (nat \<Rightarrow> 'w \<Rightarrow> (u32 \<times> msg \<times> 'w) option)
     \<Rightarrow> 'w sv_event \<Rightarrow> grid_surveyor \<times> 'w \<Rightarrow> (grid_surveyor \<times> 'w) option" where
  "sv_event_step psend precv (SvSend m) sw = map_option snd (grid_surveyor_send psend m sw)"
| "sv_event_step psend precv SvRecv sw = map_option snd (grid_surveyor_recv precv sw)"
| "sv_event_step psend precv (SvIn p) sw = map_option (with_xsurveyor sw) (grid_xsurveyor_in (sv_xsurveyor (fst sw)) p)"
| "sv_event_step psend precv (SvOut p) sw = map_option (with_xsurveyor sw) (grid_xsurveyor_out (sv_xsurveyor (fst sw)) p)"
| "sv_event_step psend precv (SvAdd p rp) sw = map_option (with_xsurveyor sw) (grid_xsurveyor_add (sv_xsurveyor (fst sw)) p rp)"
| "sv_event_step psend precv (SvRm p) sw = map_option (with_xsurveyor sw) (grid_xsurveyor_rm (sv_xsurveyor (fst sw)) p)"
| "sv_event_step psend precv SvTask sw = surveyor_timer_step timer_task_step psend sw"
| "sv_event_step psend precv SvExpire sw = surveyor_timer_step timer_expire_step psend sw"
| "sv_event_step psend precv (SvWorld w') sw = Some (fst sw, w')"

fun sv_enabled ::
  "('w \<Rightarrow> bool) \<Rightarrow> (nat \<Rightarrow> 'w \<Rightarrow> bool) \<Rightarrow> (nat \<Rightarrow> 'w \<Rightarrow> bool) \<Rightarrow> 'w sv_event \<Rightarrow> grid_surveyor \<times> 'w \<Rightarrow> bool" where
  "sv_enabled winv can_in can_out (SvSend m) (s, w) \<longleftrightarrow> sphdr m = []"
| "sv_enabled winv can_in can_out SvRecv (s, w) \<longleftrightarrow> True"
| "sv_enabled winv can_in can_out (SvIn p) (s, w) \<longleftrightarrow>
     p \<in> fq_pipes (xs_inpipes (sv_xsurveyor s)) \<and> p \<notin> fq_readable (xs_inpipes (sv_xsurveyor s)) \<and> can_in p w"
| "sv_enabled winv can_in can_out (SvOut p) (s, w) \<longleftrightarrow>
     p \<in> fq_pipes (xs_inpipes (sv_xsurveyor s)) \<and> p \<notin> set (di_pipes (xs_outpipes (sv_xsurveyor s))) \<and> can_out p w
     \<and> Suc (length (di_pipes (xs_outpipes (sv_xsurveyor s)))) < 2 ^ 32"
| "sv_enabled winv can_in can_out (SvAdd p rp) (s, w) \<longleftrightarrow>
     p \<notin> fq_pipes (xs_inpipes (sv_xsurveyor s)) \<and> 1 \<le> rp \<and> rp \<le> 16"
| "sv_enabled winv can_in can_out (SvRm p) (s, w) \<longleftrightarrow> True"
| "sv_enabled winv can_in can_out SvTask (s, w) \<longleftrightarrow> True"
| "sv_enabled winv can_in can_out SvExpire (s, w) \<longleftrightarrow> True"
| "sv_enabled winv can_in can_out (SvWorld w') (s, w) \<longleftrightarrow>
     winv w' \<and> (\<forall>p. can_in p w \<longrightarrow> can_in p w') \<and> (\<forall>p. can_out p w \<longrightarrow> can_out p w')"

lemma sv_with_x:
  assumes "sv_inv can_in can_out s w" and "xsurveyor_ok can_in can_out x w"
  shows "sv_inv can_in can_out (fst (with_xsurveyor (s, w) x)) w" "snd (with_xsurveyor (s, w) x) = w"
  using assms by (simp_all add: with_xsurveyor_def sv_inv_def sv_base_def sv_inprogress)

lemma sv_invD: "sv_inv can_in can_out s w \<Longrightarrow> xsurveyor_ok can_in can_out (sv_xsurveyor s) w"
  by (simp add: sv_inv_def sv_base_def)

lemma sv_world_inv:
  assumes "sv_inv can_in can_out s w" and "\<forall>p. can_in p w \<longrightarrow> can_in p w'" and "\<forall>p. can_out p w \<longrightarrow> can_out p w'"
  shows "sv_inv can_in can_out s w'"
  using assms sched_mono(1) [OF assms(2)] sched_mono(3) [OF assms(3)] by (simp add: sv_inv_def sv_base_def xsurveyor_ok_def)

inductive sv_reach for psend precv winv can_in can_out where
  sv_reach_init: "winv w \<Longrightarrow> grid_surveyor_init psend random w = Some sw \<Longrightarrow>
    sv_reach psend precv winv can_in can_out sw"
| sv_reach_step: "sv_reach psend precv winv can_in can_out sw \<Longrightarrow> sv_enabled winv can_in can_out ev sw \<Longrightarrow>
    sv_event_step psend precv ev sw = Some sw' \<Longrightarrow> sv_reach psend precv winv can_in can_out sw'"

context finite_pipes
begin

lemma sv_event_ok:
  assumes w: "winv w" and i: "sv_inv can_in can_out s w" and en: "sv_enabled winv can_in can_out ev (s, w)"
  shows "\<exists>s' w'. sv_event_step psend precv ev (s, w) = Some (s', w') \<and> winv w' \<and> sv_inv can_in can_out s' w'"
proof -
  note x = sv_invD [OF i]
  have sub: ?thesis if "sv_event_step psend precv ev (s, w) = map_option (with_xsurveyor (s, w)) r" "r = Some x'"
    "xsurveyor_ok can_in can_out x' w" for r x'
    using that sv_with_x [OF i that(3)] w by (cases "with_xsurveyor (s, w) x'") simp
  show ?thesis
  proof (cases ev)
    case (SvSend m)
    with surveyor_send_ok [OF w i, of m] en show ?thesis by auto
  next
    case SvRecv
    with surveyor_recv_ok [OF w i] show ?thesis by auto
  next
    case (SvIn p)
    with en have "p \<in> fq_pipes (xs_inpipes (sv_xsurveyor s))" "p \<notin> fq_readable (xs_inpipes (sv_xsurveyor s))" "can_in p w"
      by simp_all
    from xsurveyor_in_ok [OF x this] SvIn show ?thesis by (elim exE conjE) (rule sub, simp_all)
  next
    case (SvOut p)
    with en have "p \<in> fq_pipes (xs_inpipes (sv_xsurveyor s))" "p \<notin> set (di_pipes (xs_outpipes (sv_xsurveyor s)))" "can_out p w"
      "Suc (length (di_pipes (xs_outpipes (sv_xsurveyor s)))) < 2 ^ 32" by simp_all
    from xsurveyor_out_ok [OF x this] SvOut show ?thesis by (elim exE conjE) (rule sub, simp_all)
  next
    case (SvAdd p rp)
    with en have "p \<notin> fq_pipes (xs_inpipes (sv_xsurveyor s))" "1 \<le> rp" "rp \<le> 16" by simp_all
    from xsurveyor_add_ok [OF x this] SvAdd show ?thesis by (elim exE conjE) (rule sub, simp_all)
  next
    case (SvRm p)
    from xsurveyor_rm_ok [OF x, of p] SvRm show ?thesis by (elim exE conjE) (rule sub, simp_all)
  next
    case SvTask
    with sv_task_ok(1) [OF w i] show ?thesis by simp
  next
    case SvExpire
    with sv_task_ok(2) [OF w i] show ?thesis by simp
  next
    case (SvWorld w')
    with sv_world_inv [OF i, of w'] en show ?thesis by simp
  qed
qed

lemma sv_reach_inv:
  assumes "sv_reach psend precv winv can_in can_out sw"
  shows "winv (snd sw) \<and> sv_inv can_in can_out (fst sw) (snd sw)"
  using assms
proof (induction rule: sv_reach.induct)
  case (sv_reach_init w random sw)
  from sv_init_inv [of psend random w can_in can_out] sv_reach_init show ?case by auto
next
  case (sv_reach_step sw ev sw')
  then obtain s w where sw: "sw = (s, w)" by (cases sw)
  with sv_reach_step have "winv w" "sv_inv can_in can_out s w" "sv_enabled winv can_in can_out ev (s, w)" by simp_all
  from sv_event_ok [OF this] sv_reach_step(3) sw show ?case by auto
qed

end

section \<open>Closing the socket\<close>

text \<open>A socket that is being closed and waits for its timer is closed after at most two tasks.\<close>

lemma sv_closing:
  assumes st: "sv_state s = SV_STOPPING" "fs_state (sv_fsm s) = FSM_STOPPING" "\<not> fs_stopped (sv_fsm s)"
    and t: "timer_inv (sv_timer s)" "timer_phase (sv_timer s) = PStopping"
  shows "\<exists>k \<le> 2. \<exists>s'. surveyor_tasks k psend (s, w) = Some (s', w) \<and> sv_stopped s' \<and> sv_state s' = SV_IDLE
    \<and> grid_timer_term (sv_timer s') = Some () \<and> grid_fsm_term (sv_fsm s') = Some () \<and> sv_xsurveyor s' = sv_xsurveyor s"
proof -
  define closed where "closed t = s\<lparr>sv_timer := t, sv_state := SV_IDLE, sv_fsm := (sv_fsm s)\<lparr>fs_state := FSM_IDLE\<rparr>, sv_stopped := True\<rparr>" for t
  have last: "surveyor_feed_events psend [GRID_TIMER_STOPPED] (s\<lparr>sv_timer := t'\<rparr>, w) = Some (closed t', w)
      \<and> grid_timer_term t' = Some ()" if "timer_inv t'" "timer_phase t' = PIdle" for t'
    using that st timer_isidle_phase [OF that(1)] timer_term_ok [OF that]
    by (simp add: surveyor_feed_def grid_fsm_feed_def grid_surveyor_shutdown_def grid_fsm_stopped_noevent_def closed_def)
  have fin: "sv_stopped (closed t')" "sv_state (closed t') = SV_IDLE" "sv_timer (closed t') = t'"
    "grid_fsm_term (sv_fsm (closed t')) = Some ()" "sv_xsurveyor (closed t') = sv_xsurveyor s" for t'
    using st(3) by (simp_all add: closed_def grid_fsm_term_def grid_fsm_isidle_def)
  from timer_stops [OF t] show ?thesis
  proof
    assume "\<exists>t'. timer_task_step (sv_timer s) = Some ([GRID_TIMER_STOPPED], t') \<and> timer_inv t' \<and> timer_phase t' = PIdle"
    then obtain t' where t': "timer_task_step (sv_timer s) = Some ([GRID_TIMER_STOPPED], t')" "timer_inv t'"
      "timer_phase t' = PIdle" by blast
    have "surveyor_tasks 1 psend (s, w) = Some (closed t', w)"
      using t'(1) last [OF t'(2,3)] by (simp add: surveyor_timer_step_def)
    with fin last [OF t'(2,3)] show ?thesis by (intro exI [of _ 1] conjI exI [of _ "closed t'"]) simp_all
  next
    assume "\<exists>t1 t'. timer_task_step (sv_timer s) = Some ([], t1)
      \<and> timer_task_step t1 = Some ([GRID_TIMER_STOPPED], t') \<and> timer_inv t' \<and> timer_phase t' = PIdle"
    then obtain t1 t' where t': "timer_task_step (sv_timer s) = Some ([], t1)"
      "timer_task_step t1 = Some ([GRID_TIMER_STOPPED], t')" "timer_inv t'" "timer_phase t' = PIdle" by blast
    have "surveyor_tasks 2 psend (s, w) = Some (closed t', w)"
      using t'(1,2) last [OF t'(3,4)] by (simp add: surveyor_timer_step_def numeral_2_eq_2)
    with fin last [OF t'(3,4)] show ?thesis by (intro exI [of _ 2] conjI exI [of _ "closed t'"]) simp_all
  qed
qed

lemma surveyor_stop_ok:
  assumes "sv_inv can_in can_out s w"
  shows "\<exists>k \<le> 2. \<exists>s'. Option.bind (grid_surveyor_stop (s, w)) (surveyor_tasks k psend) = Some (s', w)
    \<and> sv_stopped s' \<and> sv_state s' = SV_IDLE
    \<and> grid_timer_term (sv_timer s') = Some () \<and> grid_fsm_term (sv_fsm s') = Some () \<and> sv_xsurveyor s' = sv_xsurveyor s"
proof -
  have f: "fs_state (sv_fsm s) = FSM_ACTIVE" "\<not> fs_stopped (sv_fsm s)" and ti: "timer_inv (sv_timer s)"
    using assms by (simp_all add: sv_inv_def sv_base_def)
  from timer_stop_inv [OF ti] obtain t where t: "grid_timer_stop (sv_timer s) = Some t" "timer_inv t"
    "timer_phase t = (if timer_phase (sv_timer s) = PActive then PStopping else timer_phase (sv_timer s))" by blast
  define s1 where "s1 = s\<lparr>sv_fsm := (sv_fsm s)\<lparr>fs_state := FSM_STOPPING\<rparr>, sv_timer := t, sv_state := SV_STOPPING\<rparr>"
  show ?thesis
  proof (cases "timer_phase t = PIdle")
    case True
    define s' where "s' = s1\<lparr>sv_state := SV_IDLE, sv_fsm := (sv_fsm s1)\<lparr>fs_state := FSM_IDLE\<rparr>, sv_stopped := True\<rparr>"
    have "grid_surveyor_stop (s, w) = Some (s', w)"
      using f t(1) True timer_isidle_phase [OF t(2)]
      by (simp add: grid_surveyor_stop_def grid_fsm_stop_def grid_surveyor_shutdown_def stop_deadline_def
          grid_fsm_stopped_noevent_def s'_def s1_def)
    moreover have "sv_timer s' = t" "grid_fsm_term (sv_fsm s') = Some ()" "sv_xsurveyor s' = sv_xsurveyor s"
      "sv_stopped s'" "sv_state s' = SV_IDLE"
      using f(2) by (simp_all add: s'_def s1_def grid_fsm_term_def grid_fsm_isidle_def)
    ultimately show ?thesis using timer_term_ok [OF t(2) True] by (intro exI [of _ 0]) simp
  next
    case False
    then have ph: "timer_phase t = PStopping" using t(3) by (cases "timer_phase (sv_timer s)") (auto split: if_splits)
    have e: "grid_surveyor_stop (s, w) = Some (s1, w)"
      using f t(1) False timer_isidle_phase [OF t(2)]
      by (simp add: grid_surveyor_stop_def grid_fsm_stop_def grid_surveyor_shutdown_def stop_deadline_def s1_def)
    have "sv_state s1 = SV_STOPPING" "fs_state (sv_fsm s1) = FSM_STOPPING" "\<not> fs_stopped (sv_fsm s1)"
      "timer_inv (sv_timer s1)" "timer_phase (sv_timer s1) = PStopping" "sv_xsurveyor s1 = sv_xsurveyor s"
      using f(2) t(2) ph by (simp_all add: s1_def)
    from sv_closing [OF this(1-5), of psend w] this(6) e show ?thesis by simp
  qed
qed

end
