(* ===== verification/Scenario.thy ===== *)
theory Scenario
  imports Sinproc Req Survey
begin

text \<open>
  States that the program reaches: two inproc sessions after the handshake, a message under way
  between them, and a request socket on one of them with a request sent. They show that the
  hypotheses of the theorems about sockets can hold.
\<close>

section \<open>Two connected sessions\<close>

lemma deliver_out_keeps:
  "event_at (deliver_out k w) i obj = event_at w i obj" "paired (deliver_out k w) i j = paired w i j"
  "inproc_can_out i w \<Longrightarrow> inproc_can_out i (deliver_out k w)"
  by (auto simp: deliver_out_def paired_def inproc_can_out_def)

lemma scene_connected:
  "\<exists>w. inproc_inv w \<and> paired w 0 1 \<and> chan_ok w 0 1 [] \<and> chan_ok w 1 0 [] \<and> inproc_can_out 0 w \<and> inproc_can_out 1 w
     \<and> event_at w 0 ODisconnect = None"
proof -
  have ij: "(0::nat) \<noteq> 1" by simp
  obtain w where w: "inproc_handshake 5 0 1 (inproc_init 100) = Some w" "inproc_inv w" "paired w 0 1"
    "chan_ok w 0 1 []" "chan_ok w 1 0 []" "inproc_can_out 0 (deliver_out 0 w)" "inproc_can_out 1 (deliver_out 1 w)"
    "event_at w 0 ODisconnect = None"
    using handshake_inv [OF fresh_init(2) ij fresh_init(1) fresh_init(1), of 5 100] by blast
  define w1 where "w1 = deliver_out 1 (deliver_out 0 w)"
  have "inproc_inv w1" unfolding w1_def using w(2) by (intro deliver_ready_inv [OF disjI2 [OF refl]])
  moreover have "chan_ok w1 0 1 []" "chan_ok w1 1 0 []"
    unfolding w1_def by (intro deliver_ready_view [OF disjI2 [OF refl]] w)+
  moreover have "inproc_can_out 0 w1" unfolding w1_def by (rule deliver_out_keeps(3) [OF w(6)])
  moreover have "inproc_can_out 1 w1"
    using w(7) by (auto simp: w1_def inproc_can_out_def deliver_out_def)
  moreover have "event_at w1 0 ODisconnect = None" "paired w1 0 1" using w(3,8) by (simp_all add: w1_def deliver_out_keeps)
  ultimately show ?thesis by blast
qed

lemma scene_readable:
  assumes m: "sphdr m = []" "hdrs m = []"
  shows "\<exists>w. inproc_inv w \<and> paired w 1 0 \<and> chan_ok w 1 0 [m] \<and> inproc_can_in 0 w"
proof -
  obtain w where w: "inproc_inv w" "paired w 1 0" "chan_ok w 1 0 []" "inproc_can_out 1 w"
    using scene_connected paired_sym by blast
  have mm: "merge_msg m = m" using m by (cases m) (simp add: merge_msg_def)
  obtain rc w1 where w1: "chan_frame 1 0 w w1" "chan_ok w1 1 0 [m]"
    using inproc_send_step [OF w(2-4), of m] mm by auto
  have i1: "inproc_inv w1" "paired w1 1 0"
    using inproc_frame(1) [OF w(1,2) w1] w(2) paired_frame [OF w1(1)] by auto
  have "\<exists>w2. inproc_inv w2 \<and> paired w2 1 0 \<and> chan_ok w2 1 0 [m] \<and> event_at w2 0 OSent = None"
  proof (cases "event_at w1 0 OSent = None")
    case True
    with i1 w1(2) show ?thesis by blast
  next
    case False
    have fsm: "sp_fsm (sess w1 0) = FSM_ACTIVE"
      using i1 unfolding inproc_inv_def by (simp add: paired_def)
    have len: "mq_count (sp_msgqueue (sess w1 0)) + 1 \<noteq> 0"
      using w1(2) False mq_count_0 by (fastforce simp: chan_ok_def chan_turn_def split: if_splits)
    obtain w2 where "chan_frame 1 0 w1 w2" "chan_ok w2 1 0 [m]" "event_at w2 0 OSent = None"
      using deliver_sent_step [OF i1(2) w1(2) False fsm len] by blast
    with inproc_frame(1) [OF i1 this(1,2)] paired_frame i1 show ?thesis by blast
  qed
  then obtain w2 where w2: "inproc_inv w2" "paired w2 1 0" "chan_ok w2 1 0 [m]" "event_at w2 0 OSent = None" by blast
  from inproc_progress [OF w2(2,3)] w2(4) have "inproc_can_in 0 w2 \<or> pb_in (ps_base w2 0)" by simp
  then show ?thesis
  proof
    assume "inproc_can_in 0 w2"
    with w2 show ?thesis by blast
  next
    assume p: "pb_in (ps_base w2 0)"
    define w3 where "w3 = deliver_in 0 w2"
    have "inproc_inv w3" "chan_ok w3 1 0 [m]"
      unfolding w3_def using w2 by (auto intro: deliver_ready_inv deliver_ready_view)
    moreover have "paired w3 1 0" using w2(2) by (simp add: w3_def deliver_in_def paired_def)
    moreover have "inproc_can_in 0 w3"
      using p w2(2,3) by (auto simp: w3_def deliver_in_def inproc_can_in_def paired_def chan_ok_def)
    ultimately show ?thesis by blast
  qed
qed

section \<open>A request socket on one of them\<close>

text \<open>A socket to which pipe \<open>0\<close> has just been added.\<close>

lemma scene_req_added:
  "\<exists>s. req_inv inproc_can_in inproc_can_out s w \<and> rq_state s = REQ_PASSIVE \<and> xq_pipes (rq_xreq s) = {0}
     \<and> xq_writable (rq_xreq s) = {} \<and> xq_readable (rq_xreq s) = {} \<and> tk_id (rq_task s) = i"
proof -
  obtain s0 where s0: "req_inv inproc_can_in inproc_can_out s0 w" "rq_state s0 = REQ_PASSIVE"
    "xq_pipes (rq_xreq s0) = {}" "tk_id (rq_task s0) = i"
    using req_init_inv [of "grid_pipe_send grid_sinproc_send" i w] by blast
  have x: "xreq_ok inproc_can_in inproc_can_out (rq_xreq s0) w" using s0(1) by (simp add: req_inv_def req_base_def)
  have e: "xq_writable (rq_xreq s0) = {}" "xq_readable (rq_xreq s0) = {}"
    using writable_registered [OF x] readable_registered [OF x] s0(3) by auto
  have n: "(0::nat) \<notin> xq_pipes (rq_xreq s0)" using s0(3) by simp
  from xreq_add_ok [OF x n, of 8 8] obtain x' where x': "grid_xreq_add (rq_xreq s0) 0 8 8 = Some x'"
    "xreq_ok inproc_can_in inproc_can_out x' w" "xq_pipes x' = {0}" "xq_writable x' = {}" "xq_readable x' = {}"
    using s0(3) e by auto
  have "req_inv inproc_can_in inproc_can_out (s0\<lparr>rq_xreq := x'\<rparr>) w"
    using s0(1,2) x' by (simp add: req_inv_def req_base_def inprogress_states)
  with s0 x' show ?thesis by (intro exI [of _ "s0\<lparr>rq_xreq := x'\<rparr>"]) simp
qed

lemma scene_req_active:
  "\<exists>s w. inproc_inv w \<and> req_inv inproc_can_in inproc_can_out s w \<and> rq_state s = REQ_ACTIVE
     \<and> tk_sent_to (rq_task s) = Some 0"
proof -
  obtain w where w: "inproc_inv w" "inproc_can_out 0 w" using scene_connected by blast
  obtain s where s: "req_inv inproc_can_in inproc_can_out s w" "rq_state s = REQ_PASSIVE" "xq_pipes (rq_xreq s) = {0}"
    "xq_writable (rq_xreq s) = {}" using scene_req_added by blast
  have "sphdr (empty_msg :: msg) = []" by (simp add: empty_msg_def)
  from pipe_world.req_csend_ok [OF inproc.pipe_world_axioms w(1) s(1) this] s(2-4) obtain s1 where
    s1: "req_inv inproc_can_in inproc_can_out s1 w" "rq_state s1 = REQ_DELAYED" "xq_pipes (rq_xreq s1) = {0}"
    by (auto simp: sent_result_def)
  have wr: "xq_writable (rq_xreq s1) = {}" using s1(1,2) by (simp add: req_inv_def)
  from pipe_world.req_out_ok [OF inproc.pipe_world_axioms w(1) s1(1), of 0] s1(2,3) wr w(2) show ?thesis by auto
qed

text \<open>A reply can arrive on the added pipe.\<close>

lemma scene_req_readable:
  "\<exists>s w. inproc_inv w \<and> req_inv inproc_can_in inproc_can_out s w \<and> 0 \<in> xq_pipes (rq_xreq s)
     \<and> 0 \<notin> xq_readable (rq_xreq s) \<and> inproc_can_in 0 w"
proof -
  have "sphdr empty_msg = []" "hdrs empty_msg = []" by (simp_all add: empty_msg_def)
  from scene_readable [OF this] obtain w where w: "inproc_inv w" "inproc_can_in 0 w" by blast
  obtain s where "req_inv inproc_can_in inproc_can_out s w" "xq_pipes (rq_xreq s) = {0}" "xq_readable (rq_xreq s) = {}"
    using scene_req_added by blast
  with w show ?thesis by auto
qed

text \<open>A raw request socket with one readable pipe, whose only message is \<open>m\<close>.\<close>

lemma scene_xreq_in: "grid_xreq_in (the (grid_xreq_add grid_xreq_init 0 1 1)) 0 = Some \<lparr>xq_lb = grid_lb_add grid_lb_init 0 1,
   xq_fq = \<lparr>fq_priolist = \<lparr>pl_slots = \<lparr>sl_pipes = [0], sl_current = Some 0\<rparr> # replicate 15 empty_slot, pl_current = 1, pl_prio = [0 \<mapsto> 1]\<rparr>\<rparr>\<rparr>"
  by (simp add: grid_xreq_in_def grid_xreq_add_def grid_xreq_init_def grid_fq_in_def grid_fq_add_def grid_fq_init_def
    grid_priolist_add_def grid_priolist_init_def grid_priolist_activate_def GRID_PRIOLIST_SLOTS_def empty_slot_def
    get_slot_def set_slot_def pl_active_def eval_nat_numeral)
lemma scene_xreq_recv: "\<exists>x1. grid_xreq_recv (\<lambda>p w. Some (3, m, w)) r \<lparr>xq_lb = lb,
   xq_fq = \<lparr>fq_priolist = \<lparr>pl_slots = \<lparr>sl_pipes = [0], sl_current = Some 0\<rparr> # replicate 15 empty_slot, pl_current = 1, pl_prio = pr\<rparr>\<rparr>\<rparr> ()
    = Some (Inr (), Some m, x1, ())
  \<and> grid_xreq_recv (\<lambda>p w. Some (3, m, w)) None x1 () = Some (Inl EAGAIN, None, x1, ())"
  by (simp add: grid_xreq_recv_def grid_fq_recv_def grid_priolist_getpipe_def get_slot_def set_slot_def
    released_def parsed_def GRID_PIPE_RELEASE_def GRID_PIPE_PARSED_def grid_priolist_advance_def hd_opt_def
    eval_nat_numeral skip_empty.simps GRID_PRIOLIST_SLOTS_def empty_slot_def)

section \<open>A reply socket with a request to be received\<close>

definition scene_request :: msg where
  "scene_request = \<lparr>sphdr = [], hdrs = [], body = [0x80, 0, 0, 1, 42]\<rparr>"

lemma scene_request_split: "\<exists>m. split_request b scene_request = Some m"
  by (simp add: split_request_def scene_request_def backtrace_size.simps [of 0])

lemma scene_rep:
  "\<exists>s w m s1 w1. inproc_inv w \<and> xrep_ok inproc_can_in inproc_can_out (rp_xrep s) w
     \<and> grid_rep_recv (grid_pipe_recv grid_sinproc_recv) s w = Some (Inr m, s1, w1)"
proof -
  have "sphdr scene_request = []" "hdrs scene_request = []" by (simp_all add: scene_request_def)
  from scene_readable [OF this] obtain w where w: "inproc_inv w" "paired w 1 0" "chan_ok w 1 0 [scene_request]"
    "inproc_can_in 0 w" by blast
  have x0: "xrep_ok inproc_can_in inproc_can_out (grid_xrep_init 5) w" by (rule xrep_init_ok)
  have "0 \<notin> xrep_pipes (grid_xrep_init 5)" "\<forall>q. xrep_keys (grid_xrep_init 5) q \<noteq> Some (xr_next_key (grid_xrep_init 5) AND 0x7fffffff)"
    by (simp_all add: xrep_pipes_def xrep_keys_def grid_xrep_init_def)
  from xrep_add_ok [OF x0 this(1) _ _ this(2), of 8] obtain x1 where
    x1: "grid_xrep_add (grid_xrep_init 5) 0 8 = Some x1" "xrep_ok inproc_can_in inproc_can_out x1 w"
    "xrep_pipes x1 = insert 0 (xrep_pipes (grid_xrep_init 5))" by auto
  have "xrep_readable x1 = {}"
    using x1(1) by (auto simp: grid_xrep_add_def xrep_readable_def grid_fq_add_def grid_priolist_add_def grid_xrep_init_def
        fq_init_ok pl_active_def grid_fq_init_def grid_priolist_init_def empty_slot_def split: bind_splits)
  with x1(3) w(4) xrep_in_ok [OF x1(2), of 0] obtain x2 where
    x2: "xrep_ok inproc_can_in inproc_can_out x2 w" "xrep_readable x2 = {0}" by auto
  define s where "s = \<lparr>rp_xrep = x2, rp_backtrace = None\<rparr>"
  have s: "xrep_ok inproc_can_in inproc_can_out (rp_xrep s) w" "xrep_readable (rp_xrep s) = {0}" using x2 by (simp_all add: s_def)
  obtain rc w' where rv: "grid_pipe_recv grid_sinproc_recv 0 w = Some (rc, scene_request, w')"
    using inproc_recv_step [OF w(2-4)] by auto
  obtain m1 where m1: "split_request (parsed rc) scene_request = Some m1" using scene_request_split by blast
  have ne: "xrep_readable (rp_xrep s) \<noteq> {}" using s(2) by simp
  from pipe_world.xrep_recv_ok [OF inproc.pipe_world_axioms w(1) s(1), unfolded if_not_P [OF ne]] s(2) rv m1 obtain m x' w'' where
    "grid_xrep_recv (grid_pipe_recv grid_sinproc_recv) (rp_xrep s) w = Some (Inr m, x', w'')" by auto
  then have "\<exists>m s1 w1. grid_rep_recv (grid_pipe_recv grid_sinproc_recv) s w = Some (Inr m, s1, w1)"
    by (simp add: grid_rep_recv_def s_def)
  with w(1) s(1) show ?thesis by blast
qed

section \<open>A surveyor with a survey running\<close>

lemma scene_surveyor_added:
  "\<exists>s. sv_inv inproc_can_in inproc_can_out s w \<and> sv_state s = SV_PASSIVE \<and> fq_pipes (xs_inpipes (sv_xsurveyor s)) = {0}
     \<and> fq_readable (xs_inpipes (sv_xsurveyor s)) = {} \<and> di_pipes (xs_outpipes (sv_xsurveyor s)) = []"
proof -
  obtain s where s: "sv_inv inproc_can_in inproc_can_out s w" "sv_state s = SV_PASSIVE" "sv_xsurveyor s = grid_xsurveyor_init"
    using sv_init_inv [of "grid_pipe_send grid_sinproc_send" 7 w inproc_can_in inproc_can_out] by blast
  have x: "xsurveyor_ok inproc_can_in inproc_can_out (sv_xsurveyor s) w" using s(1) by (rule sv_invD)
  have e: "xs_inpipes grid_xsurveyor_init = grid_fq_init" "di_pipes (xs_outpipes grid_xsurveyor_init) = []"
    by (simp_all add: grid_xsurveyor_init_def grid_dist_init_def)
  have f: "fq_ok inproc_can_in grid_fq_init w" "0 \<notin> fq_pipes grid_fq_init" "1 \<le> (8::int)" "(8::int) \<le> 16"
    by (simp_all add: fq_init_ok)
  define x' where "x' = (sv_xsurveyor s)\<lparr>xs_inpipes := grid_fq_add grid_fq_init 0 8\<rparr>"
  have x': "xs_inpipes x' = grid_fq_add grid_fq_init 0 8" "xs_outpipes x' = xs_outpipes (sv_xsurveyor s)" by (simp_all add: x'_def)
  have "xsurveyor_ok inproc_can_in inproc_can_out x' w"
    using x fq_add_ok(1) [OF f] by (simp add: xsurveyor_ok_def x' s(3) e)
  then have "sv_inv inproc_can_in inproc_can_out (s\<lparr>sv_xsurveyor := x'\<rparr>) w"
    using s(1) by (simp add: sv_inv_def sv_base_def sv_inprogress)
  with s x' e fq_add_ok(2,3) [OF f] fq_init_ok show ?thesis by (intro exI [of _ "s\<lparr>sv_xsurveyor := x'\<rparr>"]) simp
qed

lemma scene_survey_active:
  "\<exists>s w. inproc_inv w \<and> sv_inv inproc_can_in inproc_can_out s w \<and> sv_state s = SV_ACTIVE"
proof -
  obtain w where w: "inproc_inv w" using scene_connected by blast
  obtain s where s: "sv_inv inproc_can_in inproc_can_out s w" "sv_state s = SV_PASSIVE" using scene_surveyor_added by blast
  have "sphdr (empty_msg :: msg) = []" by (simp add: empty_msg_def)
  from pipe_world.surveyor_send_ok [OF inproc.pipe_world_axioms w s(1) this] s(2) show ?thesis by auto
qed

lemma scene_survey_armed:
  "\<exists>s w. inproc_inv w \<and> sv_inv inproc_can_in inproc_can_out s w \<and> sv_state s = SV_ACTIVE \<and> tm_armed (sv_timer s)"
proof -
  obtain s w where s: "inproc_inv w" "sv_inv inproc_can_in inproc_can_out s w" "sv_state s = SV_ACTIVE"
    using scene_survey_active by blast
  define t where "t = \<lparr>tm_fsm = \<lparr>fs_state = FSM_ACTIVE, fs_stopped = False\<rparr>, tm_state = TM_ACTIVE, tm_timeout = -1,
    tm_tasks = [], tm_armed = True, tm_done = False\<rparr>"
  have "timer_inv t" "timer_phase t = PActive" "tm_armed t" by (simp_all add: t_def timer_inv_def timer_phase_def)
  then have "sv_inv inproc_can_in inproc_can_out (s\<lparr>sv_timer := t\<rparr>) w" "tm_armed (sv_timer (s\<lparr>sv_timer := t\<rparr>))"
    "sv_state (s\<lparr>sv_timer := t\<rparr>) = SV_ACTIVE"
    using s(2,3) by (simp_all add: sv_inv_def sv_base_def sv_inprogress sv_phase_def)
  with s(1) show ?thesis by blast
qed

end
