(* ===== verification/SurveyProps.thy ===== *)
theory SurveyProps
  imports Scenario
begin

text \<open>
  What surveyor sockets (\<open>src/protocols/survey/surveyor.c\<close>) guarantee over any pipes that keep
  the pipe contract; the witnesses use inproc sessions as the pipes.
\<close>



text \<open>
  C17: The newest survey is the one that goes out. In every state of the socket a
  survey is accepted with a fresh id that has the top bit set, and after at most two tasks of the
  worker (a survey in progress has its timer stopped first) it has been sent once to each pipe
  that was writable, with the id as its header, and the deadline is running.
\<close>

theorem surveyor_newest_survey:
  assumes "pipe_world psend precv winv can_out can_in" and "winv w" and "sv_inv can_in can_out s w" and "sphdr m = []"
    and "i = (sv_surveyid s + 1) OR 0x80000000"
  shows "\<exists>s1 w1 k s' w'. grid_surveyor_send psend m (s, w) = Some (Inr (), s1, w1) \<and> k \<le> 2
    \<and> surveyor_tasks k psend (s1, w1) = Some (s', w') \<and> sv_state s' = SV_ACTIVE \<and> sv_surveyid s' = i
    \<and> sv_tosend s' = m\<lparr>sphdr := key_bytes i\<rparr>
    \<and> send_each psend (m\<lparr>sphdr := key_bytes i\<rparr>) (di_pipes (xs_outpipes (sv_xsurveyor s))) w = Some w'"
proof -
  from pipe_world.surveyor_send_ok [OF assms(1-4)] assms(5) obtain s1 w1 where
    s1: "grid_surveyor_send psend m (s, w) = Some (Inr (), s1, w1)" "winv w1" "sv_inv can_in can_out s1 w1"
    "sv_surveyid s1 = i" "sv_tosend s1 = m\<lparr>sphdr := key_bytes i\<rparr>"
    "if sv_state s = SV_PASSIVE
       then sv_state s1 = SV_ACTIVE \<and> send_each psend (sv_tosend s1) (di_pipes (xs_outpipes (sv_xsurveyor s))) w = Some w1
       else sv_state s1 = SV_CANCELLING \<and> w1 = w \<and> sv_xsurveyor s1 = sv_xsurveyor s" by auto
  show ?thesis
  proof (cases "sv_state s = SV_PASSIVE")
    case True
    with s1 have "surveyor_tasks 0 psend (s1, w1) = Some (s1, w1)" by simp
    with s1 True show ?thesis by (metis zero_le)
  next
    case False
    with s1 have c: "sv_state s1 = SV_CANCELLING" "w1 = w" "sv_xsurveyor s1 = sv_xsurveyor s" by simp_all
    have "timer_phase (sv_timer s1) = PStopping" using s1(3) c(1) by (simp add: sv_inv_def sv_phase_def)
    from pipe_world.sv_stopping_ok [OF assms(1) s1(2,3) this] obtain k s' w' where
      k: "k \<le> 2" "surveyor_tasks k psend (s1, w1) = Some (s', w')" "sv_timer_result psend [GRID_TIMER_STOPPED] s1 w1 s' w'"
      by blast
    then have "surveyed psend s1 w1 s' w'" using c(1) by (simp add: sv_timer_result_def)
    with s1(1,4,5) c k(1,2) show ?thesis
      by (intro exI [of _ s1] exI [of _ w1] exI [of _ k] exI [of _ s'] exI [of _ w']) (simp add: surveyed_def)
  qed
qed

theorem surveyor_newest_survey_witness:
  "\<exists>s w s1 w1 k s' w'. sv_state s = SV_ACTIVE
     \<and> grid_surveyor_send (grid_pipe_send grid_sinproc_send) empty_msg (s, w) = Some (Inr (), s1, w1)
     \<and> surveyor_tasks k (grid_pipe_send grid_sinproc_send) (s1, w1) = Some (s', w') \<and> sv_state s' = SV_ACTIVE"
proof -
  obtain s w where s: "inproc_inv w" "sv_inv inproc_can_in inproc_can_out s w" "sv_state s = SV_ACTIVE"
    using scene_survey_active by blast
  have "sphdr (empty_msg :: msg) = []" by (simp add: empty_msg_def)
  from surveyor_newest_survey [OF inproc.pipe_world_axioms s(1,2) this refl] s(3) show ?thesis by blast
qed

text \<open>
  C10: Receiving on a surveyor ends, and what it returns is a response to the
  current survey: a message that came from a pipe with the current survey's id in front of its
  body, without that id; every other message is skipped. Without a survey in progress it reports
  the timeout of the last survey once and then that there is none, and touches no pipe.
\<close>

theorem surveyor_own_responses:
  assumes "finite_pipes psend precv winv can_out can_in backlog" and "winv w" and "sv_inv can_in can_out s w"
  shows "\<exists>r s' w'. grid_surveyor_recv precv (s, w) = Some (r, s', w') \<and> sv_inv can_in can_out s' w'
    \<and> (if sv_state s = SV_PASSIVE
       then w' = w \<and> r = Inl (if sv_timedout s then ETIMEDOUT else EFSM)
         \<and> grid_surveyor_recv precv (s', w') = Some (Inl EFSM, s', w')
       else r = Inl EAGAIN \<or> (\<exists>m p w0 rc m0. r = Inr m \<and> precv p w0 = Some (rc, m0, w')
              \<and> key_bytes (sv_surveyid s) @ body m = (if parsed rc then sphdr m0 @ body m0 else body m0)))"
proof -
  from finite_pipes.surveyor_recv_ok [OF assms] obtain r s' w' where
    r: "grid_surveyor_recv precv (s, w) = Some (r, s', w')" "sv_inv can_in can_out s' w'" "sv_state s' = sv_state s"
    "if sv_state s = SV_PASSIVE
       then w' = w \<and> r = Inl (if sv_timedout s then ETIMEDOUT else EFSM) \<and> \<not> sv_timedout s'
       else r = Inl EAGAIN \<or> (\<exists>m. r = Inr m \<and> own_response precv (sv_surveyid s) m w')" by blast
  show ?thesis
  proof (cases "sv_state s = SV_PASSIVE")
    case True
    with r have "grid_surveyor_recv precv (s', w') = Some (Inl EFSM, s', w')"
      by (simp add: grid_surveyor_recv_def sv_inprogress)
    with r True show ?thesis by auto
  next
    case False
    have "\<exists>p w0 rc m0. precv p w0 = Some (rc, m0, w')
        \<and> key_bytes i @ body m = (if parsed rc then sphdr m0 @ body m0 else body m0)"
      if own: "own_response precv i m w'" for m i
    proof -
      obtain p w0 rc m0 m1 where o: "precv p w0 = Some (rc, m0, w')" "split_reply (parsed rc) m0 = Some m1"
        "sphdr m1 = key_bytes i" "m = m1\<lparr>sphdr := []\<rparr>" using own unfolding own_response_def by blast
      have "key_bytes i @ body m = (if parsed rc then sphdr m0 @ body m0 else body m0)"
        using o(2-4) append_take_drop_id [of 4 "body m0"]
        by (cases "parsed rc") (auto simp: split_reply_def simp del: append_take_drop_id split: if_splits)
      with o(1) show ?thesis by blast
    qed
    with r False show ?thesis by (simp only: if_False) blast
  qed
qed

theorem surveyor_own_responses_witness:
  "\<exists>s w r s' w'. sv_state s = SV_ACTIVE \<and> grid_surveyor_recv (grid_pipe_recv grid_sinproc_recv) (s, w) = Some (r, s', w')"
proof -
  obtain s w where s: "inproc_inv w" "sv_inv inproc_can_in inproc_can_out s w" "sv_state s = SV_ACTIVE"
    using scene_survey_active by blast
  from surveyor_own_responses [OF inproc_finite.finite_pipes_axioms s(1,2)] s(3) show ?thesis by blast
qed

text \<open>
  C31: A survey ends at its deadline. When the running timer of an active survey
  expires, the socket stops it, and after at most two tasks of the worker the socket is passive
  and readable; the next receive reports the timeout and the one after it that there is no
  survey.
\<close>

theorem surveyor_deadline:
  assumes "pipe_world psend precv winv can_out can_in" and "winv w" and "sv_inv can_in can_out s w"
    and "sv_state s = SV_ACTIVE" and "tm_armed (sv_timer s)"
  shows "\<exists>s1 k s2 s3. surveyor_timer_step timer_expire_step psend (s, w) = Some (s1, w)
    \<and> k \<le> 2 \<and> surveyor_tasks k psend (s1, w) = Some (s2, w) \<and> sv_state s2 = SV_PASSIVE
    \<and> bit (grid_surveyor_events s2) 0
    \<and> grid_surveyor_recv precv (s2, w) = Some (Inl ETIMEDOUT, s3, w)
    \<and> grid_surveyor_recv precv (s3, w) = Some (Inl EFSM, s3, w)"
proof -
  have t: "timer_inv (sv_timer s)" "timer_phase (sv_timer s) = PActive"
    using assms(3,4) by (simp_all add: sv_inv_def sv_base_def sv_phase_def)
  from timer_fires [OF t assms(5)] obtain t' where
    t': "timer_expire_step (sv_timer s) = Some ([GRID_TIMER_TIMEOUT], t')" "timer_inv t'" "timer_phase t' = PActive" by blast
  from pipe_world.sv_timer_ok [OF assms(1-3), of timer_expire_step "[GRID_TIMER_TIMEOUT]" t', OF t'(1,2)] t(2) t'(3) obtain s1 w1 where
    s1: "surveyor_timer_step timer_expire_step psend (s, w) = Some (s1, w1)" "winv w1" "sv_inv can_in can_out s1 w1"
    "sv_timer_result psend [GRID_TIMER_TIMEOUT] s w s1 w1" by blast
  then have r1: "sv_state s1 = SV_STOPPING_TIMER" "sv_timedout s1" "w1 = w" by (simp_all add: sv_timer_result_def)
  have "timer_phase (sv_timer s1) = PStopping" using s1(3) r1(1) by (simp add: sv_inv_def sv_phase_def)
  from pipe_world.sv_stopping_ok [OF assms(1) s1(2,3) this] obtain k s2 w2 where
    k: "k \<le> 2" "surveyor_tasks k psend (s1, w1) = Some (s2, w2)" "sv_timer_result psend [GRID_TIMER_STOPPED] s1 w1 s2 w2"
    by blast
  then have r2: "sv_state s2 = SV_PASSIVE" "sv_timedout s2" "w2 = w1" using r1 by (simp_all add: sv_timer_result_def)
  let ?s3 = "s2\<lparr>sv_timedout := False\<rparr>"
  have "grid_surveyor_recv precv (s2, w) = Some (Inl ETIMEDOUT, ?s3, w)" "grid_surveyor_recv precv (?s3, w) = Some (Inl EFSM, ?s3, w)"
    using r2 by (simp_all add: grid_surveyor_recv_def sv_inprogress)
  moreover have "bit (grid_surveyor_events s2) 0"
    using r2(1) by (simp add: grid_surveyor_events_def sv_inprogress GRID_SOCKBASE_EVENT_IN_def bit_simps)
  ultimately show ?thesis using s1(1) k(1,2) r1(3) r2(1,3) by metis
qed

theorem surveyor_deadline_witness:
  "\<exists>s w s1. surveyor_timer_step timer_expire_step (grid_pipe_send grid_sinproc_send) (s, w) = Some (s1, w)"
proof -
  obtain s w where s: "inproc_inv w" "sv_inv inproc_can_in inproc_can_out s w" "sv_state s = SV_ACTIVE" "tm_armed (sv_timer s)"
    using scene_survey_armed by blast
  from surveyor_deadline [OF inproc.pipe_world_axioms s] show ?thesis by blast
qed

text \<open>
  C36: Closing a surveyor ends. Whatever it is doing, after it has been told to stop
  and at most two tasks of the worker it has reported itself stopped, and its timer and its state
  machine can be destroyed without aborting.
\<close>

theorem surveyor_closes:
  assumes "sv_inv can_in can_out s w"
  shows "\<exists>k sw s'. k \<le> 2 \<and> grid_surveyor_stop (s, w) = Some sw \<and> surveyor_tasks k psend sw = Some (s', w)
    \<and> sv_stopped s' \<and> grid_timer_term (sv_timer s') = Some () \<and> grid_fsm_term (sv_fsm s') = Some ()"
proof -
  from surveyor_stop_ok [OF assms, of psend] obtain k s' where
    k: "k \<le> 2" "Option.bind (grid_surveyor_stop (s, w)) (surveyor_tasks k psend) = Some (s', w)" "sv_stopped s'"
    "grid_timer_term (sv_timer s') = Some ()" "grid_fsm_term (sv_fsm s') = Some ()" by blast
  then show ?thesis by (cases "grid_surveyor_stop (s, w)") auto
qed

theorem surveyor_closes_witness:
  "\<exists>s w k sw s'. sv_state s = SV_ACTIVE \<and> grid_surveyor_stop (s, w) = Some sw
     \<and> surveyor_tasks k (grid_pipe_send grid_sinproc_send) sw = Some (s', w) \<and> sv_stopped s'"
proof -
  obtain s w where s: "inproc_inv w" "sv_inv inproc_can_in inproc_can_out s w" "sv_state s = SV_ACTIVE"
    using scene_survey_active by blast
  from surveyor_closes [OF s(2), of "grid_pipe_send grid_sinproc_send"] s(3) show ?thesis by blast
qed

end
