(* ===== verification/Trie.thy ===== *)
theory Trie
  imports Prelude
begin

text \<open>
  The subscription trie (\<open>src/protocols/pubsub/trie.c\<close>): a Patricia trie whose nodes have a
  prefix of at most 10 bytes, a count of subscriptions, and children in a sparse array of at most
  8 characters or a dense array over a range of characters. A null pointer is \<open>None\<close> of type
  \<open>trie_node option\<close>; updating a node in place is replacing it in its parent. A read past
  the end of the data, a null dereference or a failing assertion is \<open>None\<close> as a result.
\<close>

section \<open>Nodes\<close>

text \<open>The entries of a sparse array pair a character with the pointer stored for it.\<close>

datatype trie_node = TNode (tn_refcount: u32) (tn_prefix: bytes) (tn_kids: trie_kids)
  and trie_kids = Sparse "(u8 \<times> trie_node option) list"
    | Dense u8 u8 u16 "trie_node option list"

definition GRID_TRIE_PREFIX_MAX :: nat where "GRID_TRIE_PREFIX_MAX = 10"
definition GRID_TRIE_SPARSE_MAX :: nat where "GRID_TRIE_SPARSE_MAX = 8"

definition grid_trie_init :: "trie_node option" where
  "grid_trie_init = None"

definition grid_node_has_subscribers :: "trie_node \<Rightarrow> bool" where
  "grid_node_has_subscribers n = (if tn_refcount n \<noteq> 0 then True else False)"

fun grid_node_check_prefix :: "bytes \<Rightarrow> bytes \<Rightarrow> nat" where
  "grid_node_check_prefix [] data = 0"
| "grid_node_check_prefix (p # ps) [] = 0"
| "grid_node_check_prefix (p # ps) (d # ds) = (if p \<noteq> d then 0 else Suc (grid_node_check_prefix ps ds))"

text \<open>The pointer stored for a character: \<open>None\<close> if there is no place for it.\<close>

fun grid_node_next :: "trie_kids \<Rightarrow> u8 \<Rightarrow> trie_node option option" where
  "grid_node_next (Sparse l) c = map_of l c"
| "grid_node_next (Dense mn mx nbr l) c = (if c < mn \<or> c > mx then None else Some (l ! (unat c - unat mn)))"

text \<open>Writing through the place of a character.\<close>

fun upd_first :: "u8 \<Rightarrow> trie_node option \<Rightarrow> (u8 \<times> trie_node option) list \<Rightarrow> (u8 \<times> trie_node option) list" where
  "upd_first c p [] = []"
| "upd_first c p (x # xs) = (if fst x = c then (c, p) # xs else x # upd_first c p xs)"

fun set_next :: "trie_kids \<Rightarrow> u8 \<Rightarrow> trie_node option \<Rightarrow> trie_kids" where
  "set_next (Sparse l) c p = Sparse (upd_first c p l)"
| "set_next (Dense mn mx nbr l) c p = Dense mn mx nbr (l[unat c - unat mn := p])"

text \<open>The result of merging with a single child; \<open>None\<close> if that child were missing.\<close>

definition grid_node_compact :: "trie_node \<Rightarrow> trie_node option" where
  "grid_node_compact n =
     (if grid_node_has_subscribers n then Some n
      else case tn_kids n of
        Sparse [(c, ch)] \<Rightarrow> do {
          ch1 \<leftarrow> ch;
          if length (tn_prefix n) + length (tn_prefix ch1) + 1 > GRID_TRIE_PREFIX_MAX then Some n
          else Some (TNode (tn_refcount ch1) (tn_prefix n @ c # tn_prefix ch1) (tn_kids ch1)) }
      | _ \<Rightarrow> Some n)"

section \<open>Subscribing\<close>

lemma drop_shorter [termination_simp]:
  "x # xs = drop k ys \<Longrightarrow> length xs < length ys" "drop k ys = x # xs \<Longrightarrow> length xs < length ys"
  "drop k (y # ys) = x # xs \<Longrightarrow> length xs < Suc (length ys)"
  by (drule arg_cong [where f = length], simp)+

text \<open>Step 4: new nodes for the rest of the subscription, whose last node gets count 1 in step 5.\<close>

function new_nodes :: "bytes \<Rightarrow> trie_node" where
  "new_nodes data =
     (if length data > GRID_TRIE_PREFIX_MAX
      then TNode 0 (take GRID_TRIE_PREFIX_MAX data)
             (Sparse [(data ! GRID_TRIE_PREFIX_MAX, Some (new_nodes (drop (Suc GRID_TRIE_PREFIX_MAX) data)))])
      else TNode 1 data (Sparse []))"
  by pat_completeness auto
termination by (relation "measure length") (auto simp: GRID_TRIE_PREFIX_MAX_def)

declare new_nodes.simps [simp del]

text \<open>Step 2: splitting the prefix after \<open>pos\<close> bytes.\<close>

definition split_node :: "nat \<Rightarrow> trie_node \<Rightarrow> trie_node option" where
  "split_node pos n = do {
     ch \<leftarrow> grid_node_compact (TNode (tn_refcount n) (drop (pos + 1) (tn_prefix n)) (tn_kids n));
     Some (TNode 0 (take pos (tn_prefix n)) (Sparse [(tn_prefix n ! pos, Some ch)])) }"

text \<open>The dense array that takes the place of a full sparse one, with room for \<open>c\<close>.\<close>

definition dense_of_sparse :: "(u8 \<times> trie_node option) list \<Rightarrow> u8 \<Rightarrow> trie_kids" where
  "dense_of_sparse l c =
     (let mn = min (fold (\<lambda>x m. min m (fst x)) l 255) c;
          mx = max (fold (\<lambda>x m. max m (fst x)) l 0) c
      in Dense mn mx (of_nat (length l) + 1)
           (fold (\<lambda>x ps. ps[unat (fst x) - unat mn := snd x]) l (replicate (unat mx - unat mn + 1) None)))"

text \<open>Growing the range of a dense array to include \<open>c\<close>.\<close>

definition grow_dense :: "u8 \<Rightarrow> u8 \<Rightarrow> u8 \<Rightarrow> trie_node option list \<Rightarrow> u8 \<times> u8 \<times> trie_node option list" where
  "grow_dense mn mx c l =
     (if c < mn \<or> c > mx then
        let new_min = (if mn < c then mn else c); new_max = (if mx > c then mx else c)
        in (new_min, new_max,
            if mn \<noteq> new_min then replicate (unat mn - unat new_min) None @ l
            else l @ replicate (unat new_max - unat new_min + 1 - (unat mx - unat mn + 1)) None)
      else (mn, mx, l))"

text \<open>Step 3: a place for the next character \<open>c\<close>, with the new node \<open>p\<close> in it.\<close>

definition add_child :: "trie_node \<Rightarrow> u8 \<Rightarrow> trie_node \<Rightarrow> trie_node option" where
  "add_child n c p =
     (case tn_kids n of
        Sparse l \<Rightarrow>
          (if length l < GRID_TRIE_SPARSE_MAX
           then Some (TNode (tn_refcount n) (tn_prefix n) (Sparse (l @ [(c, Some p)])))
           else let ks = dense_of_sparse l c
                in do { guard (grid_node_next ks c = Some None);
                        Some (TNode 0 (tn_prefix n) (set_next ks c (Some p))) })
      | Dense mn mx nbr l \<Rightarrow>
          (case grow_dense mn mx c l of (new_min, new_max, l') \<Rightarrow>
             let ks = Dense new_min new_max (nbr + 1) l'
             in do { guard (grid_node_next ks c = Some None);
                     Some (TNode (tn_refcount n) (tn_prefix n) (set_next ks c (Some p))) }))"

text \<open>Steps 3 to 5 at a node whose prefix has been matched, with \<open>data\<close> left.\<close>

definition subscribe_at :: "trie_node \<Rightarrow> bytes \<Rightarrow> (trie_node \<times> bool) option" where
  "subscribe_at n data =
     (case data of
        [] \<Rightarrow> let rc = tn_refcount n + 1 in Some (TNode rc (tn_prefix n) (tn_kids n), rc = 1)
      | c # rest \<Rightarrow> map_option (\<lambda>n1. (n1, True)) (add_child n c (new_nodes rest)))"

text \<open>The new trie, and whether the subscription is a fresh one.\<close>

fun grid_trie_subscribe :: "trie_node option \<Rightarrow> bytes \<Rightarrow> (trie_node \<times> bool) option" where
  "grid_trie_subscribe None data = Some (new_nodes data, True)"
| "grid_trie_subscribe (Some n) data =
     (let pos = grid_node_check_prefix (tn_prefix n) data; rest = drop pos data
      in if pos < length (tn_prefix n) then do { n1 \<leftarrow> split_node pos n; subscribe_at n1 rest }
         else case rest of
           [] \<Rightarrow> subscribe_at n rest
         | c # rest1 \<Rightarrow>
             (case grid_node_next (tn_kids n) c of
                Some (Some ch) \<Rightarrow> do {
                  (ch1, fresh) \<leftarrow> grid_trie_subscribe (Some ch) rest1;
                  Some (TNode (tn_refcount n) (tn_prefix n) (set_next (tn_kids n) c (Some ch1)), fresh) }
              | _ \<Rightarrow> subscribe_at n rest))"

section \<open>Matching\<close>

fun grid_trie_match :: "trie_node option \<Rightarrow> bytes \<Rightarrow> bool option" where
  "grid_trie_match None data = Some False"
| "grid_trie_match (Some n) data =
     (if grid_node_check_prefix (tn_prefix n) data \<noteq> length (tn_prefix n) then Some False
      else if grid_node_has_subscribers n then Some True
      else case drop (length (tn_prefix n)) data of
        [] \<Rightarrow> None
      | c # rest \<Rightarrow> grid_trie_match (case grid_node_next (tn_kids n) c of None \<Rightarrow> None | Some p \<Rightarrow> p) rest)"

section \<open>Unsubscribing\<close>

text \<open>The results: \<open>Inl EINVAL\<close>, or whether the subscription was removed; and the new pointer.\<close>

definition unsubscribe_found :: "trie_node option \<Rightarrow> ((errno + bool) \<times> trie_node option) option" where
  "unsubscribe_found t =
     (case t of
        None \<Rightarrow> Some (Inl EINVAL, None)
      | Some n \<Rightarrow>
          if \<not> grid_node_has_subscribers n then Some (Inl EINVAL, Some n)
          else let n1 = TNode (tn_refcount n - 1) (tn_prefix n) (tn_kids n)
               in if tn_refcount n1 = 0
                  then (if tn_kids n1 = Sparse [] then Some (Inr True, None)
                        else map_option (\<lambda>n2. (Inr True, Some n2)) (grid_node_compact n1))
                  else Some (Inr False, Some n1))"

text \<open>Trimming the range of a dense array, and turning it into a sparse one.\<close>

definition trim_left :: "u8 \<Rightarrow> u8 \<Rightarrow> u16 \<Rightarrow> trie_node option list \<Rightarrow> trie_kids" where
  "trim_left mn mx nbr l =
     (let i = length (takeWhile (\<lambda>p. p = None) l)
      in Dense (mn + of_nat i) mx (nbr - 1) (drop i l))"

definition trim_right :: "u8 \<Rightarrow> u8 \<Rightarrow> u16 \<Rightarrow> trie_node option list \<Rightarrow> trie_kids" where
  "trim_right mn mx nbr l =
     (let i = length (dropWhile (\<lambda>p. p = None) (rev l)) - 1
      in Dense mn (mn + of_nat i) (nbr - 1) (take (i + 1) l))"

definition sparse_of_dense :: "u8 \<Rightarrow> trie_node option list \<Rightarrow> (u8 \<times> trie_node option) list" where
  "sparse_of_dense mn l = map (\<lambda>(i, p). (of_nat i + mn, p)) (filter (\<lambda>(i, p). p \<noteq> None) (enumerate 0 l))"

fun remove_first :: "u8 \<Rightarrow> (u8 \<times> trie_node option) list \<Rightarrow> (u8 \<times> trie_node option) list" where
  "remove_first c [] = []"
| "remove_first c (x # xs) = (if fst x = c then xs else x # remove_first c xs)"

text \<open>Removing the child for \<open>c\<close>, whose pointer has become null.\<close>

definition remove_child :: "trie_node \<Rightarrow> u8 \<Rightarrow> trie_node option option" where
  "remove_child n c =
     (case tn_kids n of
        Sparse l \<Rightarrow> do {
          guard (map_of l c \<noteq> None);
          let n1 = TNode (tn_refcount n) (tn_prefix n) (Sparse (remove_first c l));
          if tn_kids n1 = Sparse [] \<and> \<not> grid_node_has_subscribers n1 then Some None
          else map_option Some (grid_node_compact n1) }
      | Dense mn mx nbr l \<Rightarrow>
          if unat nbr > GRID_TRIE_SPARSE_MAX + 1 then
            Some (Some (TNode (tn_refcount n) (tn_prefix n)
              (if c = mn then trim_left mn mx nbr l else if c = mx then trim_right mn mx nbr l
               else Dense mn mx (nbr - 1) l)))
          else do {
            let l' = sparse_of_dense mn l;
            guard (length l' = GRID_TRIE_SPARSE_MAX);
            Some (Some (TNode 0 (tn_prefix n) (Sparse l'))) })"

fun grid_node_unsubscribe :: "trie_node option \<Rightarrow> bytes \<Rightarrow> ((errno + bool) \<times> trie_node option) option" where
  "grid_node_unsubscribe t [] = unsubscribe_found t"
| "grid_node_unsubscribe None (d # ds) = None"
| "grid_node_unsubscribe (Some n) (d # ds) =
     (if grid_node_check_prefix (tn_prefix n) (d # ds) \<noteq> length (tn_prefix n) then Some (Inr False, Some n)
      else case drop (length (tn_prefix n)) (d # ds) of
        [] \<Rightarrow> unsubscribe_found (Some n)
      | c # rest \<Rightarrow>
          (case grid_node_next (tn_kids n) c of
             None \<Rightarrow> Some (Inr False, Some n)
           | Some ch \<Rightarrow> do {
               (r, ch1) \<leftarrow> grid_node_unsubscribe ch rest;
               let n1 = TNode (tn_refcount n) (tn_prefix n) (set_next (tn_kids n) c ch1);
               if r = Inr False then Some (Inr False, Some n1)
               else if ch1 \<noteq> None then Some (Inr True, Some n1)
               else map_option (\<lambda>p. (Inr True, p)) (remove_child n1 c) }))"

definition grid_trie_unsubscribe :: "trie_node option \<Rightarrow> bytes \<Rightarrow> ((errno + bool) \<times> trie_node option) option" where
  "grid_trie_unsubscribe t data = grid_node_unsubscribe t data"

section \<open>What a trie stands for\<close>

text \<open>The node that ends exactly at a string, and the count of subscriptions to the string.\<close>

definition trie_child :: "trie_kids \<Rightarrow> u8 \<Rightarrow> trie_node option" where
  "trie_child ks c = (case grid_node_next ks c of None \<Rightarrow> None | Some p \<Rightarrow> p)"

function node_at :: "trie_node option \<Rightarrow> bytes \<Rightarrow> trie_node option" where
  "node_at None s = None"
| "node_at (Some n) s =
     (if take (length (tn_prefix n)) s \<noteq> tn_prefix n then None
      else case drop (length (tn_prefix n)) s of [] \<Rightarrow> Some n | c # r \<Rightarrow> node_at (trie_child (tn_kids n) c) r)"
  by pat_completeness auto
termination by (relation "measure (\<lambda>(t, s). length s)") (auto dest: drop_shorter)

definition trie_count :: "trie_node option \<Rightarrow> bytes \<Rightarrow> u32" where
  "trie_count t s = (case node_at t s of None \<Rightarrow> 0 | Some n \<Rightarrow> tn_refcount n)"

declare node_at.simps(2) [simp del]

lemma node_at_prefix [simp]: "node_at (Some n) (tn_prefix n) = Some n"
  by (simp add: node_at.simps)

lemma node_at_child [simp]: "node_at (Some n) (tn_prefix n @ c # r) = node_at (trie_child (tn_kids n) c) r"
  by (simp add: node_at.simps)

lemma node_at_other: "(\<nexists>r. s = tn_prefix n @ r) \<Longrightarrow> node_at (Some n) s = None"
proof -
  assume a: "\<nexists>r. s = tn_prefix n @ r"
  have "take (length (tn_prefix n)) s \<noteq> tn_prefix n"
  proof
    assume "take (length (tn_prefix n)) s = tn_prefix n"
    then have "s = tn_prefix n @ drop (length (tn_prefix n)) s" by (metis append_take_drop_id)
    with a show False by blast
  qed
  then show ?thesis by (simp add: node_at.simps)
qed

lemma prefix_cases [case_names at down other]:
  obtains "s = pre" | c r where "s = pre @ c # r" | "\<nexists>r. s = pre @ r"
proof (cases "\<exists>r. s = pre @ r")
  case True
  then obtain r where "s = pre @ r" by blast
  with that(1,2) show thesis by (cases r) auto
qed (use that(3) in blast)

lemma trie_count_None [simp]: "trie_count None s = 0"
  by (simp add: trie_count_def)

lemma trie_count_prefix [simp]: "trie_count (Some n) (tn_prefix n) = tn_refcount n"
  by (simp add: trie_count_def)

lemma trie_count_child [simp]: "trie_count (Some n) (tn_prefix n @ c # r) = trie_count (trie_child (tn_kids n) c) r"
  by (simp add: trie_count_def)

lemma trie_count_other: "(\<nexists>r. s = tn_prefix n @ r) \<Longrightarrow> trie_count (Some n) s = 0"
  by (simp add: trie_count_def node_at_other)

lemma trie_count_node: "trie_count (Some (TNode rc pre ks)) pre = rc"
  "trie_count (Some (TNode rc pre ks)) (pre @ c # r) = trie_count (trie_child ks c) r"
  using trie_count_prefix [of "TNode rc pre ks"] trie_count_child [of "TNode rc pre ks"] by simp_all

section \<open>Well-formed tries\<close>

text \<open>
  A sparse array has at most 8 children, none of them null, under different characters; a dense
  one covers its range, counts its children and has at least 9 of them.
\<close>

definition kid_set :: "trie_kids \<Rightarrow> u8 set" where
  "kid_set ks = {c. trie_child ks c \<noteq> None}"

definition sparse_ok :: "(u8 \<times> trie_node option) list \<Rightarrow> bool" where
  "sparse_ok l \<longleftrightarrow> length l \<le> 8 \<and> distinct (map fst l) \<and> None \<notin> snd ` set l"

definition dense_ok :: "u8 \<Rightarrow> u8 \<Rightarrow> u16 \<Rightarrow> trie_node option list \<Rightarrow> bool" where
  "dense_ok mn mx nbr l \<longleftrightarrow> mn \<le> mx \<and> length l = unat mx - unat mn + 1
     \<and> unat nbr = card (kid_set (Dense mn mx nbr l)) \<and> 9 \<le> unat nbr"

definition node_ok :: "trie_node \<Rightarrow> bool" where
  "node_ok n \<longleftrightarrow> length (tn_prefix n) \<le> 10
     \<and> (case tn_kids n of Sparse l \<Rightarrow> sparse_ok l | Dense mn mx nbr l \<Rightarrow> dense_ok mn mx nbr l)"

definition trie_ok :: "trie_node option \<Rightarrow> bool" where
  "trie_ok t \<longleftrightarrow> (\<forall>s n. node_at t s = Some n \<longrightarrow> node_ok n)"

lemma trie_ok_None [simp]: "trie_ok None"
  by (simp add: trie_ok_def)

lemma trie_ok_node: "trie_ok (Some n) \<longleftrightarrow> node_ok n \<and> (\<forall>c. trie_ok (trie_child (tn_kids n) c))"
proof
  assume ok: "trie_ok (Some n)"
  have "node_ok m" if "node_at (trie_child (tn_kids n) c) s = Some m" for c s m
    using that ok unfolding trie_ok_def by (metis node_at_child)
  with ok show "node_ok n \<and> (\<forall>c. trie_ok (trie_child (tn_kids n) c))"
    unfolding trie_ok_def by (metis node_at_prefix)
next
  assume a: "node_ok n \<and> (\<forall>c. trie_ok (trie_child (tn_kids n) c))"
  have "node_ok m" if m: "node_at (Some n) s = Some m" for s m
  proof (cases rule: prefix_cases [of s "tn_prefix n"])
    case at
    with m a show ?thesis by simp
  next
    case (down c r)
    with m a show ?thesis by (auto simp: trie_ok_def)
  next
    case other
    with m show ?thesis by (simp add: node_at_other)
  qed
  then show "trie_ok (Some n)" by (simp add: trie_ok_def)
qed

lemma finite_kid_set [simp]: "finite (kid_set ks)"
  by (rule finite_subset [OF subset_UNIV]) simp

lemma dense_child: "trie_child (Dense mn mx nbr l) c = (if mn \<le> c \<and> c \<le> mx then l ! (unat c - unat mn) else None)"
  by (auto simp: trie_child_def not_le not_less)

lemma sparse_child: "sparse_ok l \<Longrightarrow> trie_child (Sparse l) c = None \<longleftrightarrow> c \<notin> fst ` set l"
  by (auto simp: trie_child_def sparse_ok_def map_of_eq_None_iff split: option.splits) (force dest: map_of_SomeD)+

lemma sparse_kid_set: "sparse_ok l \<Longrightarrow> kid_set (Sparse l) = fst ` set l \<and> card (kid_set (Sparse l)) = length l"
proof -
  assume ok: "sparse_ok l"
  then have "kid_set (Sparse l) = set (map fst l)" using sparse_child by (auto simp: kid_set_def)
  with ok distinct_card [of "map fst l"] show ?thesis by (simp add: sparse_ok_def)
qed

lemma set_next_child:
  assumes "grid_node_next ks c \<noteq> None" and "case ks of Sparse l \<Rightarrow> True | Dense mn mx nbr l \<Rightarrow> length l = unat mx - unat mn + 1"
  shows "trie_child (set_next ks c p) c' = (if c' = c then p else trie_child ks c')"
proof (cases ks)
  case (Sparse l)
  have "map_of (upd_first c p l) c' = (if c' = c \<and> map_of l c \<noteq> None then Some p else map_of l c')" for l
    by (induction l) auto
  with Sparse assms(1) show ?thesis by (auto simp: trie_child_def)
next
  case (Dense mn mx nbr l)
  with assms have r: "mn \<le> c" "c \<le> mx" "length l = unat mx - unat mn + 1" by (auto split: if_splits)
  have "l[unat c - unat mn := p] ! (unat c' - unat mn) = (if c' = c then p else l ! (unat c' - unat mn))"
    if "mn \<le> c'" "c' \<le> mx"
  proof -
    have "unat mn \<le> unat c'" "unat c' \<le> unat mx" "unat mn \<le> unat c" "unat c \<le> unat mx"
      using that r by (simp_all add: word_le_nat_alt)
    with r(3) show ?thesis by (auto simp: nth_list_update word_unat_eq_iff)
  qed
  with Dense r show ?thesis by (auto simp: trie_child_def not_less)
qed

section \<open>Merging and splitting nodes\<close>

text \<open>Two tries that agree on counts and are well-formed; used for every rearrangement of nodes.\<close>

lemma node_cong:
  assumes "tn_prefix n' = tn_prefix n" and "\<And>c. trie_child (tn_kids n') c = trie_child (tn_kids n) c"
  shows "s \<noteq> tn_prefix n \<Longrightarrow> trie_count (Some n') s = trie_count (Some n) s"
  using assms by (cases rule: prefix_cases [of s "tn_prefix n"])
    (simp_all add: trie_count_other, metis trie_count_child)

lemma compact_ok:
  assumes ok: "node_ok n" and ch: "\<And>c. trie_ok (trie_child (tn_kids n) c)"
  shows "\<exists>n'. grid_node_compact n = Some n' \<and> trie_ok (Some n') \<and> (\<forall>s. trie_count (Some n') s = trie_count (Some n) s)"
proof (cases "\<exists>c. tn_refcount n = 0 \<and> (\<exists>p. tn_kids n = Sparse [(c, p)])")
  case False
  then have "grid_node_compact n = Some n"
    by (auto simp: grid_node_compact_def grid_node_has_subscribers_def split: trie_kids.splits list.splits)
  moreover have "trie_ok (Some n)" using ok ch by (simp add: trie_ok_node)
  ultimately show ?thesis by blast
next
  case True
  then obtain c p where n: "tn_refcount n = 0" "tn_kids n = Sparse [(c, p)]" by blast
  then obtain m where p: "p = Some m" using ok by (cases p) (auto simp: node_ok_def sparse_ok_def)
  have m: "trie_ok (Some m)" using ch [of c] n(2) p by (simp add: trie_child_def)
  show ?thesis
  proof (cases "length (tn_prefix n) + length (tn_prefix m) + 1 > 10")
    case True
    then have "grid_node_compact n = Some n"
      using n p by (simp add: grid_node_compact_def grid_node_has_subscribers_def GRID_TRIE_PREFIX_MAX_def)
    moreover have "trie_ok (Some n)" using ok ch by (simp add: trie_ok_node)
    ultimately show ?thesis by blast
  next
    case False
    define n' where "n' = TNode (tn_refcount m) (tn_prefix n @ c # tn_prefix m) (tn_kids m)"
    have e: "grid_node_compact n = Some n'"
      using n p False by (simp add: grid_node_compact_def grid_node_has_subscribers_def GRID_TRIE_PREFIX_MAX_def n'_def)
    have ok': "trie_ok (Some n')" using m False by (simp add: trie_ok_node node_ok_def n'_def)
    have "trie_count (Some n') s = trie_count (Some n) s" for s
    proof (cases rule: prefix_cases [of s "tn_prefix n"])
      case at
      have "\<nexists>r. s = tn_prefix n' @ r" using at by (simp add: n'_def)
      with at n(1) show ?thesis by (simp add: trie_count_other)
    next
      case (down d r)
      then have s: "trie_count (Some n) s = (if d = c then trie_count (Some m) r else 0)"
        using n(2) p by (simp add: trie_child_def)
      show ?thesis
      proof (cases rule: prefix_cases [of s "tn_prefix n'"])
        case at
        then have "d = c" "r = tn_prefix m" using down by (simp_all add: n'_def)
        with s at show ?thesis by (simp add: n'_def trie_count_node)
      next
        case (down d' r')
        then have "d = c" "r = tn_prefix m @ d' # r'" using \<open>s = tn_prefix n @ d # r\<close> by (simp_all add: n'_def)
        with s show ?thesis using trie_count_child [of n' d' r'] by (simp add: down) (simp add: n'_def)
      next
        case other
        then have "d \<noteq> c \<or> (\<nexists>x. r = tn_prefix m @ x)" using \<open>s = tn_prefix n @ d # r\<close> by (auto simp: n'_def)
        with s other show ?thesis by (auto simp: trie_count_other)
      qed
    next
      case other
      then have "\<nexists>r. s = tn_prefix n' @ r" by (auto simp: n'_def)
      with other show ?thesis by (simp add: trie_count_other)
    qed
    with e ok' show ?thesis by blast
  qed
qed

lemma new_nodes_ok:
  "trie_ok (Some (new_nodes data)) \<and> (\<forall>s. trie_count (Some (new_nodes data)) s = (if s = data then 1 else 0))"
proof (induction data rule: new_nodes.induct)
  case (1 data)
  show ?case
  proof (cases "length data > 10")
    case False
    have "trie_child (Sparse []) c = None" for c by (simp add: trie_child_def)
    with False show ?thesis
      using trie_count_node [of 1 data "Sparse []"] trie_count_other [of _ "TNode 1 data (Sparse [])"]
      by (auto simp: new_nodes.simps [of data] GRID_TRIE_PREFIX_MAX_def trie_ok_node node_ok_def sparse_ok_def
          intro: prefix_cases [of _ data])
  next
    case True
    define rest where "rest = new_nodes (drop (Suc 10) data)"
    define c where "c = data ! 10"
    have e: "new_nodes data = TNode 0 (take 10 data) (Sparse [(c, Some rest)])"
      using True by (simp add: new_nodes.simps [of data] GRID_TRIE_PREFIX_MAX_def rest_def c_def)
    have ih: "trie_ok (Some rest)" "\<And>s. trie_count (Some rest) s = (if s = drop (Suc 10) data then 1 else 0)"
      using 1 True by (simp_all add: GRID_TRIE_PREFIX_MAX_def rest_def)
    have d: "data = take 10 data @ c # drop (Suc 10) data"
      unfolding c_def using True by (rule id_take_nth_drop)
    have k: "trie_child (Sparse [(c, Some rest)]) c' = (if c' = c then Some rest else None)" for c'
      by (simp add: trie_child_def)
    have "trie_ok (Some (new_nodes data))"
      using ih(1) by (simp add: e trie_ok_node node_ok_def sparse_ok_def k)
    moreover have "trie_count (Some (new_nodes data)) s = (if s = data then 1 else 0)" for s
    proof (cases rule: prefix_cases [of s "take 10 data"])
      case at
      then have "s \<noteq> data" using True by (metis length_take min.absorb2 less_imp_le not_less_iff_gr_or_eq)
      with at show ?thesis by (simp add: e trie_count_node)
    next
      case (down c' r)
      then have "s = data \<longleftrightarrow> c' = c \<and> r = drop (Suc 10) data" using d by (metis append_same_eq list.inject same_append_eq)
      with down ih(2) show ?thesis by (simp add: e trie_count_node k)
    next
      case other
      then have "s \<noteq> data" using d by metis
      with other show ?thesis by (simp add: e trie_count_other)
    qed
    ultimately show ?thesis by blast
  qed
qed

lemma check_prefix_bounds:
  "grid_node_check_prefix pre data \<le> length pre" "grid_node_check_prefix pre data \<le> length data"
  "take (grid_node_check_prefix pre data) pre = take (grid_node_check_prefix pre data) data"
  by (induction pre data rule: grid_node_check_prefix.induct) auto

lemma check_prefix_full: "grid_node_check_prefix pre data = length pre \<longleftrightarrow> (\<exists>r. data = pre @ r)"
  by (induction pre data rule: grid_node_check_prefix.induct) auto

lemma check_prefix_self [simp]: "grid_node_check_prefix pre pre = length pre"
  by (simp add: check_prefix_full)

lemma check_prefix_append [simp]: "grid_node_check_prefix pre (pre @ r) = length pre"
  by (simp add: check_prefix_full)

lemma check_prefix_stop:
  "pos = grid_node_check_prefix pre data \<Longrightarrow> pos < length pre \<Longrightarrow> pos < length data \<Longrightarrow> pre ! pos \<noteq> data ! pos"
  by (induction pre data arbitrary: pos rule: grid_node_check_prefix.induct) (auto split: if_splits)

lemma split_node_ok:
  assumes n: "trie_ok (Some n)" and pos: "pos < length (tn_prefix n)"
  shows "\<exists>n'. split_node pos n = Some n' \<and> trie_ok (Some n') \<and> tn_prefix n' = take pos (tn_prefix n) \<and> tn_refcount n' = 0
    \<and> (\<exists>ch. tn_kids n' = Sparse [(tn_prefix n ! pos, Some ch)])
    \<and> (\<forall>s. trie_count (Some n') s = trie_count (Some n) s)"
proof -
  let ?pre = "tn_prefix n" and ?c = "tn_prefix n ! pos"
  define low where "low = TNode (tn_refcount n) (drop (pos + 1) ?pre) (tn_kids n)"
  have "node_ok low" "\<And>c. trie_ok (trie_child (tn_kids low) c)" using n by (auto simp: low_def trie_ok_node node_ok_def)
  from compact_ok [OF this] obtain ch where ch: "grid_node_compact low = Some ch" "trie_ok (Some ch)"
    "\<And>s. trie_count (Some ch) s = trie_count (Some low) s" by blast
  define n' where "n' = TNode 0 (take pos ?pre) (Sparse [(?c, Some ch)])"
  have d: "?pre = take pos ?pre @ ?c # drop (Suc pos) ?pre" using pos by (rule id_take_nth_drop)
  have dd: "take pos ?pre @ ?c # drop (Suc pos) ?pre @ x = ?pre @ x" for x using d by (metis append_Cons append_assoc)
  have k: "trie_child (Sparse [(?c, Some ch)]) c' = (if c' = ?c then Some ch else None)" for c'
    by (simp add: trie_child_def)
  have "min (length ?pre) pos \<le> 10" using n by (auto simp: trie_ok_node node_ok_def)
  then have "node_ok n'" by (simp add: n'_def node_ok_def sparse_ok_def)
  moreover have "trie_ok (trie_child (tn_kids n') c)" for c using ch(2) by (simp add: n'_def k)
  ultimately have "trie_ok (Some n')" by (simp add: trie_ok_node)
  moreover have "trie_count (Some n') s = trie_count (Some n) s" for s
  proof (cases rule: prefix_cases [of s "take pos ?pre"])
    case at
    then have "\<nexists>r. s = ?pre @ r" using pos by (metis append_eq_conv_conj length_append length_take less_add_same_cancel1 less_irrefl min.absorb2 less_imp_le not_add_less1)
    with at show ?thesis by (simp add: n'_def trie_count_node trie_count_other)
  next
    case (down c' r)
    have l: "trie_count (Some low) r = trie_count (Some n) (take pos ?pre @ ?c # r)"
    proof (cases rule: prefix_cases [of r "tn_prefix low"])
      case at
      then have "take pos ?pre @ ?c # r = ?pre" using d by (simp add: low_def)
      with at show ?thesis by (simp add: low_def trie_count_node)
    next
      case (down c2 r2)
      then have "take pos ?pre @ ?c # r = ?pre @ c2 # r2" using dd [of "c2 # r2"] by (simp add: low_def)
      moreover have "trie_count (Some low) r = trie_count (trie_child (tn_kids n) c2) r2"
        using down trie_count_child [of low c2 r2] by (simp add: low_def)
      ultimately show ?thesis by simp
    next
      case other
      then have "\<nexists>x. take pos ?pre @ ?c # r = ?pre @ x" using d by (metis append_Cons append_assoc list.inject low_def same_append_eq trie_node.sel(2) Suc_eq_plus1)
      with other show ?thesis by (simp add: trie_count_other)
    qed
    show ?thesis
    proof (cases "c' = ?c")
      case True
      with down l ch(3) show ?thesis by (simp add: n'_def trie_count_node k)
    next
      case False
      then have "\<nexists>x. s = ?pre @ x" using down d by (metis append_Cons append_assoc list.inject same_append_eq)
      with down False show ?thesis by (simp add: n'_def trie_count_node k trie_count_other)
    qed
  next
    case other
    then have "\<nexists>x. s = ?pre @ x" using d by (metis append_assoc)
    with other show ?thesis by (simp add: n'_def trie_count_other)
  qed
  moreover have "split_node pos n = Some n'" using ch(1) by (simp add: split_node_def low_def n'_def)
  ultimately show ?thesis by (intro exI [of _ n']) (simp add: n'_def)
qed

section \<open>Adding a child\<close>

lemma fold_place:
  assumes "distinct (map f l)" and "\<forall>x \<in> set l. f x < length ps"
  shows "length (fold (\<lambda>x ps. ps[f x := g x]) l ps) = length ps
    \<and> (\<forall>x \<in> set l. fold (\<lambda>x ps. ps[f x := g x]) l ps ! f x = g x)
    \<and> (\<forall>j. j \<notin> f ` set l \<longrightarrow> fold (\<lambda>x ps. ps[f x := g x]) l ps ! j = ps ! j)"
  using assms
proof (induction l arbitrary: ps)
  case (Cons x xs)
  have ih: "length (fold (\<lambda>x ps. ps[f x := g x]) xs (ps[f x := g x])) = length (ps[f x := g x])
    \<and> (\<forall>y \<in> set xs. fold (\<lambda>x ps. ps[f x := g x]) xs (ps[f x := g x]) ! f y = g y)
    \<and> (\<forall>j. j \<notin> f ` set xs \<longrightarrow> fold (\<lambda>x ps. ps[f x := g x]) xs (ps[f x := g x]) ! j = ps[f x := g x] ! j)"
    using Cons by (intro Cons.IH) auto
  have "f x \<notin> f ` set xs" "f x < length ps" using Cons.prems by auto
  with ih show ?case by auto
qed simp

lemma fold_min: "fold (\<lambda>x m. min m (fst x)) l a \<le> (a :: u8) \<and> (\<forall>x \<in> set l. fold (\<lambda>x m. min m (fst x)) l a \<le> fst x)"
proof (induction l arbitrary: a)
  case (Cons x xs)
  then show ?case by (auto intro: order.trans [OF conjunct1 [OF Cons.IH]])
qed simp

lemma fold_max: "(a :: u8) \<le> fold (\<lambda>x m. max m (fst x)) l a \<and> (\<forall>x \<in> set l. fst x \<le> fold (\<lambda>x m. max m (fst x)) l a)"
proof (induction l arbitrary: a)
  case (Cons x xs)
  then show ?case by (auto intro: order.trans [OF _ conjunct1 [OF Cons.IH]])
qed simp

lemma dense_of_sparse_ok:
  assumes l: "sparse_ok l" and c: "c \<notin> fst ` set l"
  shows "\<exists>mn mx ps. dense_of_sparse l c = Dense mn mx (of_nat (length l) + 1) ps \<and> mn \<le> c \<and> c \<le> mx
    \<and> length ps = unat mx - unat mn + 1 \<and> (\<forall>c'. trie_child (Dense mn mx (of_nat (length l) + 1) ps) c' = trie_child (Sparse l) c')"
proof -
  define mn where "mn = min (fold (\<lambda>x m. min m (fst x)) l 255) c"
  define mx where "mx = max (fold (\<lambda>x m. max m (fst x)) l 0) c"
  define f where "f = (\<lambda>x :: u8 \<times> trie_node option. unat (fst x) - unat mn)"
  define ps where "ps = fold (\<lambda>x ps. ps[f x := snd x]) l (replicate (unat mx - unat mn + 1) None)"
  have b: "mn \<le> fst x" "fst x \<le> mx" if "x \<in> set l" for x
    using that fold_min [of l 255] fold_max [of 0 l] by (auto simp: mn_def mx_def min_le_iff_disj le_max_iff_disj)
  have bc: "mn \<le> c" "c \<le> mx" by (simp_all add: mn_def mx_def)
  have inj: "unat a - unat mn = unat b - unat mn \<longleftrightarrow> a = b" if "mn \<le> a" "mn \<le> b" for a b :: u8
    using that by (auto simp: word_le_nat_alt word_unat_eq_iff)
  have "distinct (map f l)"
  proof -
    have "inj_on (\<lambda>a. unat a - unat mn) (fst ` set l)" using b inj by (auto intro!: inj_onI)
    moreover have "distinct (map fst l)" using l by (simp add: sparse_ok_def)
    ultimately have "distinct (map (\<lambda>a. unat a - unat mn) (map fst l))" by (subst distinct_map) simp
    then show ?thesis by (simp add: f_def comp_def)
  qed
  moreover have "\<forall>x \<in> set l. f x < length (replicate (unat mx - unat mn + 1) None)"
  proof
    fix x assume "x \<in> set l"
    from b(2) [OF this] show "f x < length (replicate (unat mx - unat mn + 1) None)"
      by (simp add: f_def word_le_nat_alt diff_le_mono less_Suc_eq_le)
  qed
  ultimately have p: "length ps = unat mx - unat mn + 1" "\<And>x. x \<in> set l \<Longrightarrow> ps ! f x = snd x"
    and p3: "\<And>j. j \<notin> f ` set l \<Longrightarrow> ps ! j = replicate (unat mx - unat mn + 1) None ! j"
    unfolding ps_def using fold_place [of f l "replicate (unat mx - unat mn + 1) None" snd] by auto
  have p4: "ps ! j = None" if "j \<notin> f ` set l" "j < unat mx - unat mn + 1" for j
    unfolding p3 [OF that(1)] using that(2) by (rule nth_replicate)
  have "trie_child (Dense mn mx nbr ps) c' = trie_child (Sparse l) c'" for c' nbr
  proof (cases "c' \<in> fst ` set l")
    case True
    then obtain q where q: "(c', q) \<in> set l" by auto
    then have "map_of l c' = Some q" using l by (simp add: sparse_ok_def)
    with q b [OF q] p(2) [OF q] show ?thesis by (simp add: dense_child f_def) (simp add: trie_child_def)
  next
    case False
    then have s: "trie_child (Sparse l) c' = None" using l by (simp add: sparse_child)
    show ?thesis
    proof (cases "mn \<le> c' \<and> c' \<le> mx")
      case True
      have "f x \<noteq> unat c' - unat mn" if "x \<in> set l" for x
        using that False b(1) [OF that] inj [of "fst x" c'] True by (auto simp: f_def image_iff)
      then have "unat c' - unat mn \<notin> f ` set l" by fastforce
      moreover have "unat c' - unat mn < unat mx - unat mn + 1" 
        using True by (simp add: word_le_nat_alt diff_le_mono less_Suc_eq_le)
      ultimately show ?thesis using True s p4 by (simp add: dense_child)
    qed (use s in \<open>auto simp: dense_child\<close>)
  qed
  moreover have "dense_of_sparse l c = Dense mn mx (of_nat (length l) + 1) ps"
    by (simp add: dense_of_sparse_def mn_def mx_def ps_def f_def Let_def)
  ultimately show ?thesis using bc p(1) by blast
qed

text \<open>A full sparse node: adding one more child turns it into a dense one.\<close>

definition full_sparse :: "trie_node \<Rightarrow> bool" where
  "full_sparse n \<longleftrightarrow> (case tn_kids n of Sparse l \<Rightarrow> length l = 8 | Dense mn mx nbr l \<Rightarrow> False)"

lemma kid_set_insert:
  assumes "\<And>c'. trie_child ks' c' = (if c' = c then Some p else trie_child ks c')" and "trie_child ks c = None"
  shows "card (kid_set ks') = Suc (card (kid_set ks))"
proof -
  have "kid_set ks' = insert c (kid_set ks)" using assms(1) by (auto simp: kid_set_def)
  moreover have "c \<notin> kid_set ks" using assms(2) by (simp add: kid_set_def)
  ultimately show ?thesis by simp
qed

lemma card_kids: "card (kid_set ks) \<le> 256"
proof -
  have "card (kid_set ks) \<le> card (UNIV :: u8 set)" by (rule card_mono) simp_all
  also have "card (UNIV :: u8 set) = 256" by (simp add: card_word)
  finally show ?thesis .
qed

lemma grow_dense_ok:
  assumes d: "mn \<le> mx" "length l = unat mx - unat mn + 1"
  shows "\<exists>mn' mx' l'. grow_dense mn mx c l = (mn', mx', l') \<and> mn' \<le> c \<and> c \<le> mx' \<and> mn' \<le> mx'
    \<and> length l' = unat mx' - unat mn' + 1 \<and> (\<forall>c'. trie_child (Dense mn' mx' nbr' l') c' = trie_child (Dense mn mx nbr l) c')"
proof -
  consider "mn \<le> c" "c \<le> mx" | "c < mn" | "mx < c" by fastforce
  then show ?thesis
  proof cases
    case 1
    then have "\<not> (c < mn \<or> c > mx)" by auto
    then have "grow_dense mn mx c l = (mn, mx, l)" by (simp only: grow_dense_def if_False)
    with 1 d show ?thesis by (simp add: dense_child)
  next
    case 2
    then have "\<not> mx < c" "\<not> mn < c" "mn \<noteq> c" using d(1) by auto
    with 2 d(1) have g: "grow_dense mn mx c l = (c, mx, replicate (unat mn - unat c) None @ l)"
      by (auto simp: grow_dense_def Let_def)
    have u: "unat c < unat mn" "unat mn \<le> unat mx" using 2 d(1) by (simp_all add: word_less_nat_alt word_le_nat_alt)
    have "trie_child (Dense c mx nbr' (replicate (unat mn - unat c) None @ l)) c' = trie_child (Dense mn mx nbr l) c'" for c'
      using u by (auto simp: dense_child nth_append word_le_nat_alt)
    with g 2 d u show ?thesis by (auto simp: word_le_nat_alt)
  next
    case 3
    then have n: "\<not> c < mn" "\<not> mx > c" using d(1) by auto
    then have g: "grow_dense mn mx c l = (mn, c, l @ replicate (unat c - unat mn + 1 - (unat mx - unat mn + 1)) None)"
      using 3 d(1) by (auto simp: grow_dense_def Let_def)
    have u: "unat mx < unat c" "unat mn \<le> unat mx" using 3 d(1) by (simp_all add: word_less_nat_alt word_le_nat_alt)
    have "trie_child (Dense mn c nbr' (l @ replicate (unat c - unat mn + 1 - (unat mx - unat mn + 1)) None)) c'
        = trie_child (Dense mn mx nbr l) c'" for c'
      using u d(2) by (auto simp: dense_child nth_append word_le_nat_alt)
    with g 3 d u show ?thesis by (auto simp: word_le_nat_alt)
  qed
qed

lemma Suc_unat_nbr: "unat (nbr :: u16) < 256 \<Longrightarrow> unat (nbr + 1) = Suc (unat nbr)"
  by (simp add: unat_word_ariths)

lemma next_of_child: "mn \<le> c \<Longrightarrow> c \<le> mx \<Longrightarrow> grid_node_next (Dense mn mx nbr l) c = Some (trie_child (Dense mn mx nbr l) c)"
  by (simp add: dense_child not_less)

lemma set_next_dense: "set_next (Dense mn mx nbr l) c p = Dense mn mx nbr (l[unat c - unat mn := p])"
  by simp

lemma add_child_ok:
  assumes n: "node_ok n" and c: "trie_child (tn_kids n) c = None"
  shows "\<exists>n'. add_child n c p = Some n' \<and> node_ok n' \<and> tn_prefix n' = tn_prefix n
    \<and> (\<forall>c'. trie_child (tn_kids n') c' = (if c' = c then Some p else trie_child (tn_kids n) c'))
    \<and> tn_refcount n' = (if full_sparse n then 0 else tn_refcount n)"
proof (cases "tn_kids n")
  case (Sparse l)
  then have l: "sparse_ok l" using n by (simp add: node_ok_def)
  then have cl: "c \<notin> fst ` set l" using c Sparse sparse_child by simp
  show ?thesis
  proof (cases "length l < 8")
    case True
    define n' where "n' = TNode (tn_refcount n) (tn_prefix n) (Sparse (l @ [(c, Some p)]))"
    have "add_child n c p = Some n'" using Sparse True by (simp add: add_child_def GRID_TRIE_SPARSE_MAX_def n'_def)
    moreover have "node_ok n'" using n l cl True by (auto simp: node_ok_def sparse_ok_def n'_def)
    moreover have "map_of (l @ [(c, Some p)]) c' = (if c' = c then Some (Some p) else map_of l c')" for c'
    proof -
      have "map_of l c = None" using cl by (simp add: map_of_eq_None_iff)
      then show ?thesis by (cases "map_of l c'") (auto simp: map_add_def)
    qed
    ultimately show ?thesis using Sparse True by (intro exI [of _ n']) (simp add: n'_def trie_child_def full_sparse_def)
  next
    case False
    then have len: "length l = 8" using l by (simp add: sparse_ok_def)
    obtain mn mx ps where d: "dense_of_sparse l c = Dense mn mx (of_nat (length l) + 1) ps" "mn \<le> c" "c \<le> mx"
      "length ps = unat mx - unat mn + 1" "\<And>c'. trie_child (Dense mn mx (of_nat (length l) + 1) ps) c' = trie_child (Sparse l) c'"
      using dense_of_sparse_ok [OF l cl] by blast
    let ?nbr = "of_nat (length l) + 1 :: u16" and ?ps = "ps[unat c - unat mn := Some p]"
    define n' where "n' = TNode 0 (tn_prefix n) (Dense mn mx ?nbr ?ps)"
    have nx: "grid_node_next (Dense mn mx ?nbr ps) c = Some None"
      unfolding next_of_child [OF d(2,3)] d(5) using c Sparse by simp
    have "add_child n c p = Some n'"
      using Sparse False nx by (simp add: add_child_def GRID_TRIE_SPARSE_MAX_def d(1) n'_def)
    moreover have k: "trie_child (Dense mn mx ?nbr ?ps) c' = (if c' = c then Some p else trie_child (Sparse l) c')" for c'
      using set_next_child [of "Dense mn mx ?nbr ps" c "Some p" c'] nx d(4,5) by simp
    moreover have "card (kid_set (Dense mn mx ?nbr ?ps)) = Suc (card (kid_set (Sparse l)))"
      using k c Sparse by (intro kid_set_insert) auto
    then have "dense_ok mn mx ?nbr ?ps"
      using d(2-4) len conjunct2 [OF sparse_kid_set [OF l]] order.trans [OF d(2,3)] by (simp add: dense_ok_def)
    then have "node_ok n'" using n by (simp add: node_ok_def n'_def)
    ultimately show ?thesis using Sparse len by (intro exI [of _ n']) (simp add: n'_def full_sparse_def)
  qed
next
  case (Dense mn mx nbr l)
  then have d: "mn \<le> mx" "length l = unat mx - unat mn + 1" "unat nbr = card (kid_set (Dense mn mx nbr l))" "9 \<le> unat nbr"
    using n by (simp_all add: node_ok_def dense_ok_def)
  obtain mn' mx' l' where g: "grow_dense mn mx c l = (mn', mx', l')" "mn' \<le> c" "c \<le> mx'" "mn' \<le> mx'"
    "length l' = unat mx' - unat mn' + 1" "\<And>c'. trie_child (Dense mn' mx' (nbr + 1) l') c' = trie_child (Dense mn mx nbr l) c'"
    using grow_dense_ok [OF d(1,2), of c "nbr + 1" nbr] by blast
  let ?ps = "l'[unat c - unat mn' := Some p]"
  define n' where "n' = TNode (tn_refcount n) (tn_prefix n) (Dense mn' mx' (nbr + 1) ?ps)"
  have nx: "grid_node_next (Dense mn' mx' (nbr + 1) l') c = Some None"
    unfolding next_of_child [OF g(2,3)] g(6) using c Dense by simp
  have "add_child n c p = Some n'" using Dense nx by (simp add: add_child_def g(1) n'_def)
  moreover have k: "trie_child (Dense mn' mx' (nbr + 1) ?ps) c' = (if c' = c then Some p else trie_child (Dense mn mx nbr l) c')" for c'
    using set_next_child [of "Dense mn' mx' (nbr + 1) l'" c "Some p" c'] nx g(5,6) by simp
  moreover have kc: "card (kid_set (Dense mn' mx' (nbr + 1) ?ps)) = Suc (card (kid_set (Dense mn mx nbr l)))"
    using k c Dense by (intro kid_set_insert) auto
  then have "unat (nbr + 1) = Suc (unat nbr)"
    using card_kids [of "Dense mn' mx' (nbr + 1) ?ps"] d(3) by (intro Suc_unat_nbr) simp
  then have "dense_ok mn' mx' (nbr + 1) ?ps" using g(4,5) kc d(3,4) by (simp add: dense_ok_def)
  then have "node_ok n'" using n by (simp add: node_ok_def n'_def)
  ultimately show ?thesis using Dense by (intro exI [of _ n']) (simp add: n'_def full_sparse_def)
qed

section \<open>Subscribing adds one subscription\<close>

text \<open>The effect of a change at one node on the counts.\<close>

lemma count_change:
  assumes pre: "tn_prefix n' = tn_prefix n"
    and kids: "\<And>c' r. (c', r) \<noteq> (c, r0) \<Longrightarrow> trie_count (trie_child (tn_kids n') c') r = trie_count (trie_child (tn_kids n) c') r"
    and s: "s \<noteq> tn_prefix n @ c # r0" "s \<noteq> tn_prefix n"
  shows "trie_count (Some n') s = trie_count (Some n) s"
proof (cases rule: prefix_cases [of s "tn_prefix n"])
  case (down c' r)
  with s have "(c', r) \<noteq> (c, r0)" by simp
  with kids down pre show ?thesis using trie_count_child [of n' c' r] by simp
next
  case other
  with pre show ?thesis by (simp add: trie_count_other)
qed (use s in simp)

lemma subscribe_at_ok:
  assumes n: "trie_ok (Some n)" and c: "case rest of [] \<Rightarrow> True | c # r \<Rightarrow> trie_child (tn_kids n) c = None"
    and d: "data = tn_prefix n @ rest"
  shows "\<exists>n' fresh. subscribe_at n rest = Some (n', fresh) \<and> trie_ok (Some n')
    \<and> trie_count (Some n') data = trie_count (Some n) data + 1 \<and> fresh = (trie_count (Some n') data = 1)
    \<and> (\<forall>s. s \<noteq> data \<longrightarrow> trie_count (Some n') s = trie_count (Some n) s
         \<or> (s = tn_prefix n \<and> full_sparse n \<and> trie_count (Some n') s = 0))"
proof (cases rest)
  case Nil
  define n' where "n' = TNode (tn_refcount n + 1) (tn_prefix n) (tn_kids n)"
  have "trie_ok (Some n')" using n by (simp add: trie_ok_node node_ok_def n'_def)
  moreover have "trie_count (Some n') s = trie_count (Some n) s" if "s \<noteq> data" for s
    using that d Nil by (intro node_cong) (simp_all add: n'_def)
  moreover have "trie_count (Some n') data = tn_refcount n + 1" "trie_count (Some n) data = tn_refcount n"
    using d Nil by (simp_all add: n'_def trie_count_node)
  moreover have "subscribe_at n rest = Some (n', tn_refcount n + 1 = 1)"
    using Nil by (simp add: subscribe_at_def n'_def Let_def)
  ultimately show ?thesis by simp
next
  case (Cons c r)
  have ok: "node_ok n" "trie_child (tn_kids n) c = None" using n c Cons by (simp_all add: trie_ok_node)
  obtain n' where n': "add_child n c (new_nodes r) = Some n'" "node_ok n'" "tn_prefix n' = tn_prefix n"
    "\<And>c'. trie_child (tn_kids n') c' = (if c' = c then Some (new_nodes r) else trie_child (tn_kids n) c')"
    "tn_refcount n' = (if full_sparse n then 0 else tn_refcount n)"
    using add_child_ok [OF ok, of "new_nodes r"] by blast
  have "trie_ok (Some n')" using n n'(2,4) new_nodes_ok by (simp add: trie_ok_node [of n'] trie_ok_node [of n])
  moreover have "trie_count (Some n) data = 0" using d Cons ok(2) by simp
  moreover have "trie_count (Some n') data = 1"
    using d Cons n'(3,4) new_nodes_ok trie_count_child [of n' c r] by simp
  moreover have "trie_count (Some n') s = trie_count (Some n) s \<or> (s = tn_prefix n \<and> full_sparse n \<and> trie_count (Some n') s = 0)"
    if s: "s \<noteq> data" for s
  proof (cases "s = tn_prefix n")
    case True
    then have "trie_count (Some n') s = tn_refcount n'" "trie_count (Some n) s = tn_refcount n"
      using n'(3) trie_count_prefix [of n'] by simp_all
    with True n'(5) show ?thesis by (simp split: if_splits)
  next
    case False
    have "trie_count (trie_child (tn_kids n') c') r' = trie_count (trie_child (tn_kids n) c') r'" if "(c', r') \<noteq> (c, r)" for c' r'
      using that n'(4) ok(2) new_nodes_ok by auto
    from count_change [OF n'(3) this] s d Cons False show ?thesis by simp
  qed
  moreover have "subscribe_at n rest = Some (n', True)" using Cons n'(1) by (simp add: subscribe_at_def)
  ultimately show ?thesis by simp
qed

text \<open>The nodes where adding the subscription may lose another one.\<close>

definition loses_at :: "trie_node option \<Rightarrow> bytes \<Rightarrow> bytes \<Rightarrow> bool" where
  "loses_at t data s \<longleftrightarrow> (\<exists>n c r. node_at t s = Some n \<and> full_sparse n \<and> data = s @ c # r \<and> trie_child (tn_kids n) c = None)"

lemma loses_at_child: "loses_at (trie_child (tn_kids n) c) data s \<Longrightarrow> loses_at (Some n) (tn_prefix n @ c # data) (tn_prefix n @ c # s)"
  by (auto simp: loses_at_def)

lemma set_next_ok:
  assumes n: "node_ok n" and c: "grid_node_next (tn_kids n) c = Some (Some ch)"
  shows "node_ok (TNode rc (tn_prefix n) (set_next (tn_kids n) c (Some ch')))"
    "trie_child (set_next (tn_kids n) c (Some ch')) c' = (if c' = c then Some ch' else trie_child (tn_kids n) c')"
proof -
  have sh: "case tn_kids n of Sparse l \<Rightarrow> True | Dense mn mx nbr l \<Rightarrow> length l = unat mx - unat mn + 1"
    using n by (simp add: node_ok_def dense_ok_def split: trie_kids.splits)
  have k: "trie_child (set_next (tn_kids n) c (Some ch')) c' = (if c' = c then Some ch' else trie_child (tn_kids n) c')" for c'
    by (rule set_next_child [OF _ sh]) (simp add: c)
  then show "trie_child (set_next (tn_kids n) c (Some ch')) c' = (if c' = c then Some ch' else trie_child (tn_kids n) c')" .
  have ks: "kid_set (set_next (tn_kids n) c (Some ch')) = kid_set (tn_kids n)"
  proof -
    have "trie_child (tn_kids n) c = Some ch" using c by (simp add: trie_child_def)
    then show ?thesis by (auto simp: kid_set_def k)
  qed
  show "node_ok (TNode rc (tn_prefix n) (set_next (tn_kids n) c (Some ch')))"
  proof (cases "tn_kids n")
    case (Sparse l)
    have "map fst (upd_first c (Some ch') l) = map fst l" for l by (induction l) auto
    moreover have "length (upd_first c (Some ch') l) = length l" for l by (induction l) auto
    moreover have "None \<notin> snd ` set l \<Longrightarrow> None \<notin> snd ` set (upd_first c (Some ch') l)" for l by (induction l) auto
    ultimately show ?thesis using n Sparse by (simp add: node_ok_def sparse_ok_def)
  next
    case (Dense mn mx nbr l)
    with n ks show ?thesis by (simp add: node_ok_def dense_ok_def)
  qed
qed

text \<open>
  Subscribing to a string: the trie stays well-formed, the count of the string grows by one, and
  every other count stays, except at a full sparse node that becomes dense on the way.
\<close>

lemma subscribe_ok:
  "trie_ok t \<Longrightarrow> \<exists>n' fresh. grid_trie_subscribe t data = Some (n', fresh) \<and> trie_ok (Some n')
    \<and> trie_count (Some n') data = trie_count t data + 1 \<and> fresh = (trie_count (Some n') data = 1)
    \<and> (\<forall>s. s \<noteq> data \<longrightarrow> trie_count (Some n') s = trie_count t s
         \<or> (loses_at t data s \<and> trie_count (Some n') s = 0))"
proof (induction "length data" arbitrary: data t rule: less_induct)
  case less
  show ?case
  proof (cases t)
    case None
    then show ?thesis using new_nodes_ok by simp
  next
    case (Some n)
    have n: "trie_ok (Some n)" using less.prems Some by simp
    define pos where "pos = grid_node_check_prefix (tn_prefix n) data"
    show ?thesis
    proof (cases "pos < length (tn_prefix n)")
      case True
      obtain n1 where n1: "split_node pos n = Some n1" "trie_ok (Some n1)" "tn_prefix n1 = take pos (tn_prefix n)"
        "\<exists>ch. tn_kids n1 = Sparse [(tn_prefix n ! pos, Some ch)]" "\<And>s. trie_count (Some n1) s = trie_count (Some n) s"
        using split_node_ok [OF n True] by blast
      have d: "data = tn_prefix n1 @ drop pos data"
        using check_prefix_bounds(3) [of "tn_prefix n" data] n1(3) by (simp add: pos_def)
      have "case drop pos data of [] \<Rightarrow> True | c # r \<Rightarrow> trie_child (tn_kids n1) c = None"
      proof (cases "drop pos data")
        case (Cons c r)
        then have "pos < length data" "data ! pos = c" by (metis drop_all list.distinct(1) not_le, metis nth_via_drop)
        then have "tn_prefix n ! pos \<noteq> c" using check_prefix_stop [OF pos_def True] by simp
        with Cons n1(4) show ?thesis by (auto simp: trie_child_def)
      qed simp
      from subscribe_at_ok [OF n1(2) this d] n1(4,5) obtain n' fresh where
        r: "subscribe_at n1 (drop pos data) = Some (n', fresh)" "trie_ok (Some n')"
        "trie_count (Some n') data = trie_count (Some n) data + 1" "fresh = (trie_count (Some n') data = 1)"
        "\<forall>s. s \<noteq> data \<longrightarrow> trie_count (Some n') s = trie_count (Some n) s" by (auto simp: full_sparse_def)
      have "grid_trie_subscribe t data = Some (n', fresh)"
        using Some True n1(1) r(1) by (simp add: pos_def [symmetric] Let_def)
      with r Some show ?thesis by auto
    next
      case False
      then have "pos = length (tn_prefix n)" using check_prefix_bounds(1) [of "tn_prefix n" data] by (simp add: pos_def)
      then obtain rest where d: "data = tn_prefix n @ rest" using check_prefix_full by (auto simp: pos_def)
      have dr: "drop pos data = rest" using d \<open>pos = length (tn_prefix n)\<close> by simp
      have here: ?thesis if e: "grid_trie_subscribe t data = subscribe_at n rest"
        and c: "case rest of [] \<Rightarrow> True | c # r \<Rightarrow> trie_child (tn_kids n) c = None"
      proof -
        from subscribe_at_ok [OF n c d] obtain n' fresh where r: "subscribe_at n rest = Some (n', fresh)" "trie_ok (Some n')"
          "trie_count (Some n') data = trie_count (Some n) data + 1" "fresh = (trie_count (Some n') data = 1)"
          "\<forall>s. s \<noteq> data \<longrightarrow> trie_count (Some n') s = trie_count (Some n) s
             \<or> (s = tn_prefix n \<and> full_sparse n \<and> trie_count (Some n') s = 0)" by blast
        have "loses_at t data s" if "s = tn_prefix n" "s \<noteq> data" "full_sparse n" for s
          using that d c Some by (cases rest) (auto simp: loses_at_def)
        with r Some e show ?thesis by auto
      qed
      show ?thesis
      proof (cases rest)
        case Nil
        then show ?thesis using here Some False dr by (simp add: pos_def [symmetric])
      next
        case (Cons c rest1)
        show ?thesis
        proof (cases "trie_child (tn_kids n) c")
          case None
          then have "grid_trie_subscribe t data = subscribe_at n rest"
            using Some False dr Cons by (auto simp: pos_def [symmetric] trie_child_def split: option.splits)
          then show ?thesis using here Cons None by simp
        next
          case ch: (Some ch)
          then have nx: "grid_node_next (tn_kids n) c = Some (Some ch)" by (auto simp: trie_child_def split: option.splits)
          have okn: "node_ok n" and okc: "trie_ok (Some ch)" using n ch by (metis trie_ok_node)+
          have "length rest1 < length data" using d Cons by simp
          from less.hyps [OF this okc] obtain ch' fresh where r: "grid_trie_subscribe (Some ch) rest1 = Some (ch', fresh)"
            "trie_ok (Some ch')" "trie_count (Some ch') rest1 = trie_count (Some ch) rest1 + 1"
            "fresh = (trie_count (Some ch') rest1 = 1)"
            "\<forall>s. s \<noteq> rest1 \<longrightarrow> trie_count (Some ch') s = trie_count (Some ch) s
               \<or> (loses_at (Some ch) rest1 s \<and> trie_count (Some ch') s = 0)" by blast
          define n' where "n' = TNode (tn_refcount n) (tn_prefix n) (set_next (tn_kids n) c (Some ch'))"
          have k: "trie_child (tn_kids n') c' = (if c' = c then Some ch' else trie_child (tn_kids n) c')" for c'
            using set_next_ok(2) [OF okn nx] by (simp add: n'_def)
          have "node_ok n'" unfolding n'_def by (rule set_next_ok(1) [OF okn nx])
          then have "trie_ok (Some n')" using n r(2) by (simp add: trie_ok_node [of n'] trie_ok_node [of n] k)
          moreover have "grid_trie_subscribe t data = Some (n', fresh)"
            using Some False dr Cons nx r(1) by (simp add: pos_def [symmetric] n'_def)
          moreover have down: "trie_count (Some n') (tn_prefix n @ c # r) = trie_count (Some ch') r" for r
            using trie_count_child [of n' c r] k by (simp add: n'_def)
          have "trie_count (Some n') s = trie_count t s \<or> (loses_at t data s \<and> trie_count (Some n') s = 0)"
            if s: "s \<noteq> data" for s
          proof (cases rule: prefix_cases [of s "tn_prefix n"])
            case at
            then show ?thesis using Some trie_count_prefix [of n'] by (simp add: n'_def)
          next
            case (down c' r')
            show ?thesis
            proof (cases "c' = c")
              case True
              then have "r' \<noteq> rest1" using s d Cons down by simp
              with r(5) down True Some ch \<open>\<And>r. trie_count (Some n') (tn_prefix n @ c # r) = trie_count (Some ch') r\<close>
                loses_at_child [of n c rest1 r'] d Cons show ?thesis by auto
            next
              case False
              then show ?thesis using down Some k trie_count_child [of n' c' r'] by (simp add: n'_def)
            qed
          next
            case other
            then show ?thesis using Some by (simp add: trie_count_other n'_def)
          qed
          moreover have "trie_count (Some n') data = trie_count t data + 1" "fresh = (trie_count (Some n') data = 1)"
            using down r(3,4) d Cons Some ch by simp_all
          ultimately show ?thesis by blast
        qed
      qed
    qed
  qed
qed

section \<open>Matching\<close>

text \<open>
  What a match returns: true if some prefix of the data is subscribed to; else, if a node ends
  exactly where the data end, the byte after the data is read; else false.
\<close>

lemma prefix_split: "(\<exists>p r. pre @ rest = p @ r \<and> P p) \<longleftrightarrow>
    (\<exists>p r. pre = p @ r \<and> r \<noteq> [] \<and> P p) \<or> (\<exists>p r. rest = p @ r \<and> P (pre @ p))"
proof
  assume "\<exists>p r. pre @ rest = p @ r \<and> P p"
  then obtain p r where p: "pre @ rest = p @ r" "P p" by blast
  then consider us where "pre = p @ us" "us @ rest = r" | us where "pre @ us = p" "rest = us @ r"
    by (auto simp: append_eq_append_conv2)
  then show "(\<exists>p r. pre = p @ r \<and> r \<noteq> [] \<and> P p) \<or> (\<exists>p r. rest = p @ r \<and> P (pre @ p))"
  proof cases
    case (1 us)
    show ?thesis
    proof (cases "us = []")
      case True
      with 1 p(2) have "rest = [] @ r" "P (pre @ [])" by simp_all
      then show ?thesis by blast
    qed (use 1 p(2) in blast)
  qed (use p(2) in blast)
next
  assume "(\<exists>p r. pre = p @ r \<and> r \<noteq> [] \<and> P p) \<or> (\<exists>p r. rest = p @ r \<and> P (pre @ p))"
  then show "\<exists>p r. pre @ rest = p @ r \<and> P p" by (metis append_assoc)
qed

lemma match_spec:
  "grid_trie_match t data =
     (if \<exists>p r. data = p @ r \<and> trie_count t p \<noteq> 0 then Some True
      else if node_at t data \<noteq> None then None else Some False)"
proof (induction "length data" arbitrary: data t rule: less_induct)
  case less
  show ?case
  proof (cases t)
    case (Some n)
    have short: "trie_count (Some n) p = 0" if "tn_prefix n = p @ r" "r \<noteq> []" for p r
      using that by (intro trie_count_other) auto
    show ?thesis
    proof (cases "\<exists>rest. data = tn_prefix n @ rest")
      case False
      then have "trie_count t p = 0" if "data = p @ r" for p r
        using that Some by (intro trie_count_other [of p n, folded Some]) auto
      with False Some show ?thesis by (auto simp: check_prefix_full node_at_other)
    next
      case True
      then obtain rest where d: "data = tn_prefix n @ rest" by blast
      have sub: "(\<exists>p r. data = p @ r \<and> trie_count t p \<noteq> 0) \<longleftrightarrow> (\<exists>p r. rest = p @ r \<and> trie_count t (tn_prefix n @ p) \<noteq> 0)"
        unfolding d prefix_split using short Some by blast
      show ?thesis
      proof (cases "tn_refcount n = 0")
        case False
        then have "\<exists>p r. rest = p @ r \<and> trie_count t (tn_prefix n @ p) \<noteq> 0"
          using Some by (intro exI [of _ "[]"] exI [of _ rest]) simp
        with sub False Some d show ?thesis by (simp add: grid_node_has_subscribers_def)
      next
        case rc: True
        show ?thesis
        proof (cases rest)
          case Nil
          then have "\<not> (\<exists>p r. rest = p @ r \<and> trie_count t (tn_prefix n @ p) \<noteq> 0)" using rc Some by simp
          with sub rc Some d Nil show ?thesis by (simp add: grid_node_has_subscribers_def)
        next
          case (Cons c rest1)
          have e: "grid_trie_match t data = grid_trie_match (trie_child (tn_kids n) c) rest1"
            using Some d rc Cons by (simp add: grid_node_has_subscribers_def trie_child_def)
          have "length rest1 < length data" using d Cons by simp
          note ih = less [OF this, of "trie_child (tn_kids n) c"]
          have "(\<exists>p r. rest = p @ r \<and> trie_count t (tn_prefix n @ p) \<noteq> 0)
              \<longleftrightarrow> (\<exists>p r. rest1 = p @ r \<and> trie_count (trie_child (tn_kids n) c) p \<noteq> 0)"
          proof
            assume "\<exists>p r. rest = p @ r \<and> trie_count t (tn_prefix n @ p) \<noteq> 0"
            then obtain p r where p: "rest = p @ r" "trie_count t (tn_prefix n @ p) \<noteq> 0" by blast
            then obtain p1 where "p = c # p1" using rc Some Cons by (cases p) auto
            with p Some Cons show "\<exists>p r. rest1 = p @ r \<and> trie_count (trie_child (tn_kids n) c) p \<noteq> 0" by auto
          next
            assume "\<exists>p r. rest1 = p @ r \<and> trie_count (trie_child (tn_kids n) c) p \<noteq> 0"
            then obtain p r where "rest1 = p @ r" "trie_count (trie_child (tn_kids n) c) p \<noteq> 0" by blast
            with Some Cons show "\<exists>p r. rest = p @ r \<and> trie_count t (tn_prefix n @ p) \<noteq> 0"
              by (intro exI [of _ "c # p"] exI [of _ r]) simp
          qed
          with ih sub e Some d Cons show ?thesis by simp
        qed
      qed
    qed
  qed simp
qed

section \<open>Removing a child\<close>

text \<open>A dense node with the smallest number of children: removing one turns it into a sparse node.\<close>

definition least_dense :: "trie_node \<Rightarrow> bool" where
  "least_dense n \<longleftrightarrow> (case tn_kids n of Sparse l \<Rightarrow> False | Dense mn mx nbr l \<Rightarrow> unat nbr = 9)"

lemma kid_set_remove:
  assumes "\<And>c'. trie_child ks' c' = (if c' = c then None else trie_child ks c')" and "trie_child ks c \<noteq> None"
  shows "Suc (card (kid_set ks')) = card (kid_set ks)"
proof -
  have "kid_set ks' = kid_set ks - {c}" using assms(1) by (auto simp: kid_set_def)
  moreover have "c \<in> kid_set ks" using assms(2) by (simp add: kid_set_def)
  ultimately show ?thesis by (metis card_Suc_Diff1 finite_kid_set)
qed

lemma dense_index:
  assumes "mn \<le> (c :: u8)" and "c \<le> mx" and "length l = unat mx - unat mn + 1"
  shows "unat c - unat mn < length l" "of_nat (unat c - unat mn) + mn = c"
proof -
  have u: "unat mn \<le> unat c" "unat c \<le> unat mx" using assms by (simp_all add: word_le_nat_alt)
  then show "unat c - unat mn < length l" using assms(3) by linarith
  have "unat c < 256" using unsigned_less [of c, where 'a = nat] by simp
  then have "unat (of_nat (unat c - unat mn) + mn) = unat c" using u(1) by (simp add: unat_word_ariths unat_of_nat)
  then show "of_nat (unat c - unat mn) + mn = c" by (simp add: word_unat_eq_iff)
qed

lemma index_dense:
  assumes "i < length l" and "mn \<le> mx" and "length l = unat mx - unat (mn :: u8) + 1"
  shows "unat (of_nat i + mn) = i + unat mn" "mn \<le> of_nat i + mn" "of_nat i + mn \<le> mx"
proof -
  have m: "unat mn \<le> unat mx" using assms(2) by (simp add: word_le_nat_alt)
  then have "i + unat mn \<le> unat mx" using assms(1,3) by linarith
  then have lt: "i + unat mn < 256" using unsigned_less [of mx, where 'a = nat] by simp
  then show u: "unat (of_nat i + mn) = i + unat mn" by (simp add: unat_word_ariths unat_of_nat)
  show "mn \<le> of_nat i + mn" "of_nat i + mn \<le> mx" using u m assms(1,3) by (simp_all add: word_le_nat_alt)
qed

lemma some_child:
  assumes "0 < card (kid_set (Dense mn mx nbr l))" and "length l = unat mx - unat mn + 1"
  shows "\<exists>i < length l. l ! i \<noteq> None"
proof -
  from assms(1) obtain c where "c \<in> kid_set (Dense mn mx nbr l)" by (metis card_eq_0_iff all_not_in_conv less_numeral_extra(3))
  then have "mn \<le> c" "c \<le> mx" "l ! (unat c - unat mn) \<noteq> None" by (auto simp: kid_set_def dense_child split: if_splits)
  with dense_index(1) [OF this(1,2) assms(2)] show ?thesis by blast
qed

lemma trim_left_ok:
  assumes d: "mn \<le> mx" "length l = unat mx - unat mn + 1" and s: "\<exists>i < length l. l ! i \<noteq> None"
  shows "\<exists>mn' l'. trim_left mn mx nbr l = Dense mn' mx (nbr - 1) l' \<and> mn' \<le> mx \<and> length l' = unat mx - unat mn' + 1
    \<and> (\<forall>c. trie_child (Dense mn' mx (nbr - 1) l') c = trie_child (Dense mn mx nbr l) c)"
proof -
  define i where "i = length (takeWhile (\<lambda>p. p = None) l)"
  obtain k where k: "k < length l" "l ! k \<noteq> None" using s by blast
  have before: "l ! j = None" if "j < i" for j
    using that nth_mem [of j "takeWhile (\<lambda>p. p = None) l"] by (auto simp: i_def takeWhile_nth dest: set_takeWhileD)
  then have "i \<le> k" using k(2) by (meson not_le)
  then have il: "i < length l" using k(1) by simp
  note ix = index_dense [OF il d]
  define mn' where "mn' = mn + of_nat i"
  have mn': "unat mn' = i + unat mn" "mn \<le> mn'" "mn' \<le> mx" using ix by (simp_all add: mn'_def add.commute)
  have "trie_child (Dense mn' mx (nbr - 1) (drop i l)) c = trie_child (Dense mn mx nbr l) c" for c
  proof (cases "mn' \<le> c \<and> c \<le> mx")
    case True
    then have u: "i + unat mn \<le> unat c" using mn'(1) by (simp add: word_le_nat_alt)
    then have "drop i l ! (unat c - unat mn') = l ! (unat c - unat mn)" using il mn'(1) by (simp add: nth_drop)
    moreover have "mn \<le> c" using True mn'(2) by (meson order.trans)
    ultimately show ?thesis using True by (simp add: dense_child)
  next
    case False
    then have "mn \<le> c \<Longrightarrow> c \<le> mx \<Longrightarrow> unat c - unat mn < i"
      using mn'(1) by (auto simp: word_le_nat_alt)
    with before False show ?thesis by (auto simp: dense_child)
  qed
  moreover have "length (drop i l) = unat mx - unat mn' + 1" using d(2) il mn'(1) by simp
  ultimately show ?thesis using mn'(3) by (intro exI [of _ mn'] exI [of _ "drop i l"]) (simp add: trim_left_def i_def mn'_def Let_def)
qed

lemma trim_right_ok:
  assumes d: "mn \<le> mx" "length l = unat mx - unat mn + 1" and s: "\<exists>i < length l. l ! i \<noteq> None"
  shows "\<exists>mx' l'. trim_right mn mx nbr l = Dense mn mx' (nbr - 1) l' \<and> mn \<le> mx' \<and> length l' = unat mx' - unat mn + 1
    \<and> (\<forall>c. trie_child (Dense mn mx' (nbr - 1) l') c = trie_child (Dense mn mx nbr l) c)"
proof -
  define r where "r = takeWhile (\<lambda>p. p = None) (rev l)"
  define i where "i = length (dropWhile (\<lambda>p. p = None) (rev l)) - 1"
  obtain k where k: "k < length l" "l ! k \<noteq> None" using s by blast
  have sum: "length r + length (dropWhile (\<lambda>p. p = None) (rev l)) = length l"
    unfolding r_def by (metis length_append length_rev takeWhile_dropWhile_id)
  have after: "l ! j = None" if "j < length l" "length l - length r \<le> j" for j
  proof -
    have m: "length l - Suc j < length r" using that by linarith
    then have "r ! (length l - Suc j) = rev l ! (length l - Suc j)" by (simp add: r_def takeWhile_nth)
    also have "\<dots> = l ! j" using that(1) by (simp add: rev_nth)
    finally have "l ! j \<in> set r" using m nth_mem by metis
    then show ?thesis by (auto simp: r_def dest: set_takeWhileD)
  qed
  then have "k < length l - length r" using k by (meson not_le)
  then have il: "i < length l" "length l - length r = i + 1" using sum by (auto simp: i_def)
  note ix = index_dense [OF il(1) d]
  define mx' where "mx' = mn + of_nat i"
  have mx': "unat mx' = i + unat mn" "mn \<le> mx'" "mx' \<le> mx" using ix by (simp_all add: mx'_def add.commute)
  have "trie_child (Dense mn mx' (nbr - 1) (take (i + 1) l)) c = trie_child (Dense mn mx nbr l) c" for c
  proof (cases "mn \<le> c \<and> c \<le> mx'")
    case True
    then have "unat c - unat mn < i + 1" using mx'(1) by (auto simp: word_le_nat_alt)
    moreover have "c \<le> mx" using True mx'(3) by (meson order.trans)
    ultimately show ?thesis using True by (simp add: dense_child)
  next
    case False
    have "l ! (unat c - unat mn) = None" if c: "mn \<le> c" "c \<le> mx"
    proof (rule after)
      show "unat c - unat mn < length l" by (rule dense_index(1) [OF c d(2)])
      have "unat mx' < unat c" using False c by (simp add: word_le_nat_alt)
      then show "length l - length r \<le> unat c - unat mn" using mx'(1) il(2) by simp
    qed
    with False show ?thesis by (auto simp: dense_child)
  qed
  moreover have "length (take (i + 1) l) = unat mx' - unat mn + 1" using il mx'(1) by simp
  ultimately show ?thesis using mx'(2)
    by (intro exI [of _ mx'] exI [of _ "take (i + 1) l"]) (simp add: trim_right_def i_def mx'_def Let_def)
qed

lemma sparse_of_dense_ok:
  assumes d: "mn \<le> mx" "length l = unat mx - unat mn + 1" and k: "card (kid_set (Dense mn mx nbr l)) = 8"
  shows "sparse_ok (sparse_of_dense mn l) \<and> length (sparse_of_dense mn l) = 8
    \<and> (\<forall>c. trie_child (Sparse (sparse_of_dense mn l)) c = trie_child (Dense mn mx nbr l) c)"
proof -
  let ?l = "sparse_of_dense mn l"
  have mem: "(c, p) \<in> set ?l \<longleftrightarrow> mn \<le> c \<and> c \<le> mx \<and> p = l ! (unat c - unat mn) \<and> p \<noteq> None" for c p
  proof
    assume "(c, p) \<in> set ?l"
    then obtain i where i: "i < length l" "c = of_nat i + mn" "p = l ! i" "p \<noteq> None"
      by (auto simp: sparse_of_dense_def in_set_enumerate_eq)
    with index_dense [OF i(1) d] show "mn \<le> c \<and> c \<le> mx \<and> p = l ! (unat c - unat mn) \<and> p \<noteq> None" by simp
  next
    assume a: "mn \<le> c \<and> c \<le> mx \<and> p = l ! (unat c - unat mn) \<and> p \<noteq> None"
    then have "unat c - unat mn < length l" "of_nat (unat c - unat mn) + mn = c" using dense_index [OF _ _ d(2)] by auto
    with a show "(c, p) \<in> set ?l"
      by (auto simp: sparse_of_dense_def in_set_enumerate_eq image_iff intro!: bexI [of _ "(unat c - unat mn, p)"])
  qed
  have fst_l: "map fst ?l = map (\<lambda>i. of_nat i + mn) (map fst (filter (\<lambda>(i, p). p \<noteq> None) (enumerate 0 l)))"
    by (simp add: sparse_of_dense_def case_prod_unfold comp_def)
  have "inj_on (\<lambda>i. of_nat i + mn) {..< length l}"
  proof (rule inj_onI)
    fix i j assume ij: "i \<in> {..< length l}" "j \<in> {..< length l}" and eq: "of_nat i + mn = of_nat j + mn"
    then have "i < length l" "j < length l" by simp_all
    from index_dense(1) [OF this(1) d] index_dense(1) [OF this(2) d] eq have "i + unat mn = j + unat mn" by metis
    then show "i = j" by simp
  qed
  moreover have "set (map fst (filter (\<lambda>(i, p). p \<noteq> None) (enumerate 0 l))) \<subseteq> {..< length l}"
    by (auto simp: in_set_enumerate_eq)
  moreover have "distinct (map fst (filter (\<lambda>(i, p). p \<noteq> None) (enumerate 0 l)))"
    by (rule distinct_map_filter) simp
  ultimately have dist: "distinct (map fst ?l)"
    unfolding fst_l by (subst distinct_map) (blast intro: inj_on_subset)
  have keys: "fst ` set ?l = kid_set (Dense mn mx nbr l)"
  proof (rule set_eqI)
    fix c
    have "c \<in> fst ` set ?l \<longleftrightarrow> (\<exists>p. (c, p) \<in> set ?l)" by force
    also have "\<dots> \<longleftrightarrow> mn \<le> c \<and> c \<le> mx \<and> l ! (unat c - unat mn) \<noteq> None" unfolding mem by blast
    finally show "c \<in> fst ` set ?l \<longleftrightarrow> c \<in> kid_set (Dense mn mx nbr l)" by (auto simp: kid_set_def dense_child)
  qed
  then have len: "length ?l = 8" using k distinct_card [OF dist] by simp
  have none: "None \<notin> snd ` set ?l" using mem by auto
  have "trie_child (Sparse ?l) c = trie_child (Dense mn mx nbr l) c" for c
  proof (cases "\<exists>p. (c, p) \<in> set ?l")
    case True
    then obtain p where p: "(c, p) \<in> set ?l" by blast
    then have "map_of ?l c = Some p" using dist by simp
    moreover have "mn \<le> c" "c \<le> mx" "p = l ! (unat c - unat mn)" using p mem by auto
    ultimately show ?thesis by (simp add: dense_child) (simp add: trie_child_def)
  next
    case False
    then have "map_of ?l c = None" by (force simp: map_of_eq_None_iff)
    moreover have "trie_child (Dense mn mx nbr l) c = None" using False mem [of c] by (auto simp: dense_child)
    ultimately show ?thesis by (simp add: trie_child_def)
  qed
  with dist len none show ?thesis by (simp add: sparse_ok_def)
qed

lemma remove_first_upd:
  "distinct (map fst l) \<Longrightarrow> remove_first c (upd_first c p l) = filter (\<lambda>x. fst x \<noteq> c) l"
proof (induction l)
  case (Cons x xs)
  then have "fst x \<notin> set (map fst xs)" by simp
  then have "fst y \<noteq> fst x" if "y \<in> set xs" for y using that by (metis image_eqI set_map)
  then have "fst x = c \<Longrightarrow> filter (\<lambda>y. fst y \<noteq> c) xs = xs" by (auto simp: filter_id_conv)
  with Cons show ?case by auto
qed simp

text \<open>The pointer for \<open>c\<close> has become null: it is taken out, without changing what the trie stands for.\<close>

lemma remove_child_ok:
  assumes n: "node_ok n" "\<And>c. trie_ok (trie_child (tn_kids n) c)" and c: "grid_node_next (tn_kids n) c = Some (Some ch)"
    and n1: "n1 = TNode (tn_refcount n) (tn_prefix n) (set_next (tn_kids n) c None)"
  shows "\<exists>r. remove_child n1 c = Some r \<and> trie_ok r
    \<and> (\<forall>s. trie_count r s = trie_count (Some n1) s \<or> (s = tn_prefix n \<and> least_dense n \<and> trie_count r s = 0))"
proof -
  have sh: "case tn_kids n of Sparse l \<Rightarrow> True | Dense mn mx nbr l \<Rightarrow> length l = unat mx - unat mn + 1"
    using n(1) by (simp add: node_ok_def dense_ok_def split: trie_kids.splits)
  have k1: "trie_child (tn_kids n1) c' = (if c' = c then None else trie_child (tn_kids n) c')" for c'
    unfolding n1 trie_node.sel by (rule set_next_child [OF _ sh]) (simp add: c)
  have ok1: "trie_ok (trie_child (tn_kids n1) c')" for c' using n(2) by (simp add: k1)
  have pre1: "tn_prefix n1 = tn_prefix n" "tn_refcount n1 = tn_refcount n" by (simp_all add: n1)
  show ?thesis
  proof (cases "tn_kids n")
    case (Sparse l)
    define l2 where "l2 = filter (\<lambda>x. fst x \<noteq> c) l"
    define n2 where "n2 = TNode (tn_refcount n) (tn_prefix n) (Sparse l2)"
    have l: "sparse_ok l" using n(1) Sparse by (simp add: node_ok_def)
    then have rf: "remove_first c (upd_first c None l) = l2" by (simp add: l2_def remove_first_upd sparse_ok_def)
    have "length l2 \<le> length l" "distinct (map fst l2)" "set l2 \<subseteq> set l"
      using l by (auto simp: l2_def sparse_ok_def intro: distinct_map_filter)
    then have l2: "sparse_ok l2" using l by (auto simp: sparse_ok_def)
    have "map_of l2 c' = (if c' = c then None else map_of l c')" for c'
      unfolding l2_def by (induction l) auto
    then have k2: "trie_child (Sparse l2) c' = trie_child (tn_kids n1) c'" for c'
      unfolding k1 by (simp add: trie_child_def Sparse)
    have n2: "node_ok n2" "\<And>c'. trie_ok (trie_child (tn_kids n2) c')"
      using n(1) l2 ok1 k2 by (simp_all add: n2_def node_ok_def)
    have "map_of l c \<noteq> None \<Longrightarrow> map_of (upd_first c None l) c \<noteq> None" for l by (induction l) auto
    then have "map_of (upd_first c None l) c \<noteq> None" using c Sparse by simp
    moreover have "tn_kids n1 = Sparse (upd_first c None l)" using Sparse by (simp add: n1)
    moreover have "TNode (tn_refcount n1) (tn_prefix n1) (Sparse (remove_first c (upd_first c None l))) = n2" "tn_kids n2 = Sparse l2"
      by (simp_all add: pre1 rf n2_def)
    ultimately have e: "remove_child n1 c = (if l2 = [] \<and> \<not> grid_node_has_subscribers n2 then Some None
        else map_option Some (grid_node_compact n2))"
      by (simp add: remove_child_def Let_def)
    have same: "trie_count (Some n2) s = trie_count (Some n1) s" for s
      using node_cong [of n2 n1 s] k2 trie_count_node(1) by (cases "s = tn_prefix n1") (simp_all add: n2_def n1)
    show ?thesis
    proof (cases "l2 = [] \<and> \<not> grid_node_has_subscribers n2")
      case True
      then have "trie_child (tn_kids n2) c' = None" "tn_refcount n2 = 0" for c'
        by (simp_all add: n2_def trie_child_def grid_node_has_subscribers_def split: if_splits)
      then have "trie_count (Some n2) s = 0" for s
        by (cases rule: prefix_cases [of s "tn_prefix n2"]) (simp_all add: trie_count_other)
      with True e same show ?thesis by simp
    next
      case False
      from compact_ok [OF n2] obtain n3 where n3: "grid_node_compact n2 = Some n3" "trie_ok (Some n3)"
        "\<And>s. trie_count (Some n3) s = trie_count (Some n2) s" by blast
      have "remove_child n1 c = Some (Some n3)" unfolding e if_not_P [OF False] n3(1) by simp
      with n3(2,3) same show ?thesis by simp
    qed
  next
    case (Dense mn mx nbr l)
    define l1 where "l1 = l[unat c - unat mn := None]"
    have d: "mn \<le> mx" "length l1 = unat mx - unat mn + 1" "unat nbr = card (kid_set (Dense mn mx nbr l))" "9 \<le> unat nbr"
      using n(1) Dense by (simp_all add: node_ok_def dense_ok_def l1_def)
    have kids1: "tn_kids n1 = Dense mn mx nbr l1" using Dense by (simp add: n1 l1_def)
    have "Suc (card (kid_set (Dense mn mx nbr l1))) = card (kid_set (Dense mn mx nbr l))"
      using k1 c Dense unfolding kids1 by (intro kid_set_remove [of _ c]) (auto simp: trie_child_def)
    then have card1: "Suc (card (kid_set (Dense mn mx nbr l1))) = unat nbr" using d(3) by simp
    have some: "\<exists>i < length l1. l1 ! i \<noteq> None" using some_child [OF _ d(2), of nbr] card1 d(4) by simp
    have dec: "unat (nbr - 1) = unat nbr - 1" using d(4) by (simp add: unat_sub word_le_nat_alt)
    have kept: ?thesis if e: "remove_child n1 c = Some (Some n2)"
      and p: "tn_prefix n2 = tn_prefix n" "tn_refcount n2 = tn_refcount n \<or> least_dense n \<and> tn_refcount n2 = 0"
      and k: "\<And>c'. trie_child (tn_kids n2) c' = trie_child (tn_kids n1) c'" and ok: "node_ok n2" for n2
    proof -
      have "trie_ok (Some n2)" using ok ok1 by (simp add: trie_ok_node k)
      moreover have "trie_count (Some n2) s = trie_count (Some n1) s \<or> (s = tn_prefix n \<and> least_dense n \<and> trie_count (Some n2) s = 0)" for s
        using node_cong [of n2 n1 s] p k pre1 trie_count_prefix [of n2] trie_count_prefix [of n1] by (cases "s = tn_prefix n") auto
      ultimately show ?thesis using e by blast
    qed
    show ?thesis
    proof (cases "unat nbr > 9")
      case True
      have rm: "remove_child n1 c = Some (Some (TNode (tn_refcount n) (tn_prefix n)
          (if c = mn then trim_left mn mx nbr l1 else if c = mx then trim_right mn mx nbr l1 else Dense mn mx (nbr - 1) l1)))"
        using True kids1 pre1 by (simp add: remove_child_def GRID_TRIE_SPARSE_MAX_def)
      have good: ?thesis if e: "remove_child n1 c = Some (Some (TNode (tn_refcount n) (tn_prefix n) (Dense a b (nbr - 1) l')))"
        and ab: "a \<le> b" "length l' = unat b - unat a + 1" and k: "\<And>c'. trie_child (Dense a b (nbr - 1) l') c' = trie_child (tn_kids n1) c'" for a b l'
      proof (rule kept [OF e])
        have "kid_set (Dense a b (nbr - 1) l') = kid_set (Dense mn mx nbr l1)" using k by (simp add: kid_set_def kids1)
        then show "node_ok (TNode (tn_refcount n) (tn_prefix n) (Dense a b (nbr - 1) l'))"
          using n(1) ab card1 True dec by (simp add: node_ok_def dense_ok_def) linarith
      qed (use k in simp_all)
      consider "c = mn" | "c \<noteq> mn" "c = mx" | "c \<noteq> mn" "c \<noteq> mx" by blast
      then show ?thesis
      proof cases
        case 1
        obtain a l' where "trim_left mn mx nbr l1 = Dense a mx (nbr - 1) l'" "a \<le> mx" "length l' = unat mx - unat a + 1"
          "\<forall>c. trie_child (Dense a mx (nbr - 1) l') c = trie_child (Dense mn mx nbr l1) c"
          using trim_left_ok [OF d(1,2) some, of nbr] by blast
        with 1 rm good [of a mx l'] kids1 show ?thesis by simp
      next
        case 2
        obtain b l' where "trim_right mn mx nbr l1 = Dense mn b (nbr - 1) l'" "mn \<le> b" "length l' = unat b - unat mn + 1"
          "\<forall>c. trie_child (Dense mn b (nbr - 1) l') c = trie_child (Dense mn mx nbr l1) c"
          using trim_right_ok [OF d(1,2) some, of nbr] by blast
        with 2 rm good [of mn b l'] kids1 show ?thesis by simp
      next
        case 3
        then show ?thesis using rm good [of mn mx l1] kids1 d(1,2) by (simp add: dense_child)
      qed
    next
      case False
      then have nine: "unat nbr = 9" using d(4) by simp
      then have "card (kid_set (Dense mn mx nbr l1)) = 8" using card1 by simp
      note sp = sparse_of_dense_ok [OF d(1,2) this]
      define n2 where "n2 = TNode 0 (tn_prefix n) (Sparse (sparse_of_dense mn l1))"
      have e: "remove_child n1 c = Some (Some n2)"
        using False kids1 pre1 sp by (simp add: remove_child_def GRID_TRIE_SPARSE_MAX_def n2_def Let_def)
      show ?thesis
      proof (rule kept [OF e])
        show "tn_refcount n2 = tn_refcount n \<or> least_dense n \<and> tn_refcount n2 = 0"
          using Dense nine by (simp add: least_dense_def n2_def)
        show "node_ok n2" using n(1) sp by (simp add: node_ok_def n2_def)
      qed (use sp kids1 in \<open>simp_all add: n2_def\<close>)
    qed
  qed
qed

section \<open>Unsubscribing removes one subscription\<close>

text \<open>The nodes where taking the subscription out may lose another one.\<close>

definition shrinks_at :: "trie_node option \<Rightarrow> bytes \<Rightarrow> bytes \<Rightarrow> bool" where
  "shrinks_at t data s \<longleftrightarrow> (\<exists>n c r. node_at t s = Some n \<and> least_dense n \<and> data = s @ c # r)"

text \<open>At the node where the string ends.\<close>

lemma unsubscribe_found_ok:
  assumes n: "trie_ok (Some n)" and rc: "tn_refcount n \<noteq> 0"
  shows "\<exists>t'. unsubscribe_found (Some n) = Some (Inr (tn_refcount n = 1), t') \<and> trie_ok t'
    \<and> trie_count t' (tn_prefix n) = tn_refcount n - 1
    \<and> (\<forall>s. s \<noteq> tn_prefix n \<longrightarrow> trie_count t' s = trie_count (Some n) s)"
proof -
  define n1 where "n1 = TNode (tn_refcount n - 1) (tn_prefix n) (tn_kids n)"
  have n1: "node_ok n1" "\<And>c. trie_ok (trie_child (tn_kids n1) c)" "trie_ok (Some n1)"
    using n by (auto simp: trie_ok_node node_ok_def n1_def)
  have cnt: "trie_count (Some n1) (tn_prefix n) = tn_refcount n - 1"
    "\<And>s. s \<noteq> tn_prefix n \<Longrightarrow> trie_count (Some n1) s = trie_count (Some n) s"
    using node_cong [of n1 n] by (simp_all add: n1_def trie_count_node)
  have uf: "unsubscribe_found (Some n) =
      (if tn_refcount n = 1
       then (if tn_kids n = Sparse [] then Some (Inr True, None)
             else map_option (\<lambda>n2. (Inr True, Some n2)) (grid_node_compact n1))
       else Some (Inr False, Some n1))"
    using rc by (simp add: unsubscribe_found_def grid_node_has_subscribers_def n1_def Let_def)
  consider "tn_refcount n \<noteq> 1" | "tn_refcount n = 1" "tn_kids n = Sparse []" | "tn_refcount n = 1" "tn_kids n \<noteq> Sparse []"
    by blast
  then show ?thesis
  proof cases
    case 1
    with uf n1(3) cnt show ?thesis by simp
  next
    case 2
    have "trie_count (Some n) s = 0" if "s \<noteq> tn_prefix n" for s
      using that 2 by (cases rule: prefix_cases [of s "tn_prefix n"]) (simp_all add: trie_count_other trie_child_def)
    with 2 uf show ?thesis by simp
  next
    case 3
    from compact_ok [OF n1(1,2)] obtain n2 where n2: "grid_node_compact n1 = Some n2" "trie_ok (Some n2)"
      "\<And>s. trie_count (Some n2) s = trie_count (Some n1) s" by blast
    with 3 uf cnt show ?thesis by simp
  qed
qed

lemma node_at_Nil: "node_at (Some n) [] = (if tn_prefix n = [] then Some n else None)"
  by (simp add: node_at.simps)

lemma unsubscribe_ok:
  "trie_ok t \<Longrightarrow> trie_count t data \<noteq> 0 \<Longrightarrow>
     \<exists>t'. grid_node_unsubscribe t data = Some (Inr (trie_count t data = 1), t') \<and> trie_ok t'
       \<and> trie_count t' data = trie_count t data - 1
       \<and> (\<forall>s. s \<noteq> data \<longrightarrow> trie_count t' s = trie_count t s \<or> (shrinks_at t data s \<and> trie_count t' s = 0))"
proof (induction "length data" arbitrary: data t rule: less_induct)
  case less
  obtain n where t: "t = Some n" using less.prems(2) by (cases t) auto
  have n: "trie_ok (Some n)" using less.prems(1) t by simp
  obtain rest where d: "data = tn_prefix n @ rest"
    using less.prems(2) t trie_count_other [of data n] by blast
  show ?case
  proof (cases rest)
    case Nil
    then have rc: "tn_refcount n \<noteq> 0" "trie_count t data = tn_refcount n" using less.prems(2) t d by simp_all
    have "grid_node_unsubscribe t data = unsubscribe_found (Some n)"
    proof (cases "tn_prefix n")
      case (Cons a list)
      with t d Nil check_prefix_self [of "a # list"] show ?thesis by simp
    qed (use t d Nil in simp)
    with unsubscribe_found_ok [OF n rc(1)] rc t d Nil show ?thesis by auto
  next
    case (Cons c rest1)
    define ch where "ch = trie_child (tn_kids n) c"
    have cnt: "trie_count t data = trie_count ch rest1" using t d Cons by (simp add: ch_def)
    then obtain m where m: "ch = Some m" using less.prems(2) by (cases ch) auto
    have nx: "grid_node_next (tn_kids n) c = Some (Some m)"
      using m by (auto simp: ch_def trie_child_def split: option.splits)
    have okn: "node_ok n" and okc: "\<And>c. trie_ok (trie_child (tn_kids n) c)" using n by (simp_all add: trie_ok_node)
    have sh: "case tn_kids n of Sparse l \<Rightarrow> True | Dense mn mx nbr l \<Rightarrow> length l = unat mx - unat mn + 1"
      using okn by (simp add: node_ok_def dense_ok_def split: trie_kids.splits)
    have "length rest1 < length data" "trie_ok ch" "trie_count ch rest1 \<noteq> 0"
      using d Cons okc cnt less.prems(2) by (simp_all add: ch_def)
    from less.hyps [OF this] obtain ch' where r: "grid_node_unsubscribe ch rest1 = Some (Inr (trie_count ch rest1 = 1), ch')"
      "trie_ok ch'" "trie_count ch' rest1 = trie_count ch rest1 - 1"
      "\<forall>s. s \<noteq> rest1 \<longrightarrow> trie_count ch' s = trie_count ch s \<or> (shrinks_at ch rest1 s \<and> trie_count ch' s = 0)" by blast
    define n1 where "n1 = TNode (tn_refcount n) (tn_prefix n) (set_next (tn_kids n) c ch')"
    have k: "trie_child (tn_kids n1) c' = (if c' = c then ch' else trie_child (tn_kids n) c')" for c'
      unfolding n1_def trie_node.sel by (rule set_next_child [OF _ sh]) (simp add: nx)
    have at1: "trie_count (Some n1) (tn_prefix n @ c' # q) = (if c' = c then trie_count ch' q else trie_count (trie_child (tn_kids n) c') q)" for c' q
      using trie_count_child [of n1 c' q] k by (simp add: n1_def)
    have diff: "trie_count (Some n1) s = trie_count t s \<or> (shrinks_at t data s \<and> trie_count (Some n1) s = 0)" if s: "s \<noteq> data" for s
    proof (cases rule: prefix_cases [of s "tn_prefix n"])
      case at
      then show ?thesis using t by (simp add: n1_def trie_count_node)
    next
      case (down c' q)
      have tl: "shrinks_at t data s" if "shrinks_at ch rest1 q" "c' = c"
        using that t d Cons down by (auto simp: shrinks_at_def ch_def)
      show ?thesis
      proof (cases "c' = c")
        case True
        then have "q \<noteq> rest1" using s d Cons down by simp
        with r(4) True tl show ?thesis unfolding down at1 t by (auto simp: ch_def)
      next
        case False
        then show ?thesis unfolding down at1 t by simp
      qed
    next
      case other
      then show ?thesis using t by (simp add: trie_count_other n1_def)
    qed
    have hit: "trie_count (Some n1) data = trie_count t data - 1" using at1 d Cons r(3) cnt by simp
    have pos: "grid_node_check_prefix (tn_prefix n) data = length (tn_prefix n)" using d by simp
    obtain d0 ds where dd: "data = d0 # ds" using d Cons by (cases "tn_prefix n") auto
    have uns: "grid_node_unsubscribe t data =
        (if trie_count ch rest1 \<noteq> 1 then Some (Inr False, Some n1)
         else if ch' \<noteq> None then Some (Inr True, Some n1) else map_option (\<lambda>p. (Inr True, p)) (remove_child n1 c))"
    proof -
      have "drop (length (tn_prefix n)) (d0 # ds) = c # rest1" using d Cons dd by (metis append_eq_conv_conj)
      with pos r(1) nx m show ?thesis unfolding dd t by (simp add: n1_def Let_def)
    qed
    have stay: ?thesis if e: "grid_node_unsubscribe t data = Some (Inr (trie_count t data = 1), Some n1)" and c': "ch' \<noteq> None"
    proof -
      obtain m' where m': "ch' = Some m'" using c' by blast
      have "node_ok n1" unfolding n1_def m' by (rule set_next_ok(1) [OF okn nx])
      then have "trie_ok (Some n1)" using okc r(2) by (simp add: trie_ok_node k)
      with e hit diff show ?thesis by blast
    qed
    show ?thesis
    proof (cases "ch' = None")
      case False
      then show ?thesis using stay uns cnt by simp
    next
      case True
      then have one: "trie_count ch rest1 = 1" using r(3) by simp
      from remove_child_ok [OF okn okc nx, of n1] True obtain t' where t': "remove_child n1 c = Some t'" "trie_ok t'"
        "\<forall>s. trie_count t' s = trie_count (Some n1) s \<or> (s = tn_prefix n \<and> least_dense n \<and> trie_count t' s = 0)"
        by (auto simp: n1_def)
      have e: "grid_node_unsubscribe t data = Some (Inr (trie_count t data = 1), t')"
        using uns one True t'(1) cnt by simp
      have here: "shrinks_at t data (tn_prefix n)" if "least_dense n" using that t d Cons by (auto simp: shrinks_at_def)
      have "tn_prefix n \<noteq> data" using d Cons by simp
      then have "trie_count t' data = trie_count t data - 1" using t'(3) hit by metis
      moreover have "trie_count t' s = trie_count t s \<or> (shrinks_at t data s \<and> trie_count t' s = 0)" if "s \<noteq> data" for s
        using t'(3) diff [OF that] here by metis
      ultimately show ?thesis using e t'(2) by blast
    qed
  qed
qed

end
