(* ===== verification/PubSub.thy ===== *)
theory PubSub
  imports Patterns Trie
begin

text \<open>
  Publish/subscribe (\<open>src/protocols/pubsub\<close>): the publisher distributes to all its pipes, the
  subscriber fair-queues and drops the messages that its trie of subscriptions does not match.
  \<open>pub.c\<close> and \<open>sub.c\<close> only register the raw sockets' functions under the full protocol.
\<close>

definition GRID_PUB :: int where "GRID_PUB = 2 * 16 + 0"
definition GRID_SUB :: int where "GRID_SUB = 2 * 16 + 1"
definition GRID_SUB_SUBSCRIBE :: int where "GRID_SUB_SUBSCRIBE = 1"
definition GRID_SUB_UNSUBSCRIBE :: int where "GRID_SUB_UNSUBSCRIBE = 2"

section \<open>The publisher\<close>

record grid_xpub = xp_outpipes :: grid_dist

definition grid_xpub_init :: grid_xpub where
  "grid_xpub_init = \<lparr>xp_outpipes = grid_dist_init\<rparr>"

definition grid_xpub_term :: "grid_xpub \<Rightarrow> unit option" where
  "grid_xpub_term s = grid_dist_term (xp_outpipes s)"

definition grid_xpub_add :: "grid_xpub \<Rightarrow> nat \<Rightarrow> grid_xpub" where
  "grid_xpub_add s p = s\<lparr>xp_outpipes := grid_dist_add (xp_outpipes s) p\<rparr>"

definition grid_xpub_rm :: "grid_xpub \<Rightarrow> nat \<Rightarrow> grid_xpub" where
  "grid_xpub_rm s p = s\<lparr>xp_outpipes := grid_dist_rm (xp_outpipes s) p\<rparr>"

definition grid_xpub_in :: "grid_xpub \<Rightarrow> nat \<Rightarrow> grid_xpub option" where
  "grid_xpub_in s p = do { guard False; Some s }"

definition grid_xpub_out :: "grid_xpub \<Rightarrow> nat \<Rightarrow> grid_xpub option" where
  "grid_xpub_out s p = map_option (\<lambda>d. s\<lparr>xp_outpipes := d\<rparr>) (grid_dist_out (xp_outpipes s) p)"

definition grid_xpub_events :: "grid_xpub \<Rightarrow> u32" where
  "grid_xpub_events s = GRID_SOCKBASE_EVENT_OUT"

definition grid_xpub_send ::
  "(nat \<Rightarrow> msg \<Rightarrow> 'w \<Rightarrow> (u32 \<times> 'w) option) \<Rightarrow> msg \<Rightarrow> grid_xpub \<Rightarrow> 'w \<Rightarrow> (grid_xpub \<times> 'w) option" where
  "grid_xpub_send psend m s w = do {
     (d, w1) \<leftarrow> grid_dist_send psend m None (xp_outpipes s) w;
     Some (s\<lparr>xp_outpipes := d\<rparr>, w1) }"

definition grid_xpub_setopt :: "errno + unit" where "grid_xpub_setopt = Inl ENOPROTOOPT"
definition grid_xpub_getopt :: "errno + unit" where "grid_xpub_getopt = Inl ENOPROTOOPT"

definition grid_xpub_ispeer :: "int \<Rightarrow> bool" where
  "grid_xpub_ispeer socktype = (if socktype = GRID_SUB then True else False)"

section \<open>The subscriber\<close>

record grid_xsub =
  xu_fq :: grid_fq
  xu_trie :: "trie_node option"

definition grid_xsub_init :: grid_xsub where
  "grid_xsub_init = \<lparr>xu_fq = grid_fq_init, xu_trie = grid_trie_init\<rparr>"

definition grid_xsub_term :: "grid_xsub \<Rightarrow> unit option" where
  "grid_xsub_term s = grid_fq_term (xu_fq s)"

definition grid_xsub_add :: "grid_xsub \<Rightarrow> nat \<Rightarrow> int \<Rightarrow> grid_xsub option" where
  "grid_xsub_add s p rcvprio = do {
     guard (rcvprio \<ge> 1 \<and> rcvprio \<le> 16);
     Some (s\<lparr>xu_fq := grid_fq_add (xu_fq s) p rcvprio\<rparr>) }"

definition grid_xsub_rm :: "grid_xsub \<Rightarrow> nat \<Rightarrow> grid_xsub option" where
  "grid_xsub_rm s p = map_option (\<lambda>l. s\<lparr>xu_fq := l\<rparr>) (grid_fq_rm (xu_fq s) p)"

definition grid_xsub_in :: "grid_xsub \<Rightarrow> nat \<Rightarrow> grid_xsub option" where
  "grid_xsub_in s p = map_option (\<lambda>l. s\<lparr>xu_fq := l\<rparr>) (grid_fq_in (xu_fq s) p)"

definition grid_xsub_out :: "grid_xsub \<Rightarrow> nat \<Rightarrow> grid_xsub" where
  "grid_xsub_out s p = s"

definition grid_xsub_events :: "grid_xsub \<Rightarrow> u32" where
  "grid_xsub_events s = (if grid_fq_can_recv (xu_fq s) then GRID_SOCKBASE_EVENT_IN else 0)"

text \<open>The loop: messages that do not match are released.\<close>

partial_function (option) xsub_recv_loop ::
  "(nat \<Rightarrow> 'w \<Rightarrow> (u32 \<times> msg \<times> 'w) option) \<Rightarrow> trie_node option \<Rightarrow> grid_fq \<times> 'w
     \<Rightarrow> ((errno + msg) \<times> grid_fq \<times> 'w) option" where
  "xsub_recv_loop precv t lw =
     Option.bind (grid_fq_recv precv (fst lw) (snd lw)) (\<lambda>(r, l1, w1).
       case r of
         Inl e \<Rightarrow> if e = EAGAIN then Some (Inl EAGAIN, l1, w1) else None
       | Inr (rc, m, p) \<Rightarrow>
           Option.bind (grid_trie_match t (body m)) (\<lambda>hit.
             if \<not> hit then xsub_recv_loop precv t (l1, w1) else Some (Inr m, l1, w1)))"

definition grid_xsub_recv ::
  "(nat \<Rightarrow> 'w \<Rightarrow> (u32 \<times> msg \<times> 'w) option) \<Rightarrow> grid_xsub \<Rightarrow> 'w
     \<Rightarrow> ((errno + msg) \<times> grid_xsub \<times> 'w) option" where
  "grid_xsub_recv precv s w = do {
     (r, l, w1) \<leftarrow> xsub_recv_loop precv (xu_trie s) (xu_fq s, w);
     Some (r, s\<lparr>xu_fq := l\<rparr>, w1) }"

text \<open>A negative result of the trie is passed on; a result of 0 or 1 is success.\<close>

definition grid_xsub_setopt :: "int \<Rightarrow> int \<Rightarrow> bytes \<Rightarrow> grid_xsub \<Rightarrow> ((errno + unit) \<times> grid_xsub) option" where
  "grid_xsub_setopt level opt optval s =
     (if level \<noteq> GRID_SUB then Some (Inl ENOPROTOOPT, s)
      else if opt = GRID_SUB_SUBSCRIBE then do {
        (t, rc) \<leftarrow> grid_trie_subscribe (xu_trie s) optval;
        Some (Inr (), s\<lparr>xu_trie := Some t\<rparr>) }
      else if opt = GRID_SUB_UNSUBSCRIBE then do {
        (rc, t) \<leftarrow> grid_trie_unsubscribe (xu_trie s) optval;
        Some (case rc of Inl e \<Rightarrow> Inl e | Inr _ \<Rightarrow> Inr (), s\<lparr>xu_trie := t\<rparr>) }
      else Some (Inl ENOPROTOOPT, s))"

definition grid_xsub_getopt :: "errno + unit" where "grid_xsub_getopt = Inl ENOPROTOOPT"

definition grid_xsub_ispeer :: "int \<Rightarrow> bool" where
  "grid_xsub_ispeer socktype = (if socktype = GRID_PUB then True else False)"

section \<open>The subscriptions of a subscriber\<close>

text \<open>Whether a message body starts with a string that is subscribed.\<close>

definition subscribed :: "trie_node option \<Rightarrow> bytes \<Rightarrow> bool" where
  "subscribed t data \<longleftrightarrow> (\<exists>p r. data = p @ r \<and> trie_count t p \<noteq> 0)"

lemma match_subscribed:
  "grid_trie_match t data =
     (if subscribed t data then Some True else if node_at t data \<noteq> None then None else Some False)"
  by (simp add: match_spec subscribed_def)

lemma match_False: "grid_trie_match t data = Some False \<Longrightarrow> \<not> subscribed t data"
  by (auto simp: match_subscribed split: if_splits)

definition xsub_ok :: "(nat \<Rightarrow> 'w \<Rightarrow> bool) \<Rightarrow> grid_xsub \<Rightarrow> 'w \<Rightarrow> bool" where
  "xsub_ok can_in s w \<longleftrightarrow> fq_ok can_in (xu_fq s) w \<and> trie_ok (xu_trie s)"

text \<open>The loop on a sequence of messages of which only the last may match.\<close>

lemma xsub_loop_receives:
  assumes "fq_receives precv lw xs lw'" and "\<forall>(f, m, p) \<in> set xs. grid_trie_match t (body m) = Some False"
  shows "xsub_recv_loop precv t lw = xsub_recv_loop precv t lw'"
  using assms
proof (induction rule: fq_receives.induct)
  case (receives_one l w x l1 w1 xs lw')
  then have ih: "xsub_recv_loop precv t (l1, w1) = xsub_recv_loop precv t lw'" by simp
  obtain f m p where x: "x = (f, m, p)" by (cases x)
  with receives_one.prems have "grid_trie_match t (body m) = Some False" by simp
  with receives_one.hyps(1) x ih show ?case by (subst xsub_recv_loop.simps) simp
qed simp

text \<open>
  Receiving ends; the messages taken before the last one are not subscribed, and the result says
  whether the last one is. Where a body ends at an inner node of the trie the match reads past it.
\<close>

context finite_pipes
begin

lemma xsub_recv_ok:
  assumes w: "winv w" and s: "xsub_ok can_in s w"
  shows "\<exists>xs l' w'. fq_receives precv (xu_fq s, w) xs (l', w') \<and> winv w'
    \<and> xsub_ok can_in (s\<lparr>xu_fq := l'\<rparr>) w' \<and> fq_pipes l' = fq_pipes (xu_fq s)
    \<and> ((\<forall>(f, m, p) \<in> set xs. \<not> subscribed (xu_trie s) (body m)) \<and> fq_readable l' = {}
          \<and> grid_xsub_recv precv s w = Some (Inl EAGAIN, s\<lparr>xu_fq := l'\<rparr>, w')
        \<or> (\<exists>ys f m p. xs = ys @ [(f, m, p)] \<and> (\<forall>(f, m, p) \<in> set ys. \<not> subscribed (xu_trie s) (body m))
            \<and> (if subscribed (xu_trie s) (body m) then grid_xsub_recv precv s w = Some (Inr m, s\<lparr>xu_fq := l'\<rparr>, w')
                else node_at (xu_trie s) (body m) \<noteq> None \<and> grid_xsub_recv precv s w = None)))"
proof -
  have l: "fq_ok can_in (xu_fq s) w" and t: "trie_ok (xu_trie s)" using s by (simp_all add: xsub_ok_def)
  let ?t = "xu_trie s"
  define skip where "skip = (\<lambda>(f :: u32, m :: msg, p :: nat). grid_trie_match ?t (body m) = Some False)"
  from fq_skip_ends [OF w l, of skip] obtain xs l' w' where
    r: "fq_receives precv (xu_fq s, w) xs (l', w')" "winv w'" "fq_ok can_in l' w'" "fq_pipes l' = fq_pipes (xu_fq s)"
    and c: "(\<forall>x \<in> set xs. skip x) \<and> fq_readable l' = {} \<or> (\<exists>ys x. xs = ys @ [x] \<and> (\<forall>y \<in> set ys. skip y) \<and> \<not> skip x)"
    by (elim exE conjE)
  have sk: "\<forall>(f, m, p) \<in> set ys. \<not> subscribed ?t (body m)" if "\<forall>y \<in> set ys. skip y" for ys
    using that by (fastforce simp: skip_def dest: match_False)
  have ok: "xsub_ok can_in (s\<lparr>xu_fq := l'\<rparr>) w'" using r(3) t by (simp add: xsub_ok_def)
  from c show ?thesis
  proof (elim disjE exE conjE)
    assume a: "\<forall>x \<in> set xs. skip x" "fq_readable l' = {}"
    have "grid_fq_recv precv l' w' = Some (Inl EAGAIN, l', w')"
      using fq_recv_empty [OF r(3) a(2)] .
    then have "xsub_recv_loop precv ?t (l', w') = Some (Inl EAGAIN, l', w')" by (subst xsub_recv_loop.simps) simp
    moreover have "xsub_recv_loop precv ?t (xu_fq s, w) = xsub_recv_loop precv ?t (l', w')"
      using xsub_loop_receives [OF r(1)] a(1) by (simp add: skip_def)
    ultimately have "grid_xsub_recv precv s w = Some (Inl EAGAIN, s\<lparr>xu_fq := l'\<rparr>, w')" by (simp add: grid_xsub_recv_def)
    with r(1,2,4) ok a(2) sk [OF a(1)] show ?thesis by blast
  next
    fix ys x assume a: "xs = ys @ [x]" "\<forall>y \<in> set ys. skip y" "\<not> skip x"
    obtain f m p where x: "x = (f, m, p)" by (cases x)
    obtain l1 w1 where m: "fq_receives precv (xu_fq s, w) ys (l1, w1)" "grid_fq_recv precv l1 w1 = Some (Inr x, l', w')"
      using receives_snoc [of precv "(xu_fq s, w)" ys x "(l', w')"] r(1) a(1) by auto
    have "xsub_recv_loop precv ?t (xu_fq s, w) = xsub_recv_loop precv ?t (l1, w1)"
      using xsub_loop_receives [OF m(1)] a(2) by (simp add: skip_def)
    then have e: "grid_xsub_recv precv s w
        = (if subscribed ?t (body m) then Some (Inr m, s\<lparr>xu_fq := l'\<rparr>, w') else None)"
      and n: "\<not> subscribed ?t (body m) \<Longrightarrow> node_at ?t (body m) \<noteq> None"
      using m(2) a(3) x
      by (auto simp: grid_xsub_recv_def xsub_recv_loop.simps [of _ _ "(l1, w1)"] skip_def match_subscribed
          split: if_splits)
    have "if subscribed ?t (body m) then grid_xsub_recv precv s w = Some (Inr m, s\<lparr>xu_fq := l'\<rparr>, w')
      else node_at ?t (body m) \<noteq> None \<and> grid_xsub_recv precv s w = None" using e n by simp
    with r(1,2,4) ok sk [OF a(2)] a(1) x show ?thesis by blast
  qed
qed

end

end
