(* ===== verification/Pipeline.thy ===== *)
theory Pipeline
  imports Patterns
begin

text \<open>
  The sockets that are a scheduler and little else: push (a load balancer) and pull (a fair queue)
  of \<open>src/protocols/pipeline\<close>, and pair (an exclusive pipe) of \<open>src/protocols/pair\<close>.
  \<open>push.c\<close>, \<open>pull.c\<close> and \<open>pair.c\<close> register the same functions under the full protocol.
\<close>

definition GRID_PUSH :: int where "GRID_PUSH = 5 * 16 + 0"
definition GRID_PULL :: int where "GRID_PULL = 5 * 16 + 1"
definition GRID_PAIR :: int where "GRID_PAIR = 1 * 16 + 0"

section \<open>Push\<close>

record grid_xpush = xh_lb :: grid_lb

definition grid_xpush_init :: grid_xpush where
  "grid_xpush_init = \<lparr>xh_lb = grid_lb_init\<rparr>"

definition grid_xpush_term :: "grid_xpush \<Rightarrow> unit option" where
  "grid_xpush_term s = grid_lb_term (xh_lb s)"

definition grid_xpush_add :: "grid_xpush \<Rightarrow> nat \<Rightarrow> int \<Rightarrow> grid_xpush option" where
  "grid_xpush_add s p sndprio = do {
     guard (sndprio \<ge> 1 \<and> sndprio \<le> 16);
     Some (s\<lparr>xh_lb := grid_lb_add (xh_lb s) p sndprio\<rparr>) }"

text \<open>With the priority that is reported to the statistics.\<close>

definition grid_xpush_rm :: "grid_xpush \<Rightarrow> nat \<Rightarrow> (grid_xpush \<times> int) option" where
  "grid_xpush_rm s p = do {
     l \<leftarrow> grid_lb_rm (xh_lb s) p;
     Some (s\<lparr>xh_lb := l\<rparr>, grid_lb_get_priority l) }"

definition grid_xpush_in :: "grid_xpush \<Rightarrow> nat \<Rightarrow> grid_xpush" where
  "grid_xpush_in s p = s"

definition grid_xpush_out :: "grid_xpush \<Rightarrow> nat \<Rightarrow> (grid_xpush \<times> int) option" where
  "grid_xpush_out s p = do {
     l \<leftarrow> grid_lb_out (xh_lb s) p;
     Some (s\<lparr>xh_lb := l\<rparr>, grid_lb_get_priority l) }"

definition grid_xpush_events :: "grid_xpush \<Rightarrow> u32" where
  "grid_xpush_events s = (if grid_lb_can_send (xh_lb s) then GRID_SOCKBASE_EVENT_OUT else 0)"

text \<open>On success, the flags the load balancer returned.\<close>

definition grid_xpush_send ::
  "(nat \<Rightarrow> msg \<Rightarrow> 'w \<Rightarrow> (u32 \<times> 'w) option) \<Rightarrow> msg \<Rightarrow> grid_xpush \<Rightarrow> 'w
     \<Rightarrow> ((errno + u32) \<times> grid_xpush \<times> 'w) option" where
  "grid_xpush_send psend m s w = do {
     (r, l, w1) \<leftarrow> grid_lb_send psend m (xh_lb s) w;
     Some (case r of Inl e \<Rightarrow> Inl e | Inr (f, to) \<Rightarrow> Inr f, s\<lparr>xh_lb := l\<rparr>, w1) }"

definition grid_xpush_setopt :: "errno + unit" where "grid_xpush_setopt = Inl ENOPROTOOPT"
definition grid_xpush_getopt :: "errno + unit" where "grid_xpush_getopt = Inl ENOPROTOOPT"

definition grid_xpush_ispeer :: "int \<Rightarrow> bool" where
  "grid_xpush_ispeer socktype = (if socktype = GRID_PULL then True else False)"

section \<open>Pull\<close>

record grid_xpull = xl_fq :: grid_fq

definition grid_xpull_init :: grid_xpull where
  "grid_xpull_init = \<lparr>xl_fq = grid_fq_init\<rparr>"

definition grid_xpull_term :: "grid_xpull \<Rightarrow> unit option" where
  "grid_xpull_term s = grid_fq_term (xl_fq s)"

definition grid_xpull_add :: "grid_xpull \<Rightarrow> nat \<Rightarrow> int \<Rightarrow> grid_xpull option" where
  "grid_xpull_add s p rcvprio = do {
     guard (rcvprio \<ge> 1 \<and> rcvprio \<le> 16);
     Some (s\<lparr>xl_fq := grid_fq_add (xl_fq s) p rcvprio\<rparr>) }"

definition grid_xpull_rm :: "grid_xpull \<Rightarrow> nat \<Rightarrow> grid_xpull option" where
  "grid_xpull_rm s p = map_option (\<lambda>l. s\<lparr>xl_fq := l\<rparr>) (grid_fq_rm (xl_fq s) p)"

definition grid_xpull_in :: "grid_xpull \<Rightarrow> nat \<Rightarrow> grid_xpull option" where
  "grid_xpull_in s p = map_option (\<lambda>l. s\<lparr>xl_fq := l\<rparr>) (grid_fq_in (xl_fq s) p)"

definition grid_xpull_out :: "grid_xpull \<Rightarrow> nat \<Rightarrow> grid_xpull" where
  "grid_xpull_out s p = s"

definition grid_xpull_events :: "grid_xpull \<Rightarrow> u32" where
  "grid_xpull_events s = (if grid_fq_can_recv (xl_fq s) then GRID_SOCKBASE_EVENT_IN else 0)"

definition grid_xpull_recv ::
  "(nat \<Rightarrow> 'w \<Rightarrow> (u32 \<times> msg \<times> 'w) option) \<Rightarrow> grid_xpull \<Rightarrow> 'w
     \<Rightarrow> ((errno + msg) \<times> grid_xpull \<times> 'w) option" where
  "grid_xpull_recv precv s w = do {
     (r, l, w1) \<leftarrow> grid_fq_recv precv (xl_fq s) w;
     Some (case r of Inl e \<Rightarrow> Inl e | Inr (f, m, p) \<Rightarrow> Inr m, s\<lparr>xl_fq := l\<rparr>, w1) }"

definition grid_xpull_setopt :: "errno + unit" where "grid_xpull_setopt = Inl ENOPROTOOPT"
definition grid_xpull_getopt :: "errno + unit" where "grid_xpull_getopt = Inl ENOPROTOOPT"

definition grid_xpull_ispeer :: "int \<Rightarrow> bool" where
  "grid_xpull_ispeer socktype = (if socktype = GRID_PUSH then True else False)"

section \<open>Pair\<close>

record grid_xpair = xa_excl :: grid_excl

definition grid_xpair_init :: grid_xpair where
  "grid_xpair_init = \<lparr>xa_excl = grid_excl_init\<rparr>"

definition grid_xpair_term :: "grid_xpair \<Rightarrow> unit option" where
  "grid_xpair_term s = grid_excl_term (xa_excl s)"

definition grid_xpair_add :: "grid_xpair \<Rightarrow> nat \<Rightarrow> errno + grid_xpair" where
  "grid_xpair_add s p = (case grid_excl_add (xa_excl s) p of Inl e \<Rightarrow> Inl e | Inr x \<Rightarrow> Inr (s\<lparr>xa_excl := x\<rparr>))"

definition grid_xpair_rm :: "grid_xpair \<Rightarrow> nat \<Rightarrow> grid_xpair option" where
  "grid_xpair_rm s p = map_option (\<lambda>x. s\<lparr>xa_excl := x\<rparr>) (grid_excl_rm (xa_excl s) p)"

definition grid_xpair_in :: "grid_xpair \<Rightarrow> nat \<Rightarrow> grid_xpair option" where
  "grid_xpair_in s p = map_option (\<lambda>x. s\<lparr>xa_excl := x\<rparr>) (grid_excl_in (xa_excl s) p)"

definition grid_xpair_out :: "grid_xpair \<Rightarrow> nat \<Rightarrow> grid_xpair option" where
  "grid_xpair_out s p = map_option (\<lambda>x. s\<lparr>xa_excl := x\<rparr>) (grid_excl_out (xa_excl s) p)"

definition grid_xpair_events :: "grid_xpair \<Rightarrow> u32" where
  "grid_xpair_events s =
     (if grid_excl_can_recv (xa_excl s) then GRID_SOCKBASE_EVENT_IN else 0)
     OR (if grid_excl_can_send (xa_excl s) then GRID_SOCKBASE_EVENT_OUT else 0)"

definition grid_xpair_send ::
  "(nat \<Rightarrow> msg \<Rightarrow> 'w \<Rightarrow> (u32 \<times> 'w) option) \<Rightarrow> msg \<Rightarrow> grid_xpair \<Rightarrow> 'w
     \<Rightarrow> ((errno + u32) \<times> grid_xpair \<times> 'w) option" where
  "grid_xpair_send psend m s w = do {
     (r, x, w1) \<leftarrow> grid_excl_send psend m (xa_excl s) w;
     Some (r, s\<lparr>xa_excl := x\<rparr>, w1) }"

definition grid_xpair_recv ::
  "(nat \<Rightarrow> 'w \<Rightarrow> (u32 \<times> msg \<times> 'w) option) \<Rightarrow> grid_xpair \<Rightarrow> 'w
     \<Rightarrow> ((errno + msg) \<times> grid_xpair \<times> 'w) option" where
  "grid_xpair_recv precv s w = do {
     (r, x, w1) \<leftarrow> grid_excl_recv precv (xa_excl s) w;
     Some (case r of Inl e \<Rightarrow> Inl e | Inr (f, m) \<Rightarrow> Inr m, s\<lparr>xa_excl := x\<rparr>, w1) }"

definition grid_xpair_setopt :: "errno + unit" where "grid_xpair_setopt = Inl ENOPROTOOPT"
definition grid_xpair_getopt :: "errno + unit" where "grid_xpair_getopt = Inl ENOPROTOOPT"

definition grid_xpair_ispeer :: "int \<Rightarrow> bool" where
  "grid_xpair_ispeer socktype = (if socktype = GRID_PAIR then True else False)"

end
