(* ===== verification/Bus.thy ===== *)
theory Bus
  imports Patterns Wire
begin

text \<open>
  The bus (\<open>src/protocols/bus\<close>): a message goes to every pipe, or, when its header names the
  pipe it was received from, to every other pipe. The raw socket puts the pipe a message came from
  into its header; the full socket takes it off again. A pipe's pointer is its number in the model,
  and its 8 bytes are in the order of the (little-endian) host; the null pointer is 0.
\<close>

definition GRID_BUS :: int where "GRID_BUS = 7 * 16 + 0"

section \<open>Pipe pointers as headers\<close>

definition ptr_store :: "nat \<Rightarrow> bytes" where
  "ptr_store p = map (\<lambda>i. ucast (drop_bit (8 * i) (of_nat p :: u64))) [0..<8]"

definition ptr_load :: "bytes \<Rightarrow> nat option" where
  "ptr_load b = map_option unat (grid_getll (rev b))"

lemma ptr_load_store: "p < 2 ^ 64 \<Longrightarrow> ptr_load (ptr_store p) = Some p"
proof -
  assume p: "p < 2 ^ 64"
  have "grid_putll (replicate 8 0) (of_nat p) = Some (rev (ptr_store p))"
    by (simp add: grid_putll_def ptr_store_def eval_nat_numeral)
  from grid_getll_putll [OF this] p show ?thesis by (simp add: ptr_load_def unsigned_of_nat take_bit_nat_eq_self)
qed

lemma length_ptr_store [simp]: "length (ptr_store p) = 8"
  by (simp add: ptr_store_def)

section \<open>The raw bus\<close>

record grid_xbus =
  xb_outpipes :: grid_dist
  xb_inpipes :: grid_fq

definition grid_xbus_init :: grid_xbus where
  "grid_xbus_init = \<lparr>xb_outpipes = grid_dist_init, xb_inpipes = grid_fq_init\<rparr>"

definition grid_xbus_term :: "grid_xbus \<Rightarrow> unit option" where
  "grid_xbus_term s = do { grid_fq_term (xb_inpipes s); grid_dist_term (xb_outpipes s) }"

definition grid_xbus_add :: "grid_xbus \<Rightarrow> nat \<Rightarrow> int \<Rightarrow> grid_xbus option" where
  "grid_xbus_add s p rcvprio = do {
     guard (rcvprio \<ge> 1 \<and> rcvprio \<le> 16);
     Some (s\<lparr>xb_inpipes := grid_fq_add (xb_inpipes s) p rcvprio, xb_outpipes := grid_dist_add (xb_outpipes s) p\<rparr>) }"

definition grid_xbus_rm :: "grid_xbus \<Rightarrow> nat \<Rightarrow> grid_xbus option" where
  "grid_xbus_rm s p = do {
     fq \<leftarrow> grid_fq_rm (xb_inpipes s) p;
     Some (s\<lparr>xb_inpipes := fq, xb_outpipes := grid_dist_rm (xb_outpipes s) p\<rparr>) }"

definition grid_xbus_in :: "grid_xbus \<Rightarrow> nat \<Rightarrow> grid_xbus option" where
  "grid_xbus_in s p = map_option (\<lambda>fq. s\<lparr>xb_inpipes := fq\<rparr>) (grid_fq_in (xb_inpipes s) p)"

definition grid_xbus_out :: "grid_xbus \<Rightarrow> nat \<Rightarrow> grid_xbus option" where
  "grid_xbus_out s p = map_option (\<lambda>d. s\<lparr>xb_outpipes := d\<rparr>) (grid_dist_out (xb_outpipes s) p)"

definition grid_xbus_events :: "grid_xbus \<Rightarrow> u32" where
  "grid_xbus_events s =
     (if grid_fq_can_recv (xb_inpipes s) then GRID_SOCKBASE_EVENT_IN else 0) OR GRID_SOCKBASE_EVENT_OUT"

definition grid_xbus_send ::
  "(nat \<Rightarrow> msg \<Rightarrow> 'w \<Rightarrow> (u32 \<times> 'w) option) \<Rightarrow> msg \<Rightarrow> grid_xbus \<Rightarrow> 'w
     \<Rightarrow> ((errno + unit) \<times> grid_xbus \<times> 'w) option" where
  "grid_xbus_send psend m s w =
     (if length (sphdr m) = 0 then do {
        (d, w1) \<leftarrow> grid_dist_send psend m None (xb_outpipes s) w;
        Some (Inr (), s\<lparr>xb_outpipes := d\<rparr>, w1) }
      else if length (sphdr m) = 8 then do {
        ptr \<leftarrow> ptr_load (sphdr m);
        let exclude = (if ptr = 0 then None else Some ptr);
        (d, w1) \<leftarrow> grid_dist_send psend (m\<lparr>sphdr := []\<rparr>) exclude (xb_outpipes s) w;
        Some (Inr (), s\<lparr>xb_outpipes := d\<rparr>, w1) }
      else Some (Inl EINVAL, s, w))"

text \<open>The loop: messages with a header are malformed and dropped.\<close>

partial_function (option) xbus_recv_loop ::
  "(nat \<Rightarrow> 'w \<Rightarrow> (u32 \<times> msg \<times> 'w) option) \<Rightarrow> grid_fq \<times> 'w
     \<Rightarrow> ((errno + msg \<times> nat) \<times> grid_fq \<times> 'w) option" where
  "xbus_recv_loop precv lw =
     Option.bind (grid_fq_recv precv (fst lw) (snd lw)) (\<lambda>(r, l1, w1).
       case r of
         Inl e \<Rightarrow> Some (Inl e, l1, w1)
       | Inr (rc, m, p) \<Rightarrow> if length (sphdr m) = 0 then Some (Inr (m, p), l1, w1) else xbus_recv_loop precv (l1, w1))"

definition grid_xbus_recv ::
  "(nat \<Rightarrow> 'w \<Rightarrow> (u32 \<times> msg \<times> 'w) option) \<Rightarrow> grid_xbus \<Rightarrow> 'w
     \<Rightarrow> ((errno + msg) \<times> grid_xbus \<times> 'w) option" where
  "grid_xbus_recv precv s w = do {
     (r, l, w1) \<leftarrow> xbus_recv_loop precv (xb_inpipes s, w);
     Some (case r of Inl e \<Rightarrow> Inl e | Inr (m, p) \<Rightarrow> Inr (m\<lparr>sphdr := ptr_store p\<rparr>), s\<lparr>xb_inpipes := l\<rparr>, w1) }"

definition grid_xbus_setopt :: "errno + unit" where "grid_xbus_setopt = Inl ENOPROTOOPT"
definition grid_xbus_getopt :: "errno + unit" where "grid_xbus_getopt = Inl ENOPROTOOPT"

definition grid_xbus_ispeer :: "int \<Rightarrow> bool" where
  "grid_xbus_ispeer socktype = (if socktype = GRID_BUS then True else False)"

section \<open>The bus\<close>

record grid_bus = bu_xbus :: grid_xbus

definition grid_bus_init :: grid_bus where
  "grid_bus_init = \<lparr>bu_xbus = grid_xbus_init\<rparr>"

definition grid_bus_term :: "grid_bus \<Rightarrow> unit option" where
  "grid_bus_term s = grid_xbus_term (bu_xbus s)"

definition grid_bus_send ::
  "(nat \<Rightarrow> msg \<Rightarrow> 'w \<Rightarrow> (u32 \<times> 'w) option) \<Rightarrow> msg \<Rightarrow> grid_bus \<Rightarrow> 'w
     \<Rightarrow> ((errno + unit) \<times> grid_bus \<times> 'w) option" where
  "grid_bus_send psend m s w =
     (if length (sphdr m) \<noteq> 0 then Some (Inl EINVAL, s, w)
      else do {
        (rc, x, w1) \<leftarrow> grid_xbus_send psend m (bu_xbus s) w;
        guard (rc = Inr ());
        Some (Inr (), s\<lparr>bu_xbus := x\<rparr>, w1) })"

definition grid_bus_recv ::
  "(nat \<Rightarrow> 'w \<Rightarrow> (u32 \<times> msg \<times> 'w) option) \<Rightarrow> grid_bus \<Rightarrow> 'w
     \<Rightarrow> ((errno + msg) \<times> grid_bus \<times> 'w) option" where
  "grid_bus_recv precv s w = do {
     (r, x, w1) \<leftarrow> grid_xbus_recv precv (bu_xbus s) w;
     case r of
       Inl e \<Rightarrow> do { guard (e = EAGAIN); Some (Inl EAGAIN, s\<lparr>bu_xbus := x\<rparr>, w1) }
     | Inr m \<Rightarrow> do {
         guard (length (sphdr m) = 8);
         Some (Inr (m\<lparr>sphdr := []\<rparr>), s\<lparr>bu_xbus := x\<rparr>, w1) } }"

section \<open>The bus over any pipes\<close>

definition xbus_ok ::
  "(nat \<Rightarrow> 'w \<Rightarrow> bool) \<Rightarrow> (nat \<Rightarrow> 'w \<Rightarrow> bool) \<Rightarrow> grid_xbus \<Rightarrow> 'w \<Rightarrow> bool" where
  "xbus_ok can_in can_out s w \<longleftrightarrow> dist_ok can_out (xb_outpipes s) w \<and> fq_ok can_in (xb_inpipes s) w"

lemma xbus_loop_receives:
  assumes "fq_receives precv lw xs lw'" and "\<forall>(f, m, p) \<in> set xs. sphdr m \<noteq> []"
  shows "xbus_recv_loop precv lw = xbus_recv_loop precv lw'"
  using assms
proof (induction rule: fq_receives.induct)
  case (receives_one l w x l1 w1 xs lw')
  then have ih: "xbus_recv_loop precv (l1, w1) = xbus_recv_loop precv lw'" by simp
  obtain f m p where x: "x = (f, m, p)" by (cases x)
  with receives_one.prems have "sphdr m \<noteq> []" by simp
  with receives_one.hyps(1) x ih show ?case by (subst xbus_recv_loop.simps) simp
qed simp

context finite_pipes
begin

text \<open>The pipe a message is received from is put into its header.\<close>

lemma xbus_recv_ok:
  assumes w: "winv w" and s: "xbus_ok can_in can_out s w"
  shows "\<exists>r s' w'. grid_xbus_recv precv s w = Some (r, s', w') \<and> winv w' \<and> xbus_ok can_in can_out s' w'
    \<and> xb_outpipes s' = xb_outpipes s \<and> fq_pipes (xb_inpipes s') = fq_pipes (xb_inpipes s)
    \<and> (case r of
         Inl e \<Rightarrow> e = EAGAIN \<and> fq_readable (xb_inpipes s') = {}
       | Inr m \<Rightarrow> \<exists>xs f m0 p. fq_receives precv (xb_inpipes s, w) (xs @ [(f, m0, p)]) (xb_inpipes s', w')
           \<and> (\<forall>(f, m, p) \<in> set xs. sphdr m \<noteq> []) \<and> sphdr m0 = [] \<and> m = m0\<lparr>sphdr := ptr_store p\<rparr>
           \<and> p \<in> fq_readable (xb_inpipes s))"
proof -
  have l: "fq_ok can_in (xb_inpipes s) w" using s by (simp add: xbus_ok_def)
  define skip where "skip = (\<lambda>(f :: u32, m :: msg, p :: nat). sphdr m \<noteq> [])"
  from fq_skip_ends [OF w l, of skip] obtain xs l' w' where
    r: "fq_receives precv (xb_inpipes s, w) xs (l', w')" "winv w'" "fq_ok can_in l' w'" "\<forall>q. can_out q w' = can_out q w"
      "fq_pipes l' = fq_pipes (xb_inpipes s)"
    and p: "\<forall>(f, m, p) \<in> set xs. p \<in> fq_readable (xb_inpipes s) \<and> (parsed f \<or> sphdr m = [])"
    and c: "(\<forall>x \<in> set xs. skip x) \<and> fq_readable l' = {} \<or> (\<exists>ys x. xs = ys @ [x] \<and> (\<forall>y \<in> set ys. skip y) \<and> \<not> skip x)"
    by (elim exE conjE)
  have ok: "xbus_ok can_in can_out (s\<lparr>xb_inpipes := l'\<rparr>) w'" using s r(3,4) by (simp add: xbus_ok_def dist_ok_def)
  from c show ?thesis
  proof (elim disjE exE conjE)
    assume a: "\<forall>x \<in> set xs. skip x" "fq_readable l' = {}"
    have "xbus_recv_loop precv (l', w') = Some (Inl EAGAIN, l', w')"
      using fq_recv_empty [OF r(3) a(2)] by (subst xbus_recv_loop.simps) simp
    moreover have "xbus_recv_loop precv (xb_inpipes s, w) = xbus_recv_loop precv (l', w')"
      using xbus_loop_receives [OF r(1)] a(1) by (simp add: skip_def)
    ultimately have "grid_xbus_recv precv s w = Some (Inl EAGAIN, s\<lparr>xb_inpipes := l'\<rparr>, w')"
      by (simp add: grid_xbus_recv_def)
    with r(2,5) ok a(2) show ?thesis by simp
  next
    fix ys x assume a: "xs = ys @ [x]" "\<forall>y \<in> set ys. skip y" "\<not> skip x"
    obtain f m q where x: "x = (f, m, q)" by (cases x)
    obtain l1 w1 where m: "fq_receives precv (xb_inpipes s, w) ys (l1, w1)" "grid_fq_recv precv l1 w1 = Some (Inr x, l', w')"
      using receives_snoc [of precv "(xb_inpipes s, w)" ys x "(l', w')"] r(1) a(1) by auto
    have sk: "\<forall>(f, m, p) \<in> set ys. sphdr m \<noteq> []" "sphdr m = []" using a(2,3) x by (simp_all add: skip_def)
    have "xbus_recv_loop precv (xb_inpipes s, w) = xbus_recv_loop precv (l1, w1)"
      using xbus_loop_receives [OF m(1) sk(1)] .
    also have "\<dots> = Some (Inr (m, q), l', w')" using m(2) x sk(2) by (subst xbus_recv_loop.simps) simp
    finally have e: "grid_xbus_recv precv s w = Some (Inr (m\<lparr>sphdr := ptr_store q\<rparr>), s\<lparr>xb_inpipes := l'\<rparr>, w')"
      by (simp add: grid_xbus_recv_def)
    have "\<exists>xs f m0 p. fq_receives precv (xb_inpipes s, w) (xs @ [(f, m0, p)]) (l', w')
        \<and> (\<forall>(f, m, p) \<in> set xs. sphdr m \<noteq> []) \<and> sphdr m0 = [] \<and> m\<lparr>sphdr := ptr_store q\<rparr> = m0\<lparr>sphdr := ptr_store p\<rparr>
        \<and> p \<in> fq_readable (xb_inpipes s)"
      using r(1) a(1) x sk p by (intro exI [of _ ys] exI [of _ f] exI [of _ m] exI [of _ q]) simp
    with e r(2,5) ok show ?thesis by simp
  qed
qed

text \<open>Sending: to everyone, or to everyone but the pipe named in the header.\<close>

lemma xbus_send_ok:
  assumes w: "winv w" and s: "xbus_ok can_in can_out s w"
    and h: "sphdr m = [] \<and> ex = None \<or> (\<exists>p. sphdr m = ptr_store p \<and> 0 < p \<and> p < 2 ^ 64 \<and> ex = Some p)"
  shows "\<exists>s' w'. grid_xbus_send psend m s w = Some (Inr (), s', w') \<and> winv w' \<and> xbus_ok can_in can_out s' w'
    \<and> xb_inpipes s' = xb_inpipes s
    \<and> set (di_pipes (xb_outpipes s')) = {p \<in> set (di_pipes (xb_outpipes s)). can_out p w'}
    \<and> send_each psend (m\<lparr>sphdr := []\<rparr>) [p \<leftarrow> di_pipes (xb_outpipes s). ex \<noteq> Some p] w = Some w'"
proof -
  have d: "dist_ok can_out (xb_outpipes s) w" using s by (simp add: xbus_ok_def)
  obtain d' w' where r: "grid_dist_send psend (m\<lparr>sphdr := []\<rparr>) ex (xb_outpipes s) w = Some (d', w')" "winv w'"
    "dist_ok can_out d' w'" "set (di_pipes d') = {p \<in> set (di_pipes (xb_outpipes s)). can_out p w'}"
    "\<forall>q. can_in q w' = can_in q w"
    "send_each psend (m\<lparr>sphdr := []\<rparr>) [p \<leftarrow> di_pipes (xb_outpipes s). ex \<noteq> Some p] w = Some w'"
    using dist_send_ok [OF w d, of "m\<lparr>sphdr := []\<rparr>" ex] by (elim exE conjE)
  have "grid_xbus_send psend m s w = Some (Inr (), s\<lparr>xb_outpipes := d'\<rparr>, w')"
    using h
  proof (elim disjE exE conjE)
    assume e: "sphdr m = []" "ex = None"
    then have "m\<lparr>sphdr := []\<rparr> = m" by (cases m) simp
    with e r(1) show ?thesis by (simp add: grid_xbus_send_def)
  next
    fix p assume "sphdr m = ptr_store p" "0 < p" "p < 2 ^ 64" "ex = Some p"
    with r(1) ptr_load_store [of p] show ?thesis by (simp add: grid_xbus_send_def Let_def)
  qed
  moreover have "xbus_ok can_in can_out (s\<lparr>xb_outpipes := d'\<rparr>) w'" using s r(3,5) by (simp add: xbus_ok_def fq_ok_def)
  ultimately show ?thesis using r(2,4,6) by simp
qed

end

end
