(* ===== verification/RoundTrip.thy ===== *)
theory RoundTrip
  imports Scenario
begin

text \<open>
  The request/reply protocol from end to end: what a request socket and a reply socket on the two
  sessions of an inproc connection do, step by step, from the user's request to the user's reply.
\<close>

section \<open>A message crosses the connection\<close>

text \<open>The SENT event is delivered to session \<open>j\<close>, and its pipe reported readable.\<close>

definition inproc_pass :: "nat \<Rightarrow> inproc \<Rightarrow> inproc option" where
  "inproc_pass j w = map_option (deliver_in j) (deliver (Inr ()) j OSent w)"

lemma chan_frame_ready:
  assumes "chan_frame i j w w'"
  shows "k \<noteq> i \<Longrightarrow> inproc_can_out k w' = inproc_can_out k w" "k \<noteq> j \<Longrightarrow> inproc_can_in k w' = inproc_can_in k w"
proof -
  have st: "sp_state (sess w' k) = sp_state (sess w k)" using assms by (simp add: chan_frame_def)
  obtain b where "b \<noteq> j" by (metis n_not_Suc_n)
  then have "k \<noteq> i \<Longrightarrow> chan_view w' k b = chan_view w k b" using assms by (simp add: chan_frame_def)
  with st show "k \<noteq> i \<Longrightarrow> inproc_can_out k w' = inproc_can_out k w"
    by (simp add: chan_view_def inproc_can_out_def)
  obtain a where "a \<noteq> i" by (metis n_not_Suc_n)
  then have "k \<noteq> j \<Longrightarrow> chan_view w' a k = chan_view w a k" using assms by (simp add: chan_frame_def)
  with st show "k \<noteq> j \<Longrightarrow> inproc_can_in k w' = inproc_can_in k w"
    by (simp add: chan_view_def inproc_can_in_def)
qed

lemma deliver_in_ready:
  "inproc_can_out k (deliver_in j w) = inproc_can_out k w"
  "k \<noteq> j \<Longrightarrow> inproc_can_in k (deliver_in j w) = inproc_can_in k w"
  "inproc_can_in j (deliver_in j w) \<longleftrightarrow> sp_state (sess w j) = SP_ACTIVE \<and> pb_instate (ps_base w j) = IN_IDLE"
  by (auto simp: deliver_in_def inproc_can_out_def inproc_can_in_def)

lemma inproc_crosses:
  assumes inv: "inproc_inv w" and p: "paired w i j" and c: "chan_ok w i j []" "chan_ok w j i []"
    and o: "inproc_can_out i w" and s: "grid_pipe_send grid_sinproc_send i m w = Some (rc, w1)"
  shows "\<not> inproc_can_out i w1 \<and> (\<exists>w2. inproc_pass j w1 = Some w2 \<and> inproc_inv w2 \<and> paired w2 i j
    \<and> chan_ok w2 i j [merge_msg m] \<and> chan_ok w2 j i [] \<and> inproc_can_in j w2
    \<and> (\<forall>k. k \<noteq> j \<longrightarrow> inproc_can_in k w2 = inproc_can_in k w)
    \<and> (\<forall>k. k \<noteq> i \<longrightarrow> inproc_can_out k w2 = inproc_can_out k w))"
proof -
  have ij: "i \<noteq> j" using p by (simp add: paired_def)
  from inproc_send_step [OF p c(1) o, of m] s have f1: "chan_frame i j w w1" and c1: "chan_ok w1 i j [merge_msg m]"
    and o1: "\<not> inproc_can_out i w1" by auto
  note fr1 = inproc_frame [OF inv p f1 c1]
  have p1: "paired w1 i j" using p paired_frame [OF f1] by simp
  have in0: "pb_instate (ps_base w j) = IN_ASYNC"
    using c(1) o by (auto simp: chan_ok_def chan_turn_def inproc_can_out_def split: if_splits)
  have "pb_instate (ps_base w1 j) = pb_instate (ps_base w j)" "sp_sending (sess w1 i)"
    using s o p ij
    by (auto simp: grid_pipe_send_def inproc_can_out_def paired_def grid_sinproc_send_def raise_event_def Let_def
        split: if_splits bind_splits)
  moreover obtain qs where q: "mq_rep (sp_msgqueue (sess w1 j)) qs" "chan_turn w1 i j qs [merge_msg m]"
    "pb_instate (ps_base w1 j) = (if qs = [] then IN_ASYNC else IN_IDLE)" using c1 unfolding chan_ok_def by blast
  ultimately have qs: "qs = []" "sp_sending (sess w1 i)" using in0 by (auto split: if_splits)
  then have ev: "event_at w1 j OSent \<noteq> None" using q(2) by (auto simp: chan_turn_def split: if_splits)
  have "mq_count (sp_msgqueue (sess w1 j)) = 0" using mq_count_0 [OF q(1)] qs(1) by simp
  then have len: "mq_count (sp_msgqueue (sess w1 j)) + 1 \<noteq> 0" by simp
  have fsm: "sp_fsm (sess w1 j) = FSM_ACTIVE" using fr1(1) p1 by (simp add: inproc_inv_def paired_def)
  from deliver_sent_step [OF p1 c1 ev fsm len, of "Inr ()"] obtain w2 where
    w2: "deliver (Inr ()) j OSent w1 = Some w2" "chan_frame i j w1 w2" "chan_ok w2 i j [merge_msg m]" "event_at w2 j OSent = None"
    by blast
  note fr2 = inproc_frame [OF fr1(1) p1 w2(2,3)]
  have p2: "paired w2 i j" using p1 paired_frame [OF w2(2)] by simp
  have "pb_instate (ps_base w2 j) = IN_IDLE" using w2(3,4) by (auto simp: chan_ok_def chan_turn_def split: if_splits)
  then have ci: "inproc_can_in j (deliver_in j w2)" using p2 by (simp add: deliver_in_ready paired_def)
  have c2: "chan_ok w2 j i []" using c(2) fr1(2) [of j i] fr2(2) [of j i] ij p p1 paired_sym by metis
  define w3 where "w3 = deliver_in j w2"
  have "inproc_inv w3" "chan_ok w3 i j [merge_msg m]" "chan_ok w3 j i []"
    unfolding w3_def by (auto intro: deliver_ready_inv deliver_ready_view fr2(1) w2(3) c2)
  moreover have "paired w3 i j" using p2 by (simp add: w3_def deliver_in_def paired_def)
  moreover have "inproc_can_in k w3 = inproc_can_in k w" if "k \<noteq> j" for k
    using that chan_frame_ready(2) [OF f1] chan_frame_ready(2) [OF w2(2)] by (simp add: w3_def deliver_in_ready)
  moreover have "inproc_can_out k w3 = inproc_can_out k w" if "k \<noteq> i" for k
    using that chan_frame_ready(1) [OF f1] chan_frame_ready(1) [OF w2(2)] by (simp add: w3_def deliver_in_ready)
  moreover have "inproc_pass j w1 = Some w3" using w2(1) by (simp add: inproc_pass_def w3_def)
  ultimately show ?thesis using o1 ci by (simp add: w3_def)
qed

section \<open>The steps of the two sockets\<close>

lemma req_inv_move:
  assumes "req_inv can_in can_out s w" and "\<forall>p \<in> xq_writable (rq_xreq s). can_out p w'"
    and "\<forall>p \<in> xq_readable (rq_xreq s). can_in p w'"
  shows "req_inv can_in can_out s w'"
  using assms by (simp add: req_inv_def req_base_def xreq_ok_def lb_ok_def fq_ok_def xq_writable_def xq_readable_def)

lemma xrep_ok_move:
  assumes "xrep_ok can_in can_out s w" and "\<forall>p \<in> xrep_pipes s. can_out p w \<longrightarrow> can_out p w'"
    and "\<forall>p \<in> xrep_readable s. can_in p w'"
  shows "xrep_ok can_in can_out s w'"
  unfolding xrep_ok_def
proof (intro conjI allI impI)
  show "fq_ok can_in (xr_inpipes s) w'" using assms(1,3) by (simp add: xrep_ok_def fq_ok_def xrep_readable_def)
  fix p d assume d: "xr_data s p = Some d"
  show "\<not> bit (xd_key d) 31" using assms(1) d by (simp add: xrep_ok_def)
  assume "xd_out d"
  then show "can_out p w'" using assms(1,2) d by (auto simp: xrep_ok_def xrep_pipes_def)
qed (use assms(1) in \<open>simp_all add: xrep_ok_def\<close>)

lemma top_bit_set: "(i OR REQ_TOP_BIT) AND REQ_TOP_BIT \<noteq> 0"
proof -
  have "bit ((i OR REQ_TOP_BIT) AND REQ_TOP_BIT) 31" by (simp add: REQ_TOP_BIT_def bit_simps)
  then show ?thesis by (metis bit_0_eq bot_apply bot_bool_def)
qed

context pipe_world
begin

text \<open>The only message of a pipe is the reply that is waited for.\<close>

lemma req_in_reply:
  assumes w: "winv w" and i: "req_inv can_in can_out s w" and st: "rq_state s = REQ_ACTIVE"
    and p: "p \<in> xq_pipes (rq_xreq s)" "xq_readable (rq_xreq s) = {}" "can_in p w"
    and r: "precv p w = Some (rc, m, w1)" "\<not> parsed rc"
    and h: "id_header (tk_id (rq_task s)) = Some h" and m: "body m = h @ b"
  shows "\<exists>s'. grid_req_in psend precv p (s, w) = Some (s', w1) \<and> req_inv can_in can_out s' w1
    \<and> rq_state s' = REQ_STOPPING_TIMER \<and> tk_reply (rq_task s') = Some (m\<lparr>body := b, sphdr := []\<rparr>)"
proof -
  have x: "xreq_ok can_in can_out (rq_xreq s) w" and f: "fs_state (rq_fsm s) = FSM_ACTIVE"
    using i by (simp_all add: req_inv_def req_base_def)
  obtain x1 where x1: "grid_xreq_in (rq_xreq s) p = Some x1" "xreq_ok can_in can_out x1 w" "xq_pipes x1 = xq_pipes (rq_xreq s)"
    "xq_readable x1 = {p}" "xq_lb x1 = xq_lb (rq_xreq s)" using xreq_in_ok [OF x p(1) _ p(3)] p(2) by auto
  obtain r1 buf x2 w' where x2: "grid_xreq_recv precv (tk_reply (rq_task s)) x1 w = Some (r1, buf, x2, w')"
    "xreq_ok can_in can_out x2 w'" "xq_pipes x2 = xq_pipes x1" "xq_lb x2 = xq_lb x1"
    "\<exists>q \<in> xq_readable x1. \<exists>rc m. precv q w = Some (rc, m, w') \<and> buf = split_reply (parsed rc) m
       \<and> r1 = (if buf = None then Inl EAGAIN else Inr ())"
    using xreq_recv_ok [OF w x1(2), of "tk_reply (rq_task s)"] x1(4) by auto
  obtain h' where h': "length h = 4" "grid_getl h = Some (tk_id (rq_task s) OR REQ_TOP_BIT)"
    using id_header_Some [of "tk_id (rq_task s)"] h by auto
  define m1 where "m1 = m\<lparr>sphdr := h, body := b\<rparr>"
  have c: "w' = w1" "buf = Some m1" "r1 = Inr ()"
    using x2(5) x1(4) r m h'(1) by (auto simp: split_reply_def m1_def)
  note top = top_bit_set [of "tk_id (rq_task s)"]
  have match: "reply_matches (tk_id (rq_task s)) m1 = Some True" using h' top by (simp add: reply_matches_def m1_def)
  define s1 where "s1 = set_reply (Some (m\<lparr>body := b, sphdr := []\<rparr>)) (s\<lparr>rq_xreq := x2\<rparr>)"
  have wr: "xq_writable x2 = xq_writable (rq_xreq s)" using x2(4) x1(5) by (simp add: xq_writable_def)
  have i1: "req_inv can_in can_out s1 w1"
    using i x2(2,3) x1(3) wr c(1) by (simp add: s1_def req_inv_def req_base_def grid_req_inprogress_def)
  have s1: "rq_state s1 = REQ_ACTIVE" "rq_fsm s1 = rq_fsm s" "tk_reply (rq_task s1) = Some (m\<lparr>body := b, sphdr := []\<rparr>)"
    using st by (simp_all add: s1_def)
  have "id_header (tk_id (rq_task s1)) = Some (sphdr (tk_request (rq_task s1)))"
    using i1 s1(1) by (simp add: req_inv_def inprogress_states)
  from req_stop_timer_ok [OF i1 s1(1) _ this, of REQ_STOPPING_TIMER] s1(3) obtain s' where
    s': "stop_timer_goto REQ_STOPPING_TIMER (s1, w1) = Some (s', w1)" "req_inv can_in can_out s' w1"
    "rq_state s' = REQ_STOPPING_TIMER" "tk_reply (rq_task s') = Some (m\<lparr>body := b, sphdr := []\<rparr>)" by auto
  have "grid_req_in psend precv p (s, w) = req_feed psend REQ_IN (s1, w1)"
    using x1(1) x2(1) c match st
    by (simp add: grid_req_in_def req_in_loop.simps [of psend precv "(s\<lparr>rq_xreq := x1\<rparr>, w)"] inprogress_states
        s1_def m1_def set_reply_def upd_task_def)
  also have "\<dots> = Some (s', w1)" using s1 f s'(1) by (simp add: req_feed_running grid_req_handler_def)
  finally show ?thesis using s'(2-4) by blast
qed

text \<open>The only message of a pipe is a request with one word of backtrace.\<close>

lemma rep_recv_request:
  assumes w: "winv w" and t: "xrep_ok can_in can_out (rp_xrep t) w" and d: "xr_data (rp_xrep t) p = Some d"
    and p: "xrep_readable (rp_xrep t) = {}" "can_in p w" and r: "precv p w = Some (rc, m, w1)" "\<not> parsed rc"
    and m: "body m = h @ b" "length h = 4" "grid_getl h = Some v" "v AND 0x80000000 \<noteq> 0"
  shows "\<exists>x t'. grid_xrep_in (rp_xrep t) p = Some x
    \<and> grid_rep_recv precv (t\<lparr>rp_xrep := x\<rparr>) w = Some (Inr (m\<lparr>body := b, sphdr := []\<rparr>), t', w1)
    \<and> xrep_ok can_in can_out (rp_xrep t') w1 \<and> xr_data (rp_xrep t') = xr_data (rp_xrep t)
    \<and> rp_backtrace t' = Some (key_bytes (xd_key d) @ h)"
proof -
  have "p \<in> xrep_pipes (rp_xrep t)" "p \<notin> xrep_readable (rp_xrep t)" using d p(1) by (auto simp: xrep_pipes_def)
  from xrep_in_ok [OF t this p(2)] p(1) obtain x where x: "grid_xrep_in (rp_xrep t) p = Some x"
    "xrep_ok can_in can_out x w" "xr_data x = xr_data (rp_xrep t)" "xrep_readable x = {p}" by auto
  have "grid_getl (h @ b) = Some v" using grid_getl_take [of h b] m(2,3) by simp
  then have "backtrace_size 0 (body m) = Some (Some 1)"
    using m by (simp add: backtrace_size.simps [of 0])
  then have sp: "split_request (parsed rc) m = Some (m\<lparr>sphdr := h, body := b\<rparr>)"
    using r(2) m(1,2) by (simp add: split_request_def)
  from xrep_recv_ok [OF w x(2)] x(3,4) r(1) sp d obtain x' where
    x': "grid_xrep_recv precv x w = Some (Inr (m\<lparr>sphdr := key_bytes (xd_key d) @ h, body := b\<rparr>), x', w1)"
    "xrep_ok can_in can_out x' w1" "xr_data x' = xr_data (rp_xrep t)" by auto
  then have "grid_rep_recv precv (t\<lparr>rp_xrep := x\<rparr>) w
      = Some (Inr (m\<lparr>body := b, sphdr := []\<rparr>), t\<lparr>rp_xrep := x', rp_backtrace := Some (key_bytes (xd_key d) @ h)\<rparr>, w1)"
    by (simp add: grid_rep_recv_def)
  with x(1) x' show ?thesis by (intro exI conjI) (assumption | simp)+
qed

end

section \<open>From the request to the reply\<close>

abbreviation ip_send :: "inproc send_fn" where "ip_send \<equiv> grid_pipe_send grid_sinproc_send"
abbreviation ip_recv :: "inproc recv_fn" where "ip_recv \<equiv> grid_pipe_recv grid_sinproc_recv"

text \<open>Two sessions with nothing under way; a request socket and a reply socket with one usable pipe each.\<close>

definition idle_link :: "nat \<Rightarrow> nat \<Rightarrow> inproc \<Rightarrow> bool" where
  "idle_link i j w \<longleftrightarrow> inproc_inv w \<and> paired w i j \<and> chan_ok w i j [] \<and> chan_ok w j i []"

definition req_ready :: "nat \<Rightarrow> grid_req \<Rightarrow> inproc \<Rightarrow> bool" where
  "req_ready i s w \<longleftrightarrow> req_inv inproc_can_in inproc_can_out s w \<and> rq_state s = REQ_PASSIVE
     \<and> xq_pipes (rq_xreq s) = {i} \<and> xq_writable (rq_xreq s) = {i} \<and> xq_readable (rq_xreq s) = {}"

definition rep_ready :: "nat \<Rightarrow> grid_rep \<Rightarrow> inproc \<Rightarrow> bool" where
  "rep_ready j t w \<longleftrightarrow> xrep_ok inproc_can_in inproc_can_out (rp_xrep t) w \<and> xrep_pipes (rp_xrep t) = {j}
     \<and> xrep_readable (rp_xrep t) = {} \<and> (\<exists>d. xr_data (rp_xrep t) j = Some d \<and> xd_out d)"

lemma merge_body [simp]: "body (merge_msg m) = sphdr m @ body m" "sphdr (merge_msg m) = []"
  by (simp_all add: merge_msg_def)

text \<open>The request is sent, crosses the connection and is received by the reply socket.\<close>

lemma request_arrives:
  assumes l: "idle_link i j w" and s: "req_ready i s w" and t: "rep_ready j t w" and m: "sphdr m = []"
  shows "\<exists>h s1 w1 w2 x q t2 w3 d. grid_req_csend ip_send m (s, w) = Some (s1, w1) \<and> inproc_pass j w1 = Some w2
    \<and> grid_xrep_in (rp_xrep t) j = Some x \<and> grid_rep_recv ip_recv (t\<lparr>rp_xrep := x\<rparr>) w2 = Some (Inr q, t2, w3)
    \<and> body q = body m \<and> sphdr q = []
    \<and> id_header (tk_id (rq_task s1)) = Some h \<and> idle_link j i w3 \<and> inproc_can_out j w3
    \<and> req_inv inproc_can_in inproc_can_out s1 w3 \<and> rq_state s1 = REQ_ACTIVE \<and> xq_pipes (rq_xreq s1) = {i}
    \<and> xq_writable (rq_xreq s1) = {} \<and> xq_readable (rq_xreq s1) = {}
    \<and> xrep_ok inproc_can_in inproc_can_out (rp_xrep t2) w3 \<and> xr_data (rp_xrep t2) j = Some d \<and> xd_out d
    \<and> rp_backtrace t2 = Some (key_bytes (xd_key d) @ h)"
proof -
  have w: "inproc_inv w" "paired w i j" "chan_ok w i j []" "chan_ok w j i []" using l by (simp_all add: idle_link_def)
  have ij: "i \<noteq> j" using w(2) by (simp add: paired_def)
  have si: "req_inv inproc_can_in inproc_can_out s w" using s by (simp add: req_ready_def)
  then have "lb_ok inproc_can_out (xq_lb (rq_xreq s)) w" by (simp add: req_inv_def req_base_def xreq_ok_def)
  then have oi: "inproc_can_out i w" using s by (simp add: req_ready_def lb_ok_def xq_writable_def)
  obtain d where d: "xr_data (rp_xrep t) j = Some d" "xd_out d" using t by (auto simp: rep_ready_def)
  have tok: "xrep_ok inproc_can_in inproc_can_out (rp_xrep t) w" "xrep_readable (rp_xrep t) = {}" "xrep_pipes (rp_xrep t) = {j}"
    using t by (simp_all add: rep_ready_def)
  have oj: "inproc_can_out j w" using tok(1) d by (simp add: xrep_ok_def)
  from pipe_world.req_csend_ok [OF inproc.pipe_world_axioms w(1) si m] s obtain s1 w1 h where
    s1: "grid_req_csend ip_send m (s, w) = Some (s1, w1)" "req_inv inproc_can_in inproc_can_out s1 w1"
    "id_header (tk_id (rq_task s1)) = Some h" "xq_pipes (rq_xreq s1) = {i}" "xq_fq (rq_xreq s1) = xq_fq (rq_xreq s)"
    "rq_state s1 = REQ_ACTIVE" "\<exists>rc. ip_send i (m\<lparr>sphdr := h\<rparr>) w = Some (rc, w1)"
    by (auto simp: req_ready_def sent_result_def)
  then obtain rc where rc: "ip_send i (m\<lparr>sphdr := h\<rparr>) w = Some (rc, w1)" by blast
  from inproc_crosses [OF w oi rc] obtain w2 where w2: "inproc_pass j w1 = Some w2" "inproc_inv w2" "paired w2 i j"
    "chan_ok w2 i j [merge_msg (m\<lparr>sphdr := h\<rparr>)]" "chan_ok w2 j i []" "inproc_can_in j w2"
    "\<forall>k. k \<noteq> i \<longrightarrow> inproc_can_out k w2 = inproc_can_out k w" and no: "\<not> inproc_can_out i w1"
    by blast
  have x1: "lb_ok inproc_can_out (xq_lb (rq_xreq s1)) w1" "xq_writable (rq_xreq s1) \<subseteq> {i}"
    using s1(2,4) writable_registered [of inproc_can_in inproc_can_out "rq_xreq s1" w1]
    by (simp_all add: req_inv_def req_base_def xreq_ok_def)
  then have wr: "xq_writable (rq_xreq s1) = {}" using no by (auto simp: lb_ok_def xq_writable_def)
  have rd: "xq_readable (rq_xreq s1) = {}" using s s1(5) by (simp add: req_ready_def xq_readable_def)
  have t2: "xrep_ok inproc_can_in inproc_can_out (rp_xrep t) w2"
    by (rule xrep_ok_move [OF tok(1)]) (use w2(7) tok(2,3) ij in auto)
  obtain rc2 ms w3 where r: "ip_recv j w2 = Some (rc2, merge_msg (m\<lparr>sphdr := h\<rparr>), w3)" "chan_frame i j w2 w3"
    "chan_ok w3 i j []" "\<not> parsed rc2" "\<forall>k. inproc_can_out k w3 = inproc_can_out k w2"
    using inproc_recv_step [OF w2(3,4,6)] by auto
  note f3 = inproc_frame [OF w2(2,3) r(2,3)]
  have l3: "idle_link j i w3"
    using f3(1) r(3) f3(2) [of j i "[]"] w2(3,5) paired_frame [OF r(2)] paired_sym ij by (auto simp: idle_link_def)
  have hl: "length h = 4" "grid_getl h = Some (tk_id (rq_task s1) OR REQ_TOP_BIT)"
    using id_header_Some [of "tk_id (rq_task s1)"] s1(3) by auto
  have top: "(tk_id (rq_task s1) OR REQ_TOP_BIT) AND 0x80000000 \<noteq> 0" using top_bit_set by (simp add: REQ_TOP_BIT_def)
  have b: "body (merge_msg (m\<lparr>sphdr := h\<rparr>)) = h @ body m" by simp
  from pipe_world.rep_recv_request [OF inproc.pipe_world_axioms w2(2) t2 d(1) tok(2) w2(6) r(1,4) b hl top]
  obtain x t2 where x: "grid_xrep_in (rp_xrep t) j = Some x"
    "grid_rep_recv ip_recv (t\<lparr>rp_xrep := x\<rparr>) w2
       = Some (Inr ((merge_msg (m\<lparr>sphdr := h\<rparr>))\<lparr>body := body m, sphdr := []\<rparr>), t2, w3)"
    "xrep_ok inproc_can_in inproc_can_out (rp_xrep t2) w3" "xr_data (rp_xrep t2) = xr_data (rp_xrep t)"
    "rp_backtrace t2 = Some (key_bytes (xd_key d) @ h)" by (elim exE conjE)
  have "req_inv inproc_can_in inproc_can_out s1 w3" by (rule req_inv_move [OF s1(2)]) (simp_all add: wr rd)
  moreover have "inproc_can_out j w3" using oj w2(7) r(5) ij by simp
  ultimately show ?thesis using s1(1,3,4,6) w2(1) x wr rd l3 d
    by (intro exI [of _ h] exI [of _ s1] exI [of _ w1] exI [of _ w2] exI [of _ x] exI [of _ t2] exI [of _ w3] exI [of _ d]
        exI [of _ "(merge_msg (m\<lparr>sphdr := h\<rparr>))\<lparr>body := body m, sphdr := []\<rparr>"]) simp
qed

text \<open>The reply crosses the other way and reaches the user of the request socket.\<close>

lemma reply_arrives:
  assumes l: "idle_link j i w" and o: "inproc_can_out j w"
    and s: "req_inv inproc_can_in inproc_can_out s w" "rq_state s = REQ_ACTIVE" "xq_pipes (rq_xreq s) = {i}"
      "xq_writable (rq_xreq s) = {}" "xq_readable (rq_xreq s) = {}" "id_header (tk_id (rq_task s)) = Some h"
    and t: "xrep_ok inproc_can_in inproc_can_out (rp_xrep t) w" "xr_data (rp_xrep t) j = Some d" "xd_out d"
      "rp_backtrace t = Some (key_bytes (xd_key d) @ h)"
    and r: "sphdr r = []"
  shows "\<exists>t' w1 w2 s1 w3 k s2 a s3. grid_rep_send ip_send r t w = Some (Inr (), t', w1) \<and> inproc_pass i w1 = Some w2
    \<and> grid_req_in ip_send ip_recv i (s, w2) = Some (s1, w3) \<and> k \<le> 2 \<and> req_task_steps k ip_send (s1, w3) = Some (s2, w3)
    \<and> grid_req_crecv ip_send (s2, w3) = Some (Inr a, s3, w3) \<and> body a = body r \<and> sphdr a = [] \<and> rq_state s3 = REQ_PASSIVE
    \<and> idle_link i j w3"
proof -
  have w: "inproc_inv w" "paired w j i" "chan_ok w j i []" "chan_ok w i j []" using l by (simp_all add: idle_link_def)
  have ij: "i \<noteq> j" using w(2) by (auto simp: paired_def)
  from pipe_world.rep_send_ok [OF inproc.pipe_world_axioms w(1) t(1) r t(2,4)] t(3) obtain t' w1 rc where
    t': "grid_rep_send ip_send r t w = Some (Inr (), t', w1)" "ip_send j (r\<lparr>sphdr := h\<rparr>) w = Some (rc, w1)" by auto
  from inproc_crosses [OF w o t'(2)] obtain w2 where w2: "inproc_pass i w1 = Some w2" "inproc_inv w2" "paired w2 j i"
    "chan_ok w2 j i [merge_msg (r\<lparr>sphdr := h\<rparr>)]" "chan_ok w2 i j []" "inproc_can_in i w2" by blast
  obtain rc2 w3 where rv: "ip_recv i w2 = Some (rc2, merge_msg (r\<lparr>sphdr := h\<rparr>), w3)" "chan_frame j i w2 w3"
    "chan_ok w3 j i []" "\<not> parsed rc2" using inproc_recv_step [OF w2(3,4,6)] by auto
  note f3 = inproc_frame [OF w2(2,3) rv(2,3)]
  have l3: "idle_link i j w3"
    using f3(1) rv(3) f3(2) [of i j "[]"] w2(3,5) paired_frame [OF rv(2)] paired_sym ij by (auto simp: idle_link_def)
  have s2: "req_inv inproc_can_in inproc_can_out s w2" by (rule req_inv_move [OF s(1)]) (simp_all add: s(4,5))
  have pi: "i \<in> xq_pipes (rq_xreq s)" using s(3) by simp
  have b: "body (merge_msg (r\<lparr>sphdr := h\<rparr>)) = h @ body r" by simp
  define a where "a = (merge_msg (r\<lparr>sphdr := h\<rparr>))\<lparr>body := body r, sphdr := []\<rparr>"
  from pipe_world.req_in_reply [OF inproc.pipe_world_axioms w2(2) s2 s(2) pi s(5) w2(6) rv(1,4) s(6) b] obtain s1 where
    s1: "grid_req_in ip_send ip_recv i (s, w2) = Some (s1, w3)" "req_inv inproc_can_in inproc_can_out s1 w3"
    "rq_state s1 = REQ_STOPPING_TIMER" "tk_reply (rq_task s1) = Some a" unfolding a_def by (elim exE conjE)
  from req_done_ok [OF s1(2,3), of ip_send] s1(4) obtain k s4 where
    s4: "k \<le> 2" "req_task_steps k ip_send (s1, w3) = Some (s4, w3)" "req_inv inproc_can_in inproc_can_out s4 w3"
    "rq_state s4 = REQ_DONE" "tk_reply (rq_task s4) = Some a" by auto
  from req_crecv_ok [OF s4(3-5), of ip_send] obtain s5 where
    "grid_req_crecv ip_send (s4, w3) = Some (Inr a, s5, w3)" "rq_state s5 = REQ_PASSIVE" by blast
  moreover have "body a = body r" "sphdr a = []" by (simp_all add: a_def)
  ultimately show ?thesis using t'(1) w2(1) s1(1) s4(1,2) l3
    by (intro exI [of _ t'] exI [of _ w1] exI [of _ w2] exI [of _ s1] exI [of _ w3] exI [of _ k] exI [of _ s4] exI [of _ a]
        exI [of _ s5] conjI)
qed

text \<open>
  C1: A request and its reply reach each other unchanged. When a request socket and
  a reply socket are connected by an idle inproc connection, the body of the message a user sends
  as a request is what the other user receives; the body of the message that user sends as the
  reply is what the first receives, after the arrivals have been reported and at most two tasks of
  the worker; the request socket is ready for the next request and the connection idle again.
\<close>

theorem request_reply_round_trip:
  assumes "idle_link i j w" and "req_ready i s w" and "rep_ready j t w" and "sphdr m = []" and "sphdr r = []"
  shows "\<exists>s1 w1 w2 x q t1 w3 t2 w4 w5 s2 w6 k s3 a s4.
    grid_req_csend ip_send m (s, w) = Some (s1, w1) \<and> inproc_pass j w1 = Some w2
    \<and> grid_xrep_in (rp_xrep t) j = Some x \<and> grid_rep_recv ip_recv (t\<lparr>rp_xrep := x\<rparr>) w2 = Some (Inr q, t1, w3)
    \<and> body q = body m \<and> sphdr q = []
    \<and> grid_rep_send ip_send r t1 w3 = Some (Inr (), t2, w4) \<and> inproc_pass i w4 = Some w5
    \<and> grid_req_in ip_send ip_recv i (s1, w5) = Some (s2, w6) \<and> k \<le> 2 \<and> req_task_steps k ip_send (s2, w6) = Some (s3, w6)
    \<and> grid_req_crecv ip_send (s3, w6) = Some (Inr a, s4, w6) \<and> body a = body r \<and> sphdr a = []
    \<and> rq_state s4 = REQ_PASSIVE \<and> idle_link i j w6"
proof -
  obtain h s1 w1 w2 x q t1 w3 d where 1: "grid_req_csend ip_send m (s, w) = Some (s1, w1)" "inproc_pass j w1 = Some w2"
    "grid_xrep_in (rp_xrep t) j = Some x" "grid_rep_recv ip_recv (t\<lparr>rp_xrep := x\<rparr>) w2 = Some (Inr q, t1, w3)"
    "body q = body m" "sphdr q = []"
    and h: "id_header (tk_id (rq_task s1)) = Some h" and l: "idle_link j i w3" "inproc_can_out j w3"
    and s1: "req_inv inproc_can_in inproc_can_out s1 w3" "rq_state s1 = REQ_ACTIVE" "xq_pipes (rq_xreq s1) = {i}"
      "xq_writable (rq_xreq s1) = {}" "xq_readable (rq_xreq s1) = {}"
    and t1: "xrep_ok inproc_can_in inproc_can_out (rp_xrep t1) w3" "xr_data (rp_xrep t1) j = Some d" "xd_out d"
      "rp_backtrace t1 = Some (key_bytes (xd_key d) @ h)"
    using request_arrives [OF assms(1-4)] by (elim exE conjE)
  from reply_arrives [OF l s1 h t1 assms(5)] 1 show ?thesis by (elim exE conjE) (intro exI conjI; assumption)
qed

text \<open>Two connected sockets that are ready for a request.\<close>

lemma scene_sockets: "\<exists>s t w. idle_link 0 1 w \<and> req_ready 0 s w \<and> rep_ready 1 t w"
proof -
  obtain w where w: "inproc_inv w" "paired w 0 1" "chan_ok w 0 1 []" "chan_ok w 1 0 []" "inproc_can_out 0 w" "inproc_can_out 1 w"
    using scene_connected by blast
  obtain s where s: "req_inv inproc_can_in inproc_can_out s w" "rq_state s = REQ_PASSIVE" "xq_pipes (rq_xreq s) = {0}"
    "xq_writable (rq_xreq s) = {}" "xq_readable (rq_xreq s) = {}" using scene_req_added by blast
  have x: "xreq_ok inproc_can_in inproc_can_out (rq_xreq s) w" using s(1) by (simp add: req_inv_def req_base_def)
  from xreq_out_ok [OF x, of 0] s(3,4) w(5) obtain x' where x': "xreq_ok inproc_can_in inproc_can_out x' w" "xq_pipes x' = {0}"
    "xq_writable x' = {0}" "xq_fq x' = xq_fq (rq_xreq s)" by auto
  have "req_ready 0 (s\<lparr>rq_xreq := x'\<rparr>) w"
    using s x' by (simp add: req_ready_def req_inv_def req_base_def inprogress_states xq_readable_def)
  moreover have "\<exists>t. rep_ready 1 t w"
  proof -
    have x0: "xrep_ok inproc_can_in inproc_can_out (grid_xrep_init 5) w" by (rule xrep_init_ok)
    have n: "1 \<notin> xrep_pipes (grid_xrep_init 5)" "\<forall>q. xrep_keys (grid_xrep_init 5) q \<noteq> Some (xr_next_key (grid_xrep_init 5) AND 0x7fffffff)"
      by (simp_all add: xrep_pipes_def xrep_keys_def grid_xrep_init_def)
    from xrep_add_ok [OF x0 n(1) _ _ n(2), of 8] obtain y where
      y: "grid_xrep_add (grid_xrep_init 5) 1 8 = Some y" "xrep_ok inproc_can_in inproc_can_out y w"
      "xrep_pipes y = insert 1 (xrep_pipes (grid_xrep_init 5))" by auto
    have e: "xrep_readable y = {}"
      using y(1) by (auto simp: grid_xrep_add_def xrep_readable_def grid_fq_add_def grid_priolist_add_def grid_xrep_init_def
          fq_init_ok pl_active_def grid_fq_init_def grid_priolist_init_def empty_slot_def split: bind_splits)
    have "1 \<in> xrep_pipes y" using y(3) by simp
    from set_out_ok [OF y(2) this, of True] w(6) obtain z where z: "xrep_ok inproc_can_in inproc_can_out z w"
      "xr_inpipes z = xr_inpipes y" "xr_data z = (xr_data y)(1 \<mapsto> (the (xr_data y 1))\<lparr>xd_out := True\<rparr>)" by auto
    have p: "xrep_pipes z = {1}" using z(3) y(3) by (auto simp: xrep_pipes_def grid_xrep_init_def)
    have "rep_ready 1 \<lparr>rp_xrep = z, rp_backtrace = None\<rparr> w"
      using z e p by (simp add: rep_ready_def xrep_readable_def)
    then show ?thesis by blast
  qed
  ultimately show ?thesis using w by (auto simp: idle_link_def)
qed

theorem request_reply_round_trip_witness:
  "\<exists>s w s1 w1 s3 w6 a s4. grid_req_csend ip_send \<lparr>sphdr = [], hdrs = [], body = [1, 2, 3]\<rparr> (s, w) = Some (s1, w1)
     \<and> grid_req_crecv ip_send (s3, w6) = Some (Inr a, s4, w6) \<and> body a = [42]"
proof -
  obtain s t w where r: "idle_link 0 1 w" "req_ready 0 s w" "rep_ready 1 t w" using scene_sockets by blast
  have "sphdr \<lparr>sphdr = [], hdrs = [], body = [1, 2, 3]\<rparr> = []" "sphdr \<lparr>sphdr = [], hdrs = [], body = [42]\<rparr> = []" by simp_all
  from request_reply_round_trip [OF r this] show ?thesis by (elim exE conjE) (intro exI conjI; (assumption | simp))
qed

end
