(* ===== verification/SocketProps.thy ===== *)
theory SocketProps
  imports PubSub Pipeline Bus RoundTrip
begin

text \<open>
  Properties of the sockets that keep no protocol state: publish/subscribe with its trie of
  subscriptions, the bus, pair and the pipeline.
\<close>

section \<open>Subscriptions\<close>

text \<open>
  C8: A subscriber delivers exactly what it subscribed to. Receiving takes messages in
  the order of the fair queue; those before the last one do not start with a subscribed string, and
  are dropped. If the last one does it is returned unchanged, otherwise nothing is left to receive;
  the one exception is a body that ends at an inner node of the trie, where matching reads past
  its end.
\<close>

theorem sub_delivers_subscribed:
  assumes "finite_pipes psend precv winv can_out can_in backlog" and "winv w" and "xsub_ok can_in s w"
  shows "\<exists>xs l' w'. fq_receives precv (xu_fq s, w) xs (l', w') \<and> winv w'
    \<and> xsub_ok can_in (s\<lparr>xu_fq := l'\<rparr>) w' \<and> fq_pipes l' = fq_pipes (xu_fq s)
    \<and> ((\<forall>(f, m, p) \<in> set xs. \<not> subscribed (xu_trie s) (body m)) \<and> fq_readable l' = {}
          \<and> grid_xsub_recv precv s w = Some (Inl EAGAIN, s\<lparr>xu_fq := l'\<rparr>, w')
        \<or> (\<exists>ys f m p. xs = ys @ [(f, m, p)] \<and> (\<forall>(f, m, p) \<in> set ys. \<not> subscribed (xu_trie s) (body m))
            \<and> (if subscribed (xu_trie s) (body m) then grid_xsub_recv precv s w = Some (Inr m, s\<lparr>xu_fq := l'\<rparr>, w')
                else node_at (xu_trie s) (body m) \<noteq> None \<and> grid_xsub_recv precv s w = None)))"
  by (rule finite_pipes.xsub_recv_ok [OF assms])

lemma scene_fq: "\<exists>l w. inproc_inv w \<and> fq_ok inproc_can_in l w \<and> fq_readable l = {0}"
proof -
  have "sphdr empty_msg = []" "hdrs empty_msg = []" by (simp_all add: empty_msg_def)
  from scene_readable [OF this] obtain w where w: "inproc_inv w" "inproc_can_in 0 w" by blast
  have l: "fq_ok inproc_can_in (grid_fq_add grid_fq_init 0 8) w" "fq_pipes (grid_fq_add grid_fq_init 0 8) = {0}"
    "fq_readable (grid_fq_add grid_fq_init 0 8) = {}"
    using fq_add_ok [OF fq_init_ok(1) [of inproc_can_in w], of 0 8] by (simp_all add: fq_init_ok(2,3))
  from fq_in_ok [OF l(1), of 0] l(2,3) w show ?thesis by auto
qed

theorem sub_delivers_subscribed_witness:
  "\<exists>s w m l' w'. xu_trie s = Some (new_nodes [])
     \<and> grid_xsub_recv (grid_pipe_recv grid_sinproc_recv) s w = Some (Inr m, s\<lparr>xu_fq := l'\<rparr>, w')"
proof -
  obtain l w where l: "inproc_inv w" "fq_ok inproc_can_in l w" "fq_readable l = {0}" using scene_fq by blast
  define s where "s = \<lparr>xu_fq = l, xu_trie = Some (new_nodes [])\<rparr>"
  have s: "xsub_ok inproc_can_in s w" using l(2) new_nodes_ok [of "[]"] by (simp add: xsub_ok_def s_def)
  have all: "subscribed (xu_trie s) b" for b
    using new_nodes_ok [of "[]"] by (simp add: subscribed_def s_def exI [of _ "[]"])
  from sub_delivers_subscribed [OF inproc_finite.finite_pipes_axioms l(1) s] show ?thesis
  proof (elim exE conjE disjE)
    fix xs l' w' assume a: "fq_receives (grid_pipe_recv grid_sinproc_recv) (xu_fq s, w) xs (l', w')"
      "\<forall>(f, m, p) \<in> set xs. \<not> subscribed (xu_trie s) (body m)" "fq_readable l' = {}"
    have "xs = []" using a(2) all by (cases xs) auto
    with a(1,3) l(3) show ?thesis by (auto simp: s_def elim: receives_NilE)
  next
    fix l' w' m assume "if subscribed (xu_trie s) (body m)
        then grid_xsub_recv (grid_pipe_recv grid_sinproc_recv) s w = Some (Inr m, s\<lparr>xu_fq := l'\<rparr>, w')
        else node_at (xu_trie s) (body m) \<noteq> None \<and> grid_xsub_recv (grid_pipe_recv grid_sinproc_recv) s w = None"
    with all have "grid_xsub_recv (grid_pipe_recv grid_sinproc_recv) s w = Some (Inr m, s\<lparr>xu_fq := l'\<rparr>, w')" by simp
    moreover have "xu_trie s = Some (new_nodes [])" by (simp add: s_def)
    ultimately show ?thesis by blast
  qed
qed

text \<open>
  C9: Subscribing adds one subscription. On a well-formed trie it never aborts, keeps
  the trie well-formed, raises the count of the string by one and reports whether the string is
  new; the count of every other string stays, or drops to nothing where the string's node had 8
  children and the new subscription gives it a ninth.
\<close>

theorem trie_subscribe_counts:
  assumes "trie_ok t"
  shows "\<exists>n' fresh. grid_trie_subscribe t data = Some (n', fresh) \<and> trie_ok (Some n')
    \<and> trie_count (Some n') data = trie_count t data + 1 \<and> fresh = (trie_count (Some n') data = 1)
    \<and> (\<forall>s. s \<noteq> data \<longrightarrow> trie_count (Some n') s = trie_count t s
         \<or> (loses_at t data s \<and> trie_count (Some n') s = 0))"
  by (rule subscribe_ok [OF assms])

theorem trie_subscribe_counts_witness:
  "\<exists>n' fresh. grid_trie_subscribe (Some (new_nodes [1, 2, 3])) [1, 2, 4] = Some (n', fresh)
     \<and> trie_count (Some n') [1, 2, 4] = 1"
proof -
  have "trie_ok (Some (new_nodes [1, 2, 3]))" "trie_count (Some (new_nodes [1, 2, 3])) [1, 2, 4] = 0"
    using new_nodes_ok by auto
  with trie_subscribe_counts [of "Some (new_nodes [1, 2, 3])" "[1, 2, 4]"] show ?thesis by auto
qed

text \<open>
  C20: Unsubscribing takes one subscription away. For a string that is subscribed it
  never aborts, keeps the trie well-formed, lowers the count of the string by one and reports
  whether that was the last; the count of every other string stays, or drops to nothing where the
  string's node had 9 children and loses one.
\<close>

theorem trie_unsubscribe_counts:
  assumes "trie_ok t" and "trie_count t data \<noteq> 0"
  shows "\<exists>t'. grid_trie_unsubscribe t data = Some (Inr (trie_count t data = 1), t') \<and> trie_ok t'
    \<and> trie_count t' data = trie_count t data - 1
    \<and> (\<forall>s. s \<noteq> data \<longrightarrow> trie_count t' s = trie_count t s \<or> (shrinks_at t data s \<and> trie_count t' s = 0))"
  unfolding grid_trie_unsubscribe_def by (rule unsubscribe_ok [OF assms])

theorem trie_unsubscribe_counts_witness:
  "\<exists>t'. grid_trie_unsubscribe (Some (new_nodes [1, 2, 3])) [1, 2, 3] = Some (Inr True, t') \<and> trie_count t' [1, 2, 3] = 0"
proof -
  have "trie_ok (Some (new_nodes [1, 2, 3]))" "trie_count (Some (new_nodes [1, 2, 3])) [1, 2, 3] = 1"
    using new_nodes_ok by auto
  with trie_unsubscribe_counts [of "Some (new_nodes [1, 2, 3])" "[1, 2, 3]"] show ?thesis by auto
qed

fun subscribe_all :: "bytes list \<Rightarrow> trie_node option \<Rightarrow> trie_node option option" where
  "subscribe_all [] t = Some t"
| "subscribe_all (s # ss) t = Option.bind (grid_trie_subscribe t s) (\<lambda>(n, fresh). subscribe_all ss (Some n))"


section \<open>The bus\<close>


lemma scene_fq_1:
  "\<exists>l w m w'. inproc_inv w \<and> fq_ok inproc_can_in l w \<and> fq_readable l = {1} \<and> sphdr m = []
     \<and> (\<exists>l' f. grid_fq_recv ip_recv l w = Some (Inr (f, m, 1), l', w'))"
proof -
  obtain w where w: "inproc_inv w" "paired w 0 1" "chan_ok w 0 1 []" "chan_ok w 1 0 []" "inproc_can_out 0 w"
    using scene_connected by blast
  obtain rc w1 where "ip_send 0 empty_msg w = Some (rc, w1)" using inproc_send_step [OF w(2,3,5)] by blast
  from inproc_crosses [OF w this] obtain w2 where w2: "inproc_inv w2" "paired w2 0 1" "chan_ok w2 0 1 [merge_msg empty_msg]"
    "inproc_can_in 1 w2" by blast
  have l: "fq_ok inproc_can_in (grid_fq_add grid_fq_init 1 8) w2" "fq_pipes (grid_fq_add grid_fq_init 1 8) = {1}"
    "fq_readable (grid_fq_add grid_fq_init 1 8) = {}"
    using fq_add_ok [OF fq_init_ok(1) [of inproc_can_in w2], of 1 8] by (simp_all add: fq_init_ok(2,3))
  obtain l1 where l1: "fq_ok inproc_can_in l1 w2" "fq_readable l1 = {1}" using fq_in_ok [OF l(1), of 1] l(2,3) w2(4) by auto
  obtain r l2 w3 where r: "grid_fq_recv ip_recv l1 w2 = Some (r, l2, w3)"
    and c: "case r of Inl e \<Rightarrow> e = EAGAIN \<and> fq_readable l1 = {} \<and> l2 = l1 \<and> w3 = w2
      | Inr (f, m, p) \<Rightarrow> p \<in> fq_readable l1 \<and> \<not> released f
          \<and> (\<forall>q \<in> fq_readable l1. the (pl_prio (fq_priolist l1) p) \<le> the (pl_prio (fq_priolist l1) q))
          \<and> (\<exists>rc. ip_recv p w2 = Some (rc, m, w3) \<and> parsed f = parsed rc) \<and> (parsed f \<or> sphdr m = [])"
    using pipe_world.fq_recv_ok [OF inproc.pipe_world_axioms w2(1) l1(1)] by blast
  obtain f m p where x: "r = Inr (f, m, p)" using c l1(2) by (cases r) auto
  with c l1(2) obtain rc' where "p = 1" "ip_recv 1 w2 = Some (rc', m, w3)" by auto
  with inproc_recv_step [OF w2(2-4)] r x have "sphdr m = []" "grid_fq_recv ip_recv l1 w2 = Some (Inr (f, m, 1), l2, w3)" by auto
  with w2(1) l1 show ?thesis by (intro exI [of _ l1] exI [of _ w2] exI [of _ m] exI [of _ w3]) blast
qed


end
