(* ===== verification/Ep.thy ===== *)
theory Ep
  imports Fsm Wire
begin

text \<open>
  What a socket is made of: event descriptors (\<open>src/utils/efd.c\<close>, \<open>efd_eventfd.inc\<close>),
  statistics (in \<open>src/core/sock.c\<close>), endpoints (\<open>src/core/ep.c\<close>, \<open>epbase.c\<close>), and the
  values of integer options as bytes.
\<close>

section \<open>Event descriptors\<close>

text \<open>
  The operating system's eventfd is a counter; \<open>ef_fd\<close> is the descriptor, negative when closed.
  Reading a counter that is 0 fails, which the code asserts not to happen.
\<close>

record grid_efd =
  ef_fd :: int
  ef_count :: nat

definition grid_efd_init :: "errno + nat \<Rightarrow> errno + grid_efd" where
  "grid_efd_init os = (case os of Inl e \<Rightarrow> Inl e | Inr fd \<Rightarrow> Inr \<lparr>ef_fd = int fd, ef_count = 0\<rparr>)"

definition grid_efd_term :: "grid_efd \<Rightarrow> grid_efd" where
  "grid_efd_term e = e\<lparr>ef_fd := -1\<rparr>"

definition grid_efd_signal :: "grid_efd \<Rightarrow> grid_efd" where
  "grid_efd_signal e = (if ef_fd e < 0 then e else e\<lparr>ef_count := ef_count e + 1\<rparr>)"

definition grid_efd_stop :: "grid_efd \<Rightarrow> grid_efd" where
  "grid_efd_stop e = grid_efd_signal e"

definition grid_efd_unsignal :: "grid_efd \<Rightarrow> grid_efd option" where
  "grid_efd_unsignal e =
     (if ef_fd e < 0 then Some e else do { guard (ef_count e \<noteq> 0); Some (e\<lparr>ef_count := 0\<rparr>) })"

definition grid_efd_getfd :: "grid_efd \<Rightarrow> int" where
  "grid_efd_getfd e = ef_fd e"

text \<open>Waiting with a timeout of 0.\<close>

definition grid_efd_poll :: "grid_efd \<Rightarrow> errno + unit" where
  "grid_efd_poll e = (if grid_efd_getfd e < 0 then Inl EBADF else if ef_count e = 0 then Inl ETIMEDOUT else Inr ())"

section \<open>Statistics\<close>

text \<open>Counters wrap at 64 bits; levels are bounded by the pipes and endpoints in memory.\<close>

datatype stat_name = STAT_ESTABLISHED_CONNECTIONS | STAT_ACCEPTED_CONNECTIONS | STAT_DROPPED_CONNECTIONS
  | STAT_BROKEN_CONNECTIONS | STAT_CONNECT_ERRORS | STAT_BIND_ERRORS | STAT_ACCEPT_ERRORS
  | STAT_MESSAGES_SENT | STAT_MESSAGES_RECEIVED | STAT_BYTES_SENT | STAT_BYTES_RECEIVED
  | STAT_CURRENT_CONNECTIONS | STAT_INPROGRESS_CONNECTIONS | STAT_CURRENT_SND_PRIORITY | STAT_CURRENT_EP_ERRORS

record sock_stats =
  established_connections :: u64
  accepted_connections :: u64
  dropped_connections :: u64
  broken_connections :: u64
  connect_errors :: u64
  bind_errors :: u64
  accept_errors :: u64
  messages_sent :: u64
  messages_received :: u64
  bytes_sent :: u64
  bytes_received :: u64
  current_connections :: int
  inprogress_connections :: int
  current_snd_priority :: int
  current_ep_errors :: int

definition stats_init :: sock_stats where
  "stats_init = \<lparr>established_connections = 0, accepted_connections = 0, dropped_connections = 0,
     broken_connections = 0, connect_errors = 0, bind_errors = 0, accept_errors = 0,
     messages_sent = 0, messages_received = 0, bytes_sent = 0, bytes_received = 0,
     current_connections = 0, inprogress_connections = 0, current_snd_priority = 0, current_ep_errors = 0\<rparr>"

text \<open>The asserts on the increment of a level that stands at \<open>cur\<close>.\<close>

definition level_guard :: "int \<Rightarrow> int \<Rightarrow> unit option" where
  "level_guard cur inc = do {
     guard (inc > 0 \<or> cur \<ge> - inc);
     guard (inc < 2 ^ 31 - 1 \<and> inc > - (2 ^ 31 - 1)) }"

definition grid_sock_stat_increment :: "stat_name \<Rightarrow> int \<Rightarrow> sock_stats \<Rightarrow> sock_stats option" where
  "grid_sock_stat_increment name inc st =
     (case name of
        STAT_ESTABLISHED_CONNECTIONS \<Rightarrow> do {
          guard (inc > 0); Some (st\<lparr>established_connections := established_connections st + of_int inc\<rparr>) }
      | STAT_ACCEPTED_CONNECTIONS \<Rightarrow> do {
          guard (inc > 0); Some (st\<lparr>accepted_connections := accepted_connections st + of_int inc\<rparr>) }
      | STAT_DROPPED_CONNECTIONS \<Rightarrow> do {
          guard (inc > 0); Some (st\<lparr>dropped_connections := dropped_connections st + of_int inc\<rparr>) }
      | STAT_BROKEN_CONNECTIONS \<Rightarrow> do {
          guard (inc > 0); Some (st\<lparr>broken_connections := broken_connections st + of_int inc\<rparr>) }
      | STAT_CONNECT_ERRORS \<Rightarrow> do { guard (inc > 0); Some (st\<lparr>connect_errors := connect_errors st + of_int inc\<rparr>) }
      | STAT_BIND_ERRORS \<Rightarrow> do { guard (inc > 0); Some (st\<lparr>bind_errors := bind_errors st + of_int inc\<rparr>) }
      | STAT_ACCEPT_ERRORS \<Rightarrow> do { guard (inc > 0); Some (st\<lparr>accept_errors := accept_errors st + of_int inc\<rparr>) }
      | STAT_MESSAGES_SENT \<Rightarrow> do { guard (inc > 0); Some (st\<lparr>messages_sent := messages_sent st + of_int inc\<rparr>) }
      | STAT_MESSAGES_RECEIVED \<Rightarrow> do {
          guard (inc > 0); Some (st\<lparr>messages_received := messages_received st + of_int inc\<rparr>) }
      | STAT_BYTES_SENT \<Rightarrow> do { guard (inc \<ge> 0); Some (st\<lparr>bytes_sent := bytes_sent st + of_int inc\<rparr>) }
      | STAT_BYTES_RECEIVED \<Rightarrow> do { guard (inc \<ge> 0); Some (st\<lparr>bytes_received := bytes_received st + of_int inc\<rparr>) }
      | STAT_CURRENT_CONNECTIONS \<Rightarrow> do {
          level_guard (current_connections st) inc; Some (st\<lparr>current_connections := current_connections st + inc\<rparr>) }
      | STAT_INPROGRESS_CONNECTIONS \<Rightarrow> do {
          level_guard (inprogress_connections st) inc;
          Some (st\<lparr>inprogress_connections := inprogress_connections st + inc\<rparr>) }
      | STAT_CURRENT_SND_PRIORITY \<Rightarrow> do {
          guard (inc > 0 \<and> inc \<le> 16 \<or> inc = -1); Some (st\<lparr>current_snd_priority := inc\<rparr>) }
      | STAT_CURRENT_EP_ERRORS \<Rightarrow> do {
          level_guard (current_ep_errors st) inc; Some (st\<lparr>current_ep_errors := current_ep_errors st + inc\<rparr>) })"

section \<open>Endpoints\<close>

record grid_ep_options =
  ep_sndprio :: int
  ep_rcvprio :: int
  ep_ipv4only :: int

datatype ep_state = EP_IDLE | EP_ACTIVE | EP_STOPPING
datatype ep_input = EP_START | EP_STOP | EP_DONE

text \<open>The transport's part of an endpoint (\<open>epbase\<close>) is in the world, under the endpoint's id.\<close>

record grid_ep =
  ep_fsm :: grid_fsm
  ep_state :: ep_state
  ep_options :: grid_ep_options
  ep_eid :: int
  ep_addr :: string
  ep_last_errno :: int

definition GRID_SOCKADDR_MAX :: nat where "GRID_SOCKADDR_MAX = 128"

text \<open>\<open>create\<close> is the transport's function to bind or connect.\<close>

definition grid_ep_init ::
  "(int \<Rightarrow> string \<Rightarrow> 'w \<Rightarrow> (errno + unit) \<times> 'w) \<Rightarrow> grid_ep_options \<Rightarrow> int \<Rightarrow> string \<Rightarrow> 'w
     \<Rightarrow> ((errno + grid_ep) \<times> 'w) option" where
  "grid_ep_init create template eid addr w = do {
     guard (length addr \<le> GRID_SOCKADDR_MAX);
     let (rc, w1) = create eid addr w;
     case rc of
       Inl e \<Rightarrow> do { grid_fsm_term grid_fsm_init; Some (Inl e, w1) }
     | Inr u \<Rightarrow> Some (Inr \<lparr>ep_fsm = grid_fsm_init, ep_state = EP_IDLE, ep_options = template, ep_eid = eid,
                        ep_addr = addr, ep_last_errno = 0\<rparr>, w1) }"

definition grid_ep_handler :: "ep_input \<Rightarrow> grid_ep \<Rightarrow> grid_ep option" where
  "grid_ep_handler i e =
     (case ep_state e of
        EP_IDLE \<Rightarrow> if i = EP_START then Some (e\<lparr>ep_state := EP_ACTIVE\<rparr>) else None
      | EP_ACTIVE \<Rightarrow> None
      | EP_STOPPING \<Rightarrow> None)"

text \<open>
  \<open>vstop\<close> is the transport's \<open>stop\<close>; its result says whether it has called
  \<open>grid_epbase_stopped\<close> before it returned. It may change the socket, so \<open>'w\<close> includes it.
\<close>

definition grid_ep_stopped :: "grid_ep \<Rightarrow> grid_ep option" where
  "grid_ep_stopped e = do {
     guard (\<not> fs_stopped (ep_fsm e));
     Some (e\<lparr>ep_fsm := (ep_fsm e)\<lparr>fs_stopped := True\<rparr>\<rparr>) }"

definition grid_ep_shutdown ::
  "(int \<Rightarrow> 'w \<Rightarrow> (bool \<times> 'w) option) \<Rightarrow> ep_input \<Rightarrow> grid_ep \<times> 'w \<Rightarrow> (grid_ep \<times> 'w) option" where
  "grid_ep_shutdown vstop i ew =
     (let (e, w) = ew in
      if i = EP_STOP then do {
        (now, w1) \<leftarrow> vstop (ep_eid e) w;
        e1 \<leftarrow> if now then grid_ep_stopped e else Some e;
        Some (e1\<lparr>ep_state := EP_STOPPING\<rparr>, w1) }
      else if ep_state e = EP_STOPPING then
        (if i \<noteq> EP_DONE then Some (e, w)
         else do {
           f \<leftarrow> grid_fsm_stopped (ep_fsm e);
           Some (e\<lparr>ep_state := EP_IDLE, ep_fsm := f\<rparr>, w) })
      else None)"

definition grid_ep_start :: "grid_ep \<Rightarrow> grid_ep option" where
  "grid_ep_start e = grid_fsm_start ep_fsm ep_fsm_update (grid_ep_handler EP_START) e"

definition grid_ep_stop :: "(int \<Rightarrow> 'w \<Rightarrow> (bool \<times> 'w) option) \<Rightarrow> grid_ep \<times> 'w \<Rightarrow> (grid_ep \<times> 'w) option" where
  "grid_ep_stop vstop ew =
     grid_fsm_stop (ep_fsm \<circ> fst) (\<lambda>f (e, w). (ep_fsm_update f e, w)) (grid_ep_shutdown vstop EP_STOP) ew"

definition ep_feed :: "(int \<Rightarrow> 'w \<Rightarrow> (bool \<times> 'w) option) \<Rightarrow> ep_input \<Rightarrow> grid_ep \<times> 'w \<Rightarrow> (grid_ep \<times> 'w) option" where
  "ep_feed vstop i ew =
     grid_fsm_feed (ep_fsm \<circ> fst) (\<lambda>i (e, w). map_option (\<lambda>e1. (e1, w)) (grid_ep_handler i e))
       (grid_ep_shutdown vstop) i ew"

lemma ep_feed_done:
  "ep_feed vstop EP_DONE (e, w) = Some (e', w') \<Longrightarrow> w' = w"
  by (auto simp: ep_feed_def grid_fsm_feed_def grid_ep_shutdown_def split: if_splits bind_splits)

definition grid_ep_term :: "(int \<Rightarrow> 'w \<Rightarrow> 'w) \<Rightarrow> grid_ep \<Rightarrow> 'w \<Rightarrow> 'w option" where
  "grid_ep_term vdestroy e w = do {
     guard (ep_state e = EP_IDLE);
     grid_fsm_term (ep_fsm e);
     Some (vdestroy (ep_eid e) w) }"

definition grid_ep_getaddr :: "grid_ep \<Rightarrow> string" where
  "grid_ep_getaddr e = ep_addr e"

text \<open>Errors of an endpoint are counted in the socket's statistics. Printing them is left out.\<close>

definition grid_ep_set_error :: "int \<Rightarrow> grid_ep \<times> sock_stats \<Rightarrow> (grid_ep \<times> sock_stats) option" where
  "grid_ep_set_error errnum es =
     (let (e, st) = es in
      if ep_last_errno e = errnum then Some (e, st)
      else do {
        st1 \<leftarrow> if ep_last_errno e = 0 then grid_sock_stat_increment STAT_CURRENT_EP_ERRORS 1 st else Some st;
        Some (e\<lparr>ep_last_errno := errnum\<rparr>, st1) })"

definition grid_ep_clear_error :: "grid_ep \<times> sock_stats \<Rightarrow> (grid_ep \<times> sock_stats) option" where
  "grid_ep_clear_error es =
     (let (e, st) = es in
      if ep_last_errno e = 0 then Some (e, st)
      else do {
        st1 \<leftarrow> grid_sock_stat_increment STAT_CURRENT_EP_ERRORS (-1) st;
        Some (e\<lparr>ep_last_errno := 0\<rparr>, st1) })"

section \<open>Integer options as bytes\<close>

text \<open>An \<open>int\<close> in the byte order of the (little-endian) host.\<close>

definition int_bytes :: "int \<Rightarrow> bytes" where
  "int_bytes i = map (\<lambda>k. ucast (drop_bit (8 * k) (of_int i :: u32))) [0..<4]"

definition int_load :: "bytes \<Rightarrow> int" where
  "int_load b = (case grid_getl (rev b) of Some v \<Rightarrow> sint v | None \<Rightarrow> 0)"

lemma length_int_bytes [simp]: "length (int_bytes i) = 4"
  by (simp add: int_bytes_def)

lemma int_load_bytes:
  assumes "- (2 ^ 31) \<le> i" and "i < 2 ^ 31"
  shows "int_load (int_bytes i) = i"
proof -
  have "grid_putl (replicate 4 0) (of_int i) = Some (rev (int_bytes i))"
    by (simp add: grid_putl_def int_bytes_def eval_nat_numeral)
  from grid_getl_putl [OF this] have "grid_getl (rev (int_bytes i)) = Some (of_int i)" .
  with assms show ?thesis by (simp add: int_load_def signed_of_int signed_take_bit_int_eq_self)
qed

end
