(* ===== verification/Sock.thy ===== *)
theory Sock
  imports Ep Pipe
begin

text \<open>
  The generic part of a socket (\<open>src/core/sock.c\<close>, \<open>sockbase.c\<close>, and the event queue of
  \<open>src/aio/ctx.c\<close>). The socket type and the transports live in a world \<open>'w\<close>; the record
  \<open>sock_env\<close> holds their virtual functions: a transport's \<open>stop\<close> gives the pipes that it
  unregisters at once and whether the endpoint has stopped already. Events for the socket's own machines are in
  \<open>sk_events\<close> and are processed when the context is left; readable and writable events of
  pipes are delivered as steps of their own, at any time.
\<close>

section \<open>State\<close>

datatype sock_state = SOCK_INIT | SOCK_ACTIVE | SOCK_ZOMBIE | SOCK_STOPPING_EPS | SOCK_STOPPING | SOCK_FINI

text \<open>
  Queued events: an endpoint's \<open>stopped\<close> event, to the endpoint itself when its transport is
  done and to the socket when the endpoint is; and the socket's own, from its type.
\<close>

datatype ctx_event = EvEpDone int | EvEpStopped int | EvSockStopped

datatype sock_input = IN_START | IN_STOP | IN_ZOMBIFY | IN_STOPPED | IN_EP_STOPPED int | IN_PIPE_IN nat | IN_PIPE_OUT nat

record 'w sock_env =
  st_domain :: int
  st_protocol :: int
  st_nosend :: bool
  st_norecv :: bool
  st_ispeer :: "int \<Rightarrow> bool"
  sb_add :: "nat \<Rightarrow> 'w \<Rightarrow> ((errno + unit) \<times> 'w) option"
  sb_rm :: "nat \<Rightarrow> 'w \<Rightarrow> 'w option"
  sb_in :: "nat \<Rightarrow> 'w \<Rightarrow> 'w option"
  sb_out :: "nat \<Rightarrow> 'w \<Rightarrow> 'w option"
  sb_events :: "'w \<Rightarrow> u32"
  sb_send :: "msg \<Rightarrow> 'w \<Rightarrow> ((errno + unit) \<times> 'w) option"
  sb_recv :: "'w \<Rightarrow> ((errno + msg) \<times> 'w) option"
  sb_setopt :: "int \<Rightarrow> int \<Rightarrow> bytes \<Rightarrow> 'w \<Rightarrow> ((errno + unit) \<times> 'w) option"
  sb_getopt :: "int \<Rightarrow> int \<Rightarrow> nat \<Rightarrow> 'w \<Rightarrow> (errno + bytes \<times> nat) option"
  sb_stop :: "('w \<Rightarrow> (bool \<times> 'w) option) option"
  sb_destroy :: "'w \<Rightarrow> 'w option"
  tp_stop :: "int \<Rightarrow> 'w \<Rightarrow> nat list \<times> bool \<times> 'w"
  tp_destroy :: "int \<Rightarrow> 'w \<Rightarrow> 'w"
  tp_optset :: "int \<Rightarrow> bool"
  os_setopt :: "int \<Rightarrow> int \<Rightarrow> bytes \<Rightarrow> 'w \<Rightarrow> (errno + unit) \<times> 'w"
  os_getopt :: "int \<Rightarrow> int \<Rightarrow> nat \<Rightarrow> 'w \<Rightarrow> errno + bytes \<times> nat"

text \<open>\<open>sk_in\<close> and \<open>sk_out\<close> are the bits of \<open>flags\<close>; semaphores are their counts.\<close>

record grid_sock =
  sk_fsm :: grid_fsm
  sk_state :: sock_state
  sk_in :: bool
  sk_out :: bool
  sk_sndfd :: grid_efd
  sk_rcvfd :: grid_efd
  sk_termsem :: nat
  sk_relesem :: nat
  sk_eps :: "grid_ep list"
  sk_sdeps :: "grid_ep list"
  sk_eid :: int
  sk_holds :: int
  sk_linger :: int
  sk_sndbuf :: int
  sk_rcvbuf :: int
  sk_rcvmaxsize :: int
  sk_sndtimeo :: int
  sk_rcvtimeo :: int
  sk_reconnect_ivl :: int
  sk_reconnect_ivl_max :: int
  sk_template :: grid_ep_options
  sk_optsets :: "bool list"
  sk_stats :: sock_stats
  sk_name :: string
  sk_events :: "ctx_event list"

definition GRID_MAX_TRANSPORT :: nat where "GRID_MAX_TRANSPORT = 4"

section \<open>Signalling\<close>

text \<open>What happens when the context is left (\<open>grid_sock_onleave\<close>), for one of the two descriptors.\<close>

definition adjust_efd :: "bool \<Rightarrow> bool \<times> grid_efd \<Rightarrow> (bool \<times> grid_efd) option" where
  "adjust_efd want fe =
     (let (flag, e) = fe in
      if want then Some (if \<not> flag then (True, grid_efd_signal e) else (flag, e))
      else if flag then map_option (\<lambda>e1. (False, e1)) (grid_efd_unsignal e) else Some (flag, e))"

definition grid_sock_onleave :: "'w sock_env \<Rightarrow> grid_sock \<times> 'w \<Rightarrow> (grid_sock \<times> 'w) option" where
  "grid_sock_onleave V sw =
     (let (s, w) = sw in
      if sk_state s \<noteq> SOCK_ACTIVE then Some (s, w)
      else do {
        let events = sb_events V w;
        (fi, ei) \<leftarrow> if st_norecv V then Some (sk_in s, sk_rcvfd s)
                    else adjust_efd (events AND GRID_SOCKBASE_EVENT_IN \<noteq> 0) (sk_in s, sk_rcvfd s);
        (fo, eo) \<leftarrow> if st_nosend V then Some (sk_out s, sk_sndfd s)
                    else adjust_efd (events AND GRID_SOCKBASE_EVENT_OUT \<noteq> 0) (sk_out s, sk_sndfd s);
        Some (s\<lparr>sk_in := fi, sk_rcvfd := ei, sk_out := fo, sk_sndfd := eo\<rparr>, w) })"

definition grid_sock_action_zombify :: "'w sock_env \<Rightarrow> grid_sock \<Rightarrow> grid_sock" where
  "grid_sock_action_zombify V s =
     (let s0 = s\<lparr>sk_state := SOCK_ZOMBIE\<rparr>;
          s1 = (if \<not> sk_in s0 then
                  (let t = s0\<lparr>sk_in := True\<rparr> in
                   if \<not> st_norecv V then t\<lparr>sk_rcvfd := grid_efd_signal (sk_rcvfd t)\<rparr> else t)
                else s0)
      in if \<not> sk_out s1 then
           (let t = s1\<lparr>sk_out := True\<rparr> in
            if \<not> st_nosend V then t\<lparr>sk_sndfd := grid_efd_signal (sk_sndfd t)\<rparr> else t)
         else s1)"

section \<open>Endpoints of the socket\<close>

text \<open>Endpoints are found by their id; \<open>raise_ep\<close> queues the events an endpoint has raised.\<close>

definition find_ep :: "int \<Rightarrow> grid_sock \<Rightarrow> grid_ep option" where
  "find_ep i s = find (\<lambda>e. ep_eid e = i) (sk_eps s @ sk_sdeps s)"

definition put_ep :: "grid_ep \<Rightarrow> grid_sock \<Rightarrow> grid_sock" where
  "put_ep e s = s\<lparr>sk_eps := map (\<lambda>x. if ep_eid x = ep_eid e then e else x) (sk_eps s),
     sk_sdeps := map (\<lambda>x. if ep_eid x = ep_eid e then e else x) (sk_sdeps s)\<rparr>"

definition push_event :: "ctx_event \<Rightarrow> grid_sock \<Rightarrow> grid_sock" where
  "push_event ev s = s\<lparr>sk_events := sk_events s @ [ev]\<rparr>"

text \<open>The transport's \<open>stop\<close>, which unregisters pipes.\<close>

definition count_connection :: "int \<Rightarrow> grid_sock \<Rightarrow> grid_sock option" where
  "count_connection inc s = map_option (\<lambda>st. s\<lparr>sk_stats := st\<rparr>) (grid_sock_stat_increment STAT_CURRENT_CONNECTIONS inc (sk_stats s))"

definition grid_sock_rm :: "'w sock_env \<Rightarrow> nat \<Rightarrow> grid_sock \<times> 'w \<Rightarrow> (grid_sock \<times> 'w) option" where
  "grid_sock_rm V p sw =
     (let (s, w) = sw in do {
        w1 \<leftarrow> sb_rm V p w;
        s1 \<leftarrow> count_connection (-1) s;
        Some (s1, w1) })"

fun rm_pipes :: "'w sock_env \<Rightarrow> nat list \<Rightarrow> grid_sock \<times> 'w \<Rightarrow> (grid_sock \<times> 'w) option" where
  "rm_pipes V [] sw = Some sw"
| "rm_pipes V (p # ps) sw = Option.bind (grid_sock_rm V p sw) (rm_pipes V ps)"

definition epbase_stop :: "'w sock_env \<Rightarrow> int \<Rightarrow> grid_sock \<times> 'w \<Rightarrow> (bool \<times> grid_sock \<times> 'w) option" where
  "epbase_stop V i sw =
     (let (ps, now, w1) = tp_stop V i (snd sw)
      in map_option (\<lambda>sw1. (now, sw1)) (rm_pipes V ps (fst sw, w1)))"

text \<open>The endpoint moves to the list of those being shut down, and is asked to stop.\<close>

definition shut_ep :: "'w sock_env \<Rightarrow> grid_ep \<Rightarrow> grid_sock \<times> 'w \<Rightarrow> (grid_sock \<times> 'w) option" where
  "shut_ep V e sw =
     (let (s, w) = sw in do {
        guard (e \<in> set (sk_eps s));
        (e1, s1, w1) \<leftarrow> grid_ep_stop (epbase_stop V)
          (e, s\<lparr>sk_eps := remove1 e (sk_eps s), sk_sdeps := sk_sdeps s @ [e]\<rparr>, w);
        let s2 = put_ep e1 s1;
        Some (if fs_stopped (ep_fsm e1) \<and> \<not> fs_stopped (ep_fsm e) then push_event (EvEpDone (ep_eid e)) s2 else s2, w1) })"

fun shut_eps :: "'w sock_env \<Rightarrow> grid_ep list \<Rightarrow> grid_sock \<times> 'w \<Rightarrow> (grid_sock \<times> 'w) option" where
  "shut_eps V [] sw = Some sw"
| "shut_eps V (e # es) sw = Option.bind (shut_ep V e sw) (shut_eps V es)"

text \<open>A stopped endpoint is taken off its list and destroyed.\<close>

definition free_ep :: "'w sock_env \<Rightarrow> int \<Rightarrow> grid_sock \<times> 'w \<Rightarrow> (grid_sock \<times> 'w) option" where
  "free_ep V i sw =
     (let (s, w) = sw in do {
        e \<leftarrow> find (\<lambda>e. ep_eid e = i) (sk_sdeps s);
        w1 \<leftarrow> grid_ep_term (tp_destroy V) e w;
        Some (s\<lparr>sk_sdeps := remove1 e (sk_sdeps s)\<rparr>, w1) })"

section \<open>The state machine\<close>

definition grid_sock_stopped :: "grid_sock \<Rightarrow> grid_sock option" where
  "grid_sock_stopped s = do {
     guard (\<not> fs_stopped (sk_fsm s));
     Some (push_event EvSockStopped (s\<lparr>sk_fsm := (sk_fsm s)\<lparr>fs_stopped := True\<rparr>\<rparr>)) }"

text \<open>The tails of the shutdown function, at the labels \<open>finish1\<close> and \<open>finish2\<close>.\<close>

definition shutdown_finish1 :: "'w sock_env \<Rightarrow> grid_sock \<times> 'w \<Rightarrow> (grid_sock \<times> 'w) option" where
  "shutdown_finish1 V sw =
     (let (s, w) = sw in do {
        w1 \<leftarrow> sb_destroy V w;
        let s1 = s\<lparr>sk_state := SOCK_FINI\<rparr>;
        let s2 = (if \<not> st_norecv V then s1\<lparr>sk_rcvfd := grid_efd_term (sk_rcvfd s1)\<rparr> else s1);
        let s3 = (if \<not> st_nosend V then s2\<lparr>sk_sndfd := grid_efd_term (sk_sndfd s2)\<rparr> else s2);
        Some (s3\<lparr>sk_termsem := sk_termsem s3 + 1\<rparr>, w1) })"

definition shutdown_finish2 :: "'w sock_env \<Rightarrow> grid_sock \<times> 'w \<Rightarrow> (grid_sock \<times> 'w) option" where
  "shutdown_finish2 V sw =
     (let (s, w) = sw in
      if sk_sdeps s \<noteq> [] then Some (s, w)
      else do {
        guard (sk_eps s = []);
        let s1 = s\<lparr>sk_state := SOCK_STOPPING\<rparr>;
        case sb_stop V of
          None \<Rightarrow> shutdown_finish1 V (s1, w)
        | Some stop \<Rightarrow> do {
            (now, w1) \<leftarrow> stop w;
            s2 \<leftarrow> if now then grid_sock_stopped s1 else Some s1;
            Some (s2, w1) } })"

definition grid_sock_shutdown :: "'w sock_env \<Rightarrow> sock_input \<Rightarrow> grid_sock \<times> 'w \<Rightarrow> (grid_sock \<times> 'w) option" where
  "grid_sock_shutdown V i sw =
     (let (s, w) = sw in
      if i = IN_STOP then do {
        guard (sk_state s = SOCK_ACTIVE \<or> sk_state s = SOCK_ZOMBIE);
        let s1 = (if \<not> st_norecv V then s\<lparr>sk_rcvfd := grid_efd_stop (sk_rcvfd s)\<rparr> else s);
        let s2 = (if \<not> st_nosend V then s1\<lparr>sk_sndfd := grid_efd_stop (sk_sndfd s1)\<rparr> else s1);
        (s3, w1) \<leftarrow> shut_eps V (sk_eps s2) (s2, w);
        shutdown_finish2 V (s3\<lparr>sk_state := SOCK_STOPPING_EPS\<rparr>, w1) }
      else if sk_state s = SOCK_STOPPING_EPS then
        (case i of
           IN_EP_STOPPED e \<Rightarrow> Option.bind (free_ep V e (s, w)) (shutdown_finish2 V)
         | _ \<Rightarrow> Some (s, w))
      else if sk_state s = SOCK_STOPPING then do { guard (i = IN_STOPPED); shutdown_finish1 V (s, w) }
      else None)"

definition grid_sock_handler :: "'w sock_env \<Rightarrow> sock_input \<Rightarrow> grid_sock \<times> 'w \<Rightarrow> (grid_sock \<times> 'w) option" where
  "grid_sock_handler V i sw =
     (let (s, w) = sw in
      case sk_state s of
        SOCK_INIT \<Rightarrow>
          (case i of
             IN_START \<Rightarrow> Some (s\<lparr>sk_state := SOCK_ACTIVE\<rparr>, w)
           | IN_ZOMBIFY \<Rightarrow> Some (grid_sock_action_zombify V s, w)
           | _ \<Rightarrow> None)
      | SOCK_ACTIVE \<Rightarrow>
          (case i of
             IN_ZOMBIFY \<Rightarrow> Some (grid_sock_action_zombify V s, w)
           | IN_EP_STOPPED e \<Rightarrow> free_ep V e (s, w)
           | IN_PIPE_IN p \<Rightarrow> map_option (\<lambda>w1. (s, w1)) (sb_in V p w)
           | IN_PIPE_OUT p \<Rightarrow> map_option (\<lambda>w1. (s, w1)) (sb_out V p w)
           | _ \<Rightarrow> None)
      | _ \<Rightarrow> None)"

definition sock_feed :: "'w sock_env \<Rightarrow> sock_input \<Rightarrow> grid_sock \<times> 'w \<Rightarrow> (grid_sock \<times> 'w) option" where
  "sock_feed V i sw = grid_fsm_feed (sk_fsm \<circ> fst) (grid_sock_handler V) (grid_sock_shutdown V) i sw"

definition sock_fsm_update :: "(grid_fsm \<Rightarrow> grid_fsm) \<Rightarrow> grid_sock \<times> 'w \<Rightarrow> grid_sock \<times> 'w" where
  "sock_fsm_update f sw = ((fst sw)\<lparr>sk_fsm := f (sk_fsm (fst sw))\<rparr>, snd sw)"

section \<open>Leaving the context\<close>

text \<open>One event is handed to the machine it is for (\<open>grid_fsm_event_process\<close>).\<close>

definition process_event :: "'w sock_env \<Rightarrow> ctx_event \<Rightarrow> grid_sock \<times> 'w \<Rightarrow> (grid_sock \<times> 'w) option" where
  "process_event V ev sw =
     (let (s, w) = sw in
      case ev of
        EvEpDone i \<Rightarrow> do {
          e \<leftarrow> find_ep i s;
          (e1, s1, w1) \<leftarrow> ep_feed (epbase_stop V) EP_DONE (e\<lparr>ep_fsm := stopped_delivered (ep_fsm e)\<rparr>, s, w);
          Some (if fs_stopped (ep_fsm e1) then push_event (EvEpStopped i) (put_ep e1 s1) else put_ep e1 s1, w1) }
      | EvEpStopped i \<Rightarrow> do {
          e \<leftarrow> find_ep i s;
          sock_feed V (IN_EP_STOPPED i) (put_ep (e\<lparr>ep_fsm := stopped_delivered (ep_fsm e)\<rparr>) s, w) }
      | EvSockStopped \<Rightarrow> sock_feed V IN_STOPPED (sock_fsm_update stopped_delivered (s, w)))"

text \<open>
  Events raise events only up the ownership of the machines, so the queue runs empty. The weight of
  the queue bounds the number of events processed.
\<close>

fun event_weight :: "ctx_event \<Rightarrow> nat" where
  "event_weight (EvEpDone i) = 4"
| "event_weight (EvEpStopped i) = 2"
| "event_weight EvSockStopped = 1"

definition queue_weight :: "grid_sock \<Rightarrow> nat" where
  "queue_weight s = sum_list (map event_weight (sk_events s))"

lemma push_event_simps [simp]:
  "sk_events (push_event ev s) = sk_events s @ [ev]" "sk_fsm (push_event ev s) = sk_fsm s"
  "sk_eps (push_event ev s) = sk_eps s" "sk_sdeps (push_event ev s) = sk_sdeps s"
  "sk_state (push_event ev s) = sk_state s"
  by (simp_all add: push_event_def)

lemma put_ep_simps [simp]:
  "sk_events (put_ep e s) = sk_events s" "sk_fsm (put_ep e s) = sk_fsm s" "sk_state (put_ep e s) = sk_state s"
  by (simp_all add: put_ep_def)

lemma queue_weight_push [simp]: "queue_weight (push_event ev s) = queue_weight s + event_weight ev"
  by (simp add: queue_weight_def)

lemma finish1_events: "shutdown_finish1 V (s, w) = Some (s', w') \<Longrightarrow> sk_events s' = sk_events s"
  by (auto simp: shutdown_finish1_def Let_def split: bind_splits)

lemma finish2_weight:
  "shutdown_finish2 V (s, w) = Some (s', w') \<Longrightarrow> queue_weight s' \<le> queue_weight s + 1"
  by (auto simp: shutdown_finish2_def grid_sock_stopped_def queue_weight_def Let_def dest!: finish1_events
      split: if_splits option.splits bind_splits)

lemma free_ep_events: "free_ep V i (s, w) = Some (s', w') \<Longrightarrow> sk_events s' = sk_events s"
  by (auto simp: free_ep_def split: bind_splits)

lemma feed_stopped_weight:
  assumes "sock_feed V i (s, w) = Some (s', w')" and "i = IN_STOPPED \<or> (\<exists>e. i = IN_EP_STOPPED e)"
  shows "queue_weight s' \<le> queue_weight s + (if i = IN_STOPPED then 0 else 1)"
  using assms(2)
proof (elim disjE exE)
  assume i: "i = IN_STOPPED"
  show ?thesis using assms(1) unfolding i
    by (auto simp: sock_feed_def grid_fsm_feed_def grid_sock_handler_def grid_sock_shutdown_def queue_weight_def
        dest!: finish1_events split: if_splits sock_state.splits)
next
  fix e assume i: "i = IN_EP_STOPPED e"
  have "queue_weight s' \<le> queue_weight s1 + 1 \<and> queue_weight s1 = queue_weight s"
    if "free_ep V e (s, w) = Some (s1, w1)" "shutdown_finish2 V (s1, w1) = Some (s', w')" for s1 w1
    using finish2_weight [OF that(2)] free_ep_events [OF that(1)] by (simp add: queue_weight_def)
  then show ?thesis using assms(1) unfolding i
    by (auto simp: sock_feed_def grid_fsm_feed_def grid_sock_handler_def grid_sock_shutdown_def queue_weight_def
        dest!: free_ep_events split: if_splits sock_state.splits bind_splits)
qed

lemma process_event_weight:
  assumes "process_event V ev (s, w) = Some (s', w')"
  shows "queue_weight s' < queue_weight s + event_weight ev"
proof (cases ev)
  case (EvEpDone i)
  with assms show ?thesis
    by (auto simp: process_event_def queue_weight_def dest!: ep_feed_done split: bind_splits if_splits)
next
  case (EvEpStopped i)
  with assms obtain e where
    "sock_feed V (IN_EP_STOPPED i) (put_ep (e\<lparr>ep_fsm := stopped_delivered (ep_fsm e)\<rparr>) s, w) = Some (s', w')"
    by (auto simp: process_event_def split: bind_splits)
  from feed_stopped_weight [OF this] EvEpStopped show ?thesis by (simp add: queue_weight_def)
next
  case EvSockStopped
  with assms have "sock_feed V IN_STOPPED (sock_fsm_update stopped_delivered (s, w)) = Some (s', w')"
    by (simp add: process_event_def)
  then have "sock_feed V IN_STOPPED (s\<lparr>sk_fsm := stopped_delivered (sk_fsm s)\<rparr>, w) = Some (s', w')"
    by (simp add: sock_fsm_update_def)
  from feed_stopped_weight [OF this] EvSockStopped show ?thesis by (simp add: queue_weight_def)
qed

function process_events :: "'w sock_env \<Rightarrow> grid_sock \<times> 'w \<Rightarrow> (grid_sock \<times> 'w) option" where
  "process_events V (s, w) =
     (case sk_events s of
        [] \<Rightarrow> Some (s, w)
      | ev # evs \<Rightarrow>
          (case process_event V ev (s\<lparr>sk_events := evs\<rparr>, w) of
             None \<Rightarrow> None
           | Some sw \<Rightarrow> process_events V sw))"
  by pat_completeness auto

termination
proof (relation "measure (\<lambda>(V, s, w). queue_weight s)")
  fix V :: "'w sock_env" and s :: grid_sock and w :: 'w and ev evs sw
  assume a: "sk_events s = ev # evs" "process_event V ev (s\<lparr>sk_events := evs\<rparr>, w) = Some sw"
  obtain s' w' where sw: "sw = (s', w')" by (cases sw)
  have "queue_weight s' < queue_weight (s\<lparr>sk_events := evs\<rparr>) + event_weight ev"
    using process_event_weight a(2) unfolding sw .
  with a(1) sw show "((V, sw), V, s, w) \<in> measure (\<lambda>(V, s, w). queue_weight s)"
    by (simp add: queue_weight_def)
qed simp

declare process_events.simps [simp del]

definition grid_ctx_leave :: "'w sock_env \<Rightarrow> grid_sock \<times> 'w \<Rightarrow> (grid_sock \<times> 'w) option" where
  "grid_ctx_leave V sw = Option.bind (process_events V sw) (grid_sock_onleave V)"

text \<open>An action under the context's lock, as the API functions run it.\<close>

definition in_ctx ::
  "'w sock_env \<Rightarrow> (grid_sock \<times> 'w \<Rightarrow> (grid_sock \<times> 'w) option) \<Rightarrow> grid_sock \<times> 'w \<Rightarrow> (grid_sock \<times> 'w) option" where
  "in_ctx V f sw = Option.bind (f sw) (grid_ctx_leave V)"

section \<open>Starting and stopping\<close>

text \<open>
  \<open>efds\<close> are the results of the operating system for the two descriptors, \<open>create\<close> creates the
  specific socket type in the world. A descriptor that is not used holds garbage: it is closed here.
\<close>

definition closed_efd :: grid_efd where
  "closed_efd = \<lparr>ef_fd = -1, ef_count = 0\<rparr>"

definition sock_defaults :: "string \<Rightarrow> grid_efd \<Rightarrow> grid_efd \<Rightarrow> grid_sock" where
  "sock_defaults name sfd rfd = \<lparr>sk_fsm = grid_fsm_init, sk_state = SOCK_INIT, sk_in = False, sk_out = False,
     sk_sndfd = sfd, sk_rcvfd = rfd, sk_termsem = 0, sk_relesem = 0, sk_eps = [], sk_sdeps = [], sk_eid = 1,
     sk_holds = 1, sk_linger = 1000, sk_sndbuf = 128 * 1024, sk_rcvbuf = 128 * 1024, sk_rcvmaxsize = 1024 * 1024,
     sk_sndtimeo = -1, sk_rcvtimeo = -1, sk_reconnect_ivl = 100, sk_reconnect_ivl_max = 0,
     sk_template = \<lparr>ep_sndprio = 8, ep_rcvprio = 8, ep_ipv4only = 1\<rparr>,
     sk_optsets = replicate GRID_MAX_TRANSPORT False, sk_stats = stats_init, sk_name = name, sk_events = []\<rparr>"

definition grid_sock_init ::
  "'w sock_env \<Rightarrow> (errno + nat) \<times> (errno + nat) \<Rightarrow> string \<Rightarrow> ('w \<Rightarrow> 'w option) \<Rightarrow> 'w
     \<Rightarrow> (errno + grid_sock \<times> 'w) option" where
  "grid_sock_init V efds name create w = do {
     guard (\<not> st_nosend V \<or> \<not> st_norecv V);
     case (if st_nosend V then Inr closed_efd else grid_efd_init (fst efds)) of
       Inl e \<Rightarrow> Some (Inl e)
     | Inr sfd \<Rightarrow>
         (case (if st_norecv V then Inr closed_efd else grid_efd_init (snd efds)) of
            Inl e \<Rightarrow> Some (Inl e)
          | Inr rfd \<Rightarrow> do {
              w1 \<leftarrow> create w;
              sw \<leftarrow> in_ctx V (grid_fsm_start (sk_fsm \<circ> fst) sock_fsm_update (grid_sock_handler V IN_START))
                      (sock_defaults name sfd rfd, w1);
              Some (Inr sw) }) }"

definition grid_sock_zombify :: "'w sock_env \<Rightarrow> grid_sock \<times> 'w \<Rightarrow> (grid_sock \<times> 'w) option" where
  "grid_sock_zombify V = in_ctx V (sock_feed V IN_ZOMBIFY)"

definition grid_sock_stop :: "'w sock_env \<Rightarrow> grid_sock \<times> 'w \<Rightarrow> (grid_sock \<times> 'w) option" where
  "grid_sock_stop V = in_ctx V (grid_fsm_stop (sk_fsm \<circ> fst) sock_fsm_update (grid_sock_shutdown V IN_STOP))"

text \<open>
  Termination blocks (\<open>Blocked\<close>) until both semaphores have been posted. Then the context is
  entered and left once, and everything is destroyed.
\<close>

datatype 'a waiting = Blocked | Ran 'a

definition grid_sock_term :: "'w sock_env \<Rightarrow> grid_sock \<times> 'w \<Rightarrow> unit option waiting" where
  "grid_sock_term V sw =
     (if sk_termsem (fst sw) = 0 \<or> sk_relesem (fst sw) = 0 then Blocked
      else Ran (do {
        (s, w) \<leftarrow> grid_ctx_leave V sw;
        f \<leftarrow> grid_fsm_stopped_noevent (sk_fsm s);
        grid_fsm_term f;
        guard (sk_sdeps s = []);
        guard (sk_eps s = []);
        guard (sk_events s = []) }))"

definition grid_sock_hold :: "grid_sock \<Rightarrow> (errno + unit) \<times> grid_sock" where
  "grid_sock_hold s =
     (case sk_state s of
        SOCK_ACTIVE \<Rightarrow> (Inr (), s\<lparr>sk_holds := sk_holds s + 1\<rparr>)
      | SOCK_INIT \<Rightarrow> (Inr (), s\<lparr>sk_holds := sk_holds s + 1\<rparr>)
      | SOCK_ZOMBIE \<Rightarrow> (Inl ETERM, s)
      | _ \<Rightarrow> (Inl EBADF, s))"

definition grid_sock_rele :: "grid_sock \<Rightarrow> grid_sock" where
  "grid_sock_rele s =
     (let s1 = s\<lparr>sk_holds := sk_holds s - 1\<rparr>
      in if sk_holds s1 = 0 then s1\<lparr>sk_relesem := sk_relesem s1 + 1\<rparr> else s1)"

section \<open>Pipes\<close>

text \<open>The protocol is the high 12 bits of the type; then the socket type itself decides.\<close>

definition grid_sock_ispeer :: "'w sock_env \<Rightarrow> int \<Rightarrow> bool" where
  "grid_sock_ispeer V socktype =
     (if st_protocol V AND 0xfff0 \<noteq> socktype AND 0xfff0 then False else st_ispeer V socktype)"

definition grid_sock_add :: "'w sock_env \<Rightarrow> nat \<Rightarrow> grid_sock \<times> 'w \<Rightarrow> ((errno + unit) \<times> grid_sock \<times> 'w) option" where
  "grid_sock_add V p sw =
     (let (s, w) = sw in do {
        (rc, w1) \<leftarrow> sb_add V p w;
        case rc of
          Inl e \<Rightarrow> Some (Inl e, s, w1)
        | Inr u \<Rightarrow> map_option (\<lambda>s1. (Inr (), s1, w1)) (count_connection 1 s) })"

section \<open>Options\<close>

definition GRID_SOL_SOCKET :: int where "GRID_SOL_SOCKET = 0"
definition GRID_LINGER :: int where "GRID_LINGER = 1"
definition GRID_SNDBUF :: int where "GRID_SNDBUF = 2"
definition GRID_RCVBUF :: int where "GRID_RCVBUF = 3"
definition GRID_SNDTIMEO :: int where "GRID_SNDTIMEO = 4"
definition GRID_RCVTIMEO :: int where "GRID_RCVTIMEO = 5"
definition GRID_RECONNECT_IVL :: int where "GRID_RECONNECT_IVL = 6"
definition GRID_RECONNECT_IVL_MAX :: int where "GRID_RECONNECT_IVL_MAX = 7"
definition GRID_SNDPRIO :: int where "GRID_SNDPRIO = 8"
definition GRID_RCVPRIO :: int where "GRID_RCVPRIO = 9"
definition GRID_SNDFD :: int where "GRID_SNDFD = 10"
definition GRID_RCVFD :: int where "GRID_RCVFD = 11"
definition GRID_DOMAIN :: int where "GRID_DOMAIN = 12"
definition GRID_PROTOCOL :: int where "GRID_PROTOCOL = 13"
definition GRID_IPV4ONLY :: int where "GRID_IPV4ONLY = 14"
definition GRID_SOCKET_NAME :: int where "GRID_SOCKET_NAME = 15"
definition GRID_RCVMAXSIZE :: int where "GRID_RCVMAXSIZE = 16"

lemmas option_ids = GRID_LINGER_def GRID_SNDBUF_def GRID_RCVBUF_def GRID_SNDTIMEO_def GRID_RCVTIMEO_def
  GRID_RECONNECT_IVL_def GRID_RECONNECT_IVL_MAX_def GRID_SNDPRIO_def GRID_RCVPRIO_def GRID_SNDFD_def
  GRID_RCVFD_def GRID_DOMAIN_def GRID_PROTOCOL_def GRID_IPV4ONLY_def GRID_SOCKET_NAME_def GRID_RCVMAXSIZE_def

text \<open>The option set of a transport, created when it is first used.\<close>

definition grid_sock_optset :: "'w sock_env \<Rightarrow> int \<Rightarrow> grid_sock \<Rightarrow> bool \<times> grid_sock" where
  "grid_sock_optset V tid s =
     (let index = - tid - 1 in
      if index < 0 \<or> index \<ge> int GRID_MAX_TRANSPORT then (False, s)
      else if sk_optsets s ! nat index then (True, s)
      else if \<not> tp_optset V tid then (False, s)
      else (True, s\<lparr>sk_optsets := (sk_optsets s)[nat index := True]\<rparr>))"

text \<open>Bytes as the characters of a C string, which ends at a zero byte.\<close>

definition chars_of :: "bytes \<Rightarrow> string" where
  "chars_of b = takeWhile (\<lambda>c. c \<noteq> CHR 0x00) (map (\<lambda>x. char_of (unat x)) b)"

definition bytes_of :: "string \<Rightarrow> bytes" where
  "bytes_of s = map (\<lambda>c. of_nat (of_char c)) s"

definition set_int_option :: "int \<Rightarrow> int \<Rightarrow> grid_sock \<Rightarrow> errno + grid_sock" where
  "set_int_option opt val s =
     (let tmpl = sk_template s in
      if opt = GRID_LINGER then Inr (s\<lparr>sk_linger := val\<rparr>)
      else if opt = GRID_SNDBUF then (if val \<le> 0 then Inl EINVAL else Inr (s\<lparr>sk_sndbuf := val\<rparr>))
      else if opt = GRID_RCVBUF then (if val \<le> 0 then Inl EINVAL else Inr (s\<lparr>sk_rcvbuf := val\<rparr>))
      else if opt = GRID_RCVMAXSIZE then (if val < -1 then Inl EINVAL else Inr (s\<lparr>sk_rcvmaxsize := val\<rparr>))
      else if opt = GRID_SNDTIMEO then Inr (s\<lparr>sk_sndtimeo := val\<rparr>)
      else if opt = GRID_RCVTIMEO then Inr (s\<lparr>sk_rcvtimeo := val\<rparr>)
      else if opt = GRID_RECONNECT_IVL then (if val < 0 then Inl EINVAL else Inr (s\<lparr>sk_reconnect_ivl := val\<rparr>))
      else if opt = GRID_RECONNECT_IVL_MAX then (if val < 0 then Inl EINVAL else Inr (s\<lparr>sk_reconnect_ivl_max := val\<rparr>))
      else if opt = GRID_SNDPRIO then
        (if val < 1 \<or> val > 16 then Inl EINVAL else Inr (s\<lparr>sk_template := tmpl\<lparr>ep_sndprio := val\<rparr>\<rparr>))
      else if opt = GRID_RCVPRIO then
        (if val < 1 \<or> val > 16 then Inl EINVAL else Inr (s\<lparr>sk_template := tmpl\<lparr>ep_rcvprio := val\<rparr>\<rparr>))
      else if opt = GRID_IPV4ONLY then
        (if val \<noteq> 0 \<and> val \<noteq> 1 then Inl EINVAL else Inr (s\<lparr>sk_template := tmpl\<lparr>ep_ipv4only := val\<rparr>\<rparr>))
      else Inl ENOPROTOOPT)"

definition grid_sock_setopt_inner ::
  "'w sock_env \<Rightarrow> int \<Rightarrow> int \<Rightarrow> bytes \<Rightarrow> grid_sock \<times> 'w \<Rightarrow> ((errno + unit) \<times> grid_sock \<times> 'w) option" where
  "grid_sock_setopt_inner V level opt optval sw =
     (let (s, w) = sw in
      if level > GRID_SOL_SOCKET then
        map_option (\<lambda>(rc, w1). (rc, s, w1)) (sb_setopt V level opt optval w)
      else if level < GRID_SOL_SOCKET then
        (let (found, s1) = grid_sock_optset V level s in
         if \<not> found then Some (Inl ENOPROTOOPT, s1, w)
         else (let (rc, w1) = os_setopt V level opt optval w in Some (rc, s1, w1)))
      else if opt = GRID_SOCKET_NAME then
        (if length optval > 63 then Some (Inl EINVAL, s, w)
         else Some (Inr (), s\<lparr>sk_name := chars_of optval\<rparr>, w))
      else if length optval \<noteq> 4 then Some (Inl EINVAL, s, w)
      else (case set_int_option opt (int_load optval) s of
              Inl e \<Rightarrow> Some (Inl e, s, w)
            | Inr s1 \<Rightarrow> Some (Inr (), s1, w)))"

definition grid_sock_setopt ::
  "'w sock_env \<Rightarrow> int \<Rightarrow> int \<Rightarrow> bytes \<Rightarrow> grid_sock \<times> 'w \<Rightarrow> ((errno + unit) \<times> grid_sock \<times> 'w) option" where
  "grid_sock_setopt V level opt optval sw =
     (if sk_state (fst sw) = SOCK_ZOMBIE then map_option (\<lambda>sw1. (Inl ETERM, sw1)) (grid_ctx_leave V sw)
      else do {
        (rc, sw1) \<leftarrow> grid_sock_setopt_inner V level opt optval sw;
        sw2 \<leftarrow> grid_ctx_leave V sw1;
        Some (rc, sw2) })"

definition get_int_option :: "'w sock_env \<Rightarrow> int \<Rightarrow> grid_sock \<Rightarrow> int option" where
  "get_int_option V opt s =
     (if opt = GRID_DOMAIN then Some (st_domain V)
      else if opt = GRID_PROTOCOL then Some (st_protocol V)
      else if opt = GRID_LINGER then Some (sk_linger s)
      else if opt = GRID_SNDBUF then Some (sk_sndbuf s)
      else if opt = GRID_RCVBUF then Some (sk_rcvbuf s)
      else if opt = GRID_RCVMAXSIZE then Some (sk_rcvmaxsize s)
      else if opt = GRID_SNDTIMEO then Some (sk_sndtimeo s)
      else if opt = GRID_RCVTIMEO then Some (sk_rcvtimeo s)
      else if opt = GRID_RECONNECT_IVL then Some (sk_reconnect_ivl s)
      else if opt = GRID_RECONNECT_IVL_MAX then Some (sk_reconnect_ivl_max s)
      else if opt = GRID_SNDPRIO then Some (ep_sndprio (sk_template s))
      else if opt = GRID_RCVPRIO then Some (ep_rcvprio (sk_template s))
      else if opt = GRID_IPV4ONLY then Some (ep_ipv4only (sk_template s))
      else None)"

text \<open>
  The results are the bytes written into the buffer of \<open>len\<close> bytes and the new length.
  \<open>strncpy\<close> fills the rest of the buffer with zeros.
\<close>

definition grid_sock_getopt_inner ::
  "'w sock_env \<Rightarrow> int \<Rightarrow> int \<Rightarrow> nat \<Rightarrow> grid_sock \<times> 'w \<Rightarrow> ((errno + bytes \<times> nat) \<times> grid_sock) option" where
  "grid_sock_getopt_inner V level opt len sw =
     (let (s, w) = sw in
      if level = GRID_SOL_SOCKET then
        (if opt = GRID_SNDFD then
           (if st_nosend V then Some (Inl ENOPROTOOPT, s)
            else Some (Inr (take len (int_bytes (grid_efd_getfd (sk_sndfd s))), 4), s))
         else if opt = GRID_RCVFD then
           (if st_norecv V then Some (Inl ENOPROTOOPT, s)
            else Some (Inr (take len (int_bytes (grid_efd_getfd (sk_rcvfd s))), 4), s))
         else if opt = GRID_SOCKET_NAME then
           Some (Inr (take len (bytes_of (sk_name s) @ replicate len 0), length (sk_name s)), s)
         else (case get_int_option V opt s of
                 None \<Rightarrow> Some (Inl ENOPROTOOPT, s)
               | Some v \<Rightarrow> Some (Inr (take len (int_bytes v), 4), s)))
      else if level > GRID_SOL_SOCKET then map_option (\<lambda>r. (r, s)) (sb_getopt V level opt len w)
      else (let (found, s1) = grid_sock_optset V level s in
            if \<not> found then Some (Inl ENOPROTOOPT, s1) else Some (os_getopt V level opt len w, s1)))"

definition grid_sock_getopt ::
  "'w sock_env \<Rightarrow> int \<Rightarrow> int \<Rightarrow> nat \<Rightarrow> grid_sock \<times> 'w \<Rightarrow> ((errno + bytes \<times> nat) \<times> grid_sock \<times> 'w) option" where
  "grid_sock_getopt V level opt len sw =
     (if sk_state (fst sw) = SOCK_ZOMBIE then map_option (\<lambda>sw1. (Inl ETERM, sw1)) (grid_ctx_leave V sw)
      else do {
        (rc, s1) \<leftarrow> grid_sock_getopt_inner V level opt len sw;
        sw2 \<leftarrow> grid_ctx_leave V (s1, snd sw);
        Some (rc, sw2) })"

section \<open>Adding and removing endpoints\<close>

definition grid_sock_add_ep ::
  "'w sock_env \<Rightarrow> (int \<Rightarrow> string \<Rightarrow> 'w \<Rightarrow> (errno + unit) \<times> 'w) \<Rightarrow> string \<Rightarrow> grid_sock \<times> 'w
     \<Rightarrow> ((errno + int) \<times> grid_sock \<times> 'w) option" where
  "grid_sock_add_ep V create addr sw =
     (let (s, w) = sw in do {
        (rc, w1) \<leftarrow> grid_ep_init create (sk_template s) (sk_eid s) addr w;
        case rc of
          Inl e \<Rightarrow> map_option (\<lambda>sw1. (Inl e, sw1)) (grid_ctx_leave V (s, w1))
        | Inr ep \<Rightarrow> do {
            ep1 \<leftarrow> grid_ep_start ep;
            let eid = sk_eid s;
            sw1 \<leftarrow> grid_ctx_leave V (s\<lparr>sk_eid := sk_eid s + 1, sk_eps := sk_eps s @ [ep1]\<rparr>, w1);
            Some (Inr eid, sw1) } })"

definition grid_sock_rm_ep :: "'w sock_env \<Rightarrow> int \<Rightarrow> grid_sock \<times> 'w \<Rightarrow> ((errno + unit) \<times> grid_sock \<times> 'w) option" where
  "grid_sock_rm_ep V eid sw =
     (case find (\<lambda>e. ep_eid e = eid) (sk_eps (fst sw)) of
        None \<Rightarrow> map_option (\<lambda>sw1. (Inl EINVAL, sw1)) (grid_ctx_leave V sw)
      | Some e \<Rightarrow> do {
          sw1 \<leftarrow> shut_ep V e sw;
          sw2 \<leftarrow> grid_ctx_leave V sw1;
          Some (Inr (), sw2) })"

text \<open>A transport tells an endpoint that it has stopped (\<open>grid_epbase_stopped\<close>).\<close>

definition grid_epbase_stopped :: "int \<Rightarrow> grid_sock \<Rightarrow> grid_sock option" where
  "grid_epbase_stopped i s = do {
     e \<leftarrow> find_ep i s;
     e1 \<leftarrow> grid_ep_stopped e;
     Some (push_event (EvEpDone i) (put_ep e1 s)) }"

section \<open>Sending and receiving\<close>

text \<open>
  A blocking operation waits for its descriptor outside the context. Each wait is one element of
  a list: the result of the operating system's wait, what the other threads have done to the
  socket and the world meanwhile, whether the recheck was interrupted, and the clock afterwards.
  When the list is used up the operation is still waiting, with the given timeout.
\<close>

record 'w wakeup =
  wk_wait :: "errno + unit"
  wk_others :: "grid_sock \<times> 'w \<Rightarrow> grid_sock \<times> 'w"
  wk_intr :: bool
  wk_now :: u64

datatype 'a outcome = Returned "errno + 'a" | Waiting int

text \<open>The timeout that is left, truncated to an \<open>int\<close>.\<close>

definition time_left :: "int \<Rightarrow> u64 \<Rightarrow> u64 \<Rightarrow> int \<Rightarrow> int" where
  "time_left timeo deadline now timeout =
     (if timeo \<ge> 0 then (if now > deadline then 0 else sint (ucast (deadline - now) :: u32)) else timeout)"

definition first_deadline :: "int \<Rightarrow> u64 \<Rightarrow> u64 \<times> int" where
  "first_deadline timeo now = (if timeo < 0 then (-1, -1) else (now + of_int timeo, timeo))"

definition state_check :: "grid_sock \<Rightarrow> errno option" where
  "state_check s =
     (case sk_state s of
        SOCK_ACTIVE \<Rightarrow> None
      | SOCK_INIT \<Rightarrow> None
      | SOCK_ZOMBIE \<Rightarrow> Some ETERM
      | _ \<Rightarrow> Some EBADF)"

text \<open>The errors of the wait that are passed on; any other aborts.\<close>

definition wait_error :: "errno \<Rightarrow> bool" where
  "wait_error e \<longleftrightarrow> e = ETIMEDOUT \<or> e = EINTR \<or> e = EBADF"

definition leave_with :: "'w sock_env \<Rightarrow> 'a outcome \<Rightarrow> grid_sock \<times> 'w \<Rightarrow> ('a outcome \<times> grid_sock \<times> 'w) option" where
  "leave_with V r sw = map_option (\<lambda>sw1. (r, sw1)) (grid_ctx_leave V sw)"

text \<open>
  The loop that the bodies of \<open>grid_sock_send\<close> and \<open>grid_sock_recv\<close> have in common: \<open>attempt\<close> is
  the socket type's function, \<open>fd\<close> and \<open>mark\<close> are the descriptor and its flag, \<open>timeo\<close> is the
  option.
\<close>

fun sock_wait_loop ::
  "'w sock_env \<Rightarrow> ('w \<Rightarrow> ((errno + 'a) \<times> 'w) option) \<Rightarrow> (grid_sock \<Rightarrow> grid_efd) \<Rightarrow> (grid_sock \<Rightarrow> grid_sock)
     \<Rightarrow> (grid_sock \<Rightarrow> int) \<Rightarrow> bool \<Rightarrow> u64 \<Rightarrow> int \<Rightarrow> 'w wakeup list \<Rightarrow> grid_sock \<times> 'w
     \<Rightarrow> ('a outcome \<times> grid_sock \<times> 'w) option" where
  "sock_wait_loop V attempt fd mark timeo dontwait deadline timeout ks (s, w) =
     (case state_check s of
        Some e \<Rightarrow> leave_with V (Returned (Inl e)) (s, w)
      | None \<Rightarrow>
          (case attempt w of
             None \<Rightarrow> None
           | Some (Inr r, w1) \<Rightarrow> leave_with V (Returned (Inr r)) (s, w1)
           | Some (Inl e, w1) \<Rightarrow>
               if e \<noteq> EAGAIN then leave_with V (Returned (Inl e)) (s, w1)
               else if dontwait then leave_with V (Returned (Inl EAGAIN)) (s, w1)
               else
                 (case ks of
                    [] \<Rightarrow> leave_with V (Waiting timeout) (s, w1)
                  | k # ks1 \<Rightarrow> do {
                      sw1 \<leftarrow> grid_ctx_leave V (s, w1);
                      let (s2, w2) = wk_others k sw1;
                      case wk_wait k of
                        Inl e \<Rightarrow> do { guard (wait_error e); Some (Returned (Inl e), s2, w2) }
                      | Inr u \<Rightarrow>
                          (let s3 = (if \<not> wk_intr k \<and> grid_efd_poll (fd s2) = Inr () then mark s2 else s2)
                           in sock_wait_loop V attempt fd mark timeo dontwait deadline
                                (time_left (timeo s3) deadline (wk_now k) timeout) ks1 (s3, w2)) })))"

text \<open>\<open>now\<close> is the clock when the operation starts.\<close>

definition grid_sock_send ::
  "'w sock_env \<Rightarrow> msg \<Rightarrow> bool \<Rightarrow> u64 \<Rightarrow> 'w wakeup list \<Rightarrow> grid_sock \<times> 'w
     \<Rightarrow> (unit outcome \<times> grid_sock \<times> 'w) option" where
  "grid_sock_send V m dontwait now ks sw =
     (if st_nosend V then Some (Returned (Inl ENOTSUP), sw)
      else (let (deadline, timeout) = first_deadline (sk_sndtimeo (fst sw)) now
            in sock_wait_loop V (sb_send V m) sk_sndfd (\<lambda>s. s\<lparr>sk_out := True\<rparr>) sk_sndtimeo dontwait deadline timeout ks sw))"

definition grid_sock_recv ::
  "'w sock_env \<Rightarrow> bool \<Rightarrow> u64 \<Rightarrow> 'w wakeup list \<Rightarrow> grid_sock \<times> 'w
     \<Rightarrow> (msg outcome \<times> grid_sock \<times> 'w) option" where
  "grid_sock_recv V dontwait now ks sw =
     (if st_norecv V then Some (Returned (Inl ENOTSUP), sw)
      else (let (deadline, timeout) = first_deadline (sk_rcvtimeo (fst sw)) now
            in sock_wait_loop V (sb_recv V) sk_rcvfd (\<lambda>s. s\<lparr>sk_in := True\<rparr>) sk_rcvtimeo dontwait deadline timeout ks sw))"

text \<open>Events of pipes are fed to the socket under the context's lock.\<close>

definition sock_pipe_in :: "'w sock_env \<Rightarrow> nat \<Rightarrow> grid_sock \<times> 'w \<Rightarrow> (grid_sock \<times> 'w) option" where
  "sock_pipe_in V p = in_ctx V (sock_feed V (IN_PIPE_IN p))"

definition sock_pipe_out :: "'w sock_env \<Rightarrow> nat \<Rightarrow> grid_sock \<times> 'w \<Rightarrow> (grid_sock \<times> 'w) option" where
  "sock_pipe_out V p = in_ctx V (sock_feed V (IN_PIPE_OUT p))"

end
