(* ===== verification/Cmsg.thy ===== *)
theory Cmsg
  imports Ep Msg
begin

text \<open>
  Messages as the API passes them (\<open>src/core/global.c\<close>, \<open>src/grid.h\<close>): scatter and gather
  arrays, and the control data that carries the header stack of a message to users of raw
  sockets. Control data is a sequence of control messages in host byte order, each a length, a
  level, a type and data. Reading past a buffer is \<open>None\<close>.
\<close>

section \<open>Control messages\<close>

datatype control = NoControl | UserControl bytes | ChunkControl bytes

definition PROTO_SP :: int where "PROTO_SP = 1"
definition SP_HDR :: int where "SP_HDR = 1"

definition GRID_CMSG_ALIGN :: "u64 \<Rightarrow> u64" where
  "GRID_CMSG_ALIGN len = (len + 8 - 1) AND NOT (8 - 1)"

definition GRID_CMSG_SPACE :: "u64 \<Rightarrow> u64" where
  "GRID_CMSG_SPACE len = GRID_CMSG_ALIGN len + GRID_CMSG_ALIGN 16"

definition load_size :: "bytes \<Rightarrow> u64 \<Rightarrow> u64 option" where
  "load_size b off = (if unat off + 8 \<le> length b then grid_getll (rev (take 8 (drop (unat off) b))) else None)"

definition size_bytes :: "u64 \<Rightarrow> bytes" where
  "size_bytes v = map (\<lambda>k. ucast (drop_bit (8 * k) v)) [0..<8]"

fun control_data :: "control \<Rightarrow> bytes" where
  "control_data NoControl = []"
| "control_data (UserControl b) = b"
| "control_data (ChunkControl b) = b"

text \<open>Control messages are identified by their offsets; the next one after \<open>None\<close> is the first.\<close>

definition grid_cmsg_nxthdr :: "control \<Rightarrow> u64 option \<Rightarrow> u64 option option" where
  "grid_cmsg_nxthdr ctrl cmsg =
     (let data = control_data ctrl; sz = of_nat (length data) in
      if sz < GRID_CMSG_SPACE 0 then Some None
      else do {
        headsz \<leftarrow> (case cmsg of
                    None \<Rightarrow> Some 0
                  | Some c \<Rightarrow> map_option (\<lambda>l. c + GRID_CMSG_ALIGN l) (load_size data c));
        if headsz + GRID_CMSG_SPACE 0 > sz then Some None
        else do {
          l \<leftarrow> load_size data headsz;
          Some (if headsz + GRID_CMSG_ALIGN l > sz then None else Some headsz) } })"

definition cmsg_level :: "bytes \<Rightarrow> u64 \<Rightarrow> int" where
  "cmsg_level data c = int_load (take 4 (drop (unat c + 8) data))"

definition cmsg_type :: "bytes \<Rightarrow> u64 \<Rightarrow> int" where
  "cmsg_type data c = int_load (take 4 (drop (unat c + 12) data))"

text \<open>
  The search of \<open>grid_sendmsg\<close> for the header stack. It may run forever, which is the outer
  \<open>None\<close>; the inner one is an invalid read.
\<close>

partial_function (option) cmsg_search :: "control \<Rightarrow> u64 option \<Rightarrow> u64 option option option" where
  "cmsg_search ctrl cmsg =
     (case grid_cmsg_nxthdr ctrl cmsg of
        None \<Rightarrow> Some None
      | Some None \<Rightarrow> Some (Some None)
      | Some (Some c) \<Rightarrow>
          if cmsg_level (control_data ctrl) c = PROTO_SP \<and> cmsg_type (control_data ctrl) c = SP_HDR
          then Some (Some (Some c))
          else cmsg_search ctrl (Some c))"

text \<open>The header stack in the control message at \<open>c\<close>; \<open>spsz\<close> is the length stored before it.\<close>

definition sp_hdr_body :: "bytes \<Rightarrow> u64 \<Rightarrow> bytes option" where
  "sp_hdr_body data c = do {
     len \<leftarrow> load_size data c;
     let clen = len - GRID_CMSG_SPACE 0;
     if clen > 8 then do {
       spsz \<leftarrow> load_size data (c + 16);
       if spsz \<le> clen - 8 then do {
         guard (unat c + 24 + unat spsz \<le> length data);
         Some (take (unat spsz) (drop (unat c + 24) data)) }
       else Some [] }
     else Some [] }"

text \<open>The headers and the header stack of the message that is sent.\<close>

definition sendmsg_control :: "control \<Rightarrow> (bytes \<times> bytes) option option" where
  "sendmsg_control ctrl =
     (if ctrl = NoControl then Some (Some ([], []))
      else do {
        r \<leftarrow> cmsg_search ctrl None;
        Some (case r of
                None \<Rightarrow> None
              | Some None \<Rightarrow> Some (control_data ctrl, [])
              | Some (Some c) \<Rightarrow> map_option (Pair (control_data ctrl)) (sp_hdr_body (control_data ctrl) c)) })"

text \<open>
  The control data of a received message, written into \<open>ctrl\<close>, which may be too short for the
  message's own headers, or for anything at all.
\<close>

definition recvmsg_fill :: "msg \<Rightarrow> bytes \<Rightarrow> bytes" where
  "recvmsg_fill m ctrl =
     (let spsz = of_nat (length (sphdr m)); sptotalsz = GRID_CMSG_SPACE (spsz + 8) in
      if of_nat (length ctrl) \<ge> sptotalsz then
        (let sp = size_bytes sptotalsz @ int_bytes PROTO_SP @ int_bytes SP_HDR @ size_bytes spsz @ sphdr m;
             hdrssz = min (length (hdrs m)) (length ctrl - unat sptotalsz)
         in sp @ take (unat sptotalsz - length sp) (drop (length sp) ctrl)
              @ take hdrssz (hdrs m) @ drop (unat sptotalsz + hdrssz) ctrl)
      else ctrl)"

text \<open>With \<open>GRID_MSG\<close> the control data is a new chunk, whose memory holds \<open>junk\<close>.\<close>

definition recvmsg_control :: "control \<Rightarrow> (nat \<Rightarrow> u8) \<Rightarrow> msg \<Rightarrow> control" where
  "recvmsg_control ctrl junk m =
     (case ctrl of
        NoControl \<Rightarrow> NoControl
      | UserControl b \<Rightarrow> UserControl (recvmsg_fill m b)
      | ChunkControl b \<Rightarrow>
          (let ctrlsz = GRID_CMSG_SPACE (of_nat (length (sphdr m)) + 8) + of_nat (length (hdrs m))
           in ChunkControl (recvmsg_fill m (map junk [0..<unat ctrlsz]))))"

section \<open>Scatter and gather arrays\<close>

text \<open>The memory an element points to; for the length \<open>GRID_MSG\<close> a place that holds a chunk.\<close>

datatype iov_mem = NullMem | Mem bytes | ChunkPtr "bytes option"

record grid_iovec =
  iov_base :: iov_mem
  iov_len :: u64

record grid_msghdr =
  msg_iov :: "grid_iovec list"
  msg_iovlen :: int
  msg_control :: control

definition GRID_MSG :: u64 where "GRID_MSG = - 1"

definition iov_get :: "grid_iovec \<Rightarrow> bytes option" where
  "iov_get v =
     (if iov_len v = 0 then Some []
      else (case iov_base v of
              Mem b \<Rightarrow> if unat (iov_len v) \<le> length b then Some (take (unat (iov_len v)) b) else None
            | _ \<Rightarrow> None))"

definition iov_put :: "grid_iovec \<Rightarrow> bytes \<Rightarrow> grid_iovec option" where
  "iov_put v d =
     (if d = [] then Some v
      else (case iov_base v of
              Mem b \<Rightarrow> if length d \<le> length b then Some (v\<lparr>iov_base := Mem (d @ drop (length d) b)\<rparr>) else None
            | _ \<Rightarrow> None))"

fun iov_total :: "grid_iovec list \<Rightarrow> u64 \<Rightarrow> errno + u64" where
  "iov_total [] sz = Inr sz"
| "iov_total (v # vs) sz =
     (if iov_len v = GRID_MSG then Inl EINVAL
      else if iov_base v = NullMem \<and> iov_len v \<noteq> 0 then Inl EFAULT
      else if sz + iov_len v < sz then Inl EINVAL
      else iov_total vs (sz + iov_len v))"

fun iov_gather :: "grid_iovec list \<Rightarrow> bytes option" where
  "iov_gather [] = Some []"
| "iov_gather (v # vs) = do { b \<leftarrow> iov_get v; bs \<leftarrow> iov_gather vs; Some (b @ bs) }"

fun iov_scatter :: "grid_iovec list \<Rightarrow> bytes \<Rightarrow> (errno + grid_iovec list) option" where
  "iov_scatter [] data = Some (Inr [])"
| "iov_scatter (v # vs) data =
     (if iov_len v = GRID_MSG then Some (Inl EINVAL)
      else if iov_len v > of_nat (length data) then map_option (\<lambda>v1. Inr (v1 # vs)) (iov_put v data)
      else do {
        v1 \<leftarrow> iov_put v (take (unat (iov_len v)) data);
        r \<leftarrow> iov_scatter vs (drop (unat (iov_len v)) data);
        Some (case r of Inl e \<Rightarrow> Inl e | Inr vs1 \<Rightarrow> Inr (v1 # vs1)) })"

text \<open>The elements that \<open>msg_iovlen\<close> says there are.\<close>

definition msghdr_iov :: "grid_msghdr \<Rightarrow> grid_iovec list option" where
  "msghdr_iov mh = do { guard (nat (msg_iovlen mh) \<le> length (msg_iov mh)); Some (take (nat (msg_iovlen mh)) (msg_iov mh)) }"

text \<open>The body of a message to send, and whether it is the user's own chunk.\<close>

definition sendmsg_body :: "grid_msghdr \<Rightarrow> (errno + bytes \<times> bool) option" where
  "sendmsg_body mh =
     (if msg_iovlen mh < 0 then Some (Inl EMSGSIZE)
      else do {
        vs \<leftarrow> msghdr_iov mh;
        if length vs = 1 \<and> iov_len (hd vs) = GRID_MSG then
          (case iov_base (hd vs) of
             ChunkPtr None \<Rightarrow> Some (Inl EFAULT)
           | ChunkPtr (Some b) \<Rightarrow> Some (Inr (b, True))
           | _ \<Rightarrow> None)
        else (case iov_total vs 0 of
                Inl e \<Rightarrow> Some (Inl e)
              | Inr sz \<Rightarrow> map_option (\<lambda>b. Inr (b, False)) (iov_gather vs)) })"

text \<open>The places of a message that has been received.\<close>

definition recvmsg_body :: "grid_iovec list \<Rightarrow> bytes \<Rightarrow> (errno + grid_iovec list) option" where
  "recvmsg_body vs b =
     (if length vs = 1 \<and> iov_len (hd vs) = GRID_MSG then
        (case iov_base (hd vs) of
           ChunkPtr c \<Rightarrow> Some (Inr [(hd vs)\<lparr>iov_base := ChunkPtr (Some b)\<rparr>])
         | _ \<Rightarrow> None)
      else iov_scatter vs b)"

text \<open>The result of the API functions is the size as an \<open>int\<close>.\<close>

definition int_result :: "bytes \<Rightarrow> int" where
  "int_result b = sint (of_nat (length b) :: u32)"

section \<open>Sizes and reads\<close>

lemma and_not_mask_eq: "x AND NOT (mask n) = push_bit n (drop_bit n (x :: 'a::len word))"
  by (rule bit_word_eqI) (auto simp: bit_simps)

lemma unat_and_not_7: "unat (x AND - 8 :: u64) = unat x div 8 * 8"
proof -
  have m: "- 8 = NOT (mask 3 :: u64)" by (simp add: mask_eq_exp_minus_1)
  have l: "unat x < 2 ^ 64" using unsigned_less [of x] by simp
  have d: "unat (drop_bit 3 x) = unat x div 8" unfolding unat_drop_bit_eq by (simp add: drop_bit_eq_div)
  have "push_bit 3 (drop_bit 3 x) = drop_bit 3 x * 8" by (simp add: push_bit_eq_mult)
  then show ?thesis unfolding m and_not_mask_eq using l d by (simp add: unat_word_ariths del: drop_bit_eq_div)
qed

lemma unat_align:
  assumes "unat n + 7 < 2 ^ 64"
  shows "unat (GRID_CMSG_ALIGN n) = (unat n + 7) div 8 * 8"
proof -
  have "unat (7 + n) = unat n + 7" using assms by (simp add: unat_word_ariths)
  then show ?thesis by (simp add: GRID_CMSG_ALIGN_def unat_and_not_7)
qed

lemma align_small [simp]: "GRID_CMSG_ALIGN 0 = 0" "GRID_CMSG_ALIGN 16 = 16"
  by (simp_all add: GRID_CMSG_ALIGN_def)

lemma unat_space: "unat n + 23 < 2 ^ 64 \<Longrightarrow> unat (GRID_CMSG_SPACE n) = (unat n + 7) div 8 * 8 + 16"
  unfolding GRID_CMSG_SPACE_def by (simp add: unat_word_ariths unat_align)

lemma space_0 [simp]: "GRID_CMSG_SPACE 0 = 16"
  by (simp add: GRID_CMSG_SPACE_def)

lemma length_size_bytes [simp]: "length (size_bytes v) = 8"
  by (simp add: size_bytes_def)

lemma getll_size_bytes: "grid_getll (rev (size_bytes v)) = Some v"
proof -
  have "grid_putll (replicate 8 0) v = Some (rev (size_bytes v))"
    by (simp add: grid_putll_def size_bytes_def eval_nat_numeral)
  then show ?thesis by (rule grid_getll_putll)
qed

lemma load_size_at: "length pre = unat off \<Longrightarrow> load_size (pre @ size_bytes v @ post) off = Some v"
  by (simp add: load_size_def getll_size_bytes)

section \<open>Walking control data\<close>

text \<open>The layout of control messages that the macros of \<open>grid.h\<close> produce.\<close>

definition enc_cmsg :: "int \<times> int \<times> bytes \<Rightarrow> bytes" where
  "enc_cmsg it = (let (lev, ty, d) = it in
     size_bytes (of_nat (16 + length d)) @ int_bytes lev @ int_bytes ty @ d
       @ replicate ((length d + 7) div 8 * 8 - length d) 0)"

definition is_sp_hdr :: "int \<times> int \<times> bytes \<Rightarrow> bool" where
  "is_sp_hdr it \<longleftrightarrow> fst it = PROTO_SP \<and> fst (snd it) = SP_HDR"

definition int_range :: "int \<Rightarrow> bool" where
  "int_range i \<longleftrightarrow> - (2 ^ 31) \<le> i \<and> i < 2 ^ 31"

definition cmsg_ok :: "int \<times> int \<times> bytes \<Rightarrow> bool" where
  "cmsg_ok it \<longleftrightarrow> int_range (fst it) \<and> int_range (fst (snd it))"

definition next_offset :: "bytes \<Rightarrow> u64 option \<Rightarrow> u64 option" where
  "next_offset data cmsg =
     (case cmsg of None \<Rightarrow> Some 0 | Some c \<Rightarrow> map_option (\<lambda>l. c + GRID_CMSG_ALIGN l) (load_size data c))"

lemma length_enc: "length (enc_cmsg (lev, ty, d)) = 16 + (length d + 7) div 8 * 8"
  by (simp add: enc_cmsg_def)

lemma round8: "(16 + n + 7) div 8 * 8 = 16 + (n + 7) div 8 * (8 :: nat)"
proof -
  have e: "16 + n + 7 = n + 7 + 2 * 8" by simp
  have "(n + 7 + 2 * 8) div 8 = 2 + (n + 7) div 8" by (rule div_mult_self1) simp
  then show ?thesis by (simp only: e add_mult_distrib)
qed

lemma unat_of_length: "n < 2 ^ 64 \<Longrightarrow> unat (of_nat n :: u64) = n"
  by (simp add: unat_of_nat take_bit_nat_eq_self)

lemma nxthdr_at:
  assumes "next_offset data cmsg = Some off" and "length data < 2 ^ 63" and "control_data ctrl = data"
    and "unat off + 16 \<le> length data" and "load_size data off = Some l" and "unat off + (unat l + 7) div 8 * 8 \<le> length data"
  shows "grid_cmsg_nxthdr ctrl cmsg = Some (Some off)"
proof -
  have "unat l \<le> (unat l + 7) div 8 * 8" by linarith
  with assms(2,6) have a: "unat (GRID_CMSG_ALIGN l) = (unat l + 7) div 8 * 8" by (intro unat_align) simp
  have o: "unat (off + 16) = unat off + 16" "unat (off + GRID_CMSG_ALIGN l) = unat off + unat (GRID_CMSG_ALIGN l)"
    using assms(2,4,6) a by (simp_all add: unat_word_ariths)
  have s: "unat (of_nat (length data) :: u64) = length data"
    using assms(2) by (intro unat_of_length) simp
  have "\<not> off + 16 > of_nat (length data)" "\<not> off + GRID_CMSG_ALIGN l > of_nat (length data)"
    "\<not> of_nat (length data) < (16 :: u64)"
    using assms(4,6) s o a by (simp_all add: word_less_nat_alt)
  with assms(1,3,5) show ?thesis
    by (simp add: grid_cmsg_nxthdr_def next_offset_def Let_def)
qed

lemma nxthdr_end:
  assumes "next_offset data cmsg = Some off" and "length data < 2 ^ 63" and "control_data ctrl = data"
    and "length data < unat off + 16" and "unat off \<le> length data"
  shows "grid_cmsg_nxthdr ctrl cmsg = Some None"
proof -
  have s: "unat (of_nat (length data) :: u64) = length data"
    using assms(2) by (intro unat_of_length) simp
  have "unat (off + 16) = unat off + 16" using assms(2,5) by (simp add: unat_word_ariths)
  then have "off + 16 > of_nat (length data)" using assms(4) s by (simp add: word_less_nat_alt)
  with assms(1,3) show ?thesis by (simp add: grid_cmsg_nxthdr_def next_offset_def Let_def)
qed

text \<open>What is found at an item.\<close>

lemma cmsg_at:
  assumes d: "data = front @ enc_cmsg (lev, ty, d) @ post" and l: "length data < 2 ^ 63" and f: "unat off = length front"
  shows "load_size data off = Some (of_nat (16 + length d))" and "unat off + 16 \<le> length data"
    and "unat (of_nat (16 + length d) :: u64) = 16 + length d" and "unat off + (16 + length d + 7) div 8 * 8 \<le> length data"
    and "int_range lev \<Longrightarrow> cmsg_level data off = lev" and "int_range ty \<Longrightarrow> cmsg_type data off = ty"
proof -
  have e: "data = front @ size_bytes (of_nat (16 + length d)) @ int_bytes lev @ int_bytes ty @ d
      @ replicate ((length d + 7) div 8 * 8 - length d) 0 @ post"
    unfolding d by (simp add: enc_cmsg_def)
  show "load_size data off = Some (of_nat (16 + length d))" unfolding e by (rule load_size_at) (simp add: f)
  have len: "length data = length front + (16 + (length d + 7) div 8 * 8) + length post"
    unfolding d by (simp add: length_enc)
  moreover note round8 [of "length d"]
  ultimately show "unat off + 16 \<le> length data" "unat off + (16 + length d + 7) div 8 * 8 \<le> length data"
    using f by linarith+
  have "length d \<le> (length d + 7) div 8 * 8" by linarith
  with len l have "length d + 16 < 2 ^ 63" by linarith
  then show "unat (of_nat (16 + length d) :: u64) = 16 + length d" by (intro unat_of_length) simp
  show "int_range lev \<Longrightarrow> cmsg_level data off = lev" "int_range ty \<Longrightarrow> cmsg_type data off = ty"
    unfolding e cmsg_level_def cmsg_type_def f int_range_def by (simp_all add: int_load_bytes)
qed

lemma search_step:
  assumes d: "data = front @ enc_cmsg (lev, ty, d) @ post" and l: "length data < 2 ^ 63" and c: "control_data ctrl = data"
    and n: "next_offset data cmsg = Some off" and f: "unat off = length front"
  shows "int_range lev \<Longrightarrow> int_range ty \<Longrightarrow> cmsg_search ctrl cmsg =
      (if lev = PROTO_SP \<and> ty = SP_HDR then Some (Some (Some off)) else cmsg_search ctrl (Some off))"
    and "next_offset data (Some off) = Some (off + GRID_CMSG_ALIGN (of_nat (16 + length d)))"
    and "unat (off + GRID_CMSG_ALIGN (of_nat (16 + length d))) = length (front @ enc_cmsg (lev, ty, d))"
proof -
  note at = cmsg_at [OF d l f]
  have nx: "grid_cmsg_nxthdr ctrl cmsg = Some (Some off)"
    by (rule nxthdr_at [OF n l c at(2,1)]) (use at(3,4) in simp)
  show "int_range lev \<Longrightarrow> int_range ty \<Longrightarrow> cmsg_search ctrl cmsg =
      (if lev = PROTO_SP \<and> ty = SP_HDR then Some (Some (Some off)) else cmsg_search ctrl (Some off))"
    using nx at(5,6) c by (subst cmsg_search.simps) simp
  have al: "unat (GRID_CMSG_ALIGN (of_nat (16 + length d))) = 16 + (length d + 7) div 8 * 8"
    using at(3,4) l by (subst unat_align) (simp_all only: at(3) round8, simp)
  show "next_offset data (Some off) = Some (off + GRID_CMSG_ALIGN (of_nat (16 + length d)))"
    using at(1) by (simp add: next_offset_def)
  have "length data = length front + (16 + (length d + 7) div 8 * 8) + length post" unfolding d by (simp add: length_enc)
  then show "unat (off + GRID_CMSG_ALIGN (of_nat (16 + length d))) = length (front @ enc_cmsg (lev, ty, d))"
    using al l f by (simp add: unat_word_ariths length_enc)
qed

lemma search_finds:
  assumes "data = front @ concat (map enc_cmsg its) @ enc_cmsg it @ post" and "length data < 2 ^ 63" and "control_data ctrl = data"
    and "next_offset data cmsg = Some off" and "unat off = length front"
    and "\<forall>i \<in> set its. cmsg_ok i \<and> \<not> is_sp_hdr i" and "is_sp_hdr it"
  shows "cmsg_search ctrl cmsg = Some (Some (Some (of_nat (length front + length (concat (map enc_cmsg its))))))"
  using assms
proof (induction its arbitrary: front cmsg off)
  case Nil
  obtain d where it: "it = (PROTO_SP, SP_HDR, d)" using Nil.prems(7) by (cases it) (auto simp: is_sp_hdr_def)
  have e: "data = front @ enc_cmsg (PROTO_SP, SP_HDR, d) @ post" using Nil.prems(1) it by simp
  have "cmsg_search ctrl cmsg = Some (Some (Some off))"
    using search_step(1) [OF e Nil.prems(2,3,4,5)] by (simp add: int_range_def PROTO_SP_def SP_HDR_def)
  moreover have "off = of_nat (length front)" unfolding Nil.prems(5) [symmetric] by simp
  ultimately show ?case by simp
next
  case (Cons i its)
  obtain lev ty d where i: "i = (lev, ty, d)" by (cases i)
  have e: "data = front @ enc_cmsg (lev, ty, d) @ (concat (map enc_cmsg its) @ enc_cmsg it @ post)"
    using Cons.prems(1) i by simp
  note st = search_step [OF e Cons.prems(2,3,4,5)]
  have "cmsg_search ctrl (Some off) = Some (Some (Some (of_nat (length (front @ enc_cmsg i) + length (concat (map enc_cmsg its))))))"
    unfolding i by (rule Cons.IH [OF _ Cons.prems(2,3) st(2,3)]) (use Cons.prems(1,6,7) i in auto)
  then show ?case using st(1) Cons.prems(6) i by (auto simp: cmsg_ok_def is_sp_hdr_def ac_simps)
qed

lemma search_none:
  assumes "data = front @ concat (map enc_cmsg its) @ post" and "length data < 2 ^ 63" and "control_data ctrl = data"
    and "next_offset data cmsg = Some off" and "unat off = length front"
    and "\<forall>i \<in> set its. cmsg_ok i \<and> \<not> is_sp_hdr i" and "length post < 16"
  shows "cmsg_search ctrl cmsg = Some (Some None)"
  using assms
proof (induction its arbitrary: front cmsg off)
  case Nil
  have "grid_cmsg_nxthdr ctrl cmsg = Some None"
    by (rule nxthdr_end [OF Nil.prems(4,2,3)]) (use Nil.prems(1,5,7) in auto)
  then show ?case by (subst cmsg_search.simps) simp
next
  case (Cons i its)
  obtain lev ty d where i: "i = (lev, ty, d)" by (cases i)
  have e: "data = front @ enc_cmsg (lev, ty, d) @ (concat (map enc_cmsg its) @ post)"
    using Cons.prems(1) i by simp
  note st = search_step [OF e Cons.prems(2,3,4,5)]
  have "cmsg_search ctrl (Some off) = Some (Some None)"
    by (rule Cons.IH [OF _ Cons.prems(2,3) st(2) st(3)]) (use Cons.prems(1,6,7) i in auto)
  then show ?case using st(1) Cons.prems(6) i by (simp add: cmsg_ok_def is_sp_hdr_def)
qed

lemma sp_hdr_at:
  assumes d: "data = front @ enc_cmsg (lev, ty, size_bytes (of_nat (length h)) @ h @ pad) @ post"
    and l: "length data < 2 ^ 63" and f: "unat off = length front"
  shows "sp_hdr_body data off = Some h"
proof -
  let ?d = "size_bytes (of_nat (length h)) @ h @ pad"
  note at = cmsg_at [OF d l f]
  have e: "data = (front @ size_bytes (of_nat (16 + length ?d)) @ int_bytes lev @ int_bytes ty) @ size_bytes (of_nat (length h))
      @ (h @ pad @ replicate ((length ?d + 7) div 8 * 8 - length ?d) 0 @ post)"
    unfolding d by (simp add: enc_cmsg_def)
  have len: "length data \<ge> length front + 24 + length h + length pad" unfolding e by simp
  have o: "unat (off + 16) = unat off + 16" using len f l by (simp add: unat_word_ariths)
  have ld: "load_size data (off + 16) = Some (of_nat (length h))"
    unfolding e by (rule load_size_at) (simp add: o f)
  have h: "unat (of_nat (length h) :: u64) = length h" using len l by (intro unat_of_length) simp
  have cl: "of_nat (16 + length ?d) - 16 = (of_nat (length ?d) :: u64)" by simp
  have dl: "unat (of_nat (length ?d) :: u64) = length ?d" using len l by (intro unat_of_length) simp
  have c8: "unat (of_nat (length ?d) - 8 :: u64) = length h + length pad"
  proof -
    have "(of_nat (length ?d) :: u64) = of_nat (length h + length pad) + 8" by simp
    then have "of_nat (length ?d) - 8 = (of_nat (length h + length pad) :: u64)" by (simp del: of_nat_add)
    moreover have "unat (of_nat (length h + length pad) :: u64) = length h + length pad"
      using len l by (intro unat_of_length) simp
    ultimately show ?thesis by simp
  qed
  have tk: "take (length h) (drop (unat off + 24) data) = h" unfolding e f by simp
  have g: "(of_nat (length ?d) :: u64) > 8 \<longleftrightarrow> length h + length pad > 0" using dl by (simp add: word_less_nat_alt)
  have le: "of_nat (length h) \<le> (of_nat (length ?d) - 8 :: u64)" using c8 h by (simp add: word_le_nat_alt)
  have bd: "unat off + 24 + length h \<le> length data" using len f by simp
  show ?thesis
    using at(1) ld cl g le bd tk h unfolding sp_hdr_body_def Let_def space_0
    by (simp del: of_nat_add length_append)
qed

text \<open>What \<open>grid_recvmsg\<close> stores is a control message of this layout.\<close>

definition sp_total :: "nat \<Rightarrow> nat" where
  "sp_total n = 16 + (n + 15) div 8 * 8"

lemma unat_sp_total: "n < 2 ^ 62 \<Longrightarrow> unat (GRID_CMSG_SPACE (of_nat n + 8)) = sp_total n"
proof -
  assume n: "n < 2 ^ 62"
  have "unat (of_nat n + 8 :: u64) = n + 8" using unat_of_length [of "n + 8"] n by simp
  then show ?thesis using n by (subst unat_space) (simp_all add: sp_total_def)
qed

lemma fill_layout:
  assumes "length ctrl < 2 ^ 62" and "sp_total (length (sphdr m)) \<le> length ctrl"
  shows "\<exists>pad post. recvmsg_fill m ctrl
    = enc_cmsg (PROTO_SP, SP_HDR, size_bytes (of_nat (length (sphdr m))) @ sphdr m @ pad) @ post"
proof -
  let ?n = "length (sphdr m)"
  let ?t = "GRID_CMSG_SPACE (of_nat ?n + 8)"
  let ?sp = "size_bytes ?t @ int_bytes PROTO_SP @ int_bytes SP_HDR @ size_bytes (of_nat ?n) @ sphdr m"
  let ?pad = "take (unat ?t - length ?sp) (drop (length ?sp) ctrl)"
  have n: "?n < 2 ^ 62" using assms by (simp add: sp_total_def)
  have t: "unat ?t = sp_total ?n" using unat_sp_total [OF n] .
  have c: "of_nat (length ctrl) \<ge> ?t"
    using assms t unat_of_length [of "length ctrl"] by (simp add: word_le_nat_alt)
  have lp: "length ?pad = sp_total ?n - (24 + ?n)" using t assms(2) by (simp add: sp_total_def)
  then have lt: "16 + length (size_bytes (of_nat ?n) @ sphdr m @ ?pad) = sp_total ?n"
    by (simp add: sp_total_def)
  then have "of_nat (16 + length (size_bytes (of_nat ?n) @ sphdr m @ ?pad)) = ?t" unfolding lt t [symmetric] by simp
  moreover have "(length (size_bytes (of_nat ?n) @ sphdr m @ ?pad) + 7) div 8 * 8
      - length (size_bytes (of_nat ?n) @ sphdr m @ ?pad) = 0"
  proof -
    have "(x + 7) div 8 * 8 - x = 0" if "16 + x = 16 + (n + 15) div 8 * 8" for x n :: nat
    proof -
      have "x = (n + 15) div 8 * 8" using that by simp
      then show ?thesis by simp
    qed
    from this [OF lt [unfolded sp_total_def]] show ?thesis .
  qed
  ultimately have "enc_cmsg (PROTO_SP, SP_HDR, size_bytes (of_nat ?n) @ sphdr m @ ?pad) = ?sp @ ?pad"
    by (simp add: enc_cmsg_def)
  then show ?thesis using c unfolding recvmsg_fill_def Let_def
    by (intro exI [of _ ?pad] exI) (simp only: if_True append_assoc)
qed

lemma length_fill:
  assumes "length ctrl < 2 ^ 62" and "length (sphdr m) < 2 ^ 62"
  shows "length (recvmsg_fill m ctrl) = length ctrl"
proof -
  let ?n = "length (sphdr m)"
  have t: "unat (GRID_CMSG_SPACE (of_nat ?n + 8)) = sp_total ?n" using unat_sp_total [OF assms(2)] .
  have "sp_total ?n \<ge> 24 + ?n" by (simp add: sp_total_def)
  then show ?thesis
    using t assms(1) unat_of_length [of "length ctrl"]
    by (auto simp: recvmsg_fill_def Let_def word_le_nat_alt)
qed

lemma sphdr_through_control:
  assumes "length ctrl < 2 ^ 62" and "sp_total (length (sphdr m)) \<le> length ctrl"
    and "c = UserControl (recvmsg_fill m ctrl) \<or> c = ChunkControl (recvmsg_fill m ctrl)"
  shows "sendmsg_control c = Some (Some (recvmsg_fill m ctrl, sphdr m))"
proof -
  obtain pad post where e: "recvmsg_fill m ctrl = [] @ concat (map enc_cmsg [])
      @ enc_cmsg (PROTO_SP, SP_HDR, size_bytes (of_nat (length (sphdr m))) @ sphdr m @ pad) @ post"
    using fill_layout [OF assms(1,2)] by auto
  have l: "length (recvmsg_fill m ctrl) < 2 ^ 63" using length_fill [OF assms(1)] assms(1,2) by (simp add: sp_total_def)
  have d: "control_data c = recvmsg_fill m ctrl" using assms(3) by auto
  have "cmsg_search c None = Some (Some (Some 0))"
    using search_finds [OF e l d, of None 0] by (simp add: next_offset_def is_sp_hdr_def)
  moreover have "sp_hdr_body (recvmsg_fill m ctrl) 0 = Some (sphdr m)"
    by (rule sp_hdr_at [of _ "[]"]) (use e l in auto)
  ultimately show ?thesis using assms(3) d by (auto simp: sendmsg_control_def)
qed

lemma search_diverges:
  assumes "grid_cmsg_nxthdr ctrl None = Some (Some 0)" and "load_size (control_data ctrl) 0 = Some 0"
    and "\<not> (cmsg_level (control_data ctrl) 0 = PROTO_SP \<and> cmsg_type (control_data ctrl) 0 = SP_HDR)"
  shows "cmsg_search ctrl None = None"
proof -
  have again: "grid_cmsg_nxthdr ctrl (Some 0) = Some (Some 0)"
    using assms(1,2) by (auto simp: grid_cmsg_nxthdr_def Let_def)
  have False if "cmsg_search ctrl None = Some y" for y
  proof -
    have "ctrl = ctrl \<longrightarrow> grid_cmsg_nxthdr ctrl None = Some (Some 0) \<longrightarrow> False"
      by (rule cmsg_search.raw_induct [where P = "\<lambda>c cm y. c = ctrl \<longrightarrow> grid_cmsg_nxthdr c cm = Some (Some 0) \<longrightarrow> False", OF _ that])
        (use assms(3) again in auto)
    with assms(1) show False by simp
  qed
  with assms(1) show ?thesis by (cases "cmsg_search ctrl None") auto
qed

section \<open>Gathering and scattering\<close>

text \<open>Elements that point to as much memory as they say.\<close>

definition iov_ok :: "grid_iovec \<Rightarrow> bool" where
  "iov_ok v \<longleftrightarrow> iov_len v \<noteq> GRID_MSG \<and> (\<exists>b. iov_base v = Mem b \<and> length b = unat (iov_len v))"

fun mem_bytes :: "iov_mem \<Rightarrow> bytes" where
  "mem_bytes (Mem b) = b"
| "mem_bytes _ = []"

definition iov_contents :: "grid_iovec list \<Rightarrow> bytes" where
  "iov_contents vs = concat (map (\<lambda>v. mem_bytes (iov_base v)) vs)"

lemma iov_contents_simps [simp]:
  "iov_contents [] = []" "iov_contents (v # vs) = mem_bytes (iov_base v) @ iov_contents vs"
  by (simp_all add: iov_contents_def)

lemma iov_ok_mem: "iov_ok v \<Longrightarrow> \<exists>b. v = \<lparr>iov_base = Mem b, iov_len = of_nat (length b)\<rparr> \<and> length b < 2 ^ 64"
proof -
  assume "iov_ok v"
  then obtain b where b: "iov_len v \<noteq> - 1" "iov_base v = Mem b" "length b = unat (iov_len v)"
    by (auto simp: iov_ok_def GRID_MSG_def)
  have "unat (iov_len v) < 2 ^ 64" using unsigned_less [of "iov_len v"] by simp
  with b show ?thesis by (intro exI [of _ b]) (cases v, auto)
qed

lemma iov_total_ok:
  assumes "\<forall>v \<in> set vs. iov_ok v" and "n + length (iov_contents vs) < 2 ^ 64"
  shows "iov_total vs (of_nat n) = Inr (of_nat (n + length (iov_contents vs)))"
  using assms
proof (induction vs arbitrary: n)
  case (Cons v vs)
  obtain b where b: "v = \<lparr>iov_base = Mem b, iov_len = of_nat (length b)\<rparr>" "iov_len v \<noteq> GRID_MSG"
    using Cons.prems(1) iov_ok_mem [of v] by (auto simp: iov_ok_def)
  have s: "(of_nat n :: u64) + of_nat (length b) = of_nat (n + length b)" by simp
  have "unat (of_nat (n + length b) :: u64) = n + length b" "unat (of_nat n :: u64) = n"
    using Cons.prems(2) b(1) by (intro unat_of_length; simp)+
  then have "\<not> of_nat (n + length b) < (of_nat n :: u64)" by (simp add: word_less_nat_alt del: of_nat_add)
  moreover have "iov_total vs (of_nat (n + length b)) = Inr (of_nat (n + length b + length (iov_contents vs)))"
    using Cons.prems b(1) by (intro Cons.IH) auto
  ultimately show ?case using b by (simp add: s add.assoc del: of_nat_add)
qed simp

lemma iov_gather_ok: "\<forall>v \<in> set vs. iov_ok v \<Longrightarrow> iov_gather vs = Some (iov_contents vs)"
proof (induction vs)
  case (Cons v vs)
  then have "iov_get v = Some (mem_bytes (iov_base v))" by (auto simp: iov_ok_def iov_get_def)
  with Cons show ?case by simp
qed simp

lemma iov_scatter_ok:
  assumes "\<forall>v \<in> set vs. iov_ok v" and "length d < 2 ^ 64"
  shows "\<exists>vs'. iov_scatter vs d = Some (Inr vs') \<and> (\<forall>v \<in> set vs'. iov_ok v) \<and> map iov_len vs' = map iov_len vs
    \<and> iov_contents vs' = take (length (iov_contents vs)) d @ drop (length d) (iov_contents vs)"
  using assms
proof (induction vs arbitrary: d)
  case (Cons v vs)
  obtain b where b: "v = \<lparr>iov_base = Mem b, iov_len = of_nat (length b)\<rparr>" "length b < 2 ^ 64" "iov_len v \<noteq> GRID_MSG"
    using Cons.prems(1) iov_ok_mem [of v] by (auto simp: iov_ok_def)
  have ln: "unat (of_nat (length b) :: u64) = length b" "unat (of_nat (length d) :: u64) = length d"
    using b(2) Cons.prems(2) by (intro unat_of_length; simp)+
  have ok1: "iov_ok (v\<lparr>iov_base := Mem b'\<rparr>)" if "length b' = length b" for b'
    using that b Cons.prems(1) ln by (auto simp: iov_ok_def)
  show ?case
  proof (cases "of_nat (length b) > (of_nat (length d) :: u64)")
    case True
    then have "length d < length b" using ln by (simp add: word_less_nat_alt)
    then have p: "iov_put v d = Some (v\<lparr>iov_base := Mem (d @ drop (length d) b)\<rparr>)" using b(1) by (simp add: iov_put_def)
    have "iov_scatter (v # vs) d = Some (Inr (v\<lparr>iov_base := Mem (d @ drop (length d) b)\<rparr> # vs))"
      using True b(1,3) p by simp
    with ok1 [of "d @ drop (length d) b"] Cons.prems(1) \<open>length d < length b\<close> show ?thesis using b(1) by simp
  next
    case False
    then have le: "length b \<le> length d" using ln by (simp add: word_less_nat_alt)
    have p: "iov_put v (take (length b) d) = Some (v\<lparr>iov_base := Mem (take (length b) d)\<rparr>)"
      using b(1) le by (cases "d = []") (auto simp: iov_put_def)
    obtain vs' where vs': "iov_scatter vs (drop (length b) d) = Some (Inr vs')" "\<forall>v \<in> set vs'. iov_ok v"
      "map iov_len vs' = map iov_len vs"
      "iov_contents vs' = take (length (iov_contents vs)) (drop (length b) d) @ drop (length (drop (length b) d)) (iov_contents vs)"
    proof -
      have "length (drop (length b) d) < 2 ^ 64" "\<forall>v \<in> set vs. iov_ok v" using Cons.prems by auto
      from Cons.IH [OF this(2,1)] that show thesis by blast
    qed
    have "iov_scatter (v # vs) d = Some (Inr (v\<lparr>iov_base := Mem (take (length b) d)\<rparr> # vs'))"
      using False b(1,3) p vs'(1) ln by simp
    moreover have "take (length b) d @ take (length (iov_contents vs)) (drop (length b) d) = take (length b + length (iov_contents vs)) d"
      by (simp add: take_add)
    ultimately show ?thesis using ok1 [of "take (length b) d"] le vs'(2-4) b(1) by simp
  qed
qed simp

end
