(* ===== verification/Global.thy ===== *)
theory Global
  imports Sock Cmsg Timer
begin

text \<open>
  The global state of the library and the API on top of sockets (\<open>src/core/global.c\<close>). Sockets
  live in memory (\<open>gl_mem\<close>) under the addresses that the descriptor table \<open>gl_socks\<close> holds; an
  access to memory that has been freed is \<open>None\<close>. Each critical section under the global lock is
  one function, so that the interleavings of several threads are sequences of these. Transports
  and socket types are tables of virtual functions over a shared world \<open>'w\<close>.
\<close>

section \<open>State\<close>

record 'w socktype =
  ty_domain :: int
  ty_protocol :: int
  ty_env :: "nat \<Rightarrow> 'w sock_env"
  ty_create :: "nat \<Rightarrow> 'w \<Rightarrow> 'w option"

record 'w transport =
  tr_name :: string
  tr_id :: int
  tr_init :: "'w \<Rightarrow> 'w"
  tr_term :: "'w \<Rightarrow> 'w"
  tr_create :: "nat \<Rightarrow> bool \<Rightarrow> int \<Rightarrow> string \<Rightarrow> 'w \<Rightarrow> (errno + unit) \<times> 'w"

record 'w sock_obj =
  so_env :: "'w sock_env"
  so_sock :: grid_sock

datatype global_state = GLOBAL_IDLE | GLOBAL_ACTIVE | GLOBAL_STOPPING_TIMER

text \<open>\<open>gl_socks\<close> is \<open>None\<close> while the library is not initialised; \<open>gl_zombie\<close> is the flag.\<close>

record 'w grid_global =
  gl_socks :: "nat option list option"
  gl_unused :: "nat list"
  gl_nsocks :: nat
  gl_zombie :: bool
  gl_transports :: "'w transport list"
  gl_socktypes :: "'w socktype list"
  gl_fsm :: grid_fsm
  gl_state :: global_state
  gl_stat_timer :: grid_timer
  gl_print_errors :: bool
  gl_print_statistics :: bool
  gl_statistics_socket :: int
  gl_hostname :: string
  gl_appname :: string
  gl_mem :: "nat \<Rightarrow> 'w sock_obj option"
  gl_world :: 'w

definition GRID_MAX_SOCKETS :: nat where "GRID_MAX_SOCKETS = 512"
definition AF_SP :: int where "AF_SP = 1"
definition AF_SP_RAW :: int where "AF_SP_RAW = 2"

text \<open>An operation on the socket at an address.\<close>

definition on_sock ::
  "nat \<Rightarrow> ('w sock_env \<Rightarrow> grid_sock \<times> 'w \<Rightarrow> ('a \<times> grid_sock \<times> 'w) option) \<Rightarrow> 'w grid_global \<Rightarrow> ('a \<times> 'w grid_global) option" where
  "on_sock a f gl = do {
     ob \<leftarrow> gl_mem gl a;
     (r, s, w) \<leftarrow> f (so_env ob) (so_sock ob, gl_world gl);
     Some (r, gl\<lparr>gl_mem := (gl_mem gl)(a \<mapsto> ob\<lparr>so_sock := s\<rparr>), gl_world := w\<rparr>) }"

definition no_result :: "('w sock_env \<Rightarrow> grid_sock \<times> 'w \<Rightarrow> (grid_sock \<times> 'w) option)
    \<Rightarrow> 'w sock_env \<Rightarrow> grid_sock \<times> 'w \<Rightarrow> (unit \<times> grid_sock \<times> 'w) option" where
  "no_result f V sw = map_option (\<lambda>sw1. ((), sw1)) (f V sw)"

section \<open>Holding sockets\<close>

definition grid_global_hold_socket_locked :: "int \<Rightarrow> 'w grid_global \<Rightarrow> ((errno + nat) \<times> 'w grid_global) option" where
  "grid_global_hold_socket_locked s gl =
     (case gl_socks gl of
        None \<Rightarrow> Some (Inl ETERM, gl)
      | Some socks \<Rightarrow>
          if gl_zombie gl then Some (Inl ETERM, gl)
          else if s < 0 \<or> s \<ge> int GRID_MAX_SOCKETS then Some (Inl EBADF, gl)
          else (case socks ! nat s of
                  None \<Rightarrow> Some (Inl EBADF, gl)
                | Some a \<Rightarrow> do {
                    (rc, gl1) \<leftarrow> on_sock a (\<lambda>V (sk, w). let (rc, sk1) = grid_sock_hold sk in Some (rc, sk1, w)) gl;
                    Some (case rc of Inl e \<Rightarrow> Inl EBADF | Inr u \<Rightarrow> Inr a, gl1) }))"

definition grid_global_hold_socket :: "int \<Rightarrow> 'w grid_global \<Rightarrow> ((errno + nat) \<times> 'w grid_global) option" where
  "grid_global_hold_socket s gl = grid_global_hold_socket_locked s gl"

definition grid_global_rele_socket :: "nat \<Rightarrow> 'w grid_global \<Rightarrow> 'w grid_global option" where
  "grid_global_rele_socket a gl =
     map_option snd (on_sock a (\<lambda>V (sk, w). Some ((), grid_sock_rele sk, w)) gl)"

text \<open>An API function holds the socket, works on it, and releases it.\<close>

definition with_sock ::
  "int \<Rightarrow> (nat \<Rightarrow> 'w grid_global \<Rightarrow> ((errno + 'a) \<times> 'w grid_global) option) \<Rightarrow> 'w grid_global \<Rightarrow> ((errno + 'a) \<times> 'w grid_global) option" where
  "with_sock s f gl = do {
     (h, gl1) \<leftarrow> grid_global_hold_socket s gl;
     case h of
       Inl e \<Rightarrow> Some (Inl e, gl1)
     | Inr a \<Rightarrow> do {
         (rc, gl2) \<leftarrow> f a gl1;
         gl3 \<leftarrow> grid_global_rele_socket a gl2;
         Some (rc, gl3) } }"

section \<open>Creating sockets and endpoints\<close>

fun dec_nat :: "nat \<Rightarrow> string" where
  "dec_nat n = (if n < 10 then [char_of (48 + n)] else dec_nat (n div 10) @ [char_of (48 + n mod 10)])"

declare dec_nat.simps [simp del]

definition dec_int :: "int \<Rightarrow> string" where
  "dec_int i = (if i < 0 then CHR 0x2D # dec_nat (nat (- i)) else dec_nat (nat i))"

text \<open>\<open>addr\<close> is the address of the allocated socket, \<open>efds\<close> are its new descriptors.\<close>

definition grid_global_create_socket ::
  "nat \<Rightarrow> (errno + nat) \<times> (errno + nat) \<Rightarrow> int \<Rightarrow> int \<Rightarrow> 'w grid_global \<Rightarrow> ((errno + int) \<times> 'w grid_global) option" where
  "grid_global_create_socket addr efds domain protocol gl =
     (if domain \<noteq> AF_SP \<and> domain \<noteq> AF_SP_RAW then Some (Inl EAFNOSUPPORT, gl)
      else if gl_nsocks gl \<ge> GRID_MAX_SOCKETS then Some (Inl EMFILE, gl)
      else (let s = gl_unused gl ! (GRID_MAX_SOCKETS - gl_nsocks gl - 1) in
        case find (\<lambda>t. ty_domain t = domain \<and> ty_protocol t = protocol) (gl_socktypes gl) of
          None \<Rightarrow> Some (Inl EINVAL, gl)
        | Some t \<Rightarrow> do {
            r \<leftarrow> grid_sock_init (ty_env t addr) efds (dec_nat s) (ty_create t addr) (gl_world gl);
            case r of
              Inl e \<Rightarrow> Some (Inl e, gl)
            | Inr (sk, w) \<Rightarrow> do {
                socks \<leftarrow> gl_socks gl;
                Some (Inr (int s), gl\<lparr>gl_socks := Some (socks[s := Some addr]), gl_nsocks := gl_nsocks gl + 1,
                  gl_mem := (gl_mem gl)(addr \<mapsto> \<lparr>so_env = ty_env t addr, so_sock = sk\<rparr>), gl_world := w\<rparr>) } }))"

text \<open>The protocol and the address in a connection string. Reading stops at the string's end.\<close>

definition split_addr :: "string \<Rightarrow> (string \<times> string) option" where
  "split_addr addr =
     (let proto = takeWhile (\<lambda>c. c \<noteq> CHR '':'') addr; rest = dropWhile (\<lambda>c. c \<noteq> CHR '':'') addr in
      case rest of
        _ # c1 # c2 # tail \<Rightarrow> if c1 \<noteq> CHR ''/'' \<or> c2 \<noteq> CHR ''/'' then None else Some (proto, tail)
      | _ \<Rightarrow> None)"

definition grid_global_create_ep :: "nat \<Rightarrow> string option \<Rightarrow> bool \<Rightarrow> 'w grid_global \<Rightarrow> ((errno + int) \<times> 'w grid_global) option" where
  "grid_global_create_ep a addr bnd gl =
     (case addr of
        None \<Rightarrow> Some (Inl EINVAL, gl)
      | Some str \<Rightarrow>
          if length str \<ge> GRID_SOCKADDR_MAX then Some (Inl ENAMETOOLONG, gl)
          else (case split_addr str of
                  None \<Rightarrow> Some (Inl EINVAL, gl)
                | Some (proto, rest) \<Rightarrow>
                    (case find (\<lambda>t. tr_name t = proto) (gl_transports gl) of
                       None \<Rightarrow> Some (Inl EPROTONOSUPPORT, gl)
                     | Some tp \<Rightarrow> on_sock a (\<lambda>V. grid_sock_add_ep V (tr_create tp a bnd) rest) gl)))"

definition grid_global_transport :: "int \<Rightarrow> 'w grid_global \<Rightarrow> 'w transport option" where
  "grid_global_transport i gl = find (\<lambda>t. tr_id t = i) (gl_transports gl)"

section \<open>Sending and receiving\<close>

text \<open>
  A blocking operation may still be waiting (\<open>Waiting\<close>); the socket is held then. The clock and
  the wakeups are those of \<open>Sock\<close>. The outer \<open>None\<close> of the search in the control data, a call
  that never returns, is \<open>Stuck\<close>.
\<close>

datatype 'a api_result = Done "errno + 'a" | Waits int | Stuck

definition count_stat :: "stat_name \<Rightarrow> int \<Rightarrow> grid_sock \<Rightarrow> grid_sock option" where
  "count_stat name inc s = map_option (\<lambda>st. s\<lparr>sk_stats := st\<rparr>) (grid_sock_stat_increment name inc (sk_stats s))"

definition sock_sendmsg ::
  "grid_msghdr \<Rightarrow> bool \<Rightarrow> u64 \<Rightarrow> 'w wakeup list \<Rightarrow> 'w sock_env \<Rightarrow> grid_sock \<times> 'w \<Rightarrow> (int api_result \<times> grid_sock \<times> 'w) option" where
  "sock_sendmsg mh dontwait now ks V sw = do {
     b \<leftarrow> sendmsg_body mh;
     case b of
       Inl e \<Rightarrow> Some (Done (Inl e), sw)
     | Inr (bd, own) \<Rightarrow>
         (case sendmsg_control (msg_control mh) of
            None \<Rightarrow> Some (Stuck, sw)
          | Some None \<Rightarrow> None
          | Some (Some (hs, sp)) \<Rightarrow> do {
              (r, s1, w1) \<leftarrow> grid_sock_send V \<lparr>sphdr = sp, hdrs = hs, body = bd\<rparr> dontwait now ks sw;
              case r of
                Waiting t \<Rightarrow> Some (Waits t, s1, w1)
              | Returned (Inl e) \<Rightarrow> Some (Done (Inl e), s1, w1)
              | Returned (Inr u) \<Rightarrow> do {
                  s2 \<leftarrow> count_stat STAT_MESSAGES_SENT 1 s1;
                  s3 \<leftarrow> count_stat STAT_BYTES_SENT (int (length bd)) s2;
                  Some (Done (Inr (int_result bd)), s3, w1) } }) }"

text \<open>The results are the size, the elements of the array, and the control data.\<close>

definition sock_recvmsg ::
  "grid_msghdr \<Rightarrow> bool \<Rightarrow> u64 \<Rightarrow> 'w wakeup list \<Rightarrow> (nat \<Rightarrow> u8) \<Rightarrow> 'w sock_env \<Rightarrow> grid_sock \<times> 'w
     \<Rightarrow> ((int \<times> grid_iovec list \<times> control) api_result \<times> grid_sock \<times> 'w) option" where
  "sock_recvmsg mh dontwait now ks junk V sw =
     (if msg_iovlen mh < 0 then Some (Done (Inl EMSGSIZE), sw)
      else do {
        (r, s1, w1) \<leftarrow> grid_sock_recv V dontwait now ks sw;
        case r of
          Waiting t \<Rightarrow> Some (Waits t, s1, w1)
        | Returned (Inl e) \<Rightarrow> Some (Done (Inl e), s1, w1)
        | Returned (Inr m) \<Rightarrow> do {
            vs \<leftarrow> msghdr_iov mh;
            b \<leftarrow> recvmsg_body vs (body m);
            case b of
              Inl e \<Rightarrow> Some (Done (Inl e), s1, w1)
            | Inr vs1 \<Rightarrow> do {
                s2 \<leftarrow> count_stat STAT_MESSAGES_RECEIVED 1 s1;
                s3 \<leftarrow> count_stat STAT_BYTES_RECEIVED (int (length (body m))) s2;
                Some (Done (Inr (int_result (body m), vs1, recvmsg_control (msg_control mh) junk m)), s3, w1) } } })"

text \<open>A call that is still waiting keeps its hold.\<close>

definition with_sock_blocking ::
  "int \<Rightarrow> (nat \<Rightarrow> 'w grid_global \<Rightarrow> ('a api_result \<times> 'w grid_global) option) \<Rightarrow> 'w grid_global \<Rightarrow> ('a api_result \<times> 'w grid_global) option" where
  "with_sock_blocking s f gl = do {
     (h, gl1) \<leftarrow> grid_global_hold_socket s gl;
     case h of
       Inl e \<Rightarrow> Some (Done (Inl e), gl1)
     | Inr a \<Rightarrow> do {
         (r, gl2) \<leftarrow> f a gl1;
         case r of
           Done rc \<Rightarrow> map_option (\<lambda>gl3. (Done rc, gl3)) (grid_global_rele_socket a gl2)
         | _ \<Rightarrow> Some (r, gl2) } }"

definition grid_sendmsg ::
  "int \<Rightarrow> grid_msghdr option \<Rightarrow> bool \<Rightarrow> u64 \<Rightarrow> 'w wakeup list \<Rightarrow> 'w grid_global \<Rightarrow> (int api_result \<times> 'w grid_global) option" where
  "grid_sendmsg s mh dontwait now ks gl =
     with_sock_blocking s (\<lambda>a gl1.
       case mh of
         None \<Rightarrow> Some (Done (Inl EINVAL), gl1)
       | Some m \<Rightarrow> on_sock a (sock_sendmsg m dontwait now ks) gl1) gl"

definition grid_recvmsg ::
  "int \<Rightarrow> grid_msghdr option \<Rightarrow> bool \<Rightarrow> u64 \<Rightarrow> 'w wakeup list \<Rightarrow> (nat \<Rightarrow> u8) \<Rightarrow> 'w grid_global
     \<Rightarrow> ((int \<times> grid_iovec list \<times> control) api_result \<times> 'w grid_global) option" where
  "grid_recvmsg s mh dontwait now ks junk gl =
     with_sock_blocking s (\<lambda>a gl1.
       case mh of
         None \<Rightarrow> Some (Done (Inl EINVAL), gl1)
       | Some m \<Rightarrow> on_sock a (sock_recvmsg m dontwait now ks junk) gl1) gl"

definition one_iov :: "iov_mem \<Rightarrow> u64 \<Rightarrow> grid_msghdr" where
  "one_iov buf len = \<lparr>msg_iov = [\<lparr>iov_base = buf, iov_len = len\<rparr>], msg_iovlen = 1, msg_control = NoControl\<rparr>"

definition grid_send ::
  "int \<Rightarrow> iov_mem \<Rightarrow> u64 \<Rightarrow> bool \<Rightarrow> u64 \<Rightarrow> 'w wakeup list \<Rightarrow> 'w grid_global \<Rightarrow> (int api_result \<times> 'w grid_global) option" where
  "grid_send s buf len = grid_sendmsg s (Some (one_iov buf len))"

definition grid_recv ::
  "int \<Rightarrow> iov_mem \<Rightarrow> u64 \<Rightarrow> bool \<Rightarrow> u64 \<Rightarrow> 'w wakeup list \<Rightarrow> (nat \<Rightarrow> u8) \<Rightarrow> 'w grid_global
     \<Rightarrow> ((int \<times> grid_iovec list \<times> control) api_result \<times> 'w grid_global) option" where
  "grid_recv s buf len = grid_recvmsg s (Some (one_iov buf len))"

section \<open>Options and endpoints\<close>

text \<open>A null pointer for a value of some length is refused.\<close>

definition grid_setsockopt :: "int \<Rightarrow> int \<Rightarrow> int \<Rightarrow> bytes option \<Rightarrow> nat \<Rightarrow> 'w grid_global \<Rightarrow> ((errno + unit) \<times> 'w grid_global) option" where
  "grid_setsockopt s level opt optval optvallen =
     with_sock s (\<lambda>a gl.
       case optval of
         None \<Rightarrow> if optvallen \<noteq> 0 then Some (Inl EFAULT, gl)
                 else on_sock a (\<lambda>V. grid_sock_setopt V level opt []) gl
       | Some b \<Rightarrow> do { guard (optvallen \<le> length b); on_sock a (\<lambda>V. grid_sock_setopt V level opt (take optvallen b)) gl })"

definition grid_getsockopt :: "int \<Rightarrow> int \<Rightarrow> int \<Rightarrow> bool \<Rightarrow> nat \<Rightarrow> 'w grid_global \<Rightarrow> ((errno + bytes \<times> nat) \<times> 'w grid_global) option" where
  "grid_getsockopt s level opt null optvallen =
     with_sock s (\<lambda>a gl.
       if null \<and> optvallen \<noteq> 0 then Some (Inl EFAULT, gl)
       else on_sock a (\<lambda>V. grid_sock_getopt V level opt optvallen) gl)"

definition grid_bind :: "int \<Rightarrow> string option \<Rightarrow> 'w grid_global \<Rightarrow> ((errno + int) \<times> 'w grid_global) option" where
  "grid_bind s addr = with_sock s (\<lambda>a. grid_global_create_ep a addr True)"

definition grid_connect :: "int \<Rightarrow> string option \<Rightarrow> 'w grid_global \<Rightarrow> ((errno + int) \<times> 'w grid_global) option" where
  "grid_connect s addr = with_sock s (\<lambda>a. grid_global_create_ep a addr False)"

definition grid_shutdown :: "int \<Rightarrow> int \<Rightarrow> 'w grid_global \<Rightarrow> ((errno + unit) \<times> 'w grid_global) option" where
  "grid_shutdown s how = with_sock s (\<lambda>a. on_sock a (\<lambda>V. grid_sock_rm_ep V how))"

section \<open>Statistics\<close>

text \<open>
  Statistics are published as text. \<open>timebuf\<close> is the time in the format \<open>%Y-%m-%dT%H:%M:%S\<close>;
  the buffer has 512 bytes, and the assert is that the text fits. Printing to \<open>stderr\<close> is left out.
\<close>

definition stat_text :: "'w grid_global \<Rightarrow> int \<Rightarrow> string \<Rightarrow> string \<Rightarrow> string \<Rightarrow> string \<Rightarrow> string" where
  "stat_text gl i sockname name timebuf val =
     (if sockname \<noteq> [] then
        ''ESTP:'' @ gl_hostname gl @ '':'' @ gl_appname gl @ '':socket.'' @ sockname @ '':'' @ name @ '': '' @ timebuf @ ''Z 10 '' @ val
      else
        ''ESTP:'' @ gl_hostname gl @ '':'' @ gl_appname gl @ '':socket.'' @ dec_int i @ '':'' @ name @ '': '' @ timebuf @ ''Z 10 '' @ val)"

definition submit_text :: "string \<Rightarrow> 'w grid_global \<Rightarrow> 'w grid_global option" where
  "submit_text txt gl =
     map_option snd (grid_send (gl_statistics_socket gl) (Mem (bytes_of txt)) (of_nat (length txt)) True 0 [] gl)"

definition grid_global_submit_counter :: "int \<Rightarrow> string \<Rightarrow> string \<Rightarrow> string \<Rightarrow> u64 \<Rightarrow> 'w grid_global \<Rightarrow> 'w grid_global option" where
  "grid_global_submit_counter i sockname timebuf name val gl =
     (if gl_statistics_socket gl \<ge> 0 then
        (let txt = stat_text gl i sockname name timebuf (dec_nat (unat val) @ '':c'') in do {
           guard (length txt < 512);
           submit_text txt gl })
      else Some gl)"

definition grid_global_submit_level :: "int \<Rightarrow> string \<Rightarrow> string \<Rightarrow> string \<Rightarrow> int \<Rightarrow> 'w grid_global \<Rightarrow> 'w grid_global option" where
  "grid_global_submit_level i sockname timebuf name val gl =
     (if gl_statistics_socket gl \<ge> 0 then
        (let txt = stat_text gl i sockname name timebuf (dec_int val) in do {
           guard (length txt < 512);
           submit_text txt gl })
      else Some gl)"

text \<open>
  The errors of the endpoints follow the number of them, as far as the buffer of 4096 bytes goes; a
  line that just fits ends with the zero byte of \<open>snprintf\<close>. \<open>strerr\<close> is the operating system's text for an error number.
\<close>

fun error_lines :: "(int \<Rightarrow> string) \<Rightarrow> grid_ep list \<Rightarrow> nat \<Rightarrow> string" where
  "error_lines strerr [] buf_left = []"
| "error_lines strerr (e # es) buf_left =
     (if ep_last_errno e \<noteq> 0 then
        (let line = '' gridmq: Endpoint '' @ dec_int (ep_eid e) @ '' ['' @ grid_ep_getaddr e @ ''] error: ''
               @ strerr (ep_last_errno e) @ [CHR 0x0A]
         in if buf_left < length line then []
            else (if buf_left = length line then butlast line @ [CHR 0x00] else line) @ error_lines strerr es (buf_left - length line))
      else error_lines strerr es buf_left)"

definition errors_text ::
  "(int \<Rightarrow> string) \<Rightarrow> grid_ep list \<Rightarrow> int \<Rightarrow> string \<Rightarrow> string \<Rightarrow> string \<Rightarrow> int \<Rightarrow> 'w grid_global \<Rightarrow> string option" where
  "errors_text strerr eps i sockname timebuf name val gl =
     (let txt = stat_text gl i sockname name timebuf (dec_int val @ [CHR 0x0A]) in do {
        guard (length txt < 4096);
        Some (txt @ error_lines strerr eps (4096 - length txt)) })"

definition grid_global_submit_errors ::
  "(int \<Rightarrow> string) \<Rightarrow> grid_ep list \<Rightarrow> int \<Rightarrow> string \<Rightarrow> string \<Rightarrow> string \<Rightarrow> int \<Rightarrow> 'w grid_global \<Rightarrow> 'w grid_global option" where
  "grid_global_submit_errors strerr eps i sockname timebuf name val gl =
     (if gl_statistics_socket gl \<ge> 0 then
        Option.bind (errors_text strerr eps i sockname timebuf name val gl) (\<lambda>txt. submit_text txt gl)
      else Some gl)"

definition stat_counters :: "sock_stats \<Rightarrow> (string \<times> u64) list" where
  "stat_counters st = [(''established_connections'', established_connections st),
     (''accepted_connections'', accepted_connections st), (''dropped_connections'', dropped_connections st),
     (''broken_connections'', broken_connections st), (''connect_errors'', connect_errors st),
     (''bind_errors'', bind_errors st), (''accept_errors'', accept_errors st), (''messages_sent'', messages_sent st),
     (''messages_received'', messages_received st), (''bytes_sent'', bytes_sent st), (''bytes_received'', bytes_received st)]"

definition stat_levels :: "sock_stats \<Rightarrow> (string \<times> int) list" where
  "stat_levels st = [(''current_connections'', current_connections st),
     (''inprogress_connections'', inprogress_connections st), (''current_snd_priority'', current_snd_priority st)]"

fun all_in_turn :: "('a \<Rightarrow> 's \<Rightarrow> 's option) \<Rightarrow> 'a list \<Rightarrow> 's \<Rightarrow> 's option" where
  "all_in_turn f [] s = Some s"
| "all_in_turn f (x # xs) s = Option.bind (f x s) (all_in_turn f xs)"

text \<open>One socket's statistics; its context is entered before and left afterwards.\<close>

definition submit_socket :: "(int \<Rightarrow> string) \<Rightarrow> string \<Rightarrow> nat \<Rightarrow> nat \<Rightarrow> 'w grid_global \<Rightarrow> 'w grid_global option" where
  "submit_socket strerr timebuf i a gl = do {
     ob \<leftarrow> gl_mem gl a;
     let s = so_sock ob;
     gl1 \<leftarrow> all_in_turn (\<lambda>(name, v). grid_global_submit_counter (int i) (sk_name s) timebuf name v) (stat_counters (sk_stats s)) gl;
     gl2 \<leftarrow> all_in_turn (\<lambda>(name, v). grid_global_submit_level (int i) (sk_name s) timebuf name v) (stat_levels (sk_stats s)) gl1;
     gl3 \<leftarrow> grid_global_submit_errors strerr (sk_eps s) (int i) (sk_name s) timebuf ''current_ep_errors''
              (current_ep_errors (sk_stats s)) gl2;
     map_option snd (on_sock a (no_result grid_ctx_leave) gl3) }"

definition grid_global_submit_statistics :: "(int \<Rightarrow> string) \<Rightarrow> string \<Rightarrow> 'w grid_global \<Rightarrow> 'w grid_global option" where
  "grid_global_submit_statistics strerr timebuf gl =
     all_in_turn (\<lambda>i g. do {
       socks \<leftarrow> gl_socks g;
       (case socks ! i of
          None \<Rightarrow> Some g
        | Some a \<Rightarrow> if int i = gl_statistics_socket g then Some g else submit_socket strerr timebuf i a g) })
       [0..<GRID_MAX_SOCKETS] gl"

section \<open>The state machine of the library\<close>

datatype global_input = GL_START | GL_STOP | GL_TIMER timer_event

definition grid_global_handler ::
  "('w grid_global \<Rightarrow> 'w grid_global option) \<Rightarrow> global_input \<Rightarrow> 'w grid_global \<Rightarrow> 'w grid_global option" where
  "grid_global_handler submit i gl =
     (case gl_state gl of
        GLOBAL_IDLE \<Rightarrow>
          (if i = GL_START then
             (let gl1 = gl\<lparr>gl_state := GLOBAL_ACTIVE\<rparr> in
              if gl_print_statistics gl1 \<or> gl_statistics_socket gl1 \<ge> 0 then
                map_option (\<lambda>t. gl1\<lparr>gl_stat_timer := t\<rparr>) (grid_timer_start 10000 (gl_stat_timer gl1))
              else Some gl1)
           else None)
      | GLOBAL_ACTIVE \<Rightarrow>
          (case i of
             GL_TIMER GRID_TIMER_TIMEOUT \<Rightarrow> do {
               gl1 \<leftarrow> submit gl;
               map_option (\<lambda>t. gl1\<lparr>gl_stat_timer := t\<rparr>) (grid_timer_stop (gl_stat_timer gl1)) }
           | GL_TIMER GRID_TIMER_STOPPED \<Rightarrow>
               map_option (\<lambda>t. gl\<lparr>gl_stat_timer := t\<rparr>) (grid_timer_start 10000 (gl_stat_timer gl))
           | _ \<Rightarrow> None)
      | GLOBAL_STOPPING_TIMER \<Rightarrow> None)"

definition grid_global_shutdown :: "global_input \<Rightarrow> 'w grid_global \<Rightarrow> 'w grid_global option" where
  "grid_global_shutdown i gl = do {
     guard (gl_state gl = GLOBAL_ACTIVE \<or> gl_state gl = GLOBAL_IDLE);
     if gl_state gl = GLOBAL_ACTIVE \<and> \<not> grid_timer_isidle (gl_stat_timer gl) then
       map_option (\<lambda>t. gl\<lparr>gl_stat_timer := t\<rparr>) (grid_timer_stop (gl_stat_timer gl))
     else Some gl }"

definition gl_fsm_upd :: "(grid_fsm \<Rightarrow> grid_fsm) \<Rightarrow> 'w grid_global \<Rightarrow> 'w grid_global" where
  "gl_fsm_upd f gl = gl\<lparr>gl_fsm := f (gl_fsm gl)\<rparr>"

section \<open>Initialisation and termination\<close>

text \<open>What the library reads from the environment, and what is compiled in.\<close>

record 'w lib_config =
  cf_transports :: "'w transport list"
  cf_socktypes :: "'w socktype list"
  cf_print_errors :: "string option"
  cf_print_statistics :: "string option"
  cf_statistics_socket :: "string option"
  cf_application_name :: "string option"
  cf_hostname :: "string option"
  cf_gethostname :: string
  cf_pid :: nat

definition env_true :: "string option \<Rightarrow> bool" where
  "env_true v = (case v of None \<Rightarrow> False | Some x \<Rightarrow> x \<noteq> [])"

definition grid_global_add_transport :: "'w transport \<Rightarrow> 'w grid_global \<Rightarrow> 'w grid_global" where
  "grid_global_add_transport t gl = gl\<lparr>gl_world := tr_init t (gl_world gl), gl_transports := gl_transports gl @ [t]\<rparr>"

definition grid_global_add_socktype :: "'w socktype \<Rightarrow> 'w grid_global \<Rightarrow> 'w grid_global" where
  "grid_global_add_socktype t gl = gl\<lparr>gl_socktypes := gl_socktypes gl @ [t]\<rparr>"

definition grid_global_init ::
  "'w lib_config \<Rightarrow> nat \<Rightarrow> (errno + nat) \<times> (errno + nat) \<Rightarrow> ('w grid_global \<Rightarrow> 'w grid_global option)
     \<Rightarrow> 'w grid_global \<Rightarrow> 'w grid_global option" where
  "grid_global_init cf addr efds submit gl =
     (if gl_socks gl \<noteq> None then Some gl
      else do {
        let gl1 = gl\<lparr>gl_socks := Some (replicate GRID_MAX_SOCKETS None), gl_nsocks := 0, gl_zombie := False,
          gl_print_errors := env_true (cf_print_errors cf), gl_print_statistics := env_true (cf_print_statistics cf),
          gl_unused := map (\<lambda>i. GRID_MAX_SOCKETS - i - 1) [0..<GRID_MAX_SOCKETS], gl_transports := [], gl_socktypes := []\<rparr>;
        let gl2 = fold grid_global_add_transport (cf_transports cf) gl1;
        let gl3 = fold grid_global_add_socktype (cf_socktypes cf) gl2;
        let gl4 = gl3\<lparr>gl_fsm := grid_fsm_init, gl_state := GLOBAL_IDLE, gl_stat_timer := grid_timer_init\<rparr>;
        gl5 \<leftarrow> (case cf_statistics_socket cf of
                  None \<Rightarrow> Some (gl4\<lparr>gl_statistics_socket := -1\<rparr>)
                | Some str \<Rightarrow> do {
                    (rc, g) \<leftarrow> grid_global_create_socket addr efds AF_SP 32 gl4;
                    case rc of
                      Inl e \<Rightarrow> None
                    | Inr s \<Rightarrow> do {
                        (rc1, g1) \<leftarrow> grid_global_create_ep addr (Some str) False (g\<lparr>gl_statistics_socket := s\<rparr>);
                        case rc1 of Inl e \<Rightarrow> None | Inr i \<Rightarrow> Some g1 } });
        let gl6 = gl5\<lparr>gl_appname := (case cf_application_name cf of
                          Some x \<Rightarrow> take 63 x | None \<Rightarrow> ''gridmq.'' @ dec_nat (cf_pid cf)),
                      gl_hostname := (case cf_hostname cf of Some x \<Rightarrow> take 63 x | None \<Rightarrow> take 63 (cf_gethostname cf))\<rparr>;
        grid_fsm_start gl_fsm gl_fsm_upd (grid_global_handler submit GL_START) gl6 })"

definition grid_global_term :: "'w grid_global \<Rightarrow> 'w grid_global option" where
  "grid_global_term gl = do {
     guard (gl_socks gl \<noteq> None);
     if gl_nsocks gl > 0 then Some gl
     else do {
       gl1 \<leftarrow> grid_fsm_stop gl_fsm gl_fsm_upd (grid_global_shutdown GL_STOP) gl;
       Some (gl1\<lparr>gl_world := fold tr_term (gl_transports gl1) (gl_world gl1), gl_transports := [], gl_socktypes := [],
                gl_socks := None\<rparr>) } }"

definition grid_socket ::
  "'w lib_config \<Rightarrow> nat \<Rightarrow> nat \<Rightarrow> (errno + nat) \<times> (errno + nat) \<Rightarrow> (errno + nat) \<times> (errno + nat)
     \<Rightarrow> ('w grid_global \<Rightarrow> 'w grid_global option) \<Rightarrow> int \<Rightarrow> int \<Rightarrow> 'w grid_global \<Rightarrow> ((errno + int) \<times> 'w grid_global) option" where
  "grid_socket cf addr0 addr efds0 efds submit domain protocol gl =
     (if gl_zombie gl then Some (Inl ETERM, gl)
      else do {
        gl1 \<leftarrow> grid_global_init cf addr0 efds0 submit gl;
        (rc, gl2) \<leftarrow> grid_global_create_socket addr efds domain protocol gl1;
        case rc of
          Inl e \<Rightarrow> map_option (\<lambda>gl3. (Inl e, gl3)) (grid_global_term gl2)
        | Inr s \<Rightarrow> Some (Inr s, gl2) })"

text \<open>
  Closing has two critical sections. The first one stops the socket and gives up the hold of its
  owner; then the thread waits until the socket has shut down and nobody holds it any more.
\<close>

definition close_begin :: "int \<Rightarrow> 'w grid_global \<Rightarrow> ((errno + nat) \<times> 'w grid_global) option" where
  "close_begin s gl = do {
     (h, gl1) \<leftarrow> grid_global_hold_socket_locked s gl;
     case h of
       Inl e \<Rightarrow> Some (Inl e, gl1)
     | Inr a \<Rightarrow> do {
         (u, gl2) \<leftarrow> on_sock a (no_result grid_sock_stop) gl1;
         gl3 \<leftarrow> grid_global_rele_socket a gl2;
         gl4 \<leftarrow> grid_global_rele_socket a gl3;
         Some (Inr a, gl4) } }"

definition close_end :: "nat \<Rightarrow> int \<Rightarrow> 'w grid_global \<Rightarrow> 'w grid_global waiting option" where
  "close_end a s gl = do {
     ob \<leftarrow> gl_mem gl a;
     case grid_sock_term (so_env ob) (so_sock ob, gl_world gl) of
       Blocked \<Rightarrow> Some Blocked
     | Ran r \<Rightarrow> do {
         r;
         socks \<leftarrow> gl_socks gl;
         gl1 \<leftarrow> grid_global_term (gl\<lparr>gl_socks := Some (socks[nat s := None]),
                  gl_unused := (gl_unused gl)[GRID_MAX_SOCKETS - gl_nsocks gl := nat s], gl_nsocks := gl_nsocks gl - 1,
                  gl_mem := (gl_mem gl)(a := None)\<rparr>);
         Some (Ran gl1) } }"

definition grid_close :: "int \<Rightarrow> 'w grid_global \<Rightarrow> ((errno + unit) waiting \<times> 'w grid_global) option" where
  "grid_close s gl = do {
     (h, gl1) \<leftarrow> close_begin s gl;
     case h of
       Inl e \<Rightarrow> Some (Ran (Inl e), gl1)
     | Inr a \<Rightarrow> do {
         r \<leftarrow> close_end a s gl1;
         Some (case r of Blocked \<Rightarrow> (Blocked, gl1) | Ran gl2 \<Rightarrow> (Ran (Inr ()), gl2)) } }"

definition grid_term :: "'w grid_global \<Rightarrow> 'w grid_global option" where
  "grid_term gl =
     (let gl1 = gl\<lparr>gl_zombie := True\<rparr> in
      case gl_socks gl1 of
        None \<Rightarrow> Some gl1
      | Some socks \<Rightarrow>
          if gl_nsocks gl1 = 0 then Some gl1
          else all_in_turn (\<lambda>i g.
            case socks ! i of
              None \<Rightarrow> Some g
            | Some a \<Rightarrow> map_option snd (on_sock a (no_result grid_sock_zombify) g)) [0..<GRID_MAX_SOCKETS] gl1)"

end
