(* ===== verification/GlobalInv.thy ===== *)
theory GlobalInv
  imports Global "HOL-Library.Multiset"
begin

text \<open>
  The descriptor table and the holds on sockets. What an operation on a socket keeps of its
  holds is \<open>hold_view\<close>; the lemmas of the first section say that every operation of \<open>Sock\<close> that
  is not about holds, and does not stop the socket, keeps all of it. The invariant
  \<open>global_inv\<close> accounts for the holds of all threads.
\<close>

section \<open>Operations keep the holds\<close>

definition sock_closing :: "grid_sock \<Rightarrow> bool" where
  "sock_closing s \<longleftrightarrow> sk_state s = SOCK_STOPPING_EPS \<or> sk_state s = SOCK_STOPPING \<or> sk_state s = SOCK_FINI"

definition hold_view :: "grid_sock \<Rightarrow> int \<times> nat \<times> fsm_state \<times> bool" where
  "hold_view s = (sk_holds s, sk_relesem s, fs_state (sk_fsm s), sock_closing s)"

lemmas hold_defs = hold_view_def sock_closing_def

named_theorems keeps \<open>operations that keep \<open>hold_view\<close>\<close>

lemma view_push [simp]: "hold_view (push_event ev s) = hold_view s"
  by (simp add: hold_defs push_event_def)

lemma view_put [simp]: "hold_view (put_ep e s) = hold_view s"
  by (simp add: hold_defs put_ep_def)

lemma view_lists [simp]:
  "hold_view (s\<lparr>sk_eps := x\<rparr>) = hold_view s" "hold_view (s\<lparr>sk_sdeps := x\<rparr>) = hold_view s"
  "hold_view (s\<lparr>sk_events := evs\<rparr>) = hold_view s" "hold_view (s\<lparr>sk_stats := st\<rparr>) = hold_view s"
  "hold_view (s\<lparr>sk_eid := i\<rparr>) = hold_view s" "hold_view (s\<lparr>sk_in := b\<rparr>) = hold_view s"
  "hold_view (s\<lparr>sk_out := b\<rparr>) = hold_view s" "hold_view (s\<lparr>sk_rcvfd := e\<rparr>) = hold_view s"
  "hold_view (s\<lparr>sk_sndfd := e\<rparr>) = hold_view s" "hold_view (s\<lparr>sk_optsets := os\<rparr>) = hold_view s"
  "hold_view (s\<lparr>sk_name := nm\<rparr>) = hold_view s" "hold_view (s\<lparr>sk_termsem := n\<rparr>) = hold_view s"
  by (simp_all add: hold_defs)

lemma view_fsm_flag [simp]:
  "hold_view (s\<lparr>sk_fsm := (sk_fsm s)\<lparr>fs_stopped := b\<rparr>\<rparr>) = hold_view s"
  "hold_view (s\<lparr>sk_fsm := stopped_delivered (sk_fsm s)\<rparr>) = hold_view s"
  by (simp_all add: hold_defs stopped_delivered_def)

lemma count_view [keeps]: "count_connection i s = Some s' \<Longrightarrow> hold_view s' = hold_view s"
  by (auto simp: count_connection_def)

lemma rm_pipes_view [keeps]: "rm_pipes V ps (s, w) = Some (s', w') \<Longrightarrow> hold_view s' = hold_view s"
proof (induction ps arbitrary: s w)
  case (Cons p ps)
  then show ?case by (auto simp: grid_sock_rm_def bind_eq_Some_conv dest!: count_view)
qed simp

lemma epbase_stop_view: "epbase_stop V i (s, w) = Some (b, s', w') \<Longrightarrow> hold_view s' = hold_view s"
  by (auto simp: epbase_stop_def split: prod.splits dest!: rm_pipes_view)

lemma ep_stop_view:
  "grid_ep_stop (epbase_stop V) (e, s, w) = Some (e', s', w') \<Longrightarrow> hold_view s' = hold_view s"
  by (auto simp: grid_ep_stop_def grid_fsm_stop_def grid_ep_shutdown_def bind_eq_Some_conv split: if_splits dest!: epbase_stop_view)

lemma shut_ep_view [keeps]: "shut_ep V e (s, w) = Some (s', w') \<Longrightarrow> hold_view s' = hold_view s"
  by (auto simp: shut_ep_def bind_eq_Some_conv Let_def split: if_splits dest!: ep_stop_view)

lemma shut_eps_view [keeps]: "shut_eps V es (s, w) = Some (s', w') \<Longrightarrow> hold_view s' = hold_view s"
  by (induction es arbitrary: s w) (auto simp: bind_eq_Some_conv dest!: shut_ep_view)

lemma free_ep_view [keeps]: "free_ep V i (s, w) = Some (s', w') \<Longrightarrow> hold_view s' = hold_view s"
  by (auto simp: free_ep_def bind_eq_Some_conv)

lemma finish1_view: "shutdown_finish1 V (s, w) = Some (s', w') \<Longrightarrow> sock_closing s \<Longrightarrow> hold_view s' = hold_view s"
  by (cases "st_norecv V"; cases "st_nosend V") (auto simp: shutdown_finish1_def bind_eq_Some_conv Let_def hold_defs)

lemma stopped_view: "grid_sock_stopped s = Some s' \<Longrightarrow> hold_view s' = hold_view s"
  by (auto simp: grid_sock_stopped_def split: if_splits)

lemma closing_view: "hold_view s' = hold_view s \<Longrightarrow> sock_closing s' = sock_closing s"
  by (simp add: hold_view_def)

lemma view_stopping: "sock_closing s \<Longrightarrow> hold_view (s\<lparr>sk_state := SOCK_STOPPING\<rparr>) = hold_view s"
  by (simp add: hold_view_def) (simp add: sock_closing_def)

lemma finish2_view: "shutdown_finish2 V (s, w) = Some (s', w') \<Longrightarrow> sock_closing s \<Longrightarrow> hold_view s' = hold_view s"
proof -
  assume a: "shutdown_finish2 V (s, w) = Some (s', w')" "sock_closing s"
  have c: "sock_closing (s\<lparr>sk_state := SOCK_STOPPING\<rparr>)" by (simp add: sock_closing_def)
  show ?thesis
    using a(1) finish1_view [OF _ c, of V w s' w'] view_stopping [OF a(2)] 
    by (auto simp: shutdown_finish2_def bind_eq_Some_conv Let_def split: if_splits option.splits dest!: stopped_view)
qed

lemma shutdown_view:
  assumes "grid_sock_shutdown V i (s, w) = Some (s', w')" and "i \<noteq> IN_STOP"
  shows "hold_view s' = hold_view s"
proof -
  have "hold_view s' = hold_view s"
    if "sk_state s = SOCK_STOPPING_EPS" "free_ep V e (s, w) = Some (s1, w1)" "shutdown_finish2 V (s1, w1) = Some (s', w')" for e s1 w1
  proof -
    have v: "hold_view s1 = hold_view s" using free_ep_view that(2) .
    then have "sock_closing s1" using closing_view that(1) by (simp add: sock_closing_def)
    from finish2_view [OF that(3) this] v show ?thesis by simp
  qed
  with assms show ?thesis
    by (auto simp: grid_sock_shutdown_def bind_eq_Some_conv sock_closing_def split: if_splits sock_input.splits dest!: finish1_view)
qed

lemma zombify_view: "\<not> sock_closing s \<Longrightarrow> hold_view (grid_sock_action_zombify V s) = hold_view s"
  by (auto simp: grid_sock_action_zombify_def hold_defs Let_def)

lemma handler_view:
  assumes "grid_sock_handler V i (s, w) = Some (s', w')" and "i \<noteq> IN_START"
  shows "hold_view s' = hold_view s"
proof -
  have "sk_state s = SOCK_INIT \<or> sk_state s = SOCK_ACTIVE \<Longrightarrow> hold_view (grid_sock_action_zombify V s) = hold_view s"
    by (rule zombify_view) (auto simp: sock_closing_def)
  with assms show ?thesis
    by (auto simp: grid_sock_handler_def split: sock_state.splits sock_input.splits dest!: free_ep_view)
qed

lemma feed_view:
  assumes "sock_feed V i (s, w) = Some (s', w')" and "i \<noteq> IN_START" and "i \<noteq> IN_STOP"
  shows "hold_view s' = hold_view s"
  using assms handler_view shutdown_view by (auto simp: sock_feed_def grid_fsm_feed_def split: if_splits)

lemma ep_feed_view: "ep_feed (epbase_stop V) EP_DONE (e, s, w) = Some (e', s', w') \<Longrightarrow> hold_view s' = hold_view s"
  by (auto dest!: ep_feed_done)

lemma process_event_view: "process_event V ev (s, w) = Some (s', w') \<Longrightarrow> hold_view s' = hold_view s"
  by (cases ev) (auto simp: process_event_def sock_fsm_update_def bind_eq_Some_conv split: if_splits
      dest!: ep_feed_view feed_view)

lemma process_events_view: "process_events V (s, w) = Some (s', w') \<Longrightarrow> hold_view s' = hold_view s"
proof (induction V "(s, w)" arbitrary: s w rule: process_events.induct)
  case (1 V s w)
  show ?case
  proof (cases "sk_events s")
    case Nil
    with 1 show ?thesis by (simp add: process_events.simps)
  next
    case (Cons ev evs)
    then obtain s1 w1 where r: "process_event V ev (s\<lparr>sk_events := evs\<rparr>, w) = Some (s1, w1)" "process_events V (s1, w1) = Some (s', w')"
      using 1(2) by (auto simp: process_events.simps [of V s] split: option.splits)
    from 1(1) [OF Cons r(1) r(2)] process_event_view [OF r(1)] show ?thesis by simp
  qed
qed

lemma onleave_view: "grid_sock_onleave V (s, w) = Some (s', w') \<Longrightarrow> hold_view s' = hold_view s \<and> w' = w"
  by (auto simp: grid_sock_onleave_def bind_eq_Some_conv Let_def split: if_splits)

lemma leave_view [keeps]: "grid_ctx_leave V (s, w) = Some (s', w') \<Longrightarrow> hold_view s' = hold_view s"
  by (auto simp: grid_ctx_leave_def bind_eq_Some_conv dest!: process_events_view onleave_view)

lemma in_ctx_view:
  assumes "\<And>s1 w1. f (s, w) = Some (s1, w1) \<Longrightarrow> hold_view s1 = hold_view s" and "in_ctx V f (s, w) = Some (s', w')"
  shows "hold_view s' = hold_view s"
proof -
  obtain s1 w1 where "f (s, w) = Some (s1, w1)" "grid_ctx_leave V (s1, w1) = Some (s', w')"
    using assms(2) by (auto simp: in_ctx_def bind_eq_Some_conv)
  then show ?thesis using assms(1) leave_view by metis
qed

text \<open>The operations that users and workers run on a socket.\<close>

definition keeps_holds :: "('w sock_env \<Rightarrow> grid_sock \<times> 'w \<Rightarrow> ('a \<times> grid_sock \<times> 'w) option) \<Rightarrow> bool" where
  "keeps_holds f \<longleftrightarrow> (\<forall>V s w r s' w'. f V (s, w) = Some (r, s', w') \<longrightarrow> hold_view s' = hold_view s)"

lemma keeps_holdsI: "(\<And>V s w r s' w'. f V (s, w) = Some (r, s', w') \<Longrightarrow> hold_view s' = hold_view s) \<Longrightarrow> keeps_holds f"
  by (simp add: keeps_holds_def)

lemma keeps_no_result: "(\<And>V s w s' w'. f V (s, w) = Some (s', w') \<Longrightarrow> hold_view s' = hold_view s) \<Longrightarrow> keeps_holds (no_result f)"
  by (auto simp: keeps_holds_def no_result_def)

lemma set_option_view: "set_int_option opt v s = Inr s' \<Longrightarrow> hold_view s' = hold_view s"
  by (auto simp: set_int_option_def Let_def hold_defs split: if_splits)

lemma optset_view: "grid_sock_optset V tid s = (b, s') \<Longrightarrow> hold_view s' = hold_view s"
  by (auto simp: grid_sock_optset_def Let_def split: if_splits)

lemma setopt_inner_view: "grid_sock_setopt_inner V level opt v (s, w) = Some (rc, s', w') \<Longrightarrow> hold_view s' = hold_view s"
  by (auto simp: grid_sock_setopt_inner_def split: if_splits prod.splits sum.splits dest!: set_option_view optset_view)

lemma keeps_setopt: "keeps_holds (\<lambda>V. grid_sock_setopt V level opt v)"
  by (rule keeps_holdsI) (auto simp: grid_sock_setopt_def bind_eq_Some_conv split: if_splits dest!: leave_view setopt_inner_view)

lemma getopt_inner_view: "grid_sock_getopt_inner V level opt n (s, w) = Some (rc, s') \<Longrightarrow> hold_view s' = hold_view s"
  by (auto simp: grid_sock_getopt_inner_def split: if_splits prod.splits option.splits dest!: optset_view)

lemma keeps_getopt: "keeps_holds (\<lambda>V. grid_sock_getopt V level opt n)"
  by (rule keeps_holdsI) (auto simp: grid_sock_getopt_def bind_eq_Some_conv split: if_splits dest!: leave_view getopt_inner_view)

lemma keeps_add_ep: "keeps_holds (\<lambda>V. grid_sock_add_ep V create addr)"
  by (rule keeps_holdsI) (auto simp: grid_sock_add_ep_def Let_def split: bind_splits sum.split_asm dest!: leave_view)

lemma keeps_rm_ep: "keeps_holds (\<lambda>V. grid_sock_rm_ep V eid)"
  by (rule keeps_holdsI) (auto simp: grid_sock_rm_ep_def bind_eq_Some_conv split: option.splits dest!: leave_view shut_ep_view)

lemma keeps_pipe_in: "keeps_holds (no_result (\<lambda>V. sock_pipe_in V p))"
  by (rule keeps_no_result) (auto simp: sock_pipe_in_def intro: in_ctx_view feed_view)

lemma keeps_pipe_out: "keeps_holds (no_result (\<lambda>V. sock_pipe_out V p))"
  by (rule keeps_no_result) (auto simp: sock_pipe_out_def intro: in_ctx_view feed_view)

lemma keeps_zombify: "keeps_holds (no_result grid_sock_zombify)"
  by (rule keeps_no_result) (auto simp: grid_sock_zombify_def intro: in_ctx_view feed_view)

lemma keeps_leave: "keeps_holds (no_result grid_ctx_leave)"
  by (rule keeps_no_result) (rule leave_view)

text \<open>One pass of a blocking operation, up to its wait.\<close>

lemma wait_pass_view:
  "sock_wait_loop V attempt fd mark timeo dontwait dl d [] (s, w) = Some (r, s', w') \<Longrightarrow> hold_view s' = hold_view s"
  by (auto simp: leave_with_def split: option.splits prod.splits sum.splits if_splits dest!: leave_view)

lemma sock_send_view: "grid_sock_send V m dontwait now [] (s, w) = Some (r, s', w') \<Longrightarrow> hold_view s' = hold_view s"
  by (auto simp: grid_sock_send_def simp del: sock_wait_loop.simps split: if_splits prod.splits dest!: wait_pass_view)

lemma sock_recv_view: "grid_sock_recv V dontwait now [] (s, w) = Some (r, s', w') \<Longrightarrow> hold_view s' = hold_view s"
  by (auto simp: grid_sock_recv_def simp del: sock_wait_loop.simps split: if_splits prod.splits dest!: wait_pass_view)

lemma count_stat_view: "count_stat nm i s = Some s' \<Longrightarrow> hold_view s' = hold_view s"
  by (auto simp: count_stat_def)

lemma keeps_sendmsg: "keeps_holds (sock_sendmsg mh dontwait now [])"
  by (rule keeps_holdsI) (auto simp: sock_sendmsg_def split: bind_splits sum.split_asm option.split_asm outcome.split_asm
      dest!: sock_send_view count_stat_view)

lemma keeps_recvmsg: "keeps_holds (sock_recvmsg mh dontwait now [] junk)"
  by (rule keeps_holdsI) (auto simp: sock_recvmsg_def split: bind_splits sum.split_asm if_splits outcome.split_asm
      dest!: sock_recv_view count_stat_view)

lemmas keeps_ops = keeps_setopt keeps_getopt keeps_add_ep keeps_rm_ep keeps_pipe_in keeps_pipe_out keeps_zombify keeps_leave
  keeps_sendmsg keeps_recvmsg

section \<open>The descriptor table\<close>

definition free_slots :: "'w grid_global \<Rightarrow> nat list" where
  "free_slots gl = take (GRID_MAX_SOCKETS - gl_nsocks gl) (gl_unused gl)"

text \<open>
  The unused part of the stack holds exactly the descriptors without a socket, each once, and
  the number of sockets is right; different descriptors have different sockets.
\<close>

definition table_ok :: "'w grid_global \<Rightarrow> bool" where
  "table_ok gl \<longleftrightarrow> (case gl_socks gl of None \<Rightarrow> True | Some socks \<Rightarrow>
     length socks = GRID_MAX_SOCKETS \<and> length (gl_unused gl) = GRID_MAX_SOCKETS \<and> gl_nsocks gl \<le> GRID_MAX_SOCKETS
     \<and> distinct (free_slots gl) \<and> set (free_slots gl) = {i. i < GRID_MAX_SOCKETS \<and> socks ! i = None}
     \<and> (\<forall>i < GRID_MAX_SOCKETS. \<forall>j < GRID_MAX_SOCKETS. socks ! i \<noteq> None \<and> socks ! i = socks ! j \<longrightarrow> i = j))"

lemma table_okI:
  assumes "gl_socks gl = Some socks" and "length socks = GRID_MAX_SOCKETS" and "length (gl_unused gl) = GRID_MAX_SOCKETS"
    and "gl_nsocks gl \<le> GRID_MAX_SOCKETS" and "distinct (free_slots gl)"
    and "set (free_slots gl) = {i. i < GRID_MAX_SOCKETS \<and> socks ! i = None}"
    and "\<And>i j. i < GRID_MAX_SOCKETS \<Longrightarrow> j < GRID_MAX_SOCKETS \<Longrightarrow> socks ! i \<noteq> None \<Longrightarrow> socks ! i = socks ! j \<Longrightarrow> i = j"
  shows "table_ok gl"
  unfolding table_ok_def assms(1) option.case using assms(2-7) by blast

definition open_slots :: "'w grid_global \<Rightarrow> nat set" where
  "open_slots gl = (case gl_socks gl of None \<Rightarrow> {} | Some socks \<Rightarrow> {i. i < GRID_MAX_SOCKETS \<and> socks ! i \<noteq> None})"

definition socket_at :: "'w grid_global \<Rightarrow> nat \<Rightarrow> nat option" where
  "socket_at gl i = (case gl_socks gl of None \<Rightarrow> None | Some socks \<Rightarrow> if i < GRID_MAX_SOCKETS then socks ! i else None)"

lemma card_open: "table_ok gl \<Longrightarrow> gl_socks gl = Some socks \<Longrightarrow> card (open_slots gl) = gl_nsocks gl"
proof -
  assume t: "table_ok gl" "gl_socks gl = Some socks"
  then have d: "distinct (free_slots gl)" "set (free_slots gl) = {i. i < GRID_MAX_SOCKETS \<and> socks ! i = None}"
    "length (gl_unused gl) = GRID_MAX_SOCKETS" "gl_nsocks gl \<le> GRID_MAX_SOCKETS" by (simp_all add: table_ok_def)
  have "card (set (free_slots gl)) = GRID_MAX_SOCKETS - gl_nsocks gl"
    unfolding distinct_card [OF d(1)] by (simp add: free_slots_def d(3))
  moreover have "open_slots gl = {..<GRID_MAX_SOCKETS} - set (free_slots gl)"
    unfolding open_slots_def d(2) using t(2) by auto
  moreover have "set (free_slots gl) \<subseteq> {..<GRID_MAX_SOCKETS}" unfolding d(2) by auto
  ultimately have "card (open_slots gl) = GRID_MAX_SOCKETS - (GRID_MAX_SOCKETS - gl_nsocks gl)"
    by (simp add: card_Diff_subset)
  with d(4) show ?thesis by simp
qed

text \<open>Taking the top of the stack, and pushing a descriptor on it.\<close>

lemma free_slots_pop:
  assumes "length u = GRID_MAX_SOCKETS" and "n < GRID_MAX_SOCKETS"
  shows "take (GRID_MAX_SOCKETS - n) u = take (GRID_MAX_SOCKETS - (n + 1)) u @ [u ! (GRID_MAX_SOCKETS - n - 1)]"
proof -
  have "GRID_MAX_SOCKETS - n = Suc (GRID_MAX_SOCKETS - (n + 1))" using assms(2) by simp
  then show ?thesis using assms by (simp add: take_Suc_conv_app_nth)
qed

lemma free_slots_push:
  assumes "length u = GRID_MAX_SOCKETS" and "0 < n" and "n \<le> GRID_MAX_SOCKETS"
  shows "take (GRID_MAX_SOCKETS - (n - 1)) (u[GRID_MAX_SOCKETS - n := s]) = take (GRID_MAX_SOCKETS - n) u @ [s]"
proof -
  have "GRID_MAX_SOCKETS - (n - 1) = Suc (GRID_MAX_SOCKETS - n)" using assms by simp
  then show ?thesis using assms by (simp add: take_Suc_conv_app_nth)
qed

lemma table_add:
  assumes t: "table_ok gl" and sk: "gl_socks gl = Some socks" and n: "gl_nsocks gl < GRID_MAX_SOCKETS"
    and s: "s = gl_unused gl ! (GRID_MAX_SOCKETS - gl_nsocks gl - 1)" and a: "Some a \<notin> set socks"
  shows "s < GRID_MAX_SOCKETS" and "socks ! s = None"
    and "table_ok (gl\<lparr>gl_socks := Some (socks[s := Some a]), gl_nsocks := gl_nsocks gl + 1\<rparr>)"
proof -
  let ?gl = "gl\<lparr>gl_socks := Some (socks[s := Some a]), gl_nsocks := gl_nsocks gl + 1\<rparr>"
  have d: "distinct (free_slots gl)" "set (free_slots gl) = {i. i < GRID_MAX_SOCKETS \<and> socks ! i = None}"
    "length (gl_unused gl) = GRID_MAX_SOCKETS" "length socks = GRID_MAX_SOCKETS"
    "\<And>i j. i < GRID_MAX_SOCKETS \<Longrightarrow> j < GRID_MAX_SOCKETS \<Longrightarrow> socks ! i \<noteq> None \<Longrightarrow> socks ! i = socks ! j \<Longrightarrow> i = j"
    using t sk by (simp_all add: table_ok_def)
  have f: "free_slots gl = free_slots ?gl @ [s]" using free_slots_pop [OF d(3) n] s by (simp add: free_slots_def)
  then show sl: "s < GRID_MAX_SOCKETS" "socks ! s = None" using d(2) by auto
  have "socks ! i \<noteq> Some a" if "i < GRID_MAX_SOCKETS" for i using a that d(4) by (metis nth_mem)
  then have inj: "i = j" if "i < GRID_MAX_SOCKETS" "j < GRID_MAX_SOCKETS" "socks[s := Some a] ! i \<noteq> None"
    "socks[s := Some a] ! i = socks[s := Some a] ! j" for i j
    using that d(4,5) sl by (metis nth_list_update)
  have "set (free_slots ?gl) = set (free_slots gl) - {s}" "distinct (free_slots ?gl)"
    using d(1) unfolding f by auto
  moreover have "set (free_slots gl) - {s} = {i. i < GRID_MAX_SOCKETS \<and> socks[s := Some a] ! i = None}"
    unfolding d(2) using d(4) sl by (auto simp: nth_list_update)
  ultimately show "table_ok ?gl" using d(3,4) n by (intro table_okI [OF _ _ _ _ _ _ inj]) simp_all
qed

lemma table_remove:
  assumes t: "table_ok gl" and sk: "gl_socks gl = Some socks" and s: "s < GRID_MAX_SOCKETS" "socks ! s \<noteq> None"
  shows "table_ok (gl\<lparr>gl_socks := Some (socks[s := None]),
      gl_unused := (gl_unused gl)[GRID_MAX_SOCKETS - gl_nsocks gl := s], gl_nsocks := gl_nsocks gl - 1\<rparr>)" and "0 < gl_nsocks gl"
proof -
  let ?gl = "gl\<lparr>gl_socks := Some (socks[s := None]),
      gl_unused := (gl_unused gl)[GRID_MAX_SOCKETS - gl_nsocks gl := s], gl_nsocks := gl_nsocks gl - 1\<rparr>"
  have d: "distinct (free_slots gl)" "set (free_slots gl) = {i. i < GRID_MAX_SOCKETS \<and> socks ! i = None}"
    "length (gl_unused gl) = GRID_MAX_SOCKETS" "length socks = GRID_MAX_SOCKETS" "gl_nsocks gl \<le> GRID_MAX_SOCKETS"
    "\<And>i j. i < GRID_MAX_SOCKETS \<Longrightarrow> j < GRID_MAX_SOCKETS \<Longrightarrow> socks ! i \<noteq> None \<Longrightarrow> socks ! i = socks ! j \<Longrightarrow> i = j"
    using t sk by (simp_all add: table_ok_def)
  have "finite (open_slots gl)" "s \<in> open_slots gl" using sk s by (simp_all add: open_slots_def)
  then show n: "0 < gl_nsocks gl" using card_open [OF t sk] card_gt_0_iff by fastforce
  have f: "free_slots ?gl = free_slots gl @ [s]" using free_slots_push [OF d(3) n d(5)] by (simp add: free_slots_def)
  have inj: "i = j" if "i < GRID_MAX_SOCKETS" "j < GRID_MAX_SOCKETS" "socks[s := None] ! i \<noteq> None"
    "socks[s := None] ! i = socks[s := None] ! j" for i j
    using that d(4,6) s(1) by (metis nth_list_update)
  have "set (free_slots ?gl) = {i. i < GRID_MAX_SOCKETS \<and> socks[s := None] ! i = None}"
    unfolding f using d(2,4) s(1) by (auto simp: nth_list_update)
  moreover have "distinct (free_slots ?gl)" unfolding f using d(1,2) s(2) by auto
  ultimately show "table_ok ?gl" using d(3,4,5) by (intro table_okI [OF _ _ _ _ _ _ inj]) simp_all
qed

section \<open>Holds of all threads\<close>

text \<open>
  \<open>H\<close> are the holds of threads that are in an API call, \<open>C\<close> the sockets (with their descriptors) whose
  \<open>grid_close\<close> is between its two critical sections.
\<close>

definition hold_ok :: "nat multiset \<Rightarrow> (nat \<times> nat) set \<Rightarrow> nat \<Rightarrow> grid_sock \<Rightarrow> bool" where
  "hold_ok H C a s \<longleftrightarrow>
     (let closing = a \<in> fst ` C in
      hold_view s = (int (count H a) + (if closing then 0 else 1), if closing \<and> count H a = 0 then 1 else 0,
        if closing then FSM_STOPPING else FSM_ACTIVE, closing))"

definition global_inv :: "'w grid_global \<times> nat multiset \<times> (nat \<times> nat) set \<Rightarrow> bool" where
  "global_inv g = (case g of (gl, H, C) \<Rightarrow> table_ok gl
     \<and> (\<forall>a. gl_mem gl a \<noteq> None \<longleftrightarrow> (\<exists>i. socket_at gl i = Some a))
     \<and> (\<forall>a ob. gl_mem gl a = Some ob \<longrightarrow> hold_ok H C a (so_sock ob))
     \<and> (\<forall>a \<in># H. gl_mem gl a \<noteq> None)
     \<and> (\<forall>(a, i) \<in> C. socket_at gl i = Some a))"

lemma global_invI:
  assumes "table_ok gl" and "\<And>a. gl_mem gl a \<noteq> None \<longleftrightarrow> (\<exists>i. socket_at gl i = Some a)"
    and "\<And>a ob. gl_mem gl a = Some ob \<Longrightarrow> hold_ok H C a (so_sock ob)" and "\<And>a. a \<in># H \<Longrightarrow> gl_mem gl a \<noteq> None"
    and "\<And>a i. (a, i) \<in> C \<Longrightarrow> socket_at gl i = Some a"
  shows "global_inv (gl, H, C)"
  unfolding global_inv_def prod.case using assms by blast

lemma global_invD:
  assumes "global_inv (gl, H, C)"
  shows "table_ok gl" and "\<And>a. gl_mem gl a \<noteq> None \<longleftrightarrow> (\<exists>i. socket_at gl i = Some a)"
    and "\<And>a ob. gl_mem gl a = Some ob \<Longrightarrow> hold_ok H C a (so_sock ob)" and "\<And>a. a \<in># H \<Longrightarrow> gl_mem gl a \<noteq> None"
    and "\<And>a i. (a, i) \<in> C \<Longrightarrow> socket_at gl i = Some a"
  using assms unfolding global_inv_def prod.case by blast+

text \<open>Changing one socket's object, without touching the table.\<close>

lemma on_sock_frame:
  assumes "on_sock a f gl = Some (r, gl')"
  shows "gl_socks gl' = gl_socks gl" and "gl_unused gl' = gl_unused gl" and "gl_nsocks gl' = gl_nsocks gl"
    and "\<exists>ob s w. gl_mem gl a = Some ob \<and> f (so_env ob) (so_sock ob, gl_world gl) = Some (r, s, w)
      \<and> gl_mem gl' = (gl_mem gl)(a \<mapsto> ob\<lparr>so_sock := s\<rparr>)"
  using assms by (auto simp: on_sock_def bind_eq_Some_conv)

lemma table_cong:
  assumes "gl_socks gl' = gl_socks gl" and "gl_unused gl' = gl_unused gl" and "gl_nsocks gl' = gl_nsocks gl"
  shows "table_ok gl' = table_ok gl" and "socket_at gl' = socket_at gl" and "open_slots gl' = open_slots gl"
  unfolding table_ok_def free_slots_def socket_at_def open_slots_def fun_eq_iff assms by simp_all

lemma on_sock_inv:
  assumes i: "global_inv (gl, H, C)" and r: "on_sock a f gl = Some (r, gl')"
    and h: "\<And>ob s w. gl_mem gl a = Some ob \<Longrightarrow> f (so_env ob) (so_sock ob, gl_world gl) = Some (r, s, w) \<Longrightarrow>
        hold_ok H C a (so_sock ob) \<Longrightarrow> hold_ok H' C' a s"
    and o: "\<And>b s. b \<noteq> a \<Longrightarrow> hold_ok H' C' b s = hold_ok H C b s"
    and H: "\<And>b. b \<in># H' \<Longrightarrow> b \<in># H \<or> b = a" and C: "\<And>b j. (b, j) \<in> C' \<Longrightarrow> socket_at gl j = Some b"
  shows "global_inv (gl', H', C')"
proof -
  note d = global_invD [OF i]
  note fr = on_sock_frame [OF r]
  note tc = table_cong [OF fr(1-3)]
  obtain ob s w where ob: "gl_mem gl a = Some ob" "f (so_env ob) (so_sock ob, gl_world gl) = Some (r, s, w)"
    and m: "gl_mem gl' = (gl_mem gl)(a \<mapsto> ob\<lparr>so_sock := s\<rparr>)" using fr(4) by blast
  have ha: "hold_ok H' C' a s" using h [OF ob d(3) [OF ob(1)]] .
  show ?thesis
  proof (rule global_invI)
    show "table_ok gl'" using d(1) tc(1) by simp
    fix b
    show "gl_mem gl' b \<noteq> None \<longleftrightarrow> (\<exists>i. socket_at gl' i = Some b)"
      using d(2) [of b] ob(1) unfolding m tc(2) by (cases "b = a") auto
    show "b \<in># H' \<Longrightarrow> gl_mem gl' b \<noteq> None" using H [of b] d(4) [of b] unfolding m by (cases "b = a") auto
    show "(b, j) \<in> C' \<Longrightarrow> socket_at gl' j = Some b" for j using C tc(2) by simp
    show "hold_ok H' C' b (so_sock ob')" if "gl_mem gl' b = Some ob'" for ob'
      using that ha o [of b] d(3) [of b] unfolding m by (cases "b = a") auto
  qed
qed

lemma hold_ok_view: "hold_view s' = hold_view s \<Longrightarrow> hold_ok H C a s' = hold_ok H C a s"
  by (simp add: hold_ok_def)

lemma act_inv:
  assumes "global_inv (gl, H, C)" and "on_sock a f gl = Some (r, gl')" and "keeps_holds f"
  shows "global_inv (gl', H, C)"
proof (rule on_sock_inv [OF assms(1,2)])
  fix ob s w assume "f (so_env ob) (so_sock ob, gl_world gl) = Some (r, s, w)" "hold_ok H C a (so_sock ob)"
  moreover from this(1) assms(3) have "hold_view s = hold_view (so_sock ob)" unfolding keeps_holds_def by blast
  ultimately show "hold_ok H C a s" using hold_ok_view by metis
next
  show "(b, j) \<in> C \<Longrightarrow> socket_at gl j = Some b" for b j by (rule global_invD(5) [OF assms(1)])
qed simp_all

lemma hold_cases:
  assumes "grid_global_hold_socket_locked s gl = Some (Inr a, gl')"
  shows "\<exists>socks. gl_socks gl = Some socks \<and> 0 \<le> s \<and> s < int GRID_MAX_SOCKETS \<and> socks ! nat s = Some a
    \<and> on_sock a (\<lambda>V (sk, w). let (rc, sk1) = grid_sock_hold sk in Some (rc, sk1, w)) gl = Some (Inr (), gl')"
proof -
  obtain socks where sk: "gl_socks gl = Some socks" "0 \<le> s" "s < int GRID_MAX_SOCKETS"
    using assms by (auto simp: grid_global_hold_socket_locked_def split: option.split_asm if_split_asm)
  with assms obtain b where b: "socks ! nat s = Some b"
    by (auto simp: grid_global_hold_socket_locked_def split: option.split_asm if_split_asm)
  with sk assms obtain rc where "on_sock b (\<lambda>V (sk, w). let (rc, sk1) = grid_sock_hold sk in Some (rc, sk1, w)) gl = Some (rc, gl')"
    "(case rc of Inl e \<Rightarrow> Inl EBADF | Inr u \<Rightarrow> Inr b) = (Inr a :: errno + nat)"
    by (auto simp: grid_global_hold_socket_locked_def bind_eq_Some_conv split: if_split_asm)
  with sk b show ?thesis by (cases rc) auto
qed

lemma hold_step:
  assumes i: "global_inv (gl, H, C)" and r: "grid_global_hold_socket_locked s gl = Some (Inr a, gl')"
  shows "global_inv (gl', add_mset a H, C)" and "a \<notin> fst ` C" and "socket_at gl (nat s) = Some a" and "0 \<le> s"
    and "gl_socks gl' = gl_socks gl \<and> gl_unused gl' = gl_unused gl \<and> gl_nsocks gl' = gl_nsocks gl"
proof -
  let ?f = "\<lambda>V (sk, w). let (rc, sk1) = grid_sock_hold sk in Some (rc, sk1, w)"
  obtain socks where sk: "gl_socks gl = Some socks" "0 \<le> s" "s < int GRID_MAX_SOCKETS" "socks ! nat s = Some a"
    and on: "on_sock a ?f gl = Some (Inr (), gl')" using hold_cases [OF r] by blast
  then show "socket_at gl (nat s) = Some a" "0 \<le> s" by (auto simp: socket_at_def)
  show "gl_socks gl' = gl_socks gl \<and> gl_unused gl' = gl_unused gl \<and> gl_nsocks gl' = gl_nsocks gl"
    using on_sock_frame [OF on] by simp
  obtain ob where ob: "gl_mem gl a = Some ob" "sk_state (so_sock ob) = SOCK_ACTIVE \<or> sk_state (so_sock ob) = SOCK_INIT"
  proof -
    from on_sock_frame(4) [OF on] obtain ob s w where ob: "gl_mem gl a = Some ob"
      "?f (so_env ob) (so_sock ob, gl_world gl) = Some (Inr (), s, w)" by blast
    from ob(2) have "sk_state (so_sock ob) = SOCK_ACTIVE \<or> sk_state (so_sock ob) = SOCK_INIT"
      by (cases "sk_state (so_sock ob)") (simp_all add: grid_sock_hold_def)
    with ob(1) that show thesis by blast
  qed
  from global_invD(3) [OF i ob(1)] ob(2) show nc: "a \<notin> fst ` C"
    by (auto simp: hold_ok_def hold_defs Let_def split: if_splits)
  show "global_inv (gl', add_mset a H, C)"
  proof (rule on_sock_inv [OF i on])
    fix ob1 s1 w1
    assume "?f (so_env ob1) (so_sock ob1, gl_world gl) = Some (Inr (), s1, w1)" "hold_ok H C a (so_sock ob1)"
    with nc show "hold_ok (add_mset a H) C a s1"
      by (auto simp: hold_ok_def hold_defs grid_sock_hold_def split: sock_state.splits)
  qed (use global_invD(5) [OF i] in \<open>auto simp: hold_ok_def\<close>)
qed

lemma rele_step:
  assumes i: "global_inv (gl, H, C)" and a: "a \<in># H"
  shows "\<exists>gl'. grid_global_rele_socket a gl = Some gl' \<and> global_inv (gl', H - {#a#}, C)
     \<and> gl_socks gl' = gl_socks gl"
proof -
  let ?f = "\<lambda>V (sk, w). Some ((), grid_sock_rele sk, w)"
  obtain ob where ob: "gl_mem gl a = Some ob" using global_invD(4) [OF i a] by blast
  then obtain gl' where on: "on_sock a ?f gl = Some ((), gl')" by (auto simp: on_sock_def)
  have "global_inv (gl', H - {#a#}, C)"
  proof (rule on_sock_inv [OF i on])
    fix ob1 s1 w1
    assume b: "?f (so_env ob1) (so_sock ob1, gl_world gl) = Some ((), s1, w1)" "hold_ok H C a (so_sock ob1)"
    obtain k where "count H a = Suc k" using a by (metis count_eq_zero_iff not0_implies_Suc)
    with b show "hold_ok (H - {#a#}) C a s1"
      by (auto simp: hold_ok_def hold_defs grid_sock_rele_def Let_def split: if_splits)
  qed (use global_invD(5) [OF i] in \<open>auto simp: hold_ok_def dest: in_diffD\<close>)
  with on on_sock_frame(1) [OF on] show ?thesis by (auto simp: grid_global_rele_socket_def)
qed

section \<open>Closing\<close>

lemma shutdown_stop_view:
  assumes "grid_sock_shutdown V IN_STOP (s, w) = Some (s', w')"
  shows "hold_view s' = (sk_holds s, sk_relesem s, fs_state (sk_fsm s), True)"
proof -
  obtain s2 s3 w3 where v: "hold_view s2 = hold_view s" and e: "shut_eps V (sk_eps s2) (s2, w) = Some (s3, w3)"
    and f: "shutdown_finish2 V (s3\<lparr>sk_state := SOCK_STOPPING_EPS\<rparr>, w3) = Some (s', w')"
  proof -
    define s2 where "s2 = (let t = (if \<not> st_norecv V then s\<lparr>sk_rcvfd := grid_efd_stop (sk_rcvfd s)\<rparr> else s)
      in if \<not> st_nosend V then t\<lparr>sk_sndfd := grid_efd_stop (sk_sndfd t)\<rparr> else t)"
    have "hold_view s2 = hold_view s" by (simp add: s2_def Let_def)
    moreover have "Option.bind (shut_eps V (sk_eps s2) (s2, w))
        (\<lambda>(s3, w1). shutdown_finish2 V (s3\<lparr>sk_state := SOCK_STOPPING_EPS\<rparr>, w1)) = Some (s', w')"
      using assms unfolding s2_def
      by (cases "st_norecv V"; cases "st_nosend V"; auto simp: grid_sock_shutdown_def Let_def split: if_split_asm)
    ultimately show thesis using that by (auto simp: bind_eq_Some_conv)
  qed
  have "hold_view s' = hold_view (s3\<lparr>sk_state := SOCK_STOPPING_EPS\<rparr>)"
    by (rule finish2_view [OF f]) (simp add: sock_closing_def)
  with shut_eps_view [OF e] v show ?thesis by (simp add: hold_defs)
qed

lemma sock_stop_view:
  assumes "grid_sock_stop V (s, w) = Some (s', w')" and "fs_state (sk_fsm s) = FSM_ACTIVE" and "\<not> sock_closing s"
  shows "hold_view s' = (sk_holds s, sk_relesem s, FSM_STOPPING, True)"
proof -
  let ?s = "s\<lparr>sk_fsm := (sk_fsm s)\<lparr>fs_state := FSM_STOPPING\<rparr>\<rparr>"
  obtain s1 w1 where sh: "grid_sock_shutdown V IN_STOP (?s, w) = Some (s1, w1)" and l: "grid_ctx_leave V (s1, w1) = Some (s', w')"
    using assms(1,2) by (auto simp: grid_sock_stop_def in_ctx_def grid_fsm_stop_def sock_fsm_update_def bind_eq_Some_conv)
  have "hold_view s1 = (sk_holds ?s, sk_relesem ?s, FSM_STOPPING, True)" using shutdown_stop_view [OF sh] by simp
  with leave_view [OF l] show ?thesis by simp
qed

lemma close_begin_step:
  assumes i: "global_inv (gl, H, C)" and r: "close_begin s gl = Some (Inr a, gl')"
  shows "global_inv (gl', H, insert (a, nat s) C)" and "socket_at gl (nat s) = Some a"
proof -
  obtain g1 u g2 g3 where h: "grid_global_hold_socket_locked s gl = Some (Inr a, g1)"
    and st: "on_sock a (no_result grid_sock_stop) g1 = Some (u, g2)"
    and r1: "grid_global_rele_socket a g2 = Some g3" and r2: "grid_global_rele_socket a g3 = Some gl'"
  proof -
    from r obtain h g1 where h: "grid_global_hold_socket_locked s gl = Some (h, g1)"
      by (auto simp: close_begin_def bind_eq_Some_conv)
    with r that show thesis by (cases h) (auto simp: close_begin_def bind_eq_Some_conv)
  qed
  note hs = hold_step [OF i h]
  show sa: "socket_at gl (nat s) = Some a" using hs(3) .
  have sa1: "socket_at g1 (nat s) = Some a" using sa table_cong(2) [of g1 gl] hs(5) by simp
  let ?C = "insert (a, nat s) C"
  have "global_inv (g2, add_mset a (add_mset a H), ?C)"
  proof (rule on_sock_inv [OF hs(1) st])
    fix ob s1 w1
    assume f: "no_result grid_sock_stop (so_env ob) (so_sock ob, gl_world g1) = Some (u, s1, w1)"
      and k: "hold_ok (add_mset a H) C a (so_sock ob)"
    have k': "hold_view (so_sock ob) = (int (count H a) + 2, 0, FSM_ACTIVE, False)" using k hs(2) by (simp add: hold_ok_def)
    have st: "grid_sock_stop (so_env ob) (so_sock ob, gl_world g1) = Some (s1, w1)" using f by (auto simp: no_result_def)
    have "hold_view s1 = (sk_holds (so_sock ob), sk_relesem (so_sock ob), FSM_STOPPING, True)"
      by (rule sock_stop_view [OF st]) (use k' in \<open>simp_all add: hold_view_def\<close>)
    with k' show "hold_ok (add_mset a (add_mset a H)) ?C a s1" by (simp add: hold_ok_def hold_view_def)
  next
    fix b s show "b \<noteq> a \<Longrightarrow> hold_ok (add_mset a (add_mset a H)) ?C b s = hold_ok (add_mset a H) C b s"
      by (simp add: hold_ok_def)
  next
    fix b j assume "(b, j) \<in> ?C"
    then show "socket_at g1 j = Some b" using sa1 global_invD(5) [OF hs(1)] by auto
  qed auto
  from rele_step [OF this, of a] r1 have "global_inv (g3, add_mset a H, ?C)" by auto
  from rele_step [OF this, of a] r2 show "global_inv (gl', H, ?C)" by auto
qed

text \<open>A socket that somebody holds blocks the thread that closes it.\<close>

lemma close_blocked:
  assumes i: "global_inv (gl, H, C)" and a: "a \<in># H"
  shows "close_end a j gl = Some Blocked"
proof -
  obtain ob where ob: "gl_mem gl a = Some ob" using global_invD(4) [OF i a] by blast
  have "count H a \<noteq> 0" using a by simp
  then have "sk_relesem (so_sock ob) = 0"
    using global_invD(3) [OF i ob] by (simp add: hold_ok_def hold_view_def Let_def)
  with ob show ?thesis by (simp add: close_end_def grid_sock_term_def)
qed

lemma global_term_cases:
  assumes "grid_global_term gl = Some gl'"
  shows "gl_mem gl' = gl_mem gl \<and> gl_nsocks gl' = gl_nsocks gl \<and> gl_unused gl' = gl_unused gl \<and>
    (if gl_nsocks gl > 0 then gl' = gl else gl_socks gl' = None)"
proof (cases "gl_nsocks gl > 0")
  case False
  then obtain g where g: "grid_fsm_stop gl_fsm gl_fsm_upd (grid_global_shutdown GL_STOP) gl = Some g"
    and e: "gl' = g\<lparr>gl_world := fold tr_term (gl_transports g) (gl_world g), gl_transports := [], gl_socktypes := [], gl_socks := None\<rparr>"
    using assms by (auto simp: grid_global_term_def bind_eq_Some_conv split: if_splits)
  have "gl_mem g = gl_mem gl \<and> gl_nsocks g = gl_nsocks gl \<and> gl_unused g = gl_unused gl"
    using g by (auto simp: grid_fsm_stop_def gl_fsm_upd_def grid_global_shutdown_def bind_eq_Some_conv split: if_splits)
  with e False show ?thesis by simp
qed (use assms in \<open>auto simp: grid_global_term_def split: if_splits\<close>)

lemma global_term_inv:
  assumes i: "global_inv (gl, H, C)" and r: "grid_global_term gl = Some gl'"
  shows "global_inv (gl', H, C)" and "open_slots gl' = open_slots gl"
proof -
  note d = global_invD [OF i]
  obtain socks where sk: "gl_socks gl = Some socks" using r by (auto simp: grid_global_term_def split: if_splits)
  have o: "global_inv (gl', H, C) \<and> open_slots gl' = open_slots gl"
  proof (cases "gl_nsocks gl > 0")
    case True
    with global_term_cases [OF r] i show ?thesis by simp
  next
    case False
    then have "card (open_slots gl) = 0" using card_open [OF d(1) sk] by simp
    moreover have "finite (open_slots gl)" by (simp add: open_slots_def sk)
    ultimately have e: "open_slots gl = {}" by simp
    then have "socket_at gl j = None" for j using sk by (auto simp: open_slots_def socket_at_def)
    with d(2,4,5) have m: "gl_mem gl a = None" "H = {#}" "C = {}" for a by (auto simp: multiset_nonemptyE)
    have "socket_at gl' j = None" "table_ok gl'" for j using global_term_cases [OF r] False by (auto simp: socket_at_def table_ok_def)
    with m global_term_cases [OF r] have "global_inv (gl', H, C)" by (intro global_invI) auto
    moreover have "open_slots gl' = {}" using global_term_cases [OF r] False by (simp add: open_slots_def)
    ultimately show ?thesis using e by simp
  qed
  then show "global_inv (gl', H, C)" "open_slots gl' = open_slots gl" by simp_all
qed

lemma close_end_step:
  assumes i: "global_inv (gl, H, C)" and r: "close_end a (int j) gl = Some (Ran gl')" and c: "(a, j) \<in> C"
  shows "global_inv (gl', H, C - {(a, j)})" and "open_slots gl' = open_slots gl - {j}"
proof -
  note d = global_invD [OF i]
  have sa: "socket_at gl j = Some a" using d(5) [OF c] .
  then obtain socks where sk: "gl_socks gl = Some socks" "j < GRID_MAX_SOCKETS" "socks ! j = Some a"
    by (auto simp: socket_at_def split: option.splits if_splits)
  define g where "g = gl\<lparr>gl_socks := Some (socks[j := None]),
      gl_unused := (gl_unused gl)[GRID_MAX_SOCKETS - gl_nsocks gl := j], gl_nsocks := gl_nsocks gl - 1, gl_mem := (gl_mem gl)(a := None)\<rparr>"
  have t: "grid_global_term g = Some gl'"
  proof -
    obtain ob where "gl_mem gl a = Some ob" using r by (auto simp: close_end_def bind_eq_Some_conv)
    with r sk show ?thesis
      by (cases "grid_sock_term (so_env ob) (so_sock ob, gl_world gl)") (auto simp: close_end_def g_def bind_eq_Some_conv)
  qed
  have nh: "a \<notin># H" using close_blocked [OF i, of a "int j"] r by auto
  have len: "length socks = GRID_MAX_SOCKETS" using d(1) sk(1) by (simp add: table_ok_def)
  have uniq: "socket_at gl k = Some a \<longleftrightarrow> k = j" for k
    using d(1) sk unfolding table_ok_def socket_at_def by (auto split: if_splits)
  have at: "socket_at g k = (if k = j then None else socket_at gl k)" for k
    using sk len by (auto simp: socket_at_def g_def)
  have "table_ok g"
    using table_remove(1) [OF d(1) sk(1,2)] sk(3) by (subst table_cong(1)) (simp_all add: g_def)
  then have "global_inv (g, H, C - {(a, j)})"
  proof (rule global_invI)
    fix b
    show "gl_mem g b \<noteq> None \<longleftrightarrow> (\<exists>k. socket_at g k = Some b)"
    proof (cases "b = a")
      case True
      then show ?thesis using uniq unfolding at by (simp add: g_def)
    next
      case False
      then have "socket_at gl k = Some b \<Longrightarrow> k \<noteq> j" for k using sa by auto
      then show ?thesis using d(2) [of b] False unfolding at by (auto simp: g_def)
    qed
    show "b \<in># H \<Longrightarrow> gl_mem g b \<noteq> None" using d(4) [of b] nh by (auto simp: g_def)
    show "(b, k) \<in> C - {(a, j)} \<Longrightarrow> socket_at g k = Some b" for k
      using d(5) [of b k] sa unfolding at by auto
    show "hold_ok H (C - {(a, j)}) b (so_sock ob)" if "gl_mem g b = Some ob" for ob
    proof -
      from that have "b \<noteq> a" "gl_mem gl b = Some ob" by (auto simp: g_def split: if_splits)
      moreover from this have "b \<in> fst ` (C - {(a, j)}) \<longleftrightarrow> b \<in> fst ` C" by force
      ultimately show ?thesis using d(3) by (simp add: hold_ok_def)
    qed
  qed
  from global_term_inv [OF this t] show "global_inv (gl', H, C - {(a, j)})" "open_slots gl' = open_slots gl - {j}"
    using sk len by (auto simp: open_slots_def g_def nth_list_update split: if_splits)
qed

section \<open>Opening\<close>

lemma sock_init_view:
  assumes "grid_sock_init V efds nm cr w = Some (Inr (s, w'))"
  shows "hold_view s = (1, 0, FSM_ACTIVE, False)"
proof -
  obtain sfd rfd w1 where c: "in_ctx V (grid_fsm_start (sk_fsm \<circ> fst) sock_fsm_update (grid_sock_handler V IN_START))
      (sock_defaults nm sfd rfd, w1) = Some (s, w')"
    using assms by (auto simp: grid_sock_init_def bind_eq_Some_conv split: sum.split_asm if_split_asm)
  then obtain s1 w2 where s1: "grid_fsm_start (sk_fsm \<circ> fst) sock_fsm_update (grid_sock_handler V IN_START)
      (sock_defaults nm sfd rfd, w1) = Some (s1, w2)" and l: "grid_ctx_leave V (s1, w2) = Some (s, w')"
    by (auto simp: in_ctx_def bind_eq_Some_conv)
  have "hold_view s1 = (1, 0, FSM_ACTIVE, False)"
    using s1 by (auto simp: grid_fsm_start_def grid_sock_handler_def sock_defaults_def sock_fsm_update_def hold_defs
        grid_fsm_isidle_def grid_fsm_init_def)
  with leave_view [OF l] show ?thesis by simp
qed

lemma create_socket_cases:
  fixes gl :: "'w grid_global"
  assumes r: "grid_global_create_socket a efds domain protocol gl = Some (rc, gl')"
  shows "(\<exists>e. rc = Inl e) \<and> gl' = gl \<or> (\<exists>(t :: 'w socktype) sk w socks. gl_nsocks gl < GRID_MAX_SOCKETS
    \<and> rc = Inr (int (gl_unused gl ! (GRID_MAX_SOCKETS - gl_nsocks gl - 1))) \<and> gl_socks gl = Some socks
    \<and> grid_sock_init (ty_env t a) efds (dec_nat (gl_unused gl ! (GRID_MAX_SOCKETS - gl_nsocks gl - 1))) (ty_create t a) (gl_world gl)
        = Some (Inr (sk, w))
    \<and> gl' = gl\<lparr>gl_socks := Some (socks[gl_unused gl ! (GRID_MAX_SOCKETS - gl_nsocks gl - 1) := Some a]), gl_nsocks := gl_nsocks gl + 1,
                  gl_mem := (gl_mem gl)(a \<mapsto> \<lparr>so_env = ty_env t a, so_sock = sk\<rparr>), gl_world := w\<rparr>)"
proof -
  let ?s = "gl_unused gl ! (GRID_MAX_SOCKETS - gl_nsocks gl - 1)"
  show ?thesis
  proof (cases "domain \<noteq> AF_SP \<and> domain \<noteq> AF_SP_RAW \<or> gl_nsocks gl \<ge> GRID_MAX_SOCKETS
      \<or> find (\<lambda>t. ty_domain t = domain \<and> ty_protocol t = protocol) (gl_socktypes gl) = None")
    case True
    with r show ?thesis by (auto simp: grid_global_create_socket_def Let_def split: if_split_asm)
  next
    case False
    then obtain t where t: "find (\<lambda>t. ty_domain t = domain \<and> ty_protocol t = protocol) (gl_socktypes gl) = Some t" by blast
    have n: "gl_nsocks gl < GRID_MAX_SOCKETS" using False by simp
    obtain x where x: "grid_sock_init (ty_env t a) efds (dec_nat ?s) (ty_create t a) (gl_world gl) = Some x"
      using r False t by (auto simp: grid_global_create_socket_def Let_def bind_eq_Some_conv)
    show ?thesis
    proof (cases x)
      case (Inl e)
      with r False t x show ?thesis by (auto simp: grid_global_create_socket_def Let_def)
    next
      case (Inr sw)
      obtain sk w where sw: "sw = (sk, w)" by (cases sw)
      obtain socks where "gl_socks gl = Some socks"
        using r False t x Inr sw by (auto simp: grid_global_create_socket_def Let_def bind_eq_Some_conv)
      then show ?thesis using r False t x Inr sw n
        by (intro disjI2 exI [of _ t] exI [of _ sk] exI [of _ w] exI [of _ socks])
          (auto simp: grid_global_create_socket_def Let_def)
    qed
  qed
qed

lemma create_socket_step:
  fixes gl :: "'w grid_global"
  assumes i: "global_inv (gl, H, C)" and r: "grid_global_create_socket a efds domain protocol gl = Some (rc, gl')"
    and a: "gl_mem gl a = None" and sk: "gl_socks gl = Some socks"
  shows "global_inv (gl', H, C)"
    and "case rc of Inl e \<Rightarrow> gl' = gl | Inr s \<Rightarrow> 0 \<le> s \<and> nat s < GRID_MAX_SOCKETS \<and> nat s \<notin> open_slots gl
      \<and> open_slots gl' = insert (nat s) (open_slots gl) \<and> socket_at gl' (nat s) = Some a \<and> (\<exists>ob. gl_mem gl' = (gl_mem gl)(a \<mapsto> ob))"
proof -
  note d = global_invD [OF i]
  have "global_inv (gl', H, C) \<and> (case rc of Inl e \<Rightarrow> gl' = gl | Inr s \<Rightarrow> 0 \<le> s \<and> nat s < GRID_MAX_SOCKETS \<and> nat s \<notin> open_slots gl
      \<and> open_slots gl' = insert (nat s) (open_slots gl) \<and> socket_at gl' (nat s) = Some a \<and> (\<exists>ob. gl_mem gl' = (gl_mem gl)(a \<mapsto> ob)))"
  proof (cases rc)
    case (Inl e)
    then have "gl' = gl" using create_socket_cases [OF r] by auto
    with Inl i show ?thesis by simp
  next
    case (Inr s)
    let ?s = "gl_unused gl ! (GRID_MAX_SOCKETS - gl_nsocks gl - 1)"
    obtain t :: "'w socktype" and sk0 w where n: "gl_nsocks gl < GRID_MAX_SOCKETS" and s: "s = int ?s"
      and si: "grid_sock_init (ty_env t a) efds (dec_nat ?s) (ty_create t a) (gl_world gl) = Some (Inr (sk0, w))"
      and e: "gl' = gl\<lparr>gl_socks := Some (socks[?s := Some a]), gl_nsocks := gl_nsocks gl + 1,
                  gl_mem := (gl_mem gl)(a \<mapsto> \<lparr>so_env = ty_env t a, so_sock = sk0\<rparr>), gl_world := w\<rparr>"
      using create_socket_cases [OF r] Inr sk by auto
    have len: "length socks = GRID_MAX_SOCKETS" using d(1) sk by (simp add: table_ok_def)
    have nin: "Some a \<notin> set socks"
    proof
      assume "Some a \<in> set socks"
      then obtain j where "j < GRID_MAX_SOCKETS" "socks ! j = Some a" using len by (auto simp: in_set_conv_nth)
      then have "socket_at gl j = Some a" using sk by (simp add: socket_at_def)
      with d(2) [of a] a show False by auto
    qed
    note ta = table_add [OF d(1) sk n refl nin]
    have at: "socket_at gl' k = (if k = ?s then Some a else socket_at gl k)" for k
      using e sk len ta(1) by (auto simp: socket_at_def)
    have old: "socket_at gl ?s = None" using ta sk by (simp add: socket_at_def)
    have nC: "a \<notin> fst ` C"
    proof
      assume "a \<in> fst ` C"
      then obtain j where "(a, j) \<in> C" by auto
      from d(5) [OF this] d(2) [of a] a show False by auto
    qed
    have nH: "a \<notin># H" using d(4) a by blast
    have "global_inv (gl', H, C)"
    proof (rule global_invI)
      show "table_ok gl'" using ta(3) e by (subst table_cong(1) [of gl']) simp_all
      fix b
      show "gl_mem gl' b \<noteq> None \<longleftrightarrow> (\<exists>k. socket_at gl' k = Some b)"
      proof (cases "b = a")
        case True
        then show ?thesis using at [of ?s] e by auto
      next
        case False
        then have "socket_at gl' k = Some b \<longleftrightarrow> socket_at gl k = Some b" for k using old unfolding at by auto
        then show ?thesis using d(2) [of b] False e by simp
      qed
      show "b \<in># H \<Longrightarrow> gl_mem gl' b \<noteq> None" using d(4) [of b] by (simp add: e)
      show "(b, k) \<in> C \<Longrightarrow> socket_at gl' k = Some b" for k using d(5) [of b k] old unfolding at by auto
      show "hold_ok H C b (so_sock ob)" if "gl_mem gl' b = Some ob" for ob
      proof (cases "b = a")
        case True
        with that e have "so_sock ob = sk0" by auto
        moreover have "count H a = 0" using nH by (simp add: not_in_iff)
        ultimately show ?thesis using True sock_init_view [OF si] nC by (simp add: hold_ok_def)
      qed (use that d(3) e in auto)
    qed
    moreover have "open_slots gl' = insert ?s (open_slots gl)" "?s \<notin> open_slots gl"
      using e sk len ta(1,2) by (auto simp: open_slots_def nth_list_update)
    ultimately show ?thesis using Inr s ta(1) at e by auto
  qed
  then show "global_inv (gl', H, C)" and "case rc of Inl e \<Rightarrow> gl' = gl | Inr s \<Rightarrow> 0 \<le> s \<and> nat s < GRID_MAX_SOCKETS \<and> nat s \<notin> open_slots gl
      \<and> open_slots gl' = insert (nat s) (open_slots gl) \<and> socket_at gl' (nat s) = Some a \<and> (\<exists>ob. gl_mem gl' = (gl_mem gl)(a \<mapsto> ob))" by simp_all
qed

lemma inv_cong:
  assumes "global_inv (gl, H, C)" and "gl_socks gl' = gl_socks gl" and "gl_unused gl' = gl_unused gl"
    and "gl_nsocks gl' = gl_nsocks gl" and "gl_mem gl' = gl_mem gl"
  shows "global_inv (gl', H, C)"
  unfolding global_inv_def prod.case table_cong [OF assms(2-4)] assms(5) using assms(1) [unfolded global_inv_def prod.case] .

lemma create_ep_step:
  fixes gl :: "'w grid_global"
  assumes "global_inv (gl, H, C)" and "grid_global_create_ep a addr bnd gl = Some (rc, gl')"
  shows "global_inv (gl', H, C)" and "gl_socks gl' = gl_socks gl" and "dom (gl_mem gl') = dom (gl_mem gl)"
proof -
  have "gl' = gl \<or> (\<exists>(tp :: 'w transport) rest. on_sock a (\<lambda>V. grid_sock_add_ep V (tr_create tp a bnd) rest) gl = Some (rc, gl'))"
    using assms(2) by (auto simp: grid_global_create_ep_def split: option.split_asm if_split_asm)
  then have "global_inv (gl', H, C) \<and> gl_socks gl' = gl_socks gl \<and> dom (gl_mem gl') = dom (gl_mem gl)"
  proof
    assume "\<exists>(tp :: 'w transport) rest. on_sock a (\<lambda>V. grid_sock_add_ep V (tr_create tp a bnd) rest) gl = Some (rc, gl')"
    then obtain tp :: "'w transport" and rest where o: "on_sock a (\<lambda>V. grid_sock_add_ep V (tr_create tp a bnd) rest) gl = Some (rc, gl')" by blast
    from act_inv [OF assms(1) o keeps_add_ep] on_sock_frame(1,4) [OF o] show ?thesis by (auto split: if_splits)
  qed (use assms(1) in simp)
  then show "global_inv (gl', H, C)" "gl_socks gl' = gl_socks gl" "dom (gl_mem gl') = dom (gl_mem gl)" by simp_all
qed

lemma fold_transports: "fold grid_global_add_transport ts gl = gl\<lparr>gl_world := fold tr_init ts (gl_world gl), gl_transports := gl_transports gl @ ts\<rparr>"
  by (induction ts arbitrary: gl) (simp_all add: grid_global_add_transport_def)

lemma fold_socktypes: "fold grid_global_add_socktype ts gl = gl\<lparr>gl_socktypes := gl_socktypes gl @ ts\<rparr>"
  by (induction ts arbitrary: gl) (simp_all add: grid_global_add_socktype_def)

lemma fresh_table:
  assumes "gl_socks gl = Some (replicate GRID_MAX_SOCKETS None)" and "gl_nsocks gl = 0"
    and "gl_unused gl = map (\<lambda>i. GRID_MAX_SOCKETS - i - 1) [0..<GRID_MAX_SOCKETS]"
  shows "table_ok gl" and "socket_at gl i = None" and "open_slots gl = {}"
proof -
  have d: "distinct (map (\<lambda>i. GRID_MAX_SOCKETS - i - 1) [0..<GRID_MAX_SOCKETS])"
    by (auto simp: distinct_map inj_on_def)
  have "j \<in> (\<lambda>i. GRID_MAX_SOCKETS - i - 1) ` {0..<GRID_MAX_SOCKETS}" if "j < GRID_MAX_SOCKETS" for j
    using that by (intro image_eqI [of _ _ "GRID_MAX_SOCKETS - j - 1"]) auto
  then have "set (map (\<lambda>i. GRID_MAX_SOCKETS - i - 1) [0..<GRID_MAX_SOCKETS]) = {i. i < GRID_MAX_SOCKETS}"
    by auto
  with d show "table_ok gl" unfolding table_ok_def assms(1) option.case free_slots_def assms(2,3) by auto
  show "socket_at gl i = None" "open_slots gl = {}" by (simp_all add: socket_at_def open_slots_def assms(1))
qed

lemma handler_start_frame:
  assumes "grid_fsm_start gl_fsm gl_fsm_upd (grid_global_handler submit GL_START) gl = Some gl'"
  shows "gl_socks gl' = gl_socks gl" and "gl_unused gl' = gl_unused gl" and "gl_nsocks gl' = gl_nsocks gl" and "gl_mem gl' = gl_mem gl"
  using assms by (auto simp: grid_fsm_start_def gl_fsm_upd_def grid_global_handler_def bind_eq_Some_conv Let_def
      split: global_state.split_asm if_split_asm)

lemma global_init_step:
  fixes gl :: "'w grid_global"
  assumes i: "global_inv (gl, H, C)" and r: "grid_global_init cf a0 efds submit gl = Some gl'" and a0: "gl_mem gl a0 = None"
  shows "global_inv (gl', H, C) \<and> gl_socks gl' \<noteq> None \<and> dom (gl_mem gl') \<subseteq> insert a0 (dom (gl_mem gl))
    \<and> (gl_socks gl \<noteq> None \<longrightarrow> gl' = gl)"
proof (cases "gl_socks gl = None")
  case False
  with i r show ?thesis by (auto simp: grid_global_init_def)
next
  case True
  note d = global_invD [OF i]
  from True have "socket_at gl j = None" for j by (simp add: socket_at_def)
  with d(2,4,5) have m: "gl_mem gl b = None" "H = {#}" "C = {}" for b by (auto simp: multiset_nonemptyE)
  define gl4 where "gl4 = (fold grid_global_add_socktype (cf_socktypes cf) (fold grid_global_add_transport (cf_transports cf)
      (gl\<lparr>gl_socks := Some (replicate GRID_MAX_SOCKETS None), gl_nsocks := 0, gl_zombie := False,
        gl_print_errors := env_true (cf_print_errors cf), gl_print_statistics := env_true (cf_print_statistics cf),
        gl_unused := map (\<lambda>i. GRID_MAX_SOCKETS - i - 1) [0..<GRID_MAX_SOCKETS], gl_transports := [], gl_socktypes := []\<rparr>)))
      \<lparr>gl_fsm := grid_fsm_init, gl_state := GLOBAL_IDLE, gl_stat_timer := grid_timer_init\<rparr>"
  have g4: "gl_socks gl4 = Some (replicate GRID_MAX_SOCKETS None)" "gl_nsocks gl4 = 0"
    "gl_unused gl4 = map (\<lambda>i. GRID_MAX_SOCKETS - i - 1) [0..<GRID_MAX_SOCKETS]" "gl_mem gl4 = gl_mem gl"
    by (simp_all add: gl4_def fold_transports fold_socktypes)
  obtain gl5 ap hn where g5: "(case cf_statistics_socket cf of
                  None \<Rightarrow> Some (gl4\<lparr>gl_statistics_socket := -1\<rparr>)
                | Some str \<Rightarrow> do {
                    (rc, g) \<leftarrow> grid_global_create_socket a0 efds AF_SP 32 gl4;
                    case rc of
                      Inl e \<Rightarrow> None
                    | Inr s \<Rightarrow> do {
                        (rc1, g1) \<leftarrow> grid_global_create_ep a0 (Some str) False (g\<lparr>gl_statistics_socket := s\<rparr>);
                        case rc1 of Inl e \<Rightarrow> None | Inr i \<Rightarrow> Some g1 } }) = Some gl5"
    and g6: "grid_fsm_start gl_fsm gl_fsm_upd (grid_global_handler submit GL_START)
        (gl5\<lparr>gl_appname := ap, gl_hostname := hn\<rparr>) = Some gl'"
  proof -
    have "grid_global_init cf a0 efds submit gl = Option.bind (case cf_statistics_socket cf of
                  None \<Rightarrow> Some (gl4\<lparr>gl_statistics_socket := -1\<rparr>)
                | Some str \<Rightarrow> do {
                    (rc, g) \<leftarrow> grid_global_create_socket a0 efds AF_SP 32 gl4;
                    case rc of
                      Inl e \<Rightarrow> None
                    | Inr s \<Rightarrow> do {
                        (rc1, g1) \<leftarrow> grid_global_create_ep a0 (Some str) False (g\<lparr>gl_statistics_socket := s\<rparr>);
                        case rc1 of Inl e \<Rightarrow> None | Inr i \<Rightarrow> Some g1 } })
      (\<lambda>g. grid_fsm_start gl_fsm gl_fsm_upd (grid_global_handler submit GL_START)
        (g\<lparr>gl_appname := (case cf_application_name cf of Some x \<Rightarrow> take 63 x | None \<Rightarrow> ''gridmq.'' @ dec_nat (cf_pid cf)),
           gl_hostname := (case cf_hostname cf of Some x \<Rightarrow> take 63 x | None \<Rightarrow> take 63 (cf_gethostname cf))\<rparr>))"
      using True unfolding grid_global_init_def Let_def gl4_def by simp
    with r that show thesis by (auto simp: bind_eq_Some_conv)
  qed
  have i4: "global_inv (gl4, H, C)"
    using m fresh_table [OF g4(1-3)] g4(4) by (intro global_invI) auto
  have "global_inv (gl5, H, C) \<and> gl_socks gl5 \<noteq> None \<and> dom (gl_mem gl5) \<subseteq> insert a0 (dom (gl_mem gl))"
  proof (cases "cf_statistics_socket cf")
    case None
    with g5 have "gl5 = gl4\<lparr>gl_statistics_socket := -1\<rparr>" by simp
    with i4 g4 show ?thesis by (auto intro: inv_cong)
  next
    case (Some str)
    with g5 obtain rc g where c: "grid_global_create_socket a0 efds AF_SP 32 gl4 = Some (rc, g)"
      "(case rc of Inl e \<Rightarrow> None | Inr s \<Rightarrow> do {
          (rc1, g1) \<leftarrow> grid_global_create_ep a0 (Some str) False (g\<lparr>gl_statistics_socket := s\<rparr>);
          case rc1 of Inl e \<Rightarrow> None | Inr i \<Rightarrow> Some g1 }) = Some gl5" by (auto simp: bind_eq_Some_conv)
    then obtain s where s: "rc = Inr s" by (cases rc) auto
    obtain rc1 where e: "grid_global_create_ep a0 (Some str) False (g\<lparr>gl_statistics_socket := s\<rparr>) = Some (rc1, gl5)"
    proof -
      from c(2) s obtain rc1 g1 where x: "grid_global_create_ep a0 (Some str) False (g\<lparr>gl_statistics_socket := s\<rparr>) = Some (rc1, g1)"
        by (auto simp: bind_eq_Some_conv)
      with c(2) s that show thesis by (cases rc1) auto
    qed
    note cs = create_socket_step [OF i4 c(1) _ g4(1)]
    have ig: "global_inv (g\<lparr>gl_statistics_socket := s\<rparr>, H, C)" by (rule inv_cong [OF cs(1)]) (use a0 g4(4) in simp_all)
    note ce = create_ep_step [OF ig e]
    have "gl_socks g \<noteq> None" using cs(2) a0 g4(4) s by (auto simp: socket_at_def split: option.splits)
    moreover have "dom (gl_mem g) \<subseteq> insert a0 (dom (gl_mem gl))" using cs(2) a0 g4(4) s by auto
    ultimately show ?thesis using ce by simp
  qed
  with handler_start_frame [OF g6] True show ?thesis by (auto intro: inv_cong)
qed

lemma socket_step:
  fixes gl :: "'w grid_global"
  assumes i: "global_inv (gl, H, C)" and r: "grid_socket cf a0 a efds0 efds submit domain protocol gl = Some (rc, gl')"
    and f: "gl_mem gl a0 = None" "gl_mem gl a = None" "a \<noteq> a0"
  shows "global_inv (gl', H, C)"
    and "gl_socks gl \<noteq> None \<Longrightarrow> case rc of Inl e \<Rightarrow> open_slots gl' = open_slots gl
      | Inr s \<Rightarrow> 0 \<le> s \<and> nat s < GRID_MAX_SOCKETS \<and> nat s \<notin> open_slots gl \<and> open_slots gl' = insert (nat s) (open_slots gl)"
proof -
  have "global_inv (gl', H, C) \<and> (gl_socks gl \<noteq> None \<longrightarrow> (case rc of Inl e \<Rightarrow> open_slots gl' = open_slots gl
      | Inr s \<Rightarrow> 0 \<le> s \<and> nat s < GRID_MAX_SOCKETS \<and> nat s \<notin> open_slots gl \<and> open_slots gl' = insert (nat s) (open_slots gl)))"
  proof (cases "gl_zombie gl")
    case True
    with i r show ?thesis by (auto simp: grid_socket_def)
  next
    case False
    then obtain gl1 rc1 gl2 where g: "grid_global_init cf a0 efds0 submit gl = Some gl1"
      "grid_global_create_socket a efds domain protocol gl1 = Some (rc1, gl2)"
      "(case rc1 of Inl e \<Rightarrow> map_option (\<lambda>gl3. (Inl e, gl3)) (grid_global_term gl2) | Inr s \<Rightarrow> Some (Inr s, gl2)) = Some (rc, gl')"
      using r by (auto simp: grid_socket_def bind_eq_Some_conv)
    note in1 = global_init_step [OF i g(1) f(1)]
    have a1: "gl_mem gl1 a = None" using in1 f(2,3) by auto
    obtain socks where sk: "gl_socks gl1 = Some socks" using in1 by auto
    note cs = create_socket_step [OF _ g(2) a1 sk, of H C]
    show ?thesis
    proof (cases rc1)
      case (Inl e)
      then have t: "grid_global_term gl2 = Some gl'" "rc = Inl e" using g(3) by auto
      have "global_inv (gl2, H, C)" using cs(1) in1 by simp
      from global_term_inv [OF this t(1)] have "global_inv (gl', H, C)" "open_slots gl' = open_slots gl2" by simp_all
      with cs(2) in1 Inl t(2) show ?thesis by simp
    next
      case (Inr s)
      with g(3) have "rc = Inr s" "gl' = gl2" by auto
      with cs in1 Inr show ?thesis by auto
    qed
  qed
  then show "global_inv (gl', H, C)"
    and "gl_socks gl \<noteq> None \<Longrightarrow> case rc of Inl e \<Rightarrow> open_slots gl' = open_slots gl
      | Inr s \<Rightarrow> 0 \<le> s \<and> nat s < GRID_MAX_SOCKETS \<and> nat s \<notin> open_slots gl \<and> open_slots gl' = insert (nat s) (open_slots gl)"
    by simp_all
qed

lemma term_all_step:
  "all_in_turn (\<lambda>i g. case socks ! i of None \<Rightarrow> Some g | Some a \<Rightarrow> map_option snd (on_sock a (no_result grid_sock_zombify) g)) is gl = Some gl'
    \<Longrightarrow> global_inv (gl, H, C) \<Longrightarrow> global_inv (gl', H, C)"
proof (induction "is" arbitrary: gl)
  case (Cons i js)
  then obtain g where g: "(case socks ! i of None \<Rightarrow> Some gl | Some a \<Rightarrow> map_option snd (on_sock a (no_result grid_sock_zombify) gl)) = Some g"
    "all_in_turn (\<lambda>i g. case socks ! i of None \<Rightarrow> Some g | Some a \<Rightarrow> map_option snd (on_sock a (no_result grid_sock_zombify) g)) js g = Some gl'"
    by (auto simp: bind_eq_Some_conv)
  have "global_inv (g, H, C)"
    using g(1) Cons.prems(2) act_inv [OF Cons.prems(2) _ keeps_zombify] by (auto split: option.split_asm)
  from Cons.IH [OF g(2) this] show ?case .
qed simp

lemma term_step: "global_inv (gl, H, C) \<Longrightarrow> grid_term gl = Some gl' \<Longrightarrow> global_inv (gl', H, C)"
proof -
  assume i: "global_inv (gl, H, C)" and r: "grid_term gl = Some gl'"
  have i1: "global_inv (gl\<lparr>gl_zombie := True\<rparr>, H, C)" by (rule inv_cong [OF i]) simp_all
  show ?thesis using r i1 by (auto simp: grid_term_def Let_def split: option.split_asm if_split_asm dest: term_all_step [OF _ i1])
qed

end
