(* ===== verification/SockInv.thy ===== *)
theory SockInv
  imports Sock
begin

text \<open>
  What a socket guarantees (\<open>src/core/sock.c\<close>), whatever its type and transports do within their
  contract. The locale \<open>sock_world\<close> is that contract; the invariant \<open>sock_ok\<close> says how the
  states of the socket, its endpoints, its queued events, its descriptors and its statistics fit.
\<close>

section \<open>The contract of socket types and transports\<close>

text \<open>
  \<open>pipes\<close> are the pipes registered with the socket type, \<open>home\<close> is the endpoint a pipe belongs
  to. \<open>may_add\<close>, \<open>may_in\<close> and \<open>may_out\<close> say when a pipe may be registered and when its events
  may come; \<open>tstopped\<close> that the socket type has finished stopping. A transport that stops
  an endpoint may unregister the endpoint's pipes; it reports the endpoint stopped only when it has
  none. A socket type can be destroyed when it has stopped and has no pipes.
\<close>

locale sock_world =
  fixes V :: "'w sock_env"
    and winv :: "'w \<Rightarrow> bool"
    and pipes :: "'w \<Rightarrow> nat set"
    and home :: "nat \<Rightarrow> int"
    and may_add :: "nat \<Rightarrow> 'w \<Rightarrow> bool"
    and may_in :: "nat \<Rightarrow> 'w \<Rightarrow> bool"
    and may_out :: "nat \<Rightarrow> 'w \<Rightarrow> bool"
    and tstopped :: "'w \<Rightarrow> bool"
  assumes finite_pipes: "winv w \<Longrightarrow> finite (pipes w)"
    and add_law: "winv w \<Longrightarrow> may_add p w \<Longrightarrow> p \<notin> pipes w \<Longrightarrow> \<exists>rc w'. sb_add V p w = Some (rc, w') \<and> winv w'
      \<and> pipes w' = (if rc = Inr () then insert p (pipes w) else pipes w)"
    and rm_law: "winv w \<Longrightarrow> p \<in> pipes w \<Longrightarrow> \<exists>w'. sb_rm V p w = Some w' \<and> winv w' \<and> pipes w' = pipes w - {p}"
    and in_law: "winv w \<Longrightarrow> p \<in> pipes w \<Longrightarrow> may_in p w \<Longrightarrow> \<exists>w'. sb_in V p w = Some w' \<and> winv w' \<and> pipes w' = pipes w"
    and out_law: "winv w \<Longrightarrow> p \<in> pipes w \<Longrightarrow> may_out p w \<Longrightarrow> \<exists>w'. sb_out V p w = Some w' \<and> winv w' \<and> pipes w' = pipes w"
    and send_law: "winv w \<Longrightarrow> \<exists>rc w'. sb_send V m w = Some (rc, w') \<and> winv w' \<and> pipes w' = pipes w"
    and recv_law: "winv w \<Longrightarrow> \<exists>rc w'. sb_recv V w = Some (rc, w') \<and> winv w' \<and> pipes w' = pipes w"
    and setopt_law: "winv w \<Longrightarrow> \<exists>rc w'. sb_setopt V level opt val w = Some (rc, w') \<and> winv w' \<and> pipes w' = pipes w"
    and getopt_law: "winv w \<Longrightarrow> \<exists>r. sb_getopt V level opt len w = Some r"
    and stop_law: "winv w \<Longrightarrow> pipes w = {} \<Longrightarrow> sb_stop V = Some f \<Longrightarrow>
      \<exists>now w'. f w = Some (now, w') \<and> winv w' \<and> pipes w' = {} \<and> (now \<longrightarrow> tstopped w')"
    and destroy_law: "winv w \<Longrightarrow> pipes w = {} \<Longrightarrow> sb_stop V = None \<or> tstopped w \<Longrightarrow> \<exists>w'. sb_destroy V w = Some w'"
    and tp_stop_law: "winv w \<Longrightarrow> tp_stop V i w = (ps, now, w') \<Longrightarrow> winv w' \<and> pipes w' = pipes w \<and> distinct ps
      \<and> set ps \<subseteq> {p \<in> pipes w. home p = i} \<and> (now \<longrightarrow> set ps = {p \<in> pipes w. home p = i})"
    and tp_destroy_law: "winv w \<Longrightarrow> winv (tp_destroy V i w) \<and> pipes (tp_destroy V i w) = pipes w"
    and optset_law: "winv w \<Longrightarrow> os_setopt V level opt val w = (rc, w') \<Longrightarrow> winv w' \<and> pipes w' = pipes w"

section \<open>The invariant\<close>

definition ep_running :: "grid_ep \<Rightarrow> bool" where
  "ep_running e \<longleftrightarrow> ep_state e = EP_ACTIVE \<and> fs_state (ep_fsm e) = FSM_ACTIVE \<and> \<not> fs_stopped (ep_fsm e)"

definition ep_leaving :: "ctx_event list \<Rightarrow> grid_ep \<Rightarrow> bool" where
  "ep_leaving evs e \<longleftrightarrow>
     ep_state e = EP_STOPPING \<and> fs_state (ep_fsm e) = FSM_STOPPING
       \<and> (fs_stopped (ep_fsm e) \<longleftrightarrow> EvEpDone (ep_eid e) \<in> set evs) \<and> EvEpStopped (ep_eid e) \<notin> set evs
     \<or> ep_state e = EP_IDLE \<and> fs_state (ep_fsm e) = FSM_IDLE
       \<and> fs_stopped (ep_fsm e) \<and> EvEpStopped (ep_eid e) \<in> set evs \<and> EvEpDone (ep_eid e) \<notin> set evs"

text \<open>Endpoints have different ids; the running ones and the leaving ones are in their lists.\<close>

definition sock_eps_ok :: "grid_sock \<Rightarrow> bool" where
  "sock_eps_ok s \<longleftrightarrow> distinct (map ep_eid (sk_eps s @ sk_sdeps s))
     \<and> (\<forall>e \<in> set (sk_eps s @ sk_sdeps s). ep_eid e < sk_eid s)
     \<and> (\<forall>e \<in> set (sk_eps s). ep_running e) \<and> (\<forall>e \<in> set (sk_sdeps s). ep_leaving (sk_events s) e)
     \<and> distinct (sk_events s)
     \<and> (\<forall>i. EvEpDone i \<in> set (sk_events s) \<or> EvEpStopped i \<in> set (sk_events s) \<longrightarrow> i \<in> ep_eid ` set (sk_sdeps s))"

text \<open>Each registered pipe belongs to an endpoint that has not reported itself stopped, and is counted.\<close>

definition sock_pipes_ok :: "('w \<Rightarrow> nat set) \<Rightarrow> (nat \<Rightarrow> int) \<Rightarrow> grid_sock \<Rightarrow> 'w \<Rightarrow> bool" where
  "sock_pipes_ok pipes home s w \<longleftrightarrow>
     current_connections (sk_stats s) = int (card (pipes w))
     \<and> (\<forall>p \<in> pipes w. \<exists>e \<in> set (sk_eps s @ sk_sdeps s). ep_eid e = home p \<and> \<not> fs_stopped (ep_fsm e))"

definition sock_stopped_event :: "grid_sock \<Rightarrow> bool" where
  "sock_stopped_event s \<longleftrightarrow> EvSockStopped \<in> set (sk_events s)"

text \<open>The library has not been terminated: a socket turned into a zombie has no phase.\<close>

definition sock_phase_ok :: "'w sock_env \<Rightarrow> ('w \<Rightarrow> bool) \<Rightarrow> grid_sock \<Rightarrow> 'w \<Rightarrow> bool" where
  "sock_phase_ok V tstopped s w \<longleftrightarrow>
     (fs_stopped (sk_fsm s) \<longleftrightarrow> sock_stopped_event s)
     \<and> sk_termsem s = (if sk_state s = SOCK_FINI then 1 else 0)
     \<and> (case sk_state s of
          SOCK_INIT \<Rightarrow> False
        | SOCK_ACTIVE \<Rightarrow> fs_state (sk_fsm s) = FSM_ACTIVE \<and> \<not> fs_stopped (sk_fsm s)
        | SOCK_ZOMBIE \<Rightarrow> False
        | SOCK_STOPPING_EPS \<Rightarrow> fs_state (sk_fsm s) = FSM_STOPPING \<and> \<not> fs_stopped (sk_fsm s)
            \<and> sk_eps s = [] \<and> sk_sdeps s \<noteq> []
        | SOCK_STOPPING \<Rightarrow> fs_state (sk_fsm s) = FSM_STOPPING \<and> sk_eps s = [] \<and> sk_sdeps s = []
            \<and> sb_stop V \<noteq> None \<and> (fs_stopped (sk_fsm s) \<longrightarrow> tstopped w)
        | SOCK_FINI \<Rightarrow> fs_state (sk_fsm s) = FSM_STOPPING \<and> \<not> fs_stopped (sk_fsm s) \<and> sk_eps s = [] \<and> sk_sdeps s = [])"

text \<open>A descriptor that is in use is open, and signalled exactly when its flag is set.\<close>

definition efd_ok :: "bool \<Rightarrow> bool \<Rightarrow> grid_efd \<Rightarrow> bool" where
  "efd_ok absent flag e \<longleftrightarrow> absent \<or> ef_fd e \<ge> 0 \<and> (flag \<longleftrightarrow> ef_count e > 0)"

definition sock_efds_ok :: "'w sock_env \<Rightarrow> grid_sock \<Rightarrow> bool" where
  "sock_efds_ok V s \<longleftrightarrow> efd_ok (st_norecv V) (sk_in s) (sk_rcvfd s) \<and> efd_ok (st_nosend V) (sk_out s) (sk_sndfd s)"

text \<open>Values that options can have.\<close>

definition options_ok :: "grid_sock \<Rightarrow> bool" where
  "options_ok s \<longleftrightarrow> sk_sndbuf s > 0 \<and> sk_rcvbuf s > 0 \<and> sk_rcvmaxsize s \<ge> -1 \<and> sk_reconnect_ivl s \<ge> 0
     \<and> sk_reconnect_ivl_max s \<ge> 0 \<and> ep_sndprio (sk_template s) \<in> {1..16} \<and> ep_rcvprio (sk_template s) \<in> {1..16}
     \<and> ep_ipv4only (sk_template s) \<in> {0, 1} \<and> length (sk_name s) \<le> 63 \<and> length (sk_optsets s) = GRID_MAX_TRANSPORT"

text \<open>When the socket type has been destroyed, nothing is said of the world any more.\<close>

definition sock_inv ::
  "'w sock_env \<Rightarrow> ('w \<Rightarrow> bool) \<Rightarrow> ('w \<Rightarrow> nat set) \<Rightarrow> (nat \<Rightarrow> int) \<Rightarrow> ('w \<Rightarrow> bool) \<Rightarrow> grid_sock \<Rightarrow> 'w \<Rightarrow> bool" where
  "sock_inv V winv pipes home tstopped s w \<longleftrightarrow> sock_eps_ok s \<and> sock_phase_ok V tstopped s w
     \<and> (sk_state s \<noteq> SOCK_FINI \<longrightarrow> winv w \<and> sock_pipes_ok pipes home s w)
     \<and> (sk_state s = SOCK_ACTIVE \<longrightarrow> sock_efds_ok V s) \<and> options_ok s"

section \<open>Endpoint lists\<close>

lemma find_unique:
  assumes "distinct (map ep_eid xs)" and "e \<in> set xs"
  shows "find (\<lambda>x. ep_eid x = ep_eid e) xs = Some e"
  using assms by (induction xs) (auto simp: image_iff)

lemma eid_unique:
  assumes "distinct (map ep_eid xs)" and "x \<in> set xs" and "y \<in> set xs" and "ep_eid x = ep_eid y"
  shows "x = y"
  using assms by (metis distinct_map inj_onD)

lemma set_put_map:
  "set (map (\<lambda>x. if ep_eid x = ep_eid e then e else x) xs)
     = (if ep_eid e \<in> ep_eid ` set xs then {e} else {}) \<union> {x \<in> set xs. ep_eid x \<noteq> ep_eid e}"
  by (force simp: image_iff)

lemma put_ep_eids [simp]:
  "map ep_eid (sk_eps (put_ep e s)) = map ep_eid (sk_eps s)"
  "map ep_eid (sk_sdeps (put_ep e s)) = map ep_eid (sk_sdeps s)"
  by (simp_all add: put_ep_def)

lemma put_ep_more [simp]:
  "sk_eid (put_ep e s) = sk_eid s" "sk_stats (put_ep e s) = sk_stats s" "sk_termsem (put_ep e s) = sk_termsem s"
  "sk_rcvfd (put_ep e s) = sk_rcvfd s" "sk_sndfd (put_ep e s) = sk_sndfd s" "sk_in (put_ep e s) = sk_in s"
  "sk_out (put_ep e s) = sk_out s" "options_ok (put_ep e s) = options_ok s" "sock_efds_ok V (put_ep e s) = sock_efds_ok V s"
  by (simp_all add: put_ep_def options_ok_def sock_efds_ok_def)

lemma push_event_more [simp]:
  "sk_eid (push_event ev s) = sk_eid s" "sk_stats (push_event ev s) = sk_stats s"
  "sk_termsem (push_event ev s) = sk_termsem s" "options_ok (push_event ev s) = options_ok s"
  "sock_efds_ok V (push_event ev s) = sock_efds_ok V s"
  by (simp_all add: push_event_def options_ok_def sock_efds_ok_def)

lemma events_update_more [simp]:
  "options_ok (s\<lparr>sk_events := evs\<rparr>) = options_ok s" "sock_efds_ok V (s\<lparr>sk_events := evs\<rparr>) = sock_efds_ok V s"
  by (simp_all add: options_ok_def sock_efds_ok_def)

text \<open>What the handling of endpoints leaves alone.\<close>

definition sock_frame :: "grid_sock \<Rightarrow> grid_sock \<Rightarrow> bool" where
  "sock_frame s s' \<longleftrightarrow> sk_fsm s' = sk_fsm s \<and> sk_state s' = sk_state s \<and> sk_termsem s' = sk_termsem s
     \<and> sk_in s' = sk_in s \<and> sk_out s' = sk_out s \<and> sk_rcvfd s' = sk_rcvfd s \<and> sk_sndfd s' = sk_sndfd s
     \<and> options_ok s' = options_ok s \<and> sock_stopped_event s' = sock_stopped_event s"

lemma frame_refl [simp]: "sock_frame s s"
  by (simp add: sock_frame_def)

lemma frame_trans: "sock_frame s t \<Longrightarrow> sock_frame t u \<Longrightarrow> sock_frame s u"
  by (simp add: sock_frame_def)

lemma frame_efds: "sock_frame s s' \<Longrightarrow> sock_efds_ok V s' = sock_efds_ok V s"
  by (simp add: sock_frame_def sock_efds_ok_def)

section \<open>Endpoints being shut down\<close>

lemma count_connection_ok:
  assumes "inc > 0 \<or> current_connections (sk_stats s) \<ge> - inc" and "inc \<in> {-1, 1}"
  shows "count_connection inc s
     = Some (s\<lparr>sk_stats := (sk_stats s)\<lparr>current_connections := current_connections (sk_stats s) + inc\<rparr>\<rparr>)"
  using assms by (auto simp: count_connection_def grid_sock_stat_increment_def level_guard_def)

definition set_connections :: "nat set \<Rightarrow> grid_sock \<Rightarrow> grid_sock" where
  "set_connections P s = s\<lparr>sk_stats := (sk_stats s)\<lparr>current_connections := int (card P)\<rparr>\<rparr>"

lemma set_connections_simps [simp]:
  "sk_eps (set_connections P s) = sk_eps s" "sk_sdeps (set_connections P s) = sk_sdeps s"
  "sk_events (set_connections P s) = sk_events s" "sk_state (set_connections P s) = sk_state s"
  "current_connections (sk_stats (set_connections P s)) = int (card P)" "sk_fsm (set_connections P s) = sk_fsm s"
  "sk_eid (set_connections P s) = sk_eid s" "sock_eps_ok (set_connections P s) = sock_eps_ok s"
  "sock_frame s0 (set_connections P s) = sock_frame s0 s"
  "set_connections P (set_connections Q s) = set_connections P s"
  by (simp_all add: set_connections_def sock_eps_ok_def sock_frame_def options_ok_def sock_stopped_event_def)

lemma set_connections_same: "current_connections (sk_stats s) = int (card P) \<Longrightarrow> set_connections P s = s"
  by (cases s) (simp add: set_connections_def)

context sock_world
begin

lemma rm_pipes_ok:
  assumes "winv w" and "distinct ps" and "set ps \<subseteq> pipes w" and "current_connections (sk_stats s) = int (card (pipes w))"
  shows "\<exists>w'. rm_pipes V ps (s, w) = Some (set_connections (pipes w - set ps) s, w')
     \<and> winv w' \<and> pipes w' = pipes w - set ps"
  using assms
proof (induction ps arbitrary: s w)
  case Nil
  then show ?case by (simp add: set_connections_same)
next
  case (Cons p ps)
  then have p: "p \<in> pipes w" by simp
  from rm_law [OF Cons.prems(1) p] obtain w1 where w1: "sb_rm V p w = Some w1" "winv w1" "pipes w1 = pipes w - {p}"
    by blast
  have fin: "finite (pipes w)" using finite_pipes Cons.prems(1) .
  have "card (pipes w) = Suc (card (pipes w1))" using card_Suc_Diff1 [OF fin p] w1(3) by simp
  then have c: "int (card (pipes w1)) = int (card (pipes w)) - 1" "int (card (pipes w)) \<ge> 1" by simp_all
  let ?s = "set_connections (pipes w1) s"
  have "count_connection (-1) s = Some ?s"
    using count_connection_ok [of "-1" s] c Cons.prems(4) by (simp add: set_connections_def)
  then have r: "grid_sock_rm V p (s, w) = Some (?s, w1)" using w1(1) by (simp add: grid_sock_rm_def)
  have "distinct ps" "set ps \<subseteq> pipes w1" using Cons.prems(2,3) w1(3) by auto
  from Cons.IH [OF w1(2) this, of ?s] r w1(3) Cons.prems(2) show ?case
    by (auto simp: Diff_insert2 [symmetric])
qed

text \<open>The endpoint after it has been asked to stop.\<close>

lemma shut_ep_result:
  assumes w: "winv w" and s: "sock_eps_ok s" and c: "current_connections (sk_stats s) = int (card (pipes w))"
    and e: "e \<in> set (sk_eps s)"
  shows "\<exists>ps now w'. shut_ep V e (s, w) = Some ((if now then push_event (EvEpDone (ep_eid e)) else id)
       (set_connections (pipes w') (s\<lparr>sk_eps := remove1 e (sk_eps s), sk_sdeps := sk_sdeps s
          @ [e\<lparr>ep_state := EP_STOPPING, ep_fsm := \<lparr>fs_state = FSM_STOPPING, fs_stopped = now\<rparr>\<rparr>]\<rparr>)), w')
     \<and> winv w' \<and> pipes w' = pipes w - set ps \<and> (now \<longrightarrow> (\<forall>p \<in> pipes w'. home p \<noteq> ep_eid e))"
proof -
  obtain ps now w1 where tp: "tp_stop V (ep_eid e) w = (ps, now, w1)" by (cases "tp_stop V (ep_eid e) w")
  note l = tp_stop_law [OF w tp]
  let ?s1 = "s\<lparr>sk_eps := remove1 e (sk_eps s), sk_sdeps := sk_sdeps s @ [e]\<rparr>"
  have "current_connections (sk_stats ?s1) = int (card (pipes w1))" "set ps \<subseteq> pipes w1" using c l by auto
  from rm_pipes_ok [OF _ _ this(2,1)] l obtain w2 where
    r: "rm_pipes V ps (?s1, w1) = Some (set_connections (pipes w2) ?s1, w2)" "winv w2" "pipes w2 = pipes w - set ps"
    by auto
  let ?e1 = "e\<lparr>ep_state := EP_STOPPING, ep_fsm := \<lparr>fs_state = FSM_STOPPING, fs_stopped = now\<rparr>\<rparr>"
  have run: "fs_state (ep_fsm e) = FSM_ACTIVE" "\<not> fs_stopped (ep_fsm e)"
    using s e by (auto simp: sock_eps_ok_def ep_running_def)
  have stop: "grid_ep_stop (epbase_stop V) (e, ?s1, w) = Some (?e1, set_connections (pipes w2) ?s1, w2)"
    using run tp r(1) by (simp add: grid_ep_stop_def grid_fsm_stop_def grid_ep_shutdown_def epbase_stop_def grid_ep_stopped_def)
  have d: "distinct (map ep_eid (sk_eps s @ sk_sdeps s))" using s by (simp add: sock_eps_ok_def)
  have u1: "ep_eid x \<noteq> ep_eid e" if "x \<in> set (remove1 e (sk_eps s))" for x
    using that d e eid_unique [of "sk_eps s @ sk_sdeps s" x e] by (auto simp: distinct_map set_remove1_eq)
  have u2: "ep_eid x \<noteq> ep_eid e" if "x \<in> set (sk_sdeps s)" for x
    using that d e by (auto simp: image_iff)
  have m1: "map (\<lambda>x. if ep_eid x = ep_eid e then ?e1 else x) (remove1 e (sk_eps s)) = remove1 e (sk_eps s)"
    using u1 by (intro map_idI) simp
  have m2: "map (\<lambda>x. if ep_eid x = ep_eid e then ?e1 else x) (sk_sdeps s) = sk_sdeps s"
    using u2 by (intro map_idI) simp
  have p: "put_ep ?e1 (set_connections (pipes w2) ?s1)
      = set_connections (pipes w2) (s\<lparr>sk_eps := remove1 e (sk_eps s), sk_sdeps := sk_sdeps s @ [?e1]\<rparr>)"
    using m1 m2 by (simp add: put_ep_def set_connections_def)
  have "shut_ep V e (s, w) = Some ((if now then push_event (EvEpDone (ep_eid e)) else id)
       (set_connections (pipes w2) (s\<lparr>sk_eps := remove1 e (sk_eps s), sk_sdeps := sk_sdeps s @ [?e1]\<rparr>)), w2)"
    using e stop run p by (simp add: shut_ep_def)
  moreover have "\<forall>p \<in> pipes w2. home p \<noteq> ep_eid e" if now using that l r(3) by auto
  ultimately show ?thesis using r(2,3) by (intro exI [of _ ps] exI [of _ now] exI [of _ w2]) simp
qed

lemma leaving_other:
  "ep_eid x \<noteq> i \<Longrightarrow> ep_leaving (evs @ [EvEpDone i]) x = ep_leaving evs x"
  "ep_eid x \<noteq> i \<Longrightarrow> ep_leaving (evs @ [EvEpStopped i]) x = ep_leaving evs x"
  "ep_leaving (evs @ [EvSockStopped]) x = ep_leaving evs x"
  by (auto simp: ep_leaving_def)

lemma shut_ep_ok:
  assumes w: "winv w" and s: "sock_eps_ok s" and c: "sock_pipes_ok pipes home s w" and e: "e \<in> set (sk_eps s)"
  shows "\<exists>s' w'. shut_ep V e (s, w) = Some (s', w') \<and> winv w' \<and> sock_eps_ok s' \<and> sock_pipes_ok pipes home s' w'
     \<and> sock_frame s s' \<and> sk_eps s' = remove1 e (sk_eps s) \<and> sk_sdeps s' \<noteq> [] \<and> pipes w' \<subseteq> pipes w"
proof -
  have cc: "current_connections (sk_stats s) = int (card (pipes w))" using c by (simp add: sock_pipes_ok_def)
  from shut_ep_result [OF w s cc e] obtain ps now w' where
    r: "shut_ep V e (s, w) = Some ((if now then push_event (EvEpDone (ep_eid e)) else id)
       (set_connections (pipes w') (s\<lparr>sk_eps := remove1 e (sk_eps s), sk_sdeps := sk_sdeps s
          @ [e\<lparr>ep_state := EP_STOPPING, ep_fsm := \<lparr>fs_state = FSM_STOPPING, fs_stopped = now\<rparr>\<rparr>]\<rparr>)), w')"
      "winv w'" "pipes w' = pipes w - set ps" "now \<longrightarrow> (\<forall>p \<in> pipes w'. home p \<noteq> ep_eid e)"
    by blast
  let ?e1 = "e\<lparr>ep_state := EP_STOPPING, ep_fsm := \<lparr>fs_state = FSM_STOPPING, fs_stopped = now\<rparr>\<rparr>"
  define s1 where "s1 = set_connections (pipes w') (s\<lparr>sk_eps := remove1 e (sk_eps s), sk_sdeps := sk_sdeps s @ [?e1]\<rparr>)"
  define s' where "s' = (if now then push_event (EvEpDone (ep_eid e)) else id) s1"
  have lists: "sk_eps s' = remove1 e (sk_eps s)" "sk_sdeps s' = sk_sdeps s @ [?e1]" "sk_eid s' = sk_eid s"
    "sk_events s' = sk_events s @ (if now then [EvEpDone (ep_eid e)] else [])"
    by (simp_all add: s'_def s1_def)
  have d: "distinct (map ep_eid (sk_eps s @ sk_sdeps s))" "distinct (sk_events s)"
    and lt: "\<forall>e \<in> set (sk_eps s @ sk_sdeps s). ep_eid e < sk_eid s"
    and run: "\<forall>e \<in> set (sk_eps s). ep_running e"
    and lv: "\<forall>e \<in> set (sk_sdeps s). ep_leaving (sk_events s) e"
    and ev: "\<forall>i. EvEpDone i \<in> set (sk_events s) \<or> EvEpStopped i \<in> set (sk_events s) \<longrightarrow> i \<in> ep_eid ` set (sk_sdeps s)"
    using s by (auto simp: sock_eps_ok_def)
  obtain as bs where ab: "sk_eps s = as @ e # bs" "e \<notin> set as" using e by (meson split_list_first)
  then have rem: "remove1 e (sk_eps s) = as @ bs" by simp
  have other: "ep_eid x \<noteq> ep_eid e" if "x \<in> set (sk_sdeps s)" for x using that d(1) e by (auto simp: image_iff)
  have noid: "ep_eid e \<notin> ep_eid ` set (sk_sdeps s)" using other by force
  have noev: "EvEpDone (ep_eid e) \<notin> set (sk_events s)" "EvEpStopped (ep_eid e) \<notin> set (sk_events s)"
    using ev noid by blast+
  have "sock_eps_ok s'" unfolding sock_eps_ok_def
  proof (intro conjI)
    show "distinct (map ep_eid (sk_eps s' @ sk_sdeps s'))" using d(1) ab unfolding lists rem by auto
    show "\<forall>e \<in> set (sk_eps s' @ sk_sdeps s'). ep_eid e < sk_eid s'" using lt ab unfolding lists rem by auto
    show "\<forall>e \<in> set (sk_eps s'). ep_running e" using run ab unfolding lists rem by auto
    show "\<forall>e \<in> set (sk_sdeps s'). ep_leaving (sk_events s') e"
    proof
      fix x assume "x \<in> set (sk_sdeps s')"
      then consider "x \<in> set (sk_sdeps s)" | "x = ?e1" unfolding lists by auto
      then show "ep_leaving (sk_events s') x"
        using other lv leaving_other(1) [of x "ep_eid e"] noev unfolding lists by cases (auto simp: ep_leaving_def)
    qed
    show "distinct (sk_events s')" using d(2) noev unfolding lists by simp
    show "\<forall>i. EvEpDone i \<in> set (sk_events s') \<or> EvEpStopped i \<in> set (sk_events s') \<longrightarrow> i \<in> ep_eid ` set (sk_sdeps s')"
      using ev unfolding lists by auto
  qed
  moreover have "sock_pipes_ok pipes home s' w'" unfolding sock_pipes_ok_def
  proof (intro conjI ballI)
    show "current_connections (sk_stats s') = int (card (pipes w'))" by (simp add: s'_def s1_def)
    fix p assume p: "p \<in> pipes w'"
    with c r(3) obtain x where x: "x \<in> set (sk_eps s @ sk_sdeps s)" "ep_eid x = home p" "\<not> fs_stopped (ep_fsm x)"
      by (auto simp: sock_pipes_ok_def)
    show "\<exists>e \<in> set (sk_eps s' @ sk_sdeps s'). ep_eid e = home p \<and> \<not> fs_stopped (ep_fsm e)"
    proof (cases "x = e")
      case True
      with r(4) p x have "\<not> now" by auto
      with True x show ?thesis unfolding lists by (intro bexI [of _ ?e1]) simp_all
    next
      case False
      with x ab show ?thesis unfolding lists rem by (intro bexI [of _ x]) auto
    qed
  qed
  moreover have "sock_frame s s'" by (simp add: s'_def s1_def sock_frame_def sock_stopped_event_def options_ok_def push_event_def set_connections_def)
  ultimately show ?thesis using r lists s1_def s'_def by (intro exI [of _ s'] exI [of _ w']) auto
qed

lemma shut_eps_ok:
  assumes "winv w" and "sock_eps_ok s" and "sock_pipes_ok pipes home s w" and "sk_eps s = es"
  shows "\<exists>s' w'. shut_eps V es (s, w) = Some (s', w') \<and> winv w' \<and> sock_eps_ok s' \<and> sock_pipes_ok pipes home s' w'
     \<and> sock_frame s s' \<and> sk_eps s' = []"
  using assms
proof (induction es arbitrary: s w)
  case Nil
  then show ?case by simp
next
  case (Cons e es)
  then have "e \<in> set (sk_eps s)" by simp
  from shut_ep_ok [OF Cons.prems(1-3) this] Cons.prems(4) obtain s1 w1 where
    r: "shut_ep V e (s, w) = Some (s1, w1)" "winv w1" "sock_eps_ok s1" "sock_pipes_ok pipes home s1 w1"
      "sock_frame s s1" "sk_eps s1 = es" by auto
  from Cons.IH [OF r(2-4,6)] r(1,5) show ?case by (auto intro: frame_trans)
qed

end

section \<open>Events\<close>

lemma no_eps_events:
  assumes "sock_eps_ok s" and "sk_sdeps s = []" and "\<not> sock_stopped_event s"
  shows "sk_events s = []"
proof (rule ccontr)
  assume "sk_events s \<noteq> []"
  then obtain ev where "ev \<in> set (sk_events s)" by (meson last_in_set)
  with assms show False by (cases ev) (auto simp: sock_eps_ok_def sock_stopped_event_def)
qed

context sock_world
begin

lemma finish1_ok:
  assumes w: "winv w" "pipes w = {}" "sb_stop V = None \<or> tstopped w" and s: "sock_eps_ok s" "sk_eps s = []" "sk_sdeps s = []"
    "\<not> sock_stopped_event s" "\<not> fs_stopped (sk_fsm s)" "fs_state (sk_fsm s) = FSM_STOPPING" "sk_termsem s = 0" "options_ok s"
  shows "\<exists>s' w'. shutdown_finish1 V (s, w) = Some (s', w') \<and> sock_inv V winv pipes home tstopped s' w'
     \<and> sk_state s' = SOCK_FINI \<and> sk_events s' = [] \<and> sk_termsem s' = 1"
proof -
  from destroy_law [OF w] obtain w' where "sb_destroy V w = Some w'" by blast
  moreover have "sk_events s = []" using no_eps_events s(1,3,4) .
  ultimately show ?thesis using s
    by (auto simp: shutdown_finish1_def Let_def sock_inv_def sock_eps_ok_def sock_phase_ok_def options_ok_def sock_stopped_event_def)
qed

lemma finish2_ok:
  assumes w: "winv w" "sock_pipes_ok pipes home s w" and s: "sock_eps_ok s" "sk_eps s = []" "sk_state s = SOCK_STOPPING_EPS"
    "\<not> sock_stopped_event s" "\<not> fs_stopped (sk_fsm s)" "fs_state (sk_fsm s) = FSM_STOPPING" "sk_termsem s = 0" "options_ok s"
  shows "\<exists>s' w'. shutdown_finish2 V (s, w) = Some (s', w') \<and> sock_inv V winv pipes home tstopped s' w'
     \<and> sk_state s' \<noteq> SOCK_ACTIVE"
proof (cases "sk_sdeps s = []")
  case False
  with assms show ?thesis by (simp add: shutdown_finish2_def sock_inv_def sock_phase_ok_def)
next
  case True
  then have p: "pipes w = {}" using w(2) s(2) by (auto simp: sock_pipes_ok_def)
  have ev: "sk_events s = []" using no_eps_events s(1,4) True by blast
  let ?s1 = "s\<lparr>sk_state := SOCK_STOPPING\<rparr>"
  show ?thesis
  proof (cases "sb_stop V")
    case None
    have "\<exists>s' w'. shutdown_finish1 V (?s1, w) = Some (s', w') \<and> sock_inv V winv pipes home tstopped s' w'
       \<and> sk_state s' = SOCK_FINI \<and> sk_events s' = [] \<and> sk_termsem s' = 1"
      using s True None by (intro finish1_ok w(1) p)
        (auto simp: sock_eps_ok_def sock_stopped_event_def options_ok_def)
    with None True s(2) show ?thesis by (auto simp: shutdown_finish2_def)
  next
    case (Some stop)
    from stop_law [OF w(1) p Some] obtain now w1 where st: "stop w = Some (now, w1)" "winv w1" "pipes w1 = {}" "now \<longrightarrow> tstopped w1"
      by blast
    let ?s2 = "if now then push_event EvSockStopped (?s1\<lparr>sk_fsm := (sk_fsm s)\<lparr>fs_stopped := True\<rparr>\<rparr>) else ?s1"
    have "shutdown_finish2 V (s, w) = Some (?s2, w1)"
      using True s(2,5) Some st(1) by (simp add: shutdown_finish2_def Let_def grid_sock_stopped_def)
    moreover have "sock_inv V winv pipes home tstopped ?s2 w1"
      using s True Some st ev w(2) p
      by (auto simp: sock_inv_def sock_phase_ok_def sock_eps_ok_def sock_stopped_event_def options_ok_def
          sock_pipes_ok_def push_event_def)
    ultimately show ?thesis by auto
  qed
qed

lemma find_leaving:
  assumes "sock_eps_ok s" and "i \<in> ep_eid ` set (sk_sdeps s)"
  shows "\<exists>e. e \<in> set (sk_sdeps s) \<and> ep_eid e = i \<and> find_ep i s = Some e \<and> ep_leaving (sk_events s) e
     \<and> (\<forall>x \<in> set (sk_eps s). ep_eid x \<noteq> i) \<and> (\<forall>x \<in> set (sk_sdeps s). ep_eid x = i \<longrightarrow> x = e)"
proof -
  from assms(2) obtain e where e: "e \<in> set (sk_sdeps s)" "ep_eid e = i" by blast
  have d: "distinct (map ep_eid (sk_eps s @ sk_sdeps s))" using assms(1) by (simp add: sock_eps_ok_def)
  have "find_ep i s = Some e" using find_unique [OF d, of e] e by (auto simp: find_ep_def)
  moreover have "ep_leaving (sk_events s) e" using assms(1) e(1) by (simp add: sock_eps_ok_def)
  moreover have "\<forall>x \<in> set (sk_eps s). ep_eid x \<noteq> i" using d e by (auto simp: image_iff)
  moreover have "\<forall>x \<in> set (sk_sdeps s). ep_eid x = i \<longrightarrow> x = e"
    using d e eid_unique [of "sk_sdeps s" _ e] by auto
  ultimately show ?thesis using e by blast
qed

text \<open>The transport is done: the endpoint turns idle and queues its event for the socket.\<close>

lemma process_done_ok:
  assumes i: "sock_inv V winv pipes home tstopped s w" and ev: "sk_events s = EvEpDone i # evs"
  shows "\<exists>s'. process_event V (EvEpDone i) (s\<lparr>sk_events := evs\<rparr>, w) = Some (s', w)
     \<and> sock_inv V winv pipes home tstopped s' w \<and> sk_state s' = sk_state s
     \<and> sk_events s' = evs @ [EvEpStopped i] \<and> ep_eid ` set (sk_sdeps s') = ep_eid ` set (sk_sdeps s)"
proof -
  have eo: "sock_eps_ok s" using i by (simp add: sock_inv_def)
  then have "i \<in> ep_eid ` set (sk_sdeps s)" using ev by (auto simp: sock_eps_ok_def)
  from find_leaving [OF eo this] obtain e where e: "e \<in> set (sk_sdeps s)" "ep_eid e = i" "find_ep i s = Some e"
    "ep_leaving (sk_events s) e" "\<forall>x \<in> set (sk_eps s). ep_eid x \<noteq> i" "\<forall>x \<in> set (sk_sdeps s). ep_eid x = i \<longrightarrow> x = e"
    by blast
  have st: "ep_state e = EP_STOPPING" "fs_state (ep_fsm e) = FSM_STOPPING" "fs_stopped (ep_fsm e)"
    "EvEpStopped i \<notin> set (sk_events s)" using e(2,4) ev by (auto simp: ep_leaving_def)
  let ?e1 = "e\<lparr>ep_state := EP_IDLE, ep_fsm := \<lparr>fs_state = FSM_IDLE, fs_stopped = True\<rparr>\<rparr>"
  let ?s0 = "s\<lparr>sk_events := evs\<rparr>"
  have feed: "ep_feed (epbase_stop V) EP_DONE (e\<lparr>ep_fsm := stopped_delivered (ep_fsm e)\<rparr>, ?s0, w) = Some (?e1, ?s0, w)"
    using st by (simp add: ep_feed_def grid_fsm_feed_def grid_ep_shutdown_def stopped_delivered_def grid_fsm_stopped_def)
  have "find_ep i ?s0 = Some e" using e(3) by (simp add: find_ep_def)
  with feed have r: "process_event V (EvEpDone i) (?s0, w) = Some (push_event (EvEpStopped i) (put_ep ?e1 ?s0), w)"
    by (simp add: process_event_def)
  let ?s' = "push_event (EvEpStopped i) (put_ep ?e1 ?s0)"
  have le: "sk_eps ?s' = sk_eps s" using e(2,5) by (simp add: put_ep_def map_idI)
  have ls: "set (sk_sdeps ?s') = insert ?e1 {x \<in> set (sk_sdeps s). ep_eid x \<noteq> i}"
    using e(1,2) by (auto simp: put_ep_def set_put_map)
  have mm: "map ep_eid (sk_sdeps ?s') = map ep_eid (sk_sdeps s)" by (simp add: put_ep_def)
  have evs': "sk_events ?s' = evs @ [EvEpStopped i]" by simp
  have ev': "EvEpDone i \<notin> set evs" "EvEpStopped i \<notin> set evs" "distinct evs"
    using eo ev st(4) by (auto simp: sock_eps_ok_def)
  have im: "ep_eid ` set (sk_sdeps ?s') = ep_eid ` set (sk_sdeps s)" using mm by (metis list.set_map)
  have "sock_eps_ok ?s'" unfolding sock_eps_ok_def
  proof (intro conjI)
    show "distinct (map ep_eid (sk_eps ?s' @ sk_sdeps ?s'))"
      using eo unfolding map_append mm le by (simp add: sock_eps_ok_def)
    show "\<forall>e \<in> set (sk_eps ?s' @ sk_sdeps ?s'). ep_eid e < sk_eid ?s'"
      using eo e(1) unfolding set_append le ls by (auto simp: sock_eps_ok_def)
    show "\<forall>e \<in> set (sk_eps ?s'). ep_running e" using eo unfolding le by (simp add: sock_eps_ok_def)
    have "ep_leaving (evs @ [EvEpStopped i]) x" if "x \<in> set (sk_sdeps s)" "ep_eid x \<noteq> i" for x
    proof -
      have "ep_leaving (EvEpDone i # evs) x" using eo that(1) ev by (simp add: sock_eps_ok_def)
      with that(2) show ?thesis by (auto simp: ep_leaving_def)
    qed
    moreover have "ep_leaving (evs @ [EvEpStopped i]) ?e1" using ev'(1) e(2) by (simp add: ep_leaving_def)
    ultimately show "\<forall>e \<in> set (sk_sdeps ?s'). ep_leaving (sk_events ?s') e" unfolding ls evs' by blast
    show "distinct (sk_events ?s')" using ev' by simp
    show "\<forall>k. EvEpDone k \<in> set (sk_events ?s') \<or> EvEpStopped k \<in> set (sk_events ?s') \<longrightarrow> k \<in> ep_eid ` set (sk_sdeps ?s')"
      using eo ev e(1,2) unfolding im evs' by (auto simp: sock_eps_ok_def)
  qed
  moreover have "sock_phase_ok V tstopped ?s' w"
    using i ev e(1) by (auto simp: sock_inv_def sock_phase_ok_def sock_stopped_event_def le put_ep_def
        split: sock_state.splits)
  moreover have "sock_pipes_ok pipes home ?s' w" if "sock_pipes_ok pipes home s w" unfolding sock_pipes_ok_def
  proof (intro conjI ballI)
    show "current_connections (sk_stats ?s') = int (card (pipes w))" using that by (simp add: sock_pipes_ok_def)
    fix p assume "p \<in> pipes w"
    with that obtain x where x: "x \<in> set (sk_eps s @ sk_sdeps s)" "ep_eid x = home p" "\<not> fs_stopped (ep_fsm x)"
      by (auto simp: sock_pipes_ok_def)
    with st(3) e(5,6) have "ep_eid x \<noteq> i" by auto
    with x show "\<exists>e \<in> set (sk_eps ?s' @ sk_sdeps ?s'). ep_eid e = home p \<and> \<not> fs_stopped (ep_fsm e)"
      unfolding set_append le ls by (intro bexI [of _ x]) auto
  qed
  ultimately have "sock_inv V winv pipes home tstopped ?s' w"
    using i by (simp add: sock_inv_def)
  with r im show ?thesis by simp
qed

text \<open>The socket hears of it: the endpoint is taken off the list and destroyed.\<close>

lemma free_ep_ok:
  assumes w: "winv w" "sock_pipes_ok pipes home s w" and eo: "sock_eps_ok s" and ev: "sk_events s = EvEpStopped i # evs"
  shows "\<exists>e s2 w2. find_ep i s = Some e
     \<and> free_ep V i (put_ep (e\<lparr>ep_fsm := stopped_delivered (ep_fsm e)\<rparr>) (s\<lparr>sk_events := evs\<rparr>), w) = Some (s2, w2)
     \<and> winv w2 \<and> sock_eps_ok s2 \<and> sock_pipes_ok pipes home s2 w2 \<and> sock_frame s s2 \<and> sk_eps s2 = sk_eps s \<and> sk_sdeps s \<noteq> []
     \<and> ep_eid ` set (sk_sdeps s2) = ep_eid ` set (sk_sdeps s) - {i} \<and> pipes w2 = pipes w \<and> sk_events s2 = evs"
proof -
  have "i \<in> ep_eid ` set (sk_sdeps s)" using eo ev by (auto simp: sock_eps_ok_def)
  from find_leaving [OF eo this] obtain e where e: "e \<in> set (sk_sdeps s)" "ep_eid e = i" "find_ep i s = Some e"
    "ep_leaving (sk_events s) e" "\<forall>x \<in> set (sk_eps s). ep_eid x \<noteq> i" "\<forall>x \<in> set (sk_sdeps s). ep_eid x = i \<longrightarrow> x = e"
    by blast
  have st: "ep_state e = EP_IDLE" "fs_state (ep_fsm e) = FSM_IDLE" "fs_stopped (ep_fsm e)"
    using e(2,4) ev by (auto simp: ep_leaving_def)
  let ?e1 = "e\<lparr>ep_fsm := stopped_delivered (ep_fsm e)\<rparr>"
  let ?s1 = "put_ep ?e1 (s\<lparr>sk_events := evs\<rparr>)"
  obtain as bs where ab: "sk_sdeps s = as @ e # bs" "e \<notin> set as" using e(1) by (meson split_list_first)
  have d: "distinct (map ep_eid (sk_eps s @ sk_sdeps s))" using eo by (simp add: sock_eps_ok_def)
  have o: "ep_eid x \<noteq> i" if "x \<in> set as \<or> x \<in> set bs" for x using that d e(2) ab(1) by (auto simp: image_iff)
  have le: "sk_eps ?s1 = sk_eps s" using e(2,5) by (simp add: put_ep_def map_idI)
  have ls: "sk_sdeps ?s1 = as @ ?e1 # bs" using e(2) o ab(1) by (simp add: put_ep_def map_idI)
  have fnd: "find (\<lambda>x. ep_eid x = i) (as @ ?e1 # bs) = Some ?e1"
    using find_unique [of "as @ ?e1 # bs" ?e1] d ab(1) e(2) by auto
  have "?e1 \<notin> set as" using o [of ?e1] e(2) by auto
  then have rem: "remove1 ?e1 (as @ ?e1 # bs) = as @ bs" by simp
  let ?s2 = "?s1\<lparr>sk_sdeps := as @ bs\<rparr>"
  have "grid_ep_term (tp_destroy V) ?e1 w = Some (tp_destroy V i w)"
    using st e(2) by (simp add: grid_ep_term_def grid_fsm_term_def grid_fsm_isidle_def stopped_delivered_def)
  with fnd rem ls have r: "free_ep V i (?s1, w) = Some (?s2, tp_destroy V i w)"
    by (simp add: free_ep_def)
  have w2: "winv (tp_destroy V i w)" "pipes (tp_destroy V i w) = pipes w" using tp_destroy_law w(1) by blast+
  have evn: "EvEpDone i \<notin> set evs" "EvEpStopped i \<notin> set evs" "distinct evs"
    using eo ev e(4) st e(2) by (auto simp: sock_eps_ok_def ep_leaving_def)
  have "sock_eps_ok ?s2" unfolding sock_eps_ok_def
  proof (intro conjI)
    show "distinct (map ep_eid (sk_eps ?s2 @ sk_sdeps ?s2))" using d ab le by auto
    show "\<forall>e \<in> set (sk_eps ?s2 @ sk_sdeps ?s2). ep_eid e < sk_eid ?s2" using eo ab le by (simp add: sock_eps_ok_def)
    show "\<forall>e \<in> set (sk_eps ?s2). ep_running e" using eo le by (simp add: sock_eps_ok_def)
    show "\<forall>e \<in> set (sk_sdeps ?s2). ep_leaving (sk_events ?s2) e"
    proof
      fix x assume "x \<in> set (sk_sdeps ?s2)"
      then have x: "x \<in> set as \<or> x \<in> set bs" by simp
      then have "ep_leaving (EvEpStopped i # evs) x" using eo ab ev by (auto simp: sock_eps_ok_def)
      with o [OF x] show "ep_leaving (sk_events ?s2) x" by (auto simp: ep_leaving_def)
    qed
    show "distinct (sk_events ?s2)" using evn by simp
    show "\<forall>k. EvEpDone k \<in> set (sk_events ?s2) \<or> EvEpStopped k \<in> set (sk_events ?s2) \<longrightarrow> k \<in> ep_eid ` set (sk_sdeps ?s2)"
    proof (intro allI impI)
      fix k assume k: "EvEpDone k \<in> set (sk_events ?s2) \<or> EvEpStopped k \<in> set (sk_events ?s2)"
      then have "k \<noteq> i" using evn by auto
      moreover have "k \<in> ep_eid ` set (sk_sdeps s)" using k eo ev by (auto simp: sock_eps_ok_def)
      ultimately show "k \<in> ep_eid ` set (sk_sdeps ?s2)" using ab e(2) by auto
    qed
  qed
  moreover have "sock_pipes_ok pipes home ?s2 (tp_destroy V i w)" unfolding sock_pipes_ok_def w2
  proof (intro conjI ballI)
    show "current_connections (sk_stats ?s2) = int (card (pipes w))" using w(2) by (simp add: sock_pipes_ok_def)
    fix p assume "p \<in> pipes w"
    with w(2) obtain x where x: "x \<in> set (sk_eps s @ sk_sdeps s)" "ep_eid x = home p" "\<not> fs_stopped (ep_fsm x)"
      by (auto simp: sock_pipes_ok_def)
    with st(3) have "x \<noteq> e" by auto
    with x ab le show "\<exists>e \<in> set (sk_eps ?s2 @ sk_sdeps ?s2). ep_eid e = home p \<and> \<not> fs_stopped (ep_fsm e)"
      by (intro bexI [of _ x]) auto
  qed
  moreover have "sock_frame s ?s2" using ev by (auto simp: sock_frame_def sock_stopped_event_def options_ok_def put_ep_def)
  moreover have "ep_eid ` set (sk_sdeps ?s2) = ep_eid ` set (sk_sdeps s) - {i}" using o e(2) ab(1) by auto
  ultimately show ?thesis using e(1,3) r w2 le by (intro exI [of _ e] exI [of _ ?s2] exI [of _ "tp_destroy V i w"]) auto
qed

lemma process_stopped_ok:
  assumes i: "sock_inv V winv pipes home tstopped s w" and ev: "sk_events s = EvEpStopped i # evs"
  shows "\<exists>s' w'. process_event V (EvEpStopped i) (s\<lparr>sk_events := evs\<rparr>, w) = Some (s', w')
     \<and> sock_inv V winv pipes home tstopped s' w' \<and> (sk_state s' = SOCK_ACTIVE \<longleftrightarrow> sk_state s = SOCK_ACTIVE)
     \<and> (sk_state s = SOCK_STOPPING_EPS \<longrightarrow> (\<exists>s2 w2. shutdown_finish2 V (s2, w2) = Some (s', w') \<and> sk_events s2 = evs
          \<and> sk_state s2 = SOCK_STOPPING_EPS \<and> pipes w2 = pipes w \<and> sk_eps s2 = []
          \<and> ep_eid ` set (sk_sdeps s2) = ep_eid ` set (sk_sdeps s) - {i}))"
proof -
  have eo: "sock_eps_ok s" and ph: "sock_phase_ok V tstopped s w" using i by (simp_all add: sock_inv_def)
  have ne: "sk_sdeps s \<noteq> []" using eo ev by (auto simp: sock_eps_ok_def)
  then have st: "sk_state s = SOCK_ACTIVE \<or> sk_state s = SOCK_STOPPING_EPS"
    using ph by (auto simp: sock_phase_ok_def split: sock_state.splits)
  then have w: "winv w" "sock_pipes_ok pipes home s w" using i by (auto simp: sock_inv_def)
  from free_ep_ok [OF w eo ev] obtain e s2 w2 where r: "find_ep i s = Some e"
    "free_ep V i (put_ep (e\<lparr>ep_fsm := stopped_delivered (ep_fsm e)\<rparr>) (s\<lparr>sk_events := evs\<rparr>), w) = Some (s2, w2)"
    "winv w2" "sock_eps_ok s2" "sock_pipes_ok pipes home s2 w2" "sock_frame s s2" "sk_eps s2 = sk_eps s"
    "ep_eid ` set (sk_sdeps s2) = ep_eid ` set (sk_sdeps s) - {i}" "pipes w2 = pipes w" "sk_events s2 = evs" by blast
  let ?s1 = "put_ep (e\<lparr>ep_fsm := stopped_delivered (ep_fsm e)\<rparr>) (s\<lparr>sk_events := evs\<rparr>)"
  have p: "process_event V (EvEpStopped i) (s\<lparr>sk_events := evs\<rparr>, w) = sock_feed V (IN_EP_STOPPED i) (?s1, w)"
    using r(1) by (simp add: process_event_def find_ep_def)
  from st show ?thesis
  proof
    assume a: "sk_state s = SOCK_ACTIVE"
    then have "fs_state (sk_fsm s) = FSM_ACTIVE" using ph by (simp add: sock_phase_ok_def)
    with a r(2) have "sock_feed V (IN_EP_STOPPED i) (?s1, w) = Some (s2, w2)"
      by (simp add: sock_feed_def grid_fsm_feed_def grid_sock_handler_def)
    moreover have "sock_inv V winv pipes home tstopped s2 w2"
      using i a r(3-6) frame_efds [OF r(6), of V] by (auto simp: sock_inv_def sock_phase_ok_def sock_frame_def)
    ultimately show ?thesis using p a r(6) by (auto simp: sock_frame_def)
  next
    assume a: "sk_state s = SOCK_STOPPING_EPS"
    then have f: "fs_state (sk_fsm s) = FSM_STOPPING" "\<not> fs_stopped (sk_fsm s)" "sk_eps s = []"
      "\<not> sock_stopped_event s" "sk_termsem s = 0" using ph by (auto simp: sock_phase_ok_def)
    have "\<exists>s' w'. shutdown_finish2 V (s2, w2) = Some (s', w') \<and> sock_inv V winv pipes home tstopped s' w'
       \<and> sk_state s' \<noteq> SOCK_ACTIVE"
      using a f r(6,7) i by (intro finish2_ok r(3-5)) (simp_all add: sock_frame_def sock_inv_def)
    moreover have "sock_feed V (IN_EP_STOPPED i) (?s1, w) = shutdown_finish2 V (s2, w2)"
      using a f r(2) by (simp add: sock_feed_def grid_fsm_feed_def grid_sock_shutdown_def)
    moreover have "sk_state s2 = SOCK_STOPPING_EPS" using a r(6) by (simp add: sock_frame_def)
    ultimately show ?thesis using p a f(3) r(7-10) by (elim exE conjE) (intro exI conjI impI; (assumption | simp))
  qed
qed

lemma process_sock_stopped_ok:
  assumes i: "sock_inv V winv pipes home tstopped s w" and ev: "sk_events s = EvSockStopped # evs"
  shows "\<exists>s' w'. process_event V EvSockStopped (s\<lparr>sk_events := evs\<rparr>, w) = Some (s', w')
     \<and> sock_inv V winv pipes home tstopped s' w' \<and> sk_state s = SOCK_STOPPING \<and> sk_state s' = SOCK_FINI"
proof -
  have se: "sock_stopped_event s" using ev by (simp add: sock_stopped_event_def)
  then have st: "sk_state s = SOCK_STOPPING" "fs_state (sk_fsm s) = FSM_STOPPING" "sk_eps s = []" "sk_sdeps s = []"
      "fs_stopped (sk_fsm s)" "tstopped w" "sk_termsem s = 0"
    using i by (auto simp: sock_inv_def sock_phase_ok_def split: sock_state.splits)
  have w: "winv w" "pipes w = {}" using i st by (auto simp: sock_inv_def sock_pipes_ok_def)
  let ?s1 = "s\<lparr>sk_events := evs, sk_fsm := stopped_delivered (sk_fsm s)\<rparr>"
  have "EvSockStopped \<notin> set evs" using i ev by (simp add: sock_inv_def sock_eps_ok_def)
  then have "\<exists>s' w'. shutdown_finish1 V (?s1, w) = Some (s', w') \<and> sock_inv V winv pipes home tstopped s' w'
     \<and> sk_state s' = SOCK_FINI \<and> sk_events s' = [] \<and> sk_termsem s' = 1"
    using i st ev by (intro finish1_ok w)
      (auto simp: sock_inv_def sock_eps_ok_def sock_stopped_event_def options_ok_def stopped_delivered_def)
  moreover have "process_event V EvSockStopped (s\<lparr>sk_events := evs\<rparr>, w) = shutdown_finish1 V (?s1, w)"
    using st by (simp add: process_event_def sock_fsm_update_def sock_feed_def grid_fsm_feed_def
        grid_sock_shutdown_def stopped_delivered_def)
  ultimately show ?thesis using st(1) by auto
qed

text \<open>The whole queue.\<close>

lemma process_events_ok:
  assumes "sock_inv V winv pipes home tstopped s w"
  shows "\<exists>s' w'. process_events V (s, w) = Some (s', w') \<and> sock_inv V winv pipes home tstopped s' w'
     \<and> sk_events s' = [] \<and> (sk_state s' = SOCK_ACTIVE \<longleftrightarrow> sk_state s = SOCK_ACTIVE)"
  using assms
proof (induction "queue_weight s" arbitrary: s w rule: less_induct)
  case less
  show ?case
  proof (cases "sk_events s")
    case Nil
    with less.prems show ?thesis by (simp add: process_events.simps)
  next
    case (Cons ev evs)
    have "\<exists>s' w'. process_event V ev (s\<lparr>sk_events := evs\<rparr>, w) = Some (s', w')
       \<and> sock_inv V winv pipes home tstopped s' w' \<and> (sk_state s' = SOCK_ACTIVE \<longleftrightarrow> sk_state s = SOCK_ACTIVE)"
    proof (cases ev)
      case (EvEpDone i)
      with process_done_ok [OF less.prems, of i evs] Cons show ?thesis by auto
    next
      case (EvEpStopped i)
      with process_stopped_ok [OF less.prems, of i evs] Cons show ?thesis by auto
    next
      case EvSockStopped
      with process_sock_stopped_ok [OF less.prems, of evs] Cons show ?thesis by auto
    qed
    then obtain s1 w1 where r: "process_event V ev (s\<lparr>sk_events := evs\<rparr>, w) = Some (s1, w1)"
      "sock_inv V winv pipes home tstopped s1 w1" "sk_state s1 = SOCK_ACTIVE \<longleftrightarrow> sk_state s = SOCK_ACTIVE" by blast
    have "queue_weight s1 < queue_weight s"
      using process_event_weight [OF r(1)] Cons by (simp add: queue_weight_def)
    from less.hyps [OF this r(2)] r(1,3) Cons show ?thesis by (simp add: process_events.simps)
  qed
qed

end

section \<open>Signalling\<close>

text \<open>An active socket's descriptors are signalled exactly as its type's events say.\<close>

definition sock_signalled :: "'w sock_env \<Rightarrow> grid_sock \<Rightarrow> 'w \<Rightarrow> bool" where
  "sock_signalled V s w \<longleftrightarrow> (sk_state s = SOCK_ACTIVE \<longrightarrow>
     (st_norecv V \<or> (ef_count (sk_rcvfd s) > 0 \<longleftrightarrow> sb_events V w AND GRID_SOCKBASE_EVENT_IN \<noteq> 0))
     \<and> (st_nosend V \<or> (ef_count (sk_sndfd s) > 0 \<longleftrightarrow> sb_events V w AND GRID_SOCKBASE_EVENT_OUT \<noteq> 0)))"

lemma adjust_efd_ok:
  assumes "efd_ok False flag e"
  shows "\<exists>flag' e'. adjust_efd want (flag, e) = Some (flag', e') \<and> efd_ok False flag' e' \<and> (ef_count e' > 0 \<longleftrightarrow> want)"
  using assms by (auto simp: adjust_efd_def efd_ok_def grid_efd_signal_def grid_efd_unsignal_def Let_def)

text \<open>The part of the socket that its invariant is about, apart from the options.\<close>

definition sock_core :: "grid_sock \<Rightarrow> grid_sock" where
  "sock_core s = (sock_defaults [] (sk_sndfd s) (sk_rcvfd s))\<lparr>sk_fsm := sk_fsm s, sk_state := sk_state s,
     sk_in := sk_in s, sk_out := sk_out s, sk_termsem := sk_termsem s, sk_eps := sk_eps s, sk_sdeps := sk_sdeps s,
     sk_eid := sk_eid s, sk_stats := sk_stats s, sk_events := sk_events s\<rparr>"

lemma core_cong:
  assumes "sock_core s' = sock_core s"
  shows "sock_eps_ok s' = sock_eps_ok s" "sock_phase_ok V ts s' w = sock_phase_ok V ts s w"
    "sock_pipes_ok ps hm s' w = sock_pipes_ok ps hm s w" "sock_efds_ok V s' = sock_efds_ok V s"
    "sock_signalled V s' w = sock_signalled V s w" "sk_state s' = sk_state s" "sk_events s' = sk_events s"
  using assms
  by (auto simp: sock_core_def sock_defaults_def sock_eps_ok_def sock_phase_ok_def sock_pipes_ok_def sock_efds_ok_def
      sock_stopped_event_def sock_signalled_def split: sock_state.splits)

lemma core_inv:
  assumes "sock_core s' = sock_core s" and "options_ok s'" and "sock_inv V winv pipes home tstopped s w"
  shows "sock_inv V winv pipes home tstopped s' w"
  using assms by (simp add: sock_inv_def core_cong [OF assms(1)])

lemma set_int_option_core: "set_int_option opt val s = Inr s' \<Longrightarrow> sock_core s' = sock_core s"
  by (auto simp: set_int_option_def sock_core_def sock_defaults_def Let_def split: if_splits)

lemma set_int_option_ok: "set_int_option opt val s = Inr s' \<Longrightarrow> options_ok s \<Longrightarrow> options_ok s'"
  by (auto simp: set_int_option_def options_ok_def Let_def split: if_splits)

text \<open>At rest: no event is queued.\<close>

definition sock_rest ::
  "'w sock_env \<Rightarrow> ('w \<Rightarrow> bool) \<Rightarrow> ('w \<Rightarrow> nat set) \<Rightarrow> (nat \<Rightarrow> int) \<Rightarrow> ('w \<Rightarrow> bool) \<Rightarrow> grid_sock \<times> 'w \<Rightarrow> bool" where
  "sock_rest V winv pipes home tstopped sw \<longleftrightarrow>
     sock_inv V winv pipes home tstopped (fst sw) (snd sw) \<and> sk_events (fst sw) = [] \<and> sock_signalled V (fst sw) (snd sw)"

context sock_world
begin

lemma onleave_ok:
  assumes i: "sock_inv V winv pipes home tstopped s w" and ev: "sk_events s = []"
  shows "\<exists>s'. grid_sock_onleave V (s, w) = Some (s', w) \<and> sock_rest V winv pipes home tstopped (s', w)
     \<and> sk_state s' = sk_state s"
proof (cases "sk_state s = SOCK_ACTIVE")
  case False
  with i ev show ?thesis by (simp add: grid_sock_onleave_def sock_rest_def sock_signalled_def)
next
  case True
  then have e: "sock_efds_ok V s" using i by (simp add: sock_inv_def)
  define wi where "wi = (sb_events V w AND GRID_SOCKBASE_EVENT_IN \<noteq> 0)"
  define wo where "wo = (sb_events V w AND GRID_SOCKBASE_EVENT_OUT \<noteq> 0)"
  define A where "A = (if st_norecv V then Some (sk_in s, sk_rcvfd s) else adjust_efd wi (sk_in s, sk_rcvfd s))"
  define B where "B = (if st_nosend V then Some (sk_out s, sk_sndfd s) else adjust_efd wo (sk_out s, sk_sndfd s))"
  obtain fi ei where a: "A = Some (fi, ei)" "efd_ok (st_norecv V) fi ei" "st_norecv V \<or> (ef_count ei > 0 \<longleftrightarrow> wi)"
  proof (cases "st_norecv V")
    case False
    with e have "efd_ok False (sk_in s) (sk_rcvfd s)" by (simp add: sock_efds_ok_def)
    from adjust_efd_ok [OF this, of wi] False that show thesis by (auto simp: A_def)
  qed (auto simp: A_def efd_ok_def)
  obtain fo eo where b: "B = Some (fo, eo)" "efd_ok (st_nosend V) fo eo" "st_nosend V \<or> (ef_count eo > 0 \<longleftrightarrow> wo)"
  proof (cases "st_nosend V")
    case False
    with e have "efd_ok False (sk_out s) (sk_sndfd s)" by (simp add: sock_efds_ok_def)
    from adjust_efd_ok [OF this, of wo] False that show thesis by (auto simp: B_def)
  qed (auto simp: B_def efd_ok_def)
  let ?s' = "s\<lparr>sk_in := fi, sk_rcvfd := ei, sk_out := fo, sk_sndfd := eo\<rparr>"
  have "grid_sock_onleave V (s, w) = Some (?s', w)"
    using True a(1) b(1) unfolding A_def B_def wi_def wo_def by (simp add: grid_sock_onleave_def Let_def)
  moreover have "sock_eps_ok ?s' = sock_eps_ok s" "sock_phase_ok V tstopped ?s' w = sock_phase_ok V tstopped s w"
    "sock_pipes_ok pipes home ?s' w = sock_pipes_ok pipes home s w" "options_ok ?s' = options_ok s"
    using True by (simp_all add: sock_eps_ok_def sock_phase_ok_def sock_pipes_ok_def options_ok_def sock_stopped_event_def)
  moreover have "sock_efds_ok V ?s'" using a(2) b(2) by (simp add: sock_efds_ok_def)
  moreover have "sock_signalled V ?s' w" using a(3) b(3) by (simp add: sock_signalled_def wi_def wo_def)
  ultimately show ?thesis using i ev True by (simp add: sock_rest_def sock_inv_def)
qed

lemma leave_ok:
  assumes "sock_inv V winv pipes home tstopped s w"
  shows "\<exists>s' w'. grid_ctx_leave V (s, w) = Some (s', w') \<and> sock_rest V winv pipes home tstopped (s', w')
     \<and> (sk_state s' = SOCK_ACTIVE \<longleftrightarrow> sk_state s = SOCK_ACTIVE)"
proof -
  from process_events_ok [OF assms] obtain s1 w1 where
    p: "process_events V (s, w) = Some (s1, w1)" "sock_inv V winv pipes home tstopped s1 w1" "sk_events s1 = []"
      "sk_state s1 = SOCK_ACTIVE \<longleftrightarrow> sk_state s = SOCK_ACTIVE" by blast
  from onleave_ok [OF p(2,3)] p(1,4) show ?thesis by (auto simp: grid_ctx_leave_def)
qed

text \<open>The operations' shape: what they do under the lock keeps the invariant.\<close>

lemma in_ctx_ok:
  assumes "f (s, w) = Some (s1, w1)" and "sock_inv V winv pipes home tstopped s1 w1"
  shows "\<exists>s' w'. in_ctx V f (s, w) = Some (s', w') \<and> sock_rest V winv pipes home tstopped (s', w')
     \<and> (sk_state s' = SOCK_ACTIVE \<longleftrightarrow> sk_state s1 = SOCK_ACTIVE)"
  using leave_ok [OF assms(2)] assms(1) by (simp add: in_ctx_def)

text \<open>A change of the world that keeps its invariant and pipes.\<close>

lemma world_inv:
  assumes "sock_inv V winv pipes home tstopped s w" and "sk_state s \<noteq> SOCK_FINI \<longrightarrow> winv w' \<and> pipes w' = pipes w"
    and "sk_events s = []"
  shows "sock_inv V winv pipes home tstopped s w'"
proof -
  have "\<not> sock_stopped_event s" using assms(3) by (simp add: sock_stopped_event_def)
  then show ?thesis using assms(1,2)
    by (auto simp: sock_inv_def sock_phase_ok_def sock_pipes_ok_def split: sock_state.splits)
qed

end

section \<open>Everything that can happen to a socket\<close>

text \<open>
  The API's operations (with what happens during each wait of a blocking one), the calls of the
  transports, the events of pipes, and changes of the world.
\<close>

datatype 'w sock_event =
    SkAddEp "int \<Rightarrow> string \<Rightarrow> 'w \<Rightarrow> (errno + unit) \<times> 'w" string | SkRmEp int
  | SkSend msg bool u64 "'w wakeup list" | SkRecv bool u64 "'w wakeup list"
  | SkSetopt int int bytes | SkGetopt int int nat | SkStop
  | SkAdd nat | SkRm nat | SkIn nat | SkOut nat | SkEpDone int | SkTypeStopped | SkWorld 'w

fun sock_event_step :: "'w sock_env \<Rightarrow> 'w sock_event \<Rightarrow> grid_sock \<times> 'w \<Rightarrow> (grid_sock \<times> 'w) option" where
  "sock_event_step V (SkAddEp create addr) sw = map_option snd (grid_sock_add_ep V create addr sw)"
| "sock_event_step V (SkRmEp i) sw = map_option snd (grid_sock_rm_ep V i sw)"
| "sock_event_step V (SkSend m dontwait now ks) sw = map_option snd (grid_sock_send V m dontwait now ks sw)"
| "sock_event_step V (SkRecv dontwait now ks) sw = map_option snd (grid_sock_recv V dontwait now ks sw)"
| "sock_event_step V (SkSetopt level opt val) sw = map_option snd (grid_sock_setopt V level opt val sw)"
| "sock_event_step V (SkGetopt level opt len) sw = map_option snd (grid_sock_getopt V level opt len sw)"
| "sock_event_step V SkStop sw = grid_sock_stop V sw"
| "sock_event_step V (SkAdd p) sw = in_ctx V (\<lambda>sw. map_option snd (grid_sock_add V p sw)) sw"
| "sock_event_step V (SkRm p) sw = in_ctx V (grid_sock_rm V p) sw"
| "sock_event_step V (SkIn p) sw = sock_pipe_in V p sw"
| "sock_event_step V (SkOut p) sw = sock_pipe_out V p sw"
| "sock_event_step V (SkEpDone i) sw = in_ctx V (\<lambda>(s, w). map_option (\<lambda>s1. (s1, w)) (grid_epbase_stopped i s)) sw"
| "sock_event_step V SkTypeStopped sw = in_ctx V (\<lambda>(s, w). map_option (\<lambda>s1. (s1, w)) (grid_sock_stopped s)) sw"
| "sock_event_step V (SkWorld w') sw = in_ctx V (\<lambda>(s, w). Some (s, w')) sw"

text \<open>
  While an operation waits the other threads leave the socket at rest, and the operating system
  reports only the errors that the code knows.
\<close>

definition wakeup_ok :: "(grid_sock \<times> 'w \<Rightarrow> bool) \<Rightarrow> 'w wakeup \<Rightarrow> bool" where
  "wakeup_ok rest k \<longleftrightarrow> (\<forall>sw. rest sw \<longrightarrow> rest (wk_others k sw)) \<and> (\<forall>e. wk_wait k = Inl e \<longrightarrow> wait_error e)"

text \<open>Which events the environment may bring.\<close>

fun sock_enabled ::
  "'w sock_env \<Rightarrow> ('w \<Rightarrow> bool) \<Rightarrow> ('w \<Rightarrow> nat set) \<Rightarrow> (nat \<Rightarrow> int) \<Rightarrow> (nat \<Rightarrow> 'w \<Rightarrow> bool) \<Rightarrow> (nat \<Rightarrow> 'w \<Rightarrow> bool)
     \<Rightarrow> (nat \<Rightarrow> 'w \<Rightarrow> bool) \<Rightarrow> ('w \<Rightarrow> bool) \<Rightarrow> 'w sock_event \<Rightarrow> grid_sock \<times> 'w \<Rightarrow> bool" where
  "sock_enabled V winv pipes home may_add may_in may_out tstopped ev (s, w) =
     (case ev of
        SkAddEp create addr \<Rightarrow> sk_state s = SOCK_ACTIVE \<and> length addr \<le> GRID_SOCKADDR_MAX
          \<and> (\<forall>i a w. winv w \<longrightarrow> winv (snd (create i a w)) \<and> pipes (snd (create i a w)) = pipes w)
      | SkSend m dontwait now ks \<Rightarrow> (\<forall>k \<in> set ks. wakeup_ok (sock_rest V winv pipes home tstopped) k)
      | SkRecv dontwait now ks \<Rightarrow> (\<forall>k \<in> set ks. wakeup_ok (sock_rest V winv pipes home tstopped) k)
      | SkSetopt level opt val \<Rightarrow> sk_state s \<noteq> SOCK_FINI
      | SkGetopt level opt len \<Rightarrow> sk_state s \<noteq> SOCK_FINI
      | SkAdd p \<Rightarrow> may_add p w \<and> p \<notin> pipes w \<and> home p \<in> ep_eid ` set (sk_eps s)
      | SkRm p \<Rightarrow> sk_state s \<noteq> SOCK_FINI \<and> p \<in> pipes w
      | SkIn p \<Rightarrow> sk_state s \<noteq> SOCK_FINI \<and> p \<in> pipes w \<and> may_in p w
      | SkOut p \<Rightarrow> sk_state s \<noteq> SOCK_FINI \<and> p \<in> pipes w \<and> may_out p w
      | SkEpDone i \<Rightarrow> i \<in> ep_eid ` set (sk_sdeps s) \<and> (\<forall>p \<in> pipes w. home p \<noteq> i)
      | SkTypeStopped \<Rightarrow> sk_state s = SOCK_STOPPING \<and> tstopped w
      | SkWorld w' \<Rightarrow> sk_state s \<noteq> SOCK_FINI \<longrightarrow> winv w' \<and> pipes w' = pipes w
      | _ \<Rightarrow> True)"

inductive sock_reach for V winv pipes home may_add may_in may_out tstopped where
  sock_created: "create w = Some w1 \<Longrightarrow> winv w1 \<Longrightarrow> pipes w1 = {} \<Longrightarrow> length name \<le> 63
    \<Longrightarrow> grid_sock_init V efds name create w = Some (Inr (s, w'))
    \<Longrightarrow> sock_reach V winv pipes home may_add may_in may_out tstopped (s, w')"
| sock_went_on: "sock_reach V winv pipes home may_add may_in may_out tstopped sw
    \<Longrightarrow> sock_enabled V winv pipes home may_add may_in may_out tstopped ev sw
    \<Longrightarrow> sock_event_step V ev sw = Some sw'
    \<Longrightarrow> sock_reach V winv pipes home may_add may_in may_out tstopped sw'"

context sock_world
begin

text \<open>A socket that has been created is active and at rest.\<close>

lemma sock_init_ok:
  assumes c: "create w = Some w1" "winv w1" "pipes w1 = {}" "length name \<le> 63" and v: "\<not> st_nosend V \<or> \<not> st_norecv V"
    and o: "efds = (Inr a, Inr b)"
  shows "\<exists>s w'. grid_sock_init V efds name create w = Some (Inr (s, w')) \<and> sock_rest V winv pipes home tstopped (s, w')
     \<and> sk_state s = SOCK_ACTIVE"
proof -
  define sfd where "sfd = (if st_nosend V then closed_efd else \<lparr>ef_fd = int a, ef_count = 0\<rparr>)"
  define rfd where "rfd = (if st_norecv V then closed_efd else \<lparr>ef_fd = int b, ef_count = 0\<rparr>)"
  define s0 where "s0 = (sock_defaults name sfd rfd)\<lparr>sk_state := SOCK_ACTIVE, sk_fsm := \<lparr>fs_state = FSM_ACTIVE, fs_stopped = False\<rparr>\<rparr>"
  have st: "grid_fsm_start (sk_fsm \<circ> fst) sock_fsm_update (grid_sock_handler V IN_START) (sock_defaults name sfd rfd, w1)
      = Some (s0, w1)"
    by (simp add: grid_fsm_start_def grid_sock_handler_def sock_fsm_update_def sock_defaults_def grid_fsm_isidle_def
        grid_fsm_init_def s0_def)
  have "sock_inv V winv pipes home tstopped s0 w1"
    using c by (simp add: sock_inv_def sock_eps_ok_def sock_phase_ok_def sock_pipes_ok_def sock_efds_ok_def options_ok_def
        s0_def sock_defaults_def sock_stopped_event_def efd_ok_def sfd_def rfd_def stats_init_def)
  from in_ctx_ok [of "grid_fsm_start (sk_fsm \<circ> fst) sock_fsm_update (grid_sock_handler V IN_START)", OF st this]
  obtain s w' where r: "in_ctx V (grid_fsm_start (sk_fsm \<circ> fst) sock_fsm_update (grid_sock_handler V IN_START))
      (sock_defaults name sfd rfd, w1) = Some (s, w')" "sock_rest V winv pipes home tstopped (s, w')" "sk_state s = SOCK_ACTIVE"
    by (auto simp: s0_def)
  have "grid_sock_init V efds name create w = Some (Inr (s, w'))"
    using v c(1) o r(1) by (auto simp: grid_sock_init_def grid_efd_init_def sfd_def rfd_def)
  with r(2,3) show ?thesis by blast
qed

lemma rest_simp: "sock_rest V winv pipes home tstopped (s, w) \<longleftrightarrow>
    sock_inv V winv pipes home tstopped s w \<and> sk_events s = [] \<and> sock_signalled V s w"
  by (simp add: sock_rest_def)

text \<open>Sending and receiving, with all their waits.\<close>

lemma recheck_ok:
  assumes "sock_rest V winv pipes home tstopped (s, w)"
  shows "\<not> st_nosend V \<Longrightarrow> grid_efd_poll (sk_sndfd s) = Inr () \<Longrightarrow> sock_rest V winv pipes home tstopped (s\<lparr>sk_out := True\<rparr>, w)"
    and "\<not> st_norecv V \<Longrightarrow> grid_efd_poll (sk_rcvfd s) = Inr () \<Longrightarrow> sock_rest V winv pipes home tstopped (s\<lparr>sk_in := True\<rparr>, w)"
  using assms
  by (auto simp: rest_simp sock_inv_def sock_eps_ok_def sock_phase_ok_def sock_pipes_ok_def sock_efds_ok_def efd_ok_def
      options_ok_def sock_signalled_def sock_stopped_event_def grid_efd_poll_def
      split: sock_state.splits if_splits)

lemma leave_with_ok:
  assumes "sock_inv V winv pipes home tstopped s w"
  shows "\<exists>s' w'. leave_with V r (s, w) = Some (r, s', w') \<and> sock_rest V winv pipes home tstopped (s', w')
     \<and> (sk_state s' = SOCK_ACTIVE \<longleftrightarrow> sk_state s = SOCK_ACTIVE)"
  using leave_ok [OF assms] by (auto simp: leave_with_def)

lemma wakeup_cases:
  assumes "wakeup_ok (sock_rest V winv pipes home tstopped) k" and "sock_rest V winv pipes home tstopped sw"
  obtains s2 w2 where "wk_others k sw = (s2, w2)" "sock_rest V winv pipes home tstopped (s2, w2)"
    "\<And>e. wk_wait k = Inl e \<Longrightarrow> wait_error e"
proof -
  obtain s2 w2 where o: "wk_others k sw = (s2, w2)" by (cases "wk_others k sw")
  have "sock_rest V winv pipes home tstopped (wk_others k sw)" using assms unfolding wakeup_ok_def by blast
  with o assms(1) that show thesis by (simp add: wakeup_ok_def)
qed

lemma state_check_active:
  "sock_inv V winv pipes home tstopped s w \<Longrightarrow> state_check s = None \<Longrightarrow> sk_state s = SOCK_ACTIVE"
  by (cases "sk_state s") (auto simp: state_check_def sock_inv_def sock_phase_ok_def)

lemma wait_loop_ok:
  assumes attempt: "\<And>w. winv w \<Longrightarrow> \<exists>rc w'. attempt w = Some (rc, w') \<and> winv w' \<and> pipes w' = pipes w"
    and mark: "\<And>s w. sock_rest V winv pipes home tstopped (s, w) \<Longrightarrow> grid_efd_poll (fd s) = Inr ()
      \<Longrightarrow> sock_rest V winv pipes home tstopped (mark s, w)"
    and "\<forall>k \<in> set ks. wakeup_ok (sock_rest V winv pipes home tstopped) k"
    and "sock_rest V winv pipes home tstopped (s, w)"
  shows "\<exists>r s' w'. sock_wait_loop V attempt fd mark timeo dontwait deadline timeout ks (s, w) = Some (r, s', w')
     \<and> sock_rest V winv pipes home tstopped (s', w')"
  using assms(3,4)
proof (induction ks arbitrary: s w timeout)
  case (Nil s w)
  have i: "sock_inv V winv pipes home tstopped s w" using Nil by (simp add: rest_simp)
  show ?case
  proof (cases "state_check s")
    case (Some e)
    with leave_with_ok [OF i, of "Returned (Inl e)"] show ?thesis by auto
  next
    case None
    with i have "winv w" using state_check_active [OF i] by (simp add: sock_inv_def)
    from attempt [OF this] obtain rc w1 where r: "attempt w = Some (rc, w1)" "winv w1" "pipes w1 = pipes w" by blast
    have i1: "sock_inv V winv pipes home tstopped s w1" using world_inv [OF i] r Nil by (simp add: rest_simp)
    have L: "\<exists>r' s' w'. leave_with V r (s, w1) = Some (r', s', w') \<and> sock_rest V winv pipes home tstopped (s', w')" for r
      using leave_with_ok [OF i1, of r] by blast
    show ?thesis using r(1) None by (cases rc) (simp_all add: L)
  qed
next
  case (Cons k ks s w)
  have i: "sock_inv V winv pipes home tstopped s w" using Cons.prems by (simp add: rest_simp)
  show ?case
  proof (cases "state_check s")
    case (Some e)
    with leave_with_ok [OF i, of "Returned (Inl e)"] show ?thesis by auto
  next
    case None
    with i have "winv w" using state_check_active [OF i] by (simp add: sock_inv_def)
    from attempt [OF this] obtain rc w1 where r: "attempt w = Some (rc, w1)" "winv w1" "pipes w1 = pipes w" by blast
    have i1: "sock_inv V winv pipes home tstopped s w1" using world_inv [OF i] r Cons.prems by (simp add: rest_simp)
    have L: "\<exists>r' s' w'. leave_with V r (s, w1) = Some (r', s', w') \<and> sock_rest V winv pipes home tstopped (s', w')" for r
      using leave_with_ok [OF i1, of r] by blast
    from leave_ok [OF i1] obtain s1 w2 where l: "grid_ctx_leave V (s, w1) = Some (s1, w2)"
      "sock_rest V winv pipes home tstopped (s1, w2)" by blast
    from Cons.prems(1) have "wakeup_ok (sock_rest V winv pipes home tstopped) k" by simp
    from wakeup_cases [OF this l(2)] obtain s2 w3 where k: "wk_others k (s1, w2) = (s2, w3)"
      "sock_rest V winv pipes home tstopped (s2, w3)" "\<And>e. wk_wait k = Inl e \<Longrightarrow> wait_error e" by blast
    show ?thesis
    proof (cases "rc = Inl EAGAIN \<and> \<not> dontwait \<and> (\<exists>u. wk_wait k = Inr u)")
      case False
      then show ?thesis using r(1) None l(1) k
        by (cases rc; cases "wk_wait k") (auto simp: L)
    next
      case True
      define s3 where "s3 = (if \<not> wk_intr k \<and> grid_efd_poll (fd s2) = Inr () then mark s2 else s2)"
      have "sock_rest V winv pipes home tstopped (s3, w3)" using mark [OF k(2)] k(2) by (simp add: s3_def)
      from Cons.IH [OF _ this] Cons.prems(1) True None r(1) l(1) k(1) show ?thesis
        by (auto simp: s3_def [symmetric])
    qed
  qed
qed

lemma sock_send_ok:
  assumes "\<forall>k \<in> set ks. wakeup_ok (sock_rest V winv pipes home tstopped) k" and "sock_rest V winv pipes home tstopped (s, w)"
  shows "\<exists>r s' w'. grid_sock_send V m dontwait now ks (s, w) = Some (r, s', w') \<and> sock_rest V winv pipes home tstopped (s', w')"
proof (cases "st_nosend V")
  case False
  obtain dl t where d: "first_deadline (sk_sndtimeo s) now = (dl, t)" by (cases "first_deadline (sk_sndtimeo s) now")
  have "\<exists>r s' w'. sock_wait_loop V (sb_send V m) sk_sndfd (\<lambda>s. s\<lparr>sk_out := True\<rparr>) sk_sndtimeo dontwait dl t ks (s, w)
      = Some (r, s', w') \<and> sock_rest V winv pipes home tstopped (s', w')"
    by (rule wait_loop_ok [OF send_law recheck_ok(1) assms]) (use False in simp_all)
  with False d show ?thesis by (simp add: grid_sock_send_def)
qed (use assms in \<open>simp add: grid_sock_send_def\<close>)

lemma sock_recv_ok:
  assumes "\<forall>k \<in> set ks. wakeup_ok (sock_rest V winv pipes home tstopped) k" and "sock_rest V winv pipes home tstopped (s, w)"
  shows "\<exists>r s' w'. grid_sock_recv V dontwait now ks (s, w) = Some (r, s', w') \<and> sock_rest V winv pipes home tstopped (s', w')"
proof (cases "st_norecv V")
  case False
  obtain dl t where d: "first_deadline (sk_rcvtimeo s) now = (dl, t)" by (cases "first_deadline (sk_rcvtimeo s) now")
  have "\<exists>r s' w'. sock_wait_loop V (sb_recv V) sk_rcvfd (\<lambda>s. s\<lparr>sk_in := True\<rparr>) sk_rcvtimeo dontwait dl t ks (s, w)
      = Some (r, s', w') \<and> sock_rest V winv pipes home tstopped (s', w')"
    by (rule wait_loop_ok [OF recv_law recheck_ok(2) assms]) (use False in simp_all)
  with False d show ?thesis by (simp add: grid_sock_recv_def)
qed (use assms in \<open>simp add: grid_sock_recv_def\<close>)

text \<open>Endpoints.\<close>

lemma add_ep_ok:
  assumes i: "sock_rest V winv pipes home tstopped (s, w)" and a: "sk_state s = SOCK_ACTIVE" "length addr \<le> GRID_SOCKADDR_MAX"
    and c: "\<And>i a w. winv w \<Longrightarrow> winv (snd (create i a w)) \<and> pipes (snd (create i a w)) = pipes w"
  shows "\<exists>rc s' w'. grid_sock_add_ep V create addr (s, w) = Some (rc, s', w') \<and> sock_rest V winv pipes home tstopped (s', w')"
proof -
  have inv: "sock_inv V winv pipes home tstopped s w" and ev: "sk_events s = []" using i by (simp_all add: rest_simp)
  obtain rc w1 where r: "create (sk_eid s) addr w = (rc, w1)" by (cases "create (sk_eid s) addr w")
  have w: "winv w" using inv a by (simp add: sock_inv_def)
  then have w1: "winv w1" "pipes w1 = pipes w" using c [OF w, of "sk_eid s" addr] r by simp_all
  have i1: "sock_inv V winv pipes home tstopped s w1" using world_inv [OF inv _ ev] w1 by simp
  show ?thesis
  proof (cases rc)
    case (Inl e)
    with r a(2) leave_ok [OF i1] show ?thesis
      by (auto simp: grid_sock_add_ep_def grid_ep_init_def grid_fsm_term_def grid_fsm_isidle_def grid_fsm_init_def)
  next
    case (Inr u)
    let ?e = "\<lparr>ep_fsm = \<lparr>fs_state = FSM_ACTIVE, fs_stopped = False\<rparr>, ep_state = EP_ACTIVE, ep_options = sk_template s,
       ep_eid = sk_eid s, ep_addr = addr, ep_last_errno = 0\<rparr>"
    let ?s = "s\<lparr>sk_eid := sk_eid s + 1, sk_eps := sk_eps s @ [?e]\<rparr>"
    have "sock_inv V winv pipes home tstopped ?s w1"
    proof -
      have eo: "sock_eps_ok s" using i1 by (simp add: sock_inv_def)
      then have "\<forall>e \<in> set (sk_eps s @ sk_sdeps s). ep_eid e < sk_eid s" by (simp add: sock_eps_ok_def)
      then have new: "sk_eid s \<notin> ep_eid ` set (sk_eps s)" "sk_eid s \<notin> ep_eid ` set (sk_sdeps s)"
        "\<forall>e \<in> set (sk_eps s @ sk_sdeps s). ep_eid e < sk_eid s + 1" by fastforce+
      have "sock_eps_ok ?s" unfolding sock_eps_ok_def
      proof (intro conjI)
        show "distinct (map ep_eid (sk_eps ?s @ sk_sdeps ?s))" using eo new(1,2) by (simp add: sock_eps_ok_def)
        show "\<forall>e \<in> set (sk_eps ?s @ sk_sdeps ?s). ep_eid e < sk_eid ?s" using new(3) by simp
      qed (use eo ev in \<open>simp_all add: sock_eps_ok_def ep_running_def\<close>)
      moreover have "sock_phase_ok V tstopped ?s w1"
        using i1 a(1) ev by (simp add: sock_inv_def sock_phase_ok_def sock_stopped_event_def)
      moreover have "sock_pipes_ok pipes home ?s w1" using i1 a(1) by (simp add: sock_inv_def sock_pipes_ok_def)
      moreover have "sock_efds_ok V ?s" "options_ok ?s" using i1 a(1) by (simp_all add: sock_inv_def sock_efds_ok_def options_ok_def)
      ultimately show ?thesis using w1(1) by (simp add: sock_inv_def)
    qed
    from leave_ok [OF this] r a(2) Inr show ?thesis
      by (auto simp: grid_sock_add_ep_def grid_ep_init_def grid_ep_start_def grid_fsm_start_def grid_ep_handler_def
          grid_fsm_isidle_def grid_fsm_init_def)
  qed
qed

lemma rm_ep_ok:
  assumes i: "sock_rest V winv pipes home tstopped (s, w)"
  shows "\<exists>rc s' w'. grid_sock_rm_ep V eid (s, w) = Some (rc, s', w') \<and> sock_rest V winv pipes home tstopped (s', w')"
proof -
  have inv: "sock_inv V winv pipes home tstopped s w" and ev: "sk_events s = []" using i by (simp_all add: rest_simp)
  show ?thesis
  proof (cases "find (\<lambda>e. ep_eid e = eid) (sk_eps s)")
    case None
    with leave_ok [OF inv] show ?thesis by (auto simp: grid_sock_rm_ep_def)
  next
    case (Some e)
    then have e: "e \<in> set (sk_eps s)" by (auto simp: find_Some_iff)
    then have a: "sk_state s = SOCK_ACTIVE" using inv
      by (auto simp: sock_inv_def sock_phase_ok_def split: sock_state.splits)
    have w: "winv w" "sock_pipes_ok pipes home s w" "sock_eps_ok s" using inv a by (simp_all add: sock_inv_def)
    from shut_ep_ok [OF w(1,3,2) e] obtain s1 w1 where r: "shut_ep V e (s, w) = Some (s1, w1)" "winv w1" "sock_eps_ok s1"
      "sock_pipes_ok pipes home s1 w1" "sock_frame s s1" by blast
    have "sock_inv V winv pipes home tstopped s1 w1"
      using inv a r(2-5) frame_efds [OF r(5), of V] by (auto simp: sock_inv_def sock_phase_ok_def sock_frame_def)
    from leave_ok [OF this] r(1) Some show ?thesis by (auto simp: grid_sock_rm_ep_def)
  qed
qed

lemma ep_done_ok:
  assumes i: "sock_rest V winv pipes home tstopped (s, w)" and e: "eid \<in> ep_eid ` set (sk_sdeps s)" and np: "\<forall>p \<in> pipes w. home p \<noteq> eid"
  shows "\<exists>s1. grid_epbase_stopped eid s = Some s1 \<and> sock_inv V winv pipes home tstopped s1 w \<and> sk_state s1 = sk_state s
     \<and> sk_events s1 = [EvEpDone eid] \<and> ep_eid ` set (sk_sdeps s1) = ep_eid ` set (sk_sdeps s)"
proof -
  have inv: "sock_inv V winv pipes home tstopped s w" and ev: "sk_events s = []" using i by (simp_all add: rest_simp)
  have eo: "sock_eps_ok s" using inv by (simp add: sock_inv_def)
  from find_leaving [OF eo e] obtain x where x: "x \<in> set (sk_sdeps s)" "ep_eid x = eid" "find_ep eid s = Some x"
    "ep_leaving (sk_events s) x" "\<forall>y \<in> set (sk_eps s). ep_eid y \<noteq> eid" "\<forall>y \<in> set (sk_sdeps s). ep_eid y = eid \<longrightarrow> y = x" by blast
  have st: "ep_state x = EP_STOPPING" "fs_state (ep_fsm x) = FSM_STOPPING" "\<not> fs_stopped (ep_fsm x)"
    using x(4) ev by (auto simp: ep_leaving_def)
  let ?x1 = "x\<lparr>ep_fsm := (ep_fsm x)\<lparr>fs_stopped := True\<rparr>\<rparr>"
  let ?s = "push_event (EvEpDone eid) (put_ep ?x1 s)"
  have r: "grid_epbase_stopped eid s = Some ?s" using x(3) st(3) by (simp add: grid_epbase_stopped_def grid_ep_stopped_def)
  have le: "sk_eps ?s = sk_eps s" using x(2,5) by (simp add: put_ep_def map_idI)
  have ls: "set (sk_sdeps ?s) = insert ?x1 {y \<in> set (sk_sdeps s). ep_eid y \<noteq> eid}"
    using x(1,2) by (auto simp: put_ep_def set_put_map)
  have mm: "map ep_eid (sk_sdeps ?s) = map ep_eid (sk_sdeps s)" by (simp add: put_ep_def)
  have "sock_eps_ok ?s" unfolding sock_eps_ok_def
  proof (intro conjI)
    show "distinct (map ep_eid (sk_eps ?s @ sk_sdeps ?s))"
      using eo unfolding map_append mm le by (simp add: sock_eps_ok_def)
    show "\<forall>e \<in> set (sk_eps ?s @ sk_sdeps ?s). ep_eid e < sk_eid ?s"
      using eo x(1) unfolding set_append le ls by (auto simp: sock_eps_ok_def)
    show "\<forall>e \<in> set (sk_eps ?s). ep_running e" using eo unfolding le by (simp add: sock_eps_ok_def)
    show "\<forall>e \<in> set (sk_sdeps ?s). ep_leaving (sk_events ?s) e"
      using eo ev st x(2) unfolding ls by (auto simp: sock_eps_ok_def ep_leaving_def)
    show "distinct (sk_events ?s)" using ev by simp
    show "\<forall>k. EvEpDone k \<in> set (sk_events ?s) \<or> EvEpStopped k \<in> set (sk_events ?s) \<longrightarrow> k \<in> ep_eid ` set (sk_sdeps ?s)"
      using ev x(2) unfolding ls by auto
  qed
  moreover have "sock_phase_ok V tstopped ?s w"
    using inv ev x(1) by (auto simp: sock_inv_def sock_phase_ok_def sock_stopped_event_def le put_ep_def split: sock_state.splits)
  moreover have "sock_pipes_ok pipes home ?s w" if "sock_pipes_ok pipes home s w" unfolding sock_pipes_ok_def
  proof (intro conjI ballI)
    show "current_connections (sk_stats ?s) = int (card (pipes w))" using that by (simp add: sock_pipes_ok_def)
    fix p assume p: "p \<in> pipes w"
    with that obtain y where y: "y \<in> set (sk_eps s @ sk_sdeps s)" "ep_eid y = home p" "\<not> fs_stopped (ep_fsm y)"
      by (auto simp: sock_pipes_ok_def)
    with np p have "ep_eid y \<noteq> eid" by auto
    with y show "\<exists>e \<in> set (sk_eps ?s @ sk_sdeps ?s). ep_eid e = home p \<and> \<not> fs_stopped (ep_fsm e)"
      unfolding set_append le ls by (intro bexI [of _ y]) auto
  qed
  ultimately have "sock_inv V winv pipes home tstopped ?s w" using inv by (simp add: sock_inv_def)
  moreover have "ep_eid ` set (sk_sdeps ?s) = ep_eid ` set (sk_sdeps s)" using mm by (metis list.set_map)
  ultimately show ?thesis using r ev by simp
qed

text \<open>Stopping.\<close>

lemma sock_stop_ok:
  assumes i: "sock_rest V winv pipes home tstopped (s, w)"
  shows "\<exists>s1 w1. grid_fsm_stop (sk_fsm \<circ> fst) sock_fsm_update (grid_sock_shutdown V IN_STOP) (s, w) = Some (s1, w1)
     \<and> sock_inv V winv pipes home tstopped s1 w1 \<and> sk_state s1 \<noteq> SOCK_ACTIVE"
proof (cases "sk_state s = SOCK_ACTIVE")
  case False
  moreover have "fs_state (sk_fsm s) \<noteq> FSM_ACTIVE"
    using i False by (auto simp: rest_simp sock_inv_def sock_phase_ok_def split: sock_state.splits)
  ultimately show ?thesis using i by (simp add: grid_fsm_stop_def rest_simp)
next
  case True
  have inv: "sock_inv V winv pipes home tstopped s w" and ev: "sk_events s = []" using i by (simp_all add: rest_simp)
  have f: "fs_state (sk_fsm s) = FSM_ACTIVE" "\<not> fs_stopped (sk_fsm s)" "sk_termsem s = 0" using inv True
    by (auto simp: sock_inv_def sock_phase_ok_def)
  define s2 where "s2 = s\<lparr>sk_fsm := (sk_fsm s)\<lparr>fs_state := FSM_STOPPING\<rparr>,
     sk_rcvfd := (if \<not> st_norecv V then grid_efd_stop (sk_rcvfd s) else sk_rcvfd s),
     sk_sndfd := (if \<not> st_nosend V then grid_efd_stop (sk_sndfd s) else sk_sndfd s)\<rparr>"
  have w: "winv w" "sock_pipes_ok pipes home s2 w" "sock_eps_ok s2"
    using inv True by (simp_all add: sock_inv_def s2_def sock_pipes_ok_def sock_eps_ok_def)
  from shut_eps_ok [OF w(1,3,2) refl] obtain s3 w3 where r: "shut_eps V (sk_eps s2) (s2, w) = Some (s3, w3)" "winv w3"
    "sock_eps_ok s3" "sock_pipes_ok pipes home s3 w3" "sock_frame s2 s3" "sk_eps s3 = []" by blast
  let ?s4 = "s3\<lparr>sk_state := SOCK_STOPPING_EPS\<rparr>"
  have "\<exists>s' w'. shutdown_finish2 V (?s4, w3) = Some (s', w') \<and> sock_inv V winv pipes home tstopped s' w' \<and> sk_state s' \<noteq> SOCK_ACTIVE"
    using r f ev inv by (intro finish2_ok)
      (simp_all add: sock_frame_def s2_def sock_stopped_event_def sock_inv_def options_ok_def sock_eps_ok_def sock_pipes_ok_def)
  moreover have "grid_fsm_stop (sk_fsm \<circ> fst) sock_fsm_update (grid_sock_shutdown V IN_STOP) (s, w)
      = shutdown_finish2 V (?s4, w3)"
  proof -
    have s2: "s2 = (let t = s\<lparr>sk_fsm := (sk_fsm s)\<lparr>fs_state := FSM_STOPPING\<rparr>\<rparr>;
        s1 = (if \<not> st_norecv V then t\<lparr>sk_rcvfd := grid_efd_stop (sk_rcvfd t)\<rparr> else t)
      in if \<not> st_nosend V then s1\<lparr>sk_sndfd := grid_efd_stop (sk_sndfd s1)\<rparr> else s1)"
      by (simp add: s2_def)
    show ?thesis using f(1) True r(1) unfolding s2
      by (simp add: grid_fsm_stop_def sock_fsm_update_def grid_sock_shutdown_def Let_def split del: if_split)
  qed
  ultimately show ?thesis by simp
qed

text \<open>Pipes that come and go.\<close>

lemma add_pipe_ok:
  assumes i: "sock_rest V winv pipes home tstopped (s, w)" and p: "may_add p w" "p \<notin> pipes w" "home p \<in> ep_eid ` set (sk_eps s)"
  shows "\<exists>rc s1 w1. grid_sock_add V p (s, w) = Some (rc, s1, w1) \<and> sock_inv V winv pipes home tstopped s1 w1"
proof -
  have inv: "sock_inv V winv pipes home tstopped s w" and ev: "sk_events s = []" using i by (simp_all add: rest_simp)
  have a: "sk_state s = SOCK_ACTIVE" using inv p(3) by (auto simp: sock_inv_def sock_phase_ok_def split: sock_state.splits)
  have w: "winv w" "sock_pipes_ok pipes home s w" "sock_eps_ok s" using inv a by (simp_all add: sock_inv_def)
  from add_law [OF w(1) p(1,2)] obtain rc w1 where r: "sb_add V p w = Some (rc, w1)" "winv w1"
    "pipes w1 = (if rc = Inr () then insert p (pipes w) else pipes w)" by blast
  show ?thesis
  proof (cases rc)
    case (Inl e)
    with world_inv [OF inv _ ev, of w1] r show ?thesis by (auto simp: grid_sock_add_def)
  next
    case (Inr u)
    have fin: "finite (pipes w)" using finite_pipes w(1) .
    have n: "int (card (pipes w1)) = current_connections (sk_stats s) + 1"
      using r(3) Inr p(2) fin w(2) by (simp add: sock_pipes_ok_def)
    let ?s1 = "set_connections (pipes w1) s"
    have cc: "count_connection 1 s = Some ?s1" using count_connection_ok [of 1 s] n by (simp add: set_connections_def)
    from p(3) obtain x where x: "x \<in> set (sk_eps s)" "ep_eid x = home p" by auto
    with w(3) have "\<not> fs_stopped (ep_fsm x)" by (auto simp: sock_eps_ok_def ep_running_def)
    with x w(2) r(3) Inr have "sock_pipes_ok pipes home ?s1 w1" by (auto simp: sock_pipes_ok_def)
    moreover have "sock_phase_ok V tstopped ?s1 w1"
      using inv a by (auto simp: sock_inv_def sock_phase_ok_def set_connections_def sock_stopped_event_def)
    moreover have "options_ok ?s1" "sock_efds_ok V ?s1" using inv a
      by (simp_all add: sock_inv_def set_connections_def options_ok_def sock_efds_ok_def)
    ultimately have "sock_inv V winv pipes home tstopped ?s1 w1" using inv a r(2) by (simp add: sock_inv_def)
    with cc r(1) Inr show ?thesis by (auto simp: grid_sock_add_def)
  qed
qed

lemma rm_pipe_ok:
  assumes i: "sock_rest V winv pipes home tstopped (s, w)" and p: "sk_state s \<noteq> SOCK_FINI" "p \<in> pipes w"
  shows "\<exists>s1 w1. grid_sock_rm V p (s, w) = Some (s1, w1) \<and> sock_inv V winv pipes home tstopped s1 w1"
proof -
  have inv: "sock_inv V winv pipes home tstopped s w" and ev: "sk_events s = []" using i by (simp_all add: rest_simp)
  have w: "winv w" "sock_pipes_ok pipes home s w" using inv p(1) by (simp_all add: sock_inv_def)
  have "current_connections (sk_stats s) = int (card (pipes w))" using w(2) by (simp add: sock_pipes_ok_def)
  from rm_pipes_ok [OF w(1) _ _ this, of "[p]"] p(2) obtain w1 where r:
    "rm_pipes V [p] (s, w) = Some (set_connections (pipes w1) s, w1)" "winv w1" "pipes w1 = pipes w - {p}" by auto
  let ?s1 = "set_connections (pipes w1) s"
  have "grid_sock_rm V p (s, w) = Some (?s1, w1)" using r(1) by (auto split: bind_splits)
  moreover have "sock_phase_ok V tstopped ?s1 w1"
    using inv p w(2) ev by (auto simp: sock_inv_def sock_phase_ok_def sock_pipes_ok_def set_connections_def
        sock_stopped_event_def split: sock_state.splits)
  moreover have "sock_pipes_ok pipes home ?s1 w1" using w(2) r(3) by (auto simp: sock_pipes_ok_def)
  moreover have "options_ok ?s1" "sk_state s = SOCK_ACTIVE \<Longrightarrow> sock_efds_ok V ?s1" using inv
    by (simp_all add: sock_inv_def set_connections_def options_ok_def sock_efds_ok_def)
  ultimately show ?thesis using inv r(2) by (auto simp: sock_inv_def)
qed

lemma pipe_event_ok:
  assumes i: "sock_rest V winv pipes home tstopped (s, w)" and p: "sk_state s \<noteq> SOCK_FINI" "p \<in> pipes w"
    and f: "inp = IN_PIPE_IN p \<and> may_in p w \<or> inp = IN_PIPE_OUT p \<and> may_out p w"
  shows "\<exists>s1 w1. sock_feed V inp (s, w) = Some (s1, w1) \<and> sock_inv V winv pipes home tstopped s1 w1"
proof -
  have inv: "sock_inv V winv pipes home tstopped s w" and ev: "sk_events s = []" using i by (simp_all add: rest_simp)
  have w: "winv w" "sock_pipes_ok pipes home s w" using inv p(1) by (simp_all add: sock_inv_def)
  have ne: "sk_eps s @ sk_sdeps s \<noteq> []" using w(2) p(2) by (auto simp: sock_pipes_ok_def)
  then consider "sk_state s = SOCK_ACTIVE" "fs_state (sk_fsm s) = FSM_ACTIVE"
    | "sk_state s = SOCK_STOPPING_EPS" "fs_state (sk_fsm s) = FSM_STOPPING"
    using inv by (auto simp: sock_inv_def sock_phase_ok_def split: sock_state.splits)
  then show ?thesis
  proof cases
    case 1
    from f in_law [OF w(1) p(2)] out_law [OF w(1) p(2)] 1 obtain w1 where
      "sock_feed V inp (s, w) = Some (s, w1)" "winv w1" "pipes w1 = pipes w"
      by (auto simp: sock_feed_def grid_fsm_feed_def grid_sock_handler_def)
    with world_inv [OF inv _ ev, of w1] show ?thesis by auto
  next
    case 2
    with f inv show ?thesis by (auto simp: sock_feed_def grid_fsm_feed_def grid_sock_shutdown_def)
  qed
qed

text \<open>Options.\<close>

lemma optset_ok: "\<exists>b s1. grid_sock_optset V tid s = (b, s1) \<and> sock_core s1 = sock_core s \<and> options_ok s1 = options_ok s"
  by (auto simp: grid_sock_optset_def Let_def sock_core_def sock_defaults_def options_ok_def)

lemma setopt_inner_ok:
  assumes i: "sock_rest V winv pipes home tstopped (s, w)" and a: "sk_state s \<noteq> SOCK_FINI"
  shows "\<exists>rc s1 w1. grid_sock_setopt_inner V level opt val (s, w) = Some (rc, s1, w1) \<and> sock_inv V winv pipes home tstopped s1 w1"
proof -
  have inv: "sock_inv V winv pipes home tstopped s w" and ev: "sk_events s = []" using i by (simp_all add: rest_simp)
  have w: "winv w" using inv a by (simp add: sock_inv_def)
  consider "level > GRID_SOL_SOCKET" | "level < GRID_SOL_SOCKET" | "level = GRID_SOL_SOCKET" by linarith
  then show ?thesis
  proof cases
    case 1
    from setopt_law [OF w, of level opt val] obtain rc w1 where
      r: "sb_setopt V level opt val w = Some (rc, w1)" "winv w1" "pipes w1 = pipes w" by blast
    with 1 world_inv [OF inv _ ev, of w1] show ?thesis by (auto simp: grid_sock_setopt_inner_def)
  next
    case 2
    from optset_ok [of level s] obtain b s1 where o: "grid_sock_optset V level s = (b, s1)" "sock_core s1 = sock_core s"
      "options_ok s1 = options_ok s" by blast
    have oi: "options_ok s1" using inv o(3) by (simp add: sock_inv_def)
    have i1: "sock_inv V winv pipes home tstopped s1 w" using core_inv [OF o(2) oi inv] .
    obtain rc w1 where r: "os_setopt V level opt val w = (rc, w1)" by (cases "os_setopt V level opt val w")
    from optset_law [OF w r] have i2: "sock_inv V winv pipes home tstopped s1 w1"
      using world_inv [OF i1, of w1] ev core_cong [OF o(2)] by simp
    show ?thesis using 2 o(1) r i1 i2 by (cases b) (simp_all add: grid_sock_setopt_inner_def)
  next
    case 3
    have name: "sock_inv V winv pipes home tstopped (s\<lparr>sk_name := chars_of val\<rparr>) w" if "length val \<le> 63"
    proof -
      have "length (chars_of val) \<le> 63" using length_takeWhile_le that by (fastforce simp: chars_of_def intro: le_trans)
      then have "options_ok (s\<lparr>sk_name := chars_of val\<rparr>)" using inv by (simp add: sock_inv_def options_ok_def)
      from core_inv [OF _ this inv] show ?thesis by (simp add: sock_core_def sock_defaults_def)
    qed
    have int: "sock_inv V winv pipes home tstopped s1 w" if "set_int_option opt v s = Inr s1" for v s1
      using core_inv [OF set_int_option_core [OF that] set_int_option_ok [OF that] inv] inv by (simp add: sock_inv_def)
    show ?thesis using 3 inv name int by (auto simp: grid_sock_setopt_inner_def split: sum.splits)
  qed
qed

lemma getopt_inner_ok:
  assumes i: "sock_rest V winv pipes home tstopped (s, w)" and a: "sk_state s \<noteq> SOCK_FINI"
  shows "\<exists>rc s1. grid_sock_getopt_inner V level opt len (s, w) = Some (rc, s1) \<and> sock_inv V winv pipes home tstopped s1 w"
proof -
  have inv: "sock_inv V winv pipes home tstopped s w" using i by (simp add: rest_simp)
  have w: "winv w" using inv a by (simp add: sock_inv_def)
  from optset_ok [of level s] obtain b s1 where o: "grid_sock_optset V level s = (b, s1)" "sock_core s1 = sock_core s"
    "options_ok s1 = options_ok s" by blast
  have i1: "sock_inv V winv pipes home tstopped s1 w" using core_inv [OF o(2) _ inv] inv o(3) by (simp add: sock_inv_def)
  show ?thesis using getopt_law [OF w, of level opt len] o(1) i1 inv
    by (auto simp: grid_sock_getopt_inner_def split: option.splits)
qed

lemma in_ctx_rest:
  assumes "\<exists>s1 w1. f (s, w) = Some (s1, w1) \<and> sock_inv V winv pipes home tstopped s1 w1"
  shows "\<exists>s' w'. in_ctx V f (s, w) = Some (s', w') \<and> sock_rest V winv pipes home tstopped (s', w')"
  using assms in_ctx_ok by blast

text \<open>Every event is handled, and leaves the socket at rest.\<close>

lemma sock_event_ok:
  assumes i: "sock_rest V winv pipes home tstopped sw"
    and en: "sock_enabled V winv pipes home may_add may_in may_out tstopped ev sw"
  shows "\<exists>s' w'. sock_event_step V ev sw = Some (s', w') \<and> sock_rest V winv pipes home tstopped (s', w')"
proof -
  obtain s w where sw: "sw = (s, w)" by (cases sw)
  have i: "sock_rest V winv pipes home tstopped (s, w)" using i sw by simp
  have inv: "sock_inv V winv pipes home tstopped s w" and evs: "sk_events s = []" using i by (simp_all add: rest_simp)
  note en = en [unfolded sw]
  show ?thesis unfolding sw
  proof (cases ev)
    case (SkAddEp create addr)
    with en add_ep_ok [OF i, of addr create] show "\<exists>s' w'. sock_event_step V ev (s, w) = Some (s', w') \<and> sock_rest V winv pipes home tstopped (s', w')" by auto
  next
    case (SkRmEp e)
    with rm_ep_ok [OF i, of e] show "\<exists>s' w'. sock_event_step V ev (s, w) = Some (s', w') \<and> sock_rest V winv pipes home tstopped (s', w')" by auto
  next
    case (SkSend m d n ks)
    with en sock_send_ok [OF _ i, of ks m d n] show "\<exists>s' w'. sock_event_step V ev (s, w) = Some (s', w') \<and> sock_rest V winv pipes home tstopped (s', w')" by auto
  next
    case (SkRecv d n ks)
    with en sock_recv_ok [OF _ i, of ks d n] show "\<exists>s' w'. sock_event_step V ev (s, w) = Some (s', w') \<and> sock_rest V winv pipes home tstopped (s', w')" by auto
  next
    case (SkSetopt level opt val)
    have "sk_state s \<noteq> SOCK_ZOMBIE" using inv by (auto simp: sock_inv_def sock_phase_ok_def)
    with SkSetopt en setopt_inner_ok [OF i, of level opt val] leave_ok
    show "\<exists>s' w'. sock_event_step V ev (s, w) = Some (s', w') \<and> sock_rest V winv pipes home tstopped (s', w')"
      by (fastforce simp: grid_sock_setopt_def)
  next
    case (SkGetopt level opt len)
    have "sk_state s \<noteq> SOCK_ZOMBIE" using inv by (auto simp: sock_inv_def sock_phase_ok_def)
    with SkGetopt en getopt_inner_ok [OF i, of level opt len] leave_ok
    show "\<exists>s' w'. sock_event_step V ev (s, w) = Some (s', w') \<and> sock_rest V winv pipes home tstopped (s', w')"
      by (fastforce simp: grid_sock_getopt_def)
  next
    case SkStop
    with in_ctx_rest sock_stop_ok [OF i] show "\<exists>s' w'. sock_event_step V ev (s, w) = Some (s', w') \<and> sock_rest V winv pipes home tstopped (s', w')"
      by (auto simp: grid_sock_stop_def)
  next
    case (SkAdd p)
    have "\<exists>s1 w1. map_option snd (grid_sock_add V p (s, w)) = Some (s1, w1) \<and> sock_inv V winv pipes home tstopped s1 w1"
      using add_pipe_ok [OF i, of p] en SkAdd by auto
    from in_ctx_rest [of "\<lambda>sw. map_option snd (grid_sock_add V p sw)", OF this] SkAdd
    show "\<exists>s' w'. sock_event_step V ev (s, w) = Some (s', w') \<and> sock_rest V winv pipes home tstopped (s', w')" by simp
  next
    case (SkRm p)
    with in_ctx_rest [of "grid_sock_rm V p", OF rm_pipe_ok [OF i]] en show "\<exists>s' w'. sock_event_step V ev (s, w) = Some (s', w') \<and> sock_rest V winv pipes home tstopped (s', w')"
      by simp
  next
    case (SkIn p)
    with in_ctx_rest [of "sock_feed V (IN_PIPE_IN p)", OF pipe_event_ok [OF i]] en
    show "\<exists>s' w'. sock_event_step V ev (s, w) = Some (s', w') \<and> sock_rest V winv pipes home tstopped (s', w')"
      by (simp add: sock_pipe_in_def)
  next
    case (SkOut p)
    with in_ctx_rest [of "sock_feed V (IN_PIPE_OUT p)", OF pipe_event_ok [OF i]] en
    show "\<exists>s' w'. sock_event_step V ev (s, w) = Some (s', w') \<and> sock_rest V winv pipes home tstopped (s', w')"
      by (simp add: sock_pipe_out_def)
  next
    case (SkEpDone e)
    have "\<exists>s1 w1. (\<lambda>(s, w). map_option (\<lambda>s1. (s1, w)) (grid_epbase_stopped e s)) (s, w) = Some (s1, w1)
        \<and> sock_inv V winv pipes home tstopped s1 w1"
      using ep_done_ok [OF i, of e] en SkEpDone by auto
    from in_ctx_rest [of "\<lambda>(s, w). map_option (\<lambda>s1. (s1, w)) (grid_epbase_stopped e s)" s w, OF this] SkEpDone show "\<exists>s' w'. sock_event_step V ev (s, w) = Some (s', w') \<and> sock_rest V winv pipes home tstopped (s', w')"
      by simp
  next
    case SkTypeStopped
    have st: "sk_state s = SOCK_STOPPING" "tstopped w" using en SkTypeStopped by simp_all
    then have f: "\<not> fs_stopped (sk_fsm s)" using inv evs by (auto simp: sock_inv_def sock_phase_ok_def sock_stopped_event_def)
    have "\<exists>s1 w1. (\<lambda>(s, w). map_option (\<lambda>s1. (s1, w)) (grid_sock_stopped s)) (s, w) = Some (s1, w1)
        \<and> sock_inv V winv pipes home tstopped s1 w1"
      using f st inv evs by (auto simp: grid_sock_stopped_def sock_inv_def sock_phase_ok_def sock_eps_ok_def
          sock_stopped_event_def options_ok_def sock_pipes_ok_def push_event_def)
    from in_ctx_rest [of "\<lambda>(s, w). map_option (\<lambda>s1. (s1, w)) (grid_sock_stopped s)" s w, OF this] SkTypeStopped show "\<exists>s' w'. sock_event_step V ev (s, w) = Some (s', w') \<and> sock_rest V winv pipes home tstopped (s', w')"
      by simp
  next
    case (SkWorld w1)
    have "\<exists>s1 w2. (\<lambda>(s, w). Some (s, w1)) (s, w) = Some (s1, w2) \<and> sock_inv V winv pipes home tstopped s1 w2"
      using world_inv [OF inv _ evs, of w1] en SkWorld by simp
    from in_ctx_rest [of "\<lambda>(s, w). Some (s, w1)" s w, OF this] SkWorld show "\<exists>s' w'. sock_event_step V ev (s, w) = Some (s', w') \<and> sock_rest V winv pipes home tstopped (s', w')"
      by simp
  qed
qed

lemma init_rest:
  assumes c: "create w = Some w1" "winv w1" "pipes w1 = {}" "length name \<le> 63"
    and r: "grid_sock_init V efds name create w = Some (Inr (s, w'))"
  shows "sock_rest V winv pipes home tstopped (s, w')"
proof -
  have v: "\<not> st_nosend V \<or> \<not> st_norecv V" using r by (auto simp: grid_sock_init_def)
  obtain e f where ef: "efds = (e, f)" by (cases efds)
  define a where "a = (case e of Inr x \<Rightarrow> x | Inl _ \<Rightarrow> 0)"
  define b where "b = (case f of Inr x \<Rightarrow> x | Inl _ \<Rightarrow> 0)"
  have same: "grid_sock_init V efds name create w = grid_sock_init V (Inr a, Inr b) name create w"
    using r ef by (auto simp: grid_sock_init_def grid_efd_init_def a_def b_def split: if_splits sum.splits)
  from sock_init_ok [of create w w1 name "(Inr a, Inr b)" a b, OF c v refl] r same show ?thesis by auto
qed

lemma sock_reach_rest:
  assumes "sock_reach V winv pipes home may_add may_in may_out tstopped sw"
  shows "sock_rest V winv pipes home tstopped sw"
  using assms
proof (induction rule: sock_reach.induct)
  case (sock_created create w w1 name efds s w')
  then show ?case by (intro init_rest)
next
  case (sock_went_on sw ev sw')
  from sock_event_ok [OF sock_went_on.IH sock_went_on.hyps(2)] sock_went_on.hyps(3) show ?case by auto
qed

section \<open>Closing\<close>

text \<open>
  An endpoint of a closing socket reports that it has stopped. With the last one, a socket whose
  type needs no time to stop is finished.
\<close>

lemma closing_step:
  assumes r: "sock_rest V winv pipes home tstopped (s, w)" and st: "sk_state s = SOCK_STOPPING_EPS"
    and e: "eid \<in> ep_eid ` set (sk_sdeps s)" and p: "pipes w = {}" and stop: "sb_stop V = None"
  shows "\<exists>s' w'. sock_event_step V (SkEpDone eid) (s, w) = Some (s', w') \<and> sock_rest V winv pipes home tstopped (s', w')
     \<and> (if ep_eid ` set (sk_sdeps s) = {eid} then sk_state s' = SOCK_FINI
        else sk_state s' = SOCK_STOPPING_EPS \<and> ep_eid ` set (sk_sdeps s') = ep_eid ` set (sk_sdeps s) - {eid} \<and> pipes w' = {})"
proof -
  from ep_done_ok [OF r e] p obtain s1 where d: "grid_epbase_stopped eid s = Some s1" "sock_inv V winv pipes home tstopped s1 w"
    "sk_state s1 = SOCK_STOPPING_EPS" "sk_events s1 = [EvEpDone eid]" "ep_eid ` set (sk_sdeps s1) = ep_eid ` set (sk_sdeps s)"
    using st by auto
  from process_done_ok [OF d(2,4)] obtain s2 where s2: "process_event V (EvEpDone eid) (s1\<lparr>sk_events := []\<rparr>, w) = Some (s2, w)"
    "sock_inv V winv pipes home tstopped s2 w" "sk_state s2 = SOCK_STOPPING_EPS" "sk_events s2 = [EvEpStopped eid]"
    "ep_eid ` set (sk_sdeps s2) = ep_eid ` set (sk_sdeps s)" using d(3,5) by auto
  from process_stopped_ok [OF s2(2,4)] s2(3,5) p obtain s3 w3 s4 w4 where
    s3: "process_event V (EvEpStopped eid) (s2\<lparr>sk_events := []\<rparr>, w) = Some (s3, w3)" "sock_inv V winv pipes home tstopped s3 w3"
      "sk_state s3 \<noteq> SOCK_ACTIVE"
    and f: "shutdown_finish2 V (s4, w4) = Some (s3, w3)" "sk_events s4 = []" "sk_state s4 = SOCK_STOPPING_EPS" "pipes w4 = {}"
      "sk_eps s4 = []" "ep_eid ` set (sk_sdeps s4) = ep_eid ` set (sk_sdeps s) - {eid}" by auto
  have o: "if ep_eid ` set (sk_sdeps s) = {eid} then sk_state s3 = SOCK_FINI
      else sk_state s3 = SOCK_STOPPING_EPS \<and> ep_eid ` set (sk_sdeps s3) = ep_eid ` set (sk_sdeps s) - {eid} \<and> pipes w3 = {}"
    and ev3: "sk_events s3 = []"
  proof (atomize (full), cases "sk_sdeps s4 = []")
    case True
    then have "ep_eid ` set (sk_sdeps s) = {eid}" using f(6) e by auto
    with f(1,2,5) True stop show "(if ep_eid ` set (sk_sdeps s) = {eid} then sk_state s3 = SOCK_FINI
      else sk_state s3 = SOCK_STOPPING_EPS \<and> ep_eid ` set (sk_sdeps s3) = ep_eid ` set (sk_sdeps s) - {eid} \<and> pipes w3 = {})
        \<and> sk_events s3 = []"
      by (auto simp: shutdown_finish2_def shutdown_finish1_def Let_def split: bind_splits)
  next
    case False
    then have "ep_eid ` set (sk_sdeps s) \<noteq> {eid}" using f(6) by auto
    with False f show "(if ep_eid ` set (sk_sdeps s) = {eid} then sk_state s3 = SOCK_FINI
      else sk_state s3 = SOCK_STOPPING_EPS \<and> ep_eid ` set (sk_sdeps s3) = ep_eid ` set (sk_sdeps s) - {eid} \<and> pipes w3 = {})
        \<and> sk_events s3 = []"
      by (auto simp: shutdown_finish2_def)
  qed
  have "process_events V (s1, w) = Some (s3, w3)"
    using d(4) s2(1,4) s3(1) ev3 by (simp add: process_events.simps)
  moreover have "grid_sock_onleave V (s3, w3) = Some (s3, w3)" using s3(3) by (simp add: grid_sock_onleave_def)
  ultimately have "sock_event_step V (SkEpDone eid) (s, w) = Some (s3, w3)"
    using d(1) by (simp add: in_ctx_def grid_ctx_leave_def)
  moreover have "sock_rest V winv pipes home tstopped (s3, w3)" using s3(2,3) ev3 by (simp add: rest_simp sock_signalled_def)
  ultimately show ?thesis using o by blast
qed

text \<open>A finished socket whose holds have been released can be destroyed.\<close>

lemma fini_term:
  assumes r: "sock_rest V winv pipes home tstopped (s, w)" and st: "sk_state s = SOCK_FINI"
  shows "grid_sock_term V (s\<lparr>sk_relesem := Suc n\<rparr>, w) = Ran (Some ())"
  using assms
  by (auto simp: grid_sock_term_def grid_ctx_leave_def process_events.simps grid_sock_onleave_def rest_simp sock_inv_def
      sock_phase_ok_def grid_fsm_stopped_noevent_def grid_fsm_term_def grid_fsm_isidle_def)

end

end
