(* ===== verification/SockTypes.thy ===== *)
theory SockTypes
  imports SockInv Bus Sinproc
begin

text \<open>
  Socket types as the generic socket sees them: the bus (\<open>src/protocols/bus/bus.c\<close>) and its table of
  virtual functions, over pipes of any transport, provides what \<open>sock_world\<close> asks for. Endpoints
  are those of a transport that closes its pipes at once when it is stopped, and reports so at once
  or later.
\<close>

section \<open>The bus as a socket type\<close>

definition bus_pipes :: "grid_bus \<Rightarrow> nat set" where
  "bus_pipes b = fq_pipes (xb_inpipes (bu_xbus b))"

definition bus_upd :: "('a \<Rightarrow> grid_xbus option) \<Rightarrow> 'a \<Rightarrow> grid_bus \<times> 'w \<Rightarrow> (grid_bus \<times> 'w) option" where
  "bus_upd f a bw = map_option (\<lambda>x. ((fst bw)\<lparr>bu_xbus := x\<rparr>, snd bw)) (f a)"

definition bus_env ::
  "(nat \<Rightarrow> msg \<Rightarrow> 'w \<Rightarrow> (u32 \<times> 'w) option) \<Rightarrow> (nat \<Rightarrow> 'w \<Rightarrow> (u32 \<times> msg \<times> 'w) option) \<Rightarrow> (nat \<Rightarrow> int) \<Rightarrow> (nat \<Rightarrow> int)
     \<Rightarrow> bool \<Rightarrow> (grid_bus \<times> 'w) sock_env" where
  "bus_env psend precv prio home now = \<lparr>
     st_domain = 1, st_protocol = GRID_BUS, st_nosend = False, st_norecv = False, st_ispeer = grid_xbus_ispeer,
     sb_add = (\<lambda>p bw. map_option (\<lambda>bw1. (Inr (), bw1)) (bus_upd (\<lambda>p. grid_xbus_add (bu_xbus (fst bw)) p (prio p)) p bw)),
     sb_rm = (\<lambda>p bw. bus_upd (grid_xbus_rm (bu_xbus (fst bw))) p bw),
     sb_in = (\<lambda>p bw. bus_upd (grid_xbus_in (bu_xbus (fst bw))) p bw),
     sb_out = (\<lambda>p bw. bus_upd (grid_xbus_out (bu_xbus (fst bw))) p bw),
     sb_events = (\<lambda>bw. grid_xbus_events (bu_xbus (fst bw))),
     sb_send = (\<lambda>m bw. map_option (\<lambda>(r, b1, w1). (r, b1, w1)) (grid_bus_send psend m (fst bw) (snd bw))),
     sb_recv = (\<lambda>bw. map_option (\<lambda>(r, b1, w1). (r, b1, w1)) (grid_bus_recv precv (fst bw) (snd bw))),
     sb_setopt = (\<lambda>level opt val bw. Some (grid_xbus_setopt, bw)),
     sb_getopt = (\<lambda>level opt len bw. Some (case grid_xbus_getopt of Inl e \<Rightarrow> Inl e | Inr u \<Rightarrow> Inr ([], len))),
     sb_stop = None,
     sb_destroy = (\<lambda>bw. map_option (\<lambda>u. bw) (grid_bus_term (fst bw))),
     tp_stop = (\<lambda>i bw. (sorted_list_of_set {p \<in> bus_pipes (fst bw). home p = i}, now, bw)),
     tp_destroy = (\<lambda>i bw. bw),
     tp_optset = (\<lambda>i. False),
     os_setopt = (\<lambda>level opt val bw. (Inl ENOPROTOOPT, bw)),
     os_getopt = (\<lambda>level opt len bw. Inl ENOPROTOOPT)\<rparr>"

text \<open>The bus and its pipes: the scheduler invariants, and every listed pipe is registered.\<close>

definition bus_inv ::
  "('w \<Rightarrow> bool) \<Rightarrow> (nat \<Rightarrow> 'w \<Rightarrow> bool) \<Rightarrow> (nat \<Rightarrow> 'w \<Rightarrow> bool) \<Rightarrow> grid_bus \<times> 'w \<Rightarrow> bool" where
  "bus_inv winv can_in can_out bw \<longleftrightarrow> winv (snd bw) \<and> xbus_ok can_in can_out (bu_xbus (fst bw)) (snd bw)
     \<and> finite (bus_pipes (fst bw)) \<and> set (di_pipes (xb_outpipes (bu_xbus (fst bw)))) \<subseteq> bus_pipes (fst bw)"

definition bus_may_add :: "(nat \<Rightarrow> int) \<Rightarrow> nat \<Rightarrow> grid_bus \<times> 'w \<Rightarrow> bool" where
  "bus_may_add prio p bw \<longleftrightarrow> 1 \<le> prio p \<and> prio p \<le> 16"

definition bus_may_in :: "(nat \<Rightarrow> 'w \<Rightarrow> bool) \<Rightarrow> nat \<Rightarrow> grid_bus \<times> 'w \<Rightarrow> bool" where
  "bus_may_in can_in p bw \<longleftrightarrow> p \<notin> fq_readable (xb_inpipes (bu_xbus (fst bw))) \<and> can_in p (snd bw)"

definition bus_may_out :: "(nat \<Rightarrow> 'w \<Rightarrow> bool) \<Rightarrow> nat \<Rightarrow> grid_bus \<times> 'w \<Rightarrow> bool" where
  "bus_may_out can_out p bw \<longleftrightarrow> p \<notin> set (di_pipes (xb_outpipes (bu_xbus (fst bw)))) \<and> can_out p (snd bw)
     \<and> Suc (length (di_pipes (xb_outpipes (bu_xbus (fst bw))))) < 2 ^ 32"

lemma fq_term_ok: "fq_ok can_in l w \<Longrightarrow> fq_pipes l = {} \<Longrightarrow> grid_fq_term l = Some ()"
proof -
  assume l: "fq_ok can_in l w" "fq_pipes l = {}"
  then have p: "prio_inv (fq_priolist l)" by (simp add: fq_ok_def)
  have "sl_pipes (pl_slots (fq_priolist l) ! i) = []" if "i < 16" for i
  proof (rule ccontr)
    assume "sl_pipes (pl_slots (fq_priolist l) ! i) \<noteq> []"
    then obtain d where "d \<in> set (sl_pipes (pl_slots (fq_priolist l) ! i))" by (meson last_in_set)
    with prio_invD(3) [OF p that] l(2) show False by auto
  qed
  then have "\<forall>s \<in> set (pl_slots (fq_priolist l)). sl_pipes s = []"
    using prio_invD(1) [OF p] by (auto simp: in_set_conv_nth)
  then show ?thesis by (simp add: grid_fq_term_def grid_priolist_term_def)
qed

lemma bus_term_ok:
  assumes "bus_inv winv can_in can_out bw" and "bus_pipes (fst bw) = {}"
  shows "grid_bus_term (fst bw) = Some ()"
proof -
  have d: "di_pipes (xb_outpipes (bu_xbus (fst bw))) = []" "dist_inv (xb_outpipes (bu_xbus (fst bw)))"
    using assms by (auto simp: bus_inv_def xbus_ok_def dist_ok_def)
  then have "di_count (xb_outpipes (bu_xbus (fst bw))) = 0" by (simp add: dist_inv_def unat_eq_0)
  moreover have "grid_fq_term (xb_inpipes (bu_xbus (fst bw))) = Some ()"
    using assms by (intro fq_term_ok [of can_in _ "snd bw"]) (simp_all add: bus_inv_def xbus_ok_def bus_pipes_def)
  ultimately show ?thesis using d(1) by (simp add: grid_bus_term_def grid_xbus_term_def grid_dist_term_def)
qed

context finite_pipes
begin

lemma bus_add:
  assumes "bus_inv winv can_in can_out bw" and "bus_may_add prio p bw" and "p \<notin> bus_pipes (fst bw)"
  shows "\<exists>bw'. bus_upd (\<lambda>p. grid_xbus_add (bu_xbus (fst bw)) p (prio p)) p bw = Some bw'
    \<and> bus_inv winv can_in can_out bw' \<and> bus_pipes (fst bw') = insert p (bus_pipes (fst bw))"
proof -
  have l: "fq_ok can_in (xb_inpipes (bu_xbus (fst bw))) (snd bw)" using assms(1) by (simp add: bus_inv_def xbus_ok_def)
  from assms(2) have pr: "1 \<le> prio p" "prio p \<le> 16" by (simp_all add: bus_may_add_def)
  note a = fq_add_ok [OF l _ pr]
  show ?thesis using assms a pr by (auto simp: bus_upd_def grid_xbus_add_def grid_dist_add_def bus_inv_def xbus_ok_def bus_pipes_def)
qed

lemma bus_rm:
  assumes "bus_inv winv can_in can_out bw"
  shows "\<exists>bw'. bus_upd (grid_xbus_rm (bu_xbus (fst bw))) p bw = Some bw'
    \<and> bus_inv winv can_in can_out bw' \<and> bus_pipes (fst bw') = bus_pipes (fst bw) - {p}"
proof -
  have l: "fq_ok can_in (xb_inpipes (bu_xbus (fst bw))) (snd bw)" "dist_ok can_out (xb_outpipes (bu_xbus (fst bw))) (snd bw)"
    using assms(1) by (simp_all add: bus_inv_def xbus_ok_def)
  from fq_rm_ok [OF l(1), of p] obtain l' where r: "grid_fq_rm (xb_inpipes (bu_xbus (fst bw))) p = Some l'"
    "fq_ok can_in l' (snd bw)" "fq_pipes l' = fq_pipes (xb_inpipes (bu_xbus (fst bw))) - {p}" by blast
  have "set (di_pipes (grid_dist_rm (xb_outpipes (bu_xbus (fst bw))) p)) = set (di_pipes (xb_outpipes (bu_xbus (fst bw)))) - {p}"
    using dist_rm_inv l(2) by (simp add: dist_ok_def)
  with r l assms dist_rm_ok [OF l(2), of p] show ?thesis
    by (auto simp: bus_upd_def grid_xbus_rm_def bus_inv_def xbus_ok_def bus_pipes_def)
qed

lemma bus_in:
  assumes "bus_inv winv can_in can_out bw" and "p \<in> bus_pipes (fst bw)" and "bus_may_in can_in p bw"
  shows "\<exists>bw'. bus_upd (grid_xbus_in (bu_xbus (fst bw))) p bw = Some bw'
    \<and> bus_inv winv can_in can_out bw' \<and> bus_pipes (fst bw') = bus_pipes (fst bw)"
proof -
  have l: "fq_ok can_in (xb_inpipes (bu_xbus (fst bw))) (snd bw)" using assms(1) by (simp add: bus_inv_def xbus_ok_def)
  from fq_in_ok [OF l, of p] assms(2,3) obtain l' where "grid_fq_in (xb_inpipes (bu_xbus (fst bw))) p = Some l'"
    "fq_ok can_in l' (snd bw)" "fq_pipes l' = fq_pipes (xb_inpipes (bu_xbus (fst bw)))"
    by (auto simp: bus_pipes_def bus_may_in_def)
  with assms(1) show ?thesis by (auto simp: bus_upd_def grid_xbus_in_def bus_inv_def xbus_ok_def bus_pipes_def)
qed

lemma bus_out:
  assumes "bus_inv winv can_in can_out bw" and "p \<in> bus_pipes (fst bw)" and "bus_may_out can_out p bw"
  shows "\<exists>bw'. bus_upd (grid_xbus_out (bu_xbus (fst bw))) p bw = Some bw'
    \<and> bus_inv winv can_in can_out bw' \<and> bus_pipes (fst bw') = bus_pipes (fst bw)"
proof -
  have d: "dist_ok can_out (xb_outpipes (bu_xbus (fst bw))) (snd bw)" using assms(1) by (simp add: bus_inv_def xbus_ok_def)
  from dist_out_ok [OF d, of p] assms(3) obtain d' where "grid_dist_out (xb_outpipes (bu_xbus (fst bw))) p = Some d'"
    "dist_ok can_out d' (snd bw)" "set (di_pipes d') = insert p (set (di_pipes (xb_outpipes (bu_xbus (fst bw)))))"
    by (auto simp: bus_may_out_def)
  with assms(1,2) show ?thesis by (auto simp: bus_upd_def grid_xbus_out_def bus_inv_def xbus_ok_def bus_pipes_def)
qed

lemma bus_send:
  assumes "bus_inv winv can_in can_out bw"
  shows "\<exists>r b' w'. grid_bus_send psend m (fst bw) (snd bw) = Some (r, b', w')
    \<and> bus_inv winv can_in can_out (b', w') \<and> bus_pipes b' = bus_pipes (fst bw)"
proof (cases "sphdr m = []")
  case False
  with assms show ?thesis by (cases bw) (simp add: grid_bus_send_def)
next
  case True
  have x: "winv (snd bw)" "xbus_ok can_in can_out (bu_xbus (fst bw)) (snd bw)" using assms by (simp_all add: bus_inv_def)
  from xbus_send_ok [OF x, of m None] True obtain s' w' where r:
    "grid_xbus_send psend m (bu_xbus (fst bw)) (snd bw) = Some (Inr (), s', w')" "winv w'" "xbus_ok can_in can_out s' w'"
    "xb_inpipes s' = xb_inpipes (bu_xbus (fst bw))"
    "set (di_pipes (xb_outpipes s')) = {p \<in> set (di_pipes (xb_outpipes (bu_xbus (fst bw)))). can_out p w'}" by auto
  with True assms show ?thesis by (auto simp: grid_bus_send_def bus_inv_def bus_pipes_def)
qed

lemma bus_recv:
  assumes "bus_inv winv can_in can_out bw"
  shows "\<exists>r b' w'. grid_bus_recv precv (fst bw) (snd bw) = Some (r, b', w')
    \<and> bus_inv winv can_in can_out (b', w') \<and> bus_pipes b' = bus_pipes (fst bw)"
proof -
  have x: "winv (snd bw)" "xbus_ok can_in can_out (bu_xbus (fst bw)) (snd bw)" using assms by (simp_all add: bus_inv_def)
  from xbus_recv_ok [OF x] obtain r s' w' where r:
    "grid_xbus_recv precv (bu_xbus (fst bw)) (snd bw) = Some (r, s', w')" "winv w'" "xbus_ok can_in can_out s' w'"
    "xb_outpipes s' = xb_outpipes (bu_xbus (fst bw))" "fq_pipes (xb_inpipes s') = fq_pipes (xb_inpipes (bu_xbus (fst bw)))"
    "case r of Inl e \<Rightarrow> e = EAGAIN | Inr m \<Rightarrow> length (sphdr m) = 8"
    by (fastforce split: sum.splits)
  then show ?thesis using assms by (cases r) (auto simp: grid_bus_recv_def bus_inv_def bus_pipes_def)
qed

lemma bus_sock_world:
  "sock_world (bus_env psend precv prio home now) (bus_inv winv can_in can_out) (\<lambda>bw. bus_pipes (fst bw)) home
     (bus_may_add prio) (bus_may_in can_in) (bus_may_out can_out) (\<lambda>bw. True)"
proof (unfold_locales, goal_cases)
  case 1
  then show ?case by (simp add: bus_inv_def)
next
  case (2 w p)
  from bus_add [OF 2] show ?case by (force simp: bus_env_def)
next
  case (3 w p)
  from bus_rm [OF 3(1), of p] show ?case by (simp add: bus_env_def)
next
  case (4 w p)
  from bus_in [OF 4] show ?case by (simp add: bus_env_def)
next
  case (5 w p)
  from bus_out [OF 5] show ?case by (simp add: bus_env_def)
next
  case (6 w m)
  from bus_send [OF 6, of m] show ?case by (force simp: bus_env_def)
next
  case (7 w)
  from bus_recv [OF 7] show ?case by (force simp: bus_env_def)
next
  case (11 w)
  from bus_term_ok [OF 11(1,2)] show ?case by (simp add: bus_env_def)
next
  case (12 w i ps nw w')
  then have "finite (bus_pipes (fst w))" by (simp add: bus_inv_def)
  with 12 show ?case by (auto simp: bus_env_def)
qed (auto simp: bus_env_def)

end

text \<open>Over inproc.\<close>

interpretation bus_inproc: sock_world "bus_env (grid_pipe_send grid_sinproc_send) (grid_pipe_recv grid_sinproc_recv) prio home now"
  "bus_inv inproc_inv inproc_can_in inproc_can_out" "\<lambda>bw. bus_pipes (fst bw)" home "bus_may_add prio"
  "bus_may_in inproc_can_in" "bus_may_out inproc_can_out" "\<lambda>bw. True" for prio home now
  by (rule finite_pipes.bus_sock_world [OF inproc_finite.finite_pipes_axioms])

end
