(* ===== verification/SockProps.thy ===== *)
theory SockProps
  imports SockTypes
begin

text \<open>
  The properties of the generic socket. Their hypotheses are the contract \<open>sock_world\<close> of socket
  types and transports, and reachability; the witnesses take the bus over inproc.
\<close>

section \<open>A bus socket for the witnesses\<close>

definition scene_bus :: "(grid_bus \<times> inproc) sock_env" where
  "scene_bus = bus_env (grid_pipe_send grid_sinproc_send) (grid_pipe_recv grid_sinproc_recv) (\<lambda>p. 8) (\<lambda>p. 1) False"

lemma scene_bus_world:
  "sock_world scene_bus (bus_inv inproc_inv inproc_can_in inproc_can_out) (\<lambda>bw. bus_pipes (fst bw)) (\<lambda>p. 1) (bus_may_add (\<lambda>p. 8))
     (bus_may_in inproc_can_in) (bus_may_out inproc_can_out) (\<lambda>bw. True)"
  unfolding scene_bus_def by (rule bus_inproc.sock_world_axioms)

text \<open>A socket that has just been opened.\<close>

lemma scene_bus_opened:
  "\<exists>s w. sock_reach scene_bus (bus_inv inproc_inv inproc_can_in inproc_can_out) (\<lambda>bw. bus_pipes (fst bw)) (\<lambda>p. 1)
      (bus_may_add (\<lambda>p. 8)) (bus_may_in inproc_can_in) (bus_may_out inproc_can_out) (\<lambda>bw. True) (s, w)
    \<and> sk_state s = SOCK_ACTIVE \<and> sock_rest scene_bus (bus_inv inproc_inv inproc_can_in inproc_can_out)
        (\<lambda>bw. bus_pipes (fst bw)) (\<lambda>p. 1) (\<lambda>bw. True) (s, w)"
proof -
  let ?w = "(grid_bus_init, inproc_init 100)"
  have i: "bus_inv inproc_inv inproc_can_in inproc_can_out ?w" "bus_pipes (fst ?w) = {}"
    by (simp_all add: bus_inv_def bus_pipes_def grid_bus_init_def grid_xbus_init_def fq_init_ok xbus_ok_def
        grid_dist_init_def dist_ok_def dist_inv_def fresh_init)
  have v: "\<not> st_nosend scene_bus \<or> \<not> st_norecv scene_bus" by (simp add: scene_bus_def bus_env_def)
  from sock_world.sock_init_ok [OF scene_bus_world, of Some ?w ?w "''0''", OF refl i _ v refl, of 5 6]
  obtain s w' where r: "grid_sock_init scene_bus (Inr 5, Inr 6) ''0'' Some ?w = Some (Inr (s, w'))"
    "sock_rest scene_bus (bus_inv inproc_inv inproc_can_in inproc_can_out) (\<lambda>bw. bus_pipes (fst bw)) (\<lambda>p. 1) (\<lambda>bw. True) (s, w')"
    "sk_state s = SOCK_ACTIVE" by auto
  have "sock_reach scene_bus (bus_inv inproc_inv inproc_can_in inproc_can_out) (\<lambda>bw. bus_pipes (fst bw)) (\<lambda>p. 1)
      (bus_may_add (\<lambda>p. 8)) (bus_may_in inproc_can_in) (bus_may_out inproc_can_out) (\<lambda>bw. True) (s, w')"
    by (rule sock_created [of Some ?w ?w "bus_inv inproc_inv inproc_can_in inproc_can_out" "\<lambda>bw. bus_pipes (fst bw)" "''0''",
        OF refl i _ r(1)]) simp
  with r(2,3) show ?thesis by blast
qed

text \<open>The same, step by step: opened, with an endpoint, and closing.\<close>

definition scene_s0 :: grid_sock where
  "scene_s0 = (sock_defaults ''0'' \<lparr>ef_fd = 5, ef_count = 1\<rparr> \<lparr>ef_fd = 6, ef_count = 0\<rparr>)\<lparr>
     sk_fsm := \<lparr>fs_state = FSM_ACTIVE, fs_stopped = False\<rparr>, sk_state := SOCK_ACTIVE, sk_out := True\<rparr>"

definition scene_w0 :: "grid_bus \<times> inproc" where
  "scene_w0 = (grid_bus_init, inproc_init 100)"

lemma scene_events: "sb_events scene_bus scene_w0 = GRID_SOCKBASE_EVENT_OUT"
  by (simp add: scene_bus_def bus_env_def scene_w0_def grid_bus_init_def grid_xbus_init_def grid_xbus_events_def
      grid_fq_can_recv_def grid_fq_init_def grid_priolist_is_active_def grid_priolist_init_def)

lemma scene_env [simp]: "st_nosend scene_bus = False" "st_norecv scene_bus = False" "sb_stop scene_bus = None"
  "tp_stop scene_bus 1 scene_w0 = ([], False, scene_w0)"
  by (simp_all add: scene_bus_def bus_env_def scene_w0_def grid_bus_init_def grid_xbus_init_def bus_pipes_def fq_init_ok)

lemma scene_masks [simp]: "GRID_SOCKBASE_EVENT_OUT AND GRID_SOCKBASE_EVENT_IN = 0" "GRID_SOCKBASE_EVENT_OUT \<noteq> 0"
  by (simp_all add: GRID_SOCKBASE_EVENT_OUT_def GRID_SOCKBASE_EVENT_IN_def)

lemma scene_leave:
  "sk_events s = [] \<Longrightarrow> sk_state s = SOCK_ACTIVE \<Longrightarrow> \<not> sk_in s \<Longrightarrow> sk_out s \<Longrightarrow> grid_ctx_leave scene_bus (s, scene_w0) = Some (s, scene_w0)"
  by (simp add: grid_ctx_leave_def process_events.simps grid_sock_onleave_def scene_events adjust_efd_def Let_def)

lemma scene_init: "grid_sock_init scene_bus (Inr 5, Inr 6) ''0'' Some scene_w0 = Some (Inr (scene_s0, scene_w0))"
  by (simp add: grid_sock_init_def grid_efd_init_def in_ctx_def grid_fsm_start_def grid_sock_handler_def sock_fsm_update_def
      sock_defaults_def grid_fsm_isidle_def grid_fsm_init_def grid_ctx_leave_def process_events.simps grid_sock_onleave_def
      scene_events adjust_efd_def grid_efd_signal_def scene_s0_def)

definition scene_ep :: grid_ep where
  "scene_ep = \<lparr>ep_fsm = \<lparr>fs_state = FSM_ACTIVE, fs_stopped = False\<rparr>, ep_state = EP_ACTIVE,
     ep_options = \<lparr>ep_sndprio = 8, ep_rcvprio = 8, ep_ipv4only = 1\<rparr>, ep_eid = 1, ep_addr = ''a'', ep_last_errno = 0\<rparr>"

lemma scene_add_ep: "sock_event_step scene_bus (SkAddEp (\<lambda>i a w. (Inr (), w)) ''a'') (scene_s0, scene_w0)
    = Some (scene_s0\<lparr>sk_eid := 2, sk_eps := [scene_ep]\<rparr>, scene_w0)"
  by (simp add: grid_sock_add_ep_def grid_ep_init_def grid_ep_start_def grid_fsm_start_def grid_ep_handler_def
      grid_fsm_isidle_def grid_fsm_init_def GRID_SOCKADDR_MAX_def scene_leave scene_s0_def sock_defaults_def scene_ep_def)

lemma scene_stop: "\<exists>s. sock_event_step scene_bus SkStop (scene_s0\<lparr>sk_eid := 2, sk_eps := [scene_ep]\<rparr>, scene_w0) = Some (s, scene_w0)
    \<and> sk_state s = SOCK_STOPPING_EPS \<and> ep_eid ` set (sk_sdeps s) = {1}"
  by (simp add: grid_sock_stop_def in_ctx_def grid_fsm_stop_def sock_fsm_update_def grid_sock_shutdown_def shut_ep_def
      scene_ep_def scene_s0_def sock_defaults_def grid_ep_stop_def grid_ep_shutdown_def epbase_stop_def put_ep_def
      shutdown_finish2_def grid_ctx_leave_def process_events.simps grid_sock_onleave_def)

lemma scene_closing:
  "\<exists>s. sock_reach scene_bus (bus_inv inproc_inv inproc_can_in inproc_can_out) (\<lambda>bw. bus_pipes (fst bw)) (\<lambda>p. 1)
      (bus_may_add (\<lambda>p. 8)) (bus_may_in inproc_can_in) (bus_may_out inproc_can_out) (\<lambda>bw. True) (s, scene_w0)
    \<and> sk_state s = SOCK_STOPPING_EPS \<and> ep_eid ` set (sk_sdeps s) = {1} \<and> bus_pipes (fst scene_w0) = {}"
proof -
  have i: "bus_inv inproc_inv inproc_can_in inproc_can_out scene_w0" "bus_pipes (fst scene_w0) = {}"
    by (simp_all add: scene_w0_def bus_inv_def bus_pipes_def grid_bus_init_def grid_xbus_init_def fq_init_ok xbus_ok_def
        grid_dist_init_def dist_ok_def dist_inv_def fresh_init)
  have r0: "sock_reach scene_bus (bus_inv inproc_inv inproc_can_in inproc_can_out) (\<lambda>bw. bus_pipes (fst bw)) (\<lambda>p. 1)
      (bus_may_add (\<lambda>p. 8)) (bus_may_in inproc_can_in) (bus_may_out inproc_can_out) (\<lambda>bw. True) (scene_s0, scene_w0)"
    by (rule sock_created [of Some scene_w0 scene_w0 "bus_inv inproc_inv inproc_can_in inproc_can_out"
        "\<lambda>bw. bus_pipes (fst bw)" "''0''", OF refl i _ scene_init]) simp
  have r1: "sock_reach scene_bus (bus_inv inproc_inv inproc_can_in inproc_can_out) (\<lambda>bw. bus_pipes (fst bw)) (\<lambda>p. 1)
      (bus_may_add (\<lambda>p. 8)) (bus_may_in inproc_can_in) (bus_may_out inproc_can_out) (\<lambda>bw. True)
      (scene_s0\<lparr>sk_eid := 2, sk_eps := [scene_ep]\<rparr>, scene_w0)"
    by (rule sock_went_on [OF r0 _ scene_add_ep]) (simp add: GRID_SOCKADDR_MAX_def scene_s0_def)
  obtain s where s: "sock_event_step scene_bus SkStop (scene_s0\<lparr>sk_eid := 2, sk_eps := [scene_ep]\<rparr>, scene_w0) = Some (s, scene_w0)"
    "sk_state s = SOCK_STOPPING_EPS" "ep_eid ` set (sk_sdeps s) = {1}" using scene_stop by blast
  from sock_went_on [OF r1 _ s(1)] s(2,3) i(2) show ?thesis by auto
qed

section \<open>Safety\<close>



text \<open>
  C12: The descriptors for polling are right. Whenever no thread holds the context of an active
  socket, its receive descriptor polls ready exactly when the socket type says that receiving is
  possible, and its send descriptor exactly when sending is.
\<close>

theorem sock_poll_agrees:
  assumes "sock_world V winv pipes home may_add may_in may_out tstopped"
    and "sock_reach V winv pipes home may_add may_in may_out tstopped (s, w)" and "sk_state s = SOCK_ACTIVE"
  shows "(st_norecv V \<or> (grid_efd_poll (sk_rcvfd s) = Inr () \<longleftrightarrow> sb_events V w AND GRID_SOCKBASE_EVENT_IN \<noteq> 0))
    \<and> (st_nosend V \<or> (grid_efd_poll (sk_sndfd s) = Inr () \<longleftrightarrow> sb_events V w AND GRID_SOCKBASE_EVENT_OUT \<noteq> 0))"
proof -
  have r: "sock_rest V winv pipes home tstopped (s, w)" using sock_world.sock_reach_rest [OF assms(1,2)] .
  then have e: "sock_efds_ok V s" "sock_signalled V s w" using assms(3) by (simp_all add: sock_rest_def sock_inv_def)
  then show ?thesis
    using assms(3) by (auto simp: sock_efds_ok_def sock_signalled_def efd_ok_def grid_efd_poll_def grid_efd_getfd_def)
qed

theorem sock_poll_agrees_witness:
  "\<exists>(s :: grid_sock) w. sk_state s = SOCK_ACTIVE \<and> (grid_efd_poll (sk_rcvfd s) = Inr () \<longleftrightarrow> sb_events scene_bus w AND GRID_SOCKBASE_EVENT_IN \<noteq> 0)"
proof -
  obtain s w where r: "sock_reach scene_bus (bus_inv inproc_inv inproc_can_in inproc_can_out) (\<lambda>bw. bus_pipes (fst bw)) (\<lambda>p. 1)
      (bus_may_add (\<lambda>p. 8)) (bus_may_in inproc_can_in) (bus_may_out inproc_can_out) (\<lambda>bw. True) (s, w)" "sk_state s = SOCK_ACTIVE"
    using scene_bus_opened by blast
  have "\<not> st_norecv scene_bus" by (simp add: scene_bus_def bus_env_def)
  with sock_poll_agrees [OF scene_bus_world r] r(2) show ?thesis by (intro exI [of _ s] exI [of _ w] conjI) simp_all
qed

section \<open>Closing and terminating\<close>

fun sock_events :: "'w sock_env \<Rightarrow> 'w sock_event list \<Rightarrow> grid_sock \<times> 'w \<Rightarrow> (grid_sock \<times> 'w) option" where
  "sock_events V [] sw = Some sw"
| "sock_events V (ev # evs) sw = Option.bind (sock_event_step V ev sw) (sock_events V evs)"




text \<open>
  A defect: once \<open>grid_term\<close> has been called, an event of a pipe (a message that comes in, or
  room for one) or of an endpoint that stops aborts the process, and so does a second call of
  \<open>grid_term\<close>; and no socket can be held any more, which \<open>grid_close\<close> needs.
\<close>

theorem sock_zombie_aborts:
  assumes "sk_state s = SOCK_ACTIVE" and "fs_state (sk_fsm s) = FSM_ACTIVE" and "sk_events s = []"
  shows "\<exists>s'. grid_sock_zombify V (s, w) = Some (s', w) \<and> sock_pipe_in V p (s', w) = None \<and> sock_pipe_out V p (s', w) = None
    \<and> process_event V (EvEpStopped i) (s', w) = None \<and> grid_sock_zombify V (s', w) = None \<and> fst (grid_sock_hold s') \<noteq> Inr ()"
proof -
  define s' where "s' = grid_sock_action_zombify V s"
  have z: "sk_state s' = SOCK_ZOMBIE" "sk_events s' = []" "fs_state (sk_fsm s') = FSM_ACTIVE"
    using assms by (auto simp: s'_def grid_sock_action_zombify_def Let_def)
  have "grid_ctx_leave V (s', w) = Some (s', w)"
    using z(1,2) by (simp add: grid_ctx_leave_def process_events.simps grid_sock_onleave_def)
  then have "grid_sock_zombify V (s, w) = Some (s', w)"
    using assms by (simp add: grid_sock_zombify_def in_ctx_def sock_feed_def grid_fsm_feed_def grid_sock_handler_def s'_def)
  moreover have "process_event V (EvEpStopped i) (s', w) = None"
    using z by (cases "find_ep i s'") (simp_all add: process_event_def sock_feed_def grid_fsm_feed_def grid_sock_handler_def)
  ultimately show ?thesis using z
    by (intro exI [of _ s']) (simp add: sock_pipe_in_def sock_pipe_out_def grid_sock_zombify_def in_ctx_def sock_feed_def
        grid_fsm_feed_def grid_sock_handler_def grid_sock_hold_def)
qed


theorem sock_zombie_aborts_witness:
  "\<exists>s w s'. sk_state s = SOCK_ACTIVE \<and> grid_sock_zombify scene_bus (s, w) = Some (s', w) \<and> sock_pipe_in scene_bus 0 (s', w) = None"
proof -
  obtain s w where r: "sk_state s = SOCK_ACTIVE" "sock_rest scene_bus (bus_inv inproc_inv inproc_can_in inproc_can_out)
        (\<lambda>bw. bus_pipes (fst bw)) (\<lambda>p. 1) (\<lambda>bw. True) (s, w)" using scene_bus_opened by blast
  then have f: "fs_state (sk_fsm s) = FSM_ACTIVE" "sk_events s = []" by (auto simp: sock_rest_def sock_inv_def sock_phase_ok_def)
  from sock_zombie_aborts [OF r(1) f, of scene_bus w 0] r(1) show ?thesis by blast
qed

text \<open>
  Binding or connecting is not kept from happening when the socket has been closed already: a
  thread that held the socket before adds an endpoint that nobody stops, and \<open>grid_sock_term\<close>
  then aborts.
\<close>

lemma late_endpoint_aborts_close:
  assumes "sk_state s = SOCK_FINI" and "sk_events s = []" and "fs_state (sk_fsm s) = FSM_STOPPING" and "\<not> fs_stopped (sk_fsm s)"
    and "length addr \<le> GRID_SOCKADDR_MAX" and "create (sk_eid s) addr w = (Inr (), w1)"
  shows "\<exists>s'. grid_sock_add_ep V create addr (s, w) = Some (Inr (sk_eid s), s', w1)
    \<and> (sk_termsem s' > 0 \<longrightarrow> grid_sock_term V (s'\<lparr>sk_relesem := Suc n\<rparr>, w1) = Ran None)"
  using assms
  by (auto simp: grid_sock_add_ep_def grid_ep_init_def grid_ep_start_def grid_fsm_start_def grid_ep_handler_def
      grid_fsm_isidle_def grid_fsm_init_def grid_ctx_leave_def process_events.simps grid_sock_onleave_def grid_sock_term_def
      grid_fsm_stopped_noevent_def grid_fsm_term_def)

section \<open>Blocking and options\<close>

lemma time_left_exact:
  assumes "0 \<le> t" and "t < 2 ^ 31" and "uint now0 + t < 2 ^ 64" and "now0 \<le> now"
  shows "time_left t (now0 + of_int t) now d = max 0 (t - uint (now - now0))"
proof -
  have n: "uint (now - now0) = uint now - uint now0" using assms(4) by (simp add: uint_minus_simple_alt)
  have dl: "uint (now0 + of_int t :: u64) = uint now0 + t"
    using assms(1-3) by (simp add: uint_word_ariths unsigned_of_int take_bit_int_eq_self)
  show ?thesis
  proof (cases "now > now0 + of_int t")
    case True
    then show ?thesis using dl n assms(1) by (simp add: time_left_def word_less_def)
  next
    case False
    then have le: "now \<le> now0 + of_int t" by simp
    then have u: "uint (now0 + of_int t - now) = uint now0 + t - uint now" using dl by (simp add: uint_minus_simple_alt)
    have m: "uint now0 \<le> uint now" using assms(4) by (simp add: word_le_def)
    then have r: "0 \<le> uint now0 + t - uint now" "uint now0 + t - uint now < 2 ^ 31"
      using le dl assms(2) by (simp_all add: word_le_def)
    have "sint (ucast (now0 + of_int t - now) :: u32) = uint now0 + t - uint now"
      using r u by (simp add: sint_uint unsigned_ucast_eq take_bit_int_eq_self signed_take_bit_int_eq_self)
    with False n r(1) assms(1) show ?thesis by (simp add: time_left_def)
  qed
qed

text \<open>
  The waits of a blocking operation, when the option keeps its value \<open>t\<close> and the clock does not run
  backwards: the timeout that it is waiting with is what is left of \<open>t\<close>.
\<close>

definition steady :: "(grid_sock \<Rightarrow> int) \<Rightarrow> int \<Rightarrow> u64 \<Rightarrow> 'w wakeup list \<Rightarrow> bool" where
  "steady timeo t now ks \<longleftrightarrow> (\<forall>k \<in> set ks. now \<le> wk_now k \<and> (\<forall>sw. timeo (fst (wk_others k sw)) = t))"

lemma wait_loop_timeout:
  assumes t: "t < 2 ^ 31" "uint now0 + t < 2 ^ 64" and mark: "\<And>s. timeo (mark s) = timeo s"
    and dl: "0 \<le> t \<Longrightarrow> dl = now0 + of_int t"
  shows "steady timeo t now0 ks \<Longrightarrow>
    sock_wait_loop V attempt fd mark timeo dontwait dl d ks (s, w) = Some (Waiting r, s', w') \<Longrightarrow>
    r = (if ks = [] \<or> t < 0 then d else max 0 (t - uint (wk_now (last ks) - now0)))"
proof (induction ks arbitrary: s w d)
  case Nil
  then show ?case
    by (auto simp: leave_with_def split: option.splits prod.splits sum.splits if_splits)
next
  case (Cons k ks)
  have st: "steady timeo t now0 ks" "now0 \<le> wk_now k" "\<forall>sw. timeo (fst (wk_others k sw)) = t"
    using Cons.prems(1) by (simp_all add: steady_def del: split_paired_All)
  obtain s2 w2 where "sock_wait_loop V attempt fd mark timeo dontwait dl (time_left t dl (wk_now k) d) ks (s2, w2)
      = Some (Waiting r, s', w')"
  proof -
    have o: "timeo s2 = t" if "wk_others k x = (s2, w2)" for x s2 w2 using st(3) [rule_format, of x] that by simp
    show thesis using Cons.prems(2) o mark that
      unfolding sock_wait_loop.simps [of V attempt fd mark timeo dontwait dl d "k # ks" s w]
      by (auto simp: leave_with_def Let_def simp del: sock_wait_loop.simps split: option.splits prod.splits sum.splits if_splits bind_splits)
  qed
  from Cons.IH [OF st(1) this] have r: "r = (if ks = [] \<or> t < 0 then time_left t dl (wk_now k) d
      else max 0 (t - uint (wk_now (last ks) - now0)))" .
  show ?case
  proof (cases "t < 0")
    case True
    with r show ?thesis by (simp add: time_left_def)
  next
    case False
    with r time_left_exact [OF _ t st(2), of d] dl show ?thesis by simp
  qed
qed

text \<open>
  C18: A blocking send or receive never waits longer than its option allows. If it is waiting after
  any number of wakeups, the timeout it gave to the last wait is the option's value minus the time
  that has passed since the call, and 0 when that is negative; with a negative option it waits
  without a limit.
\<close>

theorem sock_wait_bounded:
  assumes "t < 2 ^ 31" and "uint now + t < 2 ^ 64"
    and "grid_sock_send V m dontwait now ks (s, w) = Some (Waiting r, s', w') \<and> sk_sndtimeo s = t \<and> steady sk_sndtimeo t now ks
       \<or> grid_sock_recv V dontwait now ks (s, w) = Some (Waiting r, s', w') \<and> sk_rcvtimeo s = t \<and> steady sk_rcvtimeo t now ks"
  shows "r = (if t < 0 then -1 else if ks = [] then t else max 0 (t - uint (wk_now (last ks) - now))) \<and> (0 \<le> t \<longrightarrow> 0 \<le> r \<and> r \<le> t)"
proof -
  obtain dl d where dd: "first_deadline t now = (dl, d)" by (cases "first_deadline t now")
  then have dl: "0 \<le> t \<Longrightarrow> dl = now + of_int t" "d = (if t < 0 then -1 else t)"
    by (auto simp: first_deadline_def split: if_splits)
  have "r = (if ks = [] \<or> t < 0 then d else max 0 (t - uint (wk_now (last ks) - now)))"
    using assms(3)
  proof
    assume a: "grid_sock_send V m dontwait now ks (s, w) = Some (Waiting r, s', w') \<and> sk_sndtimeo s = t \<and> steady sk_sndtimeo t now ks"
    then have "sock_wait_loop V (sb_send V m) sk_sndfd (\<lambda>s. s\<lparr>sk_out := True\<rparr>) sk_sndtimeo dontwait dl d ks (s, w)
        = Some (Waiting r, s', w')" using dd by (auto simp: grid_sock_send_def simp del: sock_wait_loop.simps split: if_splits)
    from wait_loop_timeout [OF assms(1,2) _ dl(1), of "sk_sndtimeo" "\<lambda>s. s\<lparr>sk_out := True\<rparr>", OF _ _ _ this] a show ?thesis by (elim conjE) simp
  next
    assume a: "grid_sock_recv V dontwait now ks (s, w) = Some (Waiting r, s', w') \<and> sk_rcvtimeo s = t \<and> steady sk_rcvtimeo t now ks"
    then have "sock_wait_loop V (sb_recv V) sk_rcvfd (\<lambda>s. s\<lparr>sk_in := True\<rparr>) sk_rcvtimeo dontwait dl d ks (s, w)
        = Some (Waiting r, s', w')" using dd by (auto simp: grid_sock_recv_def simp del: sock_wait_loop.simps split: if_splits)
    from wait_loop_timeout [OF assms(1,2) _ dl(1), of "sk_rcvtimeo" "\<lambda>s. s\<lparr>sk_in := True\<rparr>", OF _ _ _ this] a show ?thesis by (elim conjE) simp
  qed
  with dl(2) show ?thesis by auto
qed

theorem sock_wait_bounded_witness:
  "\<exists>s' w'. grid_sock_recv scene_bus False 1000 [] (scene_s0\<lparr>sk_rcvtimeo := 50\<rparr>, scene_w0) = Some (Waiting 50, s', w')"
proof -
  have "xbus_recv_loop (grid_pipe_recv grid_sinproc_recv) (grid_fq_init, inproc_init 100) = Some (Inl EAGAIN, grid_fq_init, inproc_init 100)"
  proof -
    have "grid_fq_recv (grid_pipe_recv grid_sinproc_recv) grid_fq_init (inproc_init 100) = Some (Inl EAGAIN, grid_fq_init, inproc_init 100)"
      by (rule fq_recv_empty [OF fq_init_ok(1,3)])
    then show ?thesis by (subst xbus_recv_loop.simps) simp
  qed
  then have "sb_recv scene_bus scene_w0 = Some (Inl EAGAIN, scene_w0)"
    by (simp add: scene_bus_def bus_env_def scene_w0_def grid_bus_recv_def grid_xbus_recv_def grid_bus_init_def grid_xbus_init_def)
  then have r: "grid_sock_recv scene_bus False 1000 [] (scene_s0\<lparr>sk_rcvtimeo := 50\<rparr>, scene_w0)
      = Some (Waiting 50, scene_s0\<lparr>sk_rcvtimeo := 50\<rparr>, scene_w0)"
    by (simp add: grid_sock_recv_def first_deadline_def state_check_def leave_with_def scene_leave scene_s0_def sock_defaults_def)
  have "(50 :: int) = (if (50 :: int) < 0 then -1 else if ([] :: (grid_bus \<times> inproc) wakeup list) = [] then 50
      else max 0 (50 - uint (wk_now (last ([] :: (grid_bus \<times> inproc) wakeup list)) - 1000)))"
    using sock_wait_bounded [of 50 1000 scene_bus no_msg False "[]" "scene_s0\<lparr>sk_rcvtimeo := 50\<rparr>" scene_w0 50] r
    by (simp add: steady_def)
  with r show ?thesis by blast
qed

text \<open>
  C28: Socket options are read back as they were set, and only values that the code can rely on are
  accepted: setting an integer option with the value's four bytes either fails with EINVAL or
  ENOPROTOOPT and leaves the socket unchanged, or succeeds, keeps all options in their ranges,
  and reading the option then gives the same four bytes.
\<close>

theorem sock_option_roundtrip:
  assumes "options_ok s" and "- (2 ^ 31) \<le> v" and "v < 2 ^ 31" and "opt \<noteq> GRID_SOCKET_NAME"
  shows "\<exists>rc s'. grid_sock_setopt_inner V GRID_SOL_SOCKET opt (int_bytes v) (s, w) = Some (rc, s', w) \<and> options_ok s'
    \<and> (case rc of
         Inl e \<Rightarrow> (e = EINVAL \<or> e = ENOPROTOOPT) \<and> s' = s
       | Inr u \<Rightarrow> grid_sock_getopt_inner V GRID_SOL_SOCKET opt 4 (s', w) = Some (Inr (int_bytes v, 4), s'))"
proof -
  have l: "int_load (int_bytes v) = v" using int_load_bytes assms(2,3) .
  show ?thesis
  proof (cases "set_int_option opt v s")
    case (Inl e)
    then have "e = EINVAL \<or> e = ENOPROTOOPT" by (auto simp: set_int_option_def Let_def split: if_splits)
    with Inl l assms(1,4) show ?thesis by (simp add: grid_sock_setopt_inner_def)
  next
    case (Inr s')
    have "get_int_option V opt s' = Some v \<and> opt \<noteq> GRID_SNDFD \<and> opt \<noteq> GRID_RCVFD"
      using Inr unfolding set_int_option_def Let_def option_ids
      by (auto simp: get_int_option_def option_ids split: if_splits)
    then have "grid_sock_getopt_inner V GRID_SOL_SOCKET opt 4 (s', w) = Some (Inr (int_bytes v, 4), s')"
      using assms(4) by (simp add: grid_sock_getopt_inner_def)
    moreover have "options_ok s'" using set_int_option_ok [OF Inr assms(1)] .
    ultimately show ?thesis using Inr l assms(4) by (simp add: grid_sock_setopt_inner_def)
  qed
qed

theorem sock_option_roundtrip_witness:
  "\<exists>s'. grid_sock_setopt_inner scene_bus GRID_SOL_SOCKET GRID_SNDPRIO (int_bytes 3) (scene_s0, scene_w0) = Some (Inr (), s', scene_w0)
     \<and> grid_sock_getopt_inner scene_bus GRID_SOL_SOCKET GRID_SNDPRIO 4 (s', scene_w0) = Some (Inr (int_bytes 3, 4), s')"
proof -
  have o: "options_ok scene_s0" by (simp add: options_ok_def scene_s0_def sock_defaults_def GRID_MAX_TRANSPORT_def)
  have l: "int_load (int_bytes 3) = 3" by (rule int_load_bytes) simp_all
  from sock_option_roundtrip [OF o, of 3 GRID_SNDPRIO scene_bus scene_w0] show ?thesis
    by (simp add: grid_sock_setopt_inner_def set_int_option_def option_ids l)
qed

end
