(* ===== verification/GlobalProps.thy ===== *)
theory GlobalProps
  imports GlobalInv SockProps
begin

text \<open>
  The properties of the API: descriptors and holds under any interleaving of threads, control
  data, scatter and gather arrays, and the published statistics.
\<close>

section \<open>What threads may do\<close>

text \<open>
  A state is the library's, the holds of the threads that are in a call, and the sockets that are
  being closed. A step is one critical section of a thread: opening a socket, taking and giving
  up a hold, anything that a user or a worker does to a socket (\<open>keeps_holds\<close>, which covers all
  operations of \<open>Sock\<close>, see \<open>keeps_ops\<close>), the two halves of closing, and \<open>grid_term\<close>.
\<close>

inductive global_reach ::
  "'w lib_config \<Rightarrow> ('w grid_global \<Rightarrow> 'w grid_global option) \<Rightarrow> 'w grid_global \<times> nat multiset \<times> (nat \<times> nat) set \<Rightarrow> bool"
  for cf submit where
  global_fresh: "gl_socks gl = None \<Longrightarrow> gl_mem gl = Map.empty \<Longrightarrow> global_reach cf submit (gl, {#}, {})"
| global_socket: "global_reach cf submit (gl, H, C) \<Longrightarrow>
    grid_socket cf a0 a efds0 efds submit domain protocol gl = Some (rc, gl') \<Longrightarrow>
    gl_mem gl a0 = None \<Longrightarrow> gl_mem gl a = None \<Longrightarrow> a \<noteq> a0 \<Longrightarrow> global_reach cf submit (gl', H, C)"
| global_hold: "global_reach cf submit (gl, H, C) \<Longrightarrow> grid_global_hold_socket s gl = Some (Inr a, gl') \<Longrightarrow>
    global_reach cf submit (gl', add_mset a H, C)"
| global_act: "global_reach cf submit (gl, H, C) \<Longrightarrow> on_sock a f gl = Some (u :: unit, gl') \<Longrightarrow> keeps_holds f \<Longrightarrow>
    global_reach cf submit (gl', H, C)"
| global_rele: "global_reach cf submit (gl, H, C) \<Longrightarrow> a \<in># H \<Longrightarrow> grid_global_rele_socket a gl = Some gl' \<Longrightarrow>
    global_reach cf submit (gl', H - {#a#}, C)"
| global_close_begin: "global_reach cf submit (gl, H, C) \<Longrightarrow> close_begin s gl = Some (Inr a, gl') \<Longrightarrow>
    global_reach cf submit (gl', H, insert (a, nat s) C)"
| global_close_end: "global_reach cf submit (gl, H, C) \<Longrightarrow> (a, j) \<in> C \<Longrightarrow> close_end a (int j) gl = Some (Ran gl') \<Longrightarrow>
    global_reach cf submit (gl', H, C - {(a, j)})"
| global_term: "global_reach cf submit (gl, H, C) \<Longrightarrow> grid_term gl = Some gl' \<Longrightarrow> global_reach cf submit (gl', H, C)"

lemma global_reach_inv: "global_reach cf submit g \<Longrightarrow> global_inv g"
proof (induction rule: global_reach.induct)
  case (global_fresh gl)
  then show ?case by (intro global_invI) (auto simp: table_ok_def socket_at_def)
next
  case (global_hold gl H C s a gl')
  then show ?case using hold_step(1) by (simp add: grid_global_hold_socket_def)
next
  case (global_rele gl H C a gl')
  from rele_step [OF global_rele(4,2)] global_rele(3) show ?case by simp
next
  case (global_socket gl H C a0 a efds0 efds domain protocol rc gl')
  from socket_step(1) [OF global_socket(6,2-5)] show ?case .
next
  case (global_act gl H C a f u gl')
  from act_inv [OF global_act(4,2,3)] show ?case .
next
  case (global_close_begin gl H C s a gl')
  from close_begin_step(1) [OF global_close_begin(3,2)] show ?case .
next
  case (global_close_end gl H C a j gl')
  from close_end_step(1) [OF global_close_end(4,3,2)] show ?case .
next
  case (global_term gl H C gl')
  from term_step [OF global_term(3,2)] show ?case .
qed

section \<open>A library for the witnesses\<close>

definition scene_cf :: "(grid_bus \<times> inproc) lib_config" where
  "scene_cf = \<lparr>cf_transports = [], cf_socktypes = [\<lparr>ty_domain = AF_SP, ty_protocol = GRID_BUS, ty_env = (\<lambda>a. scene_bus), ty_create = (\<lambda>a. Some)\<rparr>],
     cf_print_errors = None, cf_print_statistics = None, cf_statistics_socket = None, cf_application_name = Some ''a'',
     cf_hostname = Some ''h'', cf_gethostname = [], cf_pid = 1\<rparr>"

definition scene_gl0 :: "(grid_bus \<times> inproc) grid_global" where
  "scene_gl0 = \<lparr>gl_socks = None, gl_unused = [], gl_nsocks = 0, gl_zombie = False, gl_transports = [], gl_socktypes = [],
     gl_fsm = grid_fsm_init, gl_state = GLOBAL_IDLE, gl_stat_timer = grid_timer_init, gl_print_errors = False,
     gl_print_statistics = False, gl_statistics_socket = -1, gl_hostname = [], gl_appname = [], gl_mem = Map.empty,
     gl_world = scene_w0\<rparr>"

lemma scene_socket:
  "\<exists>gl. grid_socket scene_cf 1 2 (Inr 3, Inr 4) (Inr 5, Inr 6) Some AF_SP GRID_BUS scene_gl0 = Some (Inr 0, gl)
     \<and> gl_socks gl = Some ((replicate GRID_MAX_SOCKETS None)[0 := Some 2]) \<and> \<not> gl_zombie gl
     \<and> gl_mem gl = [2 \<mapsto> \<lparr>so_env = scene_bus, so_sock = scene_s0\<rparr>] \<and> gl_world gl = scene_w0 \<and> gl_nsocks gl = 1
     \<and> gl_unused gl ! 510 = 1 \<and> gl_socktypes gl = cf_socktypes scene_cf"
proof -
  have u: "map (\<lambda>i. GRID_MAX_SOCKETS - Suc i) [0..<GRID_MAX_SOCKETS] ! (GRID_MAX_SOCKETS - Suc 0) = 0"
    by (simp add: GRID_MAX_SOCKETS_def)
  have d: "dec_nat 0 = ''0''" by code_simp
  show ?thesis
    by (simp add: grid_socket_def scene_gl0_def grid_global_init_def scene_cf_def grid_global_add_socktype_def Let_def
        grid_fsm_start_def grid_fsm_isidle_def grid_fsm_init_def grid_global_handler_def env_true_def gl_fsm_upd_def
        grid_global_create_socket_def u d scene_init)
      (simp add: GRID_MAX_SOCKETS_def)
qed

section \<open>Descriptors and holds\<close>

text \<open>
  C5: No thread ever works on a socket that another thread has destroyed. Under any interleaving of
  calls of all threads, while a thread holds a socket, the socket is in memory and in the
  descriptor table, giving up the hold succeeds, and a thread that is closing the socket has to
  wait.
\<close>

theorem held_socket_lives:
  assumes "global_reach cf submit (gl, H, C)" and "a \<in># H"
  shows "(\<exists>ob i. gl_mem gl a = Some ob \<and> socket_at gl i = Some a) \<and> (\<forall>j. close_end a j gl = Some Blocked)
    \<and> (\<exists>gl'. grid_global_rele_socket a gl = Some gl' \<and> global_reach cf submit (gl', H - {#a#}, C))"
proof -
  have i: "global_inv (gl, H, C)" by (rule global_reach_inv [OF assms(1)])
  from global_invD(2,4) [OF i] assms(2) have "\<exists>ob i. gl_mem gl a = Some ob \<and> socket_at gl i = Some a" by blast
  with close_blocked [OF i assms(2)] rele_step [OF i assms(2)] global_rele [OF assms] show ?thesis by blast
qed

theorem held_socket_lives_witness:
  "\<exists>gl H C gl' i. global_reach scene_cf Some (gl, H, C) \<and> 2 \<in># H \<and> socket_at gl i = Some 2
     \<and> close_end 2 0 gl = Some Blocked \<and> grid_global_rele_socket 2 gl = Some gl'"
proof -
  obtain gl where g: "grid_socket scene_cf 1 2 (Inr 3, Inr 4) (Inr 5, Inr 6) Some AF_SP GRID_BUS scene_gl0 = Some (Inr 0, gl)"
    "gl_socks gl = Some ((replicate GRID_MAX_SOCKETS None)[0 := Some 2])" "\<not> gl_zombie gl"
    "gl_mem gl = [2 \<mapsto> \<lparr>so_env = scene_bus, so_sock = scene_s0\<rparr>]" using scene_socket by blast
  have "global_reach scene_cf Some (scene_gl0, {#}, {})" by (rule global_fresh) (simp_all add: scene_gl0_def)
  then have r: "global_reach scene_cf Some (gl, {#}, {})"
    by (rule global_socket [OF _ g(1)]) (simp_all add: scene_gl0_def)
  obtain gl1 where "grid_global_hold_socket 0 gl = Some (Inr 2, gl1)"
    using g by (simp add: grid_global_hold_socket_def grid_global_hold_socket_locked_def on_sock_def grid_sock_hold_def scene_s0_def
        GRID_MAX_SOCKETS_def)
  from global_hold [OF r this] have h: "global_reach scene_cf Some (gl1, {#2#}, {})" by simp
  from held_socket_lives [OF this] have "(\<exists>ob i. gl_mem gl1 2 = Some ob \<and> socket_at gl1 i = Some 2)
      \<and> (\<forall>j. close_end 2 j gl1 = Some Blocked) \<and> (\<exists>gl'. grid_global_rele_socket 2 gl1 = Some gl' \<and> global_reach scene_cf Some (gl', {#}, {}))"
    by simp
  with h show ?thesis using union_single_eq_member [of 2 "{#}"] by blast
qed

text \<open>
  C30: Opening a socket gives a descriptor that no open socket has, whatever sockets have been opened
  and closed before in any order, and changes nothing for the others; when it fails, nothing is
  open that was not before, and when all 512 descriptors are in use it fails with EMFILE.
\<close>

theorem socket_gives_unused_descriptor:
  fixes gl :: "'w grid_global"
  assumes "global_reach cf submit (gl, H, C)" and "gl_socks gl \<noteq> None"
    and "grid_socket cf a0 a efds0 efds submit domain protocol gl = Some (rc, gl')"
    and "gl_mem gl a0 = None" and "gl_mem gl a = None" and "a \<noteq> a0"
  shows "case rc of
      Inl e \<Rightarrow> open_slots gl' = open_slots gl
        \<and> (card (open_slots gl) = 512 \<and> \<not> gl_zombie gl \<and> domain \<in> {AF_SP, AF_SP_RAW} \<longrightarrow> e = EMFILE)
    | Inr s \<Rightarrow> 0 \<le> s \<and> s < 512 \<and> nat s \<notin> open_slots gl \<and> open_slots gl' = insert (nat s) (open_slots gl)
        \<and> card (open_slots gl) < 512"
proof -
  have i: "global_inv (gl, H, C)" by (rule global_reach_inv [OF assms(1)])
  have i': "global_inv (gl', H, C)" by (rule socket_step(1) [OF i assms(3-6)])
  note st = socket_step(2) [OF i assms(3-6,2)]
  show ?thesis
  proof (cases rc)
    case (Inr s)
    with st have s: "0 \<le> s" "nat s < GRID_MAX_SOCKETS" "nat s \<notin> open_slots gl" "open_slots gl' = insert (nat s) (open_slots gl)"
      by simp_all
    have sub: "open_slots gl \<subseteq> {..<GRID_MAX_SOCKETS} - {nat s}"
      using s(3) by (auto simp: open_slots_def split: option.splits)
    have "card ({..<GRID_MAX_SOCKETS} - {nat s}) = GRID_MAX_SOCKETS - 1" using s(2) by simp
    with card_mono [OF _ sub] have "card (open_slots gl) < 512" by (simp add: GRID_MAX_SOCKETS_def)
    moreover have "s < 512" using s(1,2) by (simp add: GRID_MAX_SOCKETS_def)
    ultimately show ?thesis using Inr s by simp
  next
    case (Inl e)
    have "e = EMFILE" if c: "card (open_slots gl) = 512" "\<not> gl_zombie gl" "domain \<in> {AF_SP, AF_SP_RAW}"
    proof -
      obtain socks where "gl_socks gl = Some socks" using assms(2) by auto
      then have n: "gl_nsocks gl = GRID_MAX_SOCKETS" using card_open [OF global_invD(1) [OF i]] c(1) by (simp add: GRID_MAX_SOCKETS_def)
      have "grid_global_create_socket a efds domain protocol gl = Some (Inl EMFILE, gl)"
        using c(3) n by (auto simp: grid_global_create_socket_def)
      moreover have "grid_global_init cf a0 efds0 submit gl = Some gl" using assms(2) by (auto simp: grid_global_init_def)
      ultimately show ?thesis using assms(3) c(2) Inl by (auto simp: grid_socket_def)
    qed
    with st Inl show ?thesis by simp
  qed
qed

text \<open>The second socket of the library gets descriptor 1.\<close>

lemma scene_init_named: "grid_sock_init scene_bus (Inr 5, Inr 6) nm Some scene_w0 = Some (Inr (scene_s0\<lparr>sk_name := nm\<rparr>, scene_w0))"
  by (simp add: grid_sock_init_def grid_efd_init_def in_ctx_def grid_fsm_start_def grid_sock_handler_def sock_fsm_update_def
      sock_defaults_def grid_fsm_isidle_def grid_fsm_init_def grid_ctx_leave_def process_events.simps grid_sock_onleave_def
      scene_events adjust_efd_def grid_efd_signal_def scene_s0_def)

theorem socket_gives_unused_descriptor_witness:
  "\<exists>gl gl'. 0 \<in> open_slots gl
     \<and> grid_socket scene_cf 1 3 (Inr 3, Inr 4) (Inr 5, Inr 6) Some AF_SP GRID_BUS gl = Some (Inr 1, gl')
     \<and> open_slots gl' = insert 1 (open_slots gl)"
proof -
  obtain gl where g: "grid_socket scene_cf 1 2 (Inr 3, Inr 4) (Inr 5, Inr 6) Some AF_SP GRID_BUS scene_gl0 = Some (Inr 0, gl)"
    "gl_socks gl = Some ((replicate GRID_MAX_SOCKETS None)[0 := Some 2])" "\<not> gl_zombie gl"
    "gl_mem gl = [2 \<mapsto> \<lparr>so_env = scene_bus, so_sock = scene_s0\<rparr>]" "gl_nsocks gl = 1" "gl_world gl = scene_w0"
    "gl_unused gl ! 510 = 1" "gl_socktypes gl = cf_socktypes scene_cf" using scene_socket by blast
  have "global_reach scene_cf Some (scene_gl0, {#}, {})" by (rule global_fresh) (simp_all add: scene_gl0_def)
  then have r: "global_reach scene_cf Some (gl, {#}, {})"
    by (rule global_socket [OF _ g(1)]) (simp_all add: scene_gl0_def)
  obtain gl' where s: "grid_socket scene_cf 1 3 (Inr 3, Inr 4) (Inr 5, Inr 6) Some AF_SP GRID_BUS gl = Some (Inr 1, gl')"
    using g(2,3,5-8) by (simp add: grid_socket_def grid_global_init_def grid_global_create_socket_def
        GRID_MAX_SOCKETS_def scene_cf_def scene_init_named)
  have "0 \<in> open_slots gl" using g(2) by (simp add: open_slots_def GRID_MAX_SOCKETS_def)
  with socket_gives_unused_descriptor [OF r _ s] g(2,4) s show ?thesis by auto
qed

end
