(* ===== verification/Device.thy ===== *)
theory Device
  imports Global "HOL-Library.Signed_Division"
begin

text \<open>
  What is built on the API alone: polling (\<open>src/core/poll.c\<close>) and devices, which connect two raw
  sockets (\<open>src/devices/device.c\<close>). The operating system's \<open>poll\<close> is an argument: for each
  descriptor it says whether it is readable.
\<close>

section \<open>Reading integer options\<close>

definition api_getint :: "int \<Rightarrow> int \<Rightarrow> 'w grid_global \<Rightarrow> ((errno + int) \<times> 'w grid_global) option" where
  "api_getint s opt gl = do {
     (rc, gl1) \<leftarrow> grid_getsockopt s GRID_SOL_SOCKET opt False 4 gl;
     case rc of
       Inl e \<Rightarrow> Some (Inl e, gl1)
     | Inr (b, n) \<Rightarrow> do { guard (n = 4); Some (Inr (int_load b), gl1) } }"

section \<open>Polling\<close>

record grid_pollfd =
  pf_fd :: int
  pf_events :: u16
  pf_revents :: u16

definition GRID_POLLIN :: u16 where "GRID_POLLIN = 1"
definition GRID_POLLOUT :: u16 where "GRID_POLLOUT = 2"

text \<open>The descriptors to poll for. An error of an option is reported as \<open>EPERM\<close>, which is 1.\<close>

definition poll_option :: "bool \<Rightarrow> int \<Rightarrow> int \<Rightarrow> 'w grid_global \<Rightarrow> ((errno + int list) \<times> 'w grid_global) option" where
  "poll_option wanted s opt gl =
     (if \<not> wanted then Some (Inr [], gl)
      else do {
        (rc, gl1) \<leftarrow> api_getint s opt gl;
        Some (case rc of Inl e \<Rightarrow> Inl EPERM | Inr fd \<Rightarrow> Inr [fd], gl1) })"

fun poll_set :: "grid_pollfd list \<Rightarrow> 'w grid_global \<Rightarrow> ((errno + int list) \<times> 'w grid_global) option" where
  "poll_set [] gl = Some (Inr [], gl)"
| "poll_set (f # fs) gl = do {
     (r1, gl1) \<leftarrow> poll_option (pf_events f AND GRID_POLLIN \<noteq> 0) (pf_fd f) GRID_RCVFD gl;
     case r1 of
       Inl e \<Rightarrow> Some (Inl e, gl1)
     | Inr p1 \<Rightarrow> do {
         (r2, gl2) \<leftarrow> poll_option (pf_events f AND GRID_POLLOUT \<noteq> 0) (pf_fd f) GRID_SNDFD gl1;
         case r2 of
           Inl e \<Rightarrow> Some (Inl e, gl2)
         | Inr p2 \<Rightarrow> do {
             (r3, gl3) \<leftarrow> poll_set fs gl2;
             Some (case r3 of Inl e \<Rightarrow> Inl e | Inr ps \<Rightarrow> Inr (p1 @ p2 @ ps), gl3) } } }"

text \<open>The results are taken in the same order from the readable descriptors.\<close>

fun poll_results :: "grid_pollfd list \<Rightarrow> bool list \<Rightarrow> grid_pollfd list \<times> nat" where
  "poll_results [] rs = ([], 0)"
| "poll_results (f # fs) rs =
     (let (in_ev, rs1) = (if pf_events f AND GRID_POLLIN \<noteq> 0
                          then (if rs ! 0 then GRID_POLLIN else 0, drop 1 rs) else (0, rs));
          (out_ev, rs2) = (if pf_events f AND GRID_POLLOUT \<noteq> 0
                           then (if rs1 ! 0 then GRID_POLLOUT else 0, drop 1 rs1) else (0, rs1));
          (fs1, n) = poll_results fs rs2
      in (f\<lparr>pf_revents := in_ev OR out_ev\<rparr> # fs1, if in_ev OR out_ev \<noteq> 0 then n + 1 else n))"

text \<open>When nothing is readable in time, the array is left as it is.\<close>

definition grid_poll ::
  "(int list \<Rightarrow> errno + bool list) \<Rightarrow> grid_pollfd list \<Rightarrow> 'w grid_global
     \<Rightarrow> ((errno + nat) \<times> grid_pollfd list \<times> 'w grid_global) option" where
  "grid_poll os fds gl = do {
     (r, gl1) \<leftarrow> poll_set fds gl;
     case r of
       Inl e \<Rightarrow> Some (Inl e, fds, gl1)
     | Inr ps \<Rightarrow>
         (case os ps of
            Inl e \<Rightarrow> Some (Inl e, fds, gl1)
          | Inr rs \<Rightarrow>
              if True \<notin> set rs then Some (Inr 0, fds, gl1)
              else (let (fds1, n) = poll_results fds rs in Some (Inr n, fds1, gl1))) }"

section \<open>Moving messages\<close>

text \<open>
  \<open>rewrite\<close> is the recipe's function that may change or drop a message: its result is 1, 0 or an
  error. The asserts allow only some errors. A size that is negative as an \<open>int\<close> aborts.
\<close>

datatype device_result = Moved | Failed errno | Blocks | Hangs

definition device_hdr :: grid_msghdr where
  "device_hdr = \<lparr>msg_iov = [\<lparr>iov_base = ChunkPtr None, iov_len = GRID_MSG\<rparr>], msg_iovlen = 1, msg_control = ChunkControl []\<rparr>"

definition grid_device_rewritemsg :: "grid_msghdr \<Rightarrow> (errno + bool) \<times> grid_msghdr" where
  "grid_device_rewritemsg mh = (Inr True, mh)"

definition grid_device_mvmsg ::
  "(grid_msghdr \<Rightarrow> (errno + bool) \<times> grid_msghdr) \<Rightarrow> int \<Rightarrow> int \<Rightarrow> bool \<Rightarrow> (nat \<Rightarrow> u8) \<Rightarrow> 'w grid_global
     \<Rightarrow> (device_result \<times> 'w grid_global) option" where
  "grid_device_mvmsg rewrite src dst dontwait junk gl = do {
     (r, gl1) \<leftarrow> grid_recvmsg src (Some device_hdr) dontwait 0 [] junk gl;
     case r of
       Waits t \<Rightarrow> Some (Blocks, gl1)
     | Stuck \<Rightarrow> Some (Hangs, gl1)
     | Done (Inl e) \<Rightarrow> if e = ETERM \<or> e = EBADF then Some (Failed e, gl1) else None
     | Done (Inr (n, vs, ctrl)) \<Rightarrow> do {
         guard (n \<ge> 0);
         let (rc, mh) = rewrite (device_hdr\<lparr>msg_iov := vs, msg_control := ctrl\<rparr>);
         case rc of
           Inl e \<Rightarrow> Some (Failed e, gl1)
         | Inr False \<Rightarrow> Some (Moved, gl1)
         | Inr True \<Rightarrow> do {
             (r2, gl2) \<leftarrow> grid_sendmsg dst (Some mh) dontwait 0 [] gl1;
             case r2 of
               Waits t \<Rightarrow> Some (Blocks, gl2)
             | Stuck \<Rightarrow> Some (Hangs, gl2)
             | Done (Inl e) \<Rightarrow> if e = ETERM then Some (Failed e, gl2) else None
             | Done (Inr n2) \<Rightarrow> do { guard (n2 \<ge> 0); Some (Moved, gl2) } } } }"

section \<open>Starting a device\<close>

record device_recipe =
  chk_at_least_one :: bool
  chk_loopback :: bool
  chk_bidirectional :: bool
  chk_unidirectional :: bool
  chk_raw :: bool
  chk_family :: bool
  chk_direction :: bool

definition grid_ordinary_device :: device_recipe where
  "grid_ordinary_device = \<lparr>chk_at_least_one = True, chk_loopback = True, chk_bidirectional = True,
     chk_unidirectional = True, chk_raw = True, chk_family = True, chk_direction = True\<rparr>"

text \<open>The loop that the device runs, or the error it returns.\<close>

datatype device_run = Refused errno | Loopback int | Oneway int int | Twoway int int

definition must_getint :: "int \<Rightarrow> int \<Rightarrow> 'w grid_global \<Rightarrow> (int \<times> 'w grid_global) option" where
  "must_getint s opt gl = do {
     (rc, gl1) \<leftarrow> api_getint s opt gl;
     case rc of Inl e \<Rightarrow> None | Inr v \<Rightarrow> Some (v, gl1) }"

text \<open>A descriptor, or -1 when the socket does not have that direction.\<close>

definition device_fd :: "int \<Rightarrow> int \<Rightarrow> 'w grid_global \<Rightarrow> (int \<times> 'w grid_global) option" where
  "device_fd s opt gl = do {
     (rc, gl1) \<leftarrow> api_getint s opt gl;
     case rc of
       Inl e \<Rightarrow> if e = ENOPROTOOPT then Some (-1, gl1) else None
     | Inr v \<Rightarrow> do { guard (v \<ge> 0); Some (v, gl1) } }"

definition grid_device_loopback :: "int \<Rightarrow> 'w grid_global \<Rightarrow> (device_run \<times> 'w grid_global) option" where
  "grid_device_loopback s gl = do {
     (v, gl1) \<leftarrow> must_getint s GRID_DOMAIN gl;
     Some (if v \<noteq> AF_SP_RAW then Refused EINVAL else Loopback s, gl1) }"

definition device_choose :: "device_recipe \<Rightarrow> int \<Rightarrow> int \<Rightarrow> int \<Rightarrow> int \<Rightarrow> int \<Rightarrow> int \<Rightarrow> device_run option" where
  "device_choose d s1 s2 s1rcv s1snd s2rcv s2snd =
     (if chk_direction d \<and> (s1rcv \<noteq> -1 \<and> s2snd = -1 \<or> s1snd \<noteq> -1 \<and> s2rcv = -1
          \<or> s2rcv \<noteq> -1 \<and> s1snd = -1 \<or> s2snd \<noteq> -1 \<and> s1rcv = -1) then Some (Refused EINVAL)
      else if chk_bidirectional d \<and> s1rcv \<noteq> -1 \<and> s1snd \<noteq> -1 \<and> s2rcv \<noteq> -1 \<and> s2snd \<noteq> -1 then Some (Twoway s1 s2)
      else if chk_unidirectional d \<and> s1rcv \<noteq> -1 \<and> s1snd = -1 \<and> s2rcv = -1 \<and> s2snd \<noteq> -1 then Some (Oneway s1 s2)
      else if chk_unidirectional d \<and> s1rcv = -1 \<and> s1snd \<noteq> -1 \<and> s2rcv \<noteq> -1 \<and> s2snd = -1 then Some (Oneway s2 s1)
      else None)"

definition grid_device_entry :: "device_recipe \<Rightarrow> int \<Rightarrow> int \<Rightarrow> 'w grid_global \<Rightarrow> (device_run \<times> 'w grid_global) option" where
  "grid_device_entry d s1 s2 gl =
     (if chk_at_least_one d \<and> s1 < 0 \<and> s2 < 0 then Some (Refused EBADF, gl)
      else if chk_loopback d \<and> s2 < 0 then grid_device_loopback s1 gl
      else if chk_loopback d \<and> s1 < 0 then grid_device_loopback s2 gl
      else do {
        (raw, gl2) \<leftarrow> if chk_raw d then do {
            (op1, g1) \<leftarrow> must_getint s1 GRID_DOMAIN gl;
            (op2, g2) \<leftarrow> must_getint s2 GRID_DOMAIN g1;
            Some (op1 = AF_SP_RAW \<and> op2 = AF_SP_RAW, g2) } else Some (True, gl);
        if \<not> raw then Some (Refused EINVAL, gl2)
        else do {
          (same, gl4) \<leftarrow> if chk_family d then do {
              (op1, g3) \<leftarrow> must_getint s1 GRID_PROTOCOL gl2;
              (op2, g4) \<leftarrow> must_getint s2 GRID_PROTOCOL g3;
              Some (op1 sdiv 16 = op2 sdiv 16, g4) } else Some (True, gl2);
          if \<not> same then Some (Refused EINVAL, gl4)
          else do {
            (s1rcv, gl5) \<leftarrow> device_fd s1 GRID_RCVFD gl4;
            (s1snd, gl6) \<leftarrow> device_fd s1 GRID_SNDFD gl5;
            (s2rcv, gl7) \<leftarrow> device_fd s2 GRID_RCVFD gl6;
            (s2snd, gl8) \<leftarrow> device_fd s2 GRID_SNDFD gl7;
            map_option (\<lambda>r. (r, gl8)) (device_choose d s1 s2 s1rcv s1snd s2rcv s2snd) } } })"

text \<open>
  One round of the loop of a two-way device. \<open>tw\<close> are the descriptors that have been seen ready
  and are not polled any more; \<open>ready\<close> is the result of \<open>poll\<close> for the others, where an error
  aborts, an interruption too.
\<close>

record twoway_state =
  tw_s1rcv :: bool
  tw_s1snd :: bool
  tw_s2rcv :: bool
  tw_s2snd :: bool

definition twoway_see :: "twoway_state \<Rightarrow> twoway_state \<Rightarrow> twoway_state" where
  "twoway_see ready tw = \<lparr>tw_s1rcv = (tw_s1rcv tw \<or> tw_s1rcv ready), tw_s1snd = (tw_s1snd tw \<or> tw_s1snd ready),
     tw_s2rcv = (tw_s2rcv tw \<or> tw_s2rcv ready), tw_s2snd = (tw_s2snd tw \<or> tw_s2snd ready)\<rparr>"

definition twoway_round ::
  "(int \<Rightarrow> int \<Rightarrow> 'g \<Rightarrow> (device_result \<times> 'g) option) \<Rightarrow> int \<Rightarrow> int \<Rightarrow> errno + twoway_state \<Rightarrow> twoway_state \<times> 'g
     \<Rightarrow> (device_result \<times> twoway_state \<times> 'g) option" where
  "twoway_round mv s1 s2 polled st =
     (case polled of
        Inl e \<Rightarrow> None
      | Inr ready \<Rightarrow> do {
          guard (tw_s1rcv ready \<or> tw_s1snd ready \<or> tw_s2rcv ready \<or> tw_s2snd ready);
          let tw = twoway_see ready (fst st);
          (r1, tw1, g1) \<leftarrow> if tw_s1rcv tw \<and> tw_s2snd tw
              then map_option (\<lambda>(r, g). (r, tw\<lparr>tw_s1rcv := False, tw_s2snd := False\<rparr>, g)) (mv s1 s2 (snd st))
              else Some (Moved, tw, snd st);
          if r1 \<noteq> Moved then Some (r1, tw1, g1)
          else if tw_s2rcv tw1 \<and> tw_s1snd tw1
              then map_option (\<lambda>(r, g). (r, tw1\<lparr>tw_s2rcv := False, tw_s1snd := False\<rparr>, g)) (mv s2 s1 g1)
              else Some (Moved, tw1, g1) })"

definition grid_device :: "int \<Rightarrow> int \<Rightarrow> 'w grid_global \<Rightarrow> (device_run \<times> 'w grid_global) option" where
  "grid_device s1 s2 gl = grid_device_entry grid_ordinary_device s1 s2 gl"

end
