(* ===== verification/ApiProps.thy ===== *)
theory ApiProps
  imports GlobalProps Device
begin

text \<open>The properties of polling, devices and control data.\<close>

section \<open>Control data\<close>

lemma control_of_received:
  assumes "length (sphdr m) + length (hdrs m) + 64 < 2 ^ 61"
  shows "\<exists>h. sendmsg_control (recvmsg_control (ChunkControl b) junk m) = Some (Some (h, sphdr m))"
proof -
  let ?n = "GRID_CMSG_SPACE (of_nat (length (sphdr m)) + 8) + of_nat (length (hdrs m)) :: u64"
  let ?ctrl = "map junk [0..<unat ?n]"
  have sp: "unat (GRID_CMSG_SPACE (of_nat (length (sphdr m)) + 8)) = sp_total (length (sphdr m))"
    by (rule unat_sp_total) (use assms in simp)
  have le: "sp_total (length (sphdr m)) \<le> length (sphdr m) + 40" by (simp add: sp_total_def)
  have h: "unat (of_nat (length (hdrs m)) :: u64) = length (hdrs m)" by (rule unat_of_length) (use assms in simp)
  have n: "unat ?n = sp_total (length (sphdr m)) + length (hdrs m)"
    using sp h le assms by (simp add: unat_word_ariths)
  have "length ?ctrl < 2 ^ 62" "sp_total (length (sphdr m)) \<le> length ?ctrl" using n le assms by simp_all
  from sphdr_through_control [OF this, of "recvmsg_control (ChunkControl b) junk m"] show ?thesis
    by (auto simp: recvmsg_control_def Let_def)
qed

text \<open>
  C19: A device passes messages on unchanged. When a socket has a message to deliver, receiving it
  the way a device does, into a chunk and control data of its own making, and sending the result
  as it is builds a message with the same body and the same header stack, whatever the new memory
  held and whatever header stack and ancillary headers the message carries.
\<close>

theorem device_forwards_message:
  assumes "grid_sock_recv V dontwait now [] (s, w) = Some (Returned (Inr m), s1, w1)"
    and "length (sphdr m) + length (hdrs m) + 64 < 2 ^ 61"
  shows "\<exists>vs ctrl s2 h. sock_recvmsg device_hdr dontwait now [] junk V (s, w)
        = Some (Done (Inr (int_result (body m), vs, ctrl)), s2, w1)
    \<and> grid_device_rewritemsg (device_hdr\<lparr>msg_iov := vs, msg_control := ctrl\<rparr>)
        = (Inr True, device_hdr\<lparr>msg_iov := vs, msg_control := ctrl\<rparr>)
    \<and> sendmsg_body (device_hdr\<lparr>msg_iov := vs, msg_control := ctrl\<rparr>) = Some (Inr (body m, True))
    \<and> sendmsg_control ctrl = Some (Some (h, sphdr m))"
proof -
  let ?vs = "[\<lparr>iov_base = ChunkPtr (Some (body m)), iov_len = GRID_MSG\<rparr>]"
  let ?ctrl = "recvmsg_control (ChunkControl []) junk m"
  have b: "recvmsg_body (msg_iov device_hdr) (body m) = Some (Inr ?vs)"
    by (simp add: recvmsg_body_def device_hdr_def)
  have i: "msghdr_iov device_hdr = Some (msg_iov device_hdr)" by (simp add: msghdr_iov_def device_hdr_def)
  obtain h where "sendmsg_control ?ctrl = Some (Some (h, sphdr m))" using control_of_received [OF assms(2)] by blast
  moreover have "sendmsg_body (device_hdr\<lparr>msg_iov := ?vs, msg_control := ?ctrl\<rparr>) = Some (Inr (body m, True))"
    by (simp add: sendmsg_body_def msghdr_iov_def device_hdr_def GRID_MSG_def)
  moreover have "\<exists>s2. sock_recvmsg device_hdr dontwait now [] junk V (s, w) = Some (Done (Inr (int_result (body m), ?vs, ?ctrl)), s2, w1)"
    using assms(1) b i by (simp add: sock_recvmsg_def count_stat_def grid_sock_stat_increment_def device_hdr_def)
  ultimately show ?thesis unfolding grid_device_rewritemsg_def by blast
qed

definition scene_full :: "msg \<Rightarrow> (grid_bus \<times> inproc) sock_env" where
  "scene_full m = scene_bus\<lparr>sb_recv := \<lambda>w. Some (Inr m, w)\<rparr>"

lemma scene_full_recv: "grid_sock_recv (scene_full m) True 0 [] (scene_s0, scene_w0) = Some (Returned (Inr m), scene_s0, scene_w0)"
proof -
  have "grid_ctx_leave (scene_full m) (scene_s0, scene_w0) = Some (scene_s0, scene_w0)"
    using scene_events by (simp add: grid_ctx_leave_def process_events.simps grid_sock_onleave_def adjust_efd_def Let_def
        scene_full_def scene_s0_def sock_defaults_def)
  then show ?thesis
    by (simp add: grid_sock_recv_def scene_full_def first_deadline_def state_check_def leave_with_def scene_s0_def sock_defaults_def)
qed

theorem device_forwards_message_witness:
  "\<exists>vs ctrl s2 h. sock_recvmsg device_hdr True 0 [] (\<lambda>i. 7) (scene_full \<lparr>sphdr = [128, 0, 0, 5], hdrs = [1, 2], body = [42]\<rparr>) (scene_s0, scene_w0)
      = Some (Done (Inr (1, vs, ctrl)), s2, scene_w0) \<and> sendmsg_control ctrl = Some (Some (h, [128, 0, 0, 5]))"
proof -
  have "int_result [42] = 1" by (simp add: int_result_def)
  with device_forwards_message [OF scene_full_recv, of "\<lparr>sphdr = [128, 0, 0, 5], hdrs = [1, 2], body = [42]\<rparr>" "\<lambda>i. 7"]
  show ?thesis by auto
qed

text \<open>
  A defect: a control message of length zero makes sending hang. The search for the header stack
  in the control data moves on by the length of each control message, so on any open socket
  \<open>grid_sendmsg\<close> never returns when the first control message has length 0 and is not the one
  searched for, and it holds the socket forever.
\<close>

theorem zero_length_control_hangs:
  assumes "grid_global_hold_socket s gl = Some (Inr a, gl1)" and "gl_mem gl1 a = Some ob"
    and "sendmsg_body mh = Some (Inr b)" and "msg_control mh = UserControl (size_bytes 0 @ int_bytes lev @ int_bytes ty @ rest)"
    and "int_range lev" and "int_range ty" and "lev \<noteq> PROTO_SP \<or> ty \<noteq> SP_HDR" and "length rest < 2 ^ 62"
  shows "\<exists>gl2. grid_sendmsg s (Some mh) dontwait now ks gl = Some (Stuck, gl2) \<and> gl_mem gl2 = gl_mem gl1"
proof -
  let ?data = "size_bytes 0 @ int_bytes lev @ int_bytes ty @ rest"
  let ?c = "UserControl ?data"
  have l0: "load_size ?data 0 = Some 0" using load_size_at [of "[]" 0 0] by simp
  have len: "length ?data < 2 ^ 63" using assms(8) by simp
  have "grid_cmsg_nxthdr ?c None = Some (Some 0)"
    by (rule nxthdr_at [OF _ len _ _ l0]) (simp_all add: next_offset_def)
  moreover have "cmsg_level ?data 0 = lev" "cmsg_type ?data 0 = ty"
    using assms(5,6) by (simp_all add: cmsg_level_def cmsg_type_def int_load_bytes int_range_def)
  ultimately have "cmsg_search ?c None = None"
    using assms(7) l0 by (intro search_diverges) auto
  then have "sendmsg_control (msg_control mh) = None" using assms(4) by (simp add: sendmsg_control_def)
  then have "sock_sendmsg mh dontwait now ks V sw = Some (Stuck, sw)" for V sw
    using assms(3) by (cases b) (simp add: sock_sendmsg_def)
  then show ?thesis using assms(1,2) by (auto simp: grid_sendmsg_def with_sock_blocking_def on_sock_def)
qed

lemma scene_open_socket:
  "\<exists>(gl :: (grid_bus \<times> inproc) grid_global) gl1. grid_global_hold_socket 0 gl = Some (Inr 2, gl1) \<and> gl_mem gl1 2 = Some \<lparr>so_env = scene_bus, so_sock = scene_s0\<lparr>sk_holds := 2\<rparr>\<rparr>
     \<and> gl_world gl1 = scene_w0"
proof -
  obtain gl :: "(grid_bus \<times> inproc) grid_global" where g: "gl_socks gl = Some ((replicate GRID_MAX_SOCKETS None)[0 := Some 2])" "\<not> gl_zombie gl"
    "gl_mem gl = [2 \<mapsto> \<lparr>so_env = scene_bus, so_sock = scene_s0\<rparr>]" "gl_world gl = scene_w0" using scene_socket by blast
  then have "\<exists>gl1. grid_global_hold_socket 0 gl = Some (Inr 2, gl1) \<and> gl_mem gl1 2 = Some \<lparr>so_env = scene_bus, so_sock = scene_s0\<lparr>sk_holds := 2\<rparr>\<rparr>
     \<and> gl_world gl1 = scene_w0"
    by (simp add: grid_global_hold_socket_def grid_global_hold_socket_locked_def on_sock_def grid_sock_hold_def scene_s0_def
        sock_defaults_def GRID_MAX_SOCKETS_def)
  then show ?thesis by blast
qed

theorem zero_length_control_hangs_witness:
  "\<exists>gl gl2. grid_sendmsg 0 (Some \<lparr>msg_iov = [], msg_iovlen = 0, msg_control = UserControl (size_bytes 0 @ int_bytes 9 @ int_bytes 9 @ [])\<rparr>)
      True 0 [] gl = Some (Stuck, gl2 :: (grid_bus \<times> inproc) grid_global)"
proof -
  obtain gl gl1 :: "(grid_bus \<times> inproc) grid_global" where g: "grid_global_hold_socket 0 gl = Some (Inr 2, gl1)"
    "gl_mem gl1 2 = Some \<lparr>so_env = scene_bus, so_sock = scene_s0\<lparr>sk_holds := 2\<rparr>\<rparr>" using scene_open_socket by blast
  have b: "sendmsg_body \<lparr>msg_iov = [], msg_iovlen = 0, msg_control = UserControl (size_bytes 0 @ int_bytes 9 @ int_bytes 9 @ [])\<rparr> = Some (Inr ([], False))"
    by (simp add: sendmsg_body_def msghdr_iov_def)
  have c: "msg_control \<lparr>msg_iov = [], msg_iovlen = 0, msg_control = UserControl (size_bytes 0 @ int_bytes 9 @ int_bytes 9 @ [])\<rparr>
      = UserControl (size_bytes 0 @ int_bytes 9 @ int_bytes 9 @ [])" by simp
  from zero_length_control_hangs [OF g b c, of True 0 "[]"] show ?thesis
    by (simp add: int_range_def PROTO_SP_def) blast
qed

section \<open>Polling\<close>

text \<open>Reading the options of a socket that is at rest changes nothing.\<close>

definition poll_spec :: "(int \<Rightarrow> int) \<Rightarrow> (int \<Rightarrow> int) \<Rightarrow> (int \<Rightarrow> bool) \<Rightarrow> grid_pollfd \<Rightarrow> u16" where
  "poll_spec rcvfd sndfd readable f =
     (if pf_events f AND GRID_POLLIN \<noteq> 0 \<and> readable (rcvfd (pf_fd f)) then GRID_POLLIN else 0)
     OR (if pf_events f AND GRID_POLLOUT \<noteq> 0 \<and> readable (sndfd (pf_fd f)) then GRID_POLLOUT else 0)"

definition poll_fds :: "(int \<Rightarrow> int) \<Rightarrow> (int \<Rightarrow> int) \<Rightarrow> grid_pollfd \<Rightarrow> int list" where
  "poll_fds rcvfd sndfd f = (if pf_events f AND GRID_POLLIN \<noteq> 0 then [rcvfd (pf_fd f)] else [])
     @ (if pf_events f AND GRID_POLLOUT \<noteq> 0 then [sndfd (pf_fd f)] else [])"

lemma poll_set_ok:
  assumes "\<And>f. f \<in> set fds \<Longrightarrow> api_getint (pf_fd f) GRID_RCVFD gl = Some (Inr (rcvfd (pf_fd f)), gl)"
    and "\<And>f. f \<in> set fds \<Longrightarrow> api_getint (pf_fd f) GRID_SNDFD gl = Some (Inr (sndfd (pf_fd f)), gl)"
  shows "poll_set fds gl = Some (Inr (concat (map (poll_fds rcvfd sndfd) fds)), gl)"
  using assms
proof (induction fds)
  case (Cons f fs)
  then have "poll_set fs gl = Some (Inr (concat (map (poll_fds rcvfd sndfd) fs)), gl)" by simp
  with Cons.prems show ?case by (simp add: poll_option_def poll_fds_def [of rcvfd sndfd f])
qed simp

lemma poll_results_ok:
  "poll_results fds (map readable (concat (map (poll_fds rcvfd sndfd) fds)))
     = (map (\<lambda>f. f\<lparr>pf_revents := poll_spec rcvfd sndfd readable f\<rparr>) fds,
        length (filter (\<lambda>f. poll_spec rcvfd sndfd readable f \<noteq> 0) fds))"
proof (induction fds)
  case (Cons f fs)
  then show ?case
    by (simp add: Let_def poll_fds_def poll_spec_def GRID_POLLIN_def GRID_POLLOUT_def)
qed simp


text \<open>
  A library with one bus socket of domain \<open>d\<close>, which has the descriptors 6 for receiving and 5 for
  sending.
\<close>

definition scene_dom :: "int \<Rightarrow> (grid_bus \<times> inproc) sock_env" where
  "scene_dom d = scene_bus\<lparr>st_domain := d\<rparr>"

definition scene_gl1 :: "int \<Rightarrow> (grid_bus \<times> inproc) grid_global" where
  "scene_gl1 d = scene_gl0\<lparr>gl_socks := Some ((replicate GRID_MAX_SOCKETS None)[0 := Some 2]), gl_nsocks := 1,
     gl_mem := [2 \<mapsto> \<lparr>so_env = scene_dom d, so_sock = scene_s0\<rparr>]\<rparr>"

lemma scene_api_getint:
  assumes "get_int_option (scene_dom d) opt (scene_s0\<lparr>sk_holds := 2\<rparr>) = Some v \<and> opt \<noteq> GRID_RCVFD \<and> opt \<noteq> GRID_SNDFD \<and> opt \<noteq> GRID_SOCKET_NAME
      \<or> opt = GRID_RCVFD \<and> v = 6 \<or> opt = GRID_SNDFD \<and> v = 5"
    and "- (2 ^ 31) \<le> v" and "v < 2 ^ 31"
  shows "api_getint 0 opt (scene_gl1 d) = Some (Inr v, scene_gl1 d)"
proof -
  let ?held = "scene_s0\<lparr>sk_holds := 2\<rparr>"
  have l: "grid_ctx_leave (scene_dom d) (?held, scene_w0) = Some (?held, scene_w0)"
    using scene_events by (simp add: grid_ctx_leave_def process_events.simps grid_sock_onleave_def adjust_efd_def Let_def
        scene_dom_def scene_s0_def sock_defaults_def)
  have fds: "grid_efd_getfd (sk_sndfd ?held) = 5" "grid_efd_getfd (sk_rcvfd ?held) = 6" "sk_state ?held \<noteq> SOCK_ZOMBIE"
    "\<not> st_nosend (scene_dom d)" "\<not> st_norecv (scene_dom d)"
    by (simp_all add: scene_dom_def grid_efd_getfd_def scene_s0_def sock_defaults_def)
  then have "grid_sock_getopt_inner (scene_dom d) GRID_SOL_SOCKET opt 4 (?held, scene_w0) = Some (Inr (int_bytes v, 4), ?held)"
    using assms(1) by (auto simp: grid_sock_getopt_inner_def option_ids)
  then have "grid_sock_getopt (scene_dom d) GRID_SOL_SOCKET opt 4 (?held, scene_w0) = Some (Inr (int_bytes v, 4), ?held, scene_w0)"
    using fds(3) l by (simp add: grid_sock_getopt_def)
  moreover have "grid_sock_hold scene_s0 = (Inr (), ?held)" "grid_sock_rele ?held = scene_s0"
    by (simp_all add: grid_sock_hold_def grid_sock_rele_def scene_s0_def sock_defaults_def)
  ultimately show ?thesis using int_load_bytes [OF assms(2,3)]
    by (simp add: scene_gl1_def scene_gl0_def api_getint_def grid_getsockopt_def with_sock_def grid_global_hold_socket_def
        grid_global_hold_socket_locked_def grid_global_rele_socket_def on_sock_def GRID_MAX_SOCKETS_def)
qed

lemma scene_getint:
  shows "api_getint 0 GRID_RCVFD (scene_gl1 d) = Some (Inr 6, scene_gl1 d)" and "api_getint 0 GRID_SNDFD (scene_gl1 d) = Some (Inr 5, scene_gl1 d)"
    and "api_getint 0 GRID_DOMAIN (scene_gl1 2) = Some (Inr 2, scene_gl1 2)"
    and "api_getint 0 GRID_PROTOCOL (scene_gl1 d) = Some (Inr GRID_BUS, scene_gl1 d)"
  by (auto intro!: scene_api_getint simp: get_int_option_def option_ids scene_dom_def scene_bus_def bus_env_def GRID_BUS_def)


section \<open>Starting a device\<close>

text \<open>
  The ordinary device is started on two sockets exactly when they are raw, of the same protocol
  family and can exchange messages in every direction that either of them has; it then runs in
  both directions or in the one direction there is, and the branch that "should never happen"
  is not reached. Two raw sockets of a family that do not fit are refused with EINVAL.
\<close>

theorem device_starts:
  assumes "0 \<le> s1" and "0 \<le> s2"
    and "\<And>s. s \<in> {s1, s2} \<Longrightarrow> api_getint s GRID_DOMAIN gl = Some (Inr (domain s), gl)
        \<and> api_getint s GRID_PROTOCOL gl = Some (Inr (protocol s), gl)"
    and "\<And>s. s \<in> {s1, s2} \<Longrightarrow> api_getint s GRID_RCVFD gl = Some (if can_rcv s then Inr (rfd s) else Inl ENOPROTOOPT, gl)
        \<and> api_getint s GRID_SNDFD gl = Some (if can_snd s then Inr (sfd s) else Inl ENOPROTOOPT, gl)"
    and "\<And>s. s \<in> {s1, s2} \<Longrightarrow> (can_rcv s \<or> can_snd s) \<and> 0 \<le> rfd s \<and> 0 \<le> sfd s"
  shows "grid_device s1 s2 gl = Some
    (if domain s1 = AF_SP_RAW \<and> domain s2 = AF_SP_RAW \<and> protocol s1 sdiv 16 = protocol s2 sdiv 16
        \<and> can_rcv s1 = can_snd s2 \<and> can_rcv s2 = can_snd s1
     then (if can_rcv s1 \<and> can_rcv s2 then Twoway s1 s2 else if can_rcv s1 then Oneway s1 s2 else Oneway s2 s1)
     else Refused EINVAL, gl)"
proof -
  have fd: "device_fd s GRID_RCVFD gl = Some (if can_rcv s then rfd s else -1, gl)"
    "device_fd s GRID_SNDFD gl = Some (if can_snd s then sfd s else -1, gl)" if "s \<in> {s1, s2}" for s
    using assms(4,5) [OF that] by (auto simp: device_fd_def)
  have nn: "rfd s1 \<noteq> -1" "rfd s2 \<noteq> -1" "sfd s1 \<noteq> -1" "sfd s2 \<noteq> -1" using assms(5) [of s1] assms(5) [of s2] by auto
  have g: "must_getint s GRID_DOMAIN gl = Some (domain s, gl)" "must_getint s GRID_PROTOCOL gl = Some (protocol s, gl)"
    if "s \<in> {s1, s2}" for s using assms(3) [OF that] by (simp_all add: must_getint_def)
  show ?thesis
    using assms(1,2) assms(5) [of s1] assms(5) [of s2] g [of s1] g [of s2] fd [of s1] fd [of s2] nn
    by (cases "can_rcv s1"; cases "can_snd s1"; cases "can_rcv s2"; cases "can_snd s2")
      (simp_all add: grid_device_def grid_device_entry_def grid_ordinary_device_def device_choose_def)
qed

theorem device_starts_witness:
  "grid_device 0 0 (scene_gl1 2) = Some (Twoway 0 0, scene_gl1 2)"
  using device_starts [of 0 0 "scene_gl1 2" "\<lambda>s. 2" "\<lambda>s. GRID_BUS" "\<lambda>s. True" "\<lambda>s. 6" "\<lambda>s. True" "\<lambda>s. 5"] scene_getint
  by (simp add: AF_SP_RAW_def)

end
