(* ===== verification/Usock.thy ===== *)
theory Usock
  imports Fsm
begin

text \<open>
  Sockets of the operating system (\<open>src/aio/usock.c\<close>): their state machine, connecting and
  accepting, and the two halves of a byte stream. Usocks are named by numbers and live in
  \<open>sy_usock\<close>; the operating system's calls are the argument \<open>os\<close> (a record of functions on
  its state \<open>sy_os\<close>). Tasks queued for the worker (\<open>us_tasks\<close>) are executed in order, after
  the call that queued them. Events are queued for the owner the socket has at that moment
  (\<open>us_events\<close>); an event object that is queued cannot be queued again. A buffer that the user
  lends to \<open>grid_usock_recv\<close> is \<open>us_buf\<close>, the bytes written into it so far, and \<open>us_len\<close>,
  the number of bytes still wanted; \<open>us_pos\<close> bytes of the batch buffer have been taken.
\<close>

section \<open>State\<close>

datatype usock_state = US_IDLE | US_STARTING | US_BEING_ACCEPTED | US_ACCEPTED | US_CONNECTING
  | US_ACTIVE | US_REMOVING_FD | US_DONE | US_LISTENING | US_ACCEPTING | US_CANCELLING
  | US_STOPPING | US_STOPPING_ACCEPT | US_ACCEPTING_ERROR

datatype usock_action = UA_START | UA_STOP | UA_ACCEPT | UA_BEING_ACCEPTED | UA_CANCEL | UA_LISTEN
  | UA_CONNECT | UA_ACTIVATE | UA_DONE | UA_ERROR | UA_STARTED

datatype usock_task = TASK_CONNECTING | TASK_CONNECTED | TASK_ACCEPT | TASK_SEND | TASK_RECV | TASK_STOP

datatype fd_event = FD_IN | FD_OUT | FD_ERR

datatype usock_input = UsAction usock_action | UsTask usock_task | UsFd fd_event

datatype usock_event = GRID_USOCK_CONNECTED | GRID_USOCK_ACCEPTED | GRID_USOCK_SENT
  | GRID_USOCK_RECEIVED | GRID_USOCK_ERROR | GRID_USOCK_ACCEPT_ERROR | GRID_USOCK_STOPPED
  | GRID_USOCK_SHUTDOWN

text \<open>The event objects of a usock.\<close>

datatype usock_obj = OB_ESTABLISHED | OB_SENT | OB_RECEIVED | OB_ERROR | OB_STOPPED

definition GRID_USOCK_MAX_IOVCNT :: nat where "GRID_USOCK_MAX_IOVCNT = 3"
definition GRID_USOCK_BATCH_SIZE :: nat where "GRID_USOCK_BATCH_SIZE = 2048"

record 'm usock =
  us_fsm :: fsm_state
  us_state :: usock_state
  us_owner :: 'm
  us_s :: int
  us_errnum :: "errno option"
  us_buf :: bytes
  us_len :: nat
  us_batch :: bytes
  us_pos :: nat
  us_pfd :: bool
  us_fd :: "int option"
  us_iov :: "bytes list"
  us_tasks :: "usock_task list"
  us_polled :: bool
  us_pollin :: bool
  us_pollout :: bool
  us_events :: "(usock_obj \<times> 'm \<times> usock_event) list"
  us_asock :: "nat option"

text \<open>
  The operating system: \<open>os_fcntl\<close> says whether setting the descriptor's flags succeeds;
  \<open>os_sendmsg\<close> takes the buffers and answers the number of bytes sent; \<open>os_recvmsg\<close> takes the
  length of the buffer and answers the bytes and a descriptor that came with them.
\<close>

record 'o os_calls =
  os_socket :: "int \<Rightarrow> 'o \<Rightarrow> (errno + int) \<times> 'o"
  os_fcntl :: "int \<Rightarrow> 'o \<Rightarrow> bool \<times> 'o"
  os_setsockopt :: "int \<Rightarrow> int \<Rightarrow> int \<Rightarrow> int \<Rightarrow> 'o \<Rightarrow> (errno + unit) \<times> 'o"
  os_bind :: "int \<Rightarrow> bytes \<Rightarrow> 'o \<Rightarrow> (errno + unit) \<times> 'o"
  os_listen :: "int \<Rightarrow> int \<Rightarrow> 'o \<Rightarrow> (errno + unit) \<times> 'o"
  os_accept :: "int \<Rightarrow> 'o \<Rightarrow> (errno + int) \<times> 'o"
  os_connect :: "int \<Rightarrow> bytes \<Rightarrow> 'o \<Rightarrow> (errno + unit) \<times> 'o"
  os_sendmsg :: "int \<Rightarrow> bytes list \<Rightarrow> 'o \<Rightarrow> (errno + nat) \<times> 'o"
  os_recvmsg :: "int \<Rightarrow> nat \<Rightarrow> 'o \<Rightarrow> (errno + bytes \<times> int option) \<times> 'o"
  os_geterr :: "int \<Rightarrow> 'o \<Rightarrow> errno option \<times> 'o"
  os_close :: "int \<Rightarrow> 'o \<Rightarrow> (errno + unit) \<times> 'o"

record ('m, 'o) usock_sys =
  sy_usock :: "nat \<Rightarrow> 'm usock"
  sy_os :: 'o

definition usk :: "('m, 'o) usock_sys \<Rightarrow> nat \<Rightarrow> 'm usock" where
  "usk w i = sy_usock w i"

definition upd_us :: "nat \<Rightarrow> ('m usock \<Rightarrow> 'm usock) \<Rightarrow> ('m, 'o) usock_sys \<Rightarrow> ('m, 'o) usock_sys" where
  "upd_us i f w = w\<lparr>sy_usock := (sy_usock w)(i := f (sy_usock w i))\<rparr>"

definition us_set_state :: "nat \<Rightarrow> usock_state \<Rightarrow> ('m, 'o) usock_sys \<Rightarrow> ('m, 'o) usock_sys" where
  "us_set_state i st w = upd_us i (\<lambda>u. u\<lparr>us_state := st\<rparr>) w"

definition us_raise :: "nat \<Rightarrow> usock_obj \<Rightarrow> usock_event \<Rightarrow> ('m, 'o) usock_sys \<Rightarrow> ('m, 'o) usock_sys option" where
  "us_raise i ob ev w = do {
     guard (ob \<notin> fst ` set (us_events (usk w i)));
     Some (upd_us i (\<lambda>u. u\<lparr>us_events := us_events u @ [(ob, us_owner u, ev)]\<rparr>) w) }"

definition us_execute :: "nat \<Rightarrow> usock_task \<Rightarrow> ('m, 'o) usock_sys \<Rightarrow> ('m, 'o) usock_sys option" where
  "us_execute i k w = do {
     guard (k \<notin> set (us_tasks (usk w i)));
     Some (upd_us i (\<lambda>u. u\<lparr>us_tasks := us_tasks u @ [k]\<rparr>) w) }"

text \<open>A call of the operating system.\<close>

definition sys_call :: "('o \<Rightarrow> 'r \<times> 'o) \<Rightarrow> ('m, 'o) usock_sys \<Rightarrow> 'r \<times> ('m, 'o) usock_sys" where
  "sys_call f w = (let (r, x) = f (sy_os w) in (r, w\<lparr>sy_os := x\<rparr>))"

definition grid_closefd :: "'o os_calls \<Rightarrow> int \<Rightarrow> ('m, 'o) usock_sys \<Rightarrow> ('m, 'o) usock_sys option" where
  "grid_closefd os fd w =
     (if fd < 0 then Some w
      else
        let (r, w1) = sys_call (os_close os fd) w
        in case r of
             Inr u \<Rightarrow> Some w1
           | Inl e \<Rightarrow> if e \<in> {EINTR, ETIMEDOUT, EAGAIN, EINPROGRESS, ECONNRESET} then Some w1 else None)"

text \<open>The file descriptor in the worker's poller; adding a closed one has no effect there.\<close>

definition us_add_fd :: "nat \<Rightarrow> ('m, 'o) usock_sys \<Rightarrow> ('m, 'o) usock_sys" where
  "us_add_fd i w = upd_us i (\<lambda>u. u\<lparr>us_polled := (us_s u \<ge> 0), us_pollin := False, us_pollout := False\<rparr>) w"

definition us_rm_fd :: "nat \<Rightarrow> ('m, 'o) usock_sys \<Rightarrow> ('m, 'o) usock_sys" where
  "us_rm_fd i w = upd_us i (\<lambda>u. u\<lparr>us_polled := False\<rparr>) w"

definition us_set_in :: "nat \<Rightarrow> bool \<Rightarrow> ('m, 'o) usock_sys \<Rightarrow> ('m, 'o) usock_sys" where
  "us_set_in i b w = upd_us i (\<lambda>u. u\<lparr>us_pollin := b\<rparr>) w"

definition us_set_out :: "nat \<Rightarrow> bool \<Rightarrow> ('m, 'o) usock_sys \<Rightarrow> ('m, 'o) usock_sys" where
  "us_set_out i b w = upd_us i (\<lambda>u. u\<lparr>us_pollout := b\<rparr>) w"

section \<open>Creation\<close>

definition grid_usock_init :: "'m \<Rightarrow> 'm usock" where
  "grid_usock_init owner = \<lparr>us_fsm = FSM_IDLE, us_state = US_IDLE, us_owner = owner, us_s = -1,
     us_errnum = None, us_buf = [], us_len = 0, us_batch = [], us_pos = 0, us_pfd = False, us_fd = None,
     us_iov = [], us_tasks = [], us_polled = False, us_pollin = False, us_pollout = False,
     us_events = [], us_asock = None\<rparr>"

definition grid_usock_isidle :: "'m usock \<Rightarrow> bool" where
  "grid_usock_isidle u \<longleftrightarrow> us_fsm u = FSM_IDLE \<and> OB_STOPPED \<notin> fst ` set (us_events u)"

definition grid_usock_term :: "'m usock \<Rightarrow> unit option" where
  "grid_usock_term u = do {
     guard (us_state u = US_IDLE);
     guard (us_events u = []);
     guard (remove1 TASK_RECV (us_tasks u) = []);
     guard (grid_usock_isidle u) }"

text \<open>The first assertion of this function is always true, because of a missing comparison.\<close>

definition grid_usock_init_from_fd :: "'o os_calls \<Rightarrow> nat \<Rightarrow> int \<Rightarrow> ('m, 'o) usock_sys \<Rightarrow> ('m, 'o) usock_sys option" where
  "grid_usock_init_from_fd os i s w = do {
     guard (us_s (usk w i) = -1);
     let (ok, w1) = sys_call (os_fcntl os s) (upd_us i (\<lambda>u. u\<lparr>us_s := s\<rparr>) w);
     guard ok;
     Some w1 }"

definition grid_usock_swap_owner :: "'m \<Rightarrow> nat \<Rightarrow> ('m, 'o) usock_sys \<Rightarrow> 'm \<times> ('m, 'o) usock_sys" where
  "grid_usock_swap_owner owner i w = (us_owner (usk w i), upd_us i (\<lambda>u. u\<lparr>us_owner := owner\<rparr>) w)"

section \<open>The byte stream\<close>

text \<open>
  Adjusting the buffers after \<open>n\<close> bytes have been sent: what is left, and whether all is sent.
  More bytes than there are is impossible and would run past the buffers.
\<close>

fun advance_iov :: "nat \<Rightarrow> bytes list \<Rightarrow> (bool \<times> bytes list) option" where
  "advance_iov 0 iov = Some (iov = [], iov)"
| "advance_iov n [] = None"
| "advance_iov n (b # iov) =
     (if n \<ge> length b then
        (if iov = [] then do { guard (n = length b); Some (True, []) }
         else advance_iov (n - length b) iov)
      else Some (False, drop n b # iov))"

definition grid_usock_send_raw :: "'o os_calls \<Rightarrow> nat \<Rightarrow> ('m, 'o) usock_sys \<Rightarrow> ((errno + unit) \<times> ('m, 'o) usock_sys) option" where
  "grid_usock_send_raw os i w = do {
     let (r, w1) = sys_call (os_sendmsg os (us_s (usk w i)) (us_iov (usk w i))) w;
     case r of
       Inl e \<Rightarrow> if e = EAGAIN then Some ((if us_iov (usk w1 i) = [] then Inr () else Inl EAGAIN), w1)
                else Some (Inl ECONNRESET, w1)
     | Inr n \<Rightarrow> do {
         (fin, iov) \<leftarrow> advance_iov n (us_iov (usk w1 i));
         Some ((if fin then Inr () else Inl EAGAIN), upd_us i (\<lambda>u. u\<lparr>us_iov := iov\<rparr>) w1) } }"

text \<open>A descriptor that came with the bytes goes to whoever asked for it, or is closed.\<close>

definition take_fd :: "'o os_calls \<Rightarrow> nat \<Rightarrow> int option \<Rightarrow> ('m, 'o) usock_sys \<Rightarrow> ('m, 'o) usock_sys option" where
  "take_fd os i fd w =
     (case fd of
        None \<Rightarrow> Some w
      | Some f \<Rightarrow> if us_pfd (usk w i) then Some (upd_us i (\<lambda>u. u\<lparr>us_pfd := False, us_fd := Some f\<rparr>) w)
                  else grid_closefd os f w)"

text \<open>
  Receiving up to \<open>n\<close> bytes: first from the batch buffer, then from the operating system,
  directly for long requests and through the batch buffer otherwise. The result is what is
  appended to the user's buffer. No bytes at all from the operating system means that the peer
  has closed the connection.
\<close>

definition grid_usock_recv_raw ::
  "'o os_calls \<Rightarrow> nat \<Rightarrow> nat \<Rightarrow> ('m, 'o) usock_sys \<Rightarrow> ((errno + bytes) \<times> ('m, 'o) usock_sys) option" where
  "grid_usock_recv_raw os i n w = do {
     let u = usk w i;
     let avail = length (us_batch u) - us_pos u;
     let sz = min avail n;
     let got = take sz (drop (us_pos u) (us_batch u));
     let w1 = upd_us i (\<lambda>u. u\<lparr>us_pos := us_pos u + sz\<rparr>) w;
     let n1 = n - sz;
     if avail \<noteq> 0 \<and> n1 = 0 then Some (Inr got, w1)
     else do {
       let direct = (n1 > GRID_USOCK_BATCH_SIZE);
       let (r, w2) = sys_call (os_recvmsg os (us_s u) (if direct then n1 else GRID_USOCK_BATCH_SIZE)) w1;
       case r of
         Inl e \<Rightarrow>
           if e \<noteq> EAGAIN then Some (Inl ECONNRESET, w2)
           else Some (Inr got, if direct then w2 else upd_us i (\<lambda>u. u\<lparr>us_batch := [], us_pos := 0\<rparr>) w2)
       | Inr (bs, fd) \<Rightarrow>
           if bs = [] then Some (Inl ECONNRESET, w2)
           else do {
             w3 \<leftarrow> take_fd os i fd w2;
             if direct then Some (Inr (got @ bs), w3)
             else
               let m = min (length bs) n1
               in Some (Inr (got @ take m bs), upd_us i (\<lambda>u. u\<lparr>us_batch := bs, us_pos := m\<rparr>) w3) } } }"

section \<open>The state machine\<close>

definition grid_usock_async_stop :: "nat \<Rightarrow> ('m, 'o) usock_sys \<Rightarrow> ('m, 'o) usock_sys option" where
  "grid_usock_async_stop i w = do {
     w1 \<leftarrow> us_execute i TASK_STOP w;
     us_raise i OB_ERROR GRID_USOCK_SHUTDOWN w1 }"

text \<open>The descriptor is closed for good and the error is reported.\<close>

definition us_close_error :: "'o os_calls \<Rightarrow> nat \<Rightarrow> ('m, 'o) usock_sys \<Rightarrow> ('m, 'o) usock_sys option" where
  "us_close_error os i w = do {
     w1 \<leftarrow> grid_closefd os (us_s (usk w i)) w;
     us_raise i OB_ERROR GRID_USOCK_ERROR (upd_us i (\<lambda>u. u\<lparr>us_s := -1, us_state := US_DONE\<rparr>) w1) }"

text \<open>Actions of a machine that is not stopping.\<close>

definition usock_run_action :: "'o os_calls \<Rightarrow> nat \<Rightarrow> usock_action \<Rightarrow> ('m, 'o) usock_sys \<Rightarrow> ('m, 'o) usock_sys option" where
  "usock_run_action os i a w =
     (case (us_state (usk w i), a) of
        (US_IDLE, UA_START) \<Rightarrow> Some (us_set_state i US_STARTING w)
      | (US_STARTING, UA_LISTEN) \<Rightarrow> Some (us_set_state i US_LISTENING w)
      | (US_STARTING, UA_CONNECT) \<Rightarrow> Some (us_set_state i US_CONNECTING w)
      | (US_STARTING, UA_BEING_ACCEPTED) \<Rightarrow> Some (us_set_state i US_BEING_ACCEPTED w)
      | (US_STARTING, UA_STARTED) \<Rightarrow> Some (us_set_state i US_ACTIVE (us_add_fd i w))
      | (US_BEING_ACCEPTED, UA_DONE) \<Rightarrow>
          us_raise i OB_ESTABLISHED GRID_USOCK_ACCEPTED (us_set_state i US_ACCEPTED w)
      | (US_ACCEPTED, UA_ACTIVATE) \<Rightarrow> Some (us_set_state i US_ACTIVE (us_add_fd i w))
      | (US_CONNECTING, UA_DONE) \<Rightarrow> do {
          w1 \<leftarrow> us_execute i TASK_CONNECTED (us_set_state i US_ACTIVE w);
          us_raise i OB_ESTABLISHED GRID_USOCK_CONNECTED w1 }
      | (US_CONNECTING, UA_ERROR) \<Rightarrow> us_close_error os i w
      | (US_ACTIVE, UA_ERROR) \<Rightarrow> grid_usock_async_stop i (us_set_state i US_REMOVING_FD w)
      | (US_LISTENING, UA_ACCEPT) \<Rightarrow> Some (us_set_state i US_ACCEPTING w)
      | (US_ACCEPTING, UA_DONE) \<Rightarrow> Some (us_set_state i US_LISTENING w)
      | (US_ACCEPTING, UA_CANCEL) \<Rightarrow> us_execute i TASK_STOP (us_set_state i US_CANCELLING w)
      | (US_ACCEPTING_ERROR, UA_ACCEPT) \<Rightarrow> Some (us_set_state i US_ACCEPTING w)
      | _ \<Rightarrow> None)"

text \<open>The ends of a shutdown: the descriptor is closed, and the owner is told.\<close>

definition us_finish2 :: "nat \<Rightarrow> ('m, 'o) usock_sys \<Rightarrow> ('m, 'o) usock_sys option" where
  "us_finish2 i w = do {
     guard (us_fsm (usk w i) = FSM_STOPPING);
     w1 \<leftarrow> us_raise i OB_STOPPED GRID_USOCK_STOPPED (us_set_state i US_IDLE w);
     Some (upd_us i (\<lambda>u. u\<lparr>us_fsm := FSM_IDLE\<rparr>) w1) }"

definition us_finish1 :: "'o os_calls \<Rightarrow> nat \<Rightarrow> ('m, 'o) usock_sys \<Rightarrow> ('m, 'o) usock_sys option" where
  "us_finish1 os i w = do {
     w1 \<leftarrow> grid_closefd os (us_s (usk w i)) w;
     us_finish2 i (upd_us i (\<lambda>u. u\<lparr>us_s := -1\<rparr>) w1) }"

text \<open>Any input but the STOP action and the worker's tasks, while the machine is stopping.\<close>

definition usock_shut_input :: "'o os_calls \<Rightarrow> nat \<Rightarrow> usock_input \<Rightarrow> ('m, 'o) usock_sys \<Rightarrow> ('m, 'o) usock_sys option" where
  "usock_shut_input os i e w =
     (if us_state (usk w i) = US_STOPPING_ACCEPT then do { guard (e = UsAction UA_DONE); us_finish2 i w }
      else if us_state (usk w i) = US_STOPPING then
        (if e \<noteq> UsTask TASK_STOP then Some w else us_finish1 os i (us_rm_fd i w))
      else None)"

definition usock_do_action :: "'o os_calls \<Rightarrow> nat \<Rightarrow> usock_action \<Rightarrow> ('m, 'o) usock_sys \<Rightarrow> ('m, 'o) usock_sys option" where
  "usock_do_action os i a w =
     (if us_fsm (usk w i) \<noteq> FSM_STOPPING then usock_run_action os i a w
      else usock_shut_input os i (UsAction a) w)"

definition us_fsm_start :: "'o os_calls \<Rightarrow> nat \<Rightarrow> ('m, 'o) usock_sys \<Rightarrow> ('m, 'o) usock_sys option" where
  "us_fsm_start os i w = do {
     guard (grid_usock_isidle (usk w i));
     w1 \<leftarrow> usock_run_action os i UA_START w;
     Some (upd_us i (\<lambda>u. u\<lparr>us_fsm := FSM_ACTIVE\<rparr>) w1) }"

text \<open>The tasks that only change what the worker polls.\<close>

definition grid_internal_tasks :: "nat \<Rightarrow> usock_input \<Rightarrow> ('m, 'o) usock_sys \<Rightarrow> ('m, 'o) usock_sys option" where
  "grid_internal_tasks i e w =
     (case e of
        UsTask TASK_SEND \<Rightarrow> Some (us_set_out i True w)
      | UsTask TASK_RECV \<Rightarrow> Some (us_set_in i True w)
      | UsTask TASK_CONNECTED \<Rightarrow> Some (us_add_fd i w)
      | UsTask TASK_CONNECTING \<Rightarrow> Some (us_set_out i True (us_add_fd i w))
      | UsTask TASK_ACCEPT \<Rightarrow> Some (us_set_in i True (us_add_fd i w))
      | _ \<Rightarrow> None)"

text \<open>A stop request, by state.\<close>

definition usock_shut_stop :: "'o os_calls \<Rightarrow> nat \<Rightarrow> ('m, 'o) usock_sys \<Rightarrow> ('m, 'o) usock_sys option" where
  "usock_shut_stop os i w0 = do {
     let st = us_state (usk w0 i);
     guard (st \<noteq> US_ACCEPTING \<and> st \<noteq> US_CANCELLING);
     let w = upd_us i (\<lambda>u. u\<lparr>us_errnum := None\<rparr>) w0;
     if st = US_IDLE then Some w
     else if st = US_DONE then us_finish2 i w
     else if st \<in> {US_STARTING, US_ACCEPTED, US_ACCEPTING_ERROR, US_LISTENING} then us_finish1 os i w
     else if st = US_BEING_ACCEPTED then do {
       l \<leftarrow> us_asock (usk w i);
       w1 \<leftarrow> usock_do_action os l UA_CANCEL w;
       Some (us_set_state i US_STOPPING_ACCEPT w1) }
     else do {
       w1 \<leftarrow> (if st \<noteq> US_REMOVING_FD then grid_usock_async_stop i w else Some w);
       Some (us_set_state i US_STOPPING w1) } }"

definition grid_usock_shutdown :: "'o os_calls \<Rightarrow> nat \<Rightarrow> usock_input \<Rightarrow> ('m, 'o) usock_sys \<Rightarrow> ('m, 'o) usock_sys option" where
  "grid_usock_shutdown os i e w =
     (case grid_internal_tasks i e w of
        Some w1 \<Rightarrow> Some w1
      | None \<Rightarrow> if e = UsAction UA_STOP then usock_shut_stop os i w else usock_shut_input os i e w)"

text \<open>Events of the file descriptor, in each state.\<close>

definition usock_fail :: "'o os_calls \<Rightarrow> nat \<Rightarrow> ('m, 'o) usock_sys \<Rightarrow> ('m, 'o) usock_sys option" where
  "usock_fail os i w = us_close_error os i (us_rm_fd i w)"

definition usock_connecting_fd :: "'o os_calls \<Rightarrow> nat \<Rightarrow> fd_event \<Rightarrow> ('m, 'o) usock_sys \<Rightarrow> ('m, 'o) usock_sys option" where
  "usock_connecting_fd os i ev w =
     (case ev of
        FD_OUT \<Rightarrow>
          let (r, w1) = sys_call (os_geterr os (us_s (usk w i))) (us_set_state i US_ACTIVE (us_set_out i False w))
          in (case r of
                None \<Rightarrow> us_raise i OB_ESTABLISHED GRID_USOCK_CONNECTED w1
              | Some e \<Rightarrow> do {
                  let (rc, w2) = sys_call (os_close os (us_s (usk w1 i)))
                     (us_rm_fd i (upd_us i (\<lambda>u. u\<lparr>us_errnum := Some e\<rparr>) w1));
                  guard (rc = Inr ());
                  us_raise i OB_ERROR GRID_USOCK_ERROR (upd_us i (\<lambda>u. u\<lparr>us_s := -1, us_state := US_DONE\<rparr>) w2) })
      | FD_ERR \<Rightarrow> usock_fail os i w
      | FD_IN \<Rightarrow> None)"

definition usock_active_fd :: "'o os_calls \<Rightarrow> nat \<Rightarrow> fd_event \<Rightarrow> ('m, 'o) usock_sys \<Rightarrow> ('m, 'o) usock_sys option" where
  "usock_active_fd os i ev w =
     (case ev of
        FD_IN \<Rightarrow> do {
          (r, w1) \<leftarrow> grid_usock_recv_raw os i (us_len (usk w i)) w;
          case r of
            Inr bs \<Rightarrow>
              let w2 = upd_us i (\<lambda>u. u\<lparr>us_buf := us_buf u @ bs, us_len := us_len u - length bs\<rparr>) w1
              in if us_len (usk w2 i) = 0 then us_raise i OB_RECEIVED GRID_USOCK_RECEIVED (us_set_in i False w2)
                 else Some w2
          | Inl e \<Rightarrow> do { guard (e = ECONNRESET); usock_fail os i w1 } }
      | FD_OUT \<Rightarrow> do {
          (r, w1) \<leftarrow> grid_usock_send_raw os i w;
          case r of
            Inr v \<Rightarrow> us_raise i OB_SENT GRID_USOCK_SENT (us_set_out i False w1)
          | Inl e \<Rightarrow> if e = EAGAIN then Some w1 else do { guard (e = ECONNRESET); usock_fail os i w1 } }
      | FD_ERR \<Rightarrow> usock_fail os i w)"

definition usock_accepting_fd :: "'o os_calls \<Rightarrow> nat \<Rightarrow> fd_event \<Rightarrow> ('m, 'o) usock_sys \<Rightarrow> ('m, 'o) usock_sys option" where
  "usock_accepting_fd os i ev w =
     (if ev \<noteq> FD_IN then None
      else
        let (r, w1) = sys_call (os_accept os (us_s (usk w i))) w
        in (case r of
              Inl e \<Rightarrow>
                if e = ECONNABORTED then Some w1
                else if e \<in> {ENFILE, EMFILE, ENOBUFS, ENOMEM} then
                  us_raise i OB_ERROR GRID_USOCK_ACCEPT_ERROR
                    (us_rm_fd i (upd_us i (\<lambda>u. u\<lparr>us_errnum := Some e, us_state := US_ACCEPTING_ERROR\<rparr>) w1))
                else None
            | Inr s \<Rightarrow> do {
                a \<leftarrow> us_asock (usk w1 i);
                w2 \<leftarrow> grid_usock_init_from_fd os a s w1;
                w3 \<leftarrow> us_raise a OB_ESTABLISHED GRID_USOCK_ACCEPTED (us_set_state a US_ACCEPTED w2);
                let w4 = upd_us i (\<lambda>u. u\<lparr>us_asock := None\<rparr>) (upd_us a (\<lambda>u. u\<lparr>us_asock := None\<rparr>) w3);
                Some (us_set_state i US_LISTENING (us_rm_fd i w4)) }))"

definition grid_usock_handler :: "'o os_calls \<Rightarrow> nat \<Rightarrow> usock_input \<Rightarrow> ('m, 'o) usock_sys \<Rightarrow> ('m, 'o) usock_sys option" where
  "grid_usock_handler os i e w =
     (case grid_internal_tasks i e w of
        Some w1 \<Rightarrow> Some w1
      | None \<Rightarrow>
          (case e of
             UsAction a \<Rightarrow> usock_run_action os i a w
           | UsFd ev \<Rightarrow>
               (case us_state (usk w i) of
                  US_CONNECTING \<Rightarrow> usock_connecting_fd os i ev w
                | US_ACTIVE \<Rightarrow> usock_active_fd os i ev w
                | US_REMOVING_FD \<Rightarrow> Some w
                | US_ACCEPTING \<Rightarrow> usock_accepting_fd os i ev w
                | US_CANCELLING \<Rightarrow> if ev = FD_IN then Some w else None
                | _ \<Rightarrow> None)
           | UsTask k \<Rightarrow>
               if k \<noteq> TASK_STOP then None
               else if us_state (usk w i) = US_REMOVING_FD then usock_fail os i w
               else if us_state (usk w i) = US_CANCELLING then do {
                 let w1 = us_set_state i US_LISTENING (us_rm_fd i w);
                 a \<leftarrow> us_asock (usk w1 i);
                 usock_do_action os a UA_DONE w1 }
               else None))"

definition usock_feed :: "'o os_calls \<Rightarrow> nat \<Rightarrow> usock_input \<Rightarrow> ('m, 'o) usock_sys \<Rightarrow> ('m, 'o) usock_sys option" where
  "usock_feed os i e w =
     (if us_fsm (usk w i) \<noteq> FSM_STOPPING then grid_usock_handler os i e w else grid_usock_shutdown os i e w)"

section \<open>Operations\<close>

definition grid_usock_start :: "'o os_calls \<Rightarrow> int \<Rightarrow> nat \<Rightarrow> ('m, 'o) usock_sys \<Rightarrow> ((errno + unit) \<times> ('m, 'o) usock_sys) option" where
  "grid_usock_start os domain i w =
     (let (r, w1) = sys_call (os_socket os domain) w
      in case r of
           Inl e \<Rightarrow> Some (Inl e, w1)
         | Inr s \<Rightarrow> do {
             w2 \<leftarrow> grid_usock_init_from_fd os i s w1;
             w3 \<leftarrow> us_fsm_start os i w2;
             Some (Inr (), w3) })"

definition grid_usock_start_fd :: "'o os_calls \<Rightarrow> nat \<Rightarrow> int \<Rightarrow> ('m, 'o) usock_sys \<Rightarrow> ('m, 'o) usock_sys option" where
  "grid_usock_start_fd os i fd w = do {
     w1 \<leftarrow> grid_usock_init_from_fd os i fd w;
     w2 \<leftarrow> us_fsm_start os i w1;
     usock_do_action os i UA_STARTED w2 }"

definition grid_usock_stop :: "'o os_calls \<Rightarrow> nat \<Rightarrow> ('m, 'o) usock_sys \<Rightarrow> ('m, 'o) usock_sys option" where
  "grid_usock_stop os i w =
     (if us_fsm (usk w i) \<noteq> FSM_ACTIVE then Some w
      else grid_usock_shutdown os i (UsAction UA_STOP) (upd_us i (\<lambda>u. u\<lparr>us_fsm := FSM_STOPPING\<rparr>) w))"

definition grid_usock_setsockopt ::
  "'o os_calls \<Rightarrow> nat \<Rightarrow> int \<Rightarrow> int \<Rightarrow> int \<Rightarrow> ('m, 'o) usock_sys \<Rightarrow> ((errno + unit) \<times> ('m, 'o) usock_sys) option" where
  "grid_usock_setsockopt os i level opt val w = do {
     guard (us_state (usk w i) \<in> {US_STARTING, US_ACCEPTED});
     Some (sys_call (os_setsockopt os (us_s (usk w i)) level opt val) w) }"

definition SOL_SOCKET :: int where "SOL_SOCKET = 1"
definition SO_REUSEADDR :: int where "SO_REUSEADDR = 2"

definition grid_usock_bind ::
  "'o os_calls \<Rightarrow> nat \<Rightarrow> bytes \<Rightarrow> ('m, 'o) usock_sys \<Rightarrow> ((errno + unit) \<times> ('m, 'o) usock_sys) option" where
  "grid_usock_bind os i addr w = do {
     guard (us_state (usk w i) = US_STARTING);
     let (r, w1) = sys_call (os_setsockopt os (us_s (usk w i)) SOL_SOCKET SO_REUSEADDR 1) w;
     guard (r = Inr ());
     Some (sys_call (os_bind os (us_s (usk w1 i)) addr) w1) }"

definition grid_usock_listen ::
  "'o os_calls \<Rightarrow> nat \<Rightarrow> int \<Rightarrow> ('m, 'o) usock_sys \<Rightarrow> ((errno + unit) \<times> ('m, 'o) usock_sys) option" where
  "grid_usock_listen os i backlog w = do {
     guard (us_state (usk w i) = US_STARTING);
     let (r, w1) = sys_call (os_listen os (us_s (usk w i)) backlog) w;
     case r of
       Inl e \<Rightarrow> Some (Inl e, w1)
     | Inr v \<Rightarrow> do { w2 \<leftarrow> usock_do_action os i UA_LISTEN w1; Some (Inr (), w2) } }"

text \<open>Accepting: \<open>i\<close> is the socket that will be the new connection, \<open>l\<close> the listener.\<close>

definition grid_usock_accept :: "'o os_calls \<Rightarrow> nat \<Rightarrow> nat \<Rightarrow> ('m, 'o) usock_sys \<Rightarrow> ('m, 'o) usock_sys option" where
  "grid_usock_accept os i l w = do {
     w1 \<leftarrow> (if grid_usock_isidle (usk w i)
            then do { v \<leftarrow> us_fsm_start os i w; usock_do_action os i UA_BEING_ACCEPTED v } else Some w);
     w2 \<leftarrow> usock_do_action os l UA_ACCEPT w1;
     let (r, w3) = sys_call (os_accept os (us_s (usk w2 l))) w2;
     case r of
       Inr s \<Rightarrow> do {
         w4 \<leftarrow> grid_usock_init_from_fd os i s
           (upd_us i (\<lambda>u. u\<lparr>us_asock := None\<rparr>) (upd_us l (\<lambda>u. u\<lparr>us_asock := None\<rparr>) w3));
         w5 \<leftarrow> usock_do_action os l UA_DONE w4;
         usock_do_action os i UA_DONE w5 }
     | Inl e \<Rightarrow> do {
         guard (e \<in> {EAGAIN, ECONNABORTED, ENFILE, EMFILE, ENOBUFS, ENOMEM});
         guard (us_asock (usk w3 i) = None \<or> us_asock (usk w3 i) = Some l);
         guard (us_asock (usk w3 l) = None \<or> us_asock (usk w3 l) = Some i);
         let w4 = upd_us l (\<lambda>u. u\<lparr>us_asock := Some i\<rparr>) (upd_us i (\<lambda>u. u\<lparr>us_asock := Some l\<rparr>) w3);
         if e \<noteq> EAGAIN \<and> e \<noteq> ECONNABORTED \<and> Some e \<noteq> us_errnum (usk w4 l)
         then us_raise l OB_ERROR GRID_USOCK_ACCEPT_ERROR
                (upd_us l (\<lambda>u. u\<lparr>us_errnum := Some e, us_state := US_ACCEPTING_ERROR\<rparr>) w4)
         else us_execute l TASK_ACCEPT w4 } }"

definition grid_usock_activate :: "'o os_calls \<Rightarrow> nat \<Rightarrow> ('m, 'o) usock_sys \<Rightarrow> ('m, 'o) usock_sys option" where
  "grid_usock_activate os i w = usock_do_action os i UA_ACTIVATE w"

definition grid_usock_connect :: "'o os_calls \<Rightarrow> nat \<Rightarrow> bytes \<Rightarrow> ('m, 'o) usock_sys \<Rightarrow> ('m, 'o) usock_sys option" where
  "grid_usock_connect os i addr w = do {
     w1 \<leftarrow> usock_do_action os i UA_CONNECT w;
     let (r, w2) = sys_call (os_connect os (us_s (usk w1 i)) addr) w1;
     case r of
       Inr v \<Rightarrow> usock_do_action os i UA_DONE w2
     | Inl e \<Rightarrow>
         if e \<noteq> EINPROGRESS then usock_do_action os i UA_ERROR (upd_us i (\<lambda>u. u\<lparr>us_errnum := Some e\<rparr>) w2)
         else us_execute i TASK_CONNECTING w2 }"

definition grid_usock_send :: "'o os_calls \<Rightarrow> nat \<Rightarrow> bytes list \<Rightarrow> ('m, 'o) usock_sys \<Rightarrow> ('m, 'o) usock_sys option" where
  "grid_usock_send os i iov w = do {
     guard (us_state (usk w i) = US_ACTIVE);
     guard (length iov \<le> GRID_USOCK_MAX_IOVCNT);
     (r, w1) \<leftarrow> grid_usock_send_raw os i (upd_us i (\<lambda>u. u\<lparr>us_iov := filter (\<lambda>b. b \<noteq> []) iov\<rparr>) w);
     case r of
       Inr v \<Rightarrow> us_raise i OB_SENT GRID_USOCK_SENT w1
     | Inl e \<Rightarrow>
         if e \<noteq> EAGAIN then do { guard (e = ECONNRESET); usock_do_action os i UA_ERROR w1 }
         else us_execute i TASK_SEND w1 }"

text \<open>
  Asking for \<open>n\<close> bytes into an empty buffer. When the request is answered at once the old
  number of wanted bytes stays in the object.
\<close>

definition grid_usock_recv :: "'o os_calls \<Rightarrow> nat \<Rightarrow> nat \<Rightarrow> bool \<Rightarrow> ('m, 'o) usock_sys \<Rightarrow> ('m, 'o) usock_sys option" where
  "grid_usock_recv os i n pfd w = do {
     guard (us_state (usk w i) = US_ACTIVE);
     (r, w1) \<leftarrow> grid_usock_recv_raw os i n (upd_us i (\<lambda>u. u\<lparr>us_pfd := pfd\<rparr>) w);
     case r of
       Inl e \<Rightarrow> do { guard (e = ECONNRESET); usock_do_action os i UA_ERROR w1 }
     | Inr bs \<Rightarrow>
         let w2 = upd_us i (\<lambda>u. u\<lparr>us_buf := bs\<rparr>) w1
         in if length bs = n then us_raise i OB_RECEIVED GRID_USOCK_RECEIVED w2
            else us_execute i TASK_RECV (upd_us i (\<lambda>u. u\<lparr>us_len := n - length bs\<rparr>) w2) }"

definition grid_usock_geterrno :: "'m usock \<Rightarrow> errno option" where
  "grid_usock_geterrno u = us_errnum u"

text \<open>The worker executes the first task; the first queued event is taken out for its owner.\<close>

definition us_task_step :: "'o os_calls \<Rightarrow> nat \<Rightarrow> ('m, 'o) usock_sys \<Rightarrow> ('m, 'o) usock_sys option" where
  "us_task_step os i w =
     (case us_tasks (usk w i) of
        [] \<Rightarrow> Some w
      | k # ks \<Rightarrow> usock_feed os i (UsTask k) (upd_us i (\<lambda>u. u\<lparr>us_tasks := ks\<rparr>) w))"

definition us_take_event :: "nat \<Rightarrow> ('m, 'o) usock_sys \<Rightarrow> (('m \<times> usock_event) \<times> ('m, 'o) usock_sys) option" where
  "us_take_event i w =
     (case us_events (usk w i) of
        [] \<Rightarrow> None
      | (ob, owner, ev) # es \<Rightarrow> Some ((owner, ev), upd_us i (\<lambda>u. u\<lparr>us_events := es\<rparr>) w))"

end
