(* ===== verification/Streamhdr.thy ===== *)
theory Streamhdr
  imports Usock Timer Wire
begin

text \<open>
  The exchange of protocol headers at the start of a connection
  (\<open>src/transports/utils/streamhdr.c\<close>), over a usock that it borrows from its session. It works
  on its own state and the usocks; the protocol number of the socket and its test for peers are
  arguments. \<open>sh_done\<close> and \<open>sh_stopped\<close> are the queued events. The received header is in the
  buffer that the machine has lent to the usock.
\<close>

text \<open>Who gets the events of a usock.\<close>

datatype conn_owner = OwnerNone | OwnerEndpoint nat | OwnerSession nat | OwnerHdr nat

type_synonym 'o uss = "(conn_owner, 'o) usock_sys"

datatype streamhdr_state = SH_IDLE | SH_SENDING | SH_RECEIVING | SH_STOPPING_TIMER_ERROR
  | SH_STOPPING_TIMER_DONE | SH_DONE | SH_STOPPING

datatype streamhdr_event = GRID_STREAMHDR_OK | GRID_STREAMHDR_ERROR | GRID_STREAMHDR_STOPPED

datatype streamhdr_input = HdrStop | HdrUsock usock_event | HdrTimer timer_event

record streamhdr =
  sh_fsm :: fsm_state
  sh_state :: streamhdr_state
  sh_timer :: grid_timer
  sh_usock :: "nat option"
  sh_owner :: conn_owner
  sh_protohdr :: bytes
  sh_done :: "streamhdr_event option"
  sh_stopped :: bool

definition grid_streamhdr_init :: streamhdr where
  "grid_streamhdr_init = \<lparr>sh_fsm = FSM_IDLE, sh_state = SH_IDLE, sh_timer = grid_timer_init, sh_usock = None,
     sh_owner = OwnerNone, sh_protohdr = replicate 8 0, sh_done = None, sh_stopped = False\<rparr>"

definition grid_streamhdr_isidle :: "streamhdr \<Rightarrow> bool" where
  "grid_streamhdr_isidle h \<longleftrightarrow> sh_fsm h = FSM_IDLE \<and> \<not> sh_stopped h"

definition grid_streamhdr_term :: "streamhdr \<Rightarrow> unit option" where
  "grid_streamhdr_term h = do {
     guard (sh_state h = SH_IDLE);
     guard (sh_done h = None);
     u \<leftarrow> grid_timer_term (sh_timer h);
     guard (grid_streamhdr_isidle h) }"

definition SP_MAGIC :: bytes where "SP_MAGIC = [0, 83, 80, 0]"

definition protocol_header :: "int \<Rightarrow> bytes option" where
  "protocol_header protocol = map_option (\<lambda>t. SP_MAGIC @ t) (grid_puts [0, 0, 0, 0] (word_of_int protocol))"

definition streamhdr_raise :: "streamhdr_event \<Rightarrow> streamhdr \<Rightarrow> streamhdr option" where
  "streamhdr_raise ev h = do { guard (sh_done h = None); Some (h\<lparr>sh_done := Some ev\<rparr>) }"

definition streamhdr_run_start :: "'o os_calls \<Rightarrow> streamhdr \<times> 'o uss \<Rightarrow> (streamhdr \<times> 'o uss) option" where
  "streamhdr_run_start os = (\<lambda>(h, w). do {
     guard (sh_state h = SH_IDLE);
     t \<leftarrow> grid_timer_start 1000 (sh_timer h);
     i \<leftarrow> sh_usock h;
     w1 \<leftarrow> grid_usock_send os i [sh_protohdr h] w;
     Some (h\<lparr>sh_timer := t, sh_state := SH_SENDING\<rparr>, w1) })"

definition grid_streamhdr_start ::
  "'o os_calls \<Rightarrow> nat \<Rightarrow> nat \<Rightarrow> int \<Rightarrow> streamhdr \<times> 'o uss \<Rightarrow> (streamhdr \<times> 'o uss) option" where
  "grid_streamhdr_start os me i protocol = (\<lambda>(h, w). do {
     guard (sh_usock h = None \<and> sh_owner h = OwnerNone);
     let (old, w1) = grid_usock_swap_owner (OwnerHdr me) i w;
     hdr \<leftarrow> protocol_header protocol;
     guard (grid_streamhdr_isidle h);
     (h1, w2) \<leftarrow> streamhdr_run_start os (h\<lparr>sh_usock := Some i, sh_owner := old, sh_protohdr := hdr\<rparr>, w1);
     Some (h1\<lparr>sh_fsm := FSM_ACTIVE\<rparr>, w2) })"

section \<open>The machine while it runs\<close>

text \<open>The timer is stopped, and then the exchange is over, one way or the other.\<close>

definition stop_timer_then :: "streamhdr_state \<Rightarrow> streamhdr \<Rightarrow> streamhdr option" where
  "stop_timer_then st h = do {
     t \<leftarrow> grid_timer_stop (sh_timer h);
     Some (h\<lparr>sh_timer := t, sh_state := st\<rparr>) }"

definition header_ok :: "(int \<Rightarrow> bool) \<Rightarrow> bytes \<Rightarrow> bool option" where
  "header_ok ispeer hdr =
     (if take 4 hdr \<noteq> SP_MAGIC then Some False
      else map_option (\<lambda>p. ispeer (uint p)) (grid_gets (drop 4 hdr)))"

text \<open>The usock goes back to its owner and the result is reported.\<close>

definition streamhdr_give_back :: "streamhdr_event \<Rightarrow> streamhdr \<times> 'o uss \<Rightarrow> (streamhdr \<times> 'o uss) option" where
  "streamhdr_give_back ev = (\<lambda>(h, w). do {
     i \<leftarrow> sh_usock h;
     let (old, w1) = grid_usock_swap_owner (sh_owner h) i w;
     h1 \<leftarrow> streamhdr_raise ev (h\<lparr>sh_usock := None, sh_owner := OwnerNone, sh_state := SH_DONE\<rparr>);
     Some (h1, w1) })"

definition streamhdr_received ::
  "'o os_calls \<Rightarrow> (int \<Rightarrow> bool) \<Rightarrow> streamhdr \<times> 'o uss \<Rightarrow> (streamhdr \<times> 'o uss) option" where
  "streamhdr_received os ispeer = (\<lambda>(h, w). do {
     i \<leftarrow> sh_usock h;
     let h1 = h\<lparr>sh_protohdr := us_buf (usk w i)\<rparr>;
     ok \<leftarrow> header_ok ispeer (sh_protohdr h1);
     h2 \<leftarrow> stop_timer_then (if ok then SH_STOPPING_TIMER_DONE else SH_STOPPING_TIMER_ERROR) h1;
     Some (h2, w) })"

definition grid_streamhdr_handler ::
  "'o os_calls \<Rightarrow> (int \<Rightarrow> bool) \<Rightarrow> streamhdr_input \<Rightarrow> streamhdr \<times> 'o uss \<Rightarrow> (streamhdr \<times> 'o uss) option" where
  "grid_streamhdr_handler os ispeer e = (\<lambda>(h, w).
     let stop = (\<lambda>st. map_option (\<lambda>h1. (h1, w)) (stop_timer_then st h))
     in case (sh_state h, e) of
          (SH_SENDING, HdrUsock GRID_USOCK_SENT) \<Rightarrow> do {
            i \<leftarrow> sh_usock h;
            w1 \<leftarrow> grid_usock_recv os i 8 False w;
            Some (h\<lparr>sh_state := SH_RECEIVING\<rparr>, w1) }
        | (SH_SENDING, HdrUsock GRID_USOCK_SHUTDOWN) \<Rightarrow> Some (h, w)
        | (SH_SENDING, HdrUsock GRID_USOCK_ERROR) \<Rightarrow> stop SH_STOPPING_TIMER_ERROR
        | (SH_SENDING, HdrTimer GRID_TIMER_TIMEOUT) \<Rightarrow> stop SH_STOPPING_TIMER_ERROR
        | (SH_RECEIVING, HdrUsock GRID_USOCK_RECEIVED) \<Rightarrow> streamhdr_received os ispeer (h, w)
        | (SH_RECEIVING, HdrUsock GRID_USOCK_SHUTDOWN) \<Rightarrow> Some (h, w)
        | (SH_RECEIVING, HdrUsock GRID_USOCK_ERROR) \<Rightarrow> stop SH_STOPPING_TIMER_ERROR
        | (SH_RECEIVING, HdrTimer GRID_TIMER_TIMEOUT) \<Rightarrow> stop SH_STOPPING_TIMER_ERROR
        | (SH_STOPPING_TIMER_ERROR, HdrUsock ev) \<Rightarrow> do { guard (ev = GRID_USOCK_ERROR); Some (h, w) }
        | (SH_STOPPING_TIMER_ERROR, HdrTimer GRID_TIMER_STOPPED) \<Rightarrow> streamhdr_give_back GRID_STREAMHDR_ERROR (h, w)
        | (SH_STOPPING_TIMER_DONE, HdrUsock ev) \<Rightarrow> do { guard (ev = GRID_USOCK_ERROR); Some (h, w) }
        | (SH_STOPPING_TIMER_DONE, HdrTimer GRID_TIMER_STOPPED) \<Rightarrow> streamhdr_give_back GRID_STREAMHDR_OK (h, w)
        | _ \<Rightarrow> None)"

section \<open>Stopping\<close>

definition streamhdr_shutdown_done :: "streamhdr \<Rightarrow> streamhdr option" where
  "streamhdr_shutdown_done h =
     (if sh_state h \<noteq> SH_STOPPING then None
      else if \<not> grid_timer_isidle (sh_timer h) then Some h
      else do {
        guard (sh_fsm h = FSM_STOPPING);
        guard (\<not> sh_stopped h);
        Some (h\<lparr>sh_state := SH_IDLE, sh_stopped := True, sh_fsm := FSM_IDLE\<rparr>) })"

definition grid_streamhdr_shutdown :: "streamhdr_input \<Rightarrow> streamhdr \<Rightarrow> streamhdr option" where
  "grid_streamhdr_shutdown e h = do {
     h1 \<leftarrow> (if e = HdrStop then stop_timer_then SH_STOPPING h else Some h);
     streamhdr_shutdown_done h1 }"

definition grid_streamhdr_stop :: "streamhdr \<Rightarrow> streamhdr option" where
  "grid_streamhdr_stop h =
     (if sh_fsm h \<noteq> FSM_ACTIVE then Some h else grid_streamhdr_shutdown HdrStop (h\<lparr>sh_fsm := FSM_STOPPING\<rparr>))"

definition streamhdr_feed ::
  "'o os_calls \<Rightarrow> (int \<Rightarrow> bool) \<Rightarrow> streamhdr_input \<Rightarrow> streamhdr \<times> 'o uss \<Rightarrow> (streamhdr \<times> 'o uss) option" where
  "streamhdr_feed os ispeer e = (\<lambda>(h, w).
     if sh_fsm h \<noteq> FSM_STOPPING then grid_streamhdr_handler os ispeer e (h, w)
     else map_option (\<lambda>h1. (h1, w)) (grid_streamhdr_shutdown e h))"

text \<open>The worker executes a task of the timer, or the timer expires; the events go to the machine.\<close>

fun streamhdr_feed_timer ::
  "'o os_calls \<Rightarrow> (int \<Rightarrow> bool) \<Rightarrow> timer_event list \<Rightarrow> streamhdr \<times> 'o uss \<Rightarrow> (streamhdr \<times> 'o uss) option" where
  "streamhdr_feed_timer os ispeer [] hw = Some hw"
| "streamhdr_feed_timer os ispeer (ev # evs) hw = do {
     hw1 \<leftarrow> streamhdr_feed os ispeer (HdrTimer ev) hw;
     streamhdr_feed_timer os ispeer evs hw1 }"

definition streamhdr_timer_step ::
  "'o os_calls \<Rightarrow> (int \<Rightarrow> bool) \<Rightarrow> bool \<Rightarrow> streamhdr \<times> 'o uss \<Rightarrow> (streamhdr \<times> 'o uss) option" where
  "streamhdr_timer_step os ispeer expires = (\<lambda>(h, w). do {
     (evs, t) \<leftarrow> (if expires then timer_expire_step (sh_timer h) else timer_task_step (sh_timer h));
     streamhdr_feed_timer os ispeer evs (h\<lparr>sh_timer := t\<rparr>, w) })"

end
