(* ===== verification/Stcp.thy ===== *)
theory Stcp
  imports Streamhdr Pipe
begin

text \<open>
  Sessions of the stream transports: \<open>src/transports/tcp/stcp.c\<close> and, with another header of
  a message, \<open>src/transports/ipc/sipc.c\<close>. A session exchanges protocol headers, then sends a
  message as its length and its bytes and receives messages one at a time. Sessions are named by
  the number of their pipe; the world of the pipes holds the sessions, the usocks and the pipes
  that were unregistered. The buffers that a session lends to its usock are the usock's
  \<open>us_buf\<close>; a received message is taken from there when it is complete.
\<close>

section \<open>State\<close>

datatype stcp_state = ST_IDLE | ST_PROTOHDR | ST_STOPPING_STREAMHDR | ST_ACTIVE | ST_SHUTTING_DOWN
  | ST_DONE | ST_STOPPING

datatype stcp_instate = INSTATE_HDR | INSTATE_BODY | INSTATE_HASMSG
datatype stcp_outstate = OUTSTATE_IDLE | OUTSTATE_SENDING

datatype stcp_event = GRID_STCP_ERROR | GRID_STCP_STOPPED

datatype stcp_input = StStart | StStop | StUsock usock_event | StHdr streamhdr_event

record stcp =
  st_fsm :: fsm_state
  st_state :: stcp_state
  st_streamhdr :: streamhdr
  st_usock :: "nat option"
  st_usock_owner :: conn_owner
  st_instate :: "stcp_instate option"
  st_inhdr :: bytes
  st_inmsg :: msg
  st_outstate :: "stcp_outstate option"
  st_outhdr :: bytes
  st_outmsg :: msg
  st_done :: "stcp_event option"
  st_stopped :: bool

record 'o tcp_sys =
  ts_stcp :: "nat \<Rightarrow> stcp"
  ts_us :: "'o uss"
  ts_removed :: "nat list"

type_synonym 'o tcp = "'o tcp_sys pipe_sys"

definition no_msg :: msg where "no_msg = \<lparr>sphdr = [], hdrs = [], body = []\<rparr>"

definition stc :: "'o tcp \<Rightarrow> nat \<Rightarrow> stcp" where
  "stc w k = ts_stcp (ps_tr w) k"

definition upd_st :: "nat \<Rightarrow> (stcp \<Rightarrow> stcp) \<Rightarrow> 'o tcp \<Rightarrow> 'o tcp" where
  "upd_st k f w = w\<lparr>ps_tr := (ps_tr w)\<lparr>ts_stcp := (ts_stcp (ps_tr w))(k := f (ts_stcp (ps_tr w) k))\<rparr>\<rparr>"

definition uss :: "'o tcp \<Rightarrow> 'o uss" where
  "uss w = ts_us (ps_tr w)"

definition set_uss :: "'o uss \<Rightarrow> 'o tcp \<Rightarrow> 'o tcp" where
  "set_uss v w = w\<lparr>ps_tr := (ps_tr w)\<lparr>ts_us := v\<rparr>\<rparr>"

text \<open>An operation on the usock of a session, on its header machine, on its pipe.\<close>

definition on_usock :: "nat \<Rightarrow> (nat \<Rightarrow> 'o uss \<Rightarrow> 'o uss option) \<Rightarrow> 'o tcp \<Rightarrow> 'o tcp option" where
  "on_usock k f w = do {
     i \<leftarrow> st_usock (stc w k);
     v \<leftarrow> f i (uss w);
     Some (set_uss v w) }"

definition on_hdr :: "nat \<Rightarrow> (streamhdr \<times> 'o uss \<Rightarrow> (streamhdr \<times> 'o uss) option) \<Rightarrow> 'o tcp \<Rightarrow> 'o tcp option" where
  "on_hdr k f w = do {
     (h, v) \<leftarrow> f (st_streamhdr (stc w k), uss w);
     Some (upd_st k (\<lambda>s. s\<lparr>st_streamhdr := h\<rparr>) (set_uss v w)) }"

definition on_base :: "nat \<Rightarrow> (pipebase \<Rightarrow> pipebase option) \<Rightarrow> 'o tcp \<Rightarrow> 'o tcp option" where
  "on_base k f w = map_option (\<lambda>b. set_base k b w) (f (ps_base w k))"

definition st_set :: "nat \<Rightarrow> stcp_state \<Rightarrow> 'o tcp \<Rightarrow> 'o tcp" where
  "st_set k st w = upd_st k (\<lambda>s. s\<lparr>st_state := st\<rparr>) w"

definition st_raise :: "nat \<Rightarrow> stcp_event \<Rightarrow> 'o tcp \<Rightarrow> 'o tcp option" where
  "st_raise k ev w = do { guard (st_done (stc w k) = None); Some (upd_st k (\<lambda>s. s\<lparr>st_done := Some ev\<rparr>) w) }"

definition st_stop_pipe :: "nat \<Rightarrow> 'o tcp \<Rightarrow> 'o tcp" where
  "st_stop_pipe k w =
     (let (rm, b) = grid_pipebase_stop (ps_base w k);
          w1 = set_base k b w
      in if rm then w1\<lparr>ps_tr := (ps_tr w1)\<lparr>ts_removed := ts_removed (ps_tr w1) @ [k]\<rparr>\<rparr> else w1)"

definition grid_stcp_init :: stcp where
  "grid_stcp_init = \<lparr>st_fsm = FSM_IDLE, st_state = ST_IDLE, st_streamhdr = grid_streamhdr_init, st_usock = None,
     st_usock_owner = OwnerNone, st_instate = None, st_inhdr = [], st_inmsg = no_msg, st_outstate = None,
     st_outhdr = [], st_outmsg = no_msg, st_done = None, st_stopped = False\<rparr>"

definition grid_stcp_isidle :: "stcp \<Rightarrow> bool" where
  "grid_stcp_isidle s \<longleftrightarrow> st_fsm s = FSM_IDLE \<and> \<not> st_stopped s"

definition grid_stcp_term :: "pipebase \<Rightarrow> stcp \<Rightarrow> unit option" where
  "grid_stcp_term b s = do {
     guard (st_state s = ST_IDLE);
     guard (st_done s = None);
     u \<leftarrow> grid_pipebase_term b;
     v \<leftarrow> grid_streamhdr_term (st_streamhdr s);
     guard (grid_stcp_isidle s) }"

section \<open>Sending and receiving\<close>

text \<open>The header of a message on the wire.\<close>

definition size_bytes64 :: "nat \<Rightarrow> bytes option" where
  "size_bytes64 n = grid_putll (replicate 8 0) (of_nat n)"

definition stcp_header :: "nat \<Rightarrow> bytes option" where
  "stcp_header n = size_bytes64 n"

definition GRID_SIPC_MSG_NORMAL :: u8 where "GRID_SIPC_MSG_NORMAL = 1"

definition sipc_header :: "nat \<Rightarrow> bytes option" where
  "sipc_header n = map_option (\<lambda>h. GRID_SIPC_MSG_NORMAL # h) (size_bytes64 n)"

definition stream_send :: "(nat \<Rightarrow> bytes option) \<Rightarrow> 'o os_calls \<Rightarrow> 'o tcp_sys vfptr_send" where
  "stream_send header os k m w = do {
     guard (st_state (stc w k) = ST_ACTIVE);
     guard (st_outstate (stc w k) = Some OUTSTATE_IDLE);
     h \<leftarrow> header (length (sphdr m) + length (body m));
     w1 \<leftarrow> on_usock k (\<lambda>i. grid_usock_send os i [h, sphdr m, body m])
       (upd_st k (\<lambda>s. s\<lparr>st_outmsg := m, st_outhdr := h\<rparr>) w);
     Some (Inr 0, upd_st k (\<lambda>s. s\<lparr>st_outstate := Some OUTSTATE_SENDING\<rparr>) w1) }"

definition stream_recv :: "nat \<Rightarrow> 'o os_calls \<Rightarrow> 'o tcp_sys vfptr_recv" where
  "stream_recv hdrlen os k w = do {
     guard (st_state (stc w k) = ST_ACTIVE);
     guard (st_instate (stc w k) = Some INSTATE_HASMSG);
     let m = st_inmsg (stc w k);
     w1 \<leftarrow> on_usock k (\<lambda>i. grid_usock_recv os i hdrlen False)
       (upd_st k (\<lambda>s. s\<lparr>st_inmsg := no_msg, st_instate := Some INSTATE_HDR\<rparr>) w);
     Some (Inr (0, m), w1) }"

definition grid_stcp_send :: "'o os_calls \<Rightarrow> 'o tcp_sys vfptr_send" where
  "grid_stcp_send os = stream_send stcp_header os"

definition grid_stcp_recv :: "'o os_calls \<Rightarrow> 'o tcp_sys vfptr_recv" where
  "grid_stcp_recv os = stream_recv 8 os"

definition grid_sipc_send :: "'o os_calls \<Rightarrow> 'o tcp_sys vfptr_send" where
  "grid_sipc_send os = stream_send sipc_header os"

definition grid_sipc_recv :: "'o os_calls \<Rightarrow> 'o tcp_sys vfptr_recv" where
  "grid_sipc_recv os = stream_recv 9 os"

section \<open>The state machine\<close>

text \<open>
  What the socket tells the session: its protocol, its peers, the largest message it takes
  (negative for no limit), and whether it accepts the pipe.
\<close>

record sock_answers =
  sa_protocol :: int
  sa_ispeer :: "int \<Rightarrow> bool"
  sa_rcvmaxsize :: int
  sa_add :: "errno + unit"

text \<open>
  The header of a message has come: the size of the message, or that the connection is to be
  dropped. Comparing with the limit converts it to \<open>unsigned\<close>.
\<close>

definition stcp_check_header :: "int \<Rightarrow> bytes \<Rightarrow> u64 option option" where
  "stcp_check_header opt hdr = do {
     sz \<leftarrow> grid_getll hdr;
     Some (if opt \<ge> 0 \<and> sz > ucast (word_of_int opt :: u32) then None else Some sz) }"

definition sipc_check_header :: "int \<Rightarrow> bytes \<Rightarrow> u64 option option" where
  "sipc_check_header opt hdr = do {
     guard (take 1 hdr = [GRID_SIPC_MSG_NORMAL]);
     sz \<leftarrow> grid_getll (drop 1 hdr);
     Some (Some sz) }"

text \<open>The received bytes are \<open>buf\<close>; the next buffer is the body of the message.\<close>

definition stream_header_received ::
  "(int \<Rightarrow> bytes \<Rightarrow> u64 option option) \<Rightarrow> 'o os_calls \<Rightarrow> int \<Rightarrow> nat \<Rightarrow> bytes \<Rightarrow> 'o tcp \<Rightarrow> 'o tcp option" where
  "stream_header_received check os opt k buf w = do {
     r \<leftarrow> check opt buf;
     let w0 = upd_st k (\<lambda>s. s\<lparr>st_inhdr := buf\<rparr>) w;
     case r of
       None \<Rightarrow> st_raise k GRID_STCP_ERROR (st_set k ST_DONE w0)
     | Some sz \<Rightarrow>
         if sz = 0 then
           on_base k grid_pipebase_received
             (upd_st k (\<lambda>s. s\<lparr>st_inmsg := no_msg, st_instate := Some INSTATE_HASMSG\<rparr>) w0)
         else
           on_usock k (\<lambda>i. grid_usock_recv os i (unat sz) False)
             (upd_st k (\<lambda>s. s\<lparr>st_inmsg := no_msg\<lparr>body := replicate (unat sz) 0\<rparr>, st_instate := Some INSTATE_BODY\<rparr>) w0) }"

definition stream_received ::
  "(int \<Rightarrow> bytes \<Rightarrow> u64 option option) \<Rightarrow> 'o os_calls \<Rightarrow> int \<Rightarrow> nat \<Rightarrow> 'o tcp \<Rightarrow> 'o tcp option" where
  "stream_received check os opt k w = do {
     i \<leftarrow> st_usock (stc w k);
     let buf = us_buf (usk (uss w) i);
     case st_instate (stc w k) of
       Some INSTATE_HDR \<Rightarrow> stream_header_received check os opt k buf w
     | Some INSTATE_BODY \<Rightarrow>
         on_base k grid_pipebase_received
           (upd_st k (\<lambda>s. s\<lparr>st_inmsg := (st_inmsg s)\<lparr>body := buf\<rparr>, st_instate := Some INSTATE_HASMSG\<rparr>) w)
     | _ \<Rightarrow> None }"

definition stream_active ::
  "(int \<Rightarrow> bytes \<Rightarrow> u64 option option) \<Rightarrow> 'o os_calls \<Rightarrow> int \<Rightarrow> nat \<Rightarrow> usock_event \<Rightarrow> 'o tcp \<Rightarrow> 'o tcp option" where
  "stream_active check os opt k ev w =
     (case ev of
        GRID_USOCK_SENT \<Rightarrow> do {
          guard (st_outstate (stc w k) = Some OUTSTATE_SENDING);
          on_base k grid_pipebase_sent
            (upd_st k (\<lambda>s. s\<lparr>st_outstate := Some OUTSTATE_IDLE, st_outmsg := no_msg\<rparr>) w) }
      | GRID_USOCK_RECEIVED \<Rightarrow> stream_received check os opt k w
      | GRID_USOCK_SHUTDOWN \<Rightarrow> Some (st_set k ST_SHUTTING_DOWN (st_stop_pipe k w))
      | GRID_USOCK_ERROR \<Rightarrow> st_raise k GRID_STCP_ERROR (st_set k ST_DONE (st_stop_pipe k w))
      | _ \<Rightarrow> None)"

text \<open>The header exchange has stopped: the pipe is started, and a first header awaited.\<close>

definition stream_start_pipe ::
  "nat \<Rightarrow> 'o os_calls \<Rightarrow> (errno + unit) \<Rightarrow> nat \<Rightarrow> 'o tcp \<Rightarrow> 'o tcp option" where
  "stream_start_pipe hdrlen os add k w = do {
     (r, b) \<leftarrow> grid_pipebase_start add (ps_base w k);
     let w1 = set_base k b w;
     case r of
       Inl e \<Rightarrow> st_raise k GRID_STCP_ERROR (st_set k ST_DONE w1)
     | Inr u \<Rightarrow> do {
         w2 \<leftarrow> on_usock k (\<lambda>i. grid_usock_recv os i hdrlen False) (upd_st k (\<lambda>s. s\<lparr>st_instate := Some INSTATE_HDR\<rparr>) w1);
         Some (upd_st k (\<lambda>s. s\<lparr>st_outstate := Some OUTSTATE_IDLE, st_state := ST_ACTIVE\<rparr>) w2) } }"

definition stream_handler ::
  "nat \<Rightarrow> (int \<Rightarrow> bytes \<Rightarrow> u64 option option) \<Rightarrow> 'o os_calls \<Rightarrow> sock_answers \<Rightarrow> nat \<Rightarrow> stcp_input \<Rightarrow> 'o tcp \<Rightarrow> 'o tcp option" where
  "stream_handler hdrlen check os sa k e w =
     (case (st_state (stc w k), e) of
        (ST_IDLE, StStart) \<Rightarrow> do {
          i \<leftarrow> st_usock (stc w k);
          w1 \<leftarrow> on_hdr k (grid_streamhdr_start os k i (sa_protocol sa)) w;
          Some (st_set k ST_PROTOHDR w1) }
      | (ST_PROTOHDR, StHdr GRID_STREAMHDR_OK) \<Rightarrow> do {
          w1 \<leftarrow> on_hdr k (\<lambda>(h, v). map_option (\<lambda>h1. (h1, v)) (grid_streamhdr_stop h)) w;
          Some (st_set k ST_STOPPING_STREAMHDR w1) }
      | (ST_PROTOHDR, StHdr GRID_STREAMHDR_ERROR) \<Rightarrow> st_raise k GRID_STCP_ERROR (st_set k ST_DONE w)
      | (ST_STOPPING_STREAMHDR, StHdr GRID_STREAMHDR_STOPPED) \<Rightarrow> stream_start_pipe hdrlen os (sa_add sa) k w
      | (ST_ACTIVE, StUsock ev) \<Rightarrow> stream_active check os (sa_rcvmaxsize sa) k ev w
      | (ST_SHUTTING_DOWN, StUsock GRID_USOCK_ERROR) \<Rightarrow> st_raise k GRID_STCP_ERROR (st_set k ST_DONE w)
      | _ \<Rightarrow> None)"

definition grid_stcp_handler :: "'o os_calls \<Rightarrow> sock_answers \<Rightarrow> nat \<Rightarrow> stcp_input \<Rightarrow> 'o tcp \<Rightarrow> 'o tcp option" where
  "grid_stcp_handler os = stream_handler 8 stcp_check_header os"

definition grid_sipc_handler :: "'o os_calls \<Rightarrow> sock_answers \<Rightarrow> nat \<Rightarrow> stcp_input \<Rightarrow> 'o tcp \<Rightarrow> 'o tcp option" where
  "grid_sipc_handler os = stream_handler 9 sipc_check_header os"

text \<open>Stopping: the usock goes back to its owner when the header machine is idle.\<close>

definition grid_stcp_shutdown :: "nat \<Rightarrow> stcp_input \<Rightarrow> 'o tcp \<Rightarrow> 'o tcp option" where
  "grid_stcp_shutdown k e w = do {
     w1 \<leftarrow> (if e = StStop then do {
              v \<leftarrow> on_hdr k (\<lambda>(h, v). map_option (\<lambda>h1. (h1, v)) (grid_streamhdr_stop h)) (st_stop_pipe k w);
              Some (st_set k ST_STOPPING v) }
            else Some w);
     guard (st_state (stc w1 k) = ST_STOPPING);
     if \<not> grid_streamhdr_isidle (st_streamhdr (stc w1 k)) then Some w1
     else do {
       i \<leftarrow> st_usock (stc w1 k);
       let (old, v) = grid_usock_swap_owner (st_usock_owner (stc w1 k)) i (uss w1);
       let w2 = upd_st k (\<lambda>s. s\<lparr>st_usock := None, st_usock_owner := OwnerNone, st_state := ST_IDLE\<rparr>) (set_uss v w1);
       guard (st_fsm (stc w2 k) = FSM_STOPPING);
       guard (\<not> st_stopped (stc w2 k));
       Some (upd_st k (\<lambda>s. s\<lparr>st_stopped := True, st_fsm := FSM_IDLE\<rparr>) w2) } }"

definition stream_feed ::
  "nat \<Rightarrow> (int \<Rightarrow> bytes \<Rightarrow> u64 option option) \<Rightarrow> 'o os_calls \<Rightarrow> sock_answers \<Rightarrow> nat \<Rightarrow> stcp_input \<Rightarrow> 'o tcp \<Rightarrow> 'o tcp option" where
  "stream_feed hdrlen check os sa k e w =
     (if st_fsm (stc w k) \<noteq> FSM_STOPPING then stream_handler hdrlen check os sa k e w else grid_stcp_shutdown k e w)"

definition grid_stcp_start :: "'o os_calls \<Rightarrow> sock_answers \<Rightarrow> nat \<Rightarrow> nat \<Rightarrow> 'o tcp \<Rightarrow> 'o tcp option" where
  "grid_stcp_start os sa k i w = do {
     guard (st_usock (stc w k) = None \<and> st_usock_owner (stc w k) = OwnerNone);
     let (old, v) = grid_usock_swap_owner (OwnerSession k) i (uss w);
     let w1 = upd_st k (\<lambda>s. s\<lparr>st_usock_owner := old, st_usock := Some i\<rparr>) (set_uss v w);
     guard (grid_stcp_isidle (stc w1 k));
     w2 \<leftarrow> grid_stcp_handler os sa k StStart w1;
     Some (upd_st k (\<lambda>s. s\<lparr>st_fsm := FSM_ACTIVE\<rparr>) w2) }"

definition grid_stcp_stop :: "nat \<Rightarrow> 'o tcp \<Rightarrow> 'o tcp option" where
  "grid_stcp_stop k w =
     (if st_fsm (stc w k) \<noteq> FSM_ACTIVE then Some w
      else grid_stcp_shutdown k StStop (upd_st k (\<lambda>s. s\<lparr>st_fsm := FSM_STOPPING\<rparr>) w))"

section \<open>Delivery of events\<close>

text \<open>
  The first queued event of usock \<open>i\<close> goes to the machine that owned the usock when the event
  was raised: a session, a session's header machine, or an endpoint, which is outside of this
  theory and gets the event as a result.
\<close>

definition deliver_usock ::
  "nat \<Rightarrow> (int \<Rightarrow> bytes \<Rightarrow> u64 option option) \<Rightarrow> 'o os_calls \<Rightarrow> sock_answers \<Rightarrow> nat \<Rightarrow> 'o tcp
     \<Rightarrow> ((nat \<times> usock_event) option \<times> 'o tcp) option" where
  "deliver_usock hdrlen check os sa i w = do {
     ((owner, ev), v) \<leftarrow> us_take_event i (uss w);
     let w1 = set_uss v w;
     case owner of
       OwnerSession k \<Rightarrow> map_option (Pair None) (stream_feed hdrlen check os sa k (StUsock ev) w1)
     | OwnerHdr k \<Rightarrow> map_option (Pair None) (on_hdr k (streamhdr_feed os (sa_ispeer sa) (HdrUsock ev)) w1)
     | OwnerEndpoint n \<Rightarrow> Some (Some (n, ev), w1)
     | OwnerNone \<Rightarrow> None }"

text \<open>The events of the header machine go to its session.\<close>

definition deliver_hdr_done ::
  "nat \<Rightarrow> (int \<Rightarrow> bytes \<Rightarrow> u64 option option) \<Rightarrow> 'o os_calls \<Rightarrow> sock_answers \<Rightarrow> nat \<Rightarrow> 'o tcp \<Rightarrow> 'o tcp option" where
  "deliver_hdr_done hdrlen check os sa k w = do {
     ev \<leftarrow> sh_done (st_streamhdr (stc w k));
     stream_feed hdrlen check os sa k (StHdr ev)
       (upd_st k (\<lambda>s. s\<lparr>st_streamhdr := (st_streamhdr s)\<lparr>sh_done := None\<rparr>\<rparr>) w) }"

definition deliver_hdr_stopped ::
  "nat \<Rightarrow> (int \<Rightarrow> bytes \<Rightarrow> u64 option option) \<Rightarrow> 'o os_calls \<Rightarrow> sock_answers \<Rightarrow> nat \<Rightarrow> 'o tcp \<Rightarrow> 'o tcp option" where
  "deliver_hdr_stopped hdrlen check os sa k w = do {
     guard (sh_stopped (st_streamhdr (stc w k)));
     stream_feed hdrlen check os sa k (StHdr GRID_STREAMHDR_STOPPED)
       (upd_st k (\<lambda>s. s\<lparr>st_streamhdr := (st_streamhdr s)\<lparr>sh_stopped := False\<rparr>\<rparr>) w) }"

text \<open>The worker reports the file descriptor of a usock, or executes one of its tasks.\<close>

definition worker_fd_event :: "'o os_calls \<Rightarrow> nat \<Rightarrow> fd_event \<Rightarrow> 'o tcp \<Rightarrow> 'o tcp option" where
  "worker_fd_event os i ev w = map_option (\<lambda>v. set_uss v w) (usock_feed os i (UsFd ev) (uss w))"

definition worker_usock_task :: "'o os_calls \<Rightarrow> nat \<Rightarrow> 'o tcp \<Rightarrow> 'o tcp option" where
  "worker_usock_task os i w = map_option (\<lambda>v. set_uss v w) (us_task_step os i (uss w))"

end
