(* ===== verification/UsockStream.thy ===== *)
theory UsockStream
  imports Usock "HOL-Library.Sublist"
begin

text \<open>
  The byte stream of a connected usock. \<open>stream_os\<close> is what is relied on of the operating
  system: on the descriptor \<open>s\<close> of a stream socket, \<open>rd\<close> is what has yet to come in and \<open>wr\<close>
  what has been sent; \<open>recvmsg\<close> takes a prefix of the one, \<open>sendmsg\<close> adds a prefix of its
  buffers to the other, and closing a descriptor changes neither. The lemmas say that the batch
  buffer and the partial transfers lose, repeat and reorder nothing.
\<close>

definition stream_os :: "'o os_calls \<Rightarrow> int \<Rightarrow> ('o \<Rightarrow> bytes) \<Rightarrow> ('o \<Rightarrow> bytes) \<Rightarrow> bool" where
  "stream_os os s rd wr \<longleftrightarrow> s \<ge> 0
     \<and> (\<forall>n x bs fd y. os_recvmsg os s n x = (Inr (bs, fd), y) \<longrightarrow> length bs \<le> n \<and> rd x = bs @ rd y \<and> wr y = wr x)
     \<and> (\<forall>n x e y. os_recvmsg os s n x = (Inl e, y) \<longrightarrow> rd y = rd x \<and> wr y = wr x)
     \<and> (\<forall>iov x m y. os_sendmsg os s iov x = (Inr m, y) \<longrightarrow>
          m \<le> length (concat iov) \<and> wr y = wr x @ take m (concat iov) \<and> rd y = rd x)
     \<and> (\<forall>iov x e y. os_sendmsg os s iov x = (Inl e, y) \<longrightarrow> rd y = rd x \<and> wr y = wr x)
     \<and> (\<forall>f x r y. os_close os f x = (r, y) \<longrightarrow> rd y = rd x \<and> wr y = wr x
          \<and> r \<in> {Inr (), Inl EINTR, Inl ETIMEDOUT, Inl EAGAIN, Inl EINPROGRESS, Inl ECONNRESET})"

section \<open>Reading updated states\<close>

lemma usock_simps [simp]:
  "usk (upd_us i f w) j = (if j = i then f (usk w i) else usk w j)"
  "sy_os (upd_us i f w) = sy_os w"
  "upd_us i f (upd_us i g w) = upd_us i (\<lambda>u. f (g u)) w"
  by (simp_all add: usk_def upd_us_def)

lemma sys_call_eq:
  "sys_call f w = (fst (f (sy_os w)), w\<lparr>sy_os := snd (f (sy_os w))\<rparr>)"
  by (simp add: sys_call_def split: prod.splits)

lemma usk_os [simp]: "usk (w\<lparr>sy_os := x\<rparr>) j = usk w j"
  by (simp add: usk_def)

lemma upd_us_os [simp]: "(upd_us i f w)\<lparr>sy_os := x\<rparr> = upd_us i f (w\<lparr>sy_os := x\<rparr>)"
  by (simp add: upd_us_def)

lemmas us_op_defs = us_set_state_def us_set_in_def us_set_out_def us_add_fd_def us_rm_fd_def us_raise_def us_execute_def

text \<open>What is in the batch buffer and in the operating system.\<close>

definition us_pending :: "('o \<Rightarrow> bytes) \<Rightarrow> nat \<Rightarrow> ('m, 'o) usock_sys \<Rightarrow> bytes" where
  "us_pending rd i w = drop (us_pos (usk w i)) (us_batch (usk w i)) @ rd (sy_os w)"

lemma stream_os_recv:
  assumes "stream_os os s rd wr"
  shows "os_recvmsg os s n x = (Inr (bs, fd), y) \<Longrightarrow> length bs \<le> n \<and> rd x = bs @ rd y \<and> wr y = wr x"
    and "os_recvmsg os s n x = (Inl e, y) \<Longrightarrow> rd y = rd x \<and> wr y = wr x"
  using assms unfolding stream_os_def by simp_all

lemma stream_os_send:
  assumes "stream_os os s rd wr"
  shows "os_sendmsg os s iov x = (Inr m, y) \<Longrightarrow> m \<le> length (concat iov) \<and> wr y = wr x @ take m (concat iov) \<and> rd y = rd x"
    and "os_sendmsg os s iov x = (Inl e, y) \<Longrightarrow> rd y = rd x \<and> wr y = wr x"
  using assms unfolding stream_os_def by simp_all

lemma stream_os_close:
  assumes "stream_os os s rd wr"
  shows "\<exists>x. grid_closefd os f w = Some (w\<lparr>sy_os := x\<rparr>) \<and> rd x = rd (sy_os w) \<and> wr x = wr (sy_os w)"
proof (cases "f < 0")
  case True
  then show ?thesis by (intro exI [of _ "sy_os w"]) (simp add: grid_closefd_def)
next
  case False
  obtain r x where c: "os_close os f (sy_os w) = (r, x)" by fastforce
  with assms have x: "rd x = rd (sy_os w)" "wr x = wr (sy_os w)"
    and r: "r \<in> {Inr (), Inl EINTR, Inl ETIMEDOUT, Inl EAGAIN, Inl EINPROGRESS, Inl ECONNRESET}"
    unfolding stream_os_def by metis+
  show ?thesis using c x r False
    by (intro exI [of _ x]) (auto simp: grid_closefd_def sys_call_eq)
qed

section \<open>Sending\<close>

lemma advance_iov_ok:
  "n \<le> length (concat iov) \<Longrightarrow> [] \<notin> set iov \<Longrightarrow>
   \<exists>iov'. advance_iov n iov = Some (iov' = [], iov') \<and> concat iov' = drop n (concat iov) \<and> [] \<notin> set iov'"
proof (induction n iov rule: advance_iov.induct)
  case (3 n b iov)
  show ?case
  proof (cases "length b \<le> Suc n")
    case True
    then show ?thesis
    proof (cases "iov = []")
      case False
      with True 3 show ?thesis by auto
    next
      case iov: True
      with True 3(2) have "Suc n = length b" by simp
      with iov show ?thesis by (subst advance_iov.simps) simp
    qed
  next
    case False
    then show ?thesis using 3(3) by auto
  qed
qed auto

text \<open>A step of sending: the bytes that left the buffers are the ones that went out.\<close>

lemma send_raw_ok:
  assumes "stream_os os s rd wr" and "us_s (usk w i) = s" and "[] \<notin> set (us_iov (usk w i))"
  shows "\<exists>r iov x. grid_usock_send_raw os i w = Some (r, upd_us i (\<lambda>u. u\<lparr>us_iov := iov\<rparr>) (w\<lparr>sy_os := x\<rparr>))
    \<and> rd x = rd (sy_os w) \<and> wr x @ concat iov = wr (sy_os w) @ concat (us_iov (usk w i)) \<and> [] \<notin> set iov
    \<and> (r = Inr () \<and> iov = [] \<or> r = Inl EAGAIN \<and> iov \<noteq> [] \<or> r = Inl ECONNRESET)"
proof -
  let ?iov = "us_iov (usk w i)"
  obtain r x where c: "os_sendmsg os s ?iov (sy_os w) = (r, x)" by fastforce
  have same: "upd_us i (\<lambda>u. u\<lparr>us_iov := ?iov\<rparr>) v = v" if "usk v i = usk w i" for v
    using that by (simp add: upd_us_def usk_def fun_upd_idem)
  show ?thesis
  proof (cases r)
    case (Inl e)
    with stream_os_send(2) [OF assms(1)] c have "rd x = rd (sy_os w)" "wr x = wr (sy_os w)" by auto
    then show ?thesis using c Inl assms(2,3) same [of "w\<lparr>sy_os := x\<rparr>"]
      by (intro exI [of _ "if e = EAGAIN then (if ?iov = [] then Inr () else Inl EAGAIN) else Inl ECONNRESET"] exI [of _ ?iov] exI [of _ x])
        (auto simp: grid_usock_send_raw_def sys_call_eq)
  next
    case (Inr n)
    with stream_os_send(1) [OF assms(1)] c have n: "n \<le> length (concat ?iov)" "wr x = wr (sy_os w) @ take n (concat ?iov)" "rd x = rd (sy_os w)"
      by auto
    from advance_iov_ok [OF n(1) assms(3)] obtain iov' where
      iov': "advance_iov n ?iov = Some (iov' = [], iov')" "concat iov' = drop n (concat ?iov)" "[] \<notin> set iov'" by blast
    then show ?thesis using c Inr n assms(2)
      by (intro exI [of _ "if iov' = [] then Inr () else Inl EAGAIN"] exI [of _ iov'] exI [of _ x])
        (auto simp: grid_usock_send_raw_def sys_call_eq)
  qed
qed

section \<open>Receiving\<close>

text \<open>
  A step of receiving: what is appended to the user's buffer is what comes off the stream; after
  an error nothing is promised but that the stream has not grown.
\<close>

lemma upd_us_same: "(\<And>u. u = usk w i \<Longrightarrow> f u = u) \<Longrightarrow> upd_us i f w = w"
  by (simp add: upd_us_def usk_def fun_upd_idem)

lemma take_fd_ok:
  assumes "stream_os os s rd wr"
  shows "\<exists>b f x. take_fd os i fd w = Some (upd_us i (\<lambda>u. u\<lparr>us_pfd := b, us_fd := f\<rparr>) (w\<lparr>sy_os := x\<rparr>))
    \<and> rd x = rd (sy_os w) \<and> wr x = wr (sy_os w)"
proof -
  have same: "upd_us i (\<lambda>u. u\<lparr>us_pfd := us_pfd (usk w i), us_fd := us_fd (usk w i)\<rparr>) (w\<lparr>sy_os := x\<rparr>) = w\<lparr>sy_os := x\<rparr>" for x
    by (rule upd_us_same) simp
  show ?thesis
  proof (cases fd)
    case None
    with same [of "sy_os w"] show ?thesis
      by (intro exI [of _ "us_pfd (usk w i)"] exI [of _ "us_fd (usk w i)"] exI [of _ "sy_os w"]) (simp add: take_fd_def)
  next
    case (Some f)
    from stream_os_close [OF assms, of f w] obtain x where
      x: "grid_closefd os f w = Some (w\<lparr>sy_os := x\<rparr>)" "rd x = rd (sy_os w)" "wr x = wr (sy_os w)" by blast
    show ?thesis
    proof (cases "us_pfd (usk w i)")
      case True
      with Some show ?thesis
        by (intro exI [of _ False] exI [of _ fd] exI [of _ "sy_os w"]) (simp add: take_fd_def upd_us_def)
    next
      case False
      with Some x same [of x] show ?thesis
        by (intro exI [of _ "us_pfd (usk w i)"] exI [of _ "us_fd (usk w i)"] exI [of _ x]) (simp add: take_fd_def)
    qed
  qed
qed

text \<open>
  A step of receiving: what is appended to the user's buffer is what comes off the stream; after
  an error nothing is promised.
\<close>

definition us_took :: "'m usock \<Rightarrow> 'm usock \<Rightarrow> 'm usock" where
  "us_took v u = u\<lparr>us_pfd := us_pfd v, us_fd := us_fd v, us_batch := us_batch v, us_pos := us_pos v\<rparr>"

text \<open>The same by cases, with the request to the operating system already made.\<close>

definition recv_result ::
  "'o os_calls \<Rightarrow> nat \<Rightarrow> bytes \<Rightarrow> nat \<Rightarrow> (errno + bytes \<times> int option) \<Rightarrow> ('m, 'o) usock_sys
     \<Rightarrow> ((errno + bytes) \<times> ('m, 'o) usock_sys) option" where
  "recv_result os i got n1 r w =
     (case r of
        Inl e \<Rightarrow>
          if e \<noteq> EAGAIN then Some (Inl ECONNRESET, w)
          else Some (Inr got, if n1 > GRID_USOCK_BATCH_SIZE then w
                              else upd_us i (\<lambda>u. u\<lparr>us_batch := [], us_pos := 0\<rparr>) w)
      | Inr (bs, fd) \<Rightarrow>
          if bs = [] then Some (Inl ECONNRESET, w)
          else do {
            w3 \<leftarrow> take_fd os i fd w;
            if n1 > GRID_USOCK_BATCH_SIZE then Some (Inr (got @ bs), w3)
            else let m = min (length bs) n1
                 in Some (Inr (got @ take m bs), upd_us i (\<lambda>u. u\<lparr>us_batch := bs, us_pos := m\<rparr>) w3) })"

lemma recv_raw_cases:
  fixes w :: "('m, 'o) usock_sys" and os :: "'o os_calls" and i n :: nat
  defines "u \<equiv> usk w i"
  defines "sz \<equiv> min (length (us_batch u) - us_pos u) n"
  defines "got \<equiv> take sz (drop (us_pos u) (us_batch u))"
  defines "w1 \<equiv> upd_us i (\<lambda>u. u\<lparr>us_pos := us_pos u + sz\<rparr>) w"
  defines "r \<equiv> os_recvmsg os (us_s u) (if n - sz > GRID_USOCK_BATCH_SIZE then n - sz else GRID_USOCK_BATCH_SIZE) (sy_os w)"
  shows "grid_usock_recv_raw os i n w =
     (if length (us_batch u) - us_pos u \<noteq> 0 \<and> n - sz = 0 then Some (Inr got, w1)
      else recv_result os i got (n - sz) (fst r) (w1\<lparr>sy_os := snd r\<rparr>))"
  unfolding grid_usock_recv_raw_def recv_result_def Let_def sys_call_eq assms by (simp only: prod.case usock_simps(2))

lemma recv_result_ok:
  assumes "stream_os os s rd wr" and "os_recvmsg os s (if n1 > GRID_USOCK_BATCH_SIZE then n1 else GRID_USOCK_BATCH_SIZE) x0 = (r, sy_os w)"
    and "us_pos (usk w i) \<le> length (us_batch (usk w i))"
    and "n1 > 0 \<Longrightarrow> us_pos (usk w i) = length (us_batch (usk w i))"
    and "n1 = 0 \<Longrightarrow> us_pos (usk w i) = length (us_batch (usk w i))"
  shows "\<exists>q v x. recv_result os i got n1 r w = Some (q, upd_us i (us_took v) (w\<lparr>sy_os := x\<rparr>))
    \<and> us_pos v \<le> length (us_batch v) \<and> wr x = wr x0
    \<and> (case q of
         Inl e \<Rightarrow> e = ECONNRESET
       | Inr bs \<Rightarrow> length bs \<le> length got + n1 \<and> got @ rd x0 = bs @ drop (us_pos v) (us_batch v) @ rd x)"
proof (cases r)
  case (Inl e)
  have x: "rd (sy_os w) = rd x0" "wr (sy_os w) = wr x0"
    using stream_os_recv(2) [OF assms(1)] assms(2) Inl by simp_all
  have same: "upd_us i (us_took (usk w i)) w = w" by (rule upd_us_same) (simp add: us_took_def)
  have batch: "upd_us i (us_took ((usk w i)\<lparr>us_batch := [], us_pos := 0\<rparr>)) w = upd_us i (\<lambda>u. u\<lparr>us_batch := [], us_pos := 0\<rparr>) w"
    by (simp add: upd_us_def us_took_def usk_def)
  have pos: "drop (us_pos (usk w i)) (us_batch (usk w i)) = []" using assms(4,5) by (cases n1) auto
  show ?thesis
  proof (cases "e = EAGAIN \<and> n1 \<le> GRID_USOCK_BATCH_SIZE")
    case True
    then show ?thesis using Inl x
      by (intro exI [of _ "Inr got"] exI [of _ "(usk w i)\<lparr>us_batch := [], us_pos := 0\<rparr>"] exI [of _ "sy_os w"])
        (simp add: recv_result_def batch)
  next
    case False
    then show ?thesis using Inl x assms(3) pos
      by (intro exI [of _ "if e = EAGAIN then Inr got else Inl ECONNRESET"] exI [of _ "usk w i"] exI [of _ "sy_os w"])
        (auto simp: recv_result_def same)
  qed
next
  case (Inr p)
  obtain bs fd where p: "p = (bs, fd)" by fastforce
  have x: "rd x0 = bs @ rd (sy_os w)" "wr (sy_os w) = wr x0"
    "length bs \<le> (if n1 > GRID_USOCK_BATCH_SIZE then n1 else GRID_USOCK_BATCH_SIZE)"
    using stream_os_recv(1) [OF assms(1)] assms(2) Inr p by simp_all
  have pos: "drop (us_pos (usk w i)) (us_batch (usk w i)) = []" using assms(4,5) by (cases n1) auto
  show ?thesis
  proof (cases "bs = []")
    case True
    have same: "upd_us i (us_took (usk w i)) w = w" by (rule upd_us_same) (simp add: us_took_def)
    with True show ?thesis using Inr p x assms(3)
      by (intro exI [of _ "Inl ECONNRESET"] exI [of _ "usk w i"] exI [of _ "sy_os w"]) (simp add: recv_result_def)
  next
    case False
    from take_fd_ok [OF assms(1), of i fd w] obtain b f y where
      t: "take_fd os i fd w = Some (upd_us i (\<lambda>u. u\<lparr>us_pfd := b, us_fd := f\<rparr>) (w\<lparr>sy_os := y\<rparr>))"
      "rd y = rd (sy_os w)" "wr y = wr (sy_os w)" by blast
    let ?m = "min (length bs) n1"
    let ?direct = "n1 > GRID_USOCK_BATCH_SIZE"
    define v where "v = (if ?direct then (usk w i)\<lparr>us_pfd := b, us_fd := f\<rparr>
      else (usk w i)\<lparr>us_pfd := b, us_fd := f, us_batch := bs, us_pos := ?m\<rparr>)"
    have v: "upd_us i (us_took v) (w\<lparr>sy_os := y\<rparr>) = (if ?direct then upd_us i (\<lambda>u. u\<lparr>us_pfd := b, us_fd := f\<rparr>) (w\<lparr>sy_os := y\<rparr>)
      else upd_us i (\<lambda>u. u\<lparr>us_batch := bs, us_pos := ?m\<rparr>) (upd_us i (\<lambda>u. u\<lparr>us_pfd := b, us_fd := f\<rparr>) (w\<lparr>sy_os := y\<rparr>)))"
      by (simp add: v_def upd_us_def us_took_def usk_def)
    show ?thesis
      using Inr p False t x pos assms(3)
      by (intro exI [of _ "Inr (got @ (if ?direct then bs else take ?m bs))"] exI [of _ v] exI [of _ y])
        (auto simp: recv_result_def v Let_def, auto simp: v_def)
  qed
qed

lemma recv_raw_ok:
  assumes "stream_os os s rd wr" and "us_s (usk w i) = s" and "us_pos (usk w i) \<le> length (us_batch (usk w i))"
  shows "\<exists>q v x. grid_usock_recv_raw os i n w = Some (q, upd_us i (us_took v) (w\<lparr>sy_os := x\<rparr>))
    \<and> us_pos v \<le> length (us_batch v) \<and> wr x = wr (sy_os w)
    \<and> (case q of
         Inl e \<Rightarrow> e = ECONNRESET
       | Inr bs \<Rightarrow> length bs \<le> n \<and> us_pending rd i w = bs @ drop (us_pos v) (us_batch v) @ rd x)"
proof -
  define u where "u = usk w i"
  define sz where "sz = min (length (us_batch u) - us_pos u) n"
  define got where "got = take sz (drop (us_pos u) (us_batch u))"
  define w1 where "w1 = upd_us i (\<lambda>u. u\<lparr>us_pos := us_pos u + sz\<rparr>) w"
  let ?len = "if n - sz > GRID_USOCK_BATCH_SIZE then n - sz else GRID_USOCK_BATCH_SIZE"
  obtain r x where c: "os_recvmsg os (us_s u) ?len (sy_os w) = (r, x)" by fastforce
  have u: "us_pos u \<le> length (us_batch u)" "us_s u = s" using assms(2,3) u_def by simp_all
  have sz: "sz \<le> n" "us_pos u + sz \<le> length (us_batch u)" using u(1) by (auto simp: sz_def)
  have got: "length got = sz" "drop (us_pos u) (us_batch u) = got @ drop (us_pos u + sz) (us_batch u)"
    using sz(2) by (simp add: got_def) (metis append_take_drop_id drop_drop add.commute got_def)
  have took: "upd_us i (us_took (u\<lparr>us_pos := us_pos u + sz\<rparr>)) w = w1"
    by (simp add: w1_def u_def upd_us_def us_took_def usk_def)
  show ?thesis
  proof (cases "length (us_batch u) - us_pos u \<noteq> 0 \<and> n - sz = 0")
    case True
    then have "grid_usock_recv_raw os i n w = Some (Inr got, w1)"
      unfolding recv_raw_cases u_def [symmetric] sz_def [symmetric] got_def [symmetric] w1_def [symmetric] by simp
    with took got sz show ?thesis
      by (intro exI [of _ "Inr got"] exI [of _ "u\<lparr>us_pos := us_pos u + sz\<rparr>"] exI [of _ "sy_os w"])
        (simp add: us_pending_def u_def)
  next
    case False
    then have full: "us_pos u + sz = length (us_batch u)" using u(1) by (auto simp: sz_def)
    have run: "grid_usock_recv_raw os i n w = recv_result os i got (n - sz) r (w1\<lparr>sy_os := x\<rparr>)"
      unfolding recv_raw_cases u_def [symmetric] sz_def [symmetric] got_def [symmetric] w1_def [symmetric] c fst_conv snd_conv
      by (simp only: False if_False)
    have w1: "us_pos (usk (w1\<lparr>sy_os := x\<rparr>) i) = length (us_batch (usk (w1\<lparr>sy_os := x\<rparr>) i))"
      using full by (simp add: w1_def u_def)
    have c2: "os_recvmsg os s ?len (sy_os w) = (r, sy_os (w1\<lparr>sy_os := x\<rparr>))" using c u(2) by simp
    from recv_result_ok [OF assms(1) c2, of i got] w1 obtain q v y where
      q: "recv_result os i got (n - sz) r (w1\<lparr>sy_os := x\<rparr>) = Some (q, upd_us i (us_took v) (w1\<lparr>sy_os := y\<rparr>))"
      "us_pos v \<le> length (us_batch v)" "wr y = wr (sy_os w)"
      "case q of Inl e \<Rightarrow> e = ECONNRESET
       | Inr bs \<Rightarrow> length bs \<le> length got + (n - sz) \<and> got @ rd (sy_os w) = bs @ drop (us_pos v) (us_batch v) @ rd y"
      by auto
    have "upd_us i (us_took v) (w1\<lparr>sy_os := y\<rparr>) = upd_us i (us_took v) (w\<lparr>sy_os := y\<rparr>)"
      by (simp add: w1_def upd_us_def us_took_def usk_def)
    moreover have "us_pending rd i w = got @ rd (sy_os w)"
      using got(2) full by (simp add: us_pending_def u_def [symmetric])
    ultimately show ?thesis using q run got(1) sz(1)
      by (intro exI [of _ q] exI [of _ v] exI [of _ y]) (auto split: sum.splits)
  qed
qed

section \<open>Operations of a connected usock\<close>

definition us_connected :: "int \<Rightarrow> 'm usock \<Rightarrow> bool" where
  "us_connected s u \<longleftrightarrow> us_fsm u = FSM_ACTIVE \<and> us_state u = US_ACTIVE \<and> us_s u = s
     \<and> us_pos u \<le> length (us_batch u) \<and> distinct (us_tasks u)
     \<and> set (us_tasks u) \<subseteq> {TASK_CONNECTED, TASK_SEND, TASK_RECV}"

text \<open>What an error does: found by the user's call, and found by the worker.\<close>

definition us_break :: "'m usock \<Rightarrow> 'm usock" where
  "us_break u = u\<lparr>us_state := US_REMOVING_FD, us_tasks := us_tasks u @ [TASK_STOP],
     us_events := us_events u @ [(OB_ERROR, us_owner u, GRID_USOCK_SHUTDOWN)]\<rparr>"

definition us_failed :: "'m usock \<Rightarrow> 'm usock" where
  "us_failed u = u\<lparr>us_polled := False, us_s := -1, us_state := US_DONE,
     us_events := us_events u @ [(OB_ERROR, us_owner u, GRID_USOCK_ERROR)]\<rparr>"

lemma usock_breaks:
  assumes "us_connected s (usk w i)" and "us_events (usk w i) = []"
  shows "usock_do_action os i UA_ERROR w = Some (upd_us i us_break w)"
  using assms
  by (auto simp: usock_do_action_def us_connected_def usock_run_action_def grid_usock_async_stop_def us_op_defs us_break_def [abs_def])

lemma usock_fails:
  assumes "stream_os os s rd wr" and "us_events (usk w i) = []"
  shows "\<exists>x. usock_fail os i w = Some (upd_us i us_failed (w\<lparr>sy_os := x\<rparr>)) \<and> rd x = rd (sy_os w) \<and> wr x = wr (sy_os w)"
proof -
  from stream_os_close [OF assms(1), of "us_s (usk w i)" "us_rm_fd i w"] obtain x where
    x: "grid_closefd os (us_s (usk w i)) (us_rm_fd i w) = Some ((us_rm_fd i w)\<lparr>sy_os := x\<rparr>)"
    "rd x = rd (sy_os (us_rm_fd i w))" "wr x = wr (sy_os (us_rm_fd i w))" by blast
  then show ?thesis using assms(2)
    by (intro exI [of _ x]) (simp add: usock_fail_def us_close_error_def us_op_defs us_failed_def [abs_def])
qed

lemma usock_send_ok:
  assumes "stream_os os s rd wr" and "us_connected s (usk w i)" and "us_events (usk w i) = []"
    and "TASK_SEND \<notin> set (us_tasks (usk w i))" and "length bufs \<le> GRID_USOCK_MAX_IOVCNT"
  shows "\<exists>iov x f. grid_usock_send os i bufs w = Some (upd_us i (\<lambda>u. f (u\<lparr>us_iov := iov\<rparr>)) (w\<lparr>sy_os := x\<rparr>))
    \<and> rd x = rd (sy_os w) \<and> wr x @ concat iov = wr (sy_os w) @ concat bufs \<and> [] \<notin> set iov
    \<and> (iov = [] \<and> f = (\<lambda>u. u\<lparr>us_events := us_events u @ [(OB_SENT, us_owner u, GRID_USOCK_SENT)]\<rparr>)
       \<or> iov \<noteq> [] \<and> f = (\<lambda>u. u\<lparr>us_tasks := us_tasks u @ [TASK_SEND]\<rparr>) \<or> f = us_break)"
proof -
  let ?iov = "filter (\<lambda>b. b \<noteq> []) bufs"
  let ?w = "upd_us i (\<lambda>u. u\<lparr>us_iov := ?iov\<rparr>) w"
  have c: "concat ?iov = concat bufs" by (induction bufs) auto
  from send_raw_ok [OF assms(1), of ?w i] assms(2) obtain r iov x where
    r: "grid_usock_send_raw os i ?w = Some (r, upd_us i (\<lambda>u. u\<lparr>us_iov := iov\<rparr>) (?w\<lparr>sy_os := x\<rparr>))"
    "rd x = rd (sy_os w)" "wr x @ concat iov = wr (sy_os w) @ concat bufs" "[] \<notin> set iov"
    "r = Inr () \<and> iov = [] \<or> r = Inl EAGAIN \<and> iov \<noteq> [] \<or> r = Inl ECONNRESET"
    by (auto simp: us_connected_def c)
  have e: "upd_us i (\<lambda>u. u\<lparr>us_iov := iov\<rparr>) (?w\<lparr>sy_os := x\<rparr>) = upd_us i (\<lambda>u. u\<lparr>us_iov := iov\<rparr>) (w\<lparr>sy_os := x\<rparr>)"
    by simp
  have run: "grid_usock_send os i bufs w = (case r of
       Inr v \<Rightarrow> us_raise i OB_SENT GRID_USOCK_SENT (upd_us i (\<lambda>u. u\<lparr>us_iov := iov\<rparr>) (w\<lparr>sy_os := x\<rparr>))
     | Inl e \<Rightarrow> if e \<noteq> EAGAIN then do { guard (e = ECONNRESET);
           usock_do_action os i UA_ERROR (upd_us i (\<lambda>u. u\<lparr>us_iov := iov\<rparr>) (w\<lparr>sy_os := x\<rparr>)) }
         else us_execute i TASK_SEND (upd_us i (\<lambda>u. u\<lparr>us_iov := iov\<rparr>) (w\<lparr>sy_os := x\<rparr>)))"
    using r(1) assms(2,5) unfolding e grid_usock_send_def by (simp add: us_connected_def)
  have b: "usock_do_action os i UA_ERROR (upd_us i (\<lambda>u. u\<lparr>us_iov := iov\<rparr>) (w\<lparr>sy_os := x\<rparr>))
      = Some (upd_us i us_break (upd_us i (\<lambda>u. u\<lparr>us_iov := iov\<rparr>) (w\<lparr>sy_os := x\<rparr>)))"
    using assms(2,3) by (intro usock_breaks [of s]) (simp_all add: us_connected_def)
  from r(5) show ?thesis
  proof (elim disjE)
    assume "r = Inr () \<and> iov = []"
    with run r assms(3) show ?thesis
      by (intro exI [of _ iov] exI [of _ x] exI [of _ "\<lambda>u. u\<lparr>us_events := us_events u @ [(OB_SENT, us_owner u, GRID_USOCK_SENT)]\<rparr>"])
        (simp add: us_op_defs)
  next
    assume "r = Inl EAGAIN \<and> iov \<noteq> []"
    with run r assms(4) show ?thesis
      by (intro exI [of _ iov] exI [of _ x] exI [of _ "\<lambda>u. u\<lparr>us_tasks := us_tasks u @ [TASK_SEND]\<rparr>"])
        (simp add: us_op_defs)
  next
    assume "r = Inl ECONNRESET"
    with run r b show ?thesis
      by (intro exI [of _ iov] exI [of _ x] exI [of _ us_break]) simp
  qed
qed

lemma usock_recv_ok:
  assumes "stream_os os s rd wr" and "us_connected s (usk w i)" and "us_events (usk w i) = []"
    and "TASK_RECV \<notin> set (us_tasks (usk w i))" and "us_len (usk w i) = 0" and "0 < n"
  shows "\<exists>v x bs f. grid_usock_recv os i n b w = Some (upd_us i (\<lambda>u. f ((us_took v u)\<lparr>us_buf := bs\<rparr>)) (w\<lparr>sy_os := x\<rparr>))
    \<and> wr x = wr (sy_os w) \<and> us_pos v \<le> length (us_batch v)
    \<and> (f = us_break \<or> us_pending rd i w = bs @ drop (us_pos v) (us_batch v) @ rd x
        \<and> (length bs = n \<and> f = (\<lambda>u. u\<lparr>us_events := us_events u @ [(OB_RECEIVED, us_owner u, GRID_USOCK_RECEIVED)]\<rparr>)
           \<or> length bs < n \<and> f = (\<lambda>u. u\<lparr>us_len := n - length bs, us_tasks := us_tasks u @ [TASK_RECV]\<rparr>)))"
proof -
  let ?w = "upd_us i (\<lambda>u. u\<lparr>us_pfd := b\<rparr>) w"
  have "us_s (usk ?w i) = s" "us_pos (usk ?w i) \<le> length (us_batch (usk ?w i))" using assms(2) by (simp_all add: us_connected_def)
  have p: "us_pending rd i w = us_pending rd i ?w" "sy_os w = sy_os ?w" by (simp_all add: us_pending_def)
  from recv_raw_ok [OF assms(1) \<open>us_s (usk ?w i) = s\<close> \<open>us_pos (usk ?w i) \<le> length (us_batch (usk ?w i))\<close>, of n] obtain q v x where
    q: "grid_usock_recv_raw os i n ?w = Some (q, upd_us i (us_took v) (?w\<lparr>sy_os := x\<rparr>))"
    "us_pos v \<le> length (us_batch v)" "wr x = wr (sy_os w)"
    "case q of Inl e \<Rightarrow> e = ECONNRESET
       | Inr bs \<Rightarrow> length bs \<le> n \<and> us_pending rd i w = bs @ drop (us_pos v) (us_batch v) @ rd x"
    unfolding p by blast
  have e: "upd_us i (us_took v) (?w\<lparr>sy_os := x\<rparr>) = upd_us i (us_took v) (w\<lparr>sy_os := x\<rparr>)"
    by (simp add: us_took_def [abs_def])
  show ?thesis
  proof (cases q)
    case (Inl er)
    have "usock_do_action os i UA_ERROR (upd_us i (us_took v) (w\<lparr>sy_os := x\<rparr>))
        = Some (upd_us i us_break (upd_us i (us_took v) (w\<lparr>sy_os := x\<rparr>)))"
      using assms(2,3) q(2) by (intro usock_breaks [of s]) (simp_all add: us_connected_def us_took_def [abs_def])
    with Inl q e assms(2) have "grid_usock_recv os i n b w = Some (upd_us i (\<lambda>u. us_break (us_took v u)) (w\<lparr>sy_os := x\<rparr>))"
      by (simp add: grid_usock_recv_def us_connected_def)
    also have "upd_us i (\<lambda>u. us_break (us_took v u)) (w\<lparr>sy_os := x\<rparr>)
        = upd_us i (\<lambda>u. us_break ((us_took v u)\<lparr>us_buf := us_buf (usk w i)\<rparr>)) (w\<lparr>sy_os := x\<rparr>)"
      by (simp add: upd_us_def usk_def us_took_def)
    finally show ?thesis using q(2,3) by blast
  next
    case (Inr bs)
    show ?thesis
    proof (cases "length bs = n")
      case True
      with Inr q e assms(2,3) show ?thesis
        by (intro exI [of _ v] exI [of _ x] exI [of _ bs] exI [of _ "\<lambda>u. u\<lparr>us_events := us_events u @ [(OB_RECEIVED, us_owner u, GRID_USOCK_RECEIVED)]\<rparr>"])
          (simp add: grid_usock_recv_def us_connected_def us_op_defs us_took_def [abs_def])
    next
      case False
      with Inr q e assms(2-4) show ?thesis
        by (intro exI [of _ v] exI [of _ x] exI [of _ bs] exI [of _ "\<lambda>u. u\<lparr>us_len := n - length bs, us_tasks := us_tasks u @ [TASK_RECV]\<rparr>"])
          (simp add: grid_usock_recv_def us_connected_def us_op_defs us_took_def [abs_def])
    qed
  qed
qed

text \<open>Events of the file descriptor.\<close>

lemma feed_fd: "us_connected s (usk w i) \<Longrightarrow> usock_feed os i (UsFd ev) w = usock_active_fd os i ev w"
  by (simp add: usock_feed_def grid_usock_handler_def grid_internal_tasks_def us_connected_def)

lemma usock_fd_out_ok:
  assumes "stream_os os s rd wr" and "us_connected s (usk w i)" and "us_events (usk w i) = []" and "[] \<notin> set (us_iov (usk w i))"
  shows "\<exists>iov x f. usock_feed os i (UsFd FD_OUT) w = Some (upd_us i (\<lambda>u. f (u\<lparr>us_iov := iov\<rparr>)) (w\<lparr>sy_os := x\<rparr>))
    \<and> rd x = rd (sy_os w) \<and> wr x @ concat iov = wr (sy_os w) @ concat (us_iov (usk w i)) \<and> [] \<notin> set iov
    \<and> (iov = [] \<and> f = (\<lambda>u. u\<lparr>us_pollout := False, us_events := us_events u @ [(OB_SENT, us_owner u, GRID_USOCK_SENT)]\<rparr>)
       \<or> iov \<noteq> [] \<and> f = (\<lambda>u. u) \<or> f = us_failed)"
proof -
  have "us_s (usk w i) = s" using assms(2) by (simp add: us_connected_def)
  from send_raw_ok [OF assms(1) this assms(4)] obtain r iov x where
    r: "grid_usock_send_raw os i w = Some (r, upd_us i (\<lambda>u. u\<lparr>us_iov := iov\<rparr>) (w\<lparr>sy_os := x\<rparr>))"
    "rd x = rd (sy_os w)" "wr x @ concat iov = wr (sy_os w) @ concat (us_iov (usk w i))" "[] \<notin> set iov"
    "r = Inr () \<and> iov = [] \<or> r = Inl EAGAIN \<and> iov \<noteq> [] \<or> r = Inl ECONNRESET" by blast
  let ?w = "upd_us i (\<lambda>u. u\<lparr>us_iov := iov\<rparr>) (w\<lparr>sy_os := x\<rparr>)"
  note run = feed_fd [OF assms(2), of os FD_OUT] usock_active_fd_def
  from r(5) show ?thesis
  proof (elim disjE)
    assume "r = Inr () \<and> iov = []"
    with r assms(3) show ?thesis
      by (intro exI [of _ iov] exI [of _ x]
          exI [of _ "\<lambda>u. u\<lparr>us_pollout := False, us_events := us_events u @ [(OB_SENT, us_owner u, GRID_USOCK_SENT)]\<rparr>"])
        (simp add: run us_op_defs)
  next
    assume "r = Inl EAGAIN \<and> iov \<noteq> []"
    with r show ?thesis by (intro exI [of _ iov] exI [of _ x] exI [of _ "\<lambda>u. u"]) (simp add: run)
  next
    assume e: "r = Inl ECONNRESET"
    have "us_events (usk ?w i) = []" using assms(3) by simp
    from usock_fails [OF assms(1) this] obtain y where
      y: "usock_fail os i ?w = Some (upd_us i us_failed (?w\<lparr>sy_os := y\<rparr>))" "rd y = rd x" "wr y = wr x" by auto
    with e r show ?thesis by (intro exI [of _ iov] exI [of _ y] exI [of _ us_failed]) (simp add: run)
  qed
qed

lemma usock_fd_in_ok:
  assumes "stream_os os s rd wr" and "us_connected s (usk w i)" and "us_events (usk w i) = []" and "0 < us_len (usk w i)"
  shows "\<exists>v x bs f. usock_feed os i (UsFd FD_IN) w
      = Some (upd_us i (\<lambda>u. f ((us_took v u)\<lparr>us_buf := us_buf u @ bs, us_len := us_len u - length bs\<rparr>)) (w\<lparr>sy_os := x\<rparr>))
    \<and> wr x = wr (sy_os w) \<and> us_pos v \<le> length (us_batch v)
    \<and> (f = us_failed \<or> us_pending rd i w = bs @ drop (us_pos v) (us_batch v) @ rd x \<and> length bs \<le> us_len (usk w i)
        \<and> (length bs = us_len (usk w i)
             \<and> f = (\<lambda>u. u\<lparr>us_pollin := False, us_events := us_events u @ [(OB_RECEIVED, us_owner u, GRID_USOCK_RECEIVED)]\<rparr>)
           \<or> length bs < us_len (usk w i) \<and> f = (\<lambda>u. u)))"
proof -
  have "us_s (usk w i) = s" "us_pos (usk w i) \<le> length (us_batch (usk w i))" using assms(2) by (simp_all add: us_connected_def)
  from recv_raw_ok [OF assms(1) this, of "us_len (usk w i)"] obtain q v x where
    q: "grid_usock_recv_raw os i (us_len (usk w i)) w = Some (q, upd_us i (us_took v) (w\<lparr>sy_os := x\<rparr>))"
    "us_pos v \<le> length (us_batch v)" "wr x = wr (sy_os w)"
    "case q of Inl e \<Rightarrow> e = ECONNRESET
       | Inr bs \<Rightarrow> length bs \<le> us_len (usk w i) \<and> us_pending rd i w = bs @ drop (us_pos v) (us_batch v) @ rd x" by blast
  note run = feed_fd [OF assms(2), of os FD_IN] usock_active_fd_def
  show ?thesis
  proof (cases q)
    case (Inl er)
    let ?w = "upd_us i (us_took v) (w\<lparr>sy_os := x\<rparr>)"
    have "us_events (usk ?w i) = []" using assms(3) by (simp add: us_took_def)
    from usock_fails [OF assms(1) this] obtain y where
      y: "usock_fail os i ?w = Some (upd_us i us_failed (?w\<lparr>sy_os := y\<rparr>))" "rd y = rd x" "wr y = wr x" by auto
    have "(us_took v u)\<lparr>us_buf := us_buf u @ [], us_len := us_len u - length ([] :: bytes)\<rparr> = us_took v u" for u :: "'b usock"
      by (simp add: us_took_def)
    with Inl q y show ?thesis
      by (intro exI [of _ v] exI [of _ y] exI [of _ "[]"] exI [of _ us_failed]) (simp add: run)
  next
    case (Inr bs)
    show ?thesis
    proof (cases "length bs = us_len (usk w i)")
      case True
      with Inr q assms(3) show ?thesis
        by (intro exI [of _ v] exI [of _ x] exI [of _ bs]
            exI [of _ "\<lambda>u. u\<lparr>us_pollin := False, us_events := us_events u @ [(OB_RECEIVED, us_owner u, GRID_USOCK_RECEIVED)]\<rparr>"])
          (simp add: run us_op_defs us_took_def [abs_def] Let_def)
    next
      case False
      with Inr q assms(3) show ?thesis
        by (intro exI [of _ v] exI [of _ x] exI [of _ bs] exI [of _ "\<lambda>u. u"])
          (simp add: run us_op_defs us_took_def [abs_def] Let_def)
    qed
  qed
qed

lemma usock_fd_err_ok:
  assumes "stream_os os s rd wr" and "us_connected s (usk w i)" and "us_events (usk w i) = []"
  shows "\<exists>x. usock_feed os i (UsFd FD_ERR) w = Some (upd_us i us_failed (w\<lparr>sy_os := x\<rparr>)) \<and> rd x = rd (sy_os w) \<and> wr x = wr (sy_os w)"
  using usock_fails [OF assms(1,3)] feed_fd [OF assms(2), of os FD_ERR] by (simp add: usock_active_fd_def)

end
