(* ===== verification/StcpStream.thy ===== *)
theory StcpStream
  imports Stcp UsockStream
begin

text \<open>
  The messages of a stream session. The locale \<open>framing\<close> says what sending and receiving rely
  on of the header of a message: it has a fixed length, every length of a message has one, and
  a header that is accepted is the header of the length that is read from it. Both session types
  interpret it. \<open>sess_inv\<close> relates an established session, its pipe and its usock to the
  messages that were sent and received and to the bytes on the wire.
\<close>

section \<open>Headers of messages\<close>

lemma bytes_of_word64:
  fixes b0 b1 b2 b3 b4 b5 b6 b7 :: u8
  defines "v \<equiv> (push_bit 56 (ucast b0) OR push_bit 48 (ucast b1) OR push_bit 40 (ucast b2) OR push_bit 32 (ucast b3)
    OR push_bit 24 (ucast b4) OR push_bit 16 (ucast b5) OR push_bit 8 (ucast b6) OR ucast b7 :: u64)"
  shows "ucast (drop_bit 56 v) = b0" "ucast (drop_bit 48 v) = b1" "ucast (drop_bit 40 v) = b2" "ucast (drop_bit 32 v) = b3"
    "ucast (drop_bit 24 v) = b4" "ucast (drop_bit 16 v) = b5" "ucast (drop_bit 8 v) = b6" "ucast v = b7"
  unfolding v_def by (rule bit_word_eqI, auto simp: bit_simps dest: bit_imp_le_length)+

lemma grid_putll_getll: "grid_getll buf = Some v \<Longrightarrow> grid_putll (replicate 8 0) v = Some (take 8 buf)"
proof -
  assume a: "grid_getll buf = Some v"
  then have "8 \<le> length buf" by (cases buf rule: grid_getll.cases) simp_all
  then obtain b0 b1 b2 b3 b4 b5 b6 b7 ys where b: "buf = b0 # b1 # b2 # b3 # b4 # b5 # b6 # b7 # ys"
    using list_ge8_cases by blast
  with a have v: "v = push_bit 56 (ucast b0) OR push_bit 48 (ucast b1) OR push_bit 40 (ucast b2) OR push_bit 32 (ucast b3)
    OR push_bit 24 (ucast b4) OR push_bit 16 (ucast b5) OR push_bit 8 (ucast b6) OR ucast b7" by simp
  show ?thesis
    using bytes_of_word64 [of b0 b1 b2 b3 b4 b5 b6 b7, folded v] by (simp add: grid_putll_def b eval_nat_numeral)
qed

locale framing =
  fixes hdrlen :: nat
    and header :: "nat \<Rightarrow> bytes option"
    and check :: "int \<Rightarrow> bytes \<Rightarrow> u64 option option"
  assumes hdrlen_pos: "0 < hdrlen"
    and header_defined: "\<exists>h. header n = Some h \<and> length h = hdrlen"
    and check_header: "length h = hdrlen \<Longrightarrow> check opt h = Some (Some v) \<Longrightarrow> header (unat v) = Some h"
    and header_unique: "n < 2 ^ 64 \<Longrightarrow> m < 2 ^ 64 \<Longrightarrow> header n = header m \<Longrightarrow> n = m"
begin

definition frame :: "bytes \<Rightarrow> bytes" where
  "frame bs = the (header (length bs)) @ bs"

lemma frame_header: "header (length bs) = Some h \<Longrightarrow> frame bs = h @ bs \<and> length h = hdrlen"
  using header_defined [of "length bs"] by (auto simp: frame_def)

text \<open>The frames are a prefix code: a stream of them can be cut in one way only.\<close>

lemma frames_prefix:
  assumes "prefix (concat (map frame as)) (concat (map frame bs))"
    and "list_all (\<lambda>x. length x < 2 ^ 64) as" and "list_all (\<lambda>x. length x < 2 ^ 64) bs"
  shows "prefix as bs"
  using assms
proof (induction as arbitrary: bs)
  case (Cons a as)
  obtain h where h: "header (length a) = Some h" "length h = hdrlen" using header_defined by blast
  show ?case
  proof (cases bs)
    case Nil
    with Cons(2) h hdrlen_pos show ?thesis by (auto simp: frame_def)
  next
    case (Cons b bs')
    obtain g where g: "header (length b) = Some g" "length g = hdrlen" using header_defined by blast
    have f: "frame a = h @ a" "frame b = g @ b" using h g by (simp_all add: frame_def)
    from Cons.prems(1) obtain z where z: "g @ b @ concat (map frame bs') = h @ a @ concat (map frame as) @ z"
      by (auto simp: Cons f prefix_def)
    then have hg: "g = h" "b @ concat (map frame bs') = a @ concat (map frame as) @ z"
      using h(2) g(2) by simp_all
    with h g have "length a = length b" using header_unique Cons.prems(2,3) Cons by auto
    with hg have "a = b" "concat (map frame bs') = concat (map frame as) @ z" by simp_all
    with Cons.IH [of bs'] Cons.prems(2,3) Cons show ?thesis by (auto simp: prefix_def)
  qed
qed simp

end

lemma size_bytes64_defined: "\<exists>h. size_bytes64 n = Some h \<and> length h = 8"
  using grid_putll_frame [of "replicate 8 0" "of_nat n"] by (auto simp: size_bytes64_def grid_putll_def)

lemma size_bytes64_unique: "n < 2 ^ 64 \<Longrightarrow> m < 2 ^ 64 \<Longrightarrow> size_bytes64 n = size_bytes64 m \<Longrightarrow> n = m"
proof -
  assume a: "n < 2 ^ 64" "m < 2 ^ 64" "size_bytes64 n = size_bytes64 m"
  obtain h where "size_bytes64 n = Some h" using size_bytes64_defined by blast
  with a(3) have "grid_getll h = Some (of_nat n)" "grid_getll h = Some (of_nat m)"
    by (auto simp: size_bytes64_def dest: grid_getll_putll)
  then have "unat (of_nat n :: u64) = unat (of_nat m :: u64)" by simp
  then have "take_bit 64 n = take_bit 64 m" by (simp add: unsigned_of_nat)
  moreover have "take_bit 64 n = n" "take_bit 64 m = m" using a(1,2) by (simp_all only: take_bit_nat_eq_self_iff)
  ultimately show ?thesis by simp
qed

lemma size_bytes64_getll: "length h = 8 \<Longrightarrow> grid_getll h = Some v \<Longrightarrow> size_bytes64 (unat v) = Some h"
  using grid_putll_getll [of h v] by (simp add: size_bytes64_def)

interpretation stcp: framing 8 stcp_header stcp_check_header
proof (unfold_locales, goal_cases)
  case 2
  show ?case using size_bytes64_defined by (simp add: stcp_header_def)
next
  case (3 h opt v)
  then show ?case by (auto simp: stcp_header_def stcp_check_header_def size_bytes64_getll split: if_splits bind_splits)
next
  case (4 n m)
  then show ?case using size_bytes64_unique by (simp add: stcp_header_def)
qed simp

interpretation sipc: framing 9 sipc_header sipc_check_header
proof (unfold_locales, goal_cases)
  case (2 n)
  show ?case using size_bytes64_defined [of n] by (auto simp: sipc_header_def)
next
  case (3 h opt v)
  then obtain t where "h = GRID_SIPC_MSG_NORMAL # t" "length t = 8"
    by (cases h) (auto simp: sipc_check_header_def split: bind_splits if_splits)
  with 3 show ?case by (auto simp: sipc_header_def sipc_check_header_def size_bytes64_getll split: bind_splits)
next
  case (4 n m)
  then show ?case using size_bytes64_unique [of n m] size_bytes64_defined [of n] size_bytes64_defined [of m]
    by (auto simp: sipc_header_def)
qed simp

lemma stcp_check_total: "length h = 8 \<Longrightarrow> stcp_check_header opt h \<noteq> None"
  by (auto simp: stcp_check_header_def dest!: list_ge8_cases [OF eq_refl [OF sym]])

section \<open>Steps of an established session\<close>

text \<open>
  What happens to session \<open>k\<close> on usock \<open>i\<close>: the worker reports the descriptor or executes a
  task, a queued event is delivered (with the socket's answers at that time), the pipe's events
  reach the socket, the socket sends or receives a message. A run is the world with the messages
  received and sent so far.
\<close>

datatype stream_label = EvFd fd_event | EvTask | EvDeliver sock_answers | EvPipe | EvSend msg | EvRecv

type_synonym 'o stream_run = "'o tcp \<times> msg list \<times> msg list"

definition stream_step ::
  "nat \<Rightarrow> (nat \<Rightarrow> bytes option) \<Rightarrow> (int \<Rightarrow> bytes \<Rightarrow> u64 option option) \<Rightarrow> 'o os_calls \<Rightarrow> nat \<Rightarrow> nat
     \<Rightarrow> stream_label \<Rightarrow> 'o stream_run \<Rightarrow> 'o stream_run option" where
  "stream_step hdrlen header check os k i lab = (\<lambda>(w, rs, ss).
     case lab of
       EvFd ev \<Rightarrow> map_option (\<lambda>w1. (w1, rs, ss)) (worker_fd_event os i ev w)
     | EvTask \<Rightarrow> map_option (\<lambda>w1. (w1, rs, ss)) (worker_usock_task os i w)
     | EvDeliver sa \<Rightarrow> map_option (\<lambda>(x, w1). (w1, rs, ss)) (deliver_usock hdrlen check os sa i w)
     | EvPipe \<Rightarrow> Some (set_base k ((ps_base w k)\<lparr>pb_in := False, pb_out := False\<rparr>) w, rs, ss)
     | EvSend m \<Rightarrow> map_option (\<lambda>(rc, w1). (w1, rs, ss @ [m])) (grid_pipe_send (stream_send header os) k m w)
     | EvRecv \<Rightarrow> map_option (\<lambda>(rc, m, w1). (w1, rs @ [m], ss)) (grid_pipe_recv (stream_recv hdrlen os) k w))"

text \<open>
  When a step can happen. The user and the worker come in only when all queued events have been
  delivered, for the context is left only then; the descriptor reports what it is polled for; a
  session that is done is only stopped.
\<close>

definition stream_enabled :: "nat \<Rightarrow> nat \<Rightarrow> stream_label \<Rightarrow> 'o stream_run \<Rightarrow> bool" where
  "stream_enabled k i lab = (\<lambda>(w, rs, ss).
     let u = usk (uss w) i; s = stc w k; b = ps_base w k
     in st_state s \<noteq> ST_DONE \<and>
        (case lab of
           EvFd ev \<Rightarrow> us_events u = [] \<and> us_polled u \<and> (ev = FD_IN \<longrightarrow> us_pollin u) \<and> (ev = FD_OUT \<longrightarrow> us_pollout u)
         | EvTask \<Rightarrow> us_events u = []
         | EvDeliver sa \<Rightarrow> us_events u \<noteq> []
         | EvPipe \<Rightarrow> True
         | EvSend m \<Rightarrow> us_events u = [] \<and> st_state s = ST_ACTIVE \<and> pb_outstate b = OUT_IDLE \<and> \<not> pb_out b
             \<and> length (sphdr m @ body m) < 2 ^ 64
         | EvRecv \<Rightarrow> us_events u = [] \<and> st_state s = ST_ACTIVE \<and> pb_instate b = IN_IDLE \<and> \<not> pb_in b))"

text \<open>A session whose header exchange is over and has given the usock back.\<close>

definition stream_ready :: "int \<Rightarrow> nat \<Rightarrow> nat \<Rightarrow> 'o tcp \<Rightarrow> bool" where
  "stream_ready fd k i w \<longleftrightarrow>
     (let u = usk (uss w) i; s = stc w k; b = ps_base w k
      in us_connected fd u \<and> us_owner u = OwnerSession k \<and> us_events u = [] \<and> us_iov u = [] \<and> us_len u = 0
         \<and> \<not> us_pollin u \<and> \<not> us_pollout u \<and> set (us_tasks u) \<subseteq> {TASK_CONNECTED}
         \<and> st_fsm s = FSM_ACTIVE \<and> st_state s = ST_STOPPING_STREAMHDR \<and> st_usock s = Some i \<and> st_done s = None
         \<and> pb_state b = PB_IDLE \<and> \<not> pb_in b \<and> \<not> pb_out b)"

text \<open>The socket takes the pipe, and then anything that can happen happens.\<close>

inductive stream_reach ::
  "nat \<Rightarrow> (nat \<Rightarrow> bytes option) \<Rightarrow> (int \<Rightarrow> bytes \<Rightarrow> u64 option option) \<Rightarrow> 'o os_calls \<Rightarrow> int \<Rightarrow> nat \<Rightarrow> nat \<Rightarrow> 'o tcp
     \<Rightarrow> 'o stream_run \<Rightarrow> bool"
  for hdrlen header check os fd k i w0 where
  reach_start: "stream_ready fd k i w0 \<Longrightarrow> stream_start_pipe hdrlen os (Inr ()) k w0 = Some w1 \<Longrightarrow>
    stream_reach hdrlen header check os fd k i w0 (w1, [], [])"
| reach_more: "stream_reach hdrlen header check os fd k i w0 r \<Longrightarrow> stream_enabled k i lab r \<Longrightarrow>
    stream_step hdrlen header check os k i lab r = Some r' \<Longrightarrow> stream_reach hdrlen header check os fd k i w0 r'"

section \<open>The invariant\<close>

lemma st_simps [simp]:
  "stc (upd_st k f w) j = (if j = k then f (stc w k) else stc w j)"
  "ps_base (upd_st k f w) = ps_base w"
  "uss (upd_st k f w) = uss w"
  "stc (set_uss v w) j = stc w j"
  "ps_base (set_uss v w) = ps_base w"
  "uss (set_uss v w) = v"
  "stc (set_base p b w) j = stc w j"
  "uss (set_base p b w) = uss w"
  by (simp_all add: stc_def upd_st_def uss_def set_uss_def)

lemma us_take_event_one:
  "us_events (usk v i) = [(b, x, ev)] \<Longrightarrow> us_take_event i v = Some ((x, ev), upd_us i (\<lambda>u. u\<lparr>us_events := []\<rparr>) v)"
  by (simp add: us_take_event_def)

definition merged :: "msg \<Rightarrow> bytes" where
  "merged m = sphdr m @ body m"

text \<open>What a received message is, and how long it can be.\<close>

definition plain :: "msg \<Rightarrow> bool" where
  "plain m \<longleftrightarrow> sphdr m = [] \<and> length (body m) < 2 ^ 64"

text \<open>The states after a connection has failed, until the session is done.\<close>

definition usock_broken :: "nat \<Rightarrow> stcp_state \<Rightarrow> conn_owner usock \<Rightarrow> bool" where
  "usock_broken k st u \<longleftrightarrow> us_fsm u = FSM_ACTIVE \<and> us_owner u = OwnerSession k \<and> distinct (us_tasks u) \<and>
     (us_state u = US_REMOVING_FD \<and> TASK_STOP \<in> set (us_tasks u)
        \<and> set (us_tasks u) \<subseteq> {TASK_CONNECTED, TASK_SEND, TASK_RECV, TASK_STOP}
        \<and> (us_events u = [(OB_ERROR, OwnerSession k, GRID_USOCK_SHUTDOWN)] \<and> st = ST_ACTIVE
           \<or> us_events u = [] \<and> st = ST_SHUTTING_DOWN)
      \<or> us_state u = US_DONE \<and> us_s u = -1 \<and> \<not> us_polled u
        \<and> set (us_tasks u) \<subseteq> {TASK_CONNECTED, TASK_SEND, TASK_RECV}
        \<and> us_events u = [(OB_ERROR, OwnerSession k, GRID_USOCK_ERROR)] \<and> st \<in> {ST_ACTIVE, ST_SHUTTING_DOWN})"

text \<open>A session whose connection is up.\<close>

definition sess_live :: "int \<Rightarrow> nat \<Rightarrow> nat \<Rightarrow> 'o tcp \<Rightarrow> bool" where
  "sess_live fd k i w \<longleftrightarrow>
     (let u = usk (uss w) i; s = stc w k
      in us_connected fd u \<and> us_owner u = OwnerSession k
         \<and> (us_events u = [] \<or> us_events u = [(OB_RECEIVED, OwnerSession k, GRID_USOCK_RECEIVED)]
            \<or> us_events u = [(OB_SENT, OwnerSession k, GRID_USOCK_SENT)])
         \<and> st_fsm s = FSM_ACTIVE \<and> st_state s = ST_ACTIVE \<and> st_usock s = Some i \<and> st_done s = None)"

context framing begin

definition in_live :: "('o \<Rightarrow> bytes) \<Rightarrow> nat \<Rightarrow> nat \<Rightarrow> bytes \<Rightarrow> msg list \<Rightarrow> 'o tcp \<Rightarrow> bool" where
  "in_live rd k i inb rs w \<longleftrightarrow>
     (let u = usk (uss w) i; s = stc w k; b = ps_base w k;
          waiting = (pb_instate b = IN_ASYNC \<and> \<not> pb_in b
            \<and> (us_events u = [(OB_RECEIVED, OwnerSession k, GRID_USOCK_RECEIVED)] \<longleftrightarrow> us_len u = 0))
      in (us_pollin u \<longrightarrow> 0 < us_len u) \<and> (TASK_RECV \<in> set (us_tasks u) \<longrightarrow> 0 < us_len u \<and> \<not> us_pollin u)
         \<and> list_all plain rs
         \<and> (\<exists>cur. inb = concat (map (\<lambda>m. frame (body m)) rs) @ cur @ us_pending rd i (uss w) \<and>
             (case st_instate s of
                Some INSTATE_HDR \<Rightarrow> waiting \<and> cur = us_buf u \<and> length (us_buf u) + us_len u = hdrlen
              | Some INSTATE_BODY \<Rightarrow> waiting \<and> cur = st_inhdr s @ us_buf u
                  \<and> length (us_buf u) + us_len u = length (body (st_inmsg s))
                  \<and> header (length (body (st_inmsg s))) = Some (st_inhdr s) \<and> plain (st_inmsg s)
              | Some INSTATE_HASMSG \<Rightarrow> us_len u = 0 \<and> us_events u \<noteq> [(OB_RECEIVED, OwnerSession k, GRID_USOCK_RECEIVED)]
                  \<and> pb_instate b = IN_IDLE \<and> cur = frame (body (st_inmsg s)) \<and> plain (st_inmsg s)
              | None \<Rightarrow> False)))"

definition out_live :: "('o \<Rightarrow> bytes) \<Rightarrow> nat \<Rightarrow> nat \<Rightarrow> bytes \<Rightarrow> msg list \<Rightarrow> 'o tcp \<Rightarrow> bool" where
  "out_live wr k i outb ss w \<longleftrightarrow>
     (let u = usk (uss w) i; s = stc w k; b = ps_base w k
      in wr (sy_os (uss w)) @ concat (us_iov u) = outb @ concat (map (\<lambda>m. frame (merged m)) ss)
         \<and> [] \<notin> set (us_iov u)
         \<and> (us_pollout u \<longrightarrow> us_iov u \<noteq> []) \<and> (TASK_SEND \<in> set (us_tasks u) \<longrightarrow> us_iov u \<noteq> [] \<and> \<not> us_pollout u)
         \<and> (case st_outstate s of
              Some OUTSTATE_IDLE \<Rightarrow> us_iov u = [] \<and> us_events u \<noteq> [(OB_SENT, OwnerSession k, GRID_USOCK_SENT)]
                \<and> pb_outstate b = OUT_IDLE
            | Some OUTSTATE_SENDING \<Rightarrow> pb_outstate b = OUT_ASYNC \<and> \<not> pb_out b
                \<and> (us_events u = [(OB_SENT, OwnerSession k, GRID_USOCK_SENT)] \<longleftrightarrow> us_iov u = [])
            | None \<Rightarrow> False))"

definition sess_broken :: "('o \<Rightarrow> bytes) \<Rightarrow> nat \<Rightarrow> nat \<Rightarrow> bytes \<Rightarrow> bytes \<Rightarrow> 'o stream_run \<Rightarrow> bool" where
  "sess_broken wr k i inb outb = (\<lambda>(w, rs, ss).
     let u = usk (uss w) i; s = stc w k
     in prefix (concat (map (\<lambda>m. frame (body m)) rs)) inb \<and> list_all plain rs
        \<and> prefix (wr (sy_os (uss w))) (outb @ concat (map (\<lambda>m. frame (merged m)) ss))
        \<and> (st_state s = ST_DONE
           \<or> st_fsm s = FSM_ACTIVE \<and> st_usock s = Some i \<and> st_done s = None \<and> usock_broken k (st_state s) u))"

definition sess_inv :: "('o \<Rightarrow> bytes) \<Rightarrow> ('o \<Rightarrow> bytes) \<Rightarrow> int \<Rightarrow> nat \<Rightarrow> nat \<Rightarrow> bytes \<Rightarrow> bytes \<Rightarrow> 'o stream_run \<Rightarrow> bool" where
  "sess_inv rd wr fd k i inb outb = (\<lambda>(w, rs, ss).
     list_all (\<lambda>m. length (merged m) < 2 ^ 64) ss \<and>
     (sess_live fd k i w \<and> in_live rd k i inb rs w \<and> out_live wr k i outb ss w
      \<or> sess_broken wr k i inb outb (w, rs, ss)))"

text \<open>A request for bytes by a session that is not waiting for any.\<close>

definition requested :: "('o \<Rightarrow> bytes) \<Rightarrow> int \<Rightarrow> nat \<Rightarrow> nat \<Rightarrow> nat \<Rightarrow> 'o uss \<Rightarrow> 'o uss \<Rightarrow> bool" where
  "requested rd fd k i n v v' \<longleftrightarrow>
     (let u = usk v i; u' = usk v' i
      in us_connected fd u' \<and> us_owner u' = OwnerSession k
         \<and> us_events u' = (if us_len u' = 0 then [(OB_RECEIVED, OwnerSession k, GRID_USOCK_RECEIVED)] else [])
         \<and> (TASK_RECV \<in> set (us_tasks u') \<longrightarrow> 0 < us_len u') \<and> \<not> us_pollin u'
         \<and> length (us_buf u') + us_len u' = n \<and> us_pending rd i v = us_buf u' @ us_pending rd i v'
         \<and> us_iov u' = us_iov u \<and> us_pollout u' = us_pollout u
         \<and> (TASK_SEND \<in> set (us_tasks u') \<longleftrightarrow> TASK_SEND \<in> set (us_tasks u)))"

lemma request_ok:
  assumes os: "stream_os os fd rd wr" and u: "us_connected fd (usk v i)" "us_owner (usk v i) = OwnerSession k"
    "us_events (usk v i) = []" "us_len (usk v i) = 0" "\<not> us_pollin (usk v i)" "TASK_RECV \<notin> set (us_tasks (usk v i))"
    and n: "0 < n"
  shows "\<exists>v'. grid_usock_recv os i n False v = Some v' \<and> wr (sy_os v') = wr (sy_os v)
    \<and> (usock_broken k ST_ACTIVE (usk v' i) \<or> requested rd fd k i n v v')"
proof -
  from usock_recv_ok [OF os u(1,3,6,4) n, of False] obtain q x bs f where
    r: "grid_usock_recv os i n False v = Some (upd_us i (\<lambda>u. f ((us_took q u)\<lparr>us_buf := bs\<rparr>)) (v\<lparr>sy_os := x\<rparr>))"
    "wr x = wr (sy_os v)" "us_pos q \<le> length (us_batch q)"
    and c: "f = us_break \<or> us_pending rd i v = bs @ drop (us_pos q) (us_batch q) @ rd x
        \<and> (length bs = n \<and> f = (\<lambda>u. u\<lparr>us_events := us_events u @ [(OB_RECEIVED, us_owner u, GRID_USOCK_RECEIVED)]\<rparr>)
           \<or> length bs < n \<and> f = (\<lambda>u. u\<lparr>us_len := n - length bs, us_tasks := us_tasks u @ [TASK_RECV]\<rparr>))"
    by (elim exE conjE) (rule that)
  let ?v = "upd_us i (\<lambda>u. f ((us_took q u)\<lparr>us_buf := bs\<rparr>)) (v\<lparr>sy_os := x\<rparr>)"
  have b: "usock_broken k ST_ACTIVE (usk ?v i)" if "f = us_break"
    using that u by (auto simp: usock_broken_def us_break_def us_took_def us_connected_def)
  have "requested rd fd k i n v ?v" if "f \<noteq> us_break"
  proof -
    have p: "us_pending rd i v = bs @ drop (us_pos q) (us_batch q) @ rd x" using that c by simp
    from that c consider
        "length bs = n" "f = (\<lambda>u. u\<lparr>us_events := us_events u @ [(OB_RECEIVED, us_owner u, GRID_USOCK_RECEIVED)]\<rparr>)"
      | "length bs < n" "f = (\<lambda>u. u\<lparr>us_len := n - length bs, us_tasks := us_tasks u @ [TASK_RECV]\<rparr>)" by blast
    then show ?thesis
    proof cases
      case 1
      have u': "usk ?v i = (us_took q (usk v i))\<lparr>us_buf := bs, us_events := [(OB_RECEIVED, OwnerSession k, GRID_USOCK_RECEIVED)]\<rparr>"
        using 1 u(2,3) by (simp add: us_took_def)
      have "us_pending rd i ?v = drop (us_pos q) (us_batch q) @ rd x"
        using u' by (simp add: us_pending_def us_took_def)
      then show ?thesis unfolding requested_def Let_def u' p
        using 1(1) u r(3) by (simp add: us_took_def us_connected_def)
    next
      case 2
      have u': "usk ?v i = (us_took q (usk v i))\<lparr>us_buf := bs, us_len := n - length bs, us_tasks := us_tasks (usk v i) @ [TASK_RECV]\<rparr>"
        using 2 by (simp add: us_took_def)
      define U where "U = usk ?v i"
      have P: "us_pending rd i ?v = drop (us_pos q) (us_batch q) @ rd x"
        using u' by (simp add: us_pending_def us_took_def)
      have U: "us_owner U = OwnerSession k" "us_events U = []" "us_len U = n - length bs" "us_buf U = bs"
        "\<not> us_pollin U" "us_iov U = us_iov (usk v i)" "us_pollout U = us_pollout (usk v i)"
        "us_tasks U = us_tasks (usk v i) @ [TASK_RECV]"
        unfolding U_def u' using u by (simp_all add: us_took_def)
      have "us_connected fd U" unfolding U_def u'
        using u(1,6) r(3) by (auto simp: us_took_def us_connected_def)
      with U 2(1) show ?thesis unfolding requested_def Let_def P p U_def [symmetric] by simp
    qed
  qed
  with b have "usock_broken k ST_ACTIVE (usk ?v i) \<or> requested rd fd k i n v ?v" by (cases "f = us_break") simp_all
  moreover have "wr (sy_os ?v) = wr (sy_os v)" using r(2) by simp
  ultimately show ?thesis using r(1) by (intro exI [of _ ?v] conjI)
qed

text \<open>A session that is broken without more having been sent or received.\<close>

lemma frames_sent_prefix: "out_live wr k i outb ss w \<Longrightarrow>
    prefix (wr (sy_os (uss w))) (outb @ concat (map (\<lambda>m. frame (merged m)) ss))"
  unfolding out_live_def Let_def by (elim conjE) (rule prefixI [OF sym])

lemma frames_received_prefix: "in_live rd k i inb rs w \<Longrightarrow>
    prefix (concat (map (\<lambda>m. frame (body m)) rs)) inb \<and> list_all plain rs"
  by (auto simp: in_live_def Let_def prefix_def)

lemma brokenI:
  assumes "usock_broken k (st_state (stc w k)) (usk (uss w) i)" and "st_fsm (stc w k) = FSM_ACTIVE"
    and "st_usock (stc w k) = Some i" and "st_done (stc w k) = None"
    and "prefix (concat (map (\<lambda>m. frame (body m)) rs)) inb" and "list_all plain rs"
    and "prefix (wr (sy_os (uss w))) (outb @ concat (map (\<lambda>m. frame (merged m)) ss))"
  shows "sess_broken wr k i inb outb (w, rs, ss)"
  using assms by (simp add: sess_broken_def)

text \<open>Starting the pipe.\<close>

lemma start_ok:
  assumes os: "stream_os os fd rd wr" and r: "stream_ready fd k i w0"
  shows "\<exists>w1. stream_start_pipe hdrlen os (Inr ()) k w0 = Some w1
    \<and> sess_inv rd wr fd k i (us_pending rd i (uss w0)) (wr (sy_os (uss w0))) (w1, [], [])"
proof -
  let ?v = "uss w0" and ?s = "stc w0 k" and ?u = "usk (uss w0) i"
  have u: "us_connected fd ?u" "us_owner ?u = OwnerSession k" "us_events ?u = []" "us_len ?u = 0" "\<not> us_pollin ?u"
    "TASK_RECV \<notin> set (us_tasks ?u)" "TASK_SEND \<notin> set (us_tasks ?u)" "us_iov ?u = []" "\<not> us_pollout ?u"
    and s: "st_fsm ?s = FSM_ACTIVE" "st_usock ?s = Some i" "st_done ?s = None"
    and b: "pb_state (ps_base w0 k) = PB_IDLE" "\<not> pb_in (ps_base w0 k)" "\<not> pb_out (ps_base w0 k)"
    using r by (auto simp: stream_ready_def Let_def)
  from request_ok [OF os u(1-6) hdrlen_pos] obtain v' where
    v': "grid_usock_recv os i hdrlen False ?v = Some v'" "wr (sy_os v') = wr (sy_os ?v)"
    "usock_broken k ST_ACTIVE (usk v' i) \<or> requested rd fd k i hdrlen ?v v'" by blast
  let ?b = "(ps_base w0 k)\<lparr>pb_state := PB_ACTIVE, pb_instate := IN_ASYNC, pb_outstate := OUT_IDLE, pb_out := True\<rparr>"
  let ?w = "upd_st k (\<lambda>s. s\<lparr>st_outstate := Some OUTSTATE_IDLE, st_state := ST_ACTIVE\<rparr>)
    (set_uss v' (upd_st k (\<lambda>s. s\<lparr>st_instate := Some INSTATE_HDR\<rparr>) (set_base k ?b w0)))"
  have run: "stream_start_pipe hdrlen os (Inr ()) k w0 = Some ?w"
    using v'(1) s b by (simp add: stream_start_pipe_def grid_pipebase_start_def raise_out_def on_usock_def Let_def)
  have "sess_inv rd wr fd k i (us_pending rd i ?v) (wr (sy_os ?v)) (?w, [], [])"
    using v'(3)
  proof
    assume "usock_broken k ST_ACTIVE (usk v' i)"
    then have "sess_broken wr k i (us_pending rd i ?v) (wr (sy_os ?v)) (?w, [], [])"
      using s v'(2) by (intro brokenI) simp_all
    then show ?thesis by (simp add: sess_inv_def)
  next
    assume q: "requested rd fd k i hdrlen ?v v'"
    have "sess_live fd k i ?w" using q s by (auto simp: sess_live_def requested_def Let_def)
    moreover have "in_live rd k i (us_pending rd i ?v) [] ?w"
      using q b by (auto simp: in_live_def requested_def Let_def)
    moreover have "out_live wr k i (wr (sy_os ?v)) [] ?w"
      using q u v'(2) by (auto simp: out_live_def requested_def Let_def)
    ultimately show ?thesis by (simp add: sess_inv_def)
  qed
  with run show ?thesis by blast
qed

text \<open>Each half depends on its own fields only.\<close>

lemma in_live_cong:
  assumes "us_pollin (usk (uss w') i) = us_pollin (usk (uss w) i)" and "us_len (usk (uss w') i) = us_len (usk (uss w) i)"
    and "TASK_RECV \<in> set (us_tasks (usk (uss w') i)) \<longleftrightarrow> TASK_RECV \<in> set (us_tasks (usk (uss w) i))"
    and "us_buf (usk (uss w') i) = us_buf (usk (uss w) i)" and "us_pending rd i (uss w') = us_pending rd i (uss w)"
    and "us_events (usk (uss w') i) = [(OB_RECEIVED, OwnerSession k, GRID_USOCK_RECEIVED)]
      \<longleftrightarrow> us_events (usk (uss w) i) = [(OB_RECEIVED, OwnerSession k, GRID_USOCK_RECEIVED)]"
    and "st_instate (stc w' k) = st_instate (stc w k)" and "st_inhdr (stc w' k) = st_inhdr (stc w k)"
    and "st_inmsg (stc w' k) = st_inmsg (stc w k)"
    and "pb_instate (ps_base w' k) = pb_instate (ps_base w k)" and "pb_in (ps_base w' k) = pb_in (ps_base w k)"
  shows "in_live rd k i inb rs w' = in_live rd k i inb rs w"
  unfolding in_live_def Let_def assms ..

lemma out_live_cong:
  assumes "us_pollout (usk (uss w') i) = us_pollout (usk (uss w) i)" and "us_iov (usk (uss w') i) = us_iov (usk (uss w) i)"
    and "TASK_SEND \<in> set (us_tasks (usk (uss w') i)) \<longleftrightarrow> TASK_SEND \<in> set (us_tasks (usk (uss w) i))"
    and "wr (sy_os (uss w')) = wr (sy_os (uss w))"
    and "us_events (usk (uss w') i) = [(OB_SENT, OwnerSession k, GRID_USOCK_SENT)]
      \<longleftrightarrow> us_events (usk (uss w) i) = [(OB_SENT, OwnerSession k, GRID_USOCK_SENT)]"
    and "st_outstate (stc w' k) = st_outstate (stc w k)"
    and "pb_outstate (ps_base w' k) = pb_outstate (ps_base w k)" and "pb_out (ps_base w' k) = pb_out (ps_base w k)"
  shows "out_live wr k i outb ss w' = out_live wr k i outb ss w"
  unfolding out_live_def Let_def assms ..

text \<open>The flags of the worker may change as long as they still fit.\<close>

lemma in_live_weaken:
  assumes "in_live rd k i inb rs w"
    and "us_pollin (usk (uss w') i) \<longrightarrow> 0 < us_len (usk (uss w) i)"
    and "TASK_RECV \<in> set (us_tasks (usk (uss w') i)) \<longrightarrow> 0 < us_len (usk (uss w) i) \<and> \<not> us_pollin (usk (uss w') i)"
    and "us_len (usk (uss w') i) = us_len (usk (uss w) i)"
    and "us_buf (usk (uss w') i) = us_buf (usk (uss w) i)" and "us_pending rd i (uss w') = us_pending rd i (uss w)"
    and "us_events (usk (uss w') i) = [(OB_RECEIVED, OwnerSession k, GRID_USOCK_RECEIVED)]
      \<longleftrightarrow> us_events (usk (uss w) i) = [(OB_RECEIVED, OwnerSession k, GRID_USOCK_RECEIVED)]"
    and "st_instate (stc w' k) = st_instate (stc w k)" and "st_inhdr (stc w' k) = st_inhdr (stc w k)"
    and "st_inmsg (stc w' k) = st_inmsg (stc w k)"
    and "pb_instate (ps_base w' k) = pb_instate (ps_base w k)" and "pb_in (ps_base w' k) = pb_in (ps_base w k)"
  shows "in_live rd k i inb rs w'"
  using assms(1) unfolding in_live_def Let_def assms(4-12) by (elim conjE) (intro conjI assms(2,3))

lemma out_live_weaken:
  assumes "out_live wr k i outb ss w"
    and "us_pollout (usk (uss w') i) \<longrightarrow> us_iov (usk (uss w) i) \<noteq> []"
    and "TASK_SEND \<in> set (us_tasks (usk (uss w') i)) \<longrightarrow> us_iov (usk (uss w) i) \<noteq> [] \<and> \<not> us_pollout (usk (uss w') i)"
    and "us_iov (usk (uss w') i) = us_iov (usk (uss w) i)"
    and "wr (sy_os (uss w')) = wr (sy_os (uss w))"
    and "us_events (usk (uss w') i) = [(OB_SENT, OwnerSession k, GRID_USOCK_SENT)]
      \<longleftrightarrow> us_events (usk (uss w) i) = [(OB_SENT, OwnerSession k, GRID_USOCK_SENT)]"
    and "st_outstate (stc w' k) = st_outstate (stc w k)"
    and "pb_outstate (ps_base w' k) = pb_outstate (ps_base w k)" and "pb_out (ps_base w' k) = pb_out (ps_base w k)"
  shows "out_live wr k i outb ss w'"
  using assms(1) unfolding out_live_def Let_def assms(4-9) by (elim conjE) (intro conjI assms(2,3))

text \<open>Failures that the worker finds.\<close>

lemma failed_broken:
  assumes "sess_live fd k i w" and "in_live rd k i inb rs w" and "us_events (usk (uss w) i) = []"
    and "usk v i = us_failed u" and "us_fsm u = FSM_ACTIVE" and "us_owner u = OwnerSession k" and "us_events u = []"
    and "us_tasks u = us_tasks (usk (uss w) i)"
    and "prefix (wr (sy_os v)) (outb @ concat (map (\<lambda>m. frame (merged m)) ss))"
  shows "sess_broken wr k i inb outb (set_uss v w, rs, ss)"
proof (rule brokenI)
  show "usock_broken k (st_state (stc (set_uss v w) k)) (usk (uss (set_uss v w)) i)"
    using assms by (auto simp: usock_broken_def us_failed_def sess_live_def us_connected_def Let_def)
qed (use assms frames_received_prefix [OF assms(2)] in \<open>simp_all add: sess_live_def Let_def\<close>)

lemma fd_live:
  assumes os: "stream_os os fd rd wr" and l: "sess_live fd k i w" "in_live rd k i inb rs w" "out_live wr k i outb ss w"
    and e: "us_events (usk (uss w) i) = []" and p: "ev = FD_IN \<longrightarrow> us_pollin (usk (uss w) i)" "ev = FD_OUT \<longrightarrow> us_pollout (usk (uss w) i)"
  shows "\<exists>w'. worker_fd_event os i ev w = Some w'
    \<and> (sess_live fd k i w' \<and> in_live rd k i inb rs w' \<and> out_live wr k i outb ss w' \<or> sess_broken wr k i inb outb (w', rs, ss))"
proof -
  let ?v = "uss w" and ?u = "usk (uss w) i"
  have u: "us_connected fd ?u" "us_owner ?u = OwnerSession k" "us_fsm ?u = FSM_ACTIVE"
    using l(1) by (simp_all add: sess_live_def Let_def us_connected_def)
  have iov: "[] \<notin> set (us_iov ?u)" using l(3) by (simp add: out_live_def Let_def)
  have sent: "prefix (wr (sy_os ?v)) (outb @ concat (map (\<lambda>m. frame (merged m)) ss))"
    by (rule frames_sent_prefix [OF l(3)])
  show ?thesis
  proof (cases ev)
    case FD_IN
    have len: "0 < us_len ?u" "us_pollin ?u" "TASK_RECV \<notin> set (us_tasks ?u)"
      using p(1) FD_IN l(2) by (auto simp: in_live_def Let_def)
    obtain q x bs f where
      r: "usock_feed os i (UsFd FD_IN) ?v
          = Some (upd_us i (\<lambda>u. f ((us_took q u)\<lparr>us_buf := us_buf u @ bs, us_len := us_len u - length bs\<rparr>)) (?v\<lparr>sy_os := x\<rparr>))"
      and wr: "wr x = wr (sy_os ?v)" and pos: "us_pos q \<le> length (us_batch q)"
      and c: "f = us_failed \<or> us_pending rd i ?v = bs @ drop (us_pos q) (us_batch q) @ rd x \<and> length bs \<le> us_len ?u
        \<and> (length bs = us_len ?u
             \<and> f = (\<lambda>u. u\<lparr>us_pollin := False, us_events := us_events u @ [(OB_RECEIVED, us_owner u, GRID_USOCK_RECEIVED)]\<rparr>)
           \<or> length bs < us_len ?u \<and> f = (\<lambda>u. u))"
      using usock_fd_in_ok [OF os u(1) e len(1)] by (elim exE conjE) (rule that)
    let ?v' = "upd_us i (\<lambda>u. f ((us_took q u)\<lparr>us_buf := us_buf u @ bs, us_len := us_len u - length bs\<rparr>)) (?v\<lparr>sy_os := x\<rparr>)"
    have run: "worker_fd_event os i ev w = Some (set_uss ?v' w)" using r FD_IN by (simp add: worker_fd_event_def)
    show ?thesis
    proof (cases "f = us_failed")
      case True
      have "sess_broken wr k i inb outb (set_uss ?v' w, rs, ss)"
        by (rule failed_broken [OF l(1,2) e, where u = "(us_took q ?u)\<lparr>us_buf := us_buf ?u @ bs, us_len := us_len ?u - length bs\<rparr>"])
          (use True u e sent wr in \<open>simp_all add: us_took_def\<close>)
      with run show ?thesis by blast
    next
      case False
      define U where "U = usk ?v' i"
      have len': "length bs \<le> us_len ?u" and pend: "us_pending rd i ?v = bs @ drop (us_pos q) (us_batch q) @ rd x"
        using c False by simp_all
      have U: "us_len U = us_len ?u - length bs" "us_buf U = us_buf ?u @ bs" "us_tasks U = us_tasks ?u" "us_iov U = us_iov ?u"
        "us_pollout U = us_pollout ?u" "us_owner U = OwnerSession k" "us_connected fd U" "us_pos U = us_pos q" "us_batch U = us_batch q"
        "us_events U = (if length bs = us_len ?u then [(OB_RECEIVED, OwnerSession k, GRID_USOCK_RECEIVED)] else [])"
        "us_pollin U = (if length bs = us_len ?u then False else us_pollin ?u)"
        using c False u e pos unfolding U_def by (auto simp: us_took_def us_connected_def)
      have pend': "us_pending rd i ?v' = drop (us_pos q) (us_batch q) @ rd x"
        using U(8,9) by (simp add: us_pending_def U_def)
      have "sess_live fd k i (set_uss ?v' w)"
        using l(1) U(6,7,10) by (simp add: sess_live_def Let_def U_def [symmetric] del: usock_simps)
      moreover have "out_live wr k i outb ss (set_uss ?v' w)"
        using l(3) U wr e by (subst out_live_cong [of _ _ w]) (simp_all add: U_def [symmetric] del: usock_simps(1))
      moreover have "in_live rd k i inb rs (set_uss ?v' w)"
        using l(2) U pend pend' len len' e
        by (auto simp: in_live_def Let_def U_def [symmetric] simp del: usock_simps split: option.splits stcp_instate.splits)
      ultimately show ?thesis using run by blast
    qed
  next
    case FD_OUT
    obtain iov x f where
      r: "usock_feed os i (UsFd FD_OUT) ?v = Some (upd_us i (\<lambda>u. f (u\<lparr>us_iov := iov\<rparr>)) (?v\<lparr>sy_os := x\<rparr>))"
      and x: "rd x = rd (sy_os ?v)" "wr x @ concat iov = wr (sy_os ?v) @ concat (us_iov ?u)" "[] \<notin> set iov"
      and c: "iov = [] \<and> f = (\<lambda>u. u\<lparr>us_pollout := False, us_events := us_events u @ [(OB_SENT, us_owner u, GRID_USOCK_SENT)]\<rparr>)
       \<or> iov \<noteq> [] \<and> f = (\<lambda>u. u) \<or> f = us_failed"
      using usock_fd_out_ok [OF os u(1) e iov] by (elim exE conjE) (rule that)
    let ?v' = "upd_us i (\<lambda>u. f (u\<lparr>us_iov := iov\<rparr>)) (?v\<lparr>sy_os := x\<rparr>)"
    have run: "worker_fd_event os i ev w = Some (set_uss ?v' w)" using r FD_OUT by (simp add: worker_fd_event_def)
    have total: "wr x @ concat iov = outb @ concat (map (\<lambda>m. frame (merged m)) ss)"
      using x(2) l(3) by (simp add: out_live_def Let_def)
    show ?thesis
    proof (cases "f = us_failed")
      case True
      have "prefix (wr x) (outb @ concat (map (\<lambda>m. frame (merged m)) ss))" by (rule prefixI [OF total [symmetric]])
      then have "sess_broken wr k i inb outb (set_uss ?v' w, rs, ss)"
        by (intro failed_broken [OF l(1,2) e, where u = "?u\<lparr>us_iov := iov\<rparr>"])
          (use True u e in simp_all)
      with run show ?thesis by blast
    next
      case False
      define U where "U = usk ?v' i"
      have poll: "us_pollout ?u" "us_iov ?u \<noteq> []" "TASK_SEND \<notin> set (us_tasks ?u)"
        using p(2) FD_OUT l(3) by (auto simp: out_live_def Let_def)
      have U: "us_len U = us_len ?u" "us_buf U = us_buf ?u" "us_tasks U = us_tasks ?u" "us_iov U = iov"
        "us_pollin U = us_pollin ?u" "us_owner U = OwnerSession k" "us_connected fd U" "us_pos U = us_pos ?u"
        "us_batch U = us_batch ?u"
        "us_events U = (if iov = [] then [(OB_SENT, OwnerSession k, GRID_USOCK_SENT)] else [])"
        "us_pollout U = (if iov = [] then False else us_pollout ?u)"
        using c False u e unfolding U_def by (auto simp: us_connected_def)
      have "us_pending rd i ?v' = us_pending rd i ?v" using U(8,9) x(1) by (simp add: us_pending_def U_def)
      then have "in_live rd k i inb rs (set_uss ?v' w)"
        using l(2) U e by (subst in_live_cong [of _ _ w]) (simp_all add: U_def [symmetric] del: usock_simps(1))
      moreover have "sess_live fd k i (set_uss ?v' w)"
        using l(1) U(6,7,10) by (simp add: sess_live_def Let_def U_def [symmetric] del: usock_simps)
      moreover have "out_live wr k i outb ss (set_uss ?v' w)"
        using l(3) U total x(3) poll e
        by (auto simp: out_live_def Let_def U_def [symmetric] simp del: usock_simps(1) split: option.splits stcp_outstate.splits)
      ultimately show ?thesis using run by blast
    qed
  next
    case FD_ERR
    from usock_fd_err_ok [OF os u(1) e] obtain x where
      x: "usock_feed os i (UsFd FD_ERR) ?v = Some (upd_us i us_failed (?v\<lparr>sy_os := x\<rparr>))" "wr x = wr (sy_os ?v)" by blast
    have "sess_broken wr k i inb outb (set_uss (upd_us i us_failed (?v\<lparr>sy_os := x\<rparr>)) w, rs, ss)"
      by (rule failed_broken [OF l(1,2) e, where u = ?u]) (use u e sent x in simp_all)
    with x FD_ERR show ?thesis by (auto simp: worker_fd_event_def)
  qed
qed

lemma set_uss_same [simp]: "set_uss (uss w) w = w"
  by (simp add: set_uss_def uss_def)

lemma fd_broken:
  assumes b: "sess_broken wr k i inb outb (w, rs, ss)" and st: "st_state (stc w k) \<noteq> ST_DONE"
    and e: "us_events (usk (uss w) i) = []"
  shows "worker_fd_event os i ev w = Some w"
proof -
  have "us_state (usk (uss w) i) = US_REMOVING_FD" "us_fsm (usk (uss w) i) = FSM_ACTIVE"
    using b st e by (auto simp: sess_broken_def usock_broken_def Let_def)
  then show ?thesis
    by (simp add: worker_fd_event_def usock_feed_def grid_usock_handler_def grid_internal_tasks_def)
qed

text \<open>Tasks.\<close>

lemma task_step:
  "us_fsm (usk v i) = FSM_ACTIVE \<Longrightarrow> us_tasks (usk v i) = t # ts \<Longrightarrow> t \<noteq> TASK_STOP \<Longrightarrow> t \<in> {TASK_CONNECTED, TASK_SEND, TASK_RECV} \<Longrightarrow>
   us_task_step os i v = Some (upd_us i (\<lambda>u. case t of
       TASK_CONNECTED \<Rightarrow> u\<lparr>us_tasks := ts, us_polled := (us_s u \<ge> 0), us_pollin := False, us_pollout := False\<rparr>
     | TASK_SEND \<Rightarrow> u\<lparr>us_tasks := ts, us_pollout := True\<rparr>
     | _ \<Rightarrow> u\<lparr>us_tasks := ts, us_pollin := True\<rparr>) v)"
  by (auto simp: us_task_step_def usock_feed_def grid_usock_handler_def grid_internal_tasks_def us_op_defs)

lemma task_live:
  assumes l: "sess_live fd k i w" "in_live rd k i inb rs w" "out_live wr k i outb ss w"
  shows "\<exists>w'. worker_usock_task os i w = Some w'
    \<and> sess_live fd k i w' \<and> in_live rd k i inb rs w' \<and> out_live wr k i outb ss w'"
proof (cases "us_tasks (usk (uss w) i)")
  case Nil
  then have "worker_usock_task os i w = Some w" by (simp add: worker_usock_task_def us_task_step_def)
  with l show ?thesis by blast
next
  case (Cons t ts)
  let ?v = "uss w" and ?u = "usk (uss w) i"
  have u: "us_connected fd ?u" using l(1) by (simp add: sess_live_def Let_def)
  have ts: "t \<notin> set ts" "t \<in> {TASK_CONNECTED, TASK_SEND, TASK_RECV}" "t \<noteq> TASK_STOP"
    "distinct ts" "set ts \<subseteq> {TASK_CONNECTED, TASK_SEND, TASK_RECV}"
    using u Cons by (auto simp: us_connected_def)
  define F where "F = (\<lambda>u. case t of
       TASK_CONNECTED \<Rightarrow> u\<lparr>us_tasks := ts, us_polled := (us_s u \<ge> 0), us_pollin := False, us_pollout := False\<rparr>
     | TASK_SEND \<Rightarrow> u\<lparr>us_tasks := ts, us_pollout := True\<rparr>
     | _ \<Rightarrow> (u :: conn_owner usock)\<lparr>us_tasks := ts, us_pollin := True\<rparr>)"
  have run: "worker_usock_task os i w = Some (set_uss (upd_us i F ?v) w)"
    using task_step [of ?v i t ts os] u Cons ts by (simp add: worker_usock_task_def F_def us_connected_def)
  define U where "U = usk (upd_us i F ?v) i"
  have U: "us_connected fd U" "us_owner U = us_owner ?u" "us_events U = us_events ?u" "us_len U = us_len ?u" "us_buf U = us_buf ?u"
    "us_iov U = us_iov ?u" "us_pos U = us_pos ?u" "us_batch U = us_batch ?u" "us_tasks U = ts"
    "us_pollin U \<longrightarrow> us_pollin ?u \<or> t = TASK_RECV" "us_pollout U \<longrightarrow> us_pollout ?u \<or> t = TASK_SEND"
    using u ts unfolding U_def by (auto simp: F_def us_connected_def split: usock_task.splits)
  have pend: "us_pending rd i (upd_us i F ?v) = us_pending rd i ?v"
    using U(7,8) by (simp add: us_pending_def U_def)
  have f: "us_pollin ?u \<longrightarrow> 0 < us_len ?u" "us_pollout ?u \<longrightarrow> us_iov ?u \<noteq> []"
    "TASK_RECV \<in> set (t # ts) \<longrightarrow> 0 < us_len ?u \<and> \<not> us_pollin ?u"
    "TASK_SEND \<in> set (t # ts) \<longrightarrow> us_iov ?u \<noteq> [] \<and> \<not> us_pollout ?u"
    using l(2,3) Cons unfolding in_live_def out_live_def Let_def by simp_all
  have "sess_live fd k i (set_uss (upd_us i F ?v) w)"
    using l(1) U(1-3) by (simp add: sess_live_def Let_def U_def [symmetric] del: usock_simps(1))
  moreover have "out_live wr k i outb ss (set_uss (upd_us i F ?v) w)"
    by (rule out_live_weaken [OF l(3)]) (use U f ts(1) in \<open>auto simp: U_def [symmetric] simp del: usock_simps(1)\<close>)
  moreover have "in_live rd k i inb rs (set_uss (upd_us i F ?v) w)"
    by (rule in_live_weaken [OF l(2)]) (use U f ts(1) pend in \<open>auto simp: U_def [symmetric] simp del: usock_simps(1)\<close>)
  ultimately show ?thesis using run by blast
qed

lemma task_broken:
  assumes os: "stream_os os fd rd wr" and b: "sess_broken wr k i inb outb (w, rs, ss)"
    and st: "st_state (stc w k) \<noteq> ST_DONE" and e: "us_events (usk (uss w) i) = []"
  shows "\<exists>w'. worker_usock_task os i w = Some w' \<and> sess_broken wr k i inb outb (w', rs, ss)"
proof -
  let ?v = "uss w" and ?u = "usk (uss w) i"
  have u: "us_fsm ?u = FSM_ACTIVE" "us_owner ?u = OwnerSession k" "distinct (us_tasks ?u)" "us_state ?u = US_REMOVING_FD"
    "TASK_STOP \<in> set (us_tasks ?u)" "set (us_tasks ?u) \<subseteq> {TASK_CONNECTED, TASK_SEND, TASK_RECV, TASK_STOP}"
    "st_state (stc w k) = ST_SHUTTING_DOWN"
    and s: "st_fsm (stc w k) = FSM_ACTIVE" "st_usock (stc w k) = Some i" "st_done (stc w k) = None"
    and p: "prefix (concat (map (\<lambda>m. frame (body m)) rs)) inb" "list_all plain rs"
    "prefix (wr (sy_os ?v)) (outb @ concat (map (\<lambda>m. frame (merged m)) ss))"
    using b st e by (auto simp: sess_broken_def usock_broken_def Let_def)
  from u(5) obtain t ts where ts: "us_tasks ?u = t # ts" by (cases "us_tasks ?u") auto
  show ?thesis
  proof (cases "t = TASK_STOP")
    case True
    let ?w = "upd_us i (\<lambda>u. u\<lparr>us_tasks := ts\<rparr>) ?v"
    have "us_events (usk ?w i) = []" using e by simp
    from usock_fails [OF os this] obtain x where
      x: "usock_fail os i ?w = Some (upd_us i us_failed (?w\<lparr>sy_os := x\<rparr>))" "wr x = wr (sy_os ?w)" by blast
    have run: "worker_usock_task os i w = Some (set_uss (upd_us i us_failed (?w\<lparr>sy_os := x\<rparr>)) w)"
      using x u ts True
      by (simp add: worker_usock_task_def us_task_step_def usock_feed_def grid_usock_handler_def grid_internal_tasks_def)
    have "sess_broken wr k i inb outb (set_uss (upd_us i us_failed (?w\<lparr>sy_os := x\<rparr>)) w, rs, ss)"
      by (rule brokenI) (use u s p ts True x e in \<open>auto simp: usock_broken_def us_failed_def\<close>)
    with run show ?thesis by blast
  next
    case False
    define F where "F = (\<lambda>u. case t of
       TASK_CONNECTED \<Rightarrow> u\<lparr>us_tasks := ts, us_polled := (us_s u \<ge> 0), us_pollin := False, us_pollout := False\<rparr>
     | TASK_SEND \<Rightarrow> u\<lparr>us_tasks := ts, us_pollout := True\<rparr>
     | _ \<Rightarrow> (u :: conn_owner usock)\<lparr>us_tasks := ts, us_pollin := True\<rparr>)"
    have "t \<in> {TASK_CONNECTED, TASK_SEND, TASK_RECV}" using u(6) ts False by auto
    then have run: "worker_usock_task os i w = Some (set_uss (upd_us i F ?v) w)"
      using task_step [of ?v i t ts os] u ts False by (simp add: worker_usock_task_def F_def)
    define U where "U = usk (upd_us i F ?v) i"
    have U: "us_fsm U = FSM_ACTIVE" "us_owner U = us_owner ?u" "us_events U = us_events ?u" "us_state U = us_state ?u" "us_tasks U = ts"
      using u unfolding U_def by (auto simp: F_def split: usock_task.splits)
    have "sess_broken wr k i inb outb (set_uss (upd_us i F ?v) w, rs, ss)"
      by (rule brokenI) (use u s p ts False e U in \<open>auto simp: usock_broken_def U_def [symmetric] simp del: usock_simps(1)\<close>)
    with run show ?thesis by blast
  qed
qed

lemma deliver_sent:
  assumes l: "sess_live fd k i w" "in_live rd k i inb rs w" "out_live wr k i outb ss w"
    and e: "us_events (usk (uss w) i) = [(OB_SENT, OwnerSession k, GRID_USOCK_SENT)]"
  shows "\<exists>w'. deliver_usock hdrlen check os sa i w = Some (None, w')
    \<and> sess_live fd k i w' \<and> in_live rd k i inb rs w' \<and> out_live wr k i outb ss w'"
proof -
  let ?v = "upd_us i (\<lambda>u. u\<lparr>us_events := []\<rparr>) (uss w)"
  let ?b = "(ps_base w k)\<lparr>pb_outstate := OUT_IDLE, pb_out := True\<rparr>"
  let ?w = "set_base k ?b (upd_st k (\<lambda>s. s\<lparr>st_outstate := Some OUTSTATE_IDLE, st_outmsg := no_msg\<rparr>) (set_uss ?v w))"
  have s: "st_outstate (stc w k) = Some OUTSTATE_SENDING" "pb_outstate (ps_base w k) = OUT_ASYNC" "\<not> pb_out (ps_base w k)"
    "us_iov (usk (uss w) i) = []"
    using l(3) e by (auto simp: out_live_def Let_def split: option.splits stcp_outstate.splits)
  have st: "st_fsm (stc w k) = FSM_ACTIVE" "st_state (stc w k) = ST_ACTIVE"
    using l(1) by (simp_all add: sess_live_def Let_def)
  have run: "deliver_usock hdrlen check os sa i w = Some (None, ?w)"
    using s st by (simp add: deliver_usock_def us_take_event_one [OF e] stream_feed_def stream_handler_def stream_active_def
      on_base_def grid_pipebase_sent_def raise_out_def)
  have "sess_live fd k i ?w" using l(1) by (simp add: sess_live_def us_connected_def Let_def)
  moreover have "in_live rd k i inb rs ?w"
    using l(2) e by (subst in_live_cong [of _ _ w]) (simp_all add: us_pending_def)
  moreover have "out_live wr k i outb ss ?w"
    using l(3) s by (simp add: out_live_def Let_def)
  ultimately show ?thesis using run by blast
qed

lemma in_live_states:
  assumes "in_live rd k i inb rs w"
  shows "st_instate (stc w k) = Some INSTATE_HDR \<or> st_instate (stc w k) = Some INSTATE_BODY
    \<or> st_instate (stc w k) = Some INSTATE_HASMSG \<and> us_events (usk (uss w) i) \<noteq> [(OB_RECEIVED, OwnerSession k, GRID_USOCK_RECEIVED)]"
proof (cases "st_instate (stc w k)")
  case None
  with assms show ?thesis by (simp add: in_live_def Let_def)
next
  case (Some st)
  with assms show ?thesis by (cases st) (auto simp: in_live_def Let_def)
qed

lemma deliver_received:
  assumes os: "stream_os os fd rd wr" and l: "sess_live fd k i w" "in_live rd k i inb rs w" "out_live wr k i outb ss w"
    and e: "us_events (usk (uss w) i) = [(OB_RECEIVED, OwnerSession k, GRID_USOCK_RECEIVED)]"
    and c: "st_instate (stc w k) = Some INSTATE_HDR \<Longrightarrow> length (us_buf (usk (uss w) i)) = hdrlen \<Longrightarrow>
      check (sa_rcvmaxsize sa) (us_buf (usk (uss w) i)) \<noteq> None"
  shows "\<exists>w'. deliver_usock hdrlen check os sa i w = Some (None, w')
    \<and> (sess_live fd k i w' \<and> in_live rd k i inb rs w' \<and> out_live wr k i outb ss w' \<or> sess_broken wr k i inb outb (w', rs, ss))"
proof -
  let ?u = "usk (uss w) i" and ?s = "stc w k" and ?b = "ps_base w k"
  let ?v = "upd_us i (\<lambda>u. u\<lparr>us_events := []\<rparr>) (uss w)"
  let ?w = "set_uss ?v w"
  have st: "st_fsm ?s = FSM_ACTIVE" "st_state ?s = ST_ACTIVE" "st_usock ?s = Some i" "st_done ?s = None"
    "us_connected fd ?u" "us_owner ?u = OwnerSession k"
    using l(1) by (simp_all add: sess_live_def Let_def)
  have del: "deliver_usock hdrlen check os sa i w = map_option (Pair None) (stream_received check os (sa_rcvmaxsize sa) k ?w)"
    using st by (simp add: deliver_usock_def us_take_event_one [OF e] stream_feed_def stream_handler_def stream_active_def)
  have u: "us_connected fd (usk ?v i)" "us_owner (usk ?v i) = OwnerSession k" "us_events (usk ?v i) = []"
    using st by (simp_all add: us_connected_def)
  have out: "out_live wr k i outb ss w'"
    if "uss w' = ?v" "st_outstate (stc w' k) = st_outstate ?s" "pb_outstate (ps_base w' k) = pb_outstate ?b"
      "pb_out (ps_base w' k) = pb_out ?b" for w'
    using that e by (subst out_live_cong [of _ _ w]) (use l(3) in simp_all)
  have pend: "us_pending rd i ?v = us_pending rd i (uss w)" by (simp add: us_pending_def)
  from in_live_states [OF l(2)] e consider
      (hdr) "st_instate ?s = Some INSTATE_HDR" | (body) "st_instate ?s = Some INSTATE_BODY" by blast
  then show ?thesis
  proof cases
    case body
    with l(2) e have i: "pb_instate ?b = IN_ASYNC" "\<not> pb_in ?b" "us_len ?u = 0" "length (us_buf ?u) = length (body (st_inmsg ?s))"
      "header (length (us_buf ?u)) = Some (st_inhdr ?s)" "plain (st_inmsg ?s)" "list_all plain rs"
      "inb = concat (map (\<lambda>m. frame (body m)) rs) @ (st_inhdr ?s @ us_buf ?u) @ us_pending rd i (uss w)"
      "\<not> us_pollin ?u" "TASK_RECV \<notin> set (us_tasks ?u)"
      by (auto simp: in_live_def Let_def)
    let ?w' = "set_base k (?b\<lparr>pb_instate := IN_IDLE, pb_in := True\<rparr>)
      (upd_st k (\<lambda>s. s\<lparr>st_inmsg := (st_inmsg s)\<lparr>body := us_buf ?u\<rparr>, st_instate := Some INSTATE_HASMSG\<rparr>) ?w)"
    have run: "stream_received check os (sa_rcvmaxsize sa) k ?w = Some ?w'"
      using i st body by (simp add: stream_received_def on_base_def grid_pipebase_received_def raise_in_def)
    have f: "frame (us_buf ?u) = st_inhdr ?s @ us_buf ?u" using frame_header [OF i(5)] by simp
    have p: "plain ((st_inmsg ?s)\<lparr>body := us_buf ?u\<rparr>)" using i(4,6) by (simp add: plain_def)
    have "sess_live fd k i ?w'" using st u by (simp add: sess_live_def Let_def us_connected_def)
    moreover have "out_live wr k i outb ss ?w'" by (rule out) simp_all
    moreover have "in_live rd k i inb rs ?w'" using i p f pend by (simp add: in_live_def Let_def)
    ultimately show ?thesis using run del by auto
  next
    case hdr
    with l(2) e have i: "pb_instate ?b = IN_ASYNC" "\<not> pb_in ?b" "us_len ?u = 0" "length (us_buf ?u) = hdrlen" "list_all plain rs"
      "inb = concat (map (\<lambda>m. frame (body m)) rs) @ us_buf ?u @ us_pending rd i (uss w)"
      "\<not> us_pollin ?u" "TASK_RECV \<notin> set (us_tasks ?u)"
      by (auto simp: in_live_def Let_def)
    have pre: "prefix (concat (map (\<lambda>m. frame (body m)) rs)) inb" using i(6) by simp
    have sent: "prefix (wr (sy_os (uss w))) (outb @ concat (map (\<lambda>m. frame (merged m)) ss))"
      by (rule frames_sent_prefix [OF l(3)])
    have rcv: "stream_received check os (sa_rcvmaxsize sa) k ?w = stream_header_received check os (sa_rcvmaxsize sa) k (us_buf ?u) ?w"
      using st hdr by (simp add: stream_received_def)
    obtain r where r: "check (sa_rcvmaxsize sa) (us_buf ?u) = Some r" using c [OF hdr i(4)] by blast
    let ?wh = "upd_st k (\<lambda>s. s\<lparr>st_inhdr := us_buf ?u\<rparr>) ?w"
    show ?thesis
    proof (cases r)
      case None
      let ?w' = "upd_st k (\<lambda>s. s\<lparr>st_done := Some GRID_STCP_ERROR\<rparr>) (st_set k ST_DONE ?wh)"
      have "stream_header_received check os (sa_rcvmaxsize sa) k (us_buf ?u) ?w = Some ?w'"
        using r None st unfolding stream_header_received_def Let_def by (simp add: st_raise_def st_set_def)
      moreover have "sess_broken wr k i inb outb (?w', rs, ss)"
        using pre sent i(5) by (simp add: sess_broken_def st_set_def)
      ultimately show ?thesis using del rcv by auto
    next
      case (Some sz)
      have h: "header (unat sz) = Some (us_buf ?u)" using check_header [OF i(4)] r Some by simp
      show ?thesis
      proof (cases "sz = 0")
        case True
        let ?w' = "set_base k (?b\<lparr>pb_instate := IN_IDLE, pb_in := True\<rparr>)
          (upd_st k (\<lambda>s. s\<lparr>st_inmsg := no_msg, st_instate := Some INSTATE_HASMSG\<rparr>) ?wh)"
        have run: "stream_header_received check os (sa_rcvmaxsize sa) k (us_buf ?u) ?w = Some ?w'"
          using r Some True i unfolding stream_header_received_def Let_def by (simp add: on_base_def grid_pipebase_received_def raise_in_def)
        have f: "frame [] = us_buf ?u" using frame_header [of "[]"] h True by simp
        have "sess_live fd k i ?w'" using st u by (simp add: sess_live_def Let_def us_connected_def)
        moreover have "out_live wr k i outb ss ?w'" by (rule out) simp_all
        moreover have "in_live rd k i inb rs ?w'"
          using i f pend by (simp add: in_live_def Let_def no_msg_def plain_def)
        ultimately show ?thesis using run del rcv by auto
      next
        case False
        have n: "0 < unat sz" using False by (simp add: unat_gt_0)
        obtain v' where v': "grid_usock_recv os i (unat sz) False ?v = Some v'" "wr (sy_os v') = wr (sy_os ?v)"
          "usock_broken k ST_ACTIVE (usk v' i) \<or> requested rd fd k i (unat sz) ?v v'"
          using request_ok [OF os u _ _ _ n] i(3,7,8) by auto
        let ?m = "no_msg\<lparr>body := replicate (unat sz) 0\<rparr>"
        let ?w' = "set_uss v' (upd_st k (\<lambda>s. s\<lparr>st_inmsg := ?m, st_instate := Some INSTATE_BODY\<rparr>) ?wh)"
        have run: "stream_header_received check os (sa_rcvmaxsize sa) k (us_buf ?u) ?w = Some ?w'"
          using r Some False v'(1) st unfolding stream_header_received_def Let_def by (simp add: on_usock_def)
        have p: "plain ?m" using unsigned_less [of sz, where ?'a = nat] by (simp add: plain_def no_msg_def)
        from v'(3) show ?thesis
        proof
          assume "usock_broken k ST_ACTIVE (usk v' i)"
          then have "sess_broken wr k i inb outb (?w', rs, ss)"
            using st v'(2) pre sent i(5) by (intro brokenI) simp_all
          with run del rcv show ?thesis by auto
        next
          assume q: "requested rd fd k i (unat sz) ?v v'"
          have "sess_live fd k i ?w'" using q st by (auto simp: sess_live_def requested_def Let_def)
          moreover have "out_live wr k i outb ss ?w'"
            using q v'(2) e by (subst out_live_cong [of _ _ w]) (use l(3) in \<open>auto simp: requested_def Let_def\<close>)
          moreover have "in_live rd k i inb rs ?w'"
            using q i h p pend by (auto simp: in_live_def requested_def Let_def no_msg_def)
          ultimately show ?thesis using run del rcv by auto
        qed
      qed
    qed
  qed
qed

lemma stop_pipe_simps [simp]:
  "stc (st_stop_pipe k w) j = stc w j" "uss (st_stop_pipe k w) = uss w"
  by (simp_all add: st_stop_pipe_def grid_pipebase_stop_def Let_def stc_def uss_def set_base_def)

lemma deliver_broken:
  assumes b: "sess_broken wr k i inb outb (w, rs, ss)" and st: "st_state (stc w k) \<noteq> ST_DONE"
    and e: "us_events (usk (uss w) i) \<noteq> []"
  shows "\<exists>w'. deliver_usock hdrlen check os sa i w = Some (None, w') \<and> sess_broken wr k i inb outb (w', rs, ss)"
proof -
  let ?u = "usk (uss w) i" and ?s = "stc w k" and ?v = "upd_us i (\<lambda>u. u\<lparr>us_events := []\<rparr>) (uss w)"
  have s: "st_fsm ?s = FSM_ACTIVE" "st_usock ?s = Some i" "st_done ?s = None" "usock_broken k (st_state ?s) ?u"
    and p: "prefix (concat (map (\<lambda>m. frame (body m)) rs)) inb" "list_all plain rs"
    "prefix (wr (sy_os (uss w))) (outb @ concat (map (\<lambda>m. frame (merged m)) ss))"
    using b st by (auto simp: sess_broken_def Let_def)
  from s(4) e consider
      (shutdown) "us_events ?u = [(OB_ERROR, OwnerSession k, GRID_USOCK_SHUTDOWN)]" "st_state ?s = ST_ACTIVE"
        "us_state ?u = US_REMOVING_FD"
    | (error) "us_events ?u = [(OB_ERROR, OwnerSession k, GRID_USOCK_ERROR)]" "st_state ?s = ST_ACTIVE"
    | (closing) "us_events ?u = [(OB_ERROR, OwnerSession k, GRID_USOCK_ERROR)]" "st_state ?s = ST_SHUTTING_DOWN"
    by (auto simp: usock_broken_def)
  then show ?thesis
  proof cases
    case shutdown
    let ?x = "st_set k ST_SHUTTING_DOWN (st_stop_pipe k (set_uss ?v w))"
    have "deliver_usock hdrlen check os sa i w = Some (None, ?x)"
      using s shutdown(2) by (simp add: deliver_usock_def us_take_event_one [OF shutdown(1)] stream_feed_def
        stream_handler_def stream_active_def)
    moreover have "sess_broken wr k i inb outb (?x, rs, ss)"
      by (rule brokenI) (use s shutdown p in \<open>auto simp: st_set_def usock_broken_def\<close>)
    ultimately show ?thesis by blast
  next
    case error
    let ?x = "upd_st k (\<lambda>s. s\<lparr>st_done := Some GRID_STCP_ERROR\<rparr>) (st_set k ST_DONE (st_stop_pipe k (set_uss ?v w)))"
    have "deliver_usock hdrlen check os sa i w = Some (None, ?x)"
      using s error(2) by (simp add: deliver_usock_def us_take_event_one [OF error(1)] stream_feed_def
        stream_handler_def stream_active_def st_raise_def st_set_def)
    moreover have "sess_broken wr k i inb outb (?x, rs, ss)"
      using p by (simp add: sess_broken_def st_set_def)
    ultimately show ?thesis by blast
  next
    case closing
    let ?x = "upd_st k (\<lambda>s. s\<lparr>st_done := Some GRID_STCP_ERROR\<rparr>) (st_set k ST_DONE (set_uss ?v w))"
    have "deliver_usock hdrlen check os sa i w = Some (None, ?x)"
      using s closing(2) by (simp add: deliver_usock_def us_take_event_one [OF closing(1)] stream_feed_def
        stream_handler_def stream_active_def st_raise_def st_set_def)
    moreover have "sess_broken wr k i inb outb (?x, rs, ss)"
      using p by (simp add: sess_broken_def st_set_def)
    ultimately show ?thesis by blast
  qed
qed

text \<open>The socket receives a message.\<close>

lemma recv_live:
  assumes os: "stream_os os fd rd wr" and l: "sess_live fd k i w" "in_live rd k i inb rs w" "out_live wr k i outb ss w"
    and e: "us_events (usk (uss w) i) = []" "pb_instate (ps_base w k) = IN_IDLE" "\<not> pb_in (ps_base w k)"
  shows "\<exists>rc m w'. grid_pipe_recv (stream_recv hdrlen os) k w = Some (rc, m, w')
    \<and> (sess_live fd k i w' \<and> in_live rd k i inb (rs @ [m]) w' \<and> out_live wr k i outb ss w'
       \<or> sess_broken wr k i inb outb (w', rs @ [m], ss))"
proof -
  let ?u = "usk (uss w) i" and ?s = "stc w k" and ?b = "ps_base w k" and ?v = "uss w"
  have st: "st_fsm ?s = FSM_ACTIVE" "st_state ?s = ST_ACTIVE" "st_usock ?s = Some i" "st_done ?s = None"
    "us_connected fd ?u" "us_owner ?u = OwnerSession k"
    using l(1) by (simp_all add: sess_live_def Let_def)
  have has: "st_instate ?s = Some INSTATE_HASMSG"
    using in_live_states [OF l(2)] l(2) e by (elim disjE) (auto simp: in_live_def Let_def)
  with l(2) have i: "us_len ?u = 0" "plain (st_inmsg ?s)" "list_all plain rs"
    "inb = concat (map (\<lambda>m. frame (body m)) rs) @ frame (body (st_inmsg ?s)) @ us_pending rd i ?v"
    "\<not> us_pollin ?u" "TASK_RECV \<notin> set (us_tasks ?u)"
    by (auto simp: in_live_def Let_def)
  have sent: "prefix (wr (sy_os (uss w))) (outb @ concat (map (\<lambda>m. frame (merged m)) ss))"
    by (rule frames_sent_prefix [OF l(3)])
  obtain v' where v': "grid_usock_recv os i hdrlen False ?v = Some v'" "wr (sy_os v') = wr (sy_os ?v)"
    "usock_broken k ST_ACTIVE (usk v' i) \<or> requested rd fd k i hdrlen ?v v'"
    using request_ok [OF os st(5,6) e(1) i(1,5,6) hdrlen_pos] by blast
  let ?m = "st_inmsg ?s"
  let ?w = "set_base k (?b\<lparr>pb_instate := IN_ASYNC\<rparr>)
    (set_uss v' (upd_st k (\<lambda>s. s\<lparr>st_inmsg := no_msg, st_instate := Some INSTATE_HDR\<rparr>) w))"
  let ?x = "set_base k (?b\<lparr>pb_instate := IN_RECEIVING\<rparr>) w"
  have "stream_recv hdrlen os k ?x = Some (Inr (0, ?m),
      set_uss v' (upd_st k (\<lambda>s. s\<lparr>st_inmsg := no_msg, st_instate := Some INSTATE_HDR\<rparr>) ?x))"
    using st has v'(1) by (simp add: stream_recv_def on_usock_def)
  moreover have "ps_base ?x k = ?b\<lparr>pb_instate := IN_RECEIVING\<rparr>" by (simp add: set_base_def)
  ultimately have "grid_pipe_recv (stream_recv hdrlen os) k w = Some (0 OR GRID_PIPE_RELEASE, ?m,
      set_base k (?b\<lparr>pb_instate := IN_ASYNC\<rparr>)
        (set_uss v' (upd_st k (\<lambda>s. s\<lparr>st_inmsg := no_msg, st_instate := Some INSTATE_HDR\<rparr>) ?x)))"
    using e(2) by (simp add: grid_pipe_recv_def)
  moreover have "set_base k (?b\<lparr>pb_instate := IN_ASYNC\<rparr>)
        (set_uss v' (upd_st k (\<lambda>s. s\<lparr>st_inmsg := no_msg, st_instate := Some INSTATE_HDR\<rparr>) ?x)) = ?w"
    by (simp add: set_base_def set_uss_def upd_st_def)
  ultimately have run: "grid_pipe_recv (stream_recv hdrlen os) k w = Some (0 OR GRID_PIPE_RELEASE, ?m, ?w)" by simp
  have b: "ps_base ?w k = ?b\<lparr>pb_instate := IN_ASYNC\<rparr>" by (simp add: set_base_def)
  from v'(3) show ?thesis
  proof
    assume "usock_broken k ST_ACTIVE (usk v' i)"
    then have "sess_broken wr k i inb outb (?w, rs @ [?m], ss)"
      using st v'(2) sent i(2,3,4) by (intro brokenI) simp_all
    with run show ?thesis by blast
  next
    assume q: "requested rd fd k i hdrlen ?v v'"
    have "sess_live fd k i ?w" using q st by (auto simp: sess_live_def requested_def Let_def)
    moreover have "out_live wr k i outb ss ?w"
      using q v'(2) e b by (subst out_live_cong [of _ _ w]) (use l(3) in \<open>auto simp: requested_def Let_def\<close>)
    moreover have "in_live rd k i inb (rs @ [?m]) ?w"
      using q i e(3) b by (auto simp: in_live_def requested_def Let_def)
    ultimately show ?thesis using run by blast
  qed
qed

text \<open>The socket sends a message.\<close>

lemma out_live_states:
  assumes "out_live wr k i outb ss w" and "pb_outstate (ps_base w k) = OUT_IDLE"
  shows "st_outstate (stc w k) = Some OUTSTATE_IDLE" and "us_iov (usk (uss w) i) = []"
    and "TASK_SEND \<notin> set (us_tasks (usk (uss w) i))" and "\<not> us_pollout (usk (uss w) i)"
    and "wr (sy_os (uss w)) = outb @ concat (map (\<lambda>m. frame (merged m)) ss)"
proof -
  have "st_outstate (stc w k) = Some OUTSTATE_IDLE \<and> us_iov (usk (uss w) i) = []"
  proof (cases "st_outstate (stc w k)")
    case None
    with assms show ?thesis by (simp add: out_live_def Let_def)
  next
    case (Some st)
    with assms show ?thesis by (cases st) (auto simp: out_live_def Let_def)
  qed
  with assms(1) show "st_outstate (stc w k) = Some OUTSTATE_IDLE" "us_iov (usk (uss w) i) = []"
    "TASK_SEND \<notin> set (us_tasks (usk (uss w) i))" "\<not> us_pollout (usk (uss w) i)"
    "wr (sy_os (uss w)) = outb @ concat (map (\<lambda>m. frame (merged m)) ss)"
    by (auto simp: out_live_def Let_def)
qed

lemma send_live:
  assumes os: "stream_os os fd rd wr" and l: "sess_live fd k i w" "in_live rd k i inb rs w" "out_live wr k i outb ss w"
    and e: "us_events (usk (uss w) i) = []" "pb_outstate (ps_base w k) = OUT_IDLE" "\<not> pb_out (ps_base w k)"
  shows "\<exists>rc w'. grid_pipe_send (stream_send header os) k m w = Some (rc, w')
    \<and> (sess_live fd k i w' \<and> in_live rd k i inb rs w' \<and> out_live wr k i outb (ss @ [m]) w'
       \<or> sess_broken wr k i inb outb (w', rs, ss @ [m]))"
proof -
  let ?u = "usk (uss w) i" and ?s = "stc w k" and ?b = "ps_base w k" and ?v = "uss w"
  have st: "st_fsm ?s = FSM_ACTIVE" "st_state ?s = ST_ACTIVE" "st_usock ?s = Some i" "st_done ?s = None"
    "us_connected fd ?u" "us_owner ?u = OwnerSession k"
    using l(1) by (simp_all add: sess_live_def Let_def)
  note o = out_live_states [OF l(3) e(2)]
  obtain h where h: "header (length (merged m)) = Some h" using header_defined by blast
  have f: "frame (merged m) = h @ sphdr m @ body m" using frame_header [OF h] by (simp add: merged_def)
  have n: "length [h, sphdr m, body m] \<le> GRID_USOCK_MAX_IOVCNT" by (simp add: GRID_USOCK_MAX_IOVCNT_def)
  obtain iov x g where
    r: "grid_usock_send os i [h, sphdr m, body m] ?v = Some (upd_us i (\<lambda>u. g (u\<lparr>us_iov := iov\<rparr>)) (?v\<lparr>sy_os := x\<rparr>))"
    and x: "rd x = rd (sy_os ?v)" "wr x @ concat iov = wr (sy_os ?v) @ concat [h, sphdr m, body m]" "[] \<notin> set iov"
    and g: "iov = [] \<and> g = (\<lambda>u. u\<lparr>us_events := us_events u @ [(OB_SENT, us_owner u, GRID_USOCK_SENT)]\<rparr>)
       \<or> iov \<noteq> [] \<and> g = (\<lambda>u. u\<lparr>us_tasks := us_tasks u @ [TASK_SEND]\<rparr>) \<or> g = us_break"
    using usock_send_ok [OF os st(5) e(1) o(3) n] by (elim exE conjE) (rule that)
  let ?v' = "upd_us i (\<lambda>u. g (u\<lparr>us_iov := iov\<rparr>)) (?v\<lparr>sy_os := x\<rparr>)"
  let ?w = "set_base k (?b\<lparr>pb_outstate := OUT_ASYNC\<rparr>) (upd_st k (\<lambda>s. s\<lparr>st_outstate := Some OUTSTATE_SENDING\<rparr>)
    (set_uss ?v' (upd_st k (\<lambda>s. s\<lparr>st_outmsg := m, st_outhdr := h\<rparr>) w)))"
  let ?x = "set_base k (?b\<lparr>pb_outstate := OUT_SENDING\<rparr>) w"
  let ?y = "upd_st k (\<lambda>s. s\<lparr>st_outstate := Some OUTSTATE_SENDING\<rparr>)
    (set_uss ?v' (upd_st k (\<lambda>s. s\<lparr>st_outmsg := m, st_outhdr := h\<rparr>) ?x))"
  have "stream_send header os k m ?x = Some (Inr 0, ?y)"
    using st o(1) r h by (simp add: stream_send_def on_usock_def merged_def del: usock_simps)
  moreover have y: "ps_base ?y k = ?b\<lparr>pb_outstate := OUT_SENDING\<rparr>" by (simp add: set_base_def)
  ultimately have "grid_pipe_send (stream_send header os) k m w
      = Some (0 OR GRID_PIPE_RELEASE, set_base k (?b\<lparr>pb_outstate := OUT_ASYNC\<rparr>) ?y)"
    using e(2) unfolding grid_pipe_send_def Let_def by simp
  moreover have "set_base k (?b\<lparr>pb_outstate := OUT_ASYNC\<rparr>) ?y = ?w"
    by (simp add: set_base_def set_uss_def upd_st_def)
  ultimately have run: "grid_pipe_send (stream_send header os) k m w = Some (0 OR GRID_PIPE_RELEASE, ?w)" by simp
  have b: "ps_base ?w k = ?b\<lparr>pb_outstate := OUT_ASYNC\<rparr>" by (simp add: set_base_def)
  have all: "wr x @ concat iov = outb @ concat (map (\<lambda>m. frame (merged m)) (ss @ [m]))"
    using x(2) o(5) f by simp
  show ?thesis
  proof (cases "g = us_break")
    case True
    have "usock_broken k ST_ACTIVE (usk ?v' i)"
      using True st(5,6) e(1) by (auto simp: usock_broken_def us_break_def us_connected_def)
    moreover have "prefix (wr x) (outb @ concat (map (\<lambda>m. frame (merged m)) (ss @ [m])))" by (rule prefixI [OF all [symmetric]])
    ultimately have "sess_broken wr k i inb outb (?w, rs, ss @ [m])"
      using st frames_received_prefix [OF l(2)] by (intro brokenI) (simp_all del: usock_simps(1))
    with run show ?thesis by blast
  next
    case False
    define U where "U = usk ?v' i"
    have U: "us_len U = us_len ?u" "us_buf U = us_buf ?u" "us_iov U = iov" "us_pollin U = us_pollin ?u" "us_pollout U = us_pollout ?u"
      "us_owner U = OwnerSession k" "us_connected fd U" "us_pos U = us_pos ?u" "us_batch U = us_batch ?u"
      "us_events U = (if iov = [] then [(OB_SENT, OwnerSession k, GRID_USOCK_SENT)] else [])"
      "set (us_tasks U) = set (us_tasks ?u) \<union> (if iov = [] then {} else {TASK_SEND})"
      using g False st(5,6) e(1) o(3) unfolding U_def by (auto simp: us_connected_def)
    have "us_pending rd i ?v' = us_pending rd i ?v" using U(8,9) x(1) by (simp add: us_pending_def U_def)
    then have "in_live rd k i inb rs ?w"
      using U e b by (subst in_live_cong [of _ _ w]) (use l(2) in \<open>simp_all add: U_def [symmetric] del: usock_simps(1)\<close>)
    moreover have "sess_live fd k i ?w"
      using st U(6,7,10) by (simp add: sess_live_def Let_def U_def [symmetric] del: usock_simps(1))
    moreover have "out_live wr k i outb (ss @ [m]) ?w"
      unfolding out_live_def Let_def using U all x(3) b e(3) o(3,4)
      by (simp add: U_def [symmetric] del: usock_simps(1) map_append)
    ultimately show ?thesis using run by blast
  qed
qed

text \<open>The pipe's events reach the socket.\<close>

lemma pipe_live:
  fixes w :: "'o tcp" and k :: nat
  defines "w' \<equiv> set_base k ((ps_base w k)\<lparr>pb_in := False, pb_out := False\<rparr>) w"
  assumes l: "sess_live fd k i w" "in_live rd k i inb rs w" "out_live wr k i outb ss w"
  shows "sess_live fd k i w' \<and> in_live rd k i inb rs w' \<and> out_live wr k i outb ss w'"
proof -
  have b: "ps_base w' k = (ps_base w k)\<lparr>pb_in := False, pb_out := False\<rparr>" by (simp add: w'_def set_base_def)
  have c: "stc w' k = stc w k" "uss w' = uss w" by (simp_all add: w'_def)
  have "in_live rd k i inb rs w'"
    using in_live_states [OF l(2)] l(2) unfolding in_live_def Let_def b c by (elim disjE) auto
  moreover have "out_live wr k i outb ss w'"
  proof (cases "st_outstate (stc w k)")
    case None
    with l(3) show ?thesis by (simp add: out_live_def Let_def)
  next
    case (Some st)
    with l(3) show ?thesis unfolding out_live_def Let_def b c by (cases st) auto
  qed
  ultimately show ?thesis using l(1) by (simp add: sess_live_def c)
qed

section \<open>Every step\<close>

text \<open>
  An enabled step does not abort and keeps the invariant, unless it reads a header that the
  session takes for a defect of the program.
\<close>

lemma live_step:
  assumes os: "stream_os os fd rd wr" and l: "sess_live fd k i w" "in_live rd k i inb rs w" "out_live wr k i outb ss w"
    and n: "list_all (\<lambda>m. length (merged m) < 2 ^ 64) ss" and en: "stream_enabled k i lab (w, rs, ss)"
    and c: "\<And>sa. lab = EvDeliver sa \<Longrightarrow> st_instate (stc w k) = Some INSTATE_HDR \<Longrightarrow> length (us_buf (usk (uss w) i)) = hdrlen \<Longrightarrow>
      check (sa_rcvmaxsize sa) (us_buf (usk (uss w) i)) \<noteq> None"
  shows "\<exists>r. stream_step hdrlen header check os k i lab (w, rs, ss) = Some r \<and> sess_inv rd wr fd k i inb outb r"
proof (cases lab)
  case (EvFd ev)
  with en obtain w' where "worker_fd_event os i ev w = Some w'"
    "sess_live fd k i w' \<and> in_live rd k i inb rs w' \<and> out_live wr k i outb ss w' \<or> sess_broken wr k i inb outb (w', rs, ss)"
    using fd_live [OF os l, of ev] by (auto simp: stream_enabled_def Let_def)
  with EvFd n show ?thesis by (simp add: stream_step_def sess_inv_def)
next
  case EvTask
  obtain w' where "worker_usock_task os i w = Some w'"
    "sess_live fd k i w' \<and> in_live rd k i inb rs w' \<and> out_live wr k i outb ss w'"
    using task_live [OF l] by blast
  with EvTask n show ?thesis by (simp add: stream_step_def sess_inv_def)
next
  case (EvDeliver sa)
  with en have "us_events (usk (uss w) i) \<noteq> []" by (simp add: stream_enabled_def Let_def)
  with l(1) consider
      "us_events (usk (uss w) i) = [(OB_RECEIVED, OwnerSession k, GRID_USOCK_RECEIVED)]"
    | "us_events (usk (uss w) i) = [(OB_SENT, OwnerSession k, GRID_USOCK_SENT)]"
    by (auto simp: sess_live_def Let_def)
  then obtain w' where "deliver_usock hdrlen check os sa i w = Some (None, w')"
    "sess_live fd k i w' \<and> in_live rd k i inb rs w' \<and> out_live wr k i outb ss w' \<or> sess_broken wr k i inb outb (w', rs, ss)"
  proof cases
    case 1
    have "\<exists>w'. deliver_usock hdrlen check os sa i w = Some (None, w')
      \<and> (sess_live fd k i w' \<and> in_live rd k i inb rs w' \<and> out_live wr k i outb ss w' \<or> sess_broken wr k i inb outb (w', rs, ss))"
      by (rule deliver_received [OF os l 1]) (rule c [OF EvDeliver])
    then show ?thesis by (elim exE conjE) (rule that)
  next
    case 2
    from deliver_sent [OF l 2, where sa = sa and os = os] show ?thesis by (elim exE conjE) (rule that, assumption, intro disjI1 conjI)
  qed
  with EvDeliver n show ?thesis by (simp add: stream_step_def sess_inv_def)
next
  case EvPipe
  with pipe_live [OF l] n show ?thesis by (simp add: stream_step_def sess_inv_def)
next
  case (EvSend m)
  with en have e: "us_events (usk (uss w) i) = []" "pb_outstate (ps_base w k) = OUT_IDLE" "\<not> pb_out (ps_base w k)"
    "length (merged m) < 2 ^ 64" by (auto simp: stream_enabled_def Let_def merged_def)
  from send_live [OF os l e(1-3), of m] obtain rc w' where "grid_pipe_send (stream_send header os) k m w = Some (rc, w')"
    "sess_live fd k i w' \<and> in_live rd k i inb rs w' \<and> out_live wr k i outb (ss @ [m]) w'
       \<or> sess_broken wr k i inb outb (w', rs, ss @ [m])" by (elim exE conjE) (rule that)
  with EvSend n e(4) show ?thesis by (simp add: stream_step_def sess_inv_def)
next
  case EvRecv
  with en have e: "us_events (usk (uss w) i) = []" "pb_instate (ps_base w k) = IN_IDLE" "\<not> pb_in (ps_base w k)"
    by (auto simp: stream_enabled_def Let_def)
  from recv_live [OF os l e(1-3)] obtain rc m w' where "grid_pipe_recv (stream_recv hdrlen os) k w = Some (rc, m, w')"
    "sess_live fd k i w' \<and> in_live rd k i inb (rs @ [m]) w' \<and> out_live wr k i outb ss w'
       \<or> sess_broken wr k i inb outb (w', rs @ [m], ss)" by (elim exE conjE) (rule that)
  with EvRecv n show ?thesis by (simp add: stream_step_def sess_inv_def)
qed

lemma broken_step:
  assumes os: "stream_os os fd rd wr" and b: "sess_broken wr k i inb outb (w, rs, ss)"
    and n: "list_all (\<lambda>m. length (merged m) < 2 ^ 64) ss" and en: "stream_enabled k i lab (w, rs, ss)"
  shows "\<exists>r. stream_step hdrlen header check os k i lab (w, rs, ss) = Some r \<and> sess_inv rd wr fd k i inb outb r"
proof -
  have st: "st_state (stc w k) \<noteq> ST_DONE" using en by (simp add: stream_enabled_def Let_def)
  with b have u: "usock_broken k (st_state (stc w k)) (usk (uss w) i)" by (auto simp: sess_broken_def Let_def)
  show ?thesis
  proof (cases lab)
    case (EvFd ev)
    then have "worker_fd_event os i ev w = Some w"
      using fd_broken [OF b st] en by (simp add: stream_enabled_def Let_def)
    with EvFd n b show ?thesis by (simp add: stream_step_def sess_inv_def)
  next
    case EvTask
    then obtain w' where "worker_usock_task os i w = Some w'" "sess_broken wr k i inb outb (w', rs, ss)"
      using task_broken [OF os b st] en by (auto simp: stream_enabled_def Let_def)
    with EvTask n show ?thesis by (simp add: stream_step_def sess_inv_def)
  next
    case (EvDeliver sa)
    then obtain w' where "deliver_usock hdrlen check os sa i w = Some (None, w')" "sess_broken wr k i inb outb (w', rs, ss)"
      using deliver_broken [OF b st, where sa = sa and os = os] en by (auto simp: stream_enabled_def Let_def)
    with EvDeliver n show ?thesis by (simp add: stream_step_def sess_inv_def)
  next
    case EvPipe
    with b n show ?thesis by (simp add: stream_step_def sess_inv_def sess_broken_def Let_def)
  next
    case (EvSend m)
    with en u show ?thesis by (auto simp: stream_enabled_def Let_def usock_broken_def)
  next
    case EvRecv
    with en u show ?thesis by (auto simp: stream_enabled_def Let_def usock_broken_def)
  qed
qed

lemma step_ok:
  assumes os: "stream_os os fd rd wr" and i: "sess_inv rd wr fd k i inb outb (w, rs, ss)"
    and en: "stream_enabled k i lab (w, rs, ss)"
    and c: "\<And>sa. lab = EvDeliver sa \<Longrightarrow> st_instate (stc w k) = Some INSTATE_HDR \<Longrightarrow> length (us_buf (usk (uss w) i)) = hdrlen \<Longrightarrow>
      check (sa_rcvmaxsize sa) (us_buf (usk (uss w) i)) \<noteq> None"
  shows "\<exists>r. stream_step hdrlen header check os k i lab (w, rs, ss) = Some r \<and> sess_inv rd wr fd k i inb outb r"
proof -
  have n: "list_all (\<lambda>m. length (merged m) < 2 ^ 64) ss" using i by (simp add: sess_inv_def)
  from i consider "sess_live fd k i w" "in_live rd k i inb rs w" "out_live wr k i outb ss w"
    | "sess_broken wr k i inb outb (w, rs, ss)" unfolding sess_inv_def by blast
  then show ?thesis
  proof cases
    case 1
    show ?thesis by (rule live_step [OF os 1 n en]) (rule c)
  next
    case 2
    show ?thesis by (rule broken_step [OF os 2 n en])
  qed
qed

lemma deliver_checks:
  assumes l: "sess_live fd k i w" "in_live rd k i inb rs w"
    and e: "us_events (usk (uss w) i) = [(OB_RECEIVED, OwnerSession k, GRID_USOCK_RECEIVED)]"
    and s: "st_instate (stc w k) = Some INSTATE_HDR" and d: "deliver_usock hdrlen check os sa i w = Some x"
  shows "check (sa_rcvmaxsize sa) (us_buf (usk (uss w) i)) \<noteq> None"
proof
  assume "check (sa_rcvmaxsize sa) (us_buf (usk (uss w) i)) = None"
  with l(1) s d show False
    by (simp add: sess_live_def Let_def deliver_usock_def us_take_event_one [OF e] stream_feed_def stream_handler_def
      stream_active_def stream_received_def stream_header_received_def)
qed

text \<open>Whatever a session takes for a defect: the steps that do not abort keep the invariant.\<close>

lemma step_inv:
  assumes os: "stream_os os fd rd wr" and i: "sess_inv rd wr fd k i inb outb (w, rs, ss)"
    and en: "stream_enabled k i lab (w, rs, ss)" and st: "stream_step hdrlen header check os k i lab (w, rs, ss) = Some r"
  shows "sess_inv rd wr fd k i inb outb r"
proof -
  have n: "list_all (\<lambda>m. length (merged m) < 2 ^ 64) ss" using i by (simp add: sess_inv_def)
  from i consider "sess_live fd k i w" "in_live rd k i inb rs w" "out_live wr k i outb ss w"
    | "sess_broken wr k i inb outb (w, rs, ss)" unfolding sess_inv_def by blast
  then show ?thesis
  proof cases
    case 1
    show ?thesis
    proof (cases "us_events (usk (uss w) i) = [(OB_RECEIVED, OwnerSession k, GRID_USOCK_RECEIVED)]")
      case True
      have "\<exists>r. stream_step hdrlen header check os k i lab (w, rs, ss) = Some r \<and> sess_inv rd wr fd k i inb outb r"
      proof (rule live_step [OF os 1 n en])
        fix sa
        assume "lab = EvDeliver sa" "st_instate (stc w k) = Some INSTATE_HDR"
        then show "check (sa_rcvmaxsize sa) (us_buf (usk (uss w) i)) \<noteq> None"
          using deliver_checks [OF 1(1,2) True, where os = os and sa = sa] st by (auto simp: stream_step_def)
      qed
      with st show ?thesis by auto
    next
      case False
      show ?thesis
      proof (cases "\<exists>sa. lab = EvDeliver sa")
        case True
        with en False 1(1) have e: "us_events (usk (uss w) i) = [(OB_SENT, OwnerSession k, GRID_USOCK_SENT)]"
          by (auto simp: stream_enabled_def sess_live_def Let_def)
        from True obtain sa where sa: "lab = EvDeliver sa" by blast
        from deliver_sent [OF 1 e, where sa = sa and os = os] st n sa show ?thesis
          by (auto simp: stream_step_def sess_inv_def)
      next
        case other: False
        have "\<exists>r. stream_step hdrlen header check os k i lab (w, rs, ss) = Some r \<and> sess_inv rd wr fd k i inb outb r"
          by (rule live_step [OF os 1 n en]) (use other in blast)
        with st show ?thesis by auto
      qed
    qed
  next
    case 2
    with broken_step [OF os 2 n en] st show ?thesis by auto
  qed
qed

lemma reach_inv:
  assumes os: "stream_os os fd rd wr" and r: "stream_reach hdrlen header check os fd k i w0 r"
  shows "sess_inv rd wr fd k i (us_pending rd i (uss w0)) (wr (sy_os (uss w0))) r"
  using r
proof induction
  case (reach_start w1)
  from start_ok [OF os reach_start(1)] reach_start(2) show ?case by auto
next
  case (reach_more r lab r')
  then show ?case using step_inv [OF os] by (metis prod_cases3)
qed

text \<open>What was received and what was sent, on the wire.\<close>

lemma inv_wire:
  assumes "sess_inv rd wr fd k i inb outb (w, rs, ss)"
  shows "prefix (concat (map frame (map body rs))) inb"
    and "prefix (wr (sy_os (uss w))) (outb @ concat (map frame (map merged ss)))"
    and "list_all (\<lambda>x. length x < 2 ^ 64) (map body rs)" and "list_all (\<lambda>x. length x < 2 ^ 64) (map merged ss)"
    and "\<forall>m\<in>set rs. sphdr m = []"
proof -
  from assms have p: "prefix (concat (map (\<lambda>m. frame (body m)) rs)) inb \<and> list_all plain rs"
    "prefix (wr (sy_os (uss w))) (outb @ concat (map (\<lambda>m. frame (merged m)) ss))"
    unfolding sess_inv_def by (auto dest: frames_received_prefix frames_sent_prefix simp: sess_broken_def Let_def)
  then show "prefix (concat (map frame (map body rs))) inb"
    "prefix (wr (sy_os (uss w))) (outb @ concat (map frame (map merged ss)))"
    "list_all (\<lambda>x. length x < 2 ^ 64) (map body rs)" "\<forall>m\<in>set rs. sphdr m = []"
    by (auto simp: comp_def list_all_iff plain_def)
  show "list_all (\<lambda>x. length x < 2 ^ 64) (map merged ss)" using assms by (simp add: sess_inv_def list_all_iff)
qed

text \<open>
  Two sessions, and a wire that brings what the one has sent to the other: what the second
  receives is what the first was given to send.
\<close>

lemma messages_arrive:
  assumes "stream_os os fd rd wr" and "stream_reach hdrlen header check os fd k i w0 (w, rs, ss)"
    and "stream_os os' fd' rd' wr'" and "stream_reach hdrlen header check os' fd' k' i' v0 (v, rs', ss')"
    and "wr (sy_os (uss w)) = wr (sy_os (uss w0)) @ wire" and "prefix (us_pending rd' i' (uss v0)) wire"
  shows "prefix (map body rs') (map merged ss)"
proof (rule frames_prefix)
  from inv_wire [OF reach_inv [OF assms(1,2)]] inv_wire [OF reach_inv [OF assms(3,4)]] assms(5,6)
  show "prefix (concat (map frame (map body rs'))) (concat (map frame (map merged ss)))"
    and "list_all (\<lambda>x. length x < 2 ^ 64) (map body rs')" and "list_all (\<lambda>x. length x < 2 ^ 64) (map merged ss)"
    by (auto intro: prefix_order.trans)
qed

end

end
