(* ===== verification/Codec.thy ===== *)
theory Codec
  imports Wire
begin

text \<open>
  Texts that the transports read and write (\<open>src/transports/utils\<close>): base64
  (\<open>base64.c\<close>), port numbers (\<open>port.c\<close>), literal addresses (\<open>literal.c\<close>), host names
  (\<open>dns.c\<close>) and interfaces (\<open>iface.c\<close>). A C string of known length is a list of
  characters. The operating system's \<open>inet_pton\<close> is an argument. Lengths are below
  \<open>2 ^ 32\<close>, so that the \<open>unsigned\<close> counters of \<open>base64.c\<close> do not wrap.
\<close>

section \<open>Base64\<close>

definition DECODEMAP :: "u8 list" where
  "DECODEMAP = [
     0xFF, 0xFF, 0xFF, 0xFF, 0xFF, 0xFF, 0xFF, 0xFF, 0xFF, 0xFF, 0xFF, 0xFF, 0xFF, 0xFF, 0xFF, 0xFF,
     0xFF, 0xFF, 0xFF, 0xFF, 0xFF, 0xFF, 0xFF, 0xFF, 0xFF, 0xFF, 0xFF, 0xFF, 0xFF, 0xFF, 0xFF, 0xFF,
     0xFF, 0xFF, 0xFF, 0xFF, 0xFF, 0xFF, 0xFF, 0xFF, 0xFF, 0xFF, 0xFF, 0x3E, 0xFF, 0xFF, 0xFF, 0x3F,
     0x34, 0x35, 0x36, 0x37, 0x38, 0x39, 0x3A, 0x3B, 0x3C, 0x3D, 0xFF, 0xFF, 0xFF, 0x3E, 0xFF, 0xFF,
     0xFF, 0x00, 0x01, 0x02, 0x03, 0x04, 0x05, 0x06, 0x07, 0x08, 0x09, 0x0A, 0x0B, 0x0C, 0x0D, 0x0E,
     0x0F, 0x10, 0x11, 0x12, 0x13, 0x14, 0x15, 0x16, 0x17, 0x18, 0x19, 0xFF, 0xFF, 0xFF, 0xFF, 0xFF,
     0xFF, 0x1A, 0x1B, 0x1C, 0x1D, 0x1E, 0x1F, 0x20, 0x21, 0x22, 0x23, 0x24, 0x25, 0x26, 0x27, 0x28,
     0x29, 0x2A, 0x2B, 0x2C, 0x2D, 0x2E, 0x2F, 0x30, 0x31, 0x32, 0x33, 0xFF, 0xFF, 0xFF, 0xFF, 0xFF,
     0xFF, 0xFF, 0xFF, 0xFF, 0xFF, 0xFF, 0xFF, 0xFF, 0xFF, 0xFF, 0xFF, 0xFF, 0xFF, 0xFF, 0xFF, 0xFF,
     0xFF, 0xFF, 0xFF, 0xFF, 0xFF, 0xFF, 0xFF, 0xFF, 0xFF, 0xFF, 0xFF, 0xFF, 0xFF, 0xFF, 0xFF, 0xFF,
     0xFF, 0xFF, 0xFF, 0xFF, 0xFF, 0xFF, 0xFF, 0xFF, 0xFF, 0xFF, 0xFF, 0xFF, 0xFF, 0xFF, 0xFF, 0xFF,
     0xFF, 0xFF, 0xFF, 0xFF, 0xFF, 0xFF, 0xFF, 0xFF, 0xFF, 0xFF, 0xFF, 0xFF, 0xFF, 0xFF, 0xFF, 0xFF,
     0xFF, 0xFF, 0xFF, 0xFF, 0xFF, 0xFF, 0xFF, 0xFF, 0xFF, 0xFF, 0xFF, 0xFF, 0xFF, 0xFF, 0xFF, 0xFF,
     0xFF, 0xFF, 0xFF, 0xFF, 0xFF, 0xFF, 0xFF, 0xFF, 0xFF, 0xFF, 0xFF, 0xFF, 0xFF, 0xFF, 0xFF, 0xFF,
     0xFF, 0xFF, 0xFF, 0xFF, 0xFF, 0xFF, 0xFF, 0xFF, 0xFF, 0xFF, 0xFF, 0xFF, 0xFF, 0xFF, 0xFF, 0xFF,
     0xFF, 0xFF, 0xFF, 0xFF, 0xFF, 0xFF, 0xFF, 0xFF, 0xFF, 0xFF, 0xFF, 0xFF, 0xFF, 0xFF, 0xFF, 0xFF]"

definition ENCODEMAP :: string where
  "ENCODEMAP = ''ABCDEFGHIJKLMNOPQRSTUVWXYZabcdefghijklmnopqrstuvwxyz0123456789+/''"

definition isspace :: "char \<Rightarrow> bool" where
  "isspace c = (let n = of_char c :: nat in n = 32 \<or> (9 \<le> n \<and> n \<le> 13))"

definition put_out :: "nat \<Rightarrow> 'a \<Rightarrow> 'a list \<Rightarrow> errno + 'a list" where
  "put_out out_len x out = (if length out \<ge> out_len then Inl ENOBUFS else Inr (out @ [x]))"

text \<open>
  The type \<open>char\<close> is signed: a character above 127 is a negative argument of \<open>isspace\<close> and
  a negative index of the table, which is undefined.
\<close>

fun decode_loop :: "nat \<Rightarrow> string \<Rightarrow> u32 \<Rightarrow> nat \<Rightarrow> bytes \<Rightarrow> (errno + u32 \<times> nat \<times> bytes) option" where
  "decode_loop out_len [] v rem out = Some (Inr (v, rem, out))"
| "decode_loop out_len (c # cs) v rem out =
     (if (of_char c :: nat) \<ge> 128 then None
      else if isspace c then decode_loop out_len cs v rem out
      else if c = CHR ''='' then Some (Inr (v, rem, out))
      else
        let ch = DECODEMAP ! of_char c
        in if ch = 0xFF then Some (Inr (v, rem, out))
           else
             let v1 = push_bit 6 v OR ucast ch; rem1 = rem + 6
             in if rem1 \<ge> 8
                then (case put_out out_len (ucast (drop_bit (rem1 - 8) v1 AND 255)) out of
                        Inl e \<Rightarrow> Some (Inl e)
                      | Inr out1 \<Rightarrow> decode_loop out_len cs v1 (rem1 - 8) out1)
                else decode_loop out_len cs v1 rem1 out)"

definition grid_base64_decode :: "string \<Rightarrow> nat \<Rightarrow> (errno + bytes) option" where
  "grid_base64_decode cs out_len = do {
     r \<leftarrow> decode_loop out_len cs 0 0 [];
     case r of
       Inl e \<Rightarrow> Some (Inl e)
     | Inr (v, rem, out) \<Rightarrow>
         if rem \<ge> 8 then Some (put_out out_len (ucast (drop_bit (rem - 8) v AND 255)) out)
         else Some (Inr out) }"

fun emit_loop :: "nat \<Rightarrow> u32 \<Rightarrow> nat \<Rightarrow> string \<Rightarrow> errno + nat \<times> string" where
  "emit_loop out_len v rem out =
     (if rem \<ge> 6
      then (case put_out out_len (ENCODEMAP ! unat (drop_bit (rem - 6) v AND 63)) out of
              Inl e \<Rightarrow> Inl e
            | Inr out1 \<Rightarrow> emit_loop out_len v (rem - 6) out1)
      else Inr (rem, out))"

fun encode_loop :: "nat \<Rightarrow> bytes \<Rightarrow> u32 \<Rightarrow> nat \<Rightarrow> string \<Rightarrow> errno + u32 \<times> nat \<times> string" where
  "encode_loop out_len [] v rem out = Inr (v, rem, out)"
| "encode_loop out_len (b # bs) v rem out =
     (let v1 = push_bit 8 v OR ucast b
      in case emit_loop out_len v1 (rem + 8) out of
           Inl e \<Rightarrow> Inl e
         | Inr (rem1, out1) \<Rightarrow> encode_loop out_len bs v1 rem1 out1)"

function pad_loop :: "nat \<Rightarrow> string \<Rightarrow> errno + string" where
  "pad_loop out_len out =
     (if length out mod 4 \<noteq> 0
      then (case put_out out_len (CHR ''='') out of Inl e \<Rightarrow> Inl e | Inr out1 \<Rightarrow> pad_loop out_len out1)
      else Inr out)"
  by pat_completeness auto
termination
  by (relation "measure (\<lambda>(n, out). n - length out)") (auto simp: put_out_def split: if_splits)

declare emit_loop.simps [simp del] pad_loop.simps [simp del]

text \<open>The result is the text without its final null character, for which there must be room.\<close>

definition grid_base64_encode :: "bytes \<Rightarrow> nat \<Rightarrow> errno + string" where
  "grid_base64_encode bs out_len =
     (case encode_loop out_len bs 0 0 [] of
        Inl e \<Rightarrow> Inl e
      | Inr (v, rem, out) \<Rightarrow>
          (case (if rem \<noteq> 0 then put_out out_len (ENCODEMAP ! unat (push_bit (6 - rem) v AND 63)) out
                 else Inr out) of
             Inl e \<Rightarrow> Inl e
           | Inr out1 \<Rightarrow>
               (case pad_loop out_len out1 of
                  Inl e \<Rightarrow> Inl e
                | Inr out2 \<Rightarrow> if length out2 \<ge> out_len then Inl ENOBUFS else Inr out2)))"

section \<open>Ports\<close>

fun port_loop :: "string \<Rightarrow> int \<Rightarrow> errno + int" where
  "port_loop [] res = Inr res"
| "port_loop (c # cs) res =
     (if (of_char c :: int) < 48 \<or> (of_char c :: int) > 57 then Inl EINVAL
      else let res1 = res * 10 + (of_char c - 48)
           in if res1 > 0xffff then Inl EINVAL else port_loop cs res1)"

definition grid_port_resolve :: "string \<Rightarrow> errno + int" where
  "grid_port_resolve port =
     (case port_loop port 0 of
        Inl e \<Rightarrow> Inl e
      | Inr res \<Rightarrow> if res = 0 then Inl EINVAL else Inr res)"

section \<open>Addresses\<close>

text \<open>A socket address without its port: the family and the address.\<close>

datatype inet_addr = Inet bytes | Inet6 bytes

definition INET6_ADDRSTRLEN :: nat where "INET6_ADDRSTRLEN = 46"

type_synonym inet_pton = "string \<Rightarrow> bytes option"

definition grid_literal_resolve :: "inet_pton \<Rightarrow> inet_pton \<Rightarrow> string \<Rightarrow> bool \<Rightarrow> errno + inet_addr" where
  "grid_literal_resolve pton4 pton6 addr ipv4only =
     (let n = length addr;
          found = (\<lambda>addrz.
            case (if ipv4only then None else pton6 addrz) of
              Some a \<Rightarrow> Inr (Inet6 a)
            | None \<Rightarrow> (case pton4 addrz of Some a \<Rightarrow> Inr (Inet a) | None \<Rightarrow> Inl EINVAL))
      in if n > 0 \<and> addr ! 0 = CHR ''['' then
           (if addr ! (n - 1) \<noteq> CHR '']'' then Inl EINVAL
            else if n - 2 + 1 > INET6_ADDRSTRLEN then Inl EINVAL
            else found (take (n - 2) (drop 1 addr)))
         else if n + 1 > INET6_ADDRSTRLEN then Inl EINVAL
         else found addr)"

definition host_char :: "char \<Rightarrow> bool" where
  "host_char c = (let n = of_char c :: nat in
     (97 \<le> n \<and> n \<le> 122) \<or> (65 \<le> n \<and> n \<le> 90) \<or> (48 \<le> n \<and> n \<le> 57) \<or> n = 45)"

fun host_loop :: "string \<Rightarrow> nat \<Rightarrow> errno + unit" where
  "host_loop [] labelsz = (if labelsz = 0 then Inl EINVAL else Inr ())"
| "host_loop (c # cs) labelsz =
     (if c = CHR ''.'' then (if labelsz = 0 then Inl EINVAL else host_loop cs 0)
      else if host_char c then (if labelsz + 1 > 63 then Inl EINVAL else host_loop cs (labelsz + 1))
      else Inl EINVAL)"

definition grid_dns_check_hostname :: "string \<Rightarrow> errno + unit" where
  "grid_dns_check_hostname name =
     (if length name < 1 \<or> length name > 255 then Inl EINVAL
      else if name ! 0 = CHR ''-'' then Inl EINVAL
      else host_loop name 0)"

definition grid_iface_any :: "bool \<Rightarrow> inet_addr" where
  "grid_iface_any ipv4only = (if ipv4only then Inet (replicate 4 0) else Inet6 (replicate 16 0))"

definition grid_iface_resolve ::
  "inet_pton \<Rightarrow> inet_pton \<Rightarrow> string \<Rightarrow> bool \<Rightarrow> (errno + inet_addr) option" where
  "grid_iface_resolve pton4 pton6 addr ipv4only =
     (if length addr = 1 \<and> addr ! 0 = CHR ''*'' then Some (Inr (grid_iface_any ipv4only))
      else (case grid_literal_resolve pton4 pton6 addr ipv4only of
              Inl e \<Rightarrow> if e = EINVAL then Some (Inl ENODEV) else None
            | Inr a \<Rightarrow> Some (Inr a)))"

section \<open>Base64 text as groups of six bits\<close>

text \<open>The four indices of three bytes.\<close>

definition sextet :: "nat \<Rightarrow> u8 \<Rightarrow> u8 \<Rightarrow> u8 \<Rightarrow> u8" where
  "sextet k a b c =
     (if k = 0 then drop_bit 2 a
      else if k = 1 then (push_bit 4 a OR drop_bit 4 b) AND 63
      else if k = 2 then (push_bit 2 b OR drop_bit 6 c) AND 63
      else c AND 63)"

fun base64_text :: "bytes \<Rightarrow> string" where
  "base64_text (a # b # c # bs) = map (\<lambda>k. ENCODEMAP ! unat (sextet k a b c)) [0, 1, 2, 3] @ base64_text bs"
| "base64_text [a, b] = map (\<lambda>k. ENCODEMAP ! unat (sextet k a b 0)) [0, 1, 2] @ ''=''"
| "base64_text [a] = map (\<lambda>k. ENCODEMAP ! unat (sextet k a 0 0)) [0, 1] @ ''==''"
| "base64_text [] = []"

lemma length_base64_text [simp]: "length (base64_text bs) = 4 * ((length bs + 2) div 3)"
proof (induction bs rule: base64_text.induct)
  case (1 a b c bs)
  have "length (a # b # c # bs) + 2 = length bs + 2 + 1 * 3" by simp
  then have "(length (a # b # c # bs) + 2) div 3 = (length bs + 2) div 3 + 1"
    by (simp only: div_mult_self1 [of 3 _ 1])
  with 1 show ?case by simp
qed simp_all

lemma bit_sextet_mask [simp]: "bit (63 :: int) n \<longleftrightarrow> n < 6"
proof -
  have "(63 :: int) = mask 6" by (simp add: mask_eq_exp_minus_1)
  then show ?thesis by (simp only: bit_mask_iff) simp
qed

lemma bit_low_masks [simp]: "bit (15 :: int) n \<longleftrightarrow> n < 4" "bit (3 :: int) n \<longleftrightarrow> n < 2"
proof -
  have "(15 :: int) = mask 4" "(3 :: int) = mask 2" by (simp_all add: mask_eq_exp_minus_1)
  then show "bit (15 :: int) n \<longleftrightarrow> n < 4" "bit (3 :: int) n \<longleftrightarrow> n < 2" by (simp_all only: bit_mask_iff) simp_all
qed

lemma decode_table:
  assumes "i < 64"
  shows "(of_char (ENCODEMAP ! i) :: nat) < 128 \<and> \<not> isspace (ENCODEMAP ! i) \<and> ENCODEMAP ! i \<noteq> CHR ''=''
     \<and> DECODEMAP ! of_char (ENCODEMAP ! i) = of_nat i"
proof -
  have "list_all (\<lambda>i. (of_char (ENCODEMAP ! i) :: nat) < 128 \<and> \<not> isspace (ENCODEMAP ! i) \<and> ENCODEMAP ! i \<noteq> CHR ''=''
     \<and> DECODEMAP ! of_char (ENCODEMAP ! i) = of_nat i) [0..<64]"
    by code_simp
  with assms show ?thesis by (simp add: list_all_iff)
qed

lemma sextet_less: "unat (sextet k a b c) < 64"
proof -
  have "take_bit 6 (sextet k a b c) = sextet k a b c"
    by (rule bit_word_eqI) (auto simp: sextet_def bit_simps dest: bit_imp_le_length)
  then have "unat (sextet k a b c) = take_bit 6 (unat (sextet k a b c))"
    by (metis unsigned_take_bit_eq)
  also have "\<dots> < 2 ^ 6" by (rule take_bit_nat_less_exp)
  finally show ?thesis by simp
qed


text \<open>What the decoder and the encoder do to their accumulators.\<close>

definition acc6 :: "u32 \<Rightarrow> u8 \<Rightarrow> u32" where
  "acc6 v x = push_bit 6 v OR ucast x"

definition acc8 :: "u32 \<Rightarrow> u8 \<Rightarrow> u32" where
  "acc8 v x = push_bit 8 v OR ucast x"

text \<open>Decoding one character of the table.\<close>

lemma decode_sextet:
  "decode_loop m (ENCODEMAP ! unat (sextet k a b c) # cs) v rem out =
     (let v1 = acc6 v (sextet k a b c); rem1 = rem + 6
      in if rem1 \<ge> 8
         then (case put_out m (ucast (drop_bit (rem1 - 8) v1 AND 255)) out of
                 Inl e \<Rightarrow> Some (Inl e)
               | Inr out1 \<Rightarrow> decode_loop m cs v1 (rem1 - 8) out1)
         else decode_loop m cs v1 rem1 out)"
proof -
  note t = decode_table [OF sextet_less [of k a b c]]
  have "sextet k a b c \<noteq> 0xFF" using sextet_less [of k a b c] by auto
  with t show ?thesis by (simp add: Let_def acc6_def)
qed

lemma put_out_ok: "length out < m \<Longrightarrow> put_out m x out = Inr (out @ [x])"
  by (simp add: put_out_def)

text \<open>The bits that two, three and four characters put together.\<close>

lemma less_2_sub: "\<not> n < 2 \<Longrightarrow> Suc (Suc (n - 2)) = n"
  by simp

lemma join_sextets:
  "ucast (drop_bit 4 (acc6 (acc6 v (sextet 0 a b c)) (sextet 1 a b c)) AND 255 :: u32) = a"
  "ucast (drop_bit 2 (acc6 (acc6 v (sextet 1 a b c)) (sextet 2 a b c)) AND 255 :: u32) = b"
  "ucast (acc6 (acc6 v (sextet 2 a b c)) (sextet 3 a b c) AND 255 :: u32) = c"
proof -
  have *: "x = y" if "\<And>n. n < 8 \<Longrightarrow> bit x n = bit y n" for x y :: u8
    using that by (intro bit_word_eqI) simp
  show "ucast (drop_bit 4 (acc6 (acc6 v (sextet 0 a b c)) (sextet 1 a b c)) AND 255 :: u32) = a"
    by (rule *) (auto simp: sextet_def acc6_def bit_simps Suc_diff_le less_2_sub dest: bit_imp_le_length)
  show "ucast (drop_bit 2 (acc6 (acc6 v (sextet 1 a b c)) (sextet 2 a b c)) AND 255 :: u32) = b"
    by (rule *) (auto simp: sextet_def acc6_def bit_simps Suc_diff_le less_2_sub dest: bit_imp_le_length)
  show "ucast (acc6 (acc6 v (sextet 2 a b c)) (sextet 3 a b c) AND 255 :: u32) = c"
    by (rule *) (auto simp: sextet_def acc6_def bit_simps Suc_diff_le less_2_sub dest: bit_imp_le_length)
qed

text \<open>The bits of two, three and four groups of the encoder, whatever the accumulator held.\<close>

lemma cut_sextets:
  "unat (drop_bit 2 (acc8 v a) AND 63 :: u32) = unat (sextet 0 a b c)"
  "unat (drop_bit 4 (acc8 (acc8 v a) b) AND 63 :: u32) = unat (sextet 1 a b c)"
  "unat (drop_bit 6 (acc8 (acc8 v b) c) AND 63 :: u32) = unat (sextet 2 a b c)"
  "unat (acc8 v c AND 63 :: u32) = unat (sextet 3 a b c)"
  "unat (push_bit 4 (acc8 v a) AND 63 :: u32) = unat (sextet 1 a 0 0)"
  "unat (push_bit 2 (acc8 v b) AND 63 :: u32) = unat (sextet 2 a b 0)"
proof -
  have *: "unat (x :: u32) = unat (y :: u8)" if "\<And>n. n < 32 \<Longrightarrow> bit x n = bit (ucast y :: u32) n" for x y
  proof -
    have "x = ucast y" using that by (intro bit_word_eqI) simp
    moreover have "unat y < 2 ^ 8" using unsigned_less [of y] by simp
    ultimately show ?thesis by (simp add: unsigned_ucast_eq take_bit_nat_eq_self_iff)
  qed
  show "unat (drop_bit 2 (acc8 v a) AND 63 :: u32) = unat (sextet 0 a b c)"
    by (rule *) (auto simp: sextet_def acc8_def bit_simps dest: bit_imp_le_length)
  show "unat (drop_bit 4 (acc8 (acc8 v a) b) AND 63 :: u32) = unat (sextet 1 a b c)"
    by (rule *) (auto simp: sextet_def acc8_def bit_simps dest: bit_imp_le_length)
  show "unat (drop_bit 6 (acc8 (acc8 v b) c) AND 63 :: u32) = unat (sextet 2 a b c)"
    by (rule *) (auto simp: sextet_def acc8_def bit_simps dest: bit_imp_le_length)
  show "unat (acc8 v c AND 63 :: u32) = unat (sextet 3 a b c)"
    by (rule *) (auto simp: sextet_def acc8_def bit_simps dest: bit_imp_le_length)
  show "unat (push_bit 4 (acc8 v a) AND 63 :: u32) = unat (sextet 1 a 0 0)"
    by (rule *) (auto simp: sextet_def acc8_def bit_simps dest: bit_imp_le_length)
  show "unat (push_bit 2 (acc8 v b) AND 63 :: u32) = unat (sextet 2 a b 0)"
    by (rule *) (auto simp: sextet_def acc8_def bit_simps dest: bit_imp_le_length)
qed

text \<open>Blocks of three bytes and of four characters.\<close>

lemma emit_stop: "rem < 6 \<Longrightarrow> emit_loop m v rem out = Inr (rem, out)"
  by (subst emit_loop.simps) simp

lemma emit_step:
  "rem \<ge> 6 \<Longrightarrow> length out < m \<Longrightarrow>
     emit_loop m v rem out = emit_loop m v (rem - 6) (out @ [ENCODEMAP ! unat (drop_bit (rem - 6) v AND 63)])"
  by (subst emit_loop.simps) (simp add: put_out_ok)

lemma encode_byte:
  "encode_loop m (b # bs) v rem out =
     (case emit_loop m (acc8 v b) (rem + 8) out of
        Inl e \<Rightarrow> Inl e
      | Inr (rem1, out1) \<Rightarrow> encode_loop m bs (acc8 v b) rem1 out1)"
  unfolding acc8_def by (simp add: Let_def)

lemma encode_block:
  assumes "length out + 4 \<le> m"
  shows "\<exists>v'. encode_loop m (a # b # c # bs) v 0 out
     = encode_loop m bs v' 0 (out @ map (\<lambda>k. ENCODEMAP ! unat (sextet k a b c)) [0, 1, 2, 3])"
  using assms cut_sextets(1) [where b = b and c = c] cut_sextets(2) [where c = c] cut_sextets(3) [where a = a]
    cut_sextets(4) [where a = a and b = b]
  by (simp add: encode_byte emit_stop emit_step del: encode_loop.simps) blast

lemma decode_block:
  assumes "length out + 3 \<le> m"
  shows "\<exists>v'. decode_loop m (map (\<lambda>k. ENCODEMAP ! unat (sextet k a b c)) [0, 1, 2, 3] @ cs) v 0 out
     = decode_loop m cs v' 0 (out @ [a, b, c])"
  using assms join_sextets [where a = a and b = b and c = c]
  by (simp add: decode_sextet Let_def put_out_ok del: decode_loop.simps) blast

lemma encode_text:
  "length out + length (base64_text bs) < m \<Longrightarrow> length out mod 4 = 0 \<Longrightarrow>
   (case encode_loop m bs v 0 out of
      Inl e \<Rightarrow> Inl e
    | Inr (v1, rem, out1) \<Rightarrow>
        (case (if rem \<noteq> 0 then put_out m (ENCODEMAP ! unat (push_bit (6 - rem) v1 AND 63)) out1 else Inr out1) of
           Inl e \<Rightarrow> Inl e
         | Inr out2 \<Rightarrow> pad_loop m out2)) = Inr (out @ base64_text bs)"
proof (induction bs arbitrary: v out rule: base64_text.induct)
  case (1 a b c bs)
  from 1(2) have "length out + 4 \<le> m" by simp
  from encode_block [OF this, of a b c bs v] obtain v' where
    v': "encode_loop m (a # b # c # bs) v 0 out
      = encode_loop m bs v' 0 (out @ map (\<lambda>k. ENCODEMAP ! unat (sextet k a b c)) [0, 1, 2, 3])" by blast
  have "length (out @ map (\<lambda>k. ENCODEMAP ! unat (sextet k a b c)) [0, 1, 2, 3]) + length (base64_text bs) < m"
    using 1(2) by simp
  moreover have "length (out @ map (\<lambda>k. ENCODEMAP ! unat (sextet k a b c)) [0, 1, 2, 3]) mod 4 = 0"
    using 1(3) by simp
  ultimately show ?case using 1(1) [of _ v'] unfolding v' by simp
next
  case (2 a b)
  have "Suc (Suc (Suc (length out))) mod 4 = 3" using 2(2) by presburger
  then show ?case using 2 cut_sextets(1) [of v a b 0] cut_sextets(2) [of v a b 0] cut_sextets(6) [of _ b a]
    by (simp add: encode_byte emit_stop emit_step put_out_ok pad_loop.simps encode_loop.simps(1) del: encode_loop.simps(2))
next
  case (3 a)
  have "Suc (Suc (length out)) mod 4 = 2" "Suc (Suc (Suc (length out))) mod 4 = 3" using 3(2) by presburger+
  then show ?case using 3 cut_sextets(1) [where v = v and a = a and b = 0 and c = 0] cut_sextets(5) [of v a]
    by (simp add: encode_byte emit_stop emit_step put_out_ok pad_loop.simps encode_loop.simps(1)
        del: encode_loop.simps(2))
next
  case 4
  then show ?case by (simp add: pad_loop.simps)
qed

lemma decode_pad: "decode_loop m (CHR ''='' # cs) v rem out = Some (Inr (v, rem, out))"
  by (simp add: isspace_def)

lemma decode_text:
  "length out + length bs \<le> m \<Longrightarrow>
   \<exists>v1 rem. decode_loop m (base64_text bs) v 0 out = Some (Inr (v1, rem, out @ bs)) \<and> rem < 8"
proof (induction bs arbitrary: v out rule: base64_text.induct)
  case (1 a b c bs)
  from 1(2) have "length out + 3 \<le> m" by simp
  from decode_block [OF this, of a b c "base64_text bs" v] obtain v' where
    v': "decode_loop m (map (\<lambda>k. ENCODEMAP ! unat (sextet k a b c)) [0, 1, 2, 3] @ base64_text bs) v 0 out
      = decode_loop m (base64_text bs) v' 0 (out @ [a, b, c])" by blast
  have "length (out @ [a, b, c]) + length bs \<le> m" using 1(2) by simp
  from 1(1) [OF this, of v'] show ?case unfolding base64_text.simps v' by simp
next
  case (2 a b)
  then show ?case using join_sextets(1,2) [where a = a and b = b and c = 0]
    by (simp add: decode_sextet Let_def put_out_ok decode_pad del: decode_loop.simps)
next
  case (3 a)
  then show ?case using join_sextets(1) [where a = a and b = 0 and c = 0]
    by (simp add: decode_sextet Let_def put_out_ok decode_pad del: decode_loop.simps)
qed simp

lemma encode_decode:
  assumes "4 * ((length bs + 2) div 3) < n" and "length bs \<le> m"
  shows "grid_base64_encode bs n = Inr (base64_text bs) \<and> grid_base64_decode (base64_text bs) m = Some (Inr bs)"
proof -
  have "grid_base64_encode bs n = Inr (base64_text bs)"
    using encode_text [of "[]" bs n 0] assms(1)
    by (auto simp: grid_base64_encode_def split: sum.splits prod.splits)
  moreover have "grid_base64_decode (base64_text bs) m = Some (Inr bs)"
    using decode_text [of "[]" bs m 0] assms(2) by (auto simp: grid_base64_decode_def)
  ultimately show ?thesis by blast
qed

section \<open>Port numbers as decimals\<close>

definition decimal :: "string \<Rightarrow> int" where
  "decimal cs = foldl (\<lambda>r c. r * 10 + (of_char c - 48)) 0 cs"

definition digit :: "char \<Rightarrow> bool" where
  "digit c = (48 \<le> (of_char c :: int) \<and> (of_char c :: int) \<le> 57)"

lemma decimal_mono:
  "list_all digit cs \<Longrightarrow> 0 \<le> r \<Longrightarrow> r \<le> foldl (\<lambda>r c. r * 10 + (of_char c - 48)) (r :: int) cs"
proof (induction cs arbitrary: r)
  case (Cons c cs)
  have d: "48 \<le> (of_char c :: int)" using Cons(2) by (simp add: digit_def)
  have "r * 10 + (of_char c - 48) \<le> foldl (\<lambda>r c. r * 10 + (of_char c - 48)) (r * 10 + (of_char c - 48)) cs"
    using Cons(2,3) d by (intro Cons(1)) simp_all
  with Cons(3) d show ?case by simp
qed simp

lemma port_loop_ok:
  "0 \<le> r \<Longrightarrow> r \<le> 65535 \<Longrightarrow> port_loop cs r = Inr p \<longleftrightarrow>
     list_all digit cs \<and> foldl (\<lambda>r c. r * 10 + (of_char c - 48)) r cs = p \<and> p \<le> 65535"
proof (induction cs arbitrary: r)
  case (Cons c cs)
  let ?r = "r * 10 + (of_char c - 48) :: int"
  show ?case
  proof (cases "digit c \<and> ?r \<le> 65535")
    case True
    then show ?thesis using Cons(1) [of ?r] Cons(2) by (auto simp: digit_def)
  next
    case False
    then show ?thesis using decimal_mono [of cs ?r] Cons(2) by (auto simp: digit_def [of c])
  qed
qed auto

end
