(* ===== verification/Worker.thy ===== *)
theory Worker
  imports Prelude
begin

text \<open>
  The worker thread (\<open>src/aio/worker.c\<close>) with its set of timers (\<open>timerset.c\<close>) and its
  poller (\<open>poller_epoll.inc\<close>). Timers, file descriptor handles and tasks are named by numbers.
  The intrusive lists and queues are the sequences that GList and GQueue refine them to. The
  clock's value and the answers of \<open>epoll_wait\<close> are arguments. What the owner of a timer, task
  or handle does when it is fed an event is the argument \<open>feed\<close>; it may use the worker.
\<close>

section \<open>Timers\<close>

type_synonym timerset = "(nat \<times> u64) list"

definition grid_timerset_init :: timerset where "grid_timerset_init = []"

definition grid_timerset_term :: "timerset \<Rightarrow> unit option" where
  "grid_timerset_term ts = guard (ts = [])"

text \<open>The position of the first timeout that is later than \<open>t\<close>.\<close>

fun timerset_place :: "u64 \<Rightarrow> timerset \<Rightarrow> nat" where
  "timerset_place t [] = 0"
| "timerset_place t ((h, x) # ts) = (if t < x then 0 else Suc (timerset_place t ts))"

definition grid_timerset_add :: "u64 \<Rightarrow> int \<Rightarrow> nat \<Rightarrow> timerset \<Rightarrow> (bool \<times> timerset) option" where
  "grid_timerset_add now timeout h ts = do {
     let t = now + of_int timeout;
     let i = timerset_place t ts;
     guard (h \<notin> fst ` set ts);
     Some (i = 0, take i ts @ (h, t) # drop i ts) }"

definition grid_timerset_hndl_isactive :: "nat \<Rightarrow> timerset \<Rightarrow> bool" where
  "grid_timerset_hndl_isactive h ts = (h \<in> fst ` set ts)"

definition grid_timerset_rm :: "nat \<Rightarrow> timerset \<Rightarrow> bool \<times> timerset" where
  "grid_timerset_rm h ts =
     (if \<not> grid_timerset_hndl_isactive h ts then (False, ts)
      else (fst (ts ! 0) = h, filter (\<lambda>x. fst x \<noteq> h) ts))"

text \<open>The difference of two 64-bit times is cut to a 32-bit \<open>int\<close>.\<close>

definition grid_timerset_timeout :: "u64 \<Rightarrow> timerset \<Rightarrow> int" where
  "grid_timerset_timeout now ts =
     (case ts of
        [] \<Rightarrow> -1
      | (h, t) # _ \<Rightarrow> let r = sint (ucast (t - now) :: u32) in if r < 0 then 0 else r)"

definition grid_timerset_event :: "u64 \<Rightarrow> timerset \<Rightarrow> errno + nat \<times> timerset" where
  "grid_timerset_event now ts =
     (case ts of
        [] \<Rightarrow> Inl EAGAIN
      | (h, t) # r \<Rightarrow> if t > now then Inl EAGAIN else Inr (h, r))"

definition timerset_ok :: "timerset \<Rightarrow> bool" where
  "timerset_ok ts \<longleftrightarrow> sorted (map snd ts) \<and> distinct (map fst ts)"

lemma timerset_place_le: "timerset_place t ts \<le> length ts"
  by (induction t ts rule: timerset_place.induct) auto

lemma timerset_place_before: "x \<in> set (take (timerset_place t ts) ts) \<Longrightarrow> snd x \<le> t"
  by (induction t ts rule: timerset_place.induct) (auto split: if_splits)

lemma timerset_place_after:
  "sorted (map snd ts) \<Longrightarrow> x \<in> set (drop (timerset_place t ts) ts) \<Longrightarrow> t < snd x"
  by (induction t ts rule: timerset_place.induct) (auto split: if_splits)

lemma timerset_add_ok:
  assumes "timerset_ok ts" and "\<not> grid_timerset_hndl_isactive h ts"
  shows "\<exists>a b. ts = a @ b \<and> grid_timerset_add now timeout h ts = Some (a = [], a @ (h, now + of_int timeout) # b)
    \<and> timerset_ok (a @ (h, now + of_int timeout) # b)
    \<and> list_all (\<lambda>x. snd x \<le> now + of_int timeout) a \<and> list_all (\<lambda>x. now + of_int timeout < snd x) b"
proof -
  let ?t = "now + of_int timeout :: u64"
  let ?i = "timerset_place ?t ts"
  let ?a = "take ?i ts" and ?b = "drop ?i ts"
  have s: "sorted (map snd ts)" "distinct (map fst ts)" using assms(1) by (simp_all add: timerset_ok_def)
  have a: "list_all (\<lambda>x. snd x \<le> ?t) ?a" using timerset_place_before [of _ ?t ts] by (simp add: list_all_iff)
  have b: "list_all (\<lambda>x. ?t < snd x) ?b" using timerset_place_after [OF s(1)] by (simp add: list_all_iff)
  have "sorted (map snd (?a @ ?b))" "distinct (map fst (?a @ ?b))" using s by simp_all
  then have so: "sorted (map snd ?a)" "sorted (map snd ?b)" "distinct (map fst ?a)" "distinct (map fst ?b)"
    "fst ` set ?a \<inter> fst ` set ?b = {}" unfolding map_append sorted_append distinct_append by simp_all
  have h: "h \<notin> fst ` set ?a" "h \<notin> fst ` set ?b"
    using assms(2) set_take_subset [of ?i ts] set_drop_subset [of ?i ts]
    by (auto simp: grid_timerset_hndl_isactive_def)
  have "timerset_ok (?a @ (h, ?t) # ?b)"
    unfolding timerset_ok_def map_append list.map fst_conv snd_conv sorted_append distinct_append
    using so h a b by (auto simp: list_all_iff image_iff less_imp_le intro: order_trans [OF _ less_imp_le])
  moreover have "?a = [] \<longleftrightarrow> ?i = 0" using timerset_place_le [of ?t ts] by auto
  moreover have "h \<notin> fst ` set ts" using assms(2) by (simp add: grid_timerset_hndl_isactive_def)
  ultimately show ?thesis using a b
    by (intro exI [of _ ?a] exI [of _ ?b]) (simp add: grid_timerset_add_def Let_def)
qed

lemma timerset_rm_ok:
  "timerset_ok ts \<Longrightarrow> timerset_ok (snd (grid_timerset_rm h ts)) \<and> \<not> grid_timerset_hndl_isactive h (snd (grid_timerset_rm h ts))"
  by (auto simp: grid_timerset_rm_def grid_timerset_hndl_isactive_def timerset_ok_def
      intro: sorted_filter distinct_filter distinct_map_filter)

lemma timerset_event_ok:
  "timerset_ok ts \<Longrightarrow> grid_timerset_event now ts = Inr (h, ts') \<Longrightarrow>
     timerset_ok ts' \<and> \<not> grid_timerset_hndl_isactive h ts'
     \<and> (\<exists>t. ts = (h, t) # ts' \<and> t \<le> now \<and> list_all (\<lambda>x. t \<le> snd x) ts')"
  by (force simp: grid_timerset_event_def timerset_ok_def grid_timerset_hndl_isactive_def list_all_iff
      split: list.splits if_splits)

section \<open>The poller\<close>

text \<open>
  \<open>po_in\<close> and \<open>po_out\<close> are the handles polled for reading and for writing. An event says
  which of the two it reports, and whether it has any other flag.
\<close>

record epoll_event =
  ee_hndl :: nat
  ee_in :: bool
  ee_out :: bool
  ee_other :: bool

record poller =
  po_fds :: "nat set"
  po_in :: "nat set"
  po_out :: "nat set"
  po_events :: "epoll_event list"
  po_index :: nat

datatype poller_event = GRID_POLLER_IN | GRID_POLLER_OUT | GRID_POLLER_ERR

definition grid_poller_init :: poller where
  "grid_poller_init = \<lparr>po_fds = {}, po_in = {}, po_out = {}, po_events = [], po_index = 0\<rparr>"

definition grid_poller_add :: "nat \<Rightarrow> poller \<Rightarrow> poller" where
  "grid_poller_add h p = p\<lparr>po_fds := insert h (po_fds p), po_in := po_in p - {h}, po_out := po_out p - {h}\<rparr>"

text \<open>The events that are not yet taken are changed in place.\<close>

definition invalidate :: "(epoll_event \<Rightarrow> epoll_event) \<Rightarrow> nat \<Rightarrow> poller \<Rightarrow> poller" where
  "invalidate f h p = p\<lparr>po_events := take (po_index p) (po_events p)
     @ map (\<lambda>e. if ee_hndl e = h then f e else e) (drop (po_index p) (po_events p))\<rparr>"

definition grid_poller_rm :: "nat \<Rightarrow> poller \<Rightarrow> poller" where
  "grid_poller_rm h p =
     invalidate (\<lambda>e. e\<lparr>ee_in := False, ee_out := False, ee_other := False\<rparr>) h (p\<lparr>po_fds := po_fds p - {h}\<rparr>)"

definition grid_poller_set_in :: "nat \<Rightarrow> poller \<Rightarrow> poller" where
  "grid_poller_set_in h p = (if h \<in> po_in p then p else p\<lparr>po_in := insert h (po_in p)\<rparr>)"

definition grid_poller_reset_in :: "nat \<Rightarrow> poller \<Rightarrow> poller" where
  "grid_poller_reset_in h p =
     (if h \<notin> po_in p then p else invalidate (\<lambda>e. e\<lparr>ee_in := False\<rparr>) h (p\<lparr>po_in := po_in p - {h}\<rparr>))"

definition grid_poller_set_out :: "nat \<Rightarrow> poller \<Rightarrow> poller" where
  "grid_poller_set_out h p = (if h \<in> po_out p then p else p\<lparr>po_out := insert h (po_out p)\<rparr>)"

definition grid_poller_reset_out :: "nat \<Rightarrow> poller \<Rightarrow> poller" where
  "grid_poller_reset_out h p =
     (if h \<notin> po_out p then p else invalidate (\<lambda>e. e\<lparr>ee_out := False\<rparr>) h (p\<lparr>po_out := po_out p - {h}\<rparr>))"

text \<open>
  The answers of the successive calls of \<open>epoll_wait\<close>: an interrupted call is repeated; while
  there is no answer the worker waits. Any other error is not noticed, because the assertion
  looks at the old number of events, and counts as no event.
\<close>

fun grid_poller_wait :: "(errno + epoll_event list) list \<Rightarrow> poller \<Rightarrow> poller option" where
  "grid_poller_wait [] p = None"
| "grid_poller_wait (a # as) p =
     (case a of
        Inr es \<Rightarrow> Some (p\<lparr>po_events := es, po_index := 0\<rparr>)
      | Inl e \<Rightarrow> if e = EINTR then grid_poller_wait as p
                 else Some (p\<lparr>po_events := [], po_index := 0\<rparr>))"

definition no_event :: "epoll_event \<Rightarrow> bool" where
  "no_event e \<longleftrightarrow> \<not> ee_in e \<and> \<not> ee_out e \<and> \<not> ee_other e"

definition skip_empty_events :: "poller \<Rightarrow> nat" where
  "skip_empty_events p = po_index p + length (takeWhile no_event (drop (po_index p) (po_events p)))"

definition grid_poller_event :: "poller \<Rightarrow> (errno + poller_event \<times> nat) \<times> poller" where
  "grid_poller_event p =
     (let i = skip_empty_events p; q = p\<lparr>po_index := i\<rparr>
      in if i \<ge> length (po_events p) then (Inl EAGAIN, q)
         else
           let e = po_events p ! i
           in if ee_in e then (Inr (GRID_POLLER_IN, ee_hndl e), q\<lparr>po_events := (po_events p)[i := e\<lparr>ee_in := False\<rparr>]\<rparr>)
              else if ee_out e then (Inr (GRID_POLLER_OUT, ee_hndl e), q\<lparr>po_events := (po_events p)[i := e\<lparr>ee_out := False\<rparr>]\<rparr>)
              else (Inr (GRID_POLLER_ERR, ee_hndl e), q\<lparr>po_index := Suc i\<rparr>))"

text \<open>The events still to be reported.\<close>

definition po_pending :: "poller \<Rightarrow> epoll_event list" where
  "po_pending p = filter (\<lambda>e. \<not> no_event e) (drop (po_index p) (po_events p))"

definition pending_in :: "nat \<Rightarrow> poller \<Rightarrow> bool" where
  "pending_in h p = list_ex (\<lambda>e. ee_hndl e = h \<and> ee_in e) (drop (po_index p) (po_events p))"

definition pending_any :: "nat \<Rightarrow> poller \<Rightarrow> bool" where
  "pending_any h p = list_ex (\<lambda>e. ee_hndl e = h \<and> \<not> no_event e) (drop (po_index p) (po_events p))"

fun take_events :: "nat \<Rightarrow> poller \<Rightarrow> (poller_event \<times> nat) list" where
  "take_events 0 p = []"
| "take_events (Suc n) p =
     (case grid_poller_event p of (Inl e, q) \<Rightarrow> [] | (Inr e, q) \<Rightarrow> e # take_events n q)"

lemma drop_takeWhile: "drop (length (takeWhile P xs)) xs = dropWhile P xs"
  by (metis append_eq_conv_conj takeWhile_dropWhile_id)

text \<open>What is taken was pending, and taking it makes nothing else pending.\<close>

lemma poller_event_cases:
  assumes "grid_poller_event p = (Inr (ev, h), q)"
  shows "\<exists>e r. dropWhile no_event (drop (po_index p) (po_events p)) = e # r \<and> ee_hndl e = h \<and> \<not> no_event e
    \<and> (ev = GRID_POLLER_IN \<longleftrightarrow> ee_in e) \<and> po_index q \<le> length (po_events q)
    \<and> (\<exists>e'. ee_hndl e' = h \<and> (ee_in e' \<longrightarrow> ee_in e) \<and> drop (po_index q) (po_events q) \<in> {e' # r, r})"
proof -
  let ?i = "skip_empty_events p" and ?es = "po_events p"
  have i: "?i < length ?es" using assms by (auto simp: grid_poller_event_def Let_def split: if_splits)
  have d: "drop ?i ?es = dropWhile no_event (drop (po_index p) ?es)"
    unfolding skip_empty_events_def by (subst add.commute) (simp only: drop_drop [symmetric] drop_takeWhile)
  moreover have "drop ?i ?es = ?es ! ?i # drop (Suc ?i) ?es" using i by (rule Cons_nth_drop_Suc [symmetric])
  ultimately have c: "dropWhile no_event (drop (po_index p) ?es) = ?es ! ?i # drop (Suc ?i) ?es" by simp
  then have n: "\<not> no_event (?es ! ?i)" by (metis dropWhile_eq_Cons_conv)
  have u: "drop ?i (?es[?i := x]) = x # drop (Suc ?i) ?es" for x
    using i by (simp add: drop_update_swap flip: Cons_nth_drop_Suc)
  show ?thesis using assms i c n u
    by (auto simp: grid_poller_event_def Let_def split: if_splits)
qed

lemma dropWhile_list_ex: "(\<And>e. P e \<Longrightarrow> \<not> no_event e) \<Longrightarrow> list_ex P (dropWhile no_event es) = list_ex P es"
  by (induction es) auto

lemma take_events_pending:
  "(ev, h) \<in> set (take_events n p) \<Longrightarrow> pending_any h p \<and> (ev = GRID_POLLER_IN \<longrightarrow> pending_in h p)"
proof (induction n arbitrary: p)
  case (Suc n)
  obtain r q where r: "grid_poller_event p = (r, q)" by fastforce
  then obtain ev1 k where e: "r = Inr (ev1, k)" and mem: "(ev, h) = (ev1, k) \<or> (ev, h) \<in> set (take_events n q)"
    using Suc(2) by (cases r) auto
  from poller_event_cases [OF r [unfolded e]] obtain e1 es e' where
    c: "dropWhile no_event (drop (po_index p) (po_events p)) = e1 # es" "ee_hndl e1 = k" "\<not> no_event e1"
    "ev1 = GRID_POLLER_IN \<longleftrightarrow> ee_in e1" "ee_hndl e' = k" "ee_in e' \<longrightarrow> ee_in e1"
    "drop (po_index q) (po_events q) \<in> {e' # es, es}" by blast
  have p: "pending_any h p = list_ex (\<lambda>e. ee_hndl e = h \<and> \<not> no_event e) (e1 # es)"
    "pending_in h p = list_ex (\<lambda>e. ee_hndl e = h \<and> ee_in e) (e1 # es)"
    unfolding pending_any_def pending_in_def c(1) [symmetric]
    by (rule dropWhile_list_ex [symmetric], simp add: no_event_def)+
  have "pending_any h q \<Longrightarrow> pending_any h p" "pending_in h q \<Longrightarrow> pending_in h p"
    using c unfolding p by (auto simp: pending_any_def pending_in_def)
  with Suc(1) [of q] mem c p show ?case by auto
qed simp

lemma no_ex_map: "(\<And>x. \<not> P (f x)) \<Longrightarrow> \<not> list_ex P (map f xs)"
  by (induction xs) auto

lemma removed_not_pending:
  assumes "po_index p \<le> length (po_events p)"
  shows "\<not> pending_any h (grid_poller_rm h p)"
proof -
  have "drop (po_index p) (po_events (grid_poller_rm h p)) = map (\<lambda>e. if ee_hndl e = h
      then e\<lparr>ee_in := False, ee_out := False, ee_other := False\<rparr> else e) (drop (po_index p) (po_events p))"
    using assms by (simp add: grid_poller_rm_def invalidate_def)
  moreover have "po_index (grid_poller_rm h p) = po_index p" by (simp add: grid_poller_rm_def invalidate_def)
  ultimately show ?thesis unfolding pending_any_def by (simp only:) (rule no_ex_map, simp add: no_event_def)
qed

lemma reset_not_pending:
  assumes "po_index p \<le> length (po_events p)" and "h \<in> po_in p"
  shows "\<not> pending_in h (grid_poller_reset_in h p)"
proof -
  have "drop (po_index p) (po_events (grid_poller_reset_in h p)) = map (\<lambda>e. if ee_hndl e = h
      then e\<lparr>ee_in := False\<rparr> else e) (drop (po_index p) (po_events p))"
    using assms by (simp add: grid_poller_reset_in_def invalidate_def)
  moreover have "po_index (grid_poller_reset_in h p) = po_index p"
    by (simp add: grid_poller_reset_in_def invalidate_def)
  ultimately show ?thesis unfolding pending_in_def by (simp only:) (rule no_ex_map, simp)
qed

section \<open>The worker\<close>

text \<open>
  \<open>wk_signalled\<close> is the event descriptor that announces tasks; it is polled under the handle
  \<open>EFD_HNDL\<close>. \<open>wk_now\<close> is what the clock shows, \<open>wk_user\<close> the state of everybody else.
\<close>

datatype worker_task = Task nat | StopWorker
datatype worker_source = SrcTimer nat | SrcFd nat poller_event | SrcTask nat

record 'u worker =
  wk_poller :: poller
  wk_timerset :: timerset
  wk_tasks :: "worker_task list"
  wk_signalled :: bool
  wk_now :: u64
  wk_user :: 'u

type_synonym 'u feed = "worker_source \<Rightarrow> 'u worker \<Rightarrow> 'u worker option"

definition EFD_HNDL :: nat where "EFD_HNDL = 0"

definition grid_worker_init :: "u64 \<Rightarrow> 'u \<Rightarrow> 'u worker" where
  "grid_worker_init now u = \<lparr>wk_poller = grid_poller_set_in EFD_HNDL (grid_poller_add EFD_HNDL grid_poller_init),
     wk_timerset = grid_timerset_init, wk_tasks = [], wk_signalled = False, wk_now = now, wk_user = u\<rparr>"

text \<open>Queueing a task that is queued already aborts.\<close>

definition worker_execute :: "worker_task \<Rightarrow> 'u worker \<Rightarrow> 'u worker option" where
  "worker_execute k w = do {
     guard (k \<notin> set (wk_tasks w));
     Some (w\<lparr>wk_tasks := wk_tasks w @ [k], wk_signalled := True\<rparr>) }"

definition grid_worker_cancel :: "nat \<Rightarrow> 'u worker \<Rightarrow> 'u worker" where
  "grid_worker_cancel k w = w\<lparr>wk_tasks := remove1 (Task k) (wk_tasks w)\<rparr>"

definition grid_worker_add_fd :: "nat \<Rightarrow> 'u worker \<Rightarrow> 'u worker" where
  "grid_worker_add_fd h w = w\<lparr>wk_poller := grid_poller_add h (wk_poller w)\<rparr>"

definition grid_worker_rm_fd :: "nat \<Rightarrow> 'u worker \<Rightarrow> 'u worker" where
  "grid_worker_rm_fd h w = w\<lparr>wk_poller := grid_poller_rm h (wk_poller w)\<rparr>"

definition grid_worker_set_in :: "nat \<Rightarrow> 'u worker \<Rightarrow> 'u worker" where
  "grid_worker_set_in h w = w\<lparr>wk_poller := grid_poller_set_in h (wk_poller w)\<rparr>"

definition grid_worker_reset_in :: "nat \<Rightarrow> 'u worker \<Rightarrow> 'u worker" where
  "grid_worker_reset_in h w = w\<lparr>wk_poller := grid_poller_reset_in h (wk_poller w)\<rparr>"

definition grid_worker_set_out :: "nat \<Rightarrow> 'u worker \<Rightarrow> 'u worker" where
  "grid_worker_set_out h w = w\<lparr>wk_poller := grid_poller_set_out h (wk_poller w)\<rparr>"

definition grid_worker_reset_out :: "nat \<Rightarrow> 'u worker \<Rightarrow> 'u worker" where
  "grid_worker_reset_out h w = w\<lparr>wk_poller := grid_poller_reset_out h (wk_poller w)\<rparr>"

definition grid_worker_add_timer :: "int \<Rightarrow> nat \<Rightarrow> 'u worker \<Rightarrow> 'u worker option" where
  "grid_worker_add_timer timeout h w = do {
     (first, ts) \<leftarrow> grid_timerset_add (wk_now w) timeout h (wk_timerset w);
     Some (w\<lparr>wk_timerset := ts\<rparr>) }"

definition grid_worker_rm_timer :: "nat \<Rightarrow> 'u worker \<Rightarrow> 'u worker" where
  "grid_worker_rm_timer h w = w\<lparr>wk_timerset := snd (grid_timerset_rm h (wk_timerset w))\<rparr>"

text \<open>All expired timers are fed; a loop that does not end has no result.\<close>

partial_function (option) worker_timers :: "'u feed \<Rightarrow> 'u worker \<Rightarrow> 'u worker option" where
  "worker_timers feed w =
     (case grid_timerset_event (wk_now w) (wk_timerset w) of
        Inl e \<Rightarrow> Some w
      | Inr (h, ts) \<Rightarrow> do {
          w1 \<leftarrow> feed (SrcTimer h) (w\<lparr>wk_timerset := ts\<rparr>);
          worker_timers feed w1 })"

text \<open>The local copy of the tasks; the result says whether the worker was asked to stop.\<close>

fun worker_run_tasks :: "'u feed \<Rightarrow> worker_task list \<Rightarrow> 'u worker \<Rightarrow> (bool \<times> 'u worker) option" where
  "worker_run_tasks feed [] w = Some (False, w)"
| "worker_run_tasks feed (StopWorker # ks) w = Some (True, w)"
| "worker_run_tasks feed (Task k # ks) w = do { w1 \<leftarrow> feed (SrcTask k) w; worker_run_tasks feed ks w1 }"

partial_function (option) worker_events :: "'u feed \<Rightarrow> 'u worker \<Rightarrow> (bool \<times> 'u worker) option" where
  "worker_events feed w =
     (let (r, p) = grid_poller_event (wk_poller w); w1 = w\<lparr>wk_poller := p\<rparr>
      in case r of
           Inl e \<Rightarrow> Some (False, w1)
         | Inr (ev, h) \<Rightarrow>
             if h = EFD_HNDL then do {
               guard (ev = GRID_POLLER_IN);
               (stop, w2) \<leftarrow> worker_run_tasks feed (wk_tasks w1) (w1\<lparr>wk_tasks := [], wk_signalled := False\<rparr>);
               if stop then Some (True, w2) else worker_events feed w2 }
             else do {
               w2 \<leftarrow> feed (SrcFd h ev) w1;
               worker_events feed w2 })"

text \<open>
  One round of the worker: it waits for events no longer than until the next timeout, then
  serves timers and events. The result says whether it was asked to stop.
\<close>

definition grid_worker_routine ::
  "(int \<Rightarrow> 'u worker \<Rightarrow> (errno + epoll_event list) list \<times> u64) \<Rightarrow> 'u feed \<Rightarrow> 'u worker \<Rightarrow> (bool \<times> 'u worker) option" where
  "grid_worker_routine wait feed w = do {
     let (answers, now) = wait (grid_timerset_timeout (wk_now w) (wk_timerset w)) w;
     p \<leftarrow> grid_poller_wait answers (wk_poller w);
     w1 \<leftarrow> worker_timers feed (w\<lparr>wk_poller := p, wk_now := now\<rparr>);
     worker_events feed w1 }"

end
