(* ===== verification/TransportProps.thy ===== *)
theory TransportProps
  imports StcpStream Codec Worker
begin

text \<open>
  The properties of the transports: sessions over byte streams, the worker under them and the
  texts of addresses. The witnesses run session 0 on usock 0 over \<open>pipe_os\<close>, a system whose
  calls send and receive at once.
\<close>

section \<open>A connection that works at once\<close>

definition pipe_os :: "(bytes \<times> bytes) os_calls" where
  "pipe_os = \<lparr>os_socket = (\<lambda>d x. (Inl EMFILE, x)), os_fcntl = (\<lambda>s x. (True, x)),
     os_setsockopt = (\<lambda>s l n v x. (Inr (), x)), os_bind = (\<lambda>s a x. (Inr (), x)), os_listen = (\<lambda>s n x. (Inr (), x)),
     os_accept = (\<lambda>s x. (Inl EAGAIN, x)), os_connect = (\<lambda>s a x. (Inr (), x)),
     os_sendmsg = (\<lambda>s iov x. (Inr (length (concat iov)), (fst x, snd x @ concat iov))),
     os_recvmsg = (\<lambda>s n x. if fst x = [] then (Inl EAGAIN, x)
        else (Inr (take n (fst x), None), (drop n (fst x), snd x))),
     os_geterr = (\<lambda>s x. (None, x)), os_close = (\<lambda>f x. (Inr (), x))\<rparr>"

lemma pipe_os_stream: "stream_os pipe_os 3 fst snd"
  by (auto simp: stream_os_def pipe_os_def split: if_splits)

text \<open>A world with session 0 on usock 0.\<close>

definition scene_us :: "conn_owner usock \<Rightarrow> bytes \<times> bytes \<Rightarrow> (bytes \<times> bytes) uss" where
  "scene_us u x = \<lparr>sy_usock = (\<lambda>i. grid_usock_init OwnerNone)(0 := u), sy_os = x\<rparr>"

definition scene_at :: "pipebase \<Rightarrow> stcp \<Rightarrow> (bytes \<times> bytes) uss \<Rightarrow> (bytes \<times> bytes) tcp" where
  "scene_at b s v = \<lparr>ps_base = (\<lambda>p. grid_pipebase_init)(0 := b),
     ps_tr = \<lparr>ts_stcp = (\<lambda>k. grid_stcp_init)(0 := s), ts_us = v, ts_removed = []\<rparr>\<rparr>"

lemma scene_us_simps [simp]:
  "usk (scene_us u x) 0 = u" "upd_us 0 f (scene_us u x) = scene_us (f u) x" "sy_os (scene_us u x) = x"
  "(scene_us u x)\<lparr>sy_os := y\<rparr> = scene_us u y"
  by (simp_all add: scene_us_def usk_def upd_us_def)

lemma scene_at_simps [simp]:
  "ps_base (scene_at b s v) 0 = b" "stc (scene_at b s v) 0 = s" "uss (scene_at b s v) = v"
  "set_base 0 b' (scene_at b s v) = scene_at b' s v" "upd_st 0 f (scene_at b s v) = scene_at b (f s) v"
  "set_uss v' (scene_at b s v) = scene_at b s v'"
  by (simp_all add: scene_at_def set_base_def stc_def uss_def upd_st_def set_uss_def)

text \<open>The header exchange is over.\<close>

definition scene_tcp :: "bytes \<Rightarrow> (bytes \<times> bytes) tcp" where
  "scene_tcp bs = scene_at grid_pipebase_init
     (grid_stcp_init\<lparr>st_fsm := FSM_ACTIVE, st_state := ST_STOPPING_STREAMHDR, st_usock := Some 0\<rparr>)
     (scene_us ((grid_usock_init (OwnerSession 0))\<lparr>us_fsm := FSM_ACTIVE, us_state := US_ACTIVE, us_s := 3, us_polled := True\<rparr>) (bs, []))"

lemma scene_tcp_ready: "stream_ready 3 0 0 (scene_tcp bs)"
  by (simp add: stream_ready_def scene_tcp_def us_connected_def grid_usock_init_def grid_stcp_init_def
    grid_pipebase_init_def Let_def)

text \<open>A sequence of steps, each of them enabled.\<close>

fun stream_runs ::
  "nat \<Rightarrow> (nat \<Rightarrow> bytes option) \<Rightarrow> (int \<Rightarrow> bytes \<Rightarrow> u64 option option) \<Rightarrow> 'o os_calls \<Rightarrow> nat \<Rightarrow> nat
     \<Rightarrow> stream_label list \<Rightarrow> 'o stream_run \<Rightarrow> 'o stream_run option" where
  "stream_runs n header check os k i [] r = Some r"
| "stream_runs n header check os k i (lab # labs) r =
     (if stream_enabled k i lab r then do {
        r1 \<leftarrow> stream_step n header check os k i lab r;
        stream_runs n header check os k i labs r1 }
      else None)"

lemma stream_runs_reach:
  "stream_runs n header check os k i labs r = Some r' \<Longrightarrow> stream_reach n header check os fd k i w0 r \<Longrightarrow>
   stream_reach n header check os fd k i w0 r'"
proof (induction labs arbitrary: r)
  case (Cons lab labs)
  then obtain r1 where "stream_enabled k i lab r" "stream_step n header check os k i lab r = Some r1"
    "stream_runs n header check os k i labs r1 = Some r'" by (auto split: if_splits bind_splits)
  with Cons show ?case using stream_reach.reach_more by blast
qed simp

definition scene_answers :: sock_answers where
  "scene_answers = \<lparr>sa_protocol = 16, sa_ispeer = (\<lambda>p. True), sa_rcvmaxsize = 1024, sa_add = Inr ()\<rparr>"

definition scene_hello :: msg where
  "scene_hello = \<lparr>sphdr = [104], hdrs = [], body = [105]\<rparr>"

definition scene_stcp_run :: "bytes \<Rightarrow> stream_label list \<Rightarrow> (bytes \<times> bytes) stream_run option" where
  "scene_stcp_run bs labs = do {
     w \<leftarrow> stream_start_pipe 8 pipe_os (Inr ()) 0 (scene_tcp bs);
     stream_runs 8 stcp_header stcp_check_header pipe_os 0 0 labs (w, [], []) }"

lemma scene_recv_first:
  assumes "us_state u = US_ACTIVE" and "us_batch u = []" and "us_pos u = 0" and "0 < n" and "n \<le> length bs" and "length bs \<le> 2048"
    and "us_events u = []"
  shows "grid_usock_recv pipe_os 0 n False (scene_us u (bs, out)) = Some (scene_us (u\<lparr>us_pfd := False, us_batch := bs, us_pos := n,
     us_buf := take n bs, us_events := [(OB_RECEIVED, us_owner u, GRID_USOCK_RECEIVED)]\<rparr>) ([], out))"
  using assms by (auto simp: grid_usock_recv_def grid_usock_recv_raw_def sys_call_def pipe_os_def GRID_USOCK_BATCH_SIZE_def
    take_fd_def us_raise_def Let_def min_def)

lemma scene_recv_next:
  assumes "us_state u = US_ACTIVE" and "us_pos u + n \<le> length (us_batch u)" and "0 < n" and "us_events u = []"
  shows "grid_usock_recv pipe_os 0 n False (scene_us u x) = Some (scene_us (u\<lparr>us_pfd := False, us_pos := us_pos u + n,
     us_buf := take n (drop (us_pos u) (us_batch u)), us_events := [(OB_RECEIVED, us_owner u, GRID_USOCK_RECEIVED)]\<rparr>) x)"
proof -
  have "min (length (us_batch u) - us_pos u) n = n" "n \<le> length (us_batch u) - us_pos u" "us_pos u < length (us_batch u)"
    using assms(2,3) by simp_all
  with assms show ?thesis by (simp add: grid_usock_recv_def grid_usock_recv_raw_def us_raise_def Let_def)
qed

lemma scene_recv_none:
  assumes "us_state u = US_ACTIVE" and "us_pos u = length (us_batch u)" and "0 < n" and "n \<le> 2048" and "us_events u = []" and "TASK_RECV \<notin> set (us_tasks u)"
  shows "grid_usock_recv pipe_os 0 n False (scene_us u ([], out)) = Some (scene_us (u\<lparr>us_pfd := False, us_batch := [], us_pos := 0,
     us_buf := [], us_len := n, us_tasks := us_tasks u @ [TASK_RECV]\<rparr>) ([], out))"
  using assms by (simp add: grid_usock_recv_def grid_usock_recv_raw_def us_execute_def Let_def sys_call_def pipe_os_def GRID_USOCK_BATCH_SIZE_def)

lemma scene_header:
  "stcp_check_header 1024 [0, 0, 0, 0, 0, 0, 0, 2] = Some (Some 2)" "stcp_header (Suc (Suc 0)) = Some [0, 0, 0, 0, 0, 0, 0, 2]"
  by (simp add: stcp_check_header_def) code_simp

lemma scene_send_all:
  assumes "us_state u = US_ACTIVE" and "us_events u = []" and "[] \<notin> set iov" and "length iov \<le> 3" and "iov \<noteq> []"
  shows "grid_usock_send pipe_os 0 iov (scene_us u (ins, out)) = Some (scene_us (u\<lparr>us_iov := [],
    us_events := [(OB_SENT, us_owner u, GRID_USOCK_SENT)]\<rparr>) (ins, out @ concat iov))"
proof -
  have "filter (\<lambda>b. b \<noteq> []) iov = iov" using assms(3) by (auto simp: filter_id_conv)
  moreover obtain iov' where "advance_iov (length (concat iov)) iov = Some (iov' = [], iov')" "concat iov' = []" "[] \<notin> set iov'"
    using advance_iov_ok [of "length (concat iov)" iov] assms(3) by auto
  moreover have "iov' = []" using calculation(3,4) by (cases iov') auto
  ultimately show ?thesis
    using assms by (simp add: grid_usock_send_def grid_usock_send_raw_def sys_call_def pipe_os_def us_raise_def GRID_USOCK_MAX_IOVCNT_def)
qed

lemmas scene_step_defs = scene_stcp_run_def stream_start_pipe_def scene_tcp_def grid_pipebase_init_def grid_pipebase_start_def
  raise_out_def raise_in_def on_usock_def on_base_def grid_usock_init_def grid_stcp_init_def stream_enabled_def stream_step_def
  grid_pipe_send_def grid_pipe_recv_def stream_send_def stream_recv_def scene_answers_def deliver_usock_def scene_hello_def
  us_take_event_def stream_feed_def stream_handler_def stream_active_def grid_pipebase_sent_def grid_pipebase_received_def
  stream_received_def stream_header_received_def no_msg_def scene_recv_first scene_recv_next scene_recv_none scene_header
  scene_send_all

text \<open>A session that sends a message and one that receives it,.\<close>

definition run_view :: "(bytes \<times> bytes) stream_run \<Rightarrow> bytes \<times> msg list \<times> msg list" where
  "run_view = (\<lambda>(w, rs, ss). (snd (sy_os (uss w)), rs, ss))"

lemma scene_sends:
  "map_option run_view (scene_stcp_run [] [EvPipe, EvSend scene_hello, EvDeliver scene_answers])
   = Some ([0, 0, 0, 0, 0, 0, 0, 2, 104, 105], [], [scene_hello])"
  by (simp add: scene_step_defs run_view_def)

lemma scene_receives:
  "map_option run_view (scene_stcp_run [0, 0, 0, 0, 0, 0, 0, 2, 104, 105]
     [EvPipe, EvDeliver scene_answers, EvDeliver scene_answers, EvPipe, EvRecv])
   = Some ([], [\<lparr>sphdr = [], hdrs = [], body = [104, 105]\<rparr>], [])"
  by (simp add: scene_step_defs run_view_def)

lemma scene_reach:
  assumes "scene_stcp_run bs labs = Some r"
  shows "stream_reach 8 stcp_header stcp_check_header pipe_os 3 0 0 (scene_tcp bs) r"
proof -
  from assms obtain w where w: "stream_start_pipe 8 pipe_os (Inr ()) 0 (scene_tcp bs) = Some w"
    and r: "stream_runs 8 stcp_header stcp_check_header pipe_os 0 0 labs (w, [], []) = Some r"
    by (auto simp: scene_stcp_run_def split: bind_splits)
  show ?thesis by (rule stream_runs_reach [OF r reach_start [OF scene_tcp_ready w]])
qed

section \<open>Sessions\<close>



text \<open>
  C3: The messages of a TCP or IPC connection arrive complete, once and in order: when a session
  has received \<open>rs'\<close> and all that its connection brings it has been written by a session that
  was given \<open>ss\<close> to send, the bodies of \<open>rs'\<close> are the first messages of \<open>ss\<close>, each as its
  header and body in one piece. The operating systems may cut the streams anywhere.
\<close>

theorem stream_messages_in_order:
  assumes "(n, header, check) = (8, stcp_header, stcp_check_header) \<or> (n, header, check) = (9, sipc_header, sipc_check_header)"
    and "stream_os os fd rd wr" and "stream_reach n header check os fd k i w0 (w, rs, ss)"
    and "stream_os os' fd' rd' wr'" and "stream_reach n header check os' fd' k' i' v0 (v, rs', ss')"
    and "wr (sy_os (uss w)) = wr (sy_os (uss w0)) @ wire" and "prefix (us_pending rd' i' (uss v0)) wire"
  shows "prefix (map body rs') (map (\<lambda>m. sphdr m @ body m) ss)"
  using assms(1)
proof
  assume "(n, header, check) = (8, stcp_header, stcp_check_header)"
  with stcp.messages_arrive [OF assms(2) _ assms(4) _ assms(6,7)] assms(3,5) show ?thesis
    by (simp add: merged_def [abs_def])
next
  assume "(n, header, check) = (9, sipc_header, sipc_check_header)"
  with sipc.messages_arrive [OF assms(2) _ assms(4) _ assms(6,7)] assms(3,5) show ?thesis
    by (simp add: merged_def [abs_def])
qed

lemma stream_messages_in_order_witness:
  "\<exists>w v m. scene_stcp_run [] [EvPipe, EvSend scene_hello, EvDeliver scene_answers] = Some (w, [], [scene_hello])
     \<and> scene_stcp_run [0, 0, 0, 0, 0, 0, 0, 2, 104, 105]
         [EvPipe, EvDeliver scene_answers, EvDeliver scene_answers, EvPipe, EvRecv] = Some (v, [m], [])
     \<and> prefix (map body [m]) (map (\<lambda>m. sphdr m @ body m) [scene_hello])"
proof -
  obtain w where w: "scene_stcp_run [] [EvPipe, EvSend scene_hello, EvDeliver scene_answers] = Some (w, [], [scene_hello])"
    and wr: "snd (sy_os (uss w)) = [0, 0, 0, 0, 0, 0, 0, 2, 104, 105]"
    using scene_sends by (auto simp: run_view_def)
  obtain v m where v: "scene_stcp_run [0, 0, 0, 0, 0, 0, 0, 2, 104, 105]
         [EvPipe, EvDeliver scene_answers, EvDeliver scene_answers, EvPipe, EvRecv] = Some (v, [m], [])"
    using scene_receives by (auto simp: run_view_def)
  have "us_pending fst 0 (uss (scene_tcp bs)) = bs" "snd (sy_os (uss (scene_tcp []))) = []" for bs
    by (simp_all add: scene_tcp_def us_pending_def grid_usock_init_def)
  then have "prefix (map body [m]) (map (\<lambda>m. sphdr m @ body m) [scene_hello])"
    using stream_messages_in_order [OF _ pipe_os_stream scene_reach [OF w] pipe_os_stream scene_reach [OF v],
      where wire = "[0, 0, 0, 0, 0, 0, 0, 2, 104, 105]"] wr by simp
  with w v show ?thesis by blast
qed

text \<open>
  C33: A message that is longer than the socket's limit is not received: its header ends the
  session with an error before a buffer is made for it, and nothing more is asked of the usock.
\<close>

theorem stcp_drops_oversized:
  assumes "stream_os os fd rd wr" and "stream_reach 8 stcp_header stcp_check_header os fd k i w0 (w, rs, ss)"
    and "us_events (usk (uss w) i) = [(OB_RECEIVED, OwnerSession k, GRID_USOCK_RECEIVED)]"
    and "st_instate (stc w k) = Some INSTATE_HDR" and "st_state (stc w k) \<noteq> ST_DONE"
    and "grid_getll (us_buf (usk (uss w) i)) = Some v" and "0 \<le> sa_rcvmaxsize sa" and "sa_rcvmaxsize sa < 2 ^ 31"
    and "sa_rcvmaxsize sa < uint v"
  shows "\<exists>w'. stream_step 8 stcp_header stcp_check_header os k i (EvDeliver sa) (w, rs, ss) = Some (w', rs, ss)
    \<and> st_state (stc w' k) = ST_DONE \<and> st_done (stc w' k) = Some GRID_STCP_ERROR \<and> st_inmsg (stc w' k) = st_inmsg (stc w k)
    \<and> uss w' = upd_us i (\<lambda>u. u\<lparr>us_events := []\<rparr>) (uss w)"
proof -
  have s: "st_fsm (stc w k) = FSM_ACTIVE" "st_state (stc w k) = ST_ACTIVE" "st_usock (stc w k) = Some i" "st_done (stc w k) = None"
    using stcp.reach_inv [OF assms(1,2)] assms(3,5)
    by (auto simp: stcp.sess_inv_def stcp.sess_broken_def usock_broken_def sess_live_def Let_def)
  have "uint (ucast (word_of_int (sa_rcvmaxsize sa) :: u32) :: u64) = sa_rcvmaxsize sa"
    using assms(7,8) by (simp add: unsigned_ucast_eq unsigned_of_int take_bit_int_eq_self)
  then have "(ucast (word_of_int (sa_rcvmaxsize sa) :: u32) :: u64) < v" using assms(9) by (simp add: word_less_def)
  then have c: "stcp_check_header (sa_rcvmaxsize sa) (us_buf (usk (uss w) i)) = Some None"
    using assms(6,7) by (simp add: stcp_check_header_def)
  show ?thesis using s assms(4)
    by (simp add: stream_step_def deliver_usock_def us_take_event_one [OF assms(3)] stream_feed_def stream_handler_def
      stream_active_def stream_received_def stream_header_received_def c st_raise_def st_set_def)
qed

lemma stcp_drops_oversized_witness:
  "\<exists>w. scene_stcp_run [0, 0, 0, 0, 0, 0, 4, 1] [EvPipe] = Some (w, [], [])
     \<and> (\<exists>w'. stream_step 8 stcp_header stcp_check_header pipe_os 0 0 (EvDeliver scene_answers) (w, [], []) = Some (w', [], [])
       \<and> st_state (stc w' 0) = ST_DONE)"
proof -
  obtain w where w: "scene_stcp_run [0, 0, 0, 0, 0, 0, 4, 1] [EvPipe] = Some (w, [], [])"
    "us_events (usk (uss w) 0) = [(OB_RECEIVED, OwnerSession 0, GRID_USOCK_RECEIVED)]"
    "st_instate (stc w 0) = Some INSTATE_HDR" "st_state (stc w 0) \<noteq> ST_DONE" "us_buf (usk (uss w) 0) = [0, 0, 0, 0, 0, 0, 4, 1]"
    by (simp add: scene_step_defs)
  have "grid_getll (us_buf (usk (uss w) 0)) = Some 1025" unfolding w(5) by simp
  from stcp_drops_oversized [OF pipe_os_stream scene_reach [OF w(1)] w(2-4) this, of scene_answers] w(1)
  show ?thesis by (auto simp: scene_answers_def)
qed

text \<open>
  C40: A peer can abort a process that listens on IPC: a header that does not start with the byte
  of a normal message fails an assertion of the session that receives it.
\<close>

theorem sipc_bad_header_aborts:
  assumes "stream_os os fd rd wr" and "stream_reach 9 sipc_header sipc_check_header os fd k i w0 (w, rs, ss)"
    and "us_events (usk (uss w) i) = [(OB_RECEIVED, OwnerSession k, GRID_USOCK_RECEIVED)]"
    and "st_instate (stc w k) = Some INSTATE_HDR" and "st_state (stc w k) \<noteq> ST_DONE"
    and "hd (us_buf (usk (uss w) i)) \<noteq> GRID_SIPC_MSG_NORMAL"
  shows "stream_step 9 sipc_header sipc_check_header os k i (EvDeliver sa) (w, rs, ss) = None"
proof -
  have s: "st_fsm (stc w k) = FSM_ACTIVE" "st_state (stc w k) = ST_ACTIVE" "st_usock (stc w k) = Some i"
    using sipc.reach_inv [OF assms(1,2)] assms(3,5)
    by (auto simp: sipc.sess_inv_def sipc.sess_broken_def usock_broken_def sess_live_def Let_def)
  have c: "sipc_check_header opt (us_buf (usk (uss w) i)) = None" for opt
    using assms(6) by (cases "us_buf (usk (uss w) i)") (simp_all add: sipc_check_header_def)
  show ?thesis using s assms(4)
    by (simp add: stream_step_def deliver_usock_def us_take_event_one [OF assms(3)] stream_feed_def stream_handler_def
      stream_active_def stream_received_def stream_header_received_def c)
qed

lemma sipc_bad_header_aborts_witness:
  "\<exists>w. stream_start_pipe 9 pipe_os (Inr ()) 0 (scene_tcp (replicate 9 0)) = Some w
     \<and> stream_step 9 sipc_header sipc_check_header pipe_os 0 0 (EvDeliver scene_answers) (w, [], []) = None"
proof -
  obtain w where w: "stream_start_pipe 9 pipe_os (Inr ()) 0 (scene_tcp (replicate 9 0)) = Some w"
    "us_events (usk (uss w) 0) = [(OB_RECEIVED, OwnerSession 0, GRID_USOCK_RECEIVED)]"
    "st_instate (stc w 0) = Some INSTATE_HDR" "st_state (stc w 0) \<noteq> ST_DONE" "hd (us_buf (usk (uss w) 0)) = 0"
    by (simp add: scene_step_defs)
  have n: "hd (us_buf (usk (uss w) 0)) \<noteq> GRID_SIPC_MSG_NORMAL" unfolding w(5) by (simp add: GRID_SIPC_MSG_NORMAL_def)
  show ?thesis
    using sipc_bad_header_aborts [OF pipe_os_stream reach_start [OF scene_tcp_ready w(1)] w(2-4) n] w(1) by blast
qed

text \<open>
  The protocol header that a socket announces itself with has eight bytes, and a peer takes it
  exactly when its own socket type accepts that protocol; nothing without the magic bytes is taken.
\<close>

theorem protocol_header_recognised:
  assumes "0 \<le> p" and "p < 2 ^ 16"
  shows "\<exists>h. protocol_header p = Some h \<and> length h = 8 \<and> header_ok ispeer h = Some (ispeer p)
    \<and> (header_ok ispeer b = Some True \<longrightarrow> take 4 b = take 4 h)"
proof -
  obtain t where t: "grid_puts [0, 0, 0, 0] (word_of_int p) = Some t" by (simp add: grid_puts_def)
  have l: "length t = 4" using grid_puts_frame [OF t] by simp
  have g: "grid_gets t = Some (word_of_int p)" by (rule grid_gets_puts [OF t])
  have "uint (word_of_int p :: u16) = p" using assms by (simp add: unsigned_of_int take_bit_int_eq_self)
  then show ?thesis using t l g by (auto simp: protocol_header_def header_ok_def SP_MAGIC_def split: if_splits)
qed

lemma protocol_header_recognised_witness:
  "\<exists>h. protocol_header 48 = Some h \<and> length h = 8 \<and> header_ok (\<lambda>p. p = 49) h = Some False"
  using protocol_header_recognised [of 48 "\<lambda>p. p = 49" "[]"] by auto

section \<open>The worker\<close>

text \<open>
  C35: The worker serves all timers that have expired, the earliest first and each once, and
  leaves the others: here what a timer does is recorded, and it sets no new timer.
\<close>

theorem timers_expire_in_order:
  assumes "timerset_ok (wk_timerset w)"
  shows "worker_timers (\<lambda>s w. Some (w\<lparr>wk_user := wk_user w @ [s]\<rparr>)) w
    = Some (w\<lparr>wk_timerset := filter (\<lambda>x. wk_now w < snd x) (wk_timerset w),
        wk_user := wk_user w @ map (\<lambda>x. SrcTimer (fst x)) (filter (\<lambda>x. snd x \<le> wk_now w) (wk_timerset w))\<rparr>)"
  using assms
proof (induction "wk_timerset w" arbitrary: w)
  case Nil
  then show ?case by (subst worker_timers.simps) (simp add: grid_timerset_event_def)
next
  case (Cons x ts)
  obtain h t where x: "x = (h, t)" by (cases x)
  have ts: "wk_timerset w = (h, t) # ts" using Cons(2) x by simp
  have ok: "timerset_ok ts" "list_all (\<lambda>y. t \<le> snd y) ts" using Cons(3) by (auto simp: ts timerset_ok_def list_all_iff)
  show ?case
  proof (cases "wk_now w < t")
    case True
    then have "filter (\<lambda>x. wk_now w < snd x) ts = ts" "filter (\<lambda>x. snd x \<le> wk_now w) ts = []"
      using ok(2) by (auto simp: filter_id_conv filter_empty_conv list_all_iff)
    with True show ?thesis by (subst worker_timers.simps) (simp add: grid_timerset_event_def ts not_le)
  next
    case False
    let ?w = "w\<lparr>wk_timerset := ts, wk_user := wk_user w @ [SrcTimer h]\<rparr>"
    have "worker_timers (\<lambda>s w. Some (w\<lparr>wk_user := wk_user w @ [s]\<rparr>)) w
      = worker_timers (\<lambda>s w. Some (w\<lparr>wk_user := wk_user w @ [s]\<rparr>)) ?w"
      using False by (subst worker_timers.simps) (simp add: grid_timerset_event_def ts)
    with Cons(1) [of ?w] ok(1) False show ?thesis by (simp add: ts not_less)
  qed
qed

lemma timers_expire_in_order_witness:
  "worker_timers (\<lambda>s w. Some (w\<lparr>wk_user := wk_user w @ [s]\<rparr>))
     ((grid_worker_init 20 [])\<lparr>wk_timerset := [(7, 10), (5, 20), (6, 30)]\<rparr>)
   = Some ((grid_worker_init 20 [])\<lparr>wk_timerset := [(6, 30)], wk_user := [SrcTimer 7, SrcTimer 5]\<rparr>)"
  by (subst timers_expire_in_order) (simp_all add: timerset_ok_def grid_worker_init_def)



section \<open>Text\<close>

text \<open>
  C27: Bytes that are written in base64 are read back: with room for the text and its final zero
  encoding succeeds, and decoding the text into a buffer that holds the bytes gives them again.
\<close>

theorem base64_round_trip:
  assumes "4 * ((length bs + 2) div 3) < n" and "length bs \<le> m"
  shows "\<exists>cs. grid_base64_encode bs n = Inr cs \<and> length cs = 4 * ((length bs + 2) div 3)
    \<and> grid_base64_decode cs m = Some (Inr bs)"
  using encode_decode [OF assms] by simp

lemma base64_round_trip_witness:
  "\<exists>cs. grid_base64_encode [71, 82, 73, 68] 9 = Inr cs \<and> length cs = 8 \<and> grid_base64_decode cs 4 = Some (Inr [71, 82, 73, 68])"
  using base64_round_trip [of "[71, 82, 73, 68]" 9 4] by simp

text \<open>The port of an address is a decimal number from 1 to 65535, and nothing else.\<close>

theorem port_resolve_exact:
  "grid_port_resolve cs = Inr p \<longleftrightarrow> list_all digit cs \<and> decimal cs = p \<and> 1 \<le> p \<and> p \<le> 65535"
proof -
  have q: "port_loop cs 0 = Inr q \<longleftrightarrow> list_all digit cs \<and> decimal cs = q \<and> q \<le> 65535" for q
    using port_loop_ok [of 0 cs q] unfolding decimal_def by simp
  have "list_all digit cs \<Longrightarrow> 0 \<le> decimal cs" using decimal_mono [of cs 0] by (simp add: decimal_def)
  then have "grid_port_resolve cs = Inr p \<longleftrightarrow> port_loop cs 0 = Inr p \<and> p \<noteq> 0"
    by (cases "port_loop cs 0") (auto simp: grid_port_resolve_def)
  also have "\<dots> \<longleftrightarrow> list_all digit cs \<and> decimal cs = p \<and> 1 \<le> p \<and> p \<le> 65535"
    unfolding q using \<open>list_all digit cs \<Longrightarrow> 0 \<le> decimal cs\<close> by force
  finally show ?thesis .
qed

end
