(* ===== verification/Spec2Isabelle.thy ===== *)
theory Spec2Isabelle
  imports Wire GList GQueue Hash ChunkRef Msgqueue SurveyProps SocketProps RoundTrip ApiProps TransportProps
begin

text \<open>
  A model of gridmq, a C library of scalability protocols (a descendant of nanomsg), and
  the theorems about it. This theory imports the development and holds the properties that span it.

  The program. A user's socket (\<open>src/core/sock.c\<close>) is a generic part and a socket type
  (\<open>src/protocols\<close>) that decides where messages go. Connections are pipes
  (\<open>src/core/pipe.c\<close>) between a socket and a transport (\<open>src/transports\<close>). A socket type
  hears of its pipes through its functions \<open>add\<close>, \<open>rm\<close>, \<open>in\<close> and \<open>out\<close>, uses
  them with \<open>grid_pipe_send\<close> and \<open>grid_pipe_recv\<close>, and schedules them with the pattern
  helpers of \<open>src/protocols/utils\<close>. State machines (\<open>src/aio/fsm.c\<close>) get their timer
  events from a worker thread through queued tasks (\<open>src/aio/timer.c\<close>). Messages are
  reference-counted chunks (\<open>src/utils/chunk.c\<close>, \<open>chunkref.c\<close>, \<open>msg.c\<close>).

  Conventions. A function of the C code that can fail an assertion, or touch memory it must not,
  returns an \<open>option\<close> and \<open>None\<close> is that abort; the return value \<open>-e\<close> is
  \<open>Inl e\<close>, success is \<open>Inr\<close>. Machine integers are words of their width; ids, counters
  and lengths wrap as in C, except lengths of lists that stand for memory the process holds.
  A C object is a record; the pipes and transports a socket uses are a state \<open>'w\<close> threaded
  through, with the pipe's send and receive functions as arguments. What a user function or
  handler does under one acquisition of the context's lock is one step; what happens between
  (a worker's task, a delivered event, a timeout) is a step of its own, in any order. Allocation
  succeeds, as the code asserts.

  Theories and code.
  Prelude: machine integers, error numbers, asserts.
  Wire: \<open>utils/wire.c\<close>; GList, GQueue: \<open>utils/list.c\<close>, \<open>queue.c\<close> over a store of link fields,
  refined to sequences; Hash: \<open>utils/hash.c\<close>, refined to a finite map; Fifo: the locale of a
  first-in first-out container, interpreted by GQueue and Msgqueue.
  Chunk, ChunkRef, Msg: \<open>utils/chunk.c\<close>, \<open>chunkref.c\<close>, \<open>msg.c\<close> over a store of blocks. The
  protocols use messages as values, which the laws of ChunkRef justify.
  Pipe: \<open>core/pipe.c\<close>, and the locales \<open>pipe_world\<close> and \<open>finite_pipes\<close>: what a protocol
  relies on. Msgqueue, Sinproc: \<open>transports/inproc\<close>, which interpret both.
  Priolist, Patterns: \<open>protocols/utils\<close>: priority lists, load balancer, fair queue, distributor,
  exclusive pipe.
  Fsm, Timer: \<open>aio/fsm.c\<close>, \<open>timer.c\<close>, with the locale \<open>timer_service\<close> that the sockets use.
  XReq, Req, XRep: \<open>protocols/reqrep\<close>; Survey: \<open>protocols/survey\<close>; Trie, PubSub:
  \<open>protocols/pubsub\<close>; Pipeline: \<open>protocols/pipeline\<close> and \<open>pair\<close>; Bus: \<open>protocols/bus\<close>.
  Ep, Sock: \<open>core/ep.c\<close> and \<open>core/sock.c\<close> with the event queue of \<open>aio/ctx.c\<close> and the event
  descriptors of \<open>utils/efd.c\<close>: options, endpoints, blocking operations, the socket's state machine
  from opening to closing. SockTypes: the locale \<open>sock_world\<close>, what a socket relies on of its
  socket type, interpreted by a bus socket over inproc. SockInv: the invariant and the steps.
  Cmsg: the message functions of \<open>core/global.c\<close> with their ancillary data; Global, GlobalInv: the
  table of sockets, opening, closing, holding and releasing them, \<open>grid_term\<close>; Device:
  \<open>devices/device.c\<close> and \<open>core/poll.c\<close>. SockProps, GlobalProps and ApiProps state the properties
  of these.
  Codec: the texts of addresses (\<open>transports/utils/base64.c\<close>, \<open>port.c\<close>, \<open>literal.c\<close>, \<open>dns.c\<close>,
  \<open>iface.c\<close>). Worker: \<open>aio/worker.c\<close>, \<open>timerset.c\<close>, \<open>poller_epoll.inc\<close>.
  Usock: \<open>aio/usock.c\<close> over the calls of the operating system, a record of functions. Streamhdr:
  \<open>transports/utils/streamhdr.c\<close>. Stcp: the sessions of \<open>transports/tcp/stcp.c\<close> and
  \<open>transports/ipc/sipc.c\<close>. UsockStream: a connected usock transports a stream of bytes if the
  operating system does (\<open>stream_os\<close>). StcpStream: the locale \<open>framing\<close>, what sessions rely on
  of a message header, interpreted by both; a session transports messages. TransportProps states
  the properties of these.
  Scenario, RoundTrip: reachable states for the witnesses, and request/reply from end to end over
  inproc. SurveyProps, SocketProps, RoundTrip and this theory state the properties of sockets.

  Lemma groups. Each component has an invariant (names ending in \<open>_inv\<close> or \<open>_ok\<close>), one lemma
  per operation that it succeeds, keeps the invariant and has its functional effect, and where
  there is a container a representation predicate (\<open>dll\<close>, \<open>sll\<close>, \<open>mq_rep\<close>, \<open>hash_inv\<close>,
  \<open>trie_count\<close>). The sockets' lemmas are proved in \<open>pipe_world\<close>, so they hold for every
  transport that keeps the contract, and are used through the interpretation for inproc.

  Loops and termination. Loops over memory are structural or have a measure. The receive loops
  (\<open>req_in_loop\<close>, \<open>surveyor_recv_loop\<close>, \<open>xsub_recv_loop\<close>, \<open>xbus_recv_loop\<close>) are
  partial functions; that they end is proved from \<open>finite_pipes\<close>: a pipe holds finitely many
  messages. The worker's loops are partial functions too, and the event loop of a context ends
  because the weight of its queue falls. Numbers of worker tasks are explicit and bounded by 2.
  There is no fuel.

  Not modelled. What only wraps services of the operating system (threads, locks, semaphores,
  clocks, \<open>getaddrinfo\<close>, the pollers over \<open>kqueue\<close> and \<open>poll\<close>): the calls that matter are
  arguments. The endpoints of the TCP, IPC and inproc transports, which create the sessions
  (\<open>btcp.c\<close>, \<open>atcp.c\<close>, \<open>ctcp.c\<close> and their like), and their options; the command line tools;
  symbol tables; release of a trie.
\<close>

section \<open>Request sockets\<close>





text \<open>
  C16: A request whose replier's pipe goes away is sent again. When the pipe it was
  sent to is removed, the socket stops its timer, and after at most two tasks of the worker the
  same request has been handed to one of the writable pipes, or waits because there is none.
\<close>

theorem req_resent_on_pipe_loss:
  assumes "pipe_world psend precv winv can_out can_in" and "winv w" and "req_inv can_in can_out s w"
    and "tk_sent_to (rq_task s) = Some p"
  shows "\<exists>s1 k s' w'. grid_req_rm psend p (s, w) = Some (s1, w) \<and> rq_state s1 = REQ_TIMED_OUT
    \<and> k \<le> 2 \<and> req_task_steps k psend (s1, w) = Some (s', w') \<and> tk_id (rq_task s') = tk_id (rq_task s)
    \<and> (if xq_writable (rq_xreq s1) = {} then rq_state s' = REQ_DELAYED \<and> tk_request (rq_task s') = tk_request (rq_task s)
       else rq_state s' = REQ_ACTIVE \<and> (\<exists>q \<in> xq_writable (rq_xreq s1). q \<noteq> p \<and> tk_sent_to (rq_task s') = Some q
              \<and> (\<exists>rc. psend q (tk_request (rq_task s)) w = Some (rc, w'))))"
proof -
  from pipe_world.req_rm_ok [OF assms(1-3), of p] assms(4) obtain s1 where
    s1: "grid_req_rm psend p (s, w) = Some (s1, w)" "req_inv can_in can_out s1 w" "rq_state s1 = REQ_TIMED_OUT"
    "xq_pipes (rq_xreq s1) = xq_pipes (rq_xreq s) - {p}"
    "tk_id (rq_task s1) = tk_id (rq_task s)" "tk_request (rq_task s1) = tk_request (rq_task s)" by auto
  have x: "xreq_ok can_in can_out (rq_xreq s1) w" using s1(2) by (simp add: req_inv_def req_base_def)
  then have np: "q \<noteq> p" if "q \<in> xq_writable (rq_xreq s1)" for q
    using that s1(4) writable_registered [OF x] by auto
  from pipe_world.req_resend_ok [OF assms(1,2) s1(2)] s1(3) obtain k s' w' where
    r: "k \<le> 2" "req_task_steps k psend (s1, w) = Some (s', w')" "tk_id (rq_task s') = tk_id (rq_task s1)"
    "tk_request (rq_task s') = tk_request (rq_task s1)"
    "sent_result psend (rq_xreq s1) (tk_request (rq_task s1)) w s' w'" by blast
  have "if xq_writable (rq_xreq s1) = {} then rq_state s' = REQ_DELAYED \<and> tk_request (rq_task s') = tk_request (rq_task s)
       else rq_state s' = REQ_ACTIVE \<and> (\<exists>q \<in> xq_writable (rq_xreq s1). q \<noteq> p \<and> tk_sent_to (rq_task s') = Some q
              \<and> (\<exists>rc. psend q (tk_request (rq_task s)) w = Some (rc, w')))"
    using r(4,5) s1(6) np by (auto simp: sent_result_def split: if_splits)
  with s1(1,3,5) r(1-3) show ?thesis by (intro exI [of _ s1] exI [of _ k] exI [of _ s'] exI [of _ w']) simp
qed

theorem req_resent_on_pipe_loss_witness:
  "\<exists>s w s1 k sw. rq_state s = REQ_ACTIVE \<and> grid_req_rm (grid_pipe_send grid_sinproc_send) 0 (s, w) = Some (s1, w)
     \<and> rq_state s1 = REQ_TIMED_OUT \<and> req_task_steps k (grid_pipe_send grid_sinproc_send) (s1, w) = Some sw"
proof -
  obtain s w where sw: "inproc_inv w" "req_inv inproc_can_in inproc_can_out s w" "rq_state s = REQ_ACTIVE"
    "tk_sent_to (rq_task s) = Some 0" using scene_req_active by blast
  from req_resent_on_pipe_loss [OF inproc.pipe_world_axioms sw(1,2,4)] sw(3) show ?thesis by blast
qed

text \<open>
  C39: A defect: a message that comes in while the reply waits to be taken destroys
  it. The message that does not answer the request is received into the place of the stored
  reply and released, the socket stays in the state that announces a reply, and taking the reply
  then uses the released message.
\<close>

theorem req_stale_message_destroys_reply:
  assumes "rq_state s = REQ_DONE" and "grid_xreq_in (rq_xreq s) p = Some x"
    and "grid_xreq_recv precv (tk_reply (rq_task s)) x w = Some (Inr (), Some m, x1, w1)"
    and "grid_xreq_recv precv None x1 w1 = Some (Inl EAGAIN, None, x2, w2)"
    and "grid_getl (sphdr m) \<noteq> Some (tk_id (rq_task s) OR 0x80000000)" and "length (sphdr m) = 4"
  shows "\<exists>s'. grid_req_in psend precv p (s, w) = Some (s', w2) \<and> rq_state s' = REQ_DONE
    \<and> grid_req_events s' AND GRID_SOCKBASE_EVENT_IN \<noteq> 0 \<and> grid_req_crecv psend (s', w2) = None"
proof -
  obtain v where "grid_getl (sphdr m) = Some v" using grid_getl_defined [of "sphdr m"] assms(6) by auto
  with assms(5,6) have "reply_matches (tk_id (rq_task s)) m = Some False"
    by (simp add: reply_matches_def REQ_TOP_BIT_def)
  from stale_destroys_reply [OF assms(1-4) this, of psend] show ?thesis
    by (auto simp: grid_req_events_def GRID_SOCKBASE_EVENT_IN_def GRID_SOCKBASE_EVENT_OUT_def)
qed

theorem req_stale_message_destroys_reply_witness:
  "\<exists>s x x1. rq_state s = REQ_DONE
     \<and> grid_xreq_recv (\<lambda>p w. Some (3, \<lparr>sphdr = [128, 0, 0, 5], hdrs = [], body = [1]\<rparr>, w))
         (tk_reply (rq_task s)) x () = Some (Inr (), Some \<lparr>sphdr = [128, 0, 0, 5], hdrs = [], body = [1]\<rparr>, x1, ())
     \<and> (\<exists>s'. grid_req_in (\<lambda>p m w. None)
         (\<lambda>p w. Some (3, \<lparr>sphdr = [128, 0, 0, 5], hdrs = [], body = [1]\<rparr>, w)) 0
         (s, ()) = Some (s', ()) \<and> grid_req_crecv (\<lambda>p m w. None) (s', ()) = None)"
proof -
  let ?m = "\<lparr>sphdr = [128, 0, 0, 5], hdrs = [], body = [1]\<rparr> :: msg"
  let ?precv = "\<lambda>p w. Some (3, ?m, w)"
  obtain s0 :: grid_req where s0: "tk_id (rq_task s0) = 9" using scene_req_added [of "inproc_init 0" 9] by blast
  define s where "s = s0\<lparr>rq_state := REQ_DONE, rq_xreq := the (grid_xreq_add grid_xreq_init 0 1 1)\<rparr>"
  have st: "rq_state s = REQ_DONE" "tk_id (rq_task s) = 9"
    and xs: "rq_xreq s = the (grid_xreq_add grid_xreq_init 0 1 1)" using s0 by (simp_all add: s_def)
  obtain x x1 where x: "grid_xreq_in (rq_xreq s) 0 = Some x"
    "grid_xreq_recv ?precv (tk_reply (rq_task s)) x () = Some (Inr (), Some ?m, x1, ())"
    "grid_xreq_recv ?precv None x1 () = Some (Inl EAGAIN, None, x1, ())"
    using scene_xreq_in scene_xreq_recv [of ?m "tk_reply (rq_task s)" "grid_lb_add grid_lb_init 0 1" "[0 \<mapsto> 1]"]
    unfolding xs by blast
  have "grid_getl (sphdr ?m) \<noteq> Some (tk_id (rq_task s) OR 0x80000000)" "length (sphdr ?m) = 4"
    using st(2) by simp_all
  from req_stale_message_destroys_reply [OF st(1) x this, of "\<lambda>p m w. None"] st(1) x(2) show ?thesis by blast
qed

section \<open>Reply sockets\<close>

text \<open>
  C7: A reply goes back to where its request came from. After a request has been
  received, sending a reply hands it to the pipe the request came from, with exactly the header
  that had been split off the request, or drops it if that pipe cannot take it; then the socket
  has no request any more and refuses to send until it receives one. The header and the body
  handed to the user are together what the pipe delivered.
\<close>

theorem rep_replies_to_requester:
  assumes "pipe_world psend precv winv can_out can_in" and "winv w" and "xrep_ok can_in can_out (rp_xrep s) w"
    and "grid_rep_recv precv s w = Some (Inr m, s1, w1)" and "sphdr reply = []"
  shows "\<exists>p \<in> xrep_readable (rp_xrep s). \<exists>rc m0 d h s2 w2. precv p w = Some (rc, m0, w1)
    \<and> xr_data (rp_xrep s) p = Some d \<and> h @ body m = sphdr m0 @ body m0
    \<and> grid_rep_send psend reply s1 w1 = Some (Inr (), s2, w2) \<and> xrep_ok can_in can_out (rp_xrep s2) w2
    \<and> (if xd_out d then \<exists>rc'. psend p (reply\<lparr>sphdr := h\<rparr>) w1 = Some (rc', w2) else w2 = w1)
    \<and> grid_rep_send psend any s2 w2 = Some (Inl EFSM, s2, w2)"
proof -
  from pipe_world.rep_recv_ok [OF assms(1-3)] assms(4) have ok: "winv w1" "xrep_ok can_in can_out (rp_xrep s1) w1"
    "xr_data (rp_xrep s1) = xr_data (rp_xrep s)" by auto
  from pipe_world.rep_recv_ok [OF assms(1-3)] assms(4) obtain p rc m0 d m1 where
    r: "p \<in> xrep_readable (rp_xrep s)" "precv p w = Some (rc, m0, w1)" "xr_data (rp_xrep s) p = Some d"
    "parsed rc \<or> sphdr m0 = []" "split_request (parsed rc) m0 = Some m1" "m = m1\<lparr>sphdr := []\<rparr>"
    "rp_backtrace s1 = Some (key_bytes (xd_key d) @ sphdr m1)" by auto
  have "sphdr m1 @ body m = sphdr m0 @ body m0"
    using r(4-6) split_request_Some [of m0 m1] by (cases "parsed rc") (auto simp: split_request_def)
  moreover obtain s2 w2 where s2: "grid_rep_send psend reply s1 w1 = Some (Inr (), s2, w2)" "xrep_ok can_in can_out (rp_xrep s2) w2"
    "rp_backtrace s2 = None" "if xd_out d then \<exists>rc. psend p (reply\<lparr>sphdr := sphdr m1\<rparr>) w1 = Some (rc, w2) else w2 = w1"
    using pipe_world.rep_send_ok [OF assms(1) ok(1,2) assms(5) _ r(7)] ok(3) r(3) by metis
  moreover have "grid_rep_send psend any s2 w2 = Some (Inl EFSM, s2, w2)" using s2(3) by (simp add: grid_rep_send_def)
  ultimately show ?thesis using r(1-3) by blast
qed

theorem rep_replies_to_requester_witness:
  "\<exists>s w m s1 w1 s2 w2. grid_rep_recv (grid_pipe_recv grid_sinproc_recv) s w = Some (Inr m, s1, w1)
     \<and> grid_rep_send (grid_pipe_send grid_sinproc_send) empty_msg s1 w1 = Some (Inr (), s2, w2)"
proof -
  obtain s w m s1 w1 where s: "inproc_inv w" "xrep_ok inproc_can_in inproc_can_out (rp_xrep s) w"
    "grid_rep_recv (grid_pipe_recv grid_sinproc_recv) s w = Some (Inr m, s1, w1)" using scene_rep by blast
  have "sphdr (empty_msg :: msg) = []" by (simp add: empty_msg_def)
  from rep_replies_to_requester [OF inproc.pipe_world_axioms s this] s(3) show ?thesis by blast
qed

text \<open>
  The scan for the bottom of the backtrace ends within the message, whatever bytes it has:
  it finds the first 32-bit word with the top bit set, or reports that there is none,
  in which case no word of the message is a bottom. A request that is taken apart there loses
  no byte, and its header is a whole number of words.
\<close>

theorem backtrace_scan:
  "\<exists>r. backtrace_size 0 (body m) = Some r
    \<and> (case r of
         None \<Rightarrow> split_request False m = None \<and> (\<forall>i. \<not> bottom_at (body m) i)
       | Some n \<Rightarrow> \<exists>m'. split_request False m = Some m' \<and> 0 < n \<and> 4 * n \<le> length (body m)
           \<and> bottom_at (body m) (n - 1) \<and> (\<forall>i. i < n - 1 \<longrightarrow> \<not> bottom_at (body m) i)
           \<and> length (sphdr m') = 4 * n \<and> sphdr m' @ body m' = body m)"
proof -
  obtain r where r: "backtrace_size 0 (body m) = Some r" using backtrace_size_spec(3) by blast
  show ?thesis
  proof (cases r)
    case None
    with r have "split_request False m = None" by (simp add: split_request_def)
    with None r split_request_None show ?thesis by auto
  next
    case (Some n)
    with r have m: "split_request False m = Some (m\<lparr>sphdr := take (4 * n) (body m), body := drop (4 * n) (body m)\<rparr>)"
      by (simp add: split_request_def)
    from backtrace_size_spec(1) [of 0 "body m" n] backtrace_size_le [of 0 "body m" n] r Some m show ?thesis by simp
  qed
qed

theorem backtrace_scan_witness:
  "\<exists>m'. backtrace_size 0 [0, 0, 0, 5, 0x80, 0, 0, 1, 42] = Some (Some 2)
     \<and> split_request False \<lparr>sphdr = [], hdrs = [], body = [0, 0, 0, 5, 0x80, 0, 0, 1, 42]\<rparr> = Some m' \<and> body m' = [42]"
proof -
  have e: "backtrace_size 0 [0, 0, 0, 5, 0x80, 0, 0, 1, 42] = Some (Some 2)"
    by (simp add: backtrace_size.simps [of 0] backtrace_size.simps [of 1] backtrace_size.simps [of "Suc 0"])
  with backtrace_scan [of "\<lparr>sphdr = [], hdrs = [], body = [0, 0, 0, 5, 0x80, 0, 0, 1, 42]\<rparr>"] show ?thesis
    by (auto simp: split_request_def)
qed

section \<open>Inproc connections\<close>

text \<open>
  C6: Messages between two connected inproc sessions are neither lost, duplicated
  nor reordered, however sending, receiving and the delivery of the queued events interleave and
  whatever the buffer limits: in every run from the handshake on, what one side has sent (header
  and body merged) is what the other has received followed by what is still on its way.
\<close>

theorem inproc_fifo:
  assumes "i \<noteq> j" and "inproc_handshake owner i j (inproc_init rcvbuf) = Some w" and "inproc_run w tr w'"
  shows "\<exists>ms ms'. chan_ok w' i j ms \<and> sent_by i tr = received_by j tr @ ms
    \<and> chan_ok w' j i ms' \<and> sent_by j tr = received_by i tr @ ms'"
proof -
  from handshake_inv [OF fresh_init(2) assms(1) fresh_init(1) fresh_init(1), of owner rcvbuf] assms(2)
  have w: "inproc_inv w" "paired w i j" "chan_ok w i j []" "chan_ok w j i []" by auto
  from inproc_run_chan [OF assms(3) w(1,2,3)] inproc_run_chan [OF assms(3) w(1) paired_sym [OF w(2)] w(4)]
  show ?thesis by auto
qed

theorem inproc_fifo_witness:
  "\<exists>w w' rc ms. inproc_handshake 9 0 1 (inproc_init 100) = Some w
     \<and> inproc_run w [LTau, LSend 0 \<lparr>sphdr = [1], hdrs = [], body = [2]\<rparr>] w'
     \<and> chan_ok w' 0 1 ms \<and> ms = [\<lparr>sphdr = [], hdrs = [], body = [1, 2]\<rparr>]"
proof -
  let ?m = "\<lparr>sphdr = [1], hdrs = [], body = [2]\<rparr> :: msg"
  have ij: "(0::nat) \<noteq> 1" by simp
  from handshake_inv [OF fresh_init(2) ij fresh_init(1) fresh_init(1), of 9 100] obtain w where
    w: "inproc_handshake 9 0 1 (inproc_init 100) = Some w" "inproc_inv w" "inproc_can_out 0 (deliver_out 0 w)" by blast
  have "inproc_inv (deliver_out 0 w)" by (rule deliver_ready_inv [OF disjI2 [OF refl] w(2)])
  from inproc.send_ok [OF this w(3), of ?m] obtain rc w' where
    "grid_pipe_send grid_sinproc_send 0 ?m (deliver_out 0 w) = Some (rc, w')" by blast
  then have "inproc_run w ([] @ [LTau] @ [LSend 0 ?m]) w'"
    using run_snoc [OF run_snoc [OF run_nil step_out] step_send [OF w(3)]] by simp
  then have r: "inproc_run w [LTau, LSend 0 ?m] w'" by simp
  from inproc_fifo [OF ij w(1) r] w(1) r show ?thesis by (auto simp: merge_msg_def)
qed



text \<open>
  A defect: closing one end of an inproc connection while the other sends
  aborts the process. A session that is asked to stop waits for its peer's answer; the peer, not
  knowing yet, may send, and the SENT event then reaches a session that has no transition for it.
\<close>

theorem inproc_close_send_race:
  assumes "inproc_inv w" and "paired w i j" and "inproc_can_out i w" and "event_at w i ODisconnect = None"
  shows "\<exists>w1 rc w2. grid_sinproc_stop j w = Some w1 \<and> grid_pipe_send grid_sinproc_send i m w1 = Some (rc, w2)
    \<and> event_at w2 j OSent = Some (ToSession j, EV_SENT, i) \<and> deliver add j OSent w2 = None"
  by (rule stop_then_send_aborts [OF assms])

theorem inproc_close_send_race_witness:
  "\<exists>w w1 rc w2. inproc_inv w \<and> grid_sinproc_stop 1 w = Some w1
     \<and> grid_pipe_send grid_sinproc_send 0 \<lparr>sphdr = [], hdrs = [], body = [3]\<rparr> w1 = Some (rc, w2)
     \<and> deliver (Inr ()) 1 OSent w2 = None"
proof -
  obtain w where w: "inproc_inv w" "paired w 0 1" "inproc_can_out 0 w" "event_at w 0 ODisconnect = None"
    using scene_connected by blast
  from inproc_close_send_race [OF w] w(1) show ?thesis by blast
qed

section \<open>Scheduling over several pipes\<close>

text \<open>
  C24: Strict priority and round robin. The pipes served next are exactly the
  active pipes of the best (lowest) priority; serving each once, with none released, takes them
  in the order of the ring without repetition, after which the ring is as before.
\<close>

theorem priolist_round_robin:
  assumes "prio_inv l"
  shows "distinct (top_ring l)
    \<and> set (top_ring l) = {p \<in> pl_active l. \<forall>q \<in> pl_active l. the (pl_prio l p) \<le> the (pl_prio l q)}
    \<and> (\<exists>l'. prio_serve (length (top_ring l)) l = Some (top_ring l, l') \<and> prio_inv l' \<and> top_ring l' = top_ring l)"
  using top_ring_set [OF assms] serve_ring [OF assms, of "top_ring l" "[]"] by auto

theorem priolist_round_robin_witness:
  "\<exists>l l'. prio_inv l \<and> pl_active l = {3, 5} \<and> prio_serve (length (top_ring l)) l = Some (top_ring l, l')"
proof -
  define l0 where "l0 = grid_priolist_add (grid_priolist_add grid_priolist_init 3 8) 5 8"
  have a: "prio_inv (grid_priolist_add grid_priolist_init 3 8)" "pl_active (grid_priolist_add grid_priolist_init 3 8) = {}"
    using prio_add [OF prio_init(1), of 3 8] prio_init(2) by (simp_all add: grid_priolist_init_def)
  have "pl_prio (grid_priolist_add grid_priolist_init 3 8) 5 = None"
    by (simp add: grid_priolist_add_def grid_priolist_init_def)
  from prio_add [OF a(1) this, of 8] a(2) have l0: "prio_inv l0" "pl_active l0 = {}" by (simp_all add: l0_def)
  have p: "pl_prio l0 3 = Some 8" "pl_prio l0 5 = Some 8" by (simp_all add: l0_def grid_priolist_add_def)
  obtain l1 where l1: "prio_inv l1" "pl_active l1 = {3}" "pl_prio l1 = pl_prio l0"
    using prio_activate [OF l0(1) p(1)] l0(2) by auto
  obtain l2 where l2: "prio_inv l2" "pl_active l2 = {3, 5}"
    using prio_activate [OF l1(1), of 5 8] l1(2,3) p(2) by auto
  from priolist_round_robin [OF l2(1)] l2 show ?thesis by blast
qed

text \<open>
  Load balancing. Over pipes that keep the pipe contract, a request goes to
  exactly one of the writable pipes, one of the best priority, and the pipe stays listed exactly
  when it is still writable; with no writable pipe the caller gets \<open>EAGAIN\<close> and nothing changes.
\<close>

theorem lb_send_one:
  assumes "pipe_world psend precv winv can_out can_in" and "winv w" and "lb_ok can_out l w"
  shows "\<exists>r l' w'. grid_lb_send psend m l w = Some (r, l', w') \<and> winv w' \<and> lb_ok can_out l' w'
    \<and> (case r of Inl e \<Rightarrow> e = EAGAIN \<and> pl_active (lb_priolist l) = {} \<and> l' = l \<and> w' = w
       | Inr (f, p) \<Rightarrow> p \<in> pl_active (lb_priolist l) \<and> \<not> released f
           \<and> (\<forall>q \<in> pl_active (lb_priolist l). the (pl_prio (lb_priolist l) p) \<le> the (pl_prio (lb_priolist l) q))
           \<and> (\<exists>rc. psend p m w = Some (rc, w')))"
  using pipe_world.lb_send_ok [OF assms] by blast

theorem lb_send_one_witness:
  "\<exists>l w rc w' f l'. grid_lb_send (grid_pipe_send grid_sinproc_send) empty_msg l w = Some (Inr (f, 0), l', w')
     \<and> grid_pipe_send grid_sinproc_send 0 empty_msg w = Some (rc, w')"
proof -
  obtain w where w: "inproc_inv w" "inproc_can_out 0 w" using scene_connected by blast
  define l0 where "l0 = grid_priolist_add grid_priolist_init 0 8"
  have l0: "prio_inv l0" "pl_active l0 = {}" "pl_prio l0 0 = Some 8"
    using prio_add [OF prio_init(1), of 0 8] prio_init(2)
    by (simp_all add: l0_def grid_priolist_init_def grid_priolist_add_def)
  obtain l1 where l1: "prio_inv l1" "pl_active l1 = {0}" using prio_activate [OF l0(1,3)] l0(2) by auto
  have "lb_ok inproc_can_out \<lparr>lb_priolist = l1\<rparr> w" using l1 w(2) by (simp add: lb_ok_def)
  from lb_send_one [OF inproc.pipe_world_axioms w(1) this, of empty_msg] obtain r l' w' where
    r: "grid_lb_send (grid_pipe_send grid_sinproc_send) empty_msg \<lparr>lb_priolist = l1\<rparr> w = Some (r, l', w')"
    and c: "case r of Inl e \<Rightarrow> e = EAGAIN \<and> pl_active (lb_priolist \<lparr>lb_priolist = l1\<rparr>) = {} \<and> l' = \<lparr>lb_priolist = l1\<rparr> \<and> w' = w
       | Inr (f, p) \<Rightarrow> p \<in> pl_active (lb_priolist \<lparr>lb_priolist = l1\<rparr>) \<and> \<not> released f
           \<and> (\<forall>q \<in> pl_active (lb_priolist \<lparr>lb_priolist = l1\<rparr>). the (pl_prio (lb_priolist \<lparr>lb_priolist = l1\<rparr>) p)
                \<le> the (pl_prio (lb_priolist \<lparr>lb_priolist = l1\<rparr>) q))
           \<and> (\<exists>rc. grid_pipe_send grid_sinproc_send p empty_msg w = Some (rc, w'))" by blast
  from c l1(2) obtain f rc where "r = Inr (f, 0)" "grid_pipe_send grid_sinproc_send 0 empty_msg w = Some (rc, w')"
    by (cases r) auto
  with r show ?thesis by blast
qed

text \<open>
  Distribution. A message is sent once to every listed pipe but the excluded
  one, in the order of the list; nothing else is sent, it never aborts, and the pipes that stay
  listed are those that are still writable.
\<close>

theorem dist_send_to_all:
  assumes "pipe_world psend precv winv can_out can_in" and "winv w" and "dist_ok can_out d w"
  shows "\<exists>d' w'. grid_dist_send psend m exclude d w = Some (d', w')
    \<and> send_each psend m [p \<leftarrow> di_pipes d. exclude \<noteq> Some p] w = Some w'
    \<and> winv w' \<and> dist_ok can_out d' w' \<and> set (di_pipes d') = {p \<in> set (di_pipes d). can_out p w'}"
  using pipe_world.dist_send_ok [OF assms] by blast

theorem dist_send_to_all_witness:
  "\<exists>d d' w w'. di_pipes d = [0, 1] \<and> inproc_can_out 0 w \<and> inproc_can_out 1 w
     \<and> grid_dist_send (grid_pipe_send grid_sinproc_send) empty_msg (Some 1) d w = Some (d', w')
     \<and> send_each (grid_pipe_send grid_sinproc_send) empty_msg [0] w = Some w'"
proof -
  obtain w where w: "inproc_inv w" "inproc_can_out 0 w" "inproc_can_out 1 w" using scene_connected by blast
  define d :: grid_dist where "d = \<lparr>di_count = 2, di_pipes = [0, 1]\<rparr>"
  have "dist_ok inproc_can_out d w" using w(2,3) by (simp add: dist_ok_def dist_inv_def d_def)
  from dist_send_to_all [OF inproc.pipe_world_axioms w(1) this, of empty_msg "Some 1"] obtain d' w' where
    "grid_dist_send (grid_pipe_send grid_sinproc_send) empty_msg (Some 1) d w = Some (d', w')"
    "send_each (grid_pipe_send grid_sinproc_send) empty_msg [p \<leftarrow> di_pipes d. Some 1 \<noteq> Some p] w = Some w'" by blast
  moreover have "di_pipes d = [0, 1]" "[p \<leftarrow> di_pipes d. Some 1 \<noteq> Some p] = [0]" by (simp_all add: d_def)
  ultimately show ?thesis using w(2,3) by metis
qed

section \<open>Timers\<close>



section \<open>Containers and message memory\<close>

text \<open>
  Writing a 16-, 32- or 64-bit integer in network byte order into a buffer of
  at least 8 bytes succeeds, reading it back gives the integer, and the rest of the buffer
  is untouched.
\<close>

theorem wire_roundtrip:
  assumes "8 \<le> length buf"
  shows "(\<exists>b. grid_puts buf v16 = Some b \<and> grid_gets b = Some v16 \<and> drop 2 b = drop 2 buf)
    \<and> (\<exists>b. grid_putl buf v32 = Some b \<and> grid_getl b = Some v32 \<and> drop 4 b = drop 4 buf)
    \<and> (\<exists>b. grid_putll buf v64 = Some b \<and> grid_getll b = Some v64 \<and> drop 8 b = drop 8 buf)"
proof -
  obtain a b c where "grid_puts buf v16 = Some a" "grid_putl buf v32 = Some b" "grid_putll buf v64 = Some c"
    using assms by (auto simp: grid_puts_def grid_putl_def grid_putll_def)
  then show ?thesis
    using grid_puts_frame [of buf v16 a] grid_putl_frame [of buf v32 b] grid_putll_frame [of buf v64 c]
    by (auto simp: grid_gets_puts grid_getl_putl grid_getll_putll)
qed

theorem wire_roundtrip_witness:
  "\<exists>b. grid_putl (replicate 8 0) 0x80000001 = Some b \<and> grid_getl b = Some 0x80000001"
  using wire_roundtrip [of "replicate 8 0" _ "0x80000001"] by (metis length_replicate order_refl)

text \<open>
  Inserting an item that is in no list before any position of a list
  puts it there: the traversal visits exactly the items before the position, the item and the
  items after it. Erasing it again returns the position after it, restores the sequence and
  marks the item as in no list; neither aborts.
\<close>

theorem list_insert_erase:
  assumes "dll m l (as @ bs)" and "\<not> grid_list_item_isinlist m x"
  shows "\<exists>m' l'. grid_list_insert m l x (ptr_hd bs LNull) = Some (m', l')
    \<and> list_visit m' (grid_list_begin l') [] = Some (as @ x # bs)
    \<and> (\<exists>m'' l''. grid_list_erase m' l' x = Some (m'', l'', ptr_hd bs LNull)
         \<and> list_visit m'' (grid_list_begin l'') [] = Some (as @ bs) \<and> \<not> grid_list_item_isinlist m'' x)"
proof -
  obtain m' l' where i: "grid_list_insert m l x (ptr_hd bs LNull) = Some (m', l')" "dll m' l' (as @ x # bs)"
    using dll_insert [OF assms] by blast
  from dll_erase [OF i(2)] obtain m'' l'' where "grid_list_erase m' l' x = Some (m'', l'', ptr_hd bs LNull)"
    "dll m'' l'' (as @ bs)" "\<not> grid_list_item_isinlist m'' x" by blast
  with i show ?thesis by (auto dest: dll_visit)
qed

theorem list_insert_erase_witness:
  "\<exists>m' l'. grid_list_insert (\<lambda>a. \<lparr>li_next = LNotInList, li_prev = LNotInList\<rparr>) grid_list_init 7 LNull
     = Some (m', l') \<and> list_visit m' (grid_list_begin l') [] = Some [7]"
  using list_insert_erase [of "\<lambda>a. \<lparr>li_next = LNotInList, li_prev = LNotInList\<rparr>" grid_list_init "[]" "[]" 7]
  by (auto simp: dll_init grid_list_item_isinlist_def)

text \<open>
  The intrusive queue never refuses an item that is in no queue, gives the
  items back in the order in which they were pushed, and any item can be removed from the
  middle of it without disturbing the order of the others.
\<close>

theorem queue_fifo:
  assumes "distinct (as @ x # bs)" and "\<forall>y. m y = QNotInQueue"
  shows "\<exists>s1. push_all grid_queue_push (as @ x # bs) (m, grid_queue_init) = Some s1
    \<and> (\<exists>s2. pop_times grid_queue_pop (length (as @ x # bs)) s1 = Some (as @ x # bs, s2))
    \<and> (\<exists>s2 s3. grid_queue_remove x s1 = Some s2 \<and> pop_times grid_queue_pop (length (as @ bs)) s2 = Some (as @ bs, s3)
         \<and> grid_queue_empty (snd s3))"
proof -
  have "sll (m, grid_queue_init) []" by (simp add: grid_queue_init_def q_last_def)
  from push_all_fresh [OF this assms(1)] assms(2) obtain s1 where
    s1: "push_all grid_queue_push (as @ x # bs) (m, grid_queue_init) = Some s1" "sll s1 (as @ x # bs)" by auto
  obtain m1 q1 where e: "s1 = (m1, q1)" by (cases s1)
  obtain m2 q2 where r: "grid_queue_remove x (m1, q1) = Some (m2, q2)" "sll (m2, q2) (as @ bs)"
    using sll_remove [of m1 q1 as x bs] s1(2) e by blast
  obtain s3 where s3: "pop_times grid_queue_pop (length (as @ bs)) (m2, q2) = Some (as @ bs, s3)" "sll s3 []"
    using gq.pop_times_rep [OF r(2), of "length (as @ bs)"] by auto
  obtain s4 where "pop_times grid_queue_pop (length (as @ x # bs)) s1 = Some (as @ x # bs, s4)"
    using gq.pop_times_rep [OF s1(2), of "length (as @ x # bs)"] by auto
  moreover have "grid_queue_empty (snd s3)" using s3(2) by (cases s3) (simp add: grid_queue_empty_def)
  ultimately show ?thesis using s1(1) r(1) s3(1) e by blast
qed

theorem queue_fifo_witness:
  "\<exists>s1 s2 s3. push_all grid_queue_push [4, 2, 9] (\<lambda>a. QNotInQueue, grid_queue_init) = Some s1
     \<and> grid_queue_remove 2 s1 = Some s2 \<and> pop_times grid_queue_pop 2 s2 = Some ([4, 9], s3)"
  using queue_fifo [of "[4]" 2 "[9]" "\<lambda>a. QNotInQueue"] by (auto simp: numeral_2_eq_2)

text \<open>
  C21: A hash table filled with any number of items of different keys (its slot
  array grows by re-hashing on the way) finds exactly those items; inserting a key twice
  aborts; erasing an item removes that key and no other.
\<close>

theorem hash_is_map:
  assumes "distinct (map fst kvs)"
  shows "\<exists>h. insert_all grid_hash_insert kvs grid_hash_init = Some h
    \<and> (\<forall>k. grid_hash_get h k = map_of kvs k)
    \<and> (\<forall>k v w. map_of kvs k = Some v \<longrightarrow> grid_hash_insert k w h = None
         \<and> (\<exists>h'. grid_hash_erase k v h = Some h' \<and> grid_hash_get h' = (map_of kvs)(k := None)))"
proof -
  obtain h where h: "insert_all grid_hash_insert kvs grid_hash_init = Some h" "hash_inv h"
    "grid_hash_get h = map_of kvs"
    using ht.insert_all_ok [OF hash_init_inv assms] by (auto simp: hash_init_get)
  have "\<exists>h'. grid_hash_erase k v h = Some h' \<and> grid_hash_get h' = (map_of kvs)(k := None)"
    and "grid_hash_insert k w h = None" if "map_of kvs k = Some v" for k v w
    using that ht.del_present [OF h(2), of k v] ht.ins_dup [OF h(2), of k w] h(3) by auto
  with h show ?thesis by auto
qed

theorem hash_is_map_witness:
  "\<exists>h. insert_all grid_hash_insert (map (\<lambda>i. (of_nat i, i)) [0 ..< 40]) grid_hash_init = Some h
     \<and> grid_hash_get h 39 = Some 39"
proof -
  let ?kvs = "map (\<lambda>i. (of_nat i :: u32, i)) [0 ..< 40]"
  have "distinct (map fst ?kvs)" "map_of ?kvs 39 = Some 39" by (simp_all add: upt_conv_Cons)
  with hash_is_map [of ?kvs] show ?thesis by fastforce
qed

text \<open>
  Trimming \<open>n\<close> bytes off the front of a chunk's data leaves a pointer that the
  chunk functions accept again (its tag and empty-space size are in place), that sees exactly
  the remaining data, and no other block changes; trimming never touches the reference count.
\<close>

theorem chunk_trim_correct:
  assumes "good_ptr h (a, p)" and "chunk_data h (a, p) = Some d" and "unat n \<le> length d"
    and "p + unat n < 2 ^ 32"
  shows "\<exists>h'. grid_chunk_trim h (a, p) n = Some (h', (a, p + unat n))
    \<and> chunk_data h' (a, p + unat n) = Some (drop (unat n) d) \<and> good_ptr h' (a, p + unat n)
    \<and> map_option ck_refcount (h' a) = map_option ck_refcount (h a) \<and> (\<forall>b. b \<noteq> a \<longrightarrow> h' b = h b)"
proof -
  have "8 \<le> p" using good_ptr_data [OF assms(1)] by auto
  with assms(4) have "p + unat n - 8 < 2 ^ 32 - 1" by simp
  from chunk_trim_good [OF assms(1-3) this] show ?thesis by blast
qed

theorem chunk_trim_correct_witness:
  "\<exists>h ptr h' q. grid_chunk_alloc Map.empty 6 0 (Some (1, \<lambda>i. of_nat i)) = Some (Inr (h, ptr))
     \<and> grid_chunk_trim h ptr 2 = Some (h', q) \<and> chunk_data h' q = Some [10, 11, 12, 13]"
proof -
  obtain h where h: "grid_chunk_alloc Map.empty 6 0 (Some (1, \<lambda>i. of_nat i)) = Some (Inr (h, (1, 8)))"
    and d: "chunk_data h (1, 8) = Some [8, 9, 10, 11, 12, 13]"
    by (simp add: grid_chunk_alloc_def grid_chunk_hdrsize_def chunk_struct_size_def store_l_def grid_putl_def
        upt_conv_Cons grid_chunk_getdata_def GRID_CHUNK_TAG_def chunk_data_def grid_chunk_getptr_def load_l_def)
  have "good_ptr h (1, 8)" using chunk_alloc_good [OF h] by simp
  from chunk_trim_correct [OF this d, of 2] h show ?thesis by auto
qed

text \<open>
  C26: Bulk copying. Where the references held to all blocks are exactly those of
  one message, announcing \<open>n\<close> more copies raises the counts so that each of the
  \<open>n + 1\<close> copies can be released in turn without touching freed memory, and the last
  release frees every block of the message: nothing is freed early and nothing leaks.
\<close>

theorem bulk_copies_released:
  assumes "owned h (msg_blocks m)" and "good_msg h m" and "4 * unat n + 3 < 2 ^ 32"
  shows "\<exists>h'. grid_msg_bulkcopy_start h m n = Some h'
    \<and> msg_of h' (grid_msg_bulkcopy_cp m) = msg_of h m
    \<and> (\<forall>k \<le> unat n. \<exists>h''. term_times k h' (grid_msg_bulkcopy_cp m) = Some h''
         \<and> good_msg h'' (grid_msg_bulkcopy_cp m))
    \<and> term_times (Suc (unat n)) h' (grid_msg_bulkcopy_cp m) = Some Map.empty"
proof -
  have cp: "grid_msg_bulkcopy_cp m = m" by (simp add: grid_msg_bulkcopy_cp_def grid_chunkref_bulkcopy_cp_def)
  have le: "count (cr_blocks cr) a \<le> 1" for cr a by (cases cr rule: cr_blocks.cases) auto
  have "count (msg_blocks m) a + 3 * unat n < 2 ^ 32" if "0 < unat n" for a
    using le [of "cm_sphdr m" a] le [of "cm_hdrs m" a] le [of "cm_body m" a] assms(3) that
    unfolding msg_blocks_def count_union by linarith
  moreover have "count (msg_blocks m) a + 3 * unat n < 2 ^ 32" if "unat n = 0" for a
    using le [of "cm_sphdr m" a] le [of "cm_hdrs m" a] le [of "cm_body m" a] that
    unfolding msg_blocks_def count_union by simp
  ultimately have "\<forall>a. count (msg_blocks m) a + 3 * unat n < 2 ^ 32" by blast
  from msg_bulk_owned [OF assms(1,2) this] obtain h' where h': "grid_msg_bulkcopy_start h m n = Some h'"
    "owned h' (msg_blocks m + repeat_mset (unat n) (msg_blocks m))"
    "\<forall>cr. good_cr h' cr = good_cr h cr \<and> grid_chunkref_data h' cr = grid_chunkref_data h cr" by blast
  have "owned h' (repeat_mset (Suc (unat n)) (msg_blocks m))" using h'(2) by simp
  moreover have "good_msg h' m" using assms(2) h'(3) by (simp add: good_msg_def)
  ultimately show ?thesis
    using term_times_owned [of h' "unat n" m] h'(1,3) msg_of_cong [of h' h m] by (simp only: cp) blast
qed

theorem bulk_copies_released_witness:
  "\<exists>h p h' . grid_chunk_alloc Map.empty 40 0 (Some (1, \<lambda>i. 0)) = Some (Inr (h, p))
     \<and> grid_msg_bulkcopy_start h \<lparr>cm_sphdr = CRSmall [1], cm_hdrs = CRSmall [], cm_body = CRChunk p\<rparr> 2 = Some h'
     \<and> term_times 3 h' \<lparr>cm_sphdr = CRSmall [1], cm_hdrs = CRSmall [], cm_body = CRChunk p\<rparr> = Some Map.empty"
proof -
  have "\<exists>h p. grid_chunk_alloc Map.empty 40 0 (Some (1, \<lambda>i. 0)) = Some (Inr (h, p))"
    by (simp add: grid_chunk_alloc_def grid_chunk_hdrsize_def chunk_struct_size_def store_l_def grid_putl_def
        grid_chunk_getdata_def Let_def)
  then obtain h a p where al: "grid_chunk_alloc Map.empty 40 0 (Some (1, \<lambda>i. 0)) = Some (Inr (h, (a, p)))"
    by fastforce
  let ?m = "\<lparr>cm_sphdr = CRSmall [1], cm_hdrs = CRSmall [], cm_body = CRChunk (a, p)\<rparr>"
  note g = chunk_alloc_good [OF al]
  have "owned h (msg_blocks ?m)"
    unfolding owned_def using g by (auto simp: msg_blocks_def split: option.splits)
  moreover have "good_ptr h (a, p)" using g by blast
  then have "good_msg h ?m" by (simp add: good_msg_def)
  moreover have "grid_msg_bulkcopy_cp ?m = ?m"
    by (simp add: grid_msg_bulkcopy_cp_def grid_chunkref_bulkcopy_cp_def)
  ultimately show ?thesis using bulk_copies_released [of h ?m 2] al by (auto simp: numeral_3_eq_3)
qed

text \<open>
  C25: The inproc message queue is first in, first out across all its chunk
  boundaries and its chunk cache: whatever sequence of messages it accepted is received
  complete and in order, after which receiving reports \<open>EAGAIN\<close>, and termination of a queue
  that still holds any of them does not abort.
\<close>

theorem msgqueue_fifo:
  assumes "length ms < 2 ^ 64" and "push_all mq_push ms (grid_msgqueue_init maxmem) = Some q"
  shows "(\<exists>q'. pop_times mq_pop (length ms) q = Some (ms, q') \<and> grid_msgqueue_recv q' = Some (Inl EAGAIN))
    \<and> (\<exists>q'. grid_msgqueue_term q = Some q')"
proof -
  have r: "mq_rep q ms" using mq.push_all_rep [OF mq_init_rep _ assms(2)] assms(1) by simp
  with mq_term_ok mq.fifo_order [OF mq_init_rep assms] mq_recv_empty show ?thesis by blast
qed

theorem msgqueue_fifo_witness:
  "\<exists>q q'. push_all mq_push (replicate 3 \<lparr>sphdr = [], hdrs = [], body = [5]\<rparr>) (grid_msgqueue_init 100) = Some q
     \<and> pop_times mq_pop 3 q = Some (replicate 3 \<lparr>sphdr = [], hdrs = [], body = [5]\<rparr>, q')"
proof -
  have "\<exists>q. push_all mq_push (replicate 3 \<lparr>sphdr = [], hdrs = [], body = [5]\<rparr>) (grid_msgqueue_init 100) = Some q"
    by (simp add: numeral_3_eq_3 mq_push_def grid_msgqueue_send_def grid_msgqueue_init_def msg_size_def Let_def
        fresh_chunk_def GRID_MSGQUEUE_GRANULARITY_def)
  then obtain q where q: "push_all mq_push (replicate 3 \<lparr>sphdr = [], hdrs = [], body = [5]\<rparr>) (grid_msgqueue_init 100) = Some q" ..
  from msgqueue_fifo [OF _ this] q show ?thesis by auto
qed

text \<open>
  Back-pressure of the inproc message queue. A queue holding the messages
  \<open>ms\<close> refuses a message exactly when it holds at least one and the sizes of the headers
  and bodies of its messages and the new one reach the limit; so an empty queue takes a message
  of any size, and no message is ever refused or dropped for another reason.
\<close>

theorem msgqueue_backpressure:
  assumes "mq_rep q ms" and "Suc (length ms) < 2 ^ 64"
  shows "if ms \<noteq> [] \<and> mq_maxmem q \<le> mq_sum (ms @ [m]) then grid_msgqueue_send m q = Some (Inl EAGAIN)
    else \<exists>q'. grid_msgqueue_send m q = Some (Inr q') \<and> mq_rep q' (ms @ [m])"
proof -
  have "mq_mem q = mq_sum ms" using assms(1) by (auto simp: mq_rep_def mq_holds_def)
  then have s: "mq_sum (ms @ [m]) = mq_mem q + msg_size m" by (simp add: mq_sum_def)
  have "grid_msgqueue_send m q = Some (Inl EAGAIN)" if "ms \<noteq> []" "mq_maxmem q \<le> mq_mem q + msg_size m"
    using that mq_count_0 [OF assms(1)] by (simp add: grid_msgqueue_send_def word_greater_zero_iff)
  with mq_send_ok [OF assms, of m] s show ?thesis
    using mq_send_ok [OF assms, of m] by auto
qed

theorem msgqueue_backpressure_witness:
  "\<exists>q'. grid_msgqueue_send \<lparr>sphdr = [], hdrs = [], body = [1, 2, 3]\<rparr> (grid_msgqueue_init 2) = Some (Inr q')
     \<and> grid_msgqueue_send \<lparr>sphdr = [], hdrs = [], body = []\<rparr> q' = Some (Inl EAGAIN)"
proof -
  let ?m = "\<lparr>sphdr = [], hdrs = [], body = [1, 2, 3]\<rparr>"
  obtain q' where q': "grid_msgqueue_send ?m (grid_msgqueue_init 2) = Some (Inr q')" "mq_rep q' [?m]"
    using msgqueue_backpressure [OF mq_init_rep [of 2], of ?m] by auto
  have "mq_maxmem q' = 2"
    using q'(1) by (auto simp: grid_msgqueue_send_def grid_msgqueue_init_def msg_size_def Let_def
        fresh_chunk_def GRID_MSGQUEUE_GRANULARITY_def)
  then have "mq_maxmem q' \<le> mq_sum ([?m] @ [\<lparr>sphdr = [], hdrs = [], body = []\<rparr>])"
    by (simp add: mq_sum_def msg_size_def)
  with msgqueue_backpressure [OF q'(2), of "\<lparr>sphdr = [], hdrs = [], body = []\<rparr>"] q'(1) show ?thesis by auto
qed

end
